(* ===== verification/Prelude.thy ===== *)
theory Prelude
  imports Complex_Main "HOL-Library.AList" "HOL-Library.Multiset" "HOL-Library.Sublist"
begin

text \<open>
  Shared base of the development: JavaScript values and library operations the modelled code
  uses (numbers with the non-finite values, \<open>String.prototype.trim\<close>, \<open>startsWith\<close>,
  \<open>toLowerCase\<close>, insertion-ordered \<open>Map\<close> and \<open>Set\<close>), and the generic lemmas the
  components share.

  \<^item> A JavaScript \<open>Map\<close> is an association list in insertion order: \<open>map_of\<close> is \<open>get\<close>,
    \<open>AList.update\<close> is \<open>set\<close> (an existing key keeps its place, a new one goes to the end) and
    \<open>AList.delete\<close> is \<open>delete\<close>.
  \<^item> A JavaScript \<open>Set\<close> is a duplicate-free list in insertion order.
  \<^item> A string is a list of 8-bit code units; \<open>trim\<close> and \<open>toLowerCase\<close> follow ECMAScript on
    that range.
\<close>

section \<open>Collections of rules\<close>

named_theorems invs \<open>invariant preservation, one rule per operation\<close>
named_theorems frame \<open>fields an operation leaves alone\<close>

section \<open>Numbers\<close>

text \<open>An IEEE number seen as a rational or one of the three non-finite values.\<close>

datatype jsnum = Fin rat | NaN | PosInf | NegInf

fun is_finite :: "jsnum \<Rightarrow> bool" where
  "is_finite (Fin _) = True"
| "is_finite _ = False"

section \<open>Insertion-ordered sets\<close>

definition set_add :: "'a \<Rightarrow> 'a list \<Rightarrow> 'a list" where
  "set_add x xs = (if x \<in> set xs then xs else xs @ [x])"

definition set_delete :: "'a \<Rightarrow> 'a list \<Rightarrow> 'a list" where
  "set_delete x xs = filter (\<lambda>y. y \<noteq> x) xs"

text \<open>\<open>[...new Set(values)]\<close>: first-seen unique values.\<close>

definition uniqueValues :: "'a list \<Rightarrow> 'a list" where
  "uniqueValues xs = fold set_add xs []"

lemma set_set_add [simp]: "set (set_add x xs) = insert x (set xs)"
  by (auto simp: set_add_def)

lemma distinct_set_add [simp]: "distinct (set_add x xs) = distinct xs"
  by (auto simp: set_add_def)

lemma set_set_delete [simp]: "set (set_delete x xs) = set xs - {x}"
  by (auto simp: set_delete_def)

lemma distinct_set_delete [simp]: "distinct xs \<Longrightarrow> distinct (set_delete x xs)"
  by (simp add: set_delete_def)

lemma length_set_delete_le [simp]: "length (set_delete x xs) \<le> length xs"
  by (simp add: set_delete_def)

lemma length_set_delete_less: "x \<in> set xs \<Longrightarrow> length (set_delete x xs) < length xs"
  by (auto simp: set_delete_def intro: length_filter_less)

lemma length_set_delete_distinct:
  "distinct xs \<Longrightarrow> x \<in> set xs \<Longrightarrow> Suc (length (set_delete x xs)) = length xs"
proof (induction xs)
  case Nil
  then show ?case by simp
next
  case (Cons a xs)
  show ?case
  proof (cases "a = x")
    case True
    with Cons.prems have "set_delete x xs = xs"
      by (auto simp: set_delete_def filter_id_conv)
    with True show ?thesis by (simp add: set_delete_def)
  next
    case False
    with Cons show ?thesis by (simp add: set_delete_def)
  qed
qed

lemma set_delete_notin [simp]: "x \<notin> set xs \<Longrightarrow> set_delete x xs = xs"
  by (auto simp: set_delete_def filter_id_conv)

lemma fold_set_add: "set (fold set_add xs acc) = set acc \<union> set xs"
  by (induction xs arbitrary: acc) auto

lemma distinct_fold_set_add: "distinct (fold set_add xs acc) = distinct acc"
  by (induction xs arbitrary: acc) auto

lemma set_uniqueValues [simp]: "set (uniqueValues xs) = set xs"
  by (simp add: uniqueValues_def fold_set_add)

lemma distinct_uniqueValues [simp]: "distinct (uniqueValues xs)"
  by (simp add: uniqueValues_def distinct_fold_set_add)

lemma fold_set_add_subset: "set xs \<subseteq> set acc \<Longrightarrow> fold set_add xs acc = acc"
  by (induction xs) (auto simp: set_add_def)

lemma fold_set_add_distinct: "distinct xs \<Longrightarrow> set xs \<inter> set acc = {} \<Longrightarrow> fold set_add xs acc = acc @ xs"
  by (induction xs arbitrary: acc) (auto simp: set_add_def)

lemma uniqueValues_distinct: "distinct xs \<Longrightarrow> uniqueValues xs = xs"
  by (simp add: uniqueValues_def fold_set_add_distinct)

lemma uniqueValues_twice: "distinct xs \<Longrightarrow> uniqueValues (xs @ xs) = xs"
  by (simp add: uniqueValues_def fold_set_add_distinct fold_set_add_subset)

lemma uniqueValues_Nil [simp]: "uniqueValues [] = []"
  by (simp add: uniqueValues_def)

lemma uniqueValues_eq_Nil [simp]: "uniqueValues xs = [] \<longleftrightarrow> xs = []"
  by (metis set_empty set_uniqueValues)

section \<open>Insertion-ordered maps\<close>

lemma map_of_update_same [simp]: "map_of (AList.update k v m) k = Some v"
  by (simp add: update_conv')

lemma map_of_update_other [simp]: "k' \<noteq> k \<Longrightarrow> map_of (AList.update k v m) k' = map_of m k'"
  by (simp add: update_conv')

lemma map_of_delete_same [simp]: "map_of (AList.delete k m) k = None"
  by (simp add: delete_conv')

lemma map_of_delete_if: "map_of (AList.delete k m) k' = (if k' = k then None else map_of m k')"
  by simp

lemma map_of_update_if: "map_of (AList.update k v m) k' = (if k' = k then Some v else map_of m k')"
  by simp

lemma mem_map_of: "distinct (map fst m) \<Longrightarrow> (k, v) \<in> set m \<longleftrightarrow> map_of m k = Some v"
  by (auto dest: map_of_SomeD)

section \<open>Strings\<close>

definition is_js_space :: "char \<Rightarrow> bool" where
  "is_js_space c \<longleftrightarrow> (let n = (of_char c :: nat) in (9 \<le> n \<and> n \<le> 13) \<or> n = 32 \<or> n = 160)"

definition js_trim :: "string \<Rightarrow> string" where
  "js_trim s = rev (dropWhile is_js_space (rev (dropWhile is_js_space s)))"

definition starts_with :: "string \<Rightarrow> string \<Rightarrow> bool" where
  "starts_with p s \<longleftrightarrow> take (length p) s = p"

definition ends_with :: "string \<Rightarrow> string \<Rightarrow> bool" where
  "ends_with p s \<longleftrightarrow> starts_with (rev p) (rev s)"

text \<open>ECMAScript \<open>toLowerCase\<close> on Latin-1: ASCII capitals and U+00C0..U+00DE except U+00D7.\<close>

definition lower_char :: "char \<Rightarrow> char" where
  "lower_char c = (let n = (of_char c :: nat) in
     if (65 \<le> n \<and> n \<le> 90) \<or> (192 \<le> n \<and> n \<le> 222 \<and> n \<noteq> 215) then char_of (n + 32) else c)"

definition js_lower :: "string \<Rightarrow> string" where
  "js_lower s = map lower_char s"

text \<open>\<open>s.includes(p)\<close>.\<close>

fun js_includes :: "string \<Rightarrow> string \<Rightarrow> bool" where
  "js_includes p [] = (p = [])"
| "js_includes p (c # s) = (starts_with p (c # s) \<or> js_includes p s)"

text \<open>\<open>String(n)\<close> for a natural number, most significant digit first.\<close>

fun string_of_nat :: "nat \<Rightarrow> string" where
  "string_of_nat n = (if n < 10 then [char_of (n + 48)]
     else string_of_nat (n div 10) @ [char_of (n mod 10 + 48)])"

declare string_of_nat.simps [simp del]

lemma starts_with_append [simp]: "starts_with p (p @ s)"
  by (simp add: starts_with_def)

lemma starts_with_iff: "starts_with p s \<longleftrightarrow> (\<exists>t. s = p @ t)"
  by (metis append_eq_conv_conj starts_with_def)

lemma js_includes_iff: "js_includes p s \<longleftrightarrow> (\<exists>a b. s = a @ p @ b)"
proof (induction s)
  case Nil
  then show ?case by simp
next
  case (Cons c s)
  have "(\<exists>a b. c # s = a @ p @ b) \<longleftrightarrow>
      (\<exists>b. c # s = p @ b) \<or> (\<exists>a b. s = a @ p @ b)"
    by (metis append_Cons append_eq_Cons_conv append_Nil)
  then show ?case by (simp add: Cons.IH starts_with_iff)
qed

lemma dropWhile_idem': "dropWhile P (dropWhile P xs) = dropWhile P xs"
  by (induction xs) auto

lemma js_trim_Nil [simp]: "js_trim [] = []"
  by (simp add: js_trim_def)

text \<open>Trimming twice is trimming once: the first pass leaves no space at either end.\<close>

lemma dropWhile_rev_dropWhile:
  "dropWhile P (rev (dropWhile P (rev (dropWhile P s)))) = rev (dropWhile P (rev (dropWhile P s)))"
proof (cases "dropWhile P s = []")
  case True
  then show ?thesis by (simp only: True) simp
next
  case False
  then obtain a t where at: "dropWhile P s = a # t" by (cases "dropWhile P s") auto
  then have a: "\<not> P a" by (metis hd_dropWhile list.sel(1) list.distinct(1))
  have "dropWhile P (rev t @ [a]) = dropWhile P (rev t) @ [a]"
    using a by (induction "rev t" arbitrary: t) (auto simp: dropWhile_append)
  then show ?thesis using a by (simp add: at)
qed

lemma js_trim_idem [simp]: "js_trim (js_trim s) = js_trim s"
  unfolding js_trim_def by (simp add: dropWhile_rev_dropWhile dropWhile_idem')

text \<open>
  \<open>normalizeStringEntries\<close> of packages/normalization-core: trim every entry, drop the empty ones.
\<close>

definition normalizeStringEntries :: "string list \<Rightarrow> string list" where
  "normalizeStringEntries xs = filter (\<lambda>s. s \<noteq> []) (map js_trim xs)"

text \<open>\<open>normalizeOptionalString\<close>: the trimmed string, absent when nothing is left.\<close>

definition normalizeOptionalString :: "string \<Rightarrow> string option" where
  "normalizeOptionalString s = (let t = js_trim s in if t = [] then None else Some t)"

lemma normalizeStringEntries_idem [simp]:
  "normalizeStringEntries (normalizeStringEntries xs) = normalizeStringEntries xs"
  unfolding normalizeStringEntries_def by (induction xs) auto

lemma normalizeStringEntries_nonempty: "[] \<notin> set (normalizeStringEntries xs)"
  by (auto simp: normalizeStringEntries_def)

lemma normalizeStringEntries_append [simp]:
  "normalizeStringEntries (xs @ ys) = normalizeStringEntries xs @ normalizeStringEntries ys"
  by (simp add: normalizeStringEntries_def)

text \<open>Trimming and lowering commute.\<close>

lemma of_char_char_of_small: "n < 256 \<Longrightarrow> (of_char (char_of n :: char) :: nat) = n"
  by (simp add: of_char_of)

lemma lower_char_code:
  "(of_char (lower_char c) :: nat) =
     (let n = (of_char c :: nat) in if (65 \<le> n \<and> n \<le> 90) \<or> (192 \<le> n \<and> n \<le> 222 \<and> n \<noteq> 215) then n + 32 else n)"
  by (auto simp: lower_char_def Let_def of_char_of)

lemma lower_char_idem [simp]: "lower_char (lower_char c) = lower_char c"
proof -
  have "(of_char (lower_char (lower_char c)) :: nat) = of_char (lower_char c)"
    unfolding lower_char_code [of "lower_char c"] by (simp add: lower_char_code Let_def)
  then show ?thesis by simp
qed

lemma is_js_space_lower [simp]: "is_js_space (lower_char c) = is_js_space c"
  by (auto simp: is_js_space_def lower_char_code Let_def)

lemma js_lower_idem [simp]: "js_lower (js_lower s) = js_lower s"
  by (simp add: js_lower_def)

lemma js_trim_lower: "js_trim (js_lower s) = js_lower (js_trim s)"
proof -
  have d: "dropWhile is_js_space (map lower_char t) = map lower_char (dropWhile is_js_space t)" for t
    by (induction t) auto
  have "js_trim (js_lower s) = rev (dropWhile is_js_space (map lower_char (rev (dropWhile is_js_space s))))"
    by (simp add: js_trim_def js_lower_def d rev_map)
  then show ?thesis by (simp only: d js_trim_def js_lower_def rev_map)
qed

lemma js_lower_Nil [simp]: "js_lower s = [] \<longleftrightarrow> s = []"
  by (simp add: js_lower_def)

text \<open>\<open>normalizeOptionalLowercaseString\<close> and \<open>normalizeLowercaseStringOrEmpty\<close> of string-coerce.\<close>

definition normalizeOptionalLowercaseString :: "string option \<Rightarrow> string option" where
  "normalizeOptionalLowercaseString v = map_option js_lower (Option.bind v normalizeOptionalString)"

lemma normalizeOptionalLowercaseString_Some:
  "normalizeOptionalLowercaseString (Some s) = (if js_trim s = [] then None else Some (js_lower (js_trim s)))"
  by (simp add: normalizeOptionalLowercaseString_def normalizeOptionalString_def Let_def)

definition normalizeLowercaseStringOrEmpty :: "string option \<Rightarrow> string" where
  "normalizeLowercaseStringOrEmpty v = (case normalizeOptionalLowercaseString v of Some s \<Rightarrow> s | None \<Rightarrow> [])"

lemma normalizeLowercaseStringOrEmpty_Some [simp]: "normalizeLowercaseStringOrEmpty (Some s) = js_lower (js_trim s)"
  by (simp add: normalizeLowercaseStringOrEmpty_def normalizeOptionalLowercaseString_Some js_lower_def)

lemma normalizeLowercaseStringOrEmpty_None [simp]: "normalizeLowercaseStringOrEmpty None = []"
  by (simp add: normalizeLowercaseStringOrEmpty_def normalizeOptionalLowercaseString_def)

lemma js_lower_append [simp]: "js_lower (s @ t) = js_lower s @ js_lower t"
  by (simp add: js_lower_def)

lemma length_js_lower [simp]: "length (js_lower s) = length s"
  by (simp add: js_lower_def)

lemma js_trim_id: "s = [] \<or> (\<not> is_js_space (hd s) \<and> \<not> is_js_space (last s)) \<Longrightarrow> js_trim s = s"
proof -
  have d: "dropWhile is_js_space t = t" if "t = [] \<or> \<not> is_js_space (hd t)" for t
    using that by (cases t) auto
  assume "s = [] \<or> (\<not> is_js_space (hd s) \<and> \<not> is_js_space (last s))"
  then show ?thesis by (auto simp: js_trim_def d hd_rev)
qed

lemma js_trim_ends: "js_trim s \<noteq> [] \<Longrightarrow> \<not> is_js_space (hd (js_trim s)) \<and> \<not> is_js_space (last (js_trim s))"
proof -
  assume n: "js_trim s \<noteq> []"
  let ?t = "dropWhile is_js_space (rev (dropWhile is_js_space s))"
  have "?t \<noteq> []" using n by (auto simp: js_trim_def)
  then have "\<not> is_js_space (hd ?t)" by (rule hd_dropWhile)
  moreover have "js_trim s = dropWhile is_js_space (js_trim s)"
    unfolding js_trim_def by (simp add: dropWhile_rev_dropWhile)
  then have "\<not> is_js_space (hd (js_trim s))" using n by (metis hd_dropWhile)
  ultimately show ?thesis using \<open>?t \<noteq> []\<close> by (simp add: js_trim_def last_rev)
qed

text \<open>\<open>parts.join(sep)\<close> and \<open>s.split(c)\<close> for a one-character separator.\<close>

fun join_with :: "string \<Rightarrow> string list \<Rightarrow> string" where
  "join_with sep [] = []"
| "join_with sep [x] = x"
| "join_with sep (x # y # xs) = x @ sep @ join_with sep (y # xs)"

fun js_split :: "char \<Rightarrow> string \<Rightarrow> string list" where
  "js_split c [] = [[]]"
| "js_split c (x # s) = (if x = c then [] # js_split c s else (case js_split c s of p # ps \<Rightarrow> (x # p) # ps | [] \<Rightarrow> [[x]]))"

lemma js_split_nonempty [simp]: "js_split c s \<noteq> []"
  by (induction s) (auto split: list.split)

lemma join_split: "join_with [c] (js_split c s) = s"
proof (induction s)
  case (Cons x s)
  obtain p ps where p: "js_split c s = p # ps" using js_split_nonempty by (cases "js_split c s") auto
  then show ?case using Cons by (cases ps) auto
qed simp

text \<open>\<open>s.lastIndexOf(p)\<close> as an option, for a non-empty pattern.\<close>

fun last_index :: "string \<Rightarrow> string \<Rightarrow> nat option" where
  "last_index p [] = None"
| "last_index p (c # s) =
     (case last_index p s of Some i \<Rightarrow> Some (Suc i) | None \<Rightarrow> if starts_with p (c # s) then Some 0 else None)"

section \<open>Memo tables\<close>

text \<open>
  A bounded table of results in front of a function, as the caches of the code: a lookup answers from the
  table, or computes and stores. The laws say that a stored value is the function's and that storing adds
  at most the new pair; \<open>consistent\<close> says that inputs with the same key have the same result. Then a run
  of lookups from the empty table gives the function's own results, whatever was evicted meanwhile.
\<close>

fun run_lookups :: "('i \<Rightarrow> ('k \<times> 'v) list \<Rightarrow> 'r \<times> ('k \<times> 'v) list) \<Rightarrow> 'i list \<Rightarrow> ('k \<times> 'v) list \<Rightarrow> 'r list \<times> ('k \<times> 'v) list" where
  "run_lookups look [] m = ([], m)"
| "run_lookups look (i # is) m =
     (let (r, m1) = look i m; (rs, m2) = run_lookups look is m1 in (r # rs, m2))"

locale memo_table =
  fixes key :: "'i \<Rightarrow> 'k" and f :: "'i \<Rightarrow> 'r" and stored :: "'v \<Rightarrow> 'r" and valid :: "'i \<Rightarrow> bool" and limit :: nat
    and look :: "'i \<Rightarrow> ('k \<times> 'v) list \<Rightarrow> 'r \<times> ('k \<times> 'v) list"
  assumes answers: "fst (look i m) = f i \<or> (\<exists>v. (key i, v) \<in> set m \<and> fst (look i m) = stored v)"
    and stores: "set (snd (look i m)) \<subseteq> set m \<union> {(key i, v) | v. stored v = f i}"
    and bounded: "length m \<le> limit \<Longrightarrow> length (snd (look i m)) \<le> limit"
    and consistent: "valid i \<Longrightarrow> valid j \<Longrightarrow> key i = key j \<Longrightarrow> f i = f j"
begin

definition coherent :: "('k \<times> 'v) list \<Rightarrow> bool" where
  "coherent m \<longleftrightarrow> (\<forall>(k, v) \<in> set m. \<exists>j. valid j \<and> key j = k \<and> stored v = f j)"

lemma look_value:
  assumes "coherent m" "valid i"
  shows "fst (look i m) = f i"
proof -
  have "stored v = f i" if kv: "(key i, v) \<in> set m" for v
  proof -
    obtain j where "valid j" "key j = key i" "stored v = f j" using assms(1) kv unfolding coherent_def by blast
    with consistent [OF _ assms(2)] show ?thesis by simp
  qed
  with answers [of i m] show ?thesis by auto
qed

lemma look_coherent: "coherent m \<Longrightarrow> valid i \<Longrightarrow> coherent (snd (look i m))"
  using stores [of i m] by (fastforce simp: coherent_def)

lemma runs_transparent:
  assumes "coherent m" "\<forall>i \<in> set is. valid i"
  shows "fst (run_lookups look is m) = map f is"
  using assms
proof (induction "is" arbitrary: m)
  case (Cons i "is")
  then show ?case using look_value [of m i] look_coherent [of m i] by (auto simp: split_beta)
qed simp

lemma runs_bounded: "length m \<le> limit \<Longrightarrow> length (snd (run_lookups look is m)) \<le> limit"
  by (induction "is" arbitrary: m) (auto simp: split_beta bounded)

lemma coherent_Nil [simp]: "coherent []"
  by (simp add: coherent_def)

end

text \<open>\<open>pruneMapToMaxSize\<close> of src/src/infra/map-size.ts: drop the oldest entries.\<close>

definition pruneMapToMaxSize :: "nat \<Rightarrow> ('k \<times> 'v) list \<Rightarrow> ('k \<times> 'v) list" where
  "pruneMapToMaxSize maxSize m = drop (length m - maxSize) m"

lemma set_prune: "set (pruneMapToMaxSize n m) \<subseteq> set m"
  by (simp add: pruneMapToMaxSize_def set_drop_subset)

lemma length_prune: "length (pruneMapToMaxSize n m) \<le> n"
  by (simp add: pruneMapToMaxSize_def)

lemma set_update_subset: "set (AList.update k v m) \<subseteq> insert (k, v) (set m)"
  by (induction m) auto

lemma set_prune_updateD: "x \<in> set (pruneMapToMaxSize n (AList.update k v m)) \<Longrightarrow> x = (k, v) \<or> x \<in> set m"
  using set_prune [of n "AList.update k v m"] set_update_subset [of k v m] by blast

section \<open>Sorting\<close>

text \<open>A stable insertion sort: what \<open>toSorted\<close> computes for a comparator that is a total preorder.\<close>

fun insort_by :: "('a \<Rightarrow> 'a \<Rightarrow> int) \<Rightarrow> 'a \<Rightarrow> 'a list \<Rightarrow> 'a list" where
  "insort_by cmp x [] = [x]"
| "insort_by cmp x (y # ys) = (if cmp x y \<le> 0 then x # y # ys else y # insort_by cmp x ys)"

definition sort_by :: "('a \<Rightarrow> 'a \<Rightarrow> int) \<Rightarrow> 'a list \<Rightarrow> 'a list" where
  "sort_by cmp xs = foldr (insort_by cmp) xs []"

lemma sort_by_Nil [simp]: "sort_by cmp [] = []"
  by (simp add: sort_by_def)

lemma mset_insort_by [simp]: "mset (insort_by cmp x xs) = add_mset x (mset xs)"
  by (induction xs) auto

lemma mset_sort_by [simp]: "mset (sort_by cmp xs) = mset xs"
  by (induction xs) (auto simp: sort_by_def)

lemma set_insort_by [simp]: "set (insort_by cmp x xs) = insert x (set xs)"
  by (induction xs) auto

lemma set_sort_by [simp]: "set (sort_by cmp xs) = set xs"
  by (induction xs) (auto simp: sort_by_def)

lemma length_sort_by [simp]: "length (sort_by cmp xs) = length xs"
  using mset_sort_by by (rule mset_eq_length)

lemma distinct_map_sort_by [simp]: "distinct (map f (sort_by cmp xs)) \<longleftrightarrow> distinct (map f xs)"
  by (metis mset_sort_by mset_map mset_eq_imp_distinct_iff)

lemma distinct_insort_by: "distinct (insort_by cmp x xs) \<longleftrightarrow> x \<notin> set xs \<and> distinct xs"
  by (induction xs) auto

lemma distinct_sort_by: "distinct xs \<Longrightarrow> distinct (sort_by cmp xs)"
  by (metis mset_sort_by mset_eq_imp_distinct_iff)

text \<open>A list in order is sorted already; a map that keeps the comparison commutes with sorting.\<close>

lemma sort_by_sorted: "sorted_wrt (\<lambda>x y. cmp x y \<le> 0) xs \<Longrightarrow> sort_by cmp xs = xs"
proof (induction xs)
  case (Cons x xs)
  then show ?case by (cases xs) (auto simp: sort_by_def)
qed (simp add: sort_by_def)

lemma map_insort_by:
  assumes "\<And>x y. cmp x y \<le> 0 \<longleftrightarrow> cmp' (f x) (f y) \<le> 0"
  shows "map f (insort_by cmp x xs) = insort_by cmp' (f x) (map f xs)"
  by (induction xs) (simp_all add: assms)

lemma map_sort_by:
  assumes "\<And>x y. cmp x y \<le> 0 \<longleftrightarrow> cmp' (f x) (f y) \<le> 0"
  shows "map f (sort_by cmp xs) = sort_by cmp' (map f xs)"
proof (induction xs)
  case (Cons x xs)
  then show ?case using map_insort_by [of cmp cmp' f, OF assms] by (simp add: sort_by_def)
qed (simp add: sort_by_def)

lemma insort_by_cong:
  "\<forall>y \<in> set xs. cmp x y \<le> 0 \<longleftrightarrow> cmp' x y \<le> 0 \<Longrightarrow> insort_by cmp x xs = insort_by cmp' x xs"
  by (induction xs) simp_all

lemma sort_by_cong:
  "\<forall>x \<in> set xs. \<forall>y \<in> set xs. cmp x y \<le> 0 \<longleftrightarrow> cmp' x y \<le> 0 \<Longrightarrow> sort_by cmp xs = sort_by cmp' xs"
proof (induction xs)
  case (Cons x xs)
  then have "sort_by cmp xs = sort_by cmp' xs" by simp
  moreover have "insort_by cmp x (sort_by cmp' xs) = insort_by cmp' x (sort_by cmp' xs)"
    using Cons.prems by (intro insort_by_cong) simp
  ultimately show ?case by (simp add: sort_by_def)
qed (simp add: sort_by_def)

text \<open>
  What a comparator has to promise for its sort: it is antisymmetric in sign and transitive. The sort is then in
  order, and stable: it keeps the order within any part of the list.
\<close>

locale comparator =
  fixes cmp :: "'a \<Rightarrow> 'a \<Rightarrow> int"
  assumes cmp_flip: "cmp y x = - cmp x y"
    and cmp_trans: "cmp x y \<le> 0 \<Longrightarrow> cmp y z \<le> 0 \<Longrightarrow> cmp x z \<le> 0"
begin

lemma sorted_insort_by:
  "sorted_wrt (\<lambda>x y. cmp x y \<le> 0) xs \<Longrightarrow> sorted_wrt (\<lambda>x y. cmp x y \<le> 0) (insort_by cmp x xs)"
proof (induction xs)
  case (Cons y ys)
  show ?case
  proof (cases "cmp x y \<le> 0")
    case True
    with Cons.prems show ?thesis using cmp_trans [OF True] by auto
  next
    case False
    then have "cmp y x \<le> 0" using cmp_flip [of x y] by simp
    with False Cons show ?thesis by auto
  qed
qed simp

lemma sorted_sort_by: "sorted_wrt (\<lambda>x y. cmp x y \<le> 0) (sort_by cmp xs)"
  by (induction xs) (simp_all add: sort_by_def sorted_insort_by)

lemma insort_by_first: "\<forall>y \<in> set xs. cmp x y \<le> 0 \<Longrightarrow> insort_by cmp x xs = x # xs"
  by (cases xs) simp_all

lemma filter_insort_by:
  "sorted_wrt (\<lambda>x y. cmp x y \<le> 0) xs \<Longrightarrow>
   filter P (insort_by cmp x xs) = (if P x then insort_by cmp x (filter P xs) else filter P xs)"
proof (induction xs)
  case (Cons y ys)
  show ?case
  proof (cases "cmp x y \<le> 0")
    case True
    then have "\<forall>z \<in> set (y # ys). cmp x z \<le> 0" using Cons.prems cmp_trans [OF True] by auto
    then have "\<forall>z \<in> set (filter P (y # ys)). cmp x z \<le> 0" by simp
    from insort_by_first [OF this] show ?thesis using True by simp
  qed (use Cons in simp)
qed simp

lemma insort_by_append1: "\<forall>y \<in> set ys. cmp x y \<le> 0 \<Longrightarrow> insort_by cmp x (xs @ ys) = insort_by cmp x xs @ ys"
  by (induction xs) (simp_all add: insort_by_first)

lemma insort_by_append2: "\<forall>y \<in> set xs. \<not> cmp x y \<le> 0 \<Longrightarrow> insort_by cmp x (xs @ ys) = xs @ insort_by cmp x ys"
  by (induction xs) simp_all

text \<open>When everything in one part comes strictly before everything in the other, the parts are sorted on their own.\<close>

lemma sort_by_partition:
  assumes "\<And>x y. x \<in> set xs \<Longrightarrow> y \<in> set xs \<Longrightarrow> P x \<Longrightarrow> \<not> P y \<Longrightarrow> cmp x y \<le> 0 \<and> \<not> cmp y x \<le> 0"
  shows "sort_by cmp xs = sort_by cmp (filter P xs) @ sort_by cmp (filter (\<lambda>x. \<not> P x) xs)"
  using assms
proof (induction xs)
  case (Cons x xs)
  then have IH: "sort_by cmp xs = sort_by cmp (filter P xs) @ sort_by cmp (filter (\<lambda>x. \<not> P x) xs)" by simp
  have e: "sort_by cmp (x # ys) = insort_by cmp x (sort_by cmp ys)" for ys by (simp add: sort_by_def)
  show ?case
  proof (cases "P x")
    case True
    then have "\<forall>y \<in> set (sort_by cmp (filter (\<lambda>x. \<not> P x) xs)). cmp x y \<le> 0" using Cons.prems [of x] by simp
    from insort_by_append1 [OF this] show ?thesis using True by (simp add: e IH)
  next
    case False
    then have "\<forall>y \<in> set (sort_by cmp (filter P xs)). \<not> cmp x y \<le> 0" using Cons.prems [of _ x] by simp
    from insort_by_append2 [OF this] show ?thesis using False by (simp add: e IH)
  qed
qed (simp add: sort_by_def)

text \<open>A strictly increasing list is what sorting any arrangement of it gives.\<close>

lemma strictly_sorted_unique:
  "sorted_wrt (\<lambda>x y. cmp x y \<le> 0) xs \<Longrightarrow> sorted_wrt (\<lambda>x y. cmp x y < 0) ys \<Longrightarrow> mset xs = mset ys \<Longrightarrow> xs = ys"
proof (induction ys arbitrary: xs)
  case (Cons y ys)
  then obtain x xs' where xs: "xs = x # xs'" by (cases xs) auto
  have "x = y"
  proof (rule ccontr)
    assume n: "x \<noteq> y"
    have "set xs = set (y # ys)" using Cons.prems(3) by (rule mset_eq_setD)
    then have "y \<in> set xs'" "x \<in> set ys" using n xs by auto
    then have "cmp x y \<le> 0" "cmp y x < 0" using Cons.prems(1,2) xs by auto
    then show False using cmp_flip [of x y] by simp
  qed
  then show ?case using Cons.IH [of xs'] Cons.prems xs by simp
qed simp

lemma sort_by_unique: "sorted_wrt (\<lambda>x y. cmp x y < 0) ys \<Longrightarrow> mset xs = mset ys \<Longrightarrow> sort_by cmp xs = ys"
  by (rule strictly_sorted_unique [OF sorted_sort_by]) (simp_all add: mset_sort_by)

lemma filter_sort_by: "filter P (sort_by cmp xs) = sort_by cmp (filter P xs)"
proof (induction xs)
  case (Cons x xs)
  then show ?case using filter_insort_by [OF sorted_sort_by, of P x xs] by (simp add: sort_by_def)
qed (simp add: sort_by_def)

end

text \<open>
  A comparator that orders its type strictly: zero only on equal values. Sorting with one is canonical: it depends on the set of
  the elements only.
\<close>

locale strict_comparator = comparator +
  assumes cmp_zero: "cmp x y = 0 \<longleftrightarrow> x = y"
begin

lemma sorted_unique:
  "sorted_wrt (\<lambda>x y. cmp x y \<le> 0) xs \<Longrightarrow> sorted_wrt (\<lambda>x y. cmp x y \<le> 0) ys \<Longrightarrow>
   distinct xs \<Longrightarrow> distinct ys \<Longrightarrow> set xs = set ys \<Longrightarrow> xs = ys"
proof (induction xs arbitrary: ys)
  case Nil
  then show ?case by simp
next
  case (Cons x xs)
  then obtain y ys' where ys: "ys = y # ys'" by (cases ys) auto
  have "x = y"
  proof (rule ccontr)
    assume "x \<noteq> y"
    then have "y \<in> set xs" "x \<in> set ys'" using Cons.prems(5) ys by (metis list.set_intros(1) set_ConsD)+
    then have "cmp x y \<le> 0" "cmp y x \<le> 0" using Cons.prems(1,2) ys by auto
    then have "cmp x y = 0" using cmp_flip [of x y] by simp
    with \<open>x \<noteq> y\<close> show False using cmp_zero by blast
  qed
  moreover have "set xs = set ys'" using Cons.prems(3-5) ys \<open>x = y\<close> by (metis distinct.simps(2) insert_ident list.simps(15))
  ultimately show ?case using Cons.IH [of ys'] Cons.prems ys by simp
qed

lemma sort_by_canonical:
  "distinct xs \<Longrightarrow> distinct ys \<Longrightarrow> set xs = set ys \<Longrightarrow> sort_by cmp xs = sort_by cmp ys"
  by (rule sorted_unique) (simp_all add: sorted_sort_by distinct_sort_by)

end

lemma strict_comparator_map:
  assumes "strict_comparator cmp" and "inj f"
  shows "strict_comparator (\<lambda>x y. cmp (f x) (f y))"
proof
  note c = strict_comparator.cmp_zero [OF assms(1)] comparator.cmp_flip [OF strict_comparator.axioms(1) [OF assms(1)]] comparator.cmp_trans [OF strict_comparator.axioms(1) [OF assms(1)]]
  show "cmp (f x) (f y) = 0 \<longleftrightarrow> x = y" for x y using c(1) inj_eq [OF assms(2)] by blast
  show "cmp (f y) (f x) = - cmp (f x) (f y)" for x y by (rule c(2))
  show "cmp (f x) (f y) \<le> 0 \<Longrightarrow> cmp (f y) (f z) \<le> 0 \<Longrightarrow> cmp (f x) (f z) \<le> 0" for x y z by (rule c(3))
qed

text \<open>\<open>a || b\<close> of two comparators: the first unless it is zero.\<close>

definition cmp_then :: "int \<Rightarrow> int \<Rightarrow> int" where
  "cmp_then a b = (if a \<noteq> 0 then a else b)"

lemma comparator_key: "comparator (\<lambda>x y. f x - f y)" for f :: "'a \<Rightarrow> int"
  by unfold_locales simp_all

lemma comparator_keys: "comparator (\<lambda>x y. cmp_then (f x - f y) (g x - g y))" for f g :: "'a \<Rightarrow> int"
  by unfold_locales (auto simp: cmp_then_def split: if_splits)

lemma strict_comparator_prod:
  assumes "strict_comparator cmp1" and "strict_comparator cmp2"
  shows "strict_comparator (\<lambda>x y. cmp_then (cmp1 (fst x) (fst y)) (cmp2 (snd x) (snd y)))"
proof
  note c = strict_comparator.cmp_zero [OF assms(1)] comparator.cmp_flip [OF strict_comparator.axioms(1) [OF assms(1)]] comparator.cmp_trans [OF strict_comparator.axioms(1) [OF assms(1)]]
  note d = strict_comparator.cmp_zero [OF assms(2)] comparator.cmp_flip [OF strict_comparator.axioms(1) [OF assms(2)]] comparator.cmp_trans [OF strict_comparator.axioms(1) [OF assms(2)]]
  show "cmp_then (cmp1 (fst x) (fst y)) (cmp2 (snd x) (snd y)) = 0 \<longleftrightarrow> x = y" for x y
    by (auto simp: cmp_then_def c(1) d(1) prod_eq_iff)
  show "cmp_then (cmp1 (fst y) (fst x)) (cmp2 (snd y) (snd x)) = - cmp_then (cmp1 (fst x) (fst y)) (cmp2 (snd x) (snd y))" for x y
    using c(2) [of "fst x" "fst y"] d(2) [of "snd x" "snd y"] by (simp add: cmp_then_def)
  show "cmp_then (cmp1 (fst x) (fst z)) (cmp2 (snd x) (snd z)) \<le> 0"
    if "cmp_then (cmp1 (fst x) (fst y)) (cmp2 (snd x) (snd y)) \<le> 0" "cmp_then (cmp1 (fst y) (fst z)) (cmp2 (snd y) (snd z)) \<le> 0" for x y z
  proof (cases "fst x = fst y"; cases "fst y = fst z")
    assume "fst x = fst y" "fst y = fst z"
    with that c(1) d(3) show ?thesis by (simp add: cmp_then_def)
  next
    assume a: "fst x = fst y" "fst y \<noteq> fst z"
    then have "cmp1 (fst y) (fst z) \<noteq> 0" using c(1) by blast
    with that a show ?thesis by (simp add: cmp_then_def)
  next
    assume a: "fst x \<noteq> fst y" "fst y = fst z"
    then have "cmp1 (fst x) (fst y) \<noteq> 0" using c(1) by blast
    with that a show ?thesis by (simp add: cmp_then_def)
  next
    assume a: "fst x \<noteq> fst y" "fst y \<noteq> fst z"
    then have n: "cmp1 (fst x) (fst y) \<noteq> 0" "cmp1 (fst y) (fst z) \<noteq> 0" using c(1) by blast+
    with that have le: "cmp1 (fst x) (fst y) \<le> 0" "cmp1 (fst y) (fst z) \<le> 0" by (simp_all add: cmp_then_def)
    then have "cmp1 (fst x) (fst z) \<le> 0" by (rule c(3))
    moreover have "cmp1 (fst x) (fst z) \<noteq> 0"
    proof
      assume "cmp1 (fst x) (fst z) = 0"
      then have "fst x = fst z" using c(1) by blast
      then show False using le n(1) c(2) [of "fst x" "fst y"] by simp
    qed
    ultimately show ?thesis by (simp add: cmp_then_def)
  qed
qed

section \<open>Arrays by index\<close>

fun findIndex :: "('a \<Rightarrow> bool) \<Rightarrow> 'a list \<Rightarrow> nat option" where
  "findIndex P [] = None"
| "findIndex P (x # xs) = (if P x then Some 0 else map_option Suc (findIndex P xs))"

text \<open>\<open>splice(k, 0, x)\<close>.\<close>

definition spliceAt :: "nat \<Rightarrow> 'a \<Rightarrow> 'a list \<Rightarrow> 'a list" where
  "spliceAt k x xs = take k xs @ x # drop k xs"

text \<open>The elements of an array other than the object at index \<open>i\<close>, in order.\<close>

definition leaveOut :: "nat \<Rightarrow> 'a list \<Rightarrow> 'a list" where
  "leaveOut i xs = map snd (filter (\<lambda>(j, _). j \<noteq> i) (enumerate 0 xs))"

lemma findIndex_Some: "findIndex P xs = Some i \<Longrightarrow> i < length xs \<and> P (xs ! i)"
  by (induction xs arbitrary: i) (auto split: if_splits)

lemma findIndex_first: "findIndex P xs = Some i \<Longrightarrow> j < i \<Longrightarrow> \<not> P (xs ! j)"
  by (induction xs arbitrary: i j) (auto split: if_splits simp: nth_Cons split: nat.splits)

lemma findIndex_None [simp]: "findIndex P xs = None \<longleftrightarrow> (\<forall>x \<in> set xs. \<not> P x)"
  by (induction xs) auto

lemma findIndex_map: "findIndex P (map f xs) = findIndex (\<lambda>x. P (f x)) xs"
  by (induction xs) simp_all

lemma map_spliceAt [simp]: "map f (spliceAt k x xs) = spliceAt k (f x) (map f xs)"
  by (simp add: spliceAt_def take_map drop_map)

lemma mset_spliceAt [simp]: "mset (spliceAt k x xs) = add_mset x (mset xs)"
proof -
  have "mset (spliceAt k x xs) = add_mset x (mset (take k xs @ drop k xs))" by (simp del: append_take_drop_id add: spliceAt_def)
  then show ?thesis by (simp only: append_take_drop_id)
qed

lemma set_spliceAt [simp]: "set (spliceAt k x xs) = insert x (set xs)"
  by (metis mset_spliceAt set_mset_mset set_mset_add_mset_insert)

lemma leaveOut_from: "map snd (filter (\<lambda>(j, _). j \<noteq> n + i) (enumerate n xs)) = take i xs @ drop (Suc i) xs"
proof (induction xs arbitrary: n i)
  case (Cons x xs)
  have all: "map snd (filter (\<lambda>(j, _). j \<noteq> n) (enumerate (Suc n) xs)) = xs"
    by (subst filter_True) (auto simp: in_set_enumerate_eq)
  show ?case
  proof (cases i)
    case (Suc k)
    then show ?thesis using Cons.IH [of "Suc n" k] by simp
  qed (simp add: all)
qed simp

lemma leaveOut_eq: "leaveOut i xs = take i xs @ drop (Suc i) xs"
  using leaveOut_from [of 0 i xs] by (simp add: leaveOut_def)

lemma map_leaveOut: "map f (leaveOut i xs) = leaveOut i (map f xs)"
  by (simp add: leaveOut_eq take_map drop_map)

lemma set_leaveOut: "set (leaveOut i xs) \<subseteq> set xs"
  using set_take_subset [of i xs] set_drop_subset [of "Suc i" xs] by (auto simp: leaveOut_eq)

lemma leaveOut_filter:
  assumes "i < length xs" and "distinct (map f xs)"
  shows "leaveOut i xs = filter (\<lambda>x. f x \<noteq> f (xs ! i)) xs"
proof -
  have xs: "xs = take i xs @ xs ! i # drop (Suc i) xs" using assms(1) by (rule id_take_nth_drop)
  define a b where "a = take i xs" and "b = drop (Suc i) xs"
  have e: "xs = a @ xs ! i # b" using xs by (simp add: a_def b_def)
  have "distinct (map f (a @ xs ! i # b))" using assms(2) e by simp
  then have "\<forall>x \<in> set a \<union> set b. f x \<noteq> f (xs ! i)" by (auto simp: image_iff)
  then have "filter (\<lambda>x. f x \<noteq> f (xs ! i)) (a @ xs ! i # b) = a @ b" by simp
  then show ?thesis using e by (simp only: leaveOut_eq a_def b_def)
qed

section \<open>Bytes and code units\<close>

text \<open>\<open>TextEncoder\<close> on 8-bit code units.\<close>

definition utf8Char :: "char \<Rightarrow> nat list" where
  "utf8Char c = (let n = (of_char c :: nat) in if n < 128 then [n] else [192 + n div 64, 128 + n mod 64])"

definition utf8Bytes :: "string \<Rightarrow> nat list" where
  "utf8Bytes s = concat (map utf8Char s)"

fun compareBytes :: "nat list \<Rightarrow> nat list \<Rightarrow> int" where
  "compareBytes (x # xs) (y # ys) = (if x \<noteq> y then int x - int y else compareBytes xs ys)"
| "compareBytes xs ys = int (length xs) - int (length ys)"

lemma compareBytes_zero: "compareBytes xs ys = 0 \<longleftrightarrow> xs = ys"
  by (induction xs ys rule: compareBytes.induct) auto

lemma compareBytes_flip: "compareBytes ys xs = - compareBytes xs ys"
  by (induction xs ys rule: compareBytes.induct) auto

lemma compareBytes_trans:
  "compareBytes xs ys \<le> 0 \<Longrightarrow> compareBytes ys zs \<le> 0 \<Longrightarrow> compareBytes xs zs \<le> 0"
proof (induction xs ys arbitrary: zs rule: compareBytes.induct)
  case (1 x xs y ys)
  then show ?case by (cases zs) (auto split: if_splits)
next
  case "2_1"
  then show ?case by (cases zs) auto
next
  case "2_2"
  then show ?case by (cases zs) (auto split: if_splits)
qed

text \<open>UTF-8 is a prefix code on 8-bit units, so it loses nothing.\<close>

lemma utf8Char_not_Nil [simp]: "utf8Char c \<noteq> []"
  by (simp add: utf8Char_def Let_def)

lemma utf8Char_prefix: "utf8Char c @ xs = utf8Char d @ ys \<Longrightarrow> c = d \<and> xs = ys"
proof -
  assume a: "utf8Char c @ xs = utf8Char d @ ys"
  let ?m = "of_char c :: nat" and ?n = "of_char d :: nat"
  have "?m = ?n \<and> xs = ys"
  proof (cases "?m < 128"; cases "?n < 128")
    assume "?m < 128" "?n < 128"
    with a show ?thesis by (simp add: utf8Char_def)
  next
    assume "?m < 128" "\<not> ?n < 128"
    with a show ?thesis by (auto simp: utf8Char_def Let_def)
  next
    assume "\<not> ?m < 128" "?n < 128"
    with a show ?thesis by (auto simp: utf8Char_def Let_def)
  next
    assume b: "\<not> ?m < 128" "\<not> ?n < 128"
    with a have "?m div 64 = ?n div 64" "?m mod 64 = ?n mod 64" "xs = ys"
      by (simp_all add: utf8Char_def Let_def)
    then show ?thesis by (metis div_mult_mod_eq)
  qed
  then show ?thesis by simp
qed

lemma utf8Bytes_inj: "inj utf8Bytes"
proof (rule injI)
  show "utf8Bytes s = utf8Bytes t \<Longrightarrow> s = t" for s t
  proof (induction s arbitrary: t)
    case Nil
    then show ?case by (cases t) (auto simp: utf8Bytes_def)
  next
    case (Cons c s)
    then obtain d t' where t: "t = d # t'" by (cases t) (auto simp: utf8Bytes_def)
    with Cons.prems have "utf8Char c @ utf8Bytes s = utf8Char d @ utf8Bytes t'" by (simp add: utf8Bytes_def)
    from utf8Char_prefix [OF this] Cons.IH t show ?case by simp
  qed
qed

lemma strict_bytes: "strict_comparator compareBytes"
  by unfold_locales (auto simp: compareBytes_zero intro: compareBytes_flip compareBytes_trans)

text \<open>The default order of \<open>toSorted\<close> on strings, by code unit.\<close>

definition compareCodeUnits :: "string \<Rightarrow> string \<Rightarrow> int" where
  "compareCodeUnits a b = compareBytes (map of_char a) (map of_char b)"

lemma strict_code_units: "strict_comparator compareCodeUnits"
proof -
  have "inj (map (of_char :: char \<Rightarrow> nat))" by (rule inj_mapI) (simp add: inj_def)
  from strict_comparator_map [OF strict_bytes this] show ?thesis by (simp add: compareCodeUnits_def [abs_def])
qed

section \<open>JSON\<close>

text \<open>An untyped JSON value.\<close>

datatype json =
    JsUndefined
  | JsNull
  | JsBool bool
  | JsNum rat
  | JsStr string
  | JsArr "json list"
  | JsObj "(string \<times> json) list"

section \<open>Rows of a table\<close>

text \<open>\<open>UPDATE ... WHERE\<close> on the rows of a table in any fixed order, and a loop of such statements over values with their own keys.\<close>

definition updateWhere :: "('r \<Rightarrow> bool) \<Rightarrow> ('r \<Rightarrow> 'r) \<Rightarrow> 'r list \<Rightarrow> 'r list" where
  "updateWhere P f rows = map (\<lambda>r. if P r then f r else r) rows"

lemma updateWhere_map: "(\<And>r. g (f r) = g r) \<Longrightarrow> map g (updateWhere P f rows) = map g rows"
  by (simp add: updateWhere_def)

lemma foldl_updates:
  assumes "distinct (map key xs)" "\<And>x r. name (upd x r) = name r"
  shows "foldl (\<lambda>rs x. updateWhere (\<lambda>r. name r = key x) (upd x) rs) rows xs =
    map (\<lambda>r. case find (\<lambda>x. key x = name r) xs of Some x \<Rightarrow> upd x r | None \<Rightarrow> r) rows"
  using assms(1)
proof (induction xs arbitrary: rows)
  case (Cons x xs)
  have "find (\<lambda>y. key y = key x) xs = None" using Cons.prems by (auto simp: find_None_iff) (metis image_eqI)
  then show ?case using Cons by (auto simp: updateWhere_def assms(2))
qed simp

lemma find_key: "distinct (map key xs) \<Longrightarrow> x \<in> set xs \<Longrightarrow> find (\<lambda>y. key y = key x) xs = Some x"
proof (induction xs)
  case (Cons y ys)
  then show ?case by (cases "key y = key x") (auto simp: rev_image_eqI)
qed simp

end
