(* ===== verification/LaneQueue.thy ===== *)
theory LaneQueue
  imports Prelude
begin

text \<open>
  The queue of one command lane (src/src/process/command-queue.state.ts): a growable ring buffer
  per priority, and three rings (foreground, normal, background) as one priority queue.

  The locales state what a client of a queue relies on: \<open>consumer\<close> is the pop side (what \<open>peek\<close>
  and \<open>pop\<close> return in terms of the abstract contents), \<open>fifo\<close> adds a push at the end. The ring is a
  \<open>fifo\<close>; the lane queue is a \<open>consumer\<close> whose contents are the three rings one after the other.
\<close>

section \<open>Interfaces\<close>

locale consumer =
  fixes contents :: "'q \<Rightarrow> 'e list"
    and peek :: "'q \<Rightarrow> 'e option"
    and pop :: "'q \<Rightarrow> 'e option \<times> 'q"
    and inv :: "'q \<Rightarrow> bool"
  assumes peek_hd: "inv q \<Longrightarrow> peek q = (if contents q = [] then None else Some (hd (contents q)))"
    and pop_hd: "inv q \<Longrightarrow> fst (pop q) = (if contents q = [] then None else Some (hd (contents q)))"
    and pop_tl: "inv q \<Longrightarrow> contents (snd (pop q)) = tl (contents q)"
    and inv_pop: "inv q \<Longrightarrow> inv (snd (pop q))"
begin

lemma peek_pop: "inv q \<Longrightarrow> fst (pop q) = peek q"
  by (simp add: peek_hd pop_hd)

lemma pop_Some: "inv q \<Longrightarrow> pop q = (Some e, q') \<Longrightarrow> contents q = e # contents q' \<and> inv q'"
  using pop_hd [of q] pop_tl [of q] inv_pop [of q] by (cases "contents q") auto

lemma pop_None: "inv q \<Longrightarrow> pop q = (None, q') \<Longrightarrow> contents q = []"
  using pop_hd [of q] by (cases "contents q") auto

text \<open>Popping as often as there are entries returns the contents in order.\<close>

fun pops :: "nat \<Rightarrow> 'q \<Rightarrow> 'e option list" where
  "pops 0 q = []"
| "pops (Suc n) q = fst (pop q) # pops n (snd (pop q))"

lemma pops_contents: "inv q \<Longrightarrow> n \<le> length (contents q) \<Longrightarrow>
    pops n q = map Some (take n (contents q))"
proof (induction n arbitrary: q)
  case 0
  then show ?case by simp
next
  case (Suc n)
  then obtain e es where c: "contents q = e # es" by (cases "contents q") auto
  with Suc.prems have "pops n (snd (pop q)) = map Some (take n es)"
    using Suc.IH [of "snd (pop q)"] by (simp add: pop_tl inv_pop)
  with c Suc.prems show ?case by (simp add: pop_hd)
qed

end

locale fifo = consumer contents peek pop inv
  for contents :: "'q \<Rightarrow> 'e list" and peek pop inv +
  fixes empty :: 'q
    and push :: "'q \<Rightarrow> 'e \<Rightarrow> 'q"
  assumes contents_empty: "contents empty = []"
    and contents_push: "inv q \<Longrightarrow> contents (push q e) = contents q @ [e]"
    and inv_empty: "inv empty"
    and inv_push: "inv q \<Longrightarrow> inv (push q e)"
begin

lemma inv_foldl_push: "inv q \<Longrightarrow> inv (foldl push q es)"
  by (induction es arbitrary: q) (auto intro: inv_push)

lemma contents_foldl_push: "inv q \<Longrightarrow> contents (foldl push q es) = contents q @ es"
  by (induction es arbitrary: q) (auto simp: contents_push inv_push)

text \<open>First in, first out: what is pushed in order is popped in order.\<close>

lemma fifo_order: "pops (length es) (foldl push empty es) = map Some es"
  using pops_contents [of "foldl push empty es" "length es"]
  by (simp add: contents_foldl_push contents_empty inv_empty inv_foldl_push)

end

section \<open>Priorities and entries\<close>

datatype queue_priority = Background | Normal | Foreground

text \<open>The numbers -1, 0 and 1 the source stores.\<close>

fun priority_num :: "queue_priority \<Rightarrow> int" where
  "priority_num Background = -1"
| "priority_num Normal = 0"
| "priority_num Foreground = 1"

instantiation queue_priority :: linorder
begin

definition less_eq_queue_priority :: "queue_priority \<Rightarrow> queue_priority \<Rightarrow> bool" where
  "less_eq_queue_priority a b \<longleftrightarrow> priority_num a \<le> priority_num b"

definition less_queue_priority :: "queue_priority \<Rightarrow> queue_priority \<Rightarrow> bool" where
  "less_queue_priority a b \<longleftrightarrow> priority_num a < priority_num b"

instance
proof
  fix x y z :: queue_priority
  show "x < y \<longleftrightarrow> x \<le> y \<and> \<not> y \<le> x"
    by (auto simp: less_eq_queue_priority_def less_queue_priority_def)
  show "x \<le> x" by (simp add: less_eq_queue_priority_def)
  show "x \<le> y \<Longrightarrow> y \<le> z \<Longrightarrow> x \<le> z" by (simp add: less_eq_queue_priority_def)
  show "x \<le> y \<Longrightarrow> y \<le> x \<Longrightarrow> x = y"
    by (cases x; cases y; simp add: less_eq_queue_priority_def)
  show "x \<le> y \<or> y \<le> x" by (auto simp: less_eq_queue_priority_def)
qed

end

text \<open>
  A queued command. \<open>task\<close> is the command's own code, which the queue never inspects; \<open>promise\<close>
  names the promise whose \<open>resolve\<close> and \<open>reject\<close> closures the entry holds; \<open>onWait\<close> and
  \<open>progress\<close> record whether the optional callbacks were passed.
\<close>

record 't queue_entry =
  task :: 't
  promise :: nat
  enqueuedAt :: int
  sequence :: nat
  priority :: queue_priority
  warnAfterMs :: int
  queuedAheadAtEnqueue :: nat
  activeAheadAtEnqueue :: nat
  taskTimeoutMs :: "int option"
  taskTimeoutAbortGraceMs :: "int option"
  progress :: bool
  onWait :: bool

section \<open>The ring buffer\<close>

record 'e queue_ring =
  ring_entries :: "'e option list"
  head :: nat
  ring_length :: nat

definition INITIAL_QUEUE_RING_CAPACITY :: nat where
  "INITIAL_QUEUE_RING_CAPACITY = 16"

definition createQueueRing :: "'e queue_ring" where
  "createQueueRing = \<lparr>ring_entries = [], head = 0, ring_length = 0\<rparr>"

text \<open>The copy loop of \<open>appendQueueRing\<close>: slot \<open>index\<close> of the new array gets the \<open>index\<close>-th entry.\<close>

definition copy_ring :: "'e queue_ring \<Rightarrow> nat \<Rightarrow> 'e option list" where
  "copy_ring ring next_capacity =
     foldl (\<lambda>next_entries index.
        next_entries[index := ring_entries ring ! ((head ring + index) mod length (ring_entries ring))])
       (replicate next_capacity None) [0..<ring_length ring]"

definition appendQueueRing :: "'e queue_ring \<Rightarrow> 'e \<Rightarrow> 'e queue_ring" where
  "appendQueueRing ring entry =
     (let ring1 = (if ring_length ring = length (ring_entries ring)
            then ring\<lparr>ring_entries := copy_ring ring (max INITIAL_QUEUE_RING_CAPACITY (ring_length ring * 2)),
                      head := 0\<rparr>
            else ring)
      in ring1\<lparr>ring_entries := (ring_entries ring1)
                 [(head ring1 + ring_length ring1) mod length (ring_entries ring1) := Some entry],
               ring_length := ring_length ring1 + 1\<rparr>)"

definition peekQueueRing :: "'e queue_ring \<Rightarrow> 'e option" where
  "peekQueueRing ring = (if ring_length ring > 0 then ring_entries ring ! head ring else None)"

definition dequeueQueueRing :: "'e queue_ring \<Rightarrow> 'e option \<times> 'e queue_ring" where
  "dequeueQueueRing ring =
     (if ring_length ring = 0 then (None, ring)
      else let entry = ring_entries ring ! head ring;
               ring1 = ring\<lparr>ring_entries := (ring_entries ring)[head ring := None],
                            ring_length := ring_length ring - 1\<rparr>
           in (entry,
               if ring_length ring1 = 0 then ring1\<lparr>ring_entries := [], head := 0\<rparr>
               else ring1\<lparr>head := (head ring1 + 1) mod length (ring_entries ring1)\<rparr>))"

subsection \<open>The ring as a list\<close>

definition slot :: "'e queue_ring \<Rightarrow> nat \<Rightarrow> nat" where
  "slot ring i = (head ring + i) mod length (ring_entries ring)"

definition ring_list :: "'e queue_ring \<Rightarrow> 'e list" where
  "ring_list ring = map (\<lambda>i. the (ring_entries ring ! slot ring i)) [0..<ring_length ring]"

text \<open>
  Well-formed: the live window fits the array and starts inside it, its slots are occupied, and
  every other slot has been cleared (so the ring retains no finished entry).
\<close>

definition ring_ok :: "'e queue_ring \<Rightarrow> bool" where
  "ring_ok ring \<longleftrightarrow>
     ring_length ring \<le> length (ring_entries ring) \<and>
     (if ring_entries ring = [] then head ring = 0 else head ring < length (ring_entries ring)) \<and>
     (\<forall>i < ring_length ring. ring_entries ring ! slot ring i \<noteq> None) \<and>
     (\<forall>i. ring_length ring \<le> i \<and> i < length (ring_entries ring) \<longrightarrow>
        ring_entries ring ! slot ring i = None)"

lemma mod_add_inj_le:
  assumes "i \<le> j" and "j < n" and "(h + i) mod n = (h + j) mod (n::nat)"
  shows "i = j"
proof -
  from assms have "n dvd (h + j) - (h + i)"
    by (metis add_le_cancel_left mod_eq_dvd_iff_nat)
  then have "n dvd j - i" by simp
  with assms show ?thesis by (auto dest: dvd_imp_le)
qed

lemma slot_inj: "i < length (ring_entries r) \<Longrightarrow> j < length (ring_entries r) \<Longrightarrow>
    slot r i = slot r j \<longleftrightarrow> i = j"
  unfolding slot_def by (metis mod_add_inj_le linorder_le_cases)

lemma slot_less: "ring_entries r \<noteq> [] \<Longrightarrow> slot r i < length (ring_entries r)"
  by (simp add: slot_def)

lemma slot_0: "head r < length (ring_entries r) \<Longrightarrow> slot r 0 = head r"
  by (simp add: slot_def)

lemma length_ring_list [simp]: "length (ring_list r) = ring_length r"
  by (simp add: ring_list_def)

lemma ring_list_eq_Nil: "ring_list r = [] \<longleftrightarrow> ring_length r = 0"
  by (simp add: ring_list_def)

lemma copy_ring_step:
  "n \<le> cap \<Longrightarrow>
   foldl (\<lambda>nx i. nx[i := f i]) (replicate cap None) [0..<n] = map f [0..<n] @ replicate (cap - n) None"
proof (induction n)
  case 0
  then show ?case by simp
next
  case (Suc n)
  then have "replicate (cap - n) None = None # replicate (cap - Suc n) None"
    by (metis Suc_diff_Suc Suc_le_lessD replicate_Suc)
  then have "(replicate (cap - n) None)[0 := f n] = f n # replicate (cap - Suc n) None"
    by (metis list_update_code(2))
  with Suc show ?case by (simp add: list_update_append)
qed

lemma copy_ring_eq: "ring_length r \<le> cap \<Longrightarrow>
    copy_ring r cap = map (\<lambda>i. ring_entries r ! slot r i) [0..<ring_length r]
      @ replicate (cap - ring_length r) None"
  unfolding copy_ring_def slot_def by (rule copy_ring_step)

subsection \<open>Growing, appending, removing\<close>

text \<open>The reallocation of \<open>appendQueueRing\<close>, without the write.\<close>

definition grow_ring :: "'e queue_ring \<Rightarrow> 'e queue_ring" where
  "grow_ring ring = (if ring_length ring = length (ring_entries ring)
     then ring\<lparr>ring_entries := copy_ring ring (max INITIAL_QUEUE_RING_CAPACITY (ring_length ring * 2)),
               head := 0\<rparr>
     else ring)"

lemma appendQueueRing_grow:
  "appendQueueRing ring e = (let r = grow_ring ring in
     r\<lparr>ring_entries := (ring_entries r)[slot r (ring_length r) := Some e],
       ring_length := ring_length r + 1\<rparr>)"
  by (simp add: appendQueueRing_def grow_ring_def slot_def Let_def)

lemma grow_ring_length [simp]: "ring_length (grow_ring r) = ring_length r"
  by (simp add: grow_ring_def)

lemma grow_ring_room: "ring_ok r \<Longrightarrow> ring_length r < length (ring_entries (grow_ring r))"
  by (auto simp: grow_ring_def ring_ok_def copy_ring_eq INITIAL_QUEUE_RING_CAPACITY_def)

lemma grow_ring_ok:
  assumes "ring_ok r"
  shows "ring_ok (grow_ring r) \<and> ring_list (grow_ring r) = ring_list r"
proof (cases "ring_length r = length (ring_entries r)")
  case False
  with assms show ?thesis by (simp add: grow_ring_def)
next
  case True
  let ?c = "max INITIAL_QUEUE_RING_CAPACITY (ring_length r * 2)"
  have le: "ring_length r \<le> ?c" and pos: "0 < ?c"
    by (simp_all add: INITIAL_QUEUE_RING_CAPACITY_def)
  have g: "grow_ring r = r\<lparr>ring_entries := map (\<lambda>i. ring_entries r ! slot r i) [0..<ring_length r]
      @ replicate (?c - ring_length r) None, head := 0\<rparr>"
    using True le by (simp add: grow_ring_def copy_ring_eq)
  have len: "length (ring_entries (grow_ring r)) = ?c" using le by (simp add: g)
  have sl: "i < ?c \<Longrightarrow> slot (grow_ring r) i = i" for i
    using len by (simp add: slot_def) (simp add: g)
  have at: "i < ring_length r \<Longrightarrow> ring_entries (grow_ring r) ! i = ring_entries r ! slot r i" for i
    by (simp add: g nth_append)
  have out: "ring_length r \<le> i \<Longrightarrow> i < ?c \<Longrightarrow> ring_entries (grow_ring r) ! i = None" for i
    by (simp add: g nth_append)
  have "ring_list (grow_ring r) = ring_list r"
    unfolding ring_list_def using le by (auto simp: sl at)
  moreover have "ring_ok (grow_ring r)"
    unfolding ring_ok_def len
    using assms le pos sl at out by (auto simp: ring_ok_def g)
  ultimately show ?thesis by simp
qed

lemma append_room:
  fixes e :: 'e
  assumes ok: "ring_ok r" and room: "ring_length r < length (ring_entries r)"
  defines "r' \<equiv> r\<lparr>ring_entries := (ring_entries r)[slot r (ring_length r) := Some e],
       ring_length := ring_length r + 1\<rparr>"
  shows "ring_ok r' \<and> ring_list r' = ring_list r @ [e]"
proof -
  have ne: "ring_entries r \<noteq> []" using room by auto
  have sl: "slot r' i = slot r i" for i by (simp add: r'_def slot_def)
  have at: "i < length (ring_entries r) \<Longrightarrow> ring_entries r' ! slot r i =
      (if i = ring_length r then Some e else ring_entries r ! slot r i)" for i
    using ne room slot_inj [of i r "ring_length r"] by (auto simp: r'_def slot_less nth_list_update)
  have len: "ring_length r' = Suc (ring_length r)" "length (ring_entries r') = length (ring_entries r)"
    "ring_entries r' \<noteq> []" "head r' = head r" using ne by (simp_all add: r'_def)
  have "ring_list r' = ring_list r @ [e]"
    unfolding ring_list_def len sl using room by (auto simp: at)
  moreover have "ring_ok r'"
    unfolding ring_ok_def sl using ok room ne len(3) at
    by (auto simp: ring_ok_def less_Suc_eq len(1,2,4))
  ultimately show ?thesis by simp
qed

lemma appendQueueRing_list: "ring_ok r \<Longrightarrow> ring_list (appendQueueRing r e) = ring_list r @ [e]"
  and appendQueueRing_ok: "ring_ok r \<Longrightarrow> ring_ok (appendQueueRing r e)"
  using append_room [of "grow_ring r" e] grow_ring_ok [of r] grow_ring_room [of r]
  by (simp_all add: appendQueueRing_grow Let_def)

lemma peekQueueRing_hd:
  assumes "ring_ok r"
  shows "peekQueueRing r = (if ring_list r = [] then None else Some (hd (ring_list r)))"
proof (cases "ring_length r = 0")
  case True
  then show ?thesis by (simp add: peekQueueRing_def ring_list_eq_Nil)
next
  case False
  with assms have "head r < length (ring_entries r)"
    by (cases "ring_entries r = []") (auto simp: ring_ok_def)
  with False assms have s: "slot r 0 = head r" "ring_entries r ! slot r 0 \<noteq> None"
    by (auto simp: ring_ok_def slot_0)
  from False have "hd (ring_list r) = the (ring_entries r ! slot r 0)"
    by (simp add: ring_list_def hd_map)
  with False s show ?thesis by (simp add: peekQueueRing_def ring_list_eq_Nil)
qed

lemma dequeueQueueRing_shift:
  assumes ok: "ring_ok r" and n: "1 < ring_length r"
  defines "r' \<equiv> r\<lparr>ring_entries := (ring_entries r)[head r := None], ring_length := ring_length r - 1,
      head := (head r + 1) mod length (ring_entries r)\<rparr>"
  shows "ring_ok r' \<and> ring_list r' = tl (ring_list r)"
proof -
  let ?n = "length (ring_entries r)"
  have ne: "ring_entries r \<noteq> []" and le: "ring_length r \<le> ?n" and hd: "head r < ?n"
    using ok n by (auto simp: ring_ok_def split: if_splits)
  have sl: "slot r' i = slot r (Suc i)" for i
    by (simp add: r'_def slot_def mod_add_left_eq)
  have s0: "slot r 0 = head r" using hd by (rule slot_0)
  have at: "Suc i < ?n \<Longrightarrow> ring_entries r' ! slot r (Suc i) = ring_entries r ! slot r (Suc i)" for i
    using slot_inj [of "Suc i" r 0] ne s0 hd by (auto simp: r'_def nth_list_update)
  have last: "ring_entries r' ! slot r ?n = None"
    using hd by (simp add: slot_def r'_def)
  have len: "ring_length r' = ring_length r - 1" "length (ring_entries r') = ?n"
    "ring_entries r' \<noteq> []" "head r' < ?n" using ne hd by (simp_all add: r'_def)
  have l: "ring_list r' = tl (ring_list r)"
  proof (rule nth_equalityI)
    show "length (ring_list r') = length (tl (ring_list r))" by (simp add: len)
    fix i assume "i < length (ring_list r')"
    then have i: "Suc i < ring_length r" by (simp add: len)
    then have "Suc i < ?n" using le by simp
    with i show "ring_list r' ! i = tl (ring_list r) ! i"
      by (simp add: nth_tl ring_list_def len sl at less_diff_conv)
  qed
  have "i < ring_length r - 1 \<Longrightarrow> ring_entries r' ! slot r' i \<noteq> None" for i
    using ok at [of i] le by (auto simp: ring_ok_def sl)
  moreover have "ring_length r - 1 \<le> i \<Longrightarrow> i < ?n \<Longrightarrow> ring_entries r' ! slot r' i = None" for i
    using ok at [of i] le last n by (cases "Suc i = ?n") (auto simp: ring_ok_def sl)
  ultimately have "ring_ok r'" unfolding ring_ok_def len using le len by auto
  with l show ?thesis by simp
qed

lemma dequeueQueueRing_last:
  assumes ok: "ring_ok r" and n: "ring_length r = 1"
  shows "snd (dequeueQueueRing r) = \<lparr>ring_entries = [], head = 0, ring_length = 0, \<dots> = queue_ring.more r\<rparr>"
  using n by (simp add: dequeueQueueRing_def Let_def)

lemma dequeueQueueRing_tl: "ring_ok r \<Longrightarrow> ring_list (snd (dequeueQueueRing r)) = tl (ring_list r)"
  and dequeueQueueRing_ok: "ring_ok r \<Longrightarrow> ring_ok (snd (dequeueQueueRing r))"
proof -
  assume ok: "ring_ok r"
  consider "ring_length r = 0" | "ring_length r = 1" | "1 < ring_length r" by linarith
  then have "ring_list (snd (dequeueQueueRing r)) = tl (ring_list r) \<and> ring_ok (snd (dequeueQueueRing r))"
  proof cases
    case 1
    then show ?thesis using ok by (simp add: dequeueQueueRing_def ring_list_def)
  next
    case 2
    then show ?thesis
      unfolding dequeueQueueRing_last [OF ok 2] by (simp add: ring_list_def ring_ok_def)
  next
    case 3
    then show ?thesis
      using dequeueQueueRing_shift [OF ok 3] by (simp add: dequeueQueueRing_def Let_def)
  qed
  then show "ring_list (snd (dequeueQueueRing r)) = tl (ring_list r)"
    and "ring_ok (snd (dequeueQueueRing r))" by simp_all
qed

lemma dequeueQueueRing_hd: "fst (dequeueQueueRing r) = peekQueueRing r"
  by (simp add: dequeueQueueRing_def peekQueueRing_def Let_def)

lemma createQueueRing_ok: "ring_ok createQueueRing"
  and createQueueRing_list: "ring_list createQueueRing = []"
  by (simp_all add: ring_ok_def createQueueRing_def ring_list_def)

interpretation ring: fifo ring_list peekQueueRing dequeueQueueRing ring_ok
    createQueueRing appendQueueRing
  by unfold_locales
    (auto simp: peekQueueRing_hd dequeueQueueRing_hd dequeueQueueRing_tl dequeueQueueRing_ok
      appendQueueRing_list appendQueueRing_ok createQueueRing_ok createQueueRing_list)

section \<open>The lane queue\<close>

record 't lane_queue =
  background :: "'t queue_entry queue_ring"
  normal :: "'t queue_entry queue_ring"
  foreground :: "'t queue_entry queue_ring"
  queue_length :: nat

definition createLaneQueue :: "'t lane_queue" where
  "createLaneQueue = \<lparr>background = createQueueRing, normal = createQueueRing,
     foreground = createQueueRing, queue_length = 0\<rparr>"

definition getPriorityRing :: "'t lane_queue \<Rightarrow> queue_priority \<Rightarrow> 't queue_entry queue_ring" where
  "getPriorityRing queue p = (case p of
       Foreground \<Rightarrow> foreground queue
     | Background \<Rightarrow> background queue
     | Normal \<Rightarrow> normal queue)"

text \<open>The ring \<open>getPriorityRing\<close> returns is mutated in place; here it is stored back.\<close>

definition put_priority_ring ::
  "'t lane_queue \<Rightarrow> queue_priority \<Rightarrow> 't queue_entry queue_ring \<Rightarrow> 't lane_queue" where
  "put_priority_ring queue p ring = (case p of
       Foreground \<Rightarrow> queue\<lparr>foreground := ring\<rparr>
     | Background \<Rightarrow> queue\<lparr>background := ring\<rparr>
     | Normal \<Rightarrow> queue\<lparr>normal := ring\<rparr>)"

definition enqueueLaneQueue :: "'t lane_queue \<Rightarrow> 't queue_entry \<Rightarrow> nat \<times> 't lane_queue" where
  "enqueueLaneQueue queue entry =
     (let ring = getPriorityRing queue (priority entry);
          queued_ahead = ring_length ring
            + (if priority_num (priority entry) \<le> 0 then ring_length (foreground queue) else 0)
            + (if priority_num (priority entry) < 0 then ring_length (normal queue) else 0);
          queue1 = put_priority_ring queue (priority entry) (appendQueueRing ring entry)
      in (queued_ahead, queue1\<lparr>queue_length := queue_length queue1 + 1\<rparr>))"

definition peekLaneQueue :: "'t lane_queue \<Rightarrow> 't queue_entry option" where
  "peekLaneQueue queue =
     (case peekQueueRing (foreground queue) of Some e \<Rightarrow> Some e
      | None \<Rightarrow> (case peekQueueRing (normal queue) of Some e \<Rightarrow> Some e
      | None \<Rightarrow> peekQueueRing (background queue)))"

definition dequeueLaneQueue :: "'t lane_queue \<Rightarrow> 't queue_entry option \<times> 't lane_queue" where
  "dequeueLaneQueue queue =
     (let (entry, queue1) =
        (case dequeueQueueRing (foreground queue) of
           (Some e, r) \<Rightarrow> (Some e, queue\<lparr>foreground := r\<rparr>)
         | (None, r1) \<Rightarrow>
             (case dequeueQueueRing (normal queue) of
                (Some e, r) \<Rightarrow> (Some e, queue\<lparr>foreground := r1, normal := r\<rparr>)
              | (None, r2) \<Rightarrow>
                  (case dequeueQueueRing (background queue) of
                     (e, r) \<Rightarrow> (e, queue\<lparr>foreground := r1, normal := r2, background := r\<rparr>))))
      in (entry, if entry \<noteq> None then queue1\<lparr>queue_length := queue_length queue1 - 1\<rparr> else queue1))"

subsection \<open>The lane queue as a list\<close>

definition lane_list :: "'t lane_queue \<Rightarrow> 't queue_entry list" where
  "lane_list queue = ring_list (foreground queue) @ ring_list (normal queue) @ ring_list (background queue)"

definition lane_ok :: "'t lane_queue \<Rightarrow> bool" where
  "lane_ok queue \<longleftrightarrow>
     ring_ok (foreground queue) \<and> ring_ok (normal queue) \<and> ring_ok (background queue) \<and>
     (\<forall>e \<in> set (ring_list (foreground queue)). priority e = Foreground) \<and>
     (\<forall>e \<in> set (ring_list (normal queue)). priority e = Normal) \<and>
     (\<forall>e \<in> set (ring_list (background queue)). priority e = Background) \<and>
     queue_length queue = length (lane_list queue)"

text \<open>The specification of enqueuing: behind every entry of the same or a higher priority.\<close>

fun insert_by_priority :: "'t queue_entry \<Rightarrow> 't queue_entry list \<Rightarrow> 't queue_entry list" where
  "insert_by_priority e [] = [e]"
| "insert_by_priority e (x # xs) =
     (if priority e \<le> priority x then x # insert_by_priority e xs else e # x # xs)"

lemma insert_by_priority_append:
  "(\<forall>x \<in> set xs. priority e \<le> priority x) \<Longrightarrow>
   insert_by_priority e (xs @ ys) = xs @ insert_by_priority e ys"
  by (induction xs) auto

lemma insert_by_priority_below:
  "(\<forall>x \<in> set xs. priority x < priority e) \<Longrightarrow> insert_by_priority e xs = e # xs"
  by (cases xs) (auto simp: not_le)

lemma mset_insert_by_priority [simp]: "mset (insert_by_priority e xs) = add_mset e (mset xs)"
  by (induction xs) auto

lemma set_insert_by_priority [simp]: "set (insert_by_priority e xs) = insert e (set xs)"
  by (metis mset_insert_by_priority set_mset_add_mset_insert set_mset_mset)

lemma length_insert_by_priority [simp]: "length (insert_by_priority e xs) = Suc (length xs)"
  by (metis mset_insert_by_priority size_add_mset size_mset)

lemma filter_insert_by_priority:
  "sorted_wrt (\<lambda>a b. priority b \<le> priority a) xs \<Longrightarrow>
   filter (\<lambda>x. priority x = p) (insert_by_priority e xs) =
     filter (\<lambda>x. priority x = p) xs @ (if priority e = p then [e] else [])"
proof (induction xs)
  case Nil
  then show ?case by simp
next
  case (Cons x xs)
  show ?case
  proof (cases "priority e \<le> priority x")
    case True
    with Cons show ?thesis by simp
  next
    case False
    with Cons.prems have "\<forall>y \<in> set (x # xs). priority y < priority e" by fastforce
    then have "filter (\<lambda>y. priority y = priority e) (x # xs) = []"
      by (auto simp: filter_empty_conv simp del: filter.simps)
    with False show ?thesis by auto
  qed
qed

lemma sorted_insert_by_priority:
  "sorted_wrt (\<lambda>a b. priority b \<le> priority a) xs \<Longrightarrow>
   sorted_wrt (\<lambda>a b. priority b \<le> priority a) (insert_by_priority e xs)"
  by (induction xs) (auto simp: not_le)

lemmas priority_simps = less_eq_queue_priority_def less_queue_priority_def

lemma sorted_same_priority:
  "(\<forall>e \<in> set xs. priority e = p) \<Longrightarrow> sorted_wrt (\<lambda>a b. priority b \<le> priority a) xs"
  by (induction xs) auto

lemma lane_ok_sorted: "lane_ok q \<Longrightarrow> sorted_wrt (\<lambda>a b. priority b \<le> priority a) (lane_list q)"
  unfolding lane_ok_def lane_list_def sorted_wrt_append
  by (intro conjI; (elim conjE, rule sorted_same_priority, assumption)?) (auto simp: priority_simps)

subsection \<open>The operations against the list\<close>

lemma lane_ok_create: "lane_ok createLaneQueue" and lane_list_create: "lane_list createLaneQueue = []"
  by (simp_all add: lane_ok_def createLaneQueue_def lane_list_def ring.contents_empty ring.inv_empty)

text \<open>
  Enqueuing inserts behind the entries of the same or a higher priority, and the number it
  returns is the number of entries in front of the new one.
\<close>

lemma ring_length_appendQueueRing [simp]: "ring_length (appendQueueRing r e) = Suc (ring_length r)"
  by (simp add: appendQueueRing_grow Let_def)

lemma insert_by_priority_mid:
  assumes "\<forall>x \<in> set xs. priority e \<le> priority x" and "\<forall>x \<in> set ys. \<not> priority e \<le> priority x"
  shows "insert_by_priority e (xs @ ys) = xs @ e # ys \<and>
    length (takeWhile (\<lambda>x. priority e \<le> priority x) (xs @ ys)) = length xs"
proof -
  have "insert_by_priority e ys = e # ys" "takeWhile (\<lambda>x. priority e \<le> priority x) ys = []"
    using assms(2) by (cases ys; simp)+
  with assms(1) show ?thesis by (simp add: insert_by_priority_append takeWhile_append2)
qed

lemma insert_by_priority_rings:
  assumes F: "\<forall>x \<in> set F. priority x = Foreground" and N: "\<forall>x \<in> set N. priority x = Normal"
    and B: "\<forall>x \<in> set B. priority x = Background"
  shows "insert_by_priority e (F @ N @ B) = (case priority e of
      Foreground \<Rightarrow> (F @ [e]) @ N @ B | Normal \<Rightarrow> F @ (N @ [e]) @ B | Background \<Rightarrow> F @ N @ B @ [e]) \<and>
    length (takeWhile (\<lambda>x. priority e \<le> priority x) (F @ N @ B)) = (case priority e of
      Foreground \<Rightarrow> length F | Normal \<Rightarrow> length F + length N
    | Background \<Rightarrow> length F + length N + length B)"
proof (cases "priority e")
  case Foreground
  have "\<forall>x \<in> set F. priority e \<le> priority x" "\<forall>x \<in> set (N @ B). \<not> priority e \<le> priority x"
    using F N B by (auto simp: Foreground priority_simps)
  from insert_by_priority_mid [OF this] show ?thesis by (simp add: Foreground)
next
  case Normal
  have "\<forall>x \<in> set (F @ N). priority e \<le> priority x" "\<forall>x \<in> set B. \<not> priority e \<le> priority x"
    using F N B by (auto simp: Normal priority_simps)
  from insert_by_priority_mid [OF this] show ?thesis by (simp add: Normal)
next
  case Background
  have "\<forall>x \<in> set (F @ N @ B). priority e \<le> priority x" "\<forall>x \<in> set []. \<not> priority e \<le> priority x"
    using F N B by (auto simp: Background priority_simps)
  from insert_by_priority_mid [OF this] show ?thesis by (simp add: Background)
qed

lemma enqueueLaneQueue_correct:
  assumes ok: "lane_ok q" and eq: "enqueueLaneQueue q e = (ahead, q')"
  shows "lane_list q' = insert_by_priority e (lane_list q)" and "lane_ok q'"
    and "ahead = length (takeWhile (\<lambda>x. priority e \<le> priority x) (lane_list q))"
proof -
  from ok have rings: "ring_ok (foreground q)" "ring_ok (normal q)" "ring_ok (background q)"
    and pri: "\<forall>x \<in> set (ring_list (foreground q)). priority x = Foreground"
      "\<forall>x \<in> set (ring_list (normal q)). priority x = Normal"
      "\<forall>x \<in> set (ring_list (background q)). priority x = Background"
    by (simp_all add: lane_ok_def)
  note push = rings [THEN ring.contents_push] rings [THEN ring.inv_push]
  note spec = insert_by_priority_rings [OF pri, of e, folded lane_list_def]
  have len: "queue_length q = ring_length (foreground q) + (ring_length (normal q) + ring_length (background q))"
    using ok by (simp add: lane_ok_def lane_list_def)
  note defs = enqueueLaneQueue_def getPriorityRing_def put_priority_ring_def Let_def
  have "lane_list q' = insert_by_priority e (lane_list q) \<and> lane_ok q' \<and>
      ahead = length (takeWhile (\<lambda>x. priority e \<le> priority x) (lane_list q))"
  proof (cases "priority e")
    case Foreground
    then have "q' = q\<lparr>foreground := appendQueueRing (foreground q) e, queue_length := queue_length q + 1\<rparr>"
      "ahead = ring_length (foreground q)"
      using eq by (simp_all add: defs)
    with spec Foreground rings pri len show ?thesis by (simp add: lane_ok_def lane_list_def push)
  next
    case Normal
    then have "q' = q\<lparr>normal := appendQueueRing (normal q) e, queue_length := queue_length q + 1\<rparr>"
      "ahead = ring_length (normal q) + ring_length (foreground q)"
      using eq by (simp_all add: defs)
    with spec Normal rings pri len show ?thesis by (simp add: lane_ok_def lane_list_def push)
  next
    case Background
    then have "q' = q\<lparr>background := appendQueueRing (background q) e, queue_length := queue_length q + 1\<rparr>"
      "ahead = ring_length (background q) + ring_length (foreground q) + ring_length (normal q)"
      using eq by (simp_all add: defs)
    with spec Background rings pri len show ?thesis by (simp add: lane_ok_def lane_list_def push)
  qed
  then show "lane_list q' = insert_by_priority e (lane_list q)" and "lane_ok q'"
    and "ahead = length (takeWhile (\<lambda>x. priority e \<le> priority x) (lane_list q))" by simp_all
qed

lemma peekLaneQueue_hd:
  "lane_ok q \<Longrightarrow> peekLaneQueue q = (if lane_list q = [] then None else Some (hd (lane_list q)))"
  by (auto simp: lane_ok_def lane_list_def peekLaneQueue_def ring.peek_hd split: option.splits)

lemma dequeue_ring_cases:
  assumes "ring_ok r"
  obtains "dequeueQueueRing r = (None, r)" "ring_list r = []"
  | e r' where "dequeueQueueRing r = (Some e, r')" "ring_list r = e # ring_list r'" "ring_ok r'"
proof (cases "ring_length r = 0")
  case True
  then show thesis by (intro that(1)) (simp_all add: dequeueQueueRing_def ring_list_eq_Nil)
next
  case False
  then obtain e where e: "fst (dequeueQueueRing r) = Some e"
    using ring.pop_hd [OF assms] by (auto simp: ring_list_eq_Nil)
  then have "dequeueQueueRing r = (Some e, snd (dequeueQueueRing r))" by (metis prod.collapse)
  with ring.pop_Some [OF assms this] show thesis by (intro that(2)) auto
qed

lemma dequeueLaneQueue_correct:
  assumes "lane_ok q"
  shows "fst (dequeueLaneQueue q) = (if lane_list q = [] then None else Some (hd (lane_list q)))
    \<and> lane_list (snd (dequeueLaneQueue q)) = tl (lane_list q)
    \<and> lane_ok (snd (dequeueLaneQueue q))"
proof -
  from assms have ok: "ring_ok (foreground q)" "ring_ok (normal q)" "ring_ok (background q)"
    by (simp_all add: lane_ok_def)
  note defs = dequeueLaneQueue_def lane_list_def lane_ok_def Let_def
  show ?thesis
  proof (rule dequeue_ring_cases [OF ok(1)])
    fix e r' assume "dequeueQueueRing (foreground q) = (Some e, r')"
      "ring_list (foreground q) = e # ring_list r'" "ring_ok r'"
    with assms show ?thesis by (auto simp: defs)
  next
    assume f: "dequeueQueueRing (foreground q) = (None, foreground q)" "ring_list (foreground q) = []"
    show ?thesis
    proof (rule dequeue_ring_cases [OF ok(2)])
      fix e r' assume "dequeueQueueRing (normal q) = (Some e, r')"
        "ring_list (normal q) = e # ring_list r'" "ring_ok r'"
      with assms f show ?thesis by (auto simp: defs)
    next
      assume n: "dequeueQueueRing (normal q) = (None, normal q)" "ring_list (normal q) = []"
      show ?thesis
        by (rule dequeue_ring_cases [OF ok(3)]) (use assms f n in \<open>auto simp: defs\<close>)
    qed
  qed
qed

interpretation laneq: consumer lane_list peekLaneQueue dequeueLaneQueue lane_ok
  by unfold_locales (auto simp: peekLaneQueue_hd dequeueLaneQueue_correct)

lemma queue_length_lane_list: "lane_ok q \<Longrightarrow> queue_length q = length (lane_list q)"
  by (simp add: lane_ok_def)


definition enqueue_all :: "'t queue_entry list \<Rightarrow> 't lane_queue \<Rightarrow> 't lane_queue" where
  "enqueue_all es q = foldl (\<lambda>q e. snd (enqueueLaneQueue q e)) q es"

lemma enqueue_all_correct:
  "lane_ok q \<Longrightarrow> lane_ok (enqueue_all es q) \<and>
     lane_list (enqueue_all es q) = foldl (\<lambda>xs e. insert_by_priority e xs) (lane_list q) es"
proof (induction es arbitrary: q)
  case Nil
  then show ?case by (simp add: enqueue_all_def)
next
  case (Cons e es)
  have eq: "enqueueLaneQueue q e = (fst (enqueueLaneQueue q e), snd (enqueueLaneQueue q e))" by simp
  note step = enqueueLaneQueue_correct [OF Cons.prems eq]
  from Cons.IH [OF step(2)] show ?case by (simp add: enqueue_all_def step(1))
qed

lemma fold_insert_by_priority:
  "sorted_wrt (\<lambda>a b. priority b \<le> priority a) xs \<Longrightarrow>
   (let ys = foldl (\<lambda>xs e. insert_by_priority e xs) xs es in
     sorted_wrt (\<lambda>a b. priority b \<le> priority a) ys \<and> mset ys = mset xs + mset es \<and>
     filter (\<lambda>x. priority x = p) ys =
       filter (\<lambda>x. priority x = p) xs @ filter (\<lambda>x. priority x = p) es)"
  by (induction es arbitrary: xs)
    (auto simp: Let_def sorted_insert_by_priority filter_insert_by_priority)

section \<open>Properties\<close>

text \<open>
  The growable ring is a FIFO list: appending (with or without the reallocation) puts the
  entry behind the ones already there, dequeuing returns and removes the first, the array is
  given back when the last entry leaves, and the ring stays well-formed throughout, so no slot
  outside the live window ever keeps a finished entry alive.
\<close>

theorem ring_is_fifo:
  assumes "ring_ok r"
  shows "ring_ok (appendQueueRing r e) \<and> ring_list (appendQueueRing r e) = ring_list r @ [e] \<and>
    (let (x, r') = dequeueQueueRing r in
       ring_ok r' \<and> x = peekQueueRing r \<and> x = (if ring_list r = [] then None else Some (hd (ring_list r))) \<and>
       ring_list r' = tl (ring_list r) \<and>
       (x \<noteq> None \<and> ring_list r' = [] \<longrightarrow> ring_entries r' = []))"
proof -
  have "ring_entries (snd (dequeueQueueRing r)) = []"
    if "fst (dequeueQueueRing r) \<noteq> None" "ring_list (snd (dequeueQueueRing r)) = []"
    using that by (auto simp: dequeueQueueRing_def Let_def ring_list_eq_Nil split: if_splits)
  with assms show ?thesis
    by (auto simp: appendQueueRing_ok appendQueueRing_list dequeueQueueRing_ok dequeueQueueRing_tl
        dequeueQueueRing_hd peekQueueRing_hd split_beta Let_def)
qed

theorem ring_is_fifo_witness:
  "ring_ok (appendQueueRing createQueueRing (1::nat)) \<and>
   ring_list (appendQueueRing (appendQueueRing createQueueRing 1) 2) = [1, 2 :: nat]"
proof -
  note a = ring_is_fifo [OF createQueueRing_ok, of "1::nat"]
  from a have "ring_ok (appendQueueRing createQueueRing (1::nat))" by blast
  from ring_is_fifo [OF this, of 2] a show ?thesis by (simp add: createQueueRing_list)
qed

text \<open>
  Enqueuing places the entry behind every entry of the same or a higher priority and in front
  of every entry of a lower one, and the number it returns (shown to users as the work ahead of
  them) is exactly the number of entries in front.
\<close>

theorem enqueue_position:
  assumes "lane_ok q" and "enqueueLaneQueue q e = (ahead, q')"
  shows "lane_ok q' \<and> lane_list q' = take ahead (lane_list q) @ e # drop ahead (lane_list q) \<and>
    ahead \<le> length (lane_list q) \<and>
    (\<forall>x \<in> set (take ahead (lane_list q)). priority e \<le> priority x) \<and>
    (\<forall>x \<in> set (drop ahead (lane_list q)). priority x < priority e)"
proof -
  let ?P = "\<lambda>x. priority e \<le> priority x"
  let ?xs = "takeWhile ?P (lane_list q)" and ?ys = "dropWhile ?P (lane_list q)"
  note c = enqueueLaneQueue_correct [OF assms]
  have split: "take ahead (lane_list q) = ?xs" "drop ahead (lane_list q) = ?ys"
    by (simp_all add: c(3) takeWhile_eq_take [symmetric] dropWhile_eq_drop)
  have xs: "\<forall>x \<in> set ?xs. ?P x" by (auto dest: set_takeWhileD)
  have ys: "\<forall>x \<in> set ?ys. priority x < priority e"
  proof (cases ?ys)
    case (Cons y zs)
    then have y: "\<not> ?P y" by (metis hd_dropWhile list.sel(1) list.distinct(1))
    have "sorted_wrt (\<lambda>a b. priority b \<le> priority a) (y # zs)"
      using lane_ok_sorted [OF assms(1)] Cons
      by (metis sorted_wrt_append takeWhile_dropWhile_id)
    with y Cons show ?thesis by auto
  next
    case Nil
    show ?thesis unfolding Nil by simp
  qed
  from ys have "\<forall>x \<in> set ?ys. \<not> ?P x" by auto
  from insert_by_priority_mid [OF xs this]
  have "lane_list q' = ?xs @ e # ?ys" by (simp add: c(1))
  with c(2) xs ys show ?thesis
    unfolding split by (simp add: c(3) length_takeWhile_le)
qed

abbreviation sample_entry :: "nat \<Rightarrow> queue_priority \<Rightarrow> nat queue_entry" where
  "sample_entry n p \<equiv> \<lparr>task = n, promise = n, enqueuedAt = 0, sequence = n, priority = p,
     warnAfterMs = 2000, queuedAheadAtEnqueue = 0, activeAheadAtEnqueue = 0, taskTimeoutMs = None,
     taskTimeoutAbortGraceMs = None, progress = False, onWait = False\<rparr>"

theorem enqueue_position_witness:
  "\<exists>q'. enqueueLaneQueue (enqueue_all [sample_entry 2 Background, sample_entry 3 Normal] createLaneQueue)
       (sample_entry 4 Normal) = (1, q') \<and> lane_ok q' \<and> map task (lane_list q') = [3, 4, 2]"
proof -
  let ?q = "enqueue_all [sample_entry 2 Background, sample_entry 3 Normal] createLaneQueue"
  have ok: "lane_ok ?q" by (simp add: enqueue_all_correct lane_ok_create)
  have l: "lane_list ?q = [sample_entry 3 Normal, sample_entry 2 Background]"
    by (simp add: enqueue_all_correct lane_ok_create lane_list_create priority_simps)
  obtain n q' where e: "enqueueLaneQueue ?q (sample_entry 4 Normal) = (n, q')" by (cases rule: prod.exhaust)
  have n: "n = 1" unfolding enqueueLaneQueue_correct(3) [OF ok e] l by (simp add: priority_simps)
  from enqueue_position [OF ok e] e n show ?thesis by (simp add: l)
qed

text \<open>
  A lane serves by priority, and first come first served within a priority: dequeuing
  everything that was enqueued into an empty lane returns the same entries, in an order where no
  entry precedes one of a higher priority and entries of one priority keep their arrival order.
\<close>

theorem lane_serves_by_priority:
  "\<exists>out. laneq.pops (length es) (enqueue_all es createLaneQueue) = map Some out \<and>
     mset out = mset es \<and> sorted_wrt (\<lambda>a b. priority b \<le> priority a) out \<and>
     (\<forall>p. filter (\<lambda>x. priority x = p) out = filter (\<lambda>x. priority x = p) es)"
proof -
  let ?q = "enqueue_all es createLaneQueue"
  have ok: "lane_ok ?q" and l: "lane_list ?q = foldl (\<lambda>xs e. insert_by_priority e xs) [] es"
    using enqueue_all_correct [OF lane_ok_create, of es] by (simp_all add: lane_list_create)
  have s: "sorted_wrt (\<lambda>a b. priority b \<le> priority a) (lane_list ?q)"
    "mset (lane_list ?q) = mset es"
    "filter (\<lambda>x. priority x = p) (lane_list ?q) = filter (\<lambda>x. priority x = p) es" for p
    using fold_insert_by_priority [of "[]" es p] by (simp_all add: l Let_def)
  from s(2) have n: "length (lane_list ?q) = length es" by (metis size_mset)
  have "laneq.pops (length es) ?q = map Some (lane_list ?q)"
    using laneq.pops_contents [OF ok, of "length es"] n by simp
  with s show ?thesis by blast
qed

end
