(* ===== verification/LaneGroups.thy ===== *)
theory LaneGroups
  imports LaneQueue "HOL-Library.List_Lexorder" "HOL-Library.Char_ord"
begin

text \<open>
  The shared command-queue state and the capacity groups: \<open>getQueueState\<close> and \<open>normalizeLane\<close> of
  src/process/command-queue.state.ts, src/process/lanes.ts, \<open>getLaneState\<close> of
  src/process/command-queue.ts, and all of src/process/command-queue.capacity-groups.ts.

  Lane objects are mutable and captured by running tasks, so they live in a heap (a list indexed
  by address) and the registry \<open>lanes\<close> maps names to addresses: a retired or replaced object stays
  in the heap, reachable only from the closures that captured it. Counts are finite numbers:
  \<open>Math.floor\<close> is the floor of a rational. Capacity is always derived from the members' active
  ids, as in the code. The state migration for objects left by an older release is not modelled:
  every state starts from \<open>initialQueueState\<close>.
\<close>

section \<open>State\<close>

record 't lane_state =
  lane :: string
  queue :: "'t lane_queue"
  activeTaskIds :: "nat list"
  maxConcurrent :: int
  draining :: bool
  generation :: nat

record lane_group_state =
  group :: string
  budget :: int
  members :: "string list"
  reservations :: "(string \<times> int) list"

text \<open>
  A started task: the closure that waits for it captures the lane name, the lane object (by
  address), the entry, and the marker's task id and generation.
\<close>

record 't running_task =
  run_lane :: string
  run_state :: nat
  run_entry :: "'t queue_entry"
  run_taskId :: nat
  run_generation :: nat

datatype outcome = TaskDone | TaskFailed | TaskCleared string

datatype queue_effect =
    TaskStarted string nat nat
  | OnWait nat int nat
  | Settled nat outcome

record 't queue_state =
  heap :: "'t lane_state list"
  lanes :: "(string \<times> nat) list"
  nextTaskId :: nat
  nextQueueSequence :: nat
  laneGroups :: "(string \<times> lane_group_state) list"
  laneGroupByLane :: "(string \<times> string) list"
  drainingGroups :: "string list"
  running :: "'t running_task list"
  queueEffects :: "queue_effect list"
  nowMs :: int

definition initialQueueState :: "'t queue_state" where
  "initialQueueState = \<lparr>heap = [], lanes = [], nextTaskId = 1, nextQueueSequence = 1,
     laneGroups = [], laneGroupByLane = [], drainingGroups = [], running = [], queueEffects = [],
     nowMs = 0\<rparr>"

text \<open>The lane names of src/process/lanes.ts.\<close>

datatype command_lane = Main | SystemAgent | Cron | CronNested | HookDispatch
  | SkillWorkshopReview | Subagent | Nested

fun command_lane_name :: "command_lane \<Rightarrow> string" where
  "command_lane_name Main = ''main''"
| "command_lane_name SystemAgent = ''system-agent''"
| "command_lane_name Cron = ''cron''"
| "command_lane_name CronNested = ''cron-nested''"
| "command_lane_name HookDispatch = ''hook-dispatch''"
| "command_lane_name SkillWorkshopReview = ''skill-workshop-review''"
| "command_lane_name Subagent = ''subagent''"
| "command_lane_name Nested = ''nested''"

definition STATIC_COMMAND_LANES :: "string list" where
  "STATIC_COMMAND_LANES = map command_lane_name
     [Main, SystemAgent, Cron, CronNested, HookDispatch, SkillWorkshopReview, Subagent, Nested]"

definition normalizeLane :: "string \<Rightarrow> string" where
  "normalizeLane l = (let t = js_trim l in if t = '''' then command_lane_name Main else t)"

text \<open>\<open>state.lanes.get(lane)\<close>, and writing to the object at an address.\<close>

definition laneAt :: "'t queue_state \<Rightarrow> string \<Rightarrow> 't lane_state option" where
  "laneAt s l = map_option (\<lambda>a. heap s ! a) (map_of (lanes s) l)"

definition putLane :: "nat \<Rightarrow> 't lane_state \<Rightarrow> 't queue_state \<Rightarrow> 't queue_state" where
  "putLane a st s = s\<lparr>heap := (heap s)[a := st]\<rparr>"

definition newLaneState :: "string \<Rightarrow> 't lane_state" where
  "newLaneState l = \<lparr>lane = l, queue = createLaneQueue, activeTaskIds = [], maxConcurrent = 1,
     draining = False, generation = 0\<rparr>"

definition getLaneState :: "string \<Rightarrow> 't queue_state \<Rightarrow> nat \<times> 't queue_state" where
  "getLaneState l s = (case map_of (lanes s) l of
       Some a \<Rightarrow> (a, s)
     | None \<Rightarrow> (length (heap s),
         s\<lparr>heap := heap s @ [newLaneState l], lanes := AList.update l (length (heap s)) (lanes s)\<rparr>))"

section \<open>Capacity groups\<close>

datatype lane_block_reason = LaneFull | GroupBudget | SiblingReservation

text \<open>\<open>CommandLaneGroupSpec\<close>: the reservations in the enumeration order of the object.\<close>

record lane_group_spec =
  spec_budget :: rat
  spec_members :: "string list"
  spec_reservations :: "(string \<times> rat) list"

definition GROUP_INELIGIBLE_LANES :: "string list" where
  "GROUP_INELIGIBLE_LANES = map command_lane_name [Cron, Main, Subagent, Nested]"

definition GROUP_INELIGIBLE_PREFIXES :: "string list" where
  "GROUP_INELIGIBLE_PREFIXES = [''session:'', ''nested:'', ''context-engine-turn-maintenance:'']"

datatype group_error = IneligibleLane string | IneligiblePrefix string string
  | ReservesNonMember string string | OverReserved string int int

definition assertGroupEligibleLane :: "string \<Rightarrow> group_error option" where
  "assertGroupEligibleLane l =
     (if l \<in> set GROUP_INELIGIBLE_LANES then Some (IneligibleLane l)
      else map_option (IneligiblePrefix l) (find (\<lambda>prefix. starts_with prefix l) GROUP_INELIGIBLE_PREFIXES))"

text \<open>An empty group id is falsy in \<open>getLaneGroup\<close>, so a group of that name governs nothing.\<close>

definition getLaneGroup :: "string \<Rightarrow> 't queue_state \<Rightarrow> lane_group_state option" where
  "getLaneGroup l s = (case map_of (laneGroupByLane s) l of
       None \<Rightarrow> None
     | Some g \<Rightarrow> if g = '''' then None else map_of (laneGroups s) g)"

definition getMemberActiveCount :: "string \<Rightarrow> 't queue_state \<Rightarrow> int" where
  "getMemberActiveCount l s =
     (case laneAt s l of Some st \<Rightarrow> int (length (activeTaskIds st)) | None \<Rightarrow> 0)"

definition reservedFor :: "lane_group_state \<Rightarrow> string \<Rightarrow> int" where
  "reservedFor g l = (case map_of (reservations g) l of Some n \<Rightarrow> n | None \<Rightarrow> 0)"

text \<open>The accumulating loop of \<open>resolveLaneBlockReason\<close>: active total, and reservations held back.\<close>

definition groupLoad :: "string \<Rightarrow> lane_group_state \<Rightarrow> 't queue_state \<Rightarrow> int \<times> int" where
  "groupLoad l g s = foldl (\<lambda>(groupActive, siblingReserveHeld) member.
       let active = getMemberActiveCount member s in
       (groupActive + active,
        if member \<noteq> l then siblingReserveHeld + max 0 (reservedFor g member - active)
        else siblingReserveHeld)) (0, 0) (members g)"

definition resolveLaneBlockReason :: "string \<Rightarrow> 't queue_state \<Rightarrow> lane_block_reason option" where
  "resolveLaneBlockReason l s =
     (if (case laneAt s l of
            Some st \<Rightarrow> int (length (activeTaskIds st)) \<ge> maxConcurrent st
          | None \<Rightarrow> False)
      then Some LaneFull
      else case getLaneGroup l s of
        None \<Rightarrow> None
      | Some g \<Rightarrow>
          let (groupActive, siblingReserveHeld) = groupLoad l g s in
          if groupActive \<ge> budget g then Some GroupBudget
          else if getMemberActiveCount l s < reservedFor g l then None
          else if groupActive + siblingReserveHeld < budget g then None
          else Some SiblingReservation)"

definition canAdmitInGroup :: "string \<Rightarrow> 't queue_state \<Rightarrow> bool" where
  "canAdmitInGroup l s =
     (let reason = resolveLaneBlockReason l s in reason = None \<or> reason = Some LaneFull)"

subsection \<open>Defining and installing a group\<close>

fun validateReservations :: "string \<Rightarrow> string list \<Rightarrow> (string \<times> rat) list \<Rightarrow>
    (string \<times> int) list \<Rightarrow> int \<Rightarrow> group_error + ((string \<times> int) list \<times> int)" where
  "validateReservations g ms [] res reservedTotal = Inr (res, reservedTotal)"
| "validateReservations g ms ((rawLane, slots) # rest) res reservedTotal =
     (let member = normalizeLane rawLane in
      if member \<notin> set ms then Inl (ReservesNonMember g member)
      else let reserved = max 0 \<lfloor>slots\<rfloor> in
        validateReservations g ms rest (AList.update member reserved res) (reservedTotal + reserved))"

fun firstError :: "('a \<Rightarrow> 'e option) \<Rightarrow> 'a list \<Rightarrow> 'e option" where
  "firstError f [] = None"
| "firstError f (x # xs) = (case f x of Some e \<Rightarrow> Some e | None \<Rightarrow> firstError f xs)"

definition validateCommandLaneGroupSpec ::
  "string \<Rightarrow> lane_group_spec \<Rightarrow> group_error + lane_group_state" where
  "validateCommandLaneGroupSpec g spec =
     (let ms = map normalizeLane (spec_members spec) in
      case firstError assertGroupEligibleLane ms of
        Some e \<Rightarrow> Inl e
      | None \<Rightarrow>
          (case validateReservations g ms (spec_reservations spec) [] 0 of
             Inl e \<Rightarrow> Inl e
           | Inr (res, reservedTotal) \<Rightarrow>
               (let b = max 0 \<lfloor>spec_budget spec\<rfloor> in
                if reservedTotal > b then Inl (OverReserved g reservedTotal b)
                else Inr \<lparr>group = g, budget = b, members = uniqueValues ms, reservations = res\<rparr>)))"

text \<open>The two loops of \<open>installCommandLaneGroup\<close> that edit the registry before the new entries.\<close>

definition forgetMembers :: "string list \<Rightarrow> (string \<times> string) list \<Rightarrow> (string \<times> string) list" where
  "forgetMembers ms byLane = foldl (\<lambda>m x. AList.delete x m) byLane ms"

definition detachMember :: "string \<Rightarrow> (string \<times> string) list \<Rightarrow>
    (string \<times> lane_group_state) list \<Rightarrow> string \<Rightarrow> (string \<times> lane_group_state) list" where
  "detachMember nxt byLane gs member =
     (case map_of byLane member of
        None \<Rightarrow> gs
      | Some owner \<Rightarrow>
          if owner \<noteq> '''' \<and> owner \<noteq> nxt
          then (case map_of gs owner of
                  None \<Rightarrow> gs
                | Some g \<Rightarrow> AList.update owner (g\<lparr>members := set_delete member (members g)\<rparr>) gs)
          else gs)"

definition installCommandLaneGroup :: "lane_group_state \<Rightarrow> 't queue_state \<Rightarrow> 't queue_state" where
  "installCommandLaneGroup nxt s =
     (let byLane1 = (case map_of (laneGroups s) (group nxt) of
            Some previous \<Rightarrow> forgetMembers (members previous) (laneGroupByLane s)
          | None \<Rightarrow> laneGroupByLane s);
          groups1 = foldl (detachMember (group nxt) byLane1) (laneGroups s) (members nxt)
      in s\<lparr>laneGroups := AList.update (group nxt) nxt groups1,
           laneGroupByLane := foldl (\<lambda>m x. AList.update x (group nxt) m) byLane1 (members nxt)\<rparr>)"

subsection \<open>The group arbiter\<close>

record lane_choice =
  choice_lane :: string
  choice_priority :: queue_priority
  choice_sequence :: nat

definition considerLane :: "'t queue_state \<Rightarrow> lane_choice option \<Rightarrow> string \<Rightarrow> lane_choice option" where
  "considerLane s selected l =
     (case laneAt s l of
        None \<Rightarrow> selected
      | Some st \<Rightarrow>
          (case peekLaneQueue (queue st) of
             None \<Rightarrow> selected
           | Some e \<Rightarrow>
               if draining st \<or> resolveLaneBlockReason l s \<noteq> None then selected
               else
                 let here = \<lparr>choice_lane = l, choice_priority = priority e, choice_sequence = sequence e\<rparr>
                 in case selected of
                      None \<Rightarrow> Some here
                    | Some best \<Rightarrow>
                        if priority e > choice_priority best \<or>
                           (priority e = choice_priority best \<and>
                            (sequence e < choice_sequence best \<or>
                             (sequence e = choice_sequence best \<and> l < choice_lane best)))
                        then Some here else selected))"

definition resolveNextGroupLane :: "lane_group_state \<Rightarrow> 't queue_state \<Rightarrow> string option" where
  "resolveNextGroupLane g s = map_option choice_lane (foldl (considerLane s) None (members g))"

text \<open>
  The arbiter's loop. \<open>drain_one\<close> is the bounded drain the queue supplies: it starts at most the
  given number of tasks of a lane and returns how many it started. Fuel bounds the iterations;
  the locale below shows how much is enough. The loop's test that the group object is still the
  registered one is always true here, since nothing runs between two iterations.
\<close>

fun drainGroupLoop :: "(string \<Rightarrow> nat \<Rightarrow> 't queue_state \<Rightarrow> nat \<times> 't queue_state) \<Rightarrow>
    nat \<Rightarrow> lane_group_state \<Rightarrow> 't queue_state \<Rightarrow> 't queue_state" where
  "drainGroupLoop drain_one 0 g s = s"
| "drainGroupLoop drain_one (Suc fuel) g s =
     (if map_of (laneGroups s) (group g) \<noteq> Some g then s
      else case resolveNextGroupLane g s of
             None \<Rightarrow> s
           | Some selectedLane \<Rightarrow>
               if selectedLane = '''' then s
               else let (started, s1) = drain_one selectedLane 1 s in
                 if started = 0 then s1 else drainGroupLoop drain_one fuel g s1)"

definition drainCommandLaneGroup :: "(string \<Rightarrow> nat \<Rightarrow> 't queue_state \<Rightarrow> nat \<times> 't queue_state) \<Rightarrow>
    nat \<Rightarrow> string \<Rightarrow> 't queue_state \<Rightarrow> 't queue_state" where
  "drainCommandLaneGroup drain_one fuel l s =
     (case getLaneGroup l s of
        None \<Rightarrow> s
      | Some g \<Rightarrow>
          if group g \<in> set (drainingGroups s) then s
          else
            let s1 = drainGroupLoop drain_one fuel g
                       (s\<lparr>drainingGroups := set_add (group g) (drainingGroups s)\<rparr>)
            in s1\<lparr>drainingGroups := set_delete (group g) (drainingGroups s1)\<rparr>)"

definition drainGroupSiblings :: "(string \<Rightarrow> nat \<Rightarrow> 't queue_state \<Rightarrow> nat \<times> 't queue_state) \<Rightarrow>
    nat \<Rightarrow> string \<Rightarrow> 't queue_state \<Rightarrow> 't queue_state" where
  "drainGroupSiblings drain_one fuel l s = drainCommandLaneGroup drain_one fuel l s"


section \<open>Derived capacity\<close>

definition groupActive :: "lane_group_state \<Rightarrow> 't queue_state \<Rightarrow> int" where
  "groupActive g s = (\<Sum>m\<leftarrow>members g. getMemberActiveCount m s)"

definition heldBack :: "string \<Rightarrow> lane_group_state \<Rightarrow> 't queue_state \<Rightarrow> int" where
  "heldBack l g s = (\<Sum>m\<leftarrow>members g.
     if m \<noteq> l then max 0 (reservedFor g m - getMemberActiveCount m s) else 0)"

text \<open>What the members hold or may claim at any time: each the larger of its use and its reservation.\<close>

definition groupClaim :: "lane_group_state \<Rightarrow> 't queue_state \<Rightarrow> int" where
  "groupClaim g s = (\<Sum>m\<leftarrow>members g. max (getMemberActiveCount m s) (reservedFor g m))"

lemma groupLoad_fold:
  "foldl (\<lambda>(ga, held) m. let active = f m in
      (ga + active, if m \<noteq> l then held + max 0 (r m - active) else held)) (a, b :: int) ms
   = (a + (\<Sum>m\<leftarrow>ms. f m), b + (\<Sum>m\<leftarrow>ms. if m \<noteq> l then max 0 (r m - f m) else 0))"
proof (induction ms arbitrary: a b)
  case Nil
  then show ?case by simp
next
  case (Cons m ms)
  then show ?case by (cases "m = l") (simp_all add: Let_def algebra_simps)
qed

lemma groupLoad_eq: "groupLoad l g s = (groupActive g s, heldBack l g s)"
  unfolding groupLoad_def groupLoad_fold by (simp add: groupActive_def heldBack_def)

lemma getMemberActiveCount_nonneg: "0 \<le> getMemberActiveCount l s"
  by (simp add: getMemberActiveCount_def split: option.splits)

lemma sum_list_le_add:
  fixes f g :: "'a \<Rightarrow> int"
  assumes "x \<in> set xs" and "\<And>y. y \<in> set xs \<Longrightarrow> f y \<le> g y" and "f x + d \<le> g x"
  shows "(\<Sum>y\<leftarrow>xs. f y) + d \<le> (\<Sum>y\<leftarrow>xs. g y)"
  using assms(1,2)
proof (induction xs)
  case (Cons a xs)
  have le: "(\<Sum>y\<leftarrow>xs. f y) \<le> (\<Sum>y\<leftarrow>xs. g y)"
    using Cons.prems(2) by (intro sum_list_mono) simp
  show ?case
  proof (cases "a = x")
    case True
    with le assms(3) show ?thesis by simp
  next
    case False
    with Cons.prems Cons.IH have "(\<Sum>y\<leftarrow>xs. f y) + d \<le> (\<Sum>y\<leftarrow>xs. g y)" by simp
    moreover have "f a \<le> g a" using Cons.prems(2) by simp
    ultimately show ?thesis by simp
  qed
qed simp

lemma groupClaim_eq:
  "groupClaim g s = groupActive g s
     + (\<Sum>m\<leftarrow>members g. max 0 (reservedFor g m - getMemberActiveCount m s))"
proof -
  have "groupClaim g s = (\<Sum>m\<leftarrow>members g. getMemberActiveCount m s
      + max 0 (reservedFor g m - getMemberActiveCount m s))"
    unfolding groupClaim_def by (intro arg_cong [where f = sum_list] map_cong) auto
  then show ?thesis unfolding groupActive_def by (simp only: sum_list_addf)
qed

lemma groupActive_le_claim: "groupActive g s \<le> groupClaim g s"
  unfolding groupActive_def groupClaim_def by (intro sum_list_mono) simp

lemma groupClaim_over:
  assumes "reservedFor g l \<le> getMemberActiveCount l s"
  shows "groupClaim g s = groupActive g s + heldBack l g s"
proof -
  have "max 0 (reservedFor g m - getMemberActiveCount m s) =
      (if m \<noteq> l then max 0 (reservedFor g m - getMemberActiveCount m s) else 0)" for m
    using assms by simp
  then have "heldBack l g s = (\<Sum>m\<leftarrow>members g. max 0 (reservedFor g m - getMemberActiveCount m s))"
    unfolding heldBack_def by presburger
  then show ?thesis by (simp add: groupClaim_eq)
qed

lemma admitted_group:
  assumes "resolveLaneBlockReason l s = None" and "getLaneGroup l s = Some g"
  shows "groupActive g s < budget g"
    and "getMemberActiveCount l s < reservedFor g l \<or> groupActive g s + heldBack l g s < budget g"
  using assms by (auto simp: resolveLaneBlockReason_def groupLoad_eq split: if_splits)

lemma sum_list_bump:
  fixes f :: "'a \<Rightarrow> int"
  assumes "distinct xs" and "x \<in> set xs"
  shows "(\<Sum>y\<leftarrow>xs. if y = x then f y + 1 else f y) = (\<Sum>y\<leftarrow>xs. f y) + 1"
  using assms
proof (induction xs)
  case (Cons a xs)
  show ?case
  proof (cases "a = x")
    case True
    with Cons.prems have "(\<Sum>y\<leftarrow>xs. if y = x then f y + 1 else f y) = (\<Sum>y\<leftarrow>xs. f y)"
      by (intro arg_cong [where f = sum_list] map_cong) auto
    with True show ?thesis by simp
  next
    case False
    with Cons show ?thesis by simp
  qed
qed simp

text \<open>Admitting one task keeps the group within its budget, counting the reservations of all.\<close>

lemma admission_keeps_claim:
  assumes adm: "resolveLaneBlockReason l s = None" "getLaneGroup l s = Some g"
    and g: "distinct (members g)" "l \<in> set (members g)"
    and bump: "\<And>m. getMemberActiveCount m t = getMemberActiveCount m s + (if m = l then 1 else 0)"
    and le: "groupClaim g s \<le> budget g"
  shows "groupClaim g t \<le> budget g"
proof (cases "getMemberActiveCount l s < reservedFor g l")
  case True
  then have "max (getMemberActiveCount m t) (reservedFor g m)
      = max (getMemberActiveCount m s) (reservedFor g m)" for m
    by (simp add: bump)
  with le show ?thesis by (simp add: groupClaim_def)
next
  case False
  then have "groupClaim g s < budget g"
    using admitted_group(2) [OF adm] groupClaim_over [of g l s] by simp
  moreover have "max (getMemberActiveCount m t) (reservedFor g m) =
      (if m = l then max (getMemberActiveCount m s) (reservedFor g m) + 1
       else max (getMemberActiveCount m s) (reservedFor g m))" for m
    using False by (simp add: bump)
  then have "groupClaim g t = groupClaim g s + 1"
    unfolding groupClaim_def using sum_list_bump [OF g] by simp
  ultimately show ?thesis by simp
qed

lemma admission_keeps_active:
  assumes adm: "resolveLaneBlockReason l s = None" "getLaneGroup l s = Some g"
    and g: "distinct (members g)" "l \<in> set (members g)"
    and bump: "\<And>m. getMemberActiveCount m t = getMemberActiveCount m s + (if m = l then 1 else 0)"
  shows "groupActive g t \<le> budget g"
proof -
  have "getMemberActiveCount m t = (if m = l then getMemberActiveCount m s + 1
      else getMemberActiveCount m s)" for m by (simp add: bump)
  then have "groupActive g t = groupActive g s + 1"
    unfolding groupActive_def using sum_list_bump [OF g] by simp
  with admitted_group(1) [OF adm] show ?thesis by simp
qed

text \<open>A reservation is never refused: the owner below it is admitted whatever the siblings do.\<close>

lemma reservation_admitted:
  assumes "getLaneGroup l s = Some g" and "l \<in> set (members g)"
    and "groupClaim g s \<le> budget g" and "getMemberActiveCount l s < reservedFor g l"
    and "\<And>st. laneAt s l = Some st \<Longrightarrow> int (length (activeTaskIds st)) < maxConcurrent st"
  shows "resolveLaneBlockReason l s = None"
proof -
  have "groupActive g s + 1 \<le> groupClaim g s"
    unfolding groupActive_def groupClaim_def
    by (rule sum_list_le_add [OF assms(2)]) (use assms(4) in simp_all)
  with assms show ?thesis
    by (auto simp: resolveLaneBlockReason_def groupLoad_eq split: option.splits)
qed


section \<open>Well-formed groups and registries\<close>

definition group_ok :: "lane_group_state \<Rightarrow> bool" where
  "group_ok g \<longleftrightarrow> distinct (members g) \<and> '''' \<notin> set (members g) \<and>
     (\<forall>m \<in> set (members g). assertGroupEligibleLane m = None) \<and>
     distinct (map fst (reservations g)) \<and> (\<forall>n \<in> snd ` set (reservations g). 0 \<le> n) \<and>
     sum_list (map snd (reservations g)) \<le> budget g"

text \<open>
  The two maps agree: a lane is mapped to a group exactly when that group lists it, so every lane
  has at most one owner. The empty name is excluded, as the code treats it as no group.
\<close>

definition registry_ok :: "(string \<times> lane_group_state) list \<Rightarrow> (string \<times> string) list \<Rightarrow> bool" where
  "registry_ok gs byLane \<longleftrightarrow> map_of gs '''' = None \<and>
     (\<forall>n g. map_of gs n = Some g \<longrightarrow> group g = n \<and> group_ok g) \<and>
     (\<forall>l n. map_of byLane l = Some n \<longleftrightarrow> (\<exists>g. map_of gs n = Some g \<and> l \<in> set (members g)))"

lemma getLaneGroup_iff:
  assumes "registry_ok (laneGroups s) (laneGroupByLane s)"
  shows "getLaneGroup l s = Some g \<longleftrightarrow> map_of (laneGroups s) (group g) = Some g \<and> l \<in> set (members g)"
proof -
  from assms have names: "map_of (laneGroups s) n = Some g \<Longrightarrow> group g = n" for n g
    by (simp add: registry_ok_def)
  from assms have owner: "map_of (laneGroupByLane s) l = Some n \<longleftrightarrow>
      (\<exists>g. map_of (laneGroups s) n = Some g \<and> l \<in> set (members g))" for n
    by (simp add: registry_ok_def)
  from assms have e: "map_of (laneGroups s) '''' = None" by (simp add: registry_ok_def)
  show ?thesis
  proof
    assume "getLaneGroup l s = Some g"
    then obtain n where n: "map_of (laneGroupByLane s) l = Some n" "map_of (laneGroups s) n = Some g"
      by (auto simp: getLaneGroup_def split: option.splits if_splits)
    from names [OF n(2)] owner [of n] n show "map_of (laneGroups s) (group g) = Some g \<and> l \<in> set (members g)"
      by auto
  next
    assume g: "map_of (laneGroups s) (group g) = Some g \<and> l \<in> set (members g)"
    with owner [of "group g"] have "map_of (laneGroupByLane s) l = Some (group g)" by blast
    moreover from g e have "group g \<noteq> ''''" by auto
    ultimately show "getLaneGroup l s = Some g" using g by (simp add: getLaneGroup_def)
  qed
qed

subsection \<open>Validation\<close>

lemma firstError_None: "firstError f xs = None \<longleftrightarrow> (\<forall>x \<in> set xs. f x = None)"
  by (induction xs) (auto split: option.splits)

lemma normalizeLane_nonempty: "normalizeLane l \<noteq> ''''"
  by (simp add: normalizeLane_def Let_def)

lemma normalizeLane_idem: "normalizeLane (normalizeLane l) = normalizeLane l"
proof -
  have "js_trim ''main'' = ''main''" by code_simp
  then show ?thesis by (simp add: normalizeLane_def Let_def)
qed

definition reservations_ok :: "(string \<times> int) list \<Rightarrow> int \<Rightarrow> bool" where
  "reservations_ok res n \<longleftrightarrow> distinct (map fst res) \<and> (\<forall>k \<in> snd ` set res. 0 \<le> k) \<and>
     sum_list (map snd res) \<le> n"

lemma sum_update_le:
  "(\<forall>k \<in> snd ` set res. (0::int) \<le> k) \<Longrightarrow>
   sum_list (map snd (AList.update m v res)) \<le> sum_list (map snd res) + v"
  by (induction res) auto

lemma snd_update_subset: "snd ` set (AList.update m v res) \<subseteq> insert v (snd ` set res)"
  by (induction res) auto

lemma reservations_ok_update:
  "reservations_ok res n \<Longrightarrow> 0 \<le> v \<Longrightarrow> reservations_ok (AList.update m v res) (n + v)"
  using sum_update_le [of res m v] snd_update_subset [of m v res]
  by (fastforce simp: reservations_ok_def distinct_update)

lemma validateReservations_ok:
  "validateReservations g ms rs res n = Inr (res', n') \<Longrightarrow> reservations_ok res n \<Longrightarrow>
   reservations_ok res' n'"
  by (induction g ms rs res n rule: validateReservations.induct)
    (auto simp: Let_def reservations_ok_update split: if_splits)

lemma validate_ok:
  assumes "validateCommandLaneGroupSpec g spec = Inr G"
  shows "group_ok G \<and> group G = g"
proof -
  let ?ms = "map normalizeLane (spec_members spec)" and ?b = "max 0 \<lfloor>spec_budget spec\<rfloor>"
  from assms obtain res n where e: "firstError assertGroupEligibleLane ?ms = None"
    and v: "validateReservations g ?ms (spec_reservations spec) [] 0 = Inr (res, n)"
    and n: "n \<le> ?b"
    and G: "G = \<lparr>group = g, budget = ?b, members = uniqueValues ?ms, reservations = res\<rparr>"
    by (auto simp: validateCommandLaneGroupSpec_def Let_def split: option.splits sum.splits if_splits)
  have "reservations_ok res n"
    by (rule validateReservations_ok [OF v]) (simp add: reservations_ok_def)
  with n e show ?thesis
    by (auto simp: G group_ok_def reservations_ok_def firstError_None normalizeLane_nonempty
        dest: normalizeLane_nonempty [THEN notE, OF sym])
qed

text \<open>While its members are idle, a group's claim is what it reserves: within the budget.\<close>

lemma sum_reserved_le:
  "distinct ms \<Longrightarrow> distinct (map fst res) \<Longrightarrow> (\<forall>k \<in> snd ` set res. 0 \<le> k) \<Longrightarrow>
   (\<Sum>m\<leftarrow>ms. case map_of res m of Some n \<Rightarrow> n | None \<Rightarrow> 0) \<le> sum_list (map snd res)" for ms :: "string list" and res :: "(string \<times> int) list"
proof (induction res)
  case (Cons p res)
  obtain k v where p: "p = (k, v)" by (cases p)
  let ?r = "\<lambda>m. case map_of res m of Some n \<Rightarrow> n | None \<Rightarrow> 0"
  have k: "?r k = 0"
    using Cons.prems(2) by (simp add: p map_of_eq_None_iff [THEN iffD2])
  have step: "distinct ms \<Longrightarrow> (\<Sum>m\<leftarrow>ms. if m = k then v else ?r m) \<le> (\<Sum>m\<leftarrow>ms. ?r m) + v"
    for ms
  proof (induction ms)
    case (Cons a ms)
    show ?case
    proof (cases "a = k")
      case True
      with Cons.prems have "(\<Sum>m\<leftarrow>ms. if m = k then v else ?r m) = (\<Sum>m\<leftarrow>ms. ?r m)"
        by (intro arg_cong [where f = sum_list] map_cong) auto
      with True k show ?thesis by simp
    next
      case False
      with Cons show ?thesis by simp
    qed
  qed (use Cons.prems(3) p in simp)
  have "(\<Sum>m\<leftarrow>ms. case map_of (p # res) m of Some n \<Rightarrow> n | None \<Rightarrow> 0)
      = (\<Sum>m\<leftarrow>ms. if m = k then v else ?r m)"
    by (intro arg_cong [where f = sum_list] map_cong) (auto simp: p)
  also have "\<dots> \<le> (\<Sum>m\<leftarrow>ms. ?r m) + v" by (rule step [OF Cons.prems(1)])
  also have "\<dots> \<le> sum_list (map snd res) + v" using Cons by simp
  finally show ?case by (simp add: p)
qed simp

lemma idle_claim:
  assumes "group_ok g" and "\<And>m. m \<in> set (members g) \<Longrightarrow> getMemberActiveCount m s = 0"
  shows "groupClaim g s \<le> budget g"
proof -
  have "0 \<le> reservedFor g m" for m
    using assms(1) by (force simp: group_ok_def reservedFor_def split: option.splits dest: map_of_SomeD)
  then have "groupClaim g s = (\<Sum>m\<leftarrow>members g. reservedFor g m)"
    unfolding groupClaim_def using assms(2)
    by (intro arg_cong [where f = sum_list] map_cong) auto
  also have "\<dots> \<le> sum_list (map snd (reservations g))"
    unfolding reservedFor_def using assms(1) by (intro sum_reserved_le) (auto simp: group_ok_def)
  finally show ?thesis using assms(1) by (simp add: group_ok_def)
qed

subsection \<open>Installation\<close>

lemma map_of_forgetMembers:
  "map_of (forgetMembers ms byLane) l = (if l \<in> set ms then None else map_of byLane l)"
  unfolding forgetMembers_def by (induction ms arbitrary: byLane) (auto simp: map_of_delete_if)

lemma map_of_claimMembers:
  "map_of (foldl (\<lambda>m x. AList.update x n m) byLane ms) l = (if l \<in> set ms then Some n else map_of byLane l)"
  by (induction ms arbitrary: byLane) (auto simp: map_of_update_if)

lemma map_of_detachMember:
  "map_of (detachMember nxt byLane gs m) n =
     (if n \<noteq> '''' \<and> n \<noteq> nxt \<and> map_of byLane m = Some n
      then map_option (\<lambda>g. g\<lparr>members := set_delete m (members g)\<rparr>) (map_of gs n) else map_of gs n)"
  by (auto simp: detachMember_def map_of_update_if split: option.splits)

lemma map_of_detachMembers:
  "n \<noteq> '''' \<Longrightarrow> n \<noteq> nxt \<Longrightarrow>
   map_of (foldl (detachMember nxt byLane) gs ms) n =
     map_option (\<lambda>g. g\<lparr>members := filter (\<lambda>l. \<not> (l \<in> set ms \<and> map_of byLane l = Some n)) (members g)\<rparr>)
       (map_of gs n)"
proof (induction ms arbitrary: gs)
  case Nil
  then show ?case by (cases "map_of gs n") simp_all
next
  case (Cons m ms)
  then show ?case
    by (cases "map_of gs n")
      (auto simp: map_of_detachMember set_delete_def intro!: arg_cong [where f = "\<lambda>x. _\<lparr>members := x\<rparr>"] filter_cong)
qed

lemma map_of_detachMembers_empty:
  "map_of (foldl (detachMember nxt byLane) gs ms) '''' = map_of gs ''''"
  by (induction ms arbitrary: gs) (simp_all add: map_of_detachMember)

lemma group_ok_shrink: "group_ok g \<Longrightarrow> group_ok (g\<lparr>members := filter P (members g)\<rparr>)"
  by (simp add: group_ok_def)

lemma install_registry_ok:
  assumes ok: "registry_ok (laneGroups s) (laneGroupByLane s)"
    and nxt: "group_ok nxt" "group nxt \<noteq> ''''"
  defines "t \<equiv> installCommandLaneGroup nxt s"
  shows "registry_ok (laneGroups t) (laneGroupByLane t)"
    and "map_of (laneGroups t) (group nxt) = Some nxt"
proof -
  let ?by1 = "case map_of (laneGroups s) (group nxt) of
      Some previous \<Rightarrow> forgetMembers (members previous) (laneGroupByLane s) | None \<Rightarrow> laneGroupByLane s"
  have by1: "map_of ?by1 l = Some n \<longleftrightarrow> n \<noteq> group nxt \<and>
      (\<exists>g. map_of (laneGroups s) n = Some g \<and> l \<in> set (members g))" for l n
  proof -
    from ok have owner: "map_of (laneGroupByLane s) l = Some k \<longleftrightarrow>
        (\<exists>g. map_of (laneGroups s) k = Some g \<and> l \<in> set (members g))" for k
      unfolding registry_ok_def by blast
    show ?thesis
    proof (cases "map_of (laneGroups s) (group nxt)")
      case None
      then show ?thesis by (auto simp: owner)
    next
      case (Some previous)
      show ?thesis
      proof (cases "l \<in> set (members previous)")
        case True
        with Some owner [of "group nxt"] have "map_of (laneGroupByLane s) l = Some (group nxt)" by blast
        with owner [of n] Some True show ?thesis by (auto simp: map_of_forgetMembers)
      next
        case False
        with Some owner [of n] show ?thesis by (auto simp: map_of_forgetMembers)
      qed
    qed
  qed
  have by2: "map_of (laneGroupByLane t) l = Some n \<longleftrightarrow>
      (if l \<in> set (members nxt) then n = group nxt else map_of ?by1 l = Some n)" for l n
    by (auto simp: t_def installCommandLaneGroup_def Let_def map_of_claimMembers)
  have gs: "map_of (laneGroups t) n = (if n = group nxt then Some nxt
      else map_option (\<lambda>g. g\<lparr>members := filter (\<lambda>l. \<not> (l \<in> set (members nxt) \<and> map_of ?by1 l = Some n)) (members g)\<rparr>)
        (map_of (laneGroups s) n))" if "n \<noteq> ''''" for n
    using that by (simp add: t_def installCommandLaneGroup_def Let_def map_of_update_if map_of_detachMembers)
  have e: "map_of (laneGroups t) '''' = None"
    using ok nxt(2)
    by (simp add: t_def installCommandLaneGroup_def Let_def map_of_update_if map_of_detachMembers_empty registry_ok_def)
  show "map_of (laneGroups t) (group nxt) = Some nxt" using gs nxt(2) by simp
  have names: "group g = n \<and> group_ok g" if "map_of (laneGroups t) n = Some g" for n g
  proof (cases "n = ''''")
    case True
    with that e show ?thesis by simp
  next
    case False
    with that gs ok nxt show ?thesis
      by (auto simp: registry_ok_def group_ok_shrink split: if_splits)
  qed
  have old: "map_of (laneGroups s) n = Some g \<Longrightarrow> n \<noteq> ''''" for n g
    using ok by (auto simp: registry_ok_def)
  have owner: "map_of (laneGroupByLane t) l = Some n \<longleftrightarrow>
      (\<exists>g. map_of (laneGroups t) n = Some g \<and> l \<in> set (members g))" for l n
  proof (cases "n = ''''")
    case True
    then show ?thesis using e nxt(2) old by (auto simp: by2 by1)
  next
    case False
    then show ?thesis
      by (cases "n = group nxt") (auto simp: by2 by1 gs)
  qed
  from e names owner show "registry_ok (laneGroups t) (laneGroupByLane t)"
    unfolding registry_ok_def by blast
qed

section \<open>The arbiter's choice\<close>

text \<open>A member's head entry, when the member could start it now.\<close>

definition candidate :: "'t queue_state \<Rightarrow> string \<Rightarrow> lane_choice option" where
  "candidate s l =
     (case laneAt s l of
        None \<Rightarrow> None
      | Some st \<Rightarrow>
          (case peekLaneQueue (queue st) of
             None \<Rightarrow> None
           | Some e \<Rightarrow>
               if draining st \<or> resolveLaneBlockReason l s \<noteq> None then None
               else Some \<lparr>choice_lane = l, choice_priority = priority e, choice_sequence = sequence e\<rparr>))"

definition better :: "lane_choice \<Rightarrow> lane_choice \<Rightarrow> bool" where
  "better c best \<longleftrightarrow> choice_priority c > choice_priority best \<or>
     (choice_priority c = choice_priority best \<and>
      (choice_sequence c < choice_sequence best \<or>
       (choice_sequence c = choice_sequence best \<and> choice_lane c < choice_lane best)))"

lemma better_trans: "better a b \<Longrightarrow> better b c \<Longrightarrow> better a c"
  unfolding better_def by (auto dest: order.strict_trans)

lemma better_irrefl: "\<not> better a a"
  by (simp add: better_def)

lemma considerLane_candidate:
  "considerLane s selected l = (case candidate s l of
     None \<Rightarrow> selected
   | Some here \<Rightarrow> (case selected of
        None \<Rightarrow> Some here
      | Some best \<Rightarrow> if better here best then Some here else selected))"
  by (auto simp: considerLane_def candidate_def better_def Let_def split: option.splits)

lemma candidate_lane: "candidate s l = Some c \<Longrightarrow> choice_lane c = l"
  by (auto simp: candidate_def split: option.splits if_splits)

lemma foldl_considerLane:
  "(case foldl (considerLane s) None ms of
      None \<Rightarrow> \<forall>m \<in> set ms. candidate s m = None
    | Some c \<Rightarrow> (\<exists>m \<in> set ms. candidate s m = Some c) \<and>
        (\<forall>m \<in> set ms. \<forall>d. candidate s m = Some d \<longrightarrow> \<not> better d c))"
proof (induction ms rule: rev_induct)
  case Nil
  then show ?case by simp
next
  case (snoc x xs)
  let ?f = "foldl (considerLane s) None"
  have step: "?f (xs @ [x]) = (case candidate s x of None \<Rightarrow> ?f xs
      | Some here \<Rightarrow> (case ?f xs of None \<Rightarrow> Some here
         | Some best \<Rightarrow> if better here best then Some here else ?f xs))"
    by (simp add: considerLane_candidate [of s "?f xs" x])
  show ?case
  proof (cases "candidate s x")
    case None
    with step have "?f (xs @ [x]) = ?f xs" by simp
    with snoc None show ?thesis by (auto split: option.splits)
  next
    case here: (Some h)
    show ?thesis
    proof (cases "?f xs")
      case None
      with step here have "?f (xs @ [x]) = Some h" by simp
      with snoc None here show ?thesis by (auto simp: better_irrefl)
    next
      case (Some c)
      with snoc have c: "\<exists>m \<in> set xs. candidate s m = Some c"
        "\<forall>m \<in> set xs. \<forall>d. candidate s m = Some d \<longrightarrow> \<not> better d c" by simp_all
      have "?f (xs @ [x]) = Some (if better h c then h else c)" using step here Some by simp
      with here c show ?thesis by (auto simp: better_irrefl dest: better_trans)
    qed
  qed
qed

lemma resolveNextGroupLane_Some:
  assumes "resolveNextGroupLane g s = Some l"
  obtains c where "l \<in> set (members g)" and "candidate s l = Some c"
    and "\<And>m d. m \<in> set (members g) \<Longrightarrow> candidate s m = Some d \<Longrightarrow> \<not> better d c"
proof -
  from assms obtain c where c: "foldl (considerLane s) None (members g) = Some c" "choice_lane c = l"
    by (auto simp: resolveNextGroupLane_def)
  with foldl_considerLane [where s = s and ms = "members g"]
  obtain m where m: "m \<in> set (members g)" "candidate s m = Some c"
    and best: "\<forall>m \<in> set (members g). \<forall>d. candidate s m = Some d \<longrightarrow> \<not> better d c" by auto
  from candidate_lane [OF m(2)] c(2) have "m = l" by simp
  with m best show thesis by (intro that [of c]) auto
qed

lemma resolveNextGroupLane_None:
  "resolveNextGroupLane g s = None \<longleftrightarrow> (\<forall>m \<in> set (members g). candidate s m = None)"
  using foldl_considerLane [where s = s and ms = "members g"]
  by (auto simp: resolveNextGroupLane_def split: option.splits)

section \<open>The interface the arbiter drains through\<close>

definition totalQueued :: "'t queue_state \<Rightarrow> nat" where
  "totalQueued s = (\<Sum>st\<leftarrow>heap s. queue_length (queue st))"

text \<open>
  The contract of the bounded drain: it keeps the caller's invariant and the groups, it reports a
  start only when it has consumed an entry, and it does start a lane the arbiter found admissible.
\<close>

locale bounded_drain =
  fixes drain_one :: "string \<Rightarrow> nat \<Rightarrow> 't queue_state \<Rightarrow> nat \<times> 't queue_state"
    and good :: "'t queue_state \<Rightarrow> bool"
  assumes keeps: "good s \<Longrightarrow> candidate s l \<noteq> None \<Longrightarrow> drain_one l 1 s = (n, t) \<Longrightarrow>
      good t \<and> laneGroups t = laneGroups s \<and> laneGroupByLane t = laneGroupByLane s \<and>
      drainingGroups t = drainingGroups s"
    and consumes: "good s \<Longrightarrow> candidate s l \<noteq> None \<Longrightarrow> drain_one l 1 s = (n, t) \<Longrightarrow>
      totalQueued t < totalQueued s"
    and starts: "good s \<Longrightarrow> candidate s l \<noteq> None \<Longrightarrow> drain_one l 1 s = (n, t) \<Longrightarrow> n \<noteq> 0"
begin

lemma loop_induct:
  assumes "good s" and "map_of (laneGroups s) (group g) = Some g" and "'''' \<notin> set (members g)"
    and "P s"
    and step: "\<And>s l n t. good s \<Longrightarrow> map_of (laneGroups s) (group g) = Some g \<Longrightarrow> P s \<Longrightarrow>
      resolveNextGroupLane g s = Some l \<Longrightarrow> drain_one l 1 s = (n, t) \<Longrightarrow> P t"
    and "totalQueued s < fuel"
  shows "let t = drainGroupLoop drain_one fuel g s in
    P t \<and> good t \<and> laneGroups t = laneGroups s \<and> laneGroupByLane t = laneGroupByLane s \<and>
    drainingGroups t = drainingGroups s \<and> resolveNextGroupLane g t = None"
  using assms(1,2,4,6)
proof (induction fuel arbitrary: s)
  case 0
  then show ?case by simp
next
  case (Suc fuel)
  show ?case
  proof (cases "resolveNextGroupLane g s")
    case None
    with Suc.prems show ?thesis by (simp add: Let_def)
  next
    case (Some l)
    then obtain c where l: "l \<in> set (members g)" "candidate s l = Some c"
      by (rule resolveNextGroupLane_Some)
    then have ne: "l \<noteq> ''''" and cand: "candidate s l \<noteq> None" using assms(3) by auto
    obtain n t where d: "drain_one l 1 s = (n, t)" by (cases rule: prod.exhaust)
    note k = keeps [OF Suc.prems(1) cand d] and n = starts [OF Suc.prems(1) cand d]
      and dec = consumes [OF Suc.prems(1) cand d]
    have "drainGroupLoop drain_one (Suc fuel) g s = drainGroupLoop drain_one fuel g t"
      using Suc.prems(2) Some ne d n by simp
    moreover have "let u = drainGroupLoop drain_one fuel g t in
        P u \<and> good u \<and> laneGroups u = laneGroups t \<and> laneGroupByLane u = laneGroupByLane t \<and>
        drainingGroups u = drainingGroups t \<and> resolveNextGroupLane g u = None"
      using Suc.IH [of t] k dec Suc.prems step [OF Suc.prems(1-3) Some d] by simp
    ultimately show ?thesis using k by simp
  qed
qed

text \<open>With enough fuel the arbiter stops only when no member can start anything.\<close>

lemmas loop_quiescent = loop_induct [where P = "\<lambda>_. True", simplified]

end

section \<open>Properties\<close>

text \<open>
  Installing a validated group keeps the registry consistent: every lane has at most one owning
  group and the two maps agree; exactly the group's members are governed by it from then on; and
  while they are idle its reservations, all of which can be honoured together, fit its budget.
\<close>

theorem installed_group_governs:
  assumes "registry_ok (laneGroups s) (laneGroupByLane s)"
    and "validateCommandLaneGroupSpec g spec = Inr G" and "g \<noteq> ''''"
  shows "let t = installCommandLaneGroup G s in
    registry_ok (laneGroups t) (laneGroupByLane t) \<and>
    (\<forall>l. getLaneGroup l t = Some G \<longleftrightarrow> l \<in> set (map normalizeLane (spec_members spec))) \<and>
    ((\<forall>m \<in> set (members G). getMemberActiveCount m t = 0) \<longrightarrow> groupClaim G t \<le> budget G)"
proof -
  let ?t = "installCommandLaneGroup G s"
  from validate_ok [OF assms(2)] assms(3) have G: "group_ok G" "group G \<noteq> ''''" by auto
  note t = install_registry_ok [OF assms(1) G]
  have "set (members G) = set (map normalizeLane (spec_members spec))"
    using assms(2) by (auto simp: validateCommandLaneGroupSpec_def Let_def split: option.splits sum.splits if_splits)
  then show ?thesis
    using t getLaneGroup_iff [OF t(1)] idle_claim [OF G(1), of ?t] by (auto simp: Let_def)
qed

definition demoSpec :: lane_group_spec where
  "demoSpec = \<lparr>spec_budget = 5 / 2, spec_members = [''hook-dispatch'', '' cron-nested''],
     spec_reservations = [(''hook-dispatch'', 1)]\<rparr>"

theorem installed_group_governs_witness:
  "\<exists>G. validateCommandLaneGroupSpec ''cron'' demoSpec = Inr G \<and> budget G = 2 \<and>
     getLaneGroup ''cron-nested'' (installCommandLaneGroup G (initialQueueState :: nat queue_state)) = Some G"
proof -
  let ?G = "\<lparr>group = ''cron'', budget = 2, members = [''hook-dispatch'', ''cron-nested''],
      reservations = [(''hook-dispatch'', 1)]\<rparr>"
  have v: "validateCommandLaneGroupSpec ''cron'' demoSpec = Inr ?G" by code_simp
  have r: "registry_ok (laneGroups (initialQueueState :: nat queue_state)) (laneGroupByLane (initialQueueState :: nat queue_state))"
    by (simp add: registry_ok_def initialQueueState_def)
  have m: "''cron-nested'' \<in> set (map normalizeLane (spec_members demoSpec))" by code_simp
  from installed_group_governs [OF r v] m have "getLaneGroup ''cron-nested''
      (installCommandLaneGroup ?G (initialQueueState :: nat queue_state)) = Some ?G"
    by (simp add: Let_def)
  with v show ?thesis by (intro exI [of _ ?G]) simp
qed


definition demoGroup :: lane_group_state where
  "demoGroup = \<lparr>group = ''g'', budget = 1, members = [''h'', ''n''], reservations = [(''h'', 1)]\<rparr>"

definition demoGrouped :: "nat queue_state" where
  "demoGrouped = installCommandLaneGroup demoGroup initialQueueState"


text \<open>
  C11. The group arbiter starts the right lane next: the lane it selects is a member with a queued
  head it may start now, and no other admissible member's head has a higher priority, or the same
  priority and an earlier enqueue; it selects nothing exactly when no member is admissible.
\<close>

theorem arbiter_selects_oldest:
  "case resolveNextGroupLane g s of
     None \<Rightarrow> \<forall>m \<in> set (members g). candidate s m = None
   | Some l \<Rightarrow> l \<in> set (members g) \<and> resolveLaneBlockReason l s = None \<and>
       (\<exists>st e. laneAt s l = Some st \<and> peekLaneQueue (queue st) = Some e \<and>
         (\<forall>m st' e'. m \<in> set (members g) \<longrightarrow> laneAt s m = Some st' \<longrightarrow> peekLaneQueue (queue st') = Some e' \<longrightarrow>
            \<not> draining st' \<longrightarrow> resolveLaneBlockReason m s = None \<longrightarrow>
            priority e' < priority e \<or> (priority e' = priority e \<and> sequence e \<le> sequence e')))"
proof (cases "resolveNextGroupLane g s")
  case None
  with resolveNextGroupLane_None [of g s] have "\<forall>m \<in> set (members g). candidate s m = None" by blast
  then show ?thesis unfolding None by simp
next
  case (Some l)
  then show ?thesis
  proof (rule resolveNextGroupLane_Some)
    fix c assume l: "l \<in> set (members g)" and c: "candidate s l = Some c"
      and best: "\<And>m d. m \<in> set (members g) \<Longrightarrow> candidate s m = Some d \<Longrightarrow> \<not> better d c"
    from c obtain st e where st: "laneAt s l = Some st" "peekLaneQueue (queue st) = Some e"
      "resolveLaneBlockReason l s = None"
      and ce: "c = \<lparr>choice_lane = l, choice_priority = priority e, choice_sequence = sequence e\<rparr>"
      by (auto simp: candidate_def split: option.splits if_splits)
    have "priority e' < priority e \<or> (priority e' = priority e \<and> sequence e \<le> sequence e')"
      if "m \<in> set (members g)" "laneAt s m = Some st'" "peekLaneQueue (queue st') = Some e'"
        "\<not> draining st'" "resolveLaneBlockReason m s = None" for m st' e'
      using best [OF that(1), of "\<lparr>choice_lane = m, choice_priority = priority e', choice_sequence = sequence e'\<rparr>"]
        that by (auto simp: candidate_def better_def ce)
    with l st Some show ?thesis by auto
  qed
qed

theorem arbiter_selects_oldest_witness:
  "resolveNextGroupLane demoGroup demoGrouped = None \<and> candidate demoGrouped (hd (members demoGroup)) = None"
proof -
  have n: "resolveNextGroupLane demoGroup demoGrouped = None" by code_simp
  have m: "hd (members demoGroup) \<in> set (members demoGroup)" by code_simp
  from n arbiter_selects_oldest [of demoGroup demoGrouped]
  have "\<forall>m \<in> set (members demoGroup). candidate demoGrouped m = None" by simp
  with n m show ?thesis by blast
qed

end
