(* ===== verification/WorkAdmission.thy ===== *)
theory WorkAdmission
  imports Prelude
begin

text \<open>
  Process-wide root work admission (src/src/process/gateway-work-admission.ts): who may start work
  while the gateway is being restarted or suspended, and the reference counts that say how much
  admitted work is still running.

  Objects whose identity matters live in a store: root admissions (\<open>roots\<close>, shared by every lease
  and continuation of one request), the release closures (\<open>handles\<close>, each with its own
  \<open>leaseReleased\<close> flag) and continuation scopes (\<open>scopes\<close>). An address is a number, a fresh object
  takes the next one. The \<open>AsyncLocalStorage\<close> value of the caller is the argument \<open>current\<close>.
  Log lines, resolved waiters and the suspension callback are recorded in \<open>effects\<close>, newest last.
\<close>

section \<open>State\<close>

datatype suspend_phase = Accepting | Preparing | Draining | Prepared

datatype close_reason = RestartSignalFence | RestartDrain | SuspendPhase

datatype admission_effect =
    ResolveWaiter nat
  | InvokeInvalidated nat
  | LogClosed close_reason
  | LogReopened close_reason
  | LogFenceClearedSuspended

record root_admission =
  references :: int
  released :: bool
  retiredByReset :: bool

record release_handle =
  handleRoot :: nat
  leaseReleased :: bool

record continuation_scope =
  scopeRoot :: nat
  scopeRelease :: "nat option"
  scopeReleased :: bool

record admission_state =
  restartDraining :: bool
  restartSignalPending :: bool
  restartSignalGeneration :: nat
  suspendPhase :: suspend_phase
  suspendGeneration :: nat
  suspendInvalidated :: "nat option"
  activeRootWork :: "nat list"
  suspendOpenWaiters :: "nat list"
  roots :: "nat \<Rightarrow> root_admission"
  nextRoot :: nat
  handles :: "nat \<Rightarrow> release_handle"
  nextHandle :: nat
  scopes :: "nat \<Rightarrow> continuation_scope"
  nextScope :: nat
  effects :: "admission_effect list"

definition initialAdmissionState :: admission_state where
  "initialAdmissionState = \<lparr>restartDraining = False, restartSignalPending = False,
     restartSignalGeneration = 0, suspendPhase = Accepting, suspendGeneration = 0,
     suspendInvalidated = None, activeRootWork = [], suspendOpenWaiters = [],
     roots = (\<lambda>_. \<lparr>references = 0, released = False, retiredByReset = False\<rparr>), nextRoot = 0,
     handles = (\<lambda>_. \<lparr>handleRoot = 0, leaseReleased = False\<rparr>), nextHandle = 0,
     scopes = (\<lambda>_. \<lparr>scopeRoot = 0, scopeRelease = None, scopeReleased = False\<rparr>), nextScope = 0,
     effects = []\<rparr>"

definition emit :: "admission_effect \<Rightarrow> admission_state \<Rightarrow> admission_state" where
  "emit e s = s\<lparr>effects := effects s @ [e]\<rparr>"

text \<open>
  A lease: whether it owns its root, the release closure (absent for the no-op of nested work), and
  the root under which \<open>run\<close> executes its callback (absent: the caller's own context).
\<close>

record admission_lease =
  ownsRoot :: bool
  leaseHandle :: "nat option"
  runRoot :: "nat option"

section \<open>Root work and its release\<close>

definition createGatewayRootWorkRelease :: "nat \<Rightarrow> admission_state \<Rightarrow> nat \<times> admission_state" where
  "createGatewayRootWorkRelease adm s =
     (nextHandle s,
      s\<lparr>handles := (handles s)(nextHandle s := \<lparr>handleRoot = adm, leaseReleased = False\<rparr>),
        nextHandle := nextHandle s + 1\<rparr>)"

text \<open>Calling a release closure.\<close>

definition releaseRootWork :: "nat \<Rightarrow> admission_state \<Rightarrow> admission_state" where
  "releaseRootWork h s =
     (let adm = handleRoot (handles s h) in
      if leaseReleased (handles s h) \<or> released (roots s adm) then s
      else let s1 = s\<lparr>handles := (handles s)(h := (handles s h)\<lparr>leaseReleased := True\<rparr>),
                      roots := (roots s)(adm := (roots s adm)\<lparr>references := references (roots s adm) - 1\<rparr>)\<rparr>
           in if references (roots s1 adm) > 0 then s1
              else s1\<lparr>roots := (roots s1)(adm := (roots s1 adm)\<lparr>released := True\<rparr>),
                      activeRootWork := set_delete adm (activeRootWork s1)\<rparr>)"

definition createGatewayRootWorkAdmission :: "admission_state \<Rightarrow> admission_lease \<times> admission_state" where
  "createGatewayRootWorkAdmission s =
     (let adm = nextRoot s;
          s1 = s\<lparr>roots := (roots s)(adm := \<lparr>references = 1, released = False, retiredByReset = False\<rparr>),
                 nextRoot := adm + 1,
                 activeRootWork := set_add adm (activeRootWork s)\<rparr>;
          (h, s2) = createGatewayRootWorkRelease adm s1
      in (\<lparr>ownsRoot = True, leaseHandle = Some h, runRoot = Some adm\<rparr>, s2))"

text \<open>\<open>lease.release()\<close>.\<close>

definition releaseLease :: "admission_lease \<Rightarrow> admission_state \<Rightarrow> admission_state" where
  "releaseLease l s = (case leaseHandle l of None \<Rightarrow> s | Some h \<Rightarrow> releaseRootWork h s)"

section \<open>Fences\<close>

definition resolveSuspendOpenWaiters :: "admission_state \<Rightarrow> admission_state" where
  "resolveSuspendOpenWaiters s =
     fold (\<lambda>w. emit (ResolveWaiter w)) (suspendOpenWaiters s) (s\<lparr>suspendOpenWaiters := []\<rparr>)"

definition invalidateSuspendAdmission :: "admission_state \<Rightarrow> admission_state" where
  "invalidateSuspendAdmission s =
     (let callback = suspendInvalidated s;
          wasClosed = (suspendPhase s \<noteq> Accepting);
          s1 = s\<lparr>suspendInvalidated := None, suspendPhase := Accepting,
                 suspendGeneration := suspendGeneration s + 1\<rparr>;
          s2 = resolveSuspendOpenWaiters s1;
          s3 = (if wasClosed \<and> \<not> restartDraining s2 then emit (LogReopened SuspendPhase) s2 else s2)
      in case callback of None \<Rightarrow> s3 | Some c \<Rightarrow> emit (InvokeInvalidated c) s3)"

definition clearRestartSignalFence :: "admission_state \<Rightarrow> bool \<times> admission_state" where
  "clearRestartSignalFence s =
     (if restartDraining s \<or> \<not> restartSignalPending s then (False, s)
      else let s1 = s\<lparr>restartSignalPending := False,
                      restartSignalGeneration := restartSignalGeneration s + 1\<rparr>;
               s2 = resolveSuspendOpenWaiters s1
           in (True, if suspendPhase s2 = Accepting then emit (LogReopened RestartSignalFence) s2
                     else emit LogFenceClearedSuspended s2))"

definition isGatewayWorkAdmissionClosed :: "admission_state \<Rightarrow> bool" where
  "isGatewayWorkAdmissionClosed s \<longleftrightarrow>
     restartDraining s \<or> restartSignalPending s \<or> suspendPhase s \<noteq> Accepting"

definition isGatewaySubordinateWorkAdmissionClosed :: "nat option \<Rightarrow> admission_state \<Rightarrow> bool" where
  "isGatewaySubordinateWorkAdmissionClosed current s =
     (if restartDraining s \<or> restartSignalPending s then True
      else case current of
             Some c \<Rightarrow> released (roots s c)
           | None \<Rightarrow> suspendPhase s \<noteq> Accepting)"

definition getGatewaySuspendAdmissionPhase :: "admission_state \<Rightarrow> suspend_phase" where
  "getGatewaySuspendAdmissionPhase s = suspendPhase s"

definition isGatewayRestartDraining :: "admission_state \<Rightarrow> bool" where
  "isGatewayRestartDraining s \<longleftrightarrow> restartDraining s \<or> restartSignalPending s"

definition markGatewayRestartDraining :: "admission_state \<Rightarrow> admission_state" where
  "markGatewayRestartDraining s =
     (if restartDraining s then s
      else let s1 = s\<lparr>restartSignalPending := False,
                      restartSignalGeneration := restartSignalGeneration s + 1,
                      restartDraining := True\<rparr>;
               s2 = emit (LogClosed RestartDrain) (resolveSuspendOpenWaiters s1)
           in if suspendPhase s2 \<noteq> Accepting then invalidateSuspendAdmission s2 else s2)"

text \<open>The restart-signal lease is the generation its \<open>rollback\<close> closure captured.\<close>

definition beginGatewayRestartSignalAdmission :: "admission_state \<Rightarrow> nat option \<times> admission_state" where
  "beginGatewayRestartSignalAdmission s =
     (if restartDraining s \<or> restartSignalPending s then (None, s)
      else let s1 = s\<lparr>restartSignalPending := True,
                      restartSignalGeneration := restartSignalGeneration s + 1\<rparr>
           in (Some (restartSignalGeneration s1), emit (LogClosed RestartSignalFence) s1))"

definition rollbackRestartSignalLease :: "nat \<Rightarrow> admission_state \<Rightarrow> bool \<times> admission_state" where
  "rollbackRestartSignalLease generation s =
     (if \<not> restartSignalPending s \<or> restartSignalGeneration s \<noteq> generation then (False, s)
      else clearRestartSignalFence s)"

definition rollbackGatewayRestartSignalFence :: "admission_state \<Rightarrow> bool \<times> admission_state" where
  "rollbackGatewayRestartSignalFence s = clearRestartSignalFence s"

section \<open>Beginning root work\<close>

definition admitted :: "admission_lease \<times> admission_state \<Rightarrow> admission_lease option \<times> admission_state" where
  "admitted r = (Some (fst r), snd r)"

definition tryBeginGatewayRootWorkAdmission ::
  "nat option \<Rightarrow> admission_state \<Rightarrow> admission_lease option \<times> admission_state" where
  "tryBeginGatewayRootWorkAdmission current s =
     (if (case current of Some c \<Rightarrow> \<not> released (roots s c) | None \<Rightarrow> False)
      then (Some \<lparr>ownsRoot = False, leaseHandle = None, runRoot = None\<rparr>, s)
      else if restartDraining s \<or> restartSignalPending s \<or> suspendPhase s \<noteq> Accepting then (None, s)
      else admitted (createGatewayRootWorkAdmission s))"

definition tryBeginGatewayRestartStartupRootWorkAdmission ::
  "admission_state \<Rightarrow> admission_lease option \<times> admission_state" where
  "tryBeginGatewayRestartStartupRootWorkAdmission s =
     (if (\<not> restartDraining s \<and> \<not> restartSignalPending s) \<or> suspendPhase s \<noteq> Accepting then (None, s)
      else admitted (createGatewayRootWorkAdmission s))"

definition tryBeginGatewayPreparedRestartRootWorkAdmission ::
  "admission_state \<Rightarrow> admission_lease option \<times> admission_state" where
  "tryBeginGatewayPreparedRestartRootWorkAdmission s =
     (if restartDraining s \<or> restartSignalPending s \<or> suspendPhase s \<noteq> Prepared \<or>
         length (activeRootWork s) > 0 then (None, s)
      else admitted (createGatewayRootWorkAdmission s))"

definition tryBeginGatewayIndependentRootWorkAdmission ::
  "admission_state \<Rightarrow> admission_lease option \<times> admission_state" where
  "tryBeginGatewayIndependentRootWorkAdmission s =
     (if restartDraining s \<or> restartSignalPending s \<or> suspendPhase s \<noteq> Accepting then (None, s)
      else admitted (createGatewayRootWorkAdmission s))"

text \<open>
  One turn of the waiting loops: the caller is refused, gets its lease, or registers the waiter
  \<open>w\<close> and runs the same turn again when the waiter is resolved.
\<close>

datatype wait_turn = Refused | Granted admission_lease | Waiting

definition beginGatewayRootWorkAdmissionWhenOpen ::
  "nat \<Rightarrow> nat option \<Rightarrow> admission_state \<Rightarrow> wait_turn \<times> admission_state" where
  "beginGatewayRootWorkAdmissionWhenOpen w current s =
     (if restartDraining s then (Refused, s)
      else case tryBeginGatewayRootWorkAdmission current s of
             (Some l, s1) \<Rightarrow> (Granted l, s1)
           | (None, s1) \<Rightarrow> (Waiting, s1\<lparr>suspendOpenWaiters := set_add w (suspendOpenWaiters s1)\<rparr>))"

definition runWithGatewayIndependentRootWorkAdmission ::
  "nat \<Rightarrow> admission_state \<Rightarrow> wait_turn \<times> admission_state" where
  "runWithGatewayIndependentRootWorkAdmission w s =
     (if restartDraining s then (Refused, s)
      else case tryBeginGatewayIndependentRootWorkAdmission s of
             (Some l, s1) \<Rightarrow> (Granted l, s1)
           | (None, s1) \<Rightarrow> (Waiting, s1\<lparr>suspendOpenWaiters := set_add w (suspendOpenWaiters s1)\<rparr>))"

text \<open>
  Preserved work re-enters admission exactly when the root it inherited was retired by a reset;
  otherwise it runs in its own context (\<open>None\<close>: nothing to acquire).
\<close>

definition runWithGatewayRootWorkReadmission ::
  "nat \<Rightarrow> nat option \<Rightarrow> admission_state \<Rightarrow> wait_turn option \<times> admission_state" where
  "runWithGatewayRootWorkReadmission w current s =
     (case current of
        Some c \<Rightarrow>
          if retiredByReset (roots s c)
          then (case runWithGatewayIndependentRootWorkAdmission w s of (t, s1) \<Rightarrow> (Some t, s1))
          else (None, s)
      | None \<Rightarrow> (None, s))"

definition runWithGatewayIndependentRootWorkContinuation ::
  "nat \<Rightarrow> nat option \<Rightarrow> admission_state \<Rightarrow> wait_turn \<times> admission_state" where
  "runWithGatewayIndependentRootWorkContinuation w parent s =
     (if (case parent of None \<Rightarrow> True | Some p \<Rightarrow> released (roots s p))
      then runWithGatewayIndependentRootWorkAdmission w s
      else case createGatewayRootWorkAdmission s of (l, s1) \<Rightarrow> (Granted l, s1))"

section \<open>Continuation scopes\<close>

definition createGatewayRootWorkAdmissionContinuationScope ::
  "bool \<Rightarrow> nat option \<Rightarrow> admission_state \<Rightarrow> nat option \<times> admission_state" where
  "createGatewayRootWorkAdmissionContinuationScope retainRoot current s =
     (case current of
        None \<Rightarrow> (None, s)
      | Some c \<Rightarrow>
          if released (roots s c) \<or> c \<notin> set (activeRootWork s) then (None, s)
          else let (rel, s1) =
                     (if retainRoot
                      then (case createGatewayRootWorkRelease c
                                   (s\<lparr>roots := (roots s)(c := (roots s c)\<lparr>references := references (roots s c) + 1\<rparr>)\<rparr>)
                            of (h, s1) \<Rightarrow> (Some h, s1))
                      else (None, s));
                   k = nextScope s1
               in (Some k, s1\<lparr>scopes := (scopes s1)(k := \<lparr>scopeRoot = c, scopeRelease = rel, scopeReleased = False\<rparr>),
                              nextScope := k + 1\<rparr>))"

definition captureGatewayRootWorkAdmissionContinuationScope ::
  "nat option \<Rightarrow> admission_state \<Rightarrow> nat option \<times> admission_state" where
  "captureGatewayRootWorkAdmissionContinuationScope current s =
     createGatewayRootWorkAdmissionContinuationScope False current s"

definition retainGatewayRootWorkAdmissionContinuationScope ::
  "nat option \<Rightarrow> admission_state \<Rightarrow> nat option \<times> admission_state" where
  "retainGatewayRootWorkAdmissionContinuationScope current s =
     createGatewayRootWorkAdmissionContinuationScope True current s"

text \<open>\<open>scope.release()\<close>.\<close>

definition releaseScope :: "nat \<Rightarrow> admission_state \<Rightarrow> admission_state" where
  "releaseScope k s =
     (if scopeReleased (scopes s k) then s
      else let s1 = s\<lparr>scopes := (scopes s)(k := (scopes s k)\<lparr>scopeReleased := True\<rparr>)\<rparr>
           in case scopeRelease (scopes s1 k) of None \<Rightarrow> s1 | Some h \<Rightarrow> releaseRootWork h s1)"

text \<open>
  The entry of \<open>scope.run(callback)\<close>: refused (\<open>GatewayDrainingError\<close>), or a release closure that
  the \<open>finally\<close> block calls when the callback has settled.
\<close>

definition beginScopeRun :: "nat \<Rightarrow> admission_state \<Rightarrow> nat option \<times> admission_state" where
  "beginScopeRun k s =
     (let c = scopeRoot (scopes s k) in
      if scopeReleased (scopes s k) \<or> released (roots s c) \<or> c \<notin> set (activeRootWork s) then (None, s)
      else case createGatewayRootWorkRelease c
                  (s\<lparr>roots := (roots s)(c := (roots s c)\<lparr>references := references (roots s c) + 1\<rparr>)\<rparr>)
           of (h, s1) \<Rightarrow> (Some h, s1))"

definition getActiveGatewayRootWorkCount :: "bool \<Rightarrow> nat option \<Rightarrow> admission_state \<Rightarrow> int" where
  "getActiveGatewayRootWorkCount excludeCurrent current s =
     (let count = int (length (activeRootWork s));
          count1 = (if excludeCurrent \<and>
                      (case current of
                         Some c \<Rightarrow> \<not> released (roots s c) \<and> c \<in> set (activeRootWork s)
                       | None \<Rightarrow> False)
                    then count - 1 else count)
      in max 0 count1)"

section \<open>Suspension\<close>

text \<open>The suspension lease is the generation its closures captured.\<close>

definition tryBeginGatewaySuspendAdmission ::
  "nat \<Rightarrow> admission_state \<Rightarrow> nat option \<times> admission_state" where
  "tryBeginGatewaySuspendAdmission onInvalidated s =
     (if restartDraining s \<or> restartSignalPending s \<or> suspendPhase s \<noteq> Accepting then (None, s)
      else let s1 = s\<lparr>suspendPhase := Preparing, suspendGeneration := suspendGeneration s + 1,
                      suspendInvalidated := Some onInvalidated\<rparr>
           in (Some (suspendGeneration s1), emit (LogClosed SuspendPhase) s1))"

definition transition ::
  "nat \<Rightarrow> suspend_phase \<Rightarrow> suspend_phase \<Rightarrow> admission_state \<Rightarrow> bool \<times> admission_state" where
  "transition generation expected next s =
     (if suspendGeneration s \<noteq> generation \<or> suspendPhase s \<noteq> expected then (False, s)
      else let s1 = s\<lparr>suspendPhase := next\<rparr>
           in (True, if next = Accepting
                     then emit (LogReopened SuspendPhase)
                            (resolveSuspendOpenWaiters (s1\<lparr>suspendInvalidated := None\<rparr>))
                     else s1))"

definition drainSuspend :: "nat \<Rightarrow> admission_state \<Rightarrow> bool \<times> admission_state" where
  "drainSuspend g s = transition g Preparing Draining s"

definition commitSuspend :: "nat \<Rightarrow> admission_state \<Rightarrow> bool \<times> admission_state" where
  "commitSuspend g s = (case transition g Preparing Prepared s of
       (True, s1) \<Rightarrow> (True, s1)
     | (False, s1) \<Rightarrow> transition g Draining Prepared s1)"

definition rollbackSuspend :: "nat \<Rightarrow> admission_state \<Rightarrow> bool \<times> admission_state" where
  "rollbackSuspend g s = transition g Preparing Accepting s"

definition releaseSuspend :: "nat \<Rightarrow> admission_state \<Rightarrow> bool \<times> admission_state" where
  "releaseSuspend g s = (case transition g Draining Accepting s of
       (True, s1) \<Rightarrow> (True, s1)
     | (False, s1) \<Rightarrow> transition g Prepared Accepting s1)"

definition retireRoot :: "root_admission \<Rightarrow> root_admission" where
  "retireRoot a = a\<lparr>references := 0, retiredByReset := True, released := True\<rparr>"

definition resetGatewayWorkAdmission :: "admission_state \<Rightarrow> admission_state" where
  "resetGatewayWorkAdmission s =
     (let s1 = s\<lparr>roots := (\<lambda>r. if r \<in> set (activeRootWork s) then retireRoot (roots s r) else roots s r),
                 activeRootWork := [], restartDraining := False, restartSignalPending := False,
                 restartSignalGeneration := restartSignalGeneration s + 1\<rparr>;
          s2 = (if suspendPhase s1 \<noteq> Accepting then invalidateSuspendAdmission s1
                else s1\<lparr>suspendGeneration := suspendGeneration s1 + 1, suspendInvalidated := None\<rparr>)
      in resolveSuspendOpenWaiters s2)"

section \<open>Steps and reachable states\<close>

text \<open>
  One rule per operation the rest of the gateway may call, in any order, with any caller context
  that names an existing root. Callbacks a lease or a scope runs are other steps in between.
\<close>

definition valid_current :: "nat option \<Rightarrow> admission_state \<Rightarrow> bool" where
  "valid_current current s \<longleftrightarrow> (case current of None \<Rightarrow> True | Some c \<Rightarrow> c < nextRoot s)"

inductive admission_step :: "admission_state \<Rightarrow> admission_state \<Rightarrow> bool" where
  begin_root: "valid_current c s \<Longrightarrow> admission_step s (snd (tryBeginGatewayRootWorkAdmission c s))"
| begin_startup: "admission_step s (snd (tryBeginGatewayRestartStartupRootWorkAdmission s))"
| begin_prepared: "admission_step s (snd (tryBeginGatewayPreparedRestartRootWorkAdmission s))"
| begin_when_open: "valid_current c s \<Longrightarrow>
    admission_step s (snd (beginGatewayRootWorkAdmissionWhenOpen w c s))"
| begin_independent: "admission_step s (snd (runWithGatewayIndependentRootWorkAdmission w s))"
| readmit: "valid_current c s \<Longrightarrow> admission_step s (snd (runWithGatewayRootWorkReadmission w c s))"
| continuation: "valid_current c s \<Longrightarrow>
    admission_step s (snd (runWithGatewayIndependentRootWorkContinuation w c s))"
| release_work: "h < nextHandle s \<Longrightarrow> admission_step s (releaseRootWork h s)"
| capture_scope: "valid_current c s \<Longrightarrow>
    admission_step s (snd (captureGatewayRootWorkAdmissionContinuationScope c s))"
| retain_scope: "valid_current c s \<Longrightarrow>
    admission_step s (snd (retainGatewayRootWorkAdmissionContinuationScope c s))"
| release_scope: "k < nextScope s \<Longrightarrow> admission_step s (releaseScope k s)"
| run_scope: "k < nextScope s \<Longrightarrow> admission_step s (snd (beginScopeRun k s))"
| mark_draining: "admission_step s (markGatewayRestartDraining s)"
| begin_signal: "admission_step s (snd (beginGatewayRestartSignalAdmission s))"
| rollback_signal: "admission_step s (snd (rollbackRestartSignalLease g s))"
| rollback_fence: "admission_step s (snd (rollbackGatewayRestartSignalFence s))"
| begin_suspend: "admission_step s (snd (tryBeginGatewaySuspendAdmission cb s))"
| drain_suspend: "admission_step s (snd (drainSuspend g s))"
| commit_suspend: "admission_step s (snd (commitSuspend g s))"
| rollback_suspend: "admission_step s (snd (rollbackSuspend g s))"
| release_suspend: "admission_step s (snd (releaseSuspend g s))"
| reset: "admission_step s (resetGatewayWorkAdmission s)"

inductive admission_reachable :: "admission_state \<Rightarrow> bool" where
  start: "admission_reachable initialAdmissionState"
| step: "admission_reachable s \<Longrightarrow> admission_step s t \<Longrightarrow> admission_reachable t"

section \<open>Frame rules\<close>

lemma emit_frame [simp, frame]:
  "restartDraining (emit e s) = restartDraining s"
  "restartSignalPending (emit e s) = restartSignalPending s"
  "restartSignalGeneration (emit e s) = restartSignalGeneration s"
  "suspendPhase (emit e s) = suspendPhase s"
  "suspendGeneration (emit e s) = suspendGeneration s"
  "suspendInvalidated (emit e s) = suspendInvalidated s"
  "activeRootWork (emit e s) = activeRootWork s"
  "suspendOpenWaiters (emit e s) = suspendOpenWaiters s"
  "roots (emit e s) = roots s" "nextRoot (emit e s) = nextRoot s"
  "handles (emit e s) = handles s" "nextHandle (emit e s) = nextHandle s"
  "scopes (emit e s) = scopes s" "nextScope (emit e s) = nextScope s"
  by (simp_all add: emit_def)

lemma fold_emit: "fold (\<lambda>w. emit (f w)) ws s = s\<lparr>effects := effects s @ map f ws\<rparr>"
  by (induction ws arbitrary: s) (simp_all add: emit_def)

lemma resolveSuspendOpenWaiters_eq:
  "resolveSuspendOpenWaiters s =
     s\<lparr>suspendOpenWaiters := [], effects := effects s @ map ResolveWaiter (suspendOpenWaiters s)\<rparr>"
  by (simp add: resolveSuspendOpenWaiters_def fold_emit)

lemma resolve_frame [simp, frame]:
  "restartDraining (resolveSuspendOpenWaiters s) = restartDraining s"
  "restartSignalPending (resolveSuspendOpenWaiters s) = restartSignalPending s"
  "restartSignalGeneration (resolveSuspendOpenWaiters s) = restartSignalGeneration s"
  "suspendPhase (resolveSuspendOpenWaiters s) = suspendPhase s"
  "suspendGeneration (resolveSuspendOpenWaiters s) = suspendGeneration s"
  "suspendInvalidated (resolveSuspendOpenWaiters s) = suspendInvalidated s"
  "activeRootWork (resolveSuspendOpenWaiters s) = activeRootWork s"
  "suspendOpenWaiters (resolveSuspendOpenWaiters s) = []"
  "roots (resolveSuspendOpenWaiters s) = roots s" "nextRoot (resolveSuspendOpenWaiters s) = nextRoot s"
  "handles (resolveSuspendOpenWaiters s) = handles s" "nextHandle (resolveSuspendOpenWaiters s) = nextHandle s"
  "scopes (resolveSuspendOpenWaiters s) = scopes s" "nextScope (resolveSuspendOpenWaiters s) = nextScope s"
  by (simp_all add: resolveSuspendOpenWaiters_eq)

lemma invalidate_frame [simp, frame]:
  "restartDraining (invalidateSuspendAdmission s) = restartDraining s"
  "restartSignalPending (invalidateSuspendAdmission s) = restartSignalPending s"
  "suspendPhase (invalidateSuspendAdmission s) = Accepting"
  "suspendGeneration (invalidateSuspendAdmission s) = Suc (suspendGeneration s)"
  "suspendInvalidated (invalidateSuspendAdmission s) = None"
  "activeRootWork (invalidateSuspendAdmission s) = activeRootWork s"
  "suspendOpenWaiters (invalidateSuspendAdmission s) = []"
  "roots (invalidateSuspendAdmission s) = roots s" "nextRoot (invalidateSuspendAdmission s) = nextRoot s"
  "handles (invalidateSuspendAdmission s) = handles s" "nextHandle (invalidateSuspendAdmission s) = nextHandle s"
  "scopes (invalidateSuspendAdmission s) = scopes s" "nextScope (invalidateSuspendAdmission s) = nextScope s"
  by (simp_all add: invalidateSuspendAdmission_def Let_def split: option.splits)

section \<open>Invariants\<close>

text \<open>
  The fence invariant: the one-way restart drain has displaced the reversible fences; the
  invalidation callback is registered exactly while suspension is not accepting; and a waiter is
  registered only while there is a reversible fence whose removal will resolve it.
\<close>

definition fence_ok :: "admission_state \<Rightarrow> bool" where
  "fence_ok s \<longleftrightarrow>
     (restartDraining s \<longrightarrow> \<not> restartSignalPending s \<and> suspendPhase s = Accepting) \<and>
     (suspendPhase s = Accepting \<longleftrightarrow> suspendInvalidated s = None) \<and>
     (suspendOpenWaiters s \<noteq> [] \<longrightarrow>
        \<not> restartDraining s \<and> (restartSignalPending s \<or> suspendPhase s \<noteq> Accepting))"

text \<open>The release closures of a root that have not been called.\<close>

definition live_handles :: "nat \<Rightarrow> admission_state \<Rightarrow> nat set" where
  "live_handles r s = {h. h < nextHandle s \<and> handleRoot (handles s h) = r \<and> \<not> leaseReleased (handles s h)}"

text \<open>
  The work invariant: the active set is the set of unreleased roots, and the reference count of
  an unreleased root is the number of its live release closures, at least one.
\<close>

definition root_ok :: "nat \<Rightarrow> admission_state \<Rightarrow> bool" where
  "root_ok r s \<longleftrightarrow>
     (r \<in> set (activeRootWork s) \<longleftrightarrow> \<not> released (roots s r)) \<and>
     (\<not> released (roots s r) \<longrightarrow>
        references (roots s r) = int (card (live_handles r s)) \<and> 0 < references (roots s r)) \<and>
     (retiredByReset (roots s r) \<longrightarrow> released (roots s r))"

definition work_ok :: "admission_state \<Rightarrow> bool" where
  "work_ok s \<longleftrightarrow>
     distinct (activeRootWork s) \<and> set (activeRootWork s) \<subseteq> {..<nextRoot s} \<and>
     (\<forall>r < nextRoot s. root_ok r s) \<and>
     (\<forall>h < nextHandle s. handleRoot (handles s h) < nextRoot s) \<and>
     (\<forall>k < nextScope s. scopeRoot (scopes s k) < nextRoot s \<and>
        (case scopeRelease (scopes s k) of None \<Rightarrow> True
         | Some h \<Rightarrow> h < nextHandle s \<and> handleRoot (handles s h) = scopeRoot (scopes s k)))"

lemma finite_live_handles [simp]: "finite (live_handles r s)"
  by (rule finite_subset [of _ "{..<nextHandle s}"]) (auto simp: live_handles_def)

text \<open>Operations that touch the fences only leave the work part alone.\<close>

definition same_work :: "admission_state \<Rightarrow> admission_state \<Rightarrow> bool" where
  "same_work s t \<longleftrightarrow> activeRootWork t = activeRootWork s \<and> roots t = roots s \<and> nextRoot t = nextRoot s \<and>
     handles t = handles s \<and> nextHandle t = nextHandle s \<and> scopes t = scopes s \<and> nextScope t = nextScope s"

lemma work_ok_same: "same_work s t \<Longrightarrow> work_ok s \<Longrightarrow> work_ok t"
  unfolding same_work_def work_ok_def root_ok_def live_handles_def by (elim conjE) (simp only:)

lemma fence_ops_same_work:
  "same_work s (markGatewayRestartDraining s)"
  "same_work s (snd (clearRestartSignalFence s))"
  "same_work s (snd (beginGatewayRestartSignalAdmission s))"
  "same_work s (snd (rollbackRestartSignalLease g s))"
  "same_work s (snd (tryBeginGatewaySuspendAdmission cb s))"
  "same_work s (snd (transition g p q s))"
  by (auto simp: same_work_def markGatewayRestartDraining_def clearRestartSignalFence_def Let_def
      beginGatewayRestartSignalAdmission_def rollbackRestartSignalLease_def
      tryBeginGatewaySuspendAdmission_def transition_def)

lemma same_work_trans: "same_work s t \<Longrightarrow> same_work t u \<Longrightarrow> same_work s u"
  by (simp add: same_work_def)

lemma suspend_ops_same_work:
  "same_work s (snd (drainSuspend g s))" "same_work s (snd (commitSuspend g s))"
  "same_work s (snd (rollbackSuspend g s))" "same_work s (snd (releaseSuspend g s))"
  using fence_ops_same_work(6)
  by (auto simp: drainSuspend_def commitSuspend_def rollbackSuspend_def releaseSuspend_def
      split: prod.splits bool.splits) (metis same_work_trans snd_conv)+

subsection \<open>The work invariant\<close>

text \<open>Taking one more reference to an unreleased root together with its release closure.\<close>

definition addReference :: "nat \<Rightarrow> admission_state \<Rightarrow> nat \<times> admission_state" where
  "addReference c s = createGatewayRootWorkRelease c
     (s\<lparr>roots := (roots s)(c := (roots s c)\<lparr>references := references (roots s c) + 1\<rparr>)\<rparr>)"

lemma live_handles_new:
  assumes "handles t = (handles s)(nextHandle s := \<lparr>handleRoot = c, leaseReleased = False\<rparr>)"
    and "nextHandle t = Suc (nextHandle s)"
  shows "live_handles r t = (if r = c then insert (nextHandle s) (live_handles r s) else live_handles r s)"
  using assms by (auto simp: live_handles_def less_Suc_eq)

lemma nextHandle_not_live [simp]: "nextHandle s \<notin> live_handles r s"
  by (simp add: live_handles_def)

lemma addReference_work_ok:
  assumes ok: "work_ok s" and c: "c < nextRoot s" and unrel: "\<not> released (roots s c)"
  shows "work_ok (snd (addReference c s))"
proof -
  let ?t = "snd (addReference c s)"
  have live: "live_handles r ?t = (if r = c then insert (nextHandle s) (live_handles r s) else live_handles r s)" for r
    by (rule live_handles_new) (simp_all add: addReference_def createGatewayRootWorkRelease_def)
  have "r < nextRoot s \<Longrightarrow> root_ok r ?t" for r
    using ok unrel by (auto simp: work_ok_def root_ok_def live)
      (auto simp: addReference_def createGatewayRootWorkRelease_def)
  then show ?thesis
    using ok c by (auto simp: work_ok_def addReference_def createGatewayRootWorkRelease_def less_Suc_eq
        split: option.splits)
qed

lemma createGatewayRootWorkAdmission_work_ok:
  assumes ok: "work_ok s"
  shows "work_ok (snd (createGatewayRootWorkAdmission s))"
proof -
  let ?t = "snd (createGatewayRootWorkAdmission s)"
  note defs = createGatewayRootWorkAdmission_def createGatewayRootWorkRelease_def Let_def
  have live: "live_handles r ?t = (if r = nextRoot s then insert (nextHandle s) (live_handles r s) else live_handles r s)" for r
    by (rule live_handles_new) (simp_all add: defs)
  have none: "live_handles (nextRoot s) s = {}"
    using ok by (auto simp: live_handles_def work_ok_def)
  have "r < Suc (nextRoot s) \<Longrightarrow> root_ok r ?t" for r
    using ok none by (auto simp: work_ok_def root_ok_def live less_Suc_eq) (auto simp: defs)
  then show ?thesis
    using ok by (auto simp: work_ok_def defs less_Suc_eq split: option.splits)
qed

lemma releaseRootWork_work_ok:
  assumes ok: "work_ok s" and h: "h < nextHandle s"
  shows "work_ok (releaseRootWork h s)"
proof (cases "leaseReleased (handles s h) \<or> released (roots s (handleRoot (handles s h)))")
  case True
  with ok show ?thesis by (simp add: releaseRootWork_def Let_def)
next
  case False
  let ?c = "handleRoot (handles s h)" and ?t = "releaseRootWork h s"
  have c: "?c < nextRoot s" and rc: "root_ok ?c s" using ok h by (auto simp: work_ok_def)
  have live: "live_handles r ?t = (if r = ?c then live_handles r s - {h} else live_handles r s)" for r
    using False by (auto simp: releaseRootWork_def Let_def live_handles_def)
  have hl: "h \<in> live_handles ?c s" using False h by (simp add: live_handles_def)
  have refs: "references (roots s ?c) - 1 = int (card (live_handles ?c s - {h}))"
    using rc False hl by (simp add: root_ok_def card_Diff_singleton)
  have "r < nextRoot s \<Longrightarrow> root_ok r ?t" for r
  proof (cases "r = ?c")
    case True
    with rc False refs show ?thesis
      unfolding root_ok_def live by (auto simp: releaseRootWork_def Let_def)
  next
    case ne: False
    assume "r < nextRoot s"
    then have "root_ok r s" using ok by (simp add: work_ok_def)
    with ne show ?thesis unfolding root_ok_def live by (auto simp: releaseRootWork_def Let_def)
  qed
  with ok False show ?thesis
    by (auto simp: work_ok_def releaseRootWork_def Let_def split: option.splits)
qed

lemma releaseScope_work_ok:
  assumes ok: "work_ok s" and k: "k < nextScope s"
  shows "work_ok (releaseScope k s)"
proof -
  let ?s1 = "s\<lparr>scopes := (scopes s)(k := (scopes s k)\<lparr>scopeReleased := True\<rparr>)\<rparr>"
  have "live_handles r ?s1 = live_handles r s" for r by (simp add: live_handles_def)
  with ok k have "work_ok ?s1" by (auto simp: work_ok_def root_ok_def split: option.splits)
  moreover have "scopeRelease (scopes s k) = Some h \<Longrightarrow> h < nextHandle ?s1" for h
    using ok k by (force simp: work_ok_def)
  ultimately show ?thesis
    by (auto simp: releaseScope_def Let_def ok split: option.split intro: releaseRootWork_work_ok)
qed

lemma beginScopeRun_eq:
  "beginScopeRun k s = (let c = scopeRoot (scopes s k) in
     if scopeReleased (scopes s k) \<or> released (roots s c) \<or> c \<notin> set (activeRootWork s) then (None, s)
     else map_prod Some id (addReference c s))"
  by (simp add: beginScopeRun_def addReference_def Let_def split: prod.splits)

lemma scope_root_less: "work_ok s \<Longrightarrow> k < nextScope s \<Longrightarrow> scopeRoot (scopes s k) < nextRoot s"
  by (simp add: work_ok_def)

lemma beginScopeRun_work_ok:
  "work_ok s \<Longrightarrow> k < nextScope s \<Longrightarrow> work_ok (snd (beginScopeRun k s))"
  by (simp add: beginScopeRun_eq Let_def addReference_work_ok scope_root_less)

lemma createScope_work_ok:
  assumes ok: "work_ok s" and c: "valid_current cur s"
  shows "work_ok (snd (createGatewayRootWorkAdmissionContinuationScope retain cur s))"
proof (cases cur)
  case None
  with ok show ?thesis by (simp add: createGatewayRootWorkAdmissionContinuationScope_def)
next
  case (Some c)
  with assms have cr: "c < nextRoot s" by (simp add: valid_current_def)
  have scope: "work_ok t \<Longrightarrow> c < nextRoot t \<Longrightarrow>
      (\<forall>h. rel = Some h \<longrightarrow> h < nextHandle t \<and> handleRoot (handles t h) = c) \<Longrightarrow>
      work_ok (t\<lparr>scopes := (scopes t)(nextScope t := \<lparr>scopeRoot = c, scopeRelease = rel, scopeReleased = False\<rparr>),
               nextScope := Suc (nextScope t)\<rparr>)" for t rel
    by (auto simp: work_ok_def root_ok_def live_handles_def less_Suc_eq split: option.splits)
  note add = addReference_work_ok [OF ok cr]
  show ?thesis
  proof (cases "released (roots s c) \<or> c \<notin> set (activeRootWork s)")
    case True
    with ok Some show ?thesis
      by (auto simp: createGatewayRootWorkAdmissionContinuationScope_def)
  next
    case False
    obtain h t where ht: "addReference c s = (h, t)" by (cases "addReference c s")
    then have t: "h = nextHandle s" "nextHandle t = Suc (nextHandle s)" "handleRoot (handles t h) = c"
        "nextRoot t = nextRoot s"
      by (auto simp: addReference_def createGatewayRootWorkRelease_def)
    have wt: "work_ok t" using add False ht by simp
    show ?thesis
      using Some False scope [OF ok cr, of None] scope [OF wt, of "Some h"] t cr
      by (auto simp: createGatewayRootWorkAdmissionContinuationScope_def Let_def
          ht [unfolded addReference_def, simplified])
  qed
qed

lemma waiters_work_ok [simp]: "work_ok (s\<lparr>suspendOpenWaiters := ws\<rparr>) = work_ok s"
  by (simp add: work_ok_def root_ok_def live_handles_def cong: option.case_cong)

lemma runIndependent_work_ok: "work_ok s \<Longrightarrow> work_ok (snd (runWithGatewayIndependentRootWorkAdmission w s))"
  by (simp add: runWithGatewayIndependentRootWorkAdmission_def tryBeginGatewayIndependentRootWorkAdmission_def
      admitted_def createGatewayRootWorkAdmission_work_ok)

lemma tryBegin_work_ok:
  "work_ok s \<Longrightarrow> work_ok (snd (tryBeginGatewayRootWorkAdmission c s))"
  "work_ok s \<Longrightarrow> work_ok (snd (tryBeginGatewayRestartStartupRootWorkAdmission s))"
  "work_ok s \<Longrightarrow> work_ok (snd (tryBeginGatewayPreparedRestartRootWorkAdmission s))"
  by (auto simp: tryBeginGatewayRootWorkAdmission_def tryBeginGatewayRestartStartupRootWorkAdmission_def
      tryBeginGatewayPreparedRestartRootWorkAdmission_def admitted_def
      createGatewayRootWorkAdmission_work_ok)

lemma whenOpen_work_ok: "work_ok s \<Longrightarrow> work_ok (snd (beginGatewayRootWorkAdmissionWhenOpen w c s))"
  using tryBegin_work_ok(1) [of s c]
  by (auto simp: beginGatewayRootWorkAdmissionWhenOpen_def split: prod.splits option.splits)

lemma readmission_work_ok: "work_ok s \<Longrightarrow> work_ok (snd (runWithGatewayRootWorkReadmission w c s))"
  using runIndependent_work_ok [of s w]
  by (auto simp: runWithGatewayRootWorkReadmission_def split: option.splits prod.splits)

lemma continuation_work_ok: "work_ok s \<Longrightarrow> work_ok (snd (runWithGatewayIndependentRootWorkContinuation w c s))"
  using runIndependent_work_ok [of s w] createGatewayRootWorkAdmission_work_ok [of s]
  by (auto simp: runWithGatewayIndependentRootWorkContinuation_def split: prod.splits)

lemma reset_work_ok:
  assumes ok: "work_ok s"
  shows "work_ok (resetGatewayWorkAdmission s)"
proof -
  let ?t = "s\<lparr>roots := (\<lambda>r. if r \<in> set (activeRootWork s) then retireRoot (roots s r) else roots s r),
      activeRootWork := []\<rparr>"
  have "root_ok r s \<Longrightarrow> root_ok r ?t" for r
    by (auto simp: root_ok_def retireRoot_def)
  with ok have "work_ok ?t" by (auto simp: work_ok_def split: option.splits)
  moreover have "same_work ?t (resetGatewayWorkAdmission s)"
    by (simp add: same_work_def resetGatewayWorkAdmission_def Let_def)
  ultimately show ?thesis by (blast intro: work_ok_same)
qed

lemmas admission_work_ok =
  tryBegin_work_ok whenOpen_work_ok runIndependent_work_ok readmission_work_ok continuation_work_ok
  releaseRootWork_work_ok createScope_work_ok releaseScope_work_ok beginScopeRun_work_ok reset_work_ok

lemma admission_step_work_ok: "admission_step s t \<Longrightarrow> work_ok s \<Longrightarrow> work_ok t"
  by (induction rule: admission_step.induct)
    (auto intro: admission_work_ok fence_ops_same_work [THEN work_ok_same] suspend_ops_same_work [THEN work_ok_same]
      simp: captureGatewayRootWorkAdmissionContinuationScope_def
        retainGatewayRootWorkAdmissionContinuationScope_def rollbackGatewayRestartSignalFence_def)

subsection \<open>The fence invariant\<close>

lemma work_ops_fences:
  "fence_ok s \<Longrightarrow> fence_ok (releaseRootWork h s)"
  "fence_ok s \<Longrightarrow> fence_ok (releaseScope k s)"
  "fence_ok s \<Longrightarrow> fence_ok (snd (beginScopeRun k s))"
  "fence_ok s \<Longrightarrow> fence_ok (snd (createGatewayRootWorkAdmission s))"
  "fence_ok s \<Longrightarrow> fence_ok (snd (createGatewayRootWorkAdmissionContinuationScope b c s))"
  by (auto simp: fence_ok_def releaseRootWork_def releaseScope_def beginScopeRun_def Let_def
      createGatewayRootWorkAdmission_def createGatewayRootWorkRelease_def
      createGatewayRootWorkAdmissionContinuationScope_def split: option.splits)

lemma begin_ops_fences:
  "fence_ok s \<Longrightarrow> fence_ok (snd (tryBeginGatewayRootWorkAdmission c s))"
  "fence_ok s \<Longrightarrow> fence_ok (snd (tryBeginGatewayRestartStartupRootWorkAdmission s))"
  "fence_ok s \<Longrightarrow> fence_ok (snd (tryBeginGatewayPreparedRestartRootWorkAdmission s))"
  "fence_ok s \<Longrightarrow> fence_ok (snd (runWithGatewayIndependentRootWorkAdmission w s))"
  "fence_ok s \<Longrightarrow> fence_ok (snd (beginGatewayRootWorkAdmissionWhenOpen w c s))"
  using work_ops_fences(4) [of s]
  by (auto simp: tryBeginGatewayRootWorkAdmission_def tryBeginGatewayRestartStartupRootWorkAdmission_def
      tryBeginGatewayPreparedRestartRootWorkAdmission_def admitted_def
      runWithGatewayIndependentRootWorkAdmission_def tryBeginGatewayIndependentRootWorkAdmission_def
      beginGatewayRootWorkAdmissionWhenOpen_def fence_ok_def split: option.splits)

lemma readmit_ops_fences:
  "fence_ok s \<Longrightarrow> fence_ok (snd (runWithGatewayRootWorkReadmission w c s))"
  "fence_ok s \<Longrightarrow> fence_ok (snd (runWithGatewayIndependentRootWorkContinuation w c s))"
  using begin_ops_fences(4) [of s w] work_ops_fences(4) [of s]
  by (auto simp: runWithGatewayRootWorkReadmission_def runWithGatewayIndependentRootWorkContinuation_def
      split: option.splits prod.splits)

lemma fence_ops_fences:
  "fence_ok s \<Longrightarrow> fence_ok (markGatewayRestartDraining s)"
  "fence_ok s \<Longrightarrow> fence_ok (snd (clearRestartSignalFence s))"
  "fence_ok s \<Longrightarrow> fence_ok (snd (beginGatewayRestartSignalAdmission s))"
  "fence_ok s \<Longrightarrow> fence_ok (snd (rollbackRestartSignalLease g s))"
  "fence_ok s \<Longrightarrow> fence_ok (snd (tryBeginGatewaySuspendAdmission cb s))"
  "fence_ok s \<Longrightarrow> fence_ok (resetGatewayWorkAdmission s)"
  by (auto simp: fence_ok_def markGatewayRestartDraining_def clearRestartSignalFence_def Let_def
      beginGatewayRestartSignalAdmission_def rollbackRestartSignalLease_def
      tryBeginGatewaySuspendAdmission_def resetGatewayWorkAdmission_def)

lemma transition_fences:
  "fence_ok s \<Longrightarrow> p \<noteq> Accepting \<Longrightarrow> fence_ok (snd (transition g p q s))"
  by (auto simp: fence_ok_def transition_def Let_def)

lemma suspend_ops_fences:
  "fence_ok s \<Longrightarrow> fence_ok (snd (drainSuspend g s))" "fence_ok s \<Longrightarrow> fence_ok (snd (commitSuspend g s))"
  "fence_ok s \<Longrightarrow> fence_ok (snd (rollbackSuspend g s))" "fence_ok s \<Longrightarrow> fence_ok (snd (releaseSuspend g s))"
  using transition_fences
  by (auto simp: drainSuspend_def commitSuspend_def rollbackSuspend_def releaseSuspend_def
      split: prod.splits bool.splits) (metis snd_conv suspend_phase.distinct(1,3,5))+

lemma admission_step_fences: "admission_step s t \<Longrightarrow> fence_ok s \<Longrightarrow> fence_ok t"
  by (induction rule: admission_step.induct)
    (auto intro: work_ops_fences begin_ops_fences readmit_ops_fences fence_ops_fences suspend_ops_fences
      simp: captureGatewayRootWorkAdmissionContinuationScope_def
        retainGatewayRootWorkAdmissionContinuationScope_def rollbackGatewayRestartSignalFence_def)

lemma admission_reachable_ok: "admission_reachable s \<Longrightarrow> work_ok s \<and> fence_ok s"
proof (induction rule: admission_reachable.induct)
  case start
  show ?case by (simp add: work_ok_def fence_ok_def initialAdmissionState_def)
next
  case (step s t)
  then show ?case by (blast intro: admission_step_work_ok admission_step_fences)
qed

section \<open>Waiters and generations\<close>

text \<open>No operation forgets a waiter: it stays registered or is resolved.\<close>

definition keeps_waiter :: "nat \<Rightarrow> admission_state \<Rightarrow> admission_state \<Rightarrow> bool" where
  "keeps_waiter w s t \<longleftrightarrow> set (effects s) \<subseteq> set (effects t) \<and>
     (w \<in> set (suspendOpenWaiters s) \<longrightarrow>
        w \<in> set (suspendOpenWaiters t) \<or> ResolveWaiter w \<in> set (effects t))"

lemma effects_emit [simp]: "effects (emit e s) = effects s @ [e]"
  by (simp add: emit_def)

lemma effects_resolve [simp]:
  "effects (resolveSuspendOpenWaiters s) = effects s @ map ResolveWaiter (suspendOpenWaiters s)"
  by (simp add: resolveSuspendOpenWaiters_eq)

lemma keeps_waiter_invalidate: "keeps_waiter w s (invalidateSuspendAdmission s)"
  by (auto simp: keeps_waiter_def invalidateSuspendAdmission_def Let_def split: option.splits)

lemma keeps_waiter_trans: "keeps_waiter w s t \<Longrightarrow> keeps_waiter w t u \<Longrightarrow> keeps_waiter w s u"
  by (auto simp: keeps_waiter_def)

lemma keeps_waiter_work:
  "keeps_waiter w s (releaseRootWork h s)" "keeps_waiter w s (releaseScope k s)"
  "keeps_waiter w s (snd (beginScopeRun k s))" "keeps_waiter w s (snd (createGatewayRootWorkAdmission s))"
  "keeps_waiter w s (snd (createGatewayRootWorkAdmissionContinuationScope b c s))"
  by (auto simp: keeps_waiter_def releaseRootWork_def releaseScope_def beginScopeRun_def Let_def
      createGatewayRootWorkAdmission_def createGatewayRootWorkRelease_def
      createGatewayRootWorkAdmissionContinuationScope_def split: option.splits)

lemma keeps_waiter_begin:
  "keeps_waiter w s (snd (tryBeginGatewayRootWorkAdmission c s))"
  "keeps_waiter w s (snd (tryBeginGatewayRestartStartupRootWorkAdmission s))"
  "keeps_waiter w s (snd (tryBeginGatewayPreparedRestartRootWorkAdmission s))"
  "keeps_waiter w s (snd (runWithGatewayIndependentRootWorkAdmission v s))"
  "keeps_waiter w s (snd (beginGatewayRootWorkAdmissionWhenOpen v c s))"
  "keeps_waiter w s (snd (runWithGatewayRootWorkReadmission v c s))"
  "keeps_waiter w s (snd (runWithGatewayIndependentRootWorkContinuation v c s))"
  using keeps_waiter_work(4) [of w s]
  by (auto simp: tryBeginGatewayRootWorkAdmission_def tryBeginGatewayRestartStartupRootWorkAdmission_def
      tryBeginGatewayPreparedRestartRootWorkAdmission_def admitted_def
      runWithGatewayIndependentRootWorkAdmission_def tryBeginGatewayIndependentRootWorkAdmission_def
      beginGatewayRootWorkAdmissionWhenOpen_def runWithGatewayRootWorkReadmission_def
      runWithGatewayIndependentRootWorkContinuation_def keeps_waiter_def
      split: option.splits prod.splits)

lemma keeps_waiter_transition: "keeps_waiter w s (snd (transition g p q s))"
  by (auto simp: keeps_waiter_def transition_def Let_def)

lemma keeps_waiter_suspend:
  "keeps_waiter w s (snd (drainSuspend g s))" "keeps_waiter w s (snd (commitSuspend g s))"
  "keeps_waiter w s (snd (rollbackSuspend g s))" "keeps_waiter w s (snd (releaseSuspend g s))"
  using keeps_waiter_transition
  by (auto simp: drainSuspend_def commitSuspend_def rollbackSuspend_def releaseSuspend_def
      split: prod.splits bool.splits) (metis keeps_waiter_trans snd_conv)+

lemma keeps_waiter_mark: "keeps_waiter w s (markGatewayRestartDraining s)"
  by (auto simp: keeps_waiter_def markGatewayRestartDraining_def invalidateSuspendAdmission_def Let_def
      split: option.splits)

lemma keeps_waiter_reset: "keeps_waiter w s (resetGatewayWorkAdmission s)"
  by (auto simp: keeps_waiter_def resetGatewayWorkAdmission_def invalidateSuspendAdmission_def Let_def
      split: option.splits)

lemma keeps_waiter_fences:
  "keeps_waiter w s (snd (clearRestartSignalFence s))"
  "keeps_waiter w s (snd (beginGatewayRestartSignalAdmission s))"
  "keeps_waiter w s (snd (rollbackRestartSignalLease g s))"
  "keeps_waiter w s (snd (tryBeginGatewaySuspendAdmission cb s))"
  by (auto simp: keeps_waiter_def clearRestartSignalFence_def beginGatewayRestartSignalAdmission_def
      rollbackRestartSignalLease_def tryBeginGatewaySuspendAdmission_def Let_def)

lemma admission_step_keeps_waiter: "admission_step s t \<Longrightarrow> keeps_waiter w s t"
  by (induction rule: admission_step.induct)
    (simp_all add: keeps_waiter_work keeps_waiter_begin keeps_waiter_suspend keeps_waiter_mark
      keeps_waiter_reset keeps_waiter_fences captureGatewayRootWorkAdmissionContinuationScope_def
      retainGatewayRootWorkAdmissionContinuationScope_def rollbackGatewayRestartSignalFence_def)

text \<open>Generations only grow, so a lease that has lost its generation never regains it.\<close>

lemma transition_generation [simp]: "suspendGeneration (snd (transition g p q s)) = suspendGeneration s"
  by (simp add: transition_def Let_def)

lemma suspend_ops_generation [simp]:
  "suspendGeneration (snd (drainSuspend g s)) = suspendGeneration s"
  "suspendGeneration (snd (commitSuspend g s)) = suspendGeneration s"
  "suspendGeneration (snd (rollbackSuspend g s)) = suspendGeneration s"
  "suspendGeneration (snd (releaseSuspend g s)) = suspendGeneration s"
  by (auto simp: drainSuspend_def commitSuspend_def rollbackSuspend_def releaseSuspend_def
      split: prod.splits bool.splits) (metis snd_conv transition_generation)+

lemma work_ops_generation [simp]:
  "suspendGeneration (releaseRootWork h s) = suspendGeneration s"
  "suspendGeneration (releaseScope k s) = suspendGeneration s"
  "suspendGeneration (snd (beginScopeRun k s)) = suspendGeneration s"
  "suspendGeneration (snd (createGatewayRootWorkAdmission s)) = suspendGeneration s"
  "suspendGeneration (snd (createGatewayRootWorkAdmissionContinuationScope b c s)) = suspendGeneration s"
  by (auto simp: releaseRootWork_def releaseScope_def beginScopeRun_def Let_def
      createGatewayRootWorkAdmission_def createGatewayRootWorkRelease_def
      createGatewayRootWorkAdmissionContinuationScope_def split: option.splits)

lemma begin_ops_generation [simp]:
  "suspendGeneration (snd (tryBeginGatewayRootWorkAdmission c s)) = suspendGeneration s"
  "suspendGeneration (snd (tryBeginGatewayRestartStartupRootWorkAdmission s)) = suspendGeneration s"
  "suspendGeneration (snd (tryBeginGatewayPreparedRestartRootWorkAdmission s)) = suspendGeneration s"
  "suspendGeneration (snd (runWithGatewayIndependentRootWorkAdmission v s)) = suspendGeneration s"
  by (simp_all add: tryBeginGatewayRootWorkAdmission_def tryBeginGatewayRestartStartupRootWorkAdmission_def
      tryBeginGatewayPreparedRestartRootWorkAdmission_def admitted_def
      runWithGatewayIndependentRootWorkAdmission_def tryBeginGatewayIndependentRootWorkAdmission_def)

lemma readmit_ops_generation [simp]:
  "suspendGeneration (snd (beginGatewayRootWorkAdmissionWhenOpen v c s)) = suspendGeneration s"
  "suspendGeneration (snd (runWithGatewayRootWorkReadmission v c s)) = suspendGeneration s"
  "suspendGeneration (snd (runWithGatewayIndependentRootWorkContinuation v c s)) = suspendGeneration s"
  using begin_ops_generation(1) [of c s] begin_ops_generation(4) [of v s] work_ops_generation(4) [of s]
  by (auto simp: beginGatewayRootWorkAdmissionWhenOpen_def runWithGatewayRootWorkReadmission_def
      runWithGatewayIndependentRootWorkContinuation_def split: option.splits prod.splits
      simp del: begin_ops_generation work_ops_generation)

lemma admission_step_generation: "admission_step s t \<Longrightarrow> suspendGeneration s \<le> suspendGeneration t"
  by (induction rule: admission_step.induct)
    (auto simp: captureGatewayRootWorkAdmissionContinuationScope_def
      retainGatewayRootWorkAdmissionContinuationScope_def rollbackGatewayRestartSignalFence_def
      markGatewayRestartDraining_def beginGatewayRestartSignalAdmission_def rollbackRestartSignalLease_def
      clearRestartSignalFence_def tryBeginGatewaySuspendAdmission_def resetGatewayWorkAdmission_def Let_def)

lemma transition_stale: "suspendGeneration s \<noteq> g \<Longrightarrow> transition g p q s = (False, s)"
  by (simp add: transition_def)

lemma admission_run_generation: "admission_step\<^sup>*\<^sup>* s t \<Longrightarrow> suspendGeneration s \<le> suspendGeneration t"
  by (induction rule: rtranclp_induct) (auto dest: admission_step_generation)

section \<open>Releasing every lease\<close>

lemma releaseRootWork_live:
  assumes "h \<in> live_handles r s" and "\<not> released (roots s r)"
  shows "live_handles r (releaseRootWork h s) = live_handles r s - {h}"
  using assms by (auto simp: live_handles_def releaseRootWork_def Let_def)

lemma releaseRootWork_released [simp]:
  "released (roots s r) \<Longrightarrow> released (roots (releaseRootWork h s) r)"
  by (auto simp: releaseRootWork_def Let_def)

lemma release_all_leases:
  assumes "work_ok s" and "r < nextRoot s" and "distinct hs" and "live_handles r s \<subseteq> set hs"
    and "set hs \<subseteq> {..<nextHandle s}"
  shows "released (roots (fold releaseRootWork hs s) r)"
  using assms
proof (induction hs arbitrary: s)
  case Nil
  then have "live_handles r s = {}" by auto
  with Nil.prems show ?case by (auto simp: work_ok_def root_ok_def)
next
  case (Cons h hs)
  let ?t = "releaseRootWork h s"
  have wf: "work_ok ?t" using Cons.prems by (auto intro: releaseRootWork_work_ok)
  have nx: "nextRoot ?t = nextRoot s" "nextHandle ?t = nextHandle s"
    by (auto simp: releaseRootWork_def Let_def)
  show ?case
  proof (cases "released (roots ?t r)")
    case True
    then have "released (roots (fold releaseRootWork hs ?t) r)"
      by (intro fold_invariant [where P = "\<lambda>u. released (roots u r)" and Q = "\<lambda>_. True"]) simp_all
    then show ?thesis by simp
  next
    case False
    then have unrel: "\<not> released (roots s r)" by auto
    have "live_handles r ?t \<subseteq> set hs"
    proof (cases "h \<in> live_handles r s")
      case True
      with Cons.prems(3,4) unrel show ?thesis by (auto simp: releaseRootWork_live)
    next
      case False
      with Cons.prems(4) show ?thesis
        by (auto simp: live_handles_def releaseRootWork_def Let_def split: if_splits)
    qed
    with Cons.IH [OF wf] Cons.prems nx show ?thesis by simp
  qed
qed

section \<open>The drain is one-way\<close>

lemma work_ops_draining [simp]:
  "restartDraining (releaseRootWork h s) = restartDraining s"
  "restartDraining (releaseScope k s) = restartDraining s"
  "restartDraining (snd (beginScopeRun k s)) = restartDraining s"
  "restartDraining (snd (createGatewayRootWorkAdmission s)) = restartDraining s"
  "restartDraining (snd (createGatewayRootWorkAdmissionContinuationScope b c s)) = restartDraining s"
  by (auto simp: releaseRootWork_def releaseScope_def beginScopeRun_def Let_def
      createGatewayRootWorkAdmission_def createGatewayRootWorkRelease_def
      createGatewayRootWorkAdmissionContinuationScope_def split: option.splits)

lemma suspend_ops_draining:
  assumes "restartDraining s"
  shows "restartDraining (snd (drainSuspend g s))" "restartDraining (snd (commitSuspend g s))"
    "restartDraining (snd (rollbackSuspend g s))" "restartDraining (snd (releaseSuspend g s))"
  using assms
  by (auto simp: drainSuspend_def commitSuspend_def rollbackSuspend_def releaseSuspend_def transition_def
      Let_def split: prod.splits bool.splits)

lemma one_way_drain:
  "admission_step s t \<Longrightarrow> restartDraining s \<Longrightarrow> restartDraining t \<or> t = resetGatewayWorkAdmission s"
  by (induction rule: admission_step.induct)
    (auto simp: suspend_ops_draining tryBeginGatewayRootWorkAdmission_def admitted_def
      tryBeginGatewayRestartStartupRootWorkAdmission_def tryBeginGatewayPreparedRestartRootWorkAdmission_def
      beginGatewayRootWorkAdmissionWhenOpen_def runWithGatewayIndependentRootWorkAdmission_def
      runWithGatewayRootWorkReadmission_def runWithGatewayIndependentRootWorkContinuation_def
      captureGatewayRootWorkAdmissionContinuationScope_def retainGatewayRootWorkAdmissionContinuationScope_def
      markGatewayRestartDraining_def beginGatewayRestartSignalAdmission_def rollbackRestartSignalLease_def
      rollbackGatewayRestartSignalFence_def clearRestartSignalFence_def tryBeginGatewaySuspendAdmission_def
      split: option.splits prod.splits dest: arg_cong [where f = "\<lambda>r. restartDraining (snd r)"])

section \<open>Properties\<close>

text \<open>A reachable state with one root at work and suspension preparing, for the witnesses below.\<close>

definition busySuspending :: admission_state where
  "busySuspending = snd (tryBeginGatewaySuspendAdmission 7
     (snd (tryBeginGatewayRootWorkAdmission None initialAdmissionState)))"

lemma busySuspending_reachable: "admission_reachable busySuspending"
  unfolding busySuspending_def
  by (rule admission_reachable.step [OF admission_reachable.step [OF admission_reachable.start
        admission_step.begin_root] admission_step.begin_suspend]) (simp add: valid_current_def)

lemmas admission_eval = tryBeginGatewaySuspendAdmission_def tryBeginGatewayRootWorkAdmission_def
  admitted_def createGatewayRootWorkAdmission_def createGatewayRootWorkRelease_def Let_def
  initialAdmissionState_def emit_def set_add_def

text \<open>
  C6. Root work is counted exactly: in every reachable state a root is in the active set exactly
  while it has not been released, its reference count is then the number of release closures
  (request lease, retained continuations, running continuation callbacks) not yet called, and
  calling every one of them, in any order, with any others in between, releases the root.
\<close>

theorem root_work_counted:
  assumes "admission_reachable s" and "r < nextRoot s"
  shows "(r \<in> set (activeRootWork s) \<longleftrightarrow> \<not> released (roots s r)) \<and>
    (r \<in> set (activeRootWork s) \<longrightarrow> references (roots s r) = int (card (live_handles r s)) \<and>
       live_handles r s \<noteq> {}) \<and>
    (\<forall>hs. distinct hs \<longrightarrow> live_handles r s \<subseteq> set hs \<longrightarrow> set hs \<subseteq> {..<nextHandle s} \<longrightarrow>
       released (roots (fold releaseRootWork hs s) r))"
proof -
  from admission_reachable_ok [OF assms(1)] have ok: "work_ok s" "root_ok r s"
    using assms(2) unfolding work_ok_def by blast+
  then show ?thesis
    using release_all_leases [OF ok(1) assms(2)] by (auto simp: root_ok_def)
qed

theorem root_work_counted_witness:
  "admission_reachable busySuspending \<and> 0 < nextRoot busySuspending \<and>
   (0 \<in> set (activeRootWork busySuspending) \<longleftrightarrow> \<not> released (roots busySuspending 0))"
proof -
  have n: "0 < nextRoot busySuspending" by (simp add: busySuspending_def admission_eval)
  from root_work_counted [OF busySuspending_reachable n] n busySuspending_reachable show ?thesis by blast
qed

text \<open>
  C7. No waiter is stranded: whatever operation runs, a caller parked on \<open>suspendOpenWaiters\<close> is
  still parked only while a reversible fence is up; as soon as admission is open again, or the
  one-way restart drain has begun, its waiter has been resolved.
\<close>

theorem no_stranded_waiter:
  assumes "admission_reachable s" and "admission_step s t" and "w \<in> set (suspendOpenWaiters s)"
  shows "ResolveWaiter w \<in> set (effects t) \<or>
    (w \<in> set (suspendOpenWaiters t) \<and> isGatewayWorkAdmissionClosed t \<and> \<not> restartDraining t)"
proof -
  from assms(1,2) have "fence_ok t"
    by (blast dest: admission_reachable_ok admission_step_fences)
  moreover from assms(2) have "keeps_waiter w s t" by (rule admission_step_keeps_waiter)
  ultimately show ?thesis
    using assms(3) by (auto simp: fence_ok_def keeps_waiter_def isGatewayWorkAdmissionClosed_def)
qed

definition parkedState :: admission_state where
  "parkedState = snd (beginGatewayRootWorkAdmissionWhenOpen 3 None busySuspending)"

theorem no_stranded_waiter_witness:
  "3 \<in> set (suspendOpenWaiters parkedState) \<and>
   (ResolveWaiter 3 \<in> set (effects (snd (rollbackSuspend 1 parkedState))) \<or>
    isGatewayWorkAdmissionClosed (snd (rollbackSuspend 1 parkedState)))"
proof -
  have r: "admission_reachable parkedState"
    unfolding parkedState_def
    by (intro admission_reachable.step [OF busySuspending_reachable] admission_step.begin_when_open)
      (simp add: valid_current_def)
  have w: "3 \<in> set (suspendOpenWaiters parkedState)"
    by (simp add: parkedState_def beginGatewayRootWorkAdmissionWhenOpen_def busySuspending_def admission_eval)
  from no_stranded_waiter [OF r admission_step.rollback_suspend w, of 1] w show ?thesis by blast
qed

text \<open>
  A suspension lease that has lost its generation is dead for ever: once the generation has
  moved past it, \<open>drain\<close>, \<open>commit\<close>, \<open>rollback\<close> and \<open>release\<close> of the old lease return false and
  change nothing, after any further operations.
\<close>

theorem stale_suspension_lease_inert:
  assumes "admission_step\<^sup>*\<^sup>* s t" and "g < suspendGeneration s"
  shows "drainSuspend g t = (False, t) \<and> commitSuspend g t = (False, t) \<and>
    rollbackSuspend g t = (False, t) \<and> releaseSuspend g t = (False, t)"
proof -
  from assms have "suspendGeneration t \<noteq> g" by (fastforce dest: admission_run_generation)
  then show ?thesis
    by (simp add: drainSuspend_def commitSuspend_def rollbackSuspend_def releaseSuspend_def transition_stale)
qed

theorem stale_suspension_lease_inert_witness:
  "1 < suspendGeneration (markGatewayRestartDraining busySuspending) \<and>
   releaseSuspend 1 (markGatewayRestartDraining busySuspending) =
     (False, markGatewayRestartDraining busySuspending)"
proof -
  have g: "1 < suspendGeneration (markGatewayRestartDraining busySuspending)"
    by (simp add: markGatewayRestartDraining_def busySuspending_def admission_eval)
  from stale_suspension_lease_inert [OF rtranclp.rtrancl_refl g] g show ?thesis by simp
qed

text \<open>
  The restart drain supersedes a suspension and is one-way: marking it in a suspended state
  drops the suspension, tells its owner once, leaves admission closed and kills the lease; and no
  operation but the reset of an in-process restart ends the drain.
\<close>

theorem restart_drain_supersedes_suspension:
  assumes "admission_reachable s" and "suspendPhase s \<noteq> Accepting"
  shows "\<exists>cb. suspendInvalidated s = Some cb \<and>
    (let t = markGatewayRestartDraining s in
       restartDraining t \<and> suspendPhase t = Accepting \<and> isGatewayWorkAdmissionClosed t \<and>
       last (effects t) = InvokeInvalidated cb \<and> suspendGeneration t = Suc (suspendGeneration s) \<and>
       (\<forall>u. admission_step t u \<longrightarrow> restartDraining u \<or> u = resetGatewayWorkAdmission t))"
proof -
  from assms have ok: "fence_ok s" by (blast dest: admission_reachable_ok)
  with assms(2) obtain cb where cb: "suspendInvalidated s = Some cb" and nd: "\<not> restartDraining s"
    by (auto simp: fence_ok_def)
  let ?t = "markGatewayRestartDraining s"
  have t: "restartDraining ?t" "suspendPhase ?t = Accepting" "last (effects ?t) = InvokeInvalidated cb"
    "suspendGeneration ?t = Suc (suspendGeneration s)"
    using assms(2) cb nd
    by (simp_all add: markGatewayRestartDraining_def Let_def)
      (simp add: invalidateSuspendAdmission_def Let_def)
  have "admission_step ?t u \<Longrightarrow> restartDraining u \<or> u = resetGatewayWorkAdmission ?t" for u
    by (rule one_way_drain [OF _ t(1)])
  with cb t show ?thesis by (simp add: Let_def isGatewayWorkAdmissionClosed_def)
qed

theorem restart_drain_supersedes_suspension_witness:
  "suspendPhase busySuspending \<noteq> Accepting \<and> restartDraining (markGatewayRestartDraining busySuspending)"
proof -
  have p: "suspendPhase busySuspending \<noteq> Accepting" by (simp add: busySuspending_def admission_eval)
  from restart_drain_supersedes_suspension [OF busySuspending_reachable p] p show ?thesis
    by (auto simp: Let_def)
qed

text \<open>
  After a reset, a chain that inherited a root active before it cannot spawn work on that root:
  subordinate admission is closed for it although the gateway is open, and its readmission takes a
  fresh root that did not exist before, while the old root stays released.
\<close>

theorem reset_forces_readmission:
  assumes "admission_reachable s" and "c \<in> set (activeRootWork s)"
  shows "let t = resetGatewayWorkAdmission s in
     \<not> isGatewayWorkAdmissionClosed t \<and> isGatewaySubordinateWorkAdmissionClosed (Some c) t \<and>
     (\<exists>l u. runWithGatewayRootWorkReadmission w (Some c) t = (Some (Granted l), u) \<and>
        runRoot l = Some (nextRoot s) \<and> nextRoot s \<noteq> c \<and>
        activeRootWork u = [nextRoot s] \<and> released (roots u c))"
proof -
  have c: "c < nextRoot s"
    using assms by (auto dest!: admission_reachable_ok simp: work_ok_def)
  let ?t = "resetGatewayWorkAdmission s"
  have t: "\<not> restartDraining ?t" "\<not> restartSignalPending ?t" "suspendPhase ?t = Accepting"
    "roots ?t c = retireRoot (roots s c)" "activeRootWork ?t = []" "nextRoot ?t = nextRoot s"
    using assms(2) by (auto simp: resetGatewayWorkAdmission_def Let_def)
  with c show ?thesis
    by (simp add: Let_def isGatewayWorkAdmissionClosed_def isGatewaySubordinateWorkAdmissionClosed_def
        retireRoot_def runWithGatewayRootWorkReadmission_def runWithGatewayIndependentRootWorkAdmission_def
        tryBeginGatewayIndependentRootWorkAdmission_def admitted_def createGatewayRootWorkAdmission_def
        createGatewayRootWorkRelease_def set_add_def)
qed

theorem reset_forces_readmission_witness:
  "0 \<in> set (activeRootWork busySuspending) \<and>
   isGatewaySubordinateWorkAdmissionClosed (Some 0) (resetGatewayWorkAdmission busySuspending)"
proof -
  have c: "0 \<in> set (activeRootWork busySuspending)" by (simp add: busySuspending_def admission_eval)
  from reset_forces_readmission [OF busySuspending_reachable c, of 0] c show ?thesis
    by (simp add: Let_def)
qed

text \<open>
  The prepared-restart lease is exclusive: it is granted only to a fully prepared suspension
  with no active work, it never reopens admission for others, and while it is held a second
  request for it is refused.
\<close>

theorem prepared_restart_exclusive:
  assumes "tryBeginGatewayPreparedRestartRootWorkAdmission s = (Some l, t)"
  shows "suspendPhase s = Prepared \<and> activeRootWork s = [] \<and> activeRootWork t = [nextRoot s] \<and>
    suspendPhase t = Prepared \<and> isGatewayWorkAdmissionClosed t \<and>
    fst (tryBeginGatewayPreparedRestartRootWorkAdmission t) = None \<and>
    fst (tryBeginGatewayRootWorkAdmission None t) = None"
  using assms
  by (auto simp: tryBeginGatewayPreparedRestartRootWorkAdmission_def admitted_def
      createGatewayRootWorkAdmission_def createGatewayRootWorkRelease_def Let_def set_add_def
      isGatewayWorkAdmissionClosed_def tryBeginGatewayRootWorkAdmission_def split: if_splits)

theorem prepared_restart_exclusive_witness:
  "\<exists>l t. tryBeginGatewayPreparedRestartRootWorkAdmission
        (initialAdmissionState\<lparr>suspendPhase := Prepared\<rparr>) = (Some l, t) \<and>
      activeRootWork t = [0] \<and> fst (tryBeginGatewayPreparedRestartRootWorkAdmission t) = None"
proof -
  let ?s = "initialAdmissionState\<lparr>suspendPhase := Prepared\<rparr>"
  obtain l t where lt: "tryBeginGatewayPreparedRestartRootWorkAdmission ?s = (Some l, t)"
    by (simp add: tryBeginGatewayPreparedRestartRootWorkAdmission_def admitted_def initialAdmissionState_def)
  from prepared_restart_exclusive [OF lt] lt show ?thesis
    by (auto simp: initialAdmissionState_def)
qed

end
