(* ===== verification/NumberCoercion.thy ===== *)
theory NumberCoercion
  imports Prelude
begin

text \<open>
  packages/normalization-core/src/number-coercion.ts: the readers that turn untrusted values into
  finite numbers, safe integers, timer delays and expiry timestamps.

  Numbers are exact rationals, so the model agrees with IEEE doubles wherever the code's sums and
  products stay below \<open>2^53\<close>; every range check of the code is made on the result, as there.
  \<open>Date.parse\<close> and the decimal/scientific string reader (\<open>parseStrictFiniteNumber\<close> on strings)
  are not modelled; \<open>Date.prototype.toISOString\<close> is the parameter \<open>toISO\<close> of the functions that
  print with it. \<open>JOther\<close> stands for every value that is neither a number nor a string.
\<close>

datatype jsval = JNum jsnum | JStr string | JOther

fun asFiniteNumber :: "jsval \<Rightarrow> rat option" where
  "asFiniteNumber (JNum (Fin r)) = Some r"
| "asFiniteNumber _ = None"

text \<open>In \<open>number && number > 0\<close> the number 0 is falsy, as is \<open>undefined\<close>.\<close>

definition asPositiveFiniteNumber :: "jsval \<Rightarrow> rat option" where
  "asPositiveFiniteNumber v = (case asFiniteNumber v of
       Some n \<Rightarrow> if n \<noteq> 0 \<and> n > 0 then Some n else None
     | None \<Rightarrow> None)"

definition asNonNegativeFiniteNumber :: "jsval \<Rightarrow> rat option" where
  "asNonNegativeFiniteNumber v = (case asFiniteNumber v of
       Some n \<Rightarrow> if n \<noteq> 0 \<and> n < 0 then None else Some n
     | None \<Rightarrow> None)"

record number_range =
  rmin :: "rat option"
  rmax :: "rat option"
  minExclusive :: bool
  maxExclusive :: bool

definition asFiniteNumberInRange :: "jsval \<Rightarrow> number_range \<Rightarrow> rat option" where
  "asFiniteNumberInRange v rng =
     (case asFiniteNumber v of
        None \<Rightarrow> None
      | Some n \<Rightarrow>
          if (case rmin rng of None \<Rightarrow> False
              | Some m \<Rightarrow> if minExclusive rng then n \<le> m else n < m) then None
          else if (case rmax rng of None \<Rightarrow> False
              | Some m \<Rightarrow> if maxExclusive rng then n \<ge> m else n > m) then None
          else Some n)"

definition MAX_SAFE_INTEGER :: int where
  "MAX_SAFE_INTEGER = 9007199254740991"

definition isSafeInteger :: "rat \<Rightarrow> bool" where
  "isSafeInteger r \<longleftrightarrow> r = of_int \<lfloor>r\<rfloor> \<and> \<bar>\<lfloor>r\<rfloor>\<bar> \<le> MAX_SAFE_INTEGER"

definition asSafeIntegerInRange :: "jsval \<Rightarrow> rat option \<Rightarrow> rat option \<Rightarrow> rat option" where
  "asSafeIntegerInRange v lo hi =
     (case v of
        JNum (Fin r) \<Rightarrow>
          if \<not> isSafeInteger r then None
          else if (case lo of Some m \<Rightarrow> r < m | None \<Rightarrow> False) then None
          else if (case hi of Some m \<Rightarrow> r > m | None \<Rightarrow> False) then None
          else Some r
      | _ \<Rightarrow> None)"

section \<open>Integer tokens\<close>

definition normalizeNumericString :: "string \<Rightarrow> string option" where
  "normalizeNumericString s = (let trimmed = js_trim s in if trimmed \<noteq> [] then Some trimmed else None)"

definition is_digit :: "char \<Rightarrow> bool" where
  "is_digit c \<longleftrightarrow> 48 \<le> (of_char c :: nat) \<and> (of_char c :: nat) \<le> 57"

definition digits_value :: "string \<Rightarrow> int" where
  "digits_value ds = foldl (\<lambda>n c. 10 * n + (of_char c - 48)) 0 ds"

text \<open>The pattern \<open>/^[+-]?\d+$/\<close> and \<open>Number\<close> on what it accepts.\<close>

definition integer_token :: "string \<Rightarrow> int option" where
  "integer_token s =
     (let (negative, ds) = (case s of
          [] \<Rightarrow> (False, [])
        | c # r \<Rightarrow> if c = CHR ''-'' then (True, r) else if c = CHR ''+'' then (False, r) else (False, s))
      in if ds \<noteq> [] \<and> list_all is_digit ds
         then Some (if negative then - digits_value ds else digits_value ds) else None)"

fun parseStrictInteger :: "jsval \<Rightarrow> rat option" where
  "parseStrictInteger (JNum (Fin r)) = (if isSafeInteger r then Some r else None)"
| "parseStrictInteger (JStr s) =
     (case normalizeNumericString s of
        None \<Rightarrow> None
      | Some normalized \<Rightarrow>
          (case integer_token normalized of
             None \<Rightarrow> None
           | Some n \<Rightarrow> if isSafeInteger (of_int n) then Some (of_int n) else None))"
| "parseStrictInteger _ = None"

definition asPositiveSafeInteger :: "jsval \<Rightarrow> rat option" where
  "asPositiveSafeInteger v = (case v of
       JNum (Fin r) \<Rightarrow> if isSafeInteger r \<and> r > 0 then Some r else None
     | _ \<Rightarrow> None)"

definition parseStrictPositiveInteger :: "jsval \<Rightarrow> rat option" where
  "parseStrictPositiveInteger v = (case parseStrictInteger v of
       Some n \<Rightarrow> if n > 0 then Some n else None | None \<Rightarrow> None)"

definition parseStrictNonNegativeInteger :: "jsval \<Rightarrow> rat option" where
  "parseStrictNonNegativeInteger v = (case parseStrictInteger v of
       Some n \<Rightarrow> if n \<ge> 0 then Some n else None | None \<Rightarrow> None)"

section \<open>Timer delays\<close>

definition MAX_TIMER_TIMEOUT_MS :: int where
  "MAX_TIMER_TIMEOUT_MS = 2147000000"

definition MAX_TIMER_TIMEOUT_SECONDS :: int where
  "MAX_TIMER_TIMEOUT_SECONDS = MAX_TIMER_TIMEOUT_MS div 1000"

definition clampTimerTimeoutMs :: "jsval \<Rightarrow> rat \<Rightarrow> int option" where
  "clampTimerTimeoutMs valueMs minMs =
     (case asFiniteNumber valueMs of
        None \<Rightarrow> None
      | Some v \<Rightarrow>
          let lo = max 1 \<lfloor>minMs\<rfloor> in Some (min (max \<lfloor>v\<rfloor> lo) MAX_TIMER_TIMEOUT_MS))"

definition clampPositiveTimerTimeoutMs :: "jsval \<Rightarrow> int option" where
  "clampPositiveTimerTimeoutMs valueMs =
     (case asFiniteNumber valueMs of
        None \<Rightarrow> None
      | Some v \<Rightarrow> if v \<le> 0 then None else clampTimerTimeoutMs (JNum (Fin v)) 1)"

definition resolveTimerTimeoutMs :: "jsval \<Rightarrow> jsval \<Rightarrow> rat \<Rightarrow> int" where
  "resolveTimerTimeoutMs valueMs fallbackMs minMs =
     (let lo = max 0 \<lfloor>minMs\<rfloor> in
      case (case asFiniteNumber valueMs of Some v \<Rightarrow> Some v | None \<Rightarrow> asFiniteNumber fallbackMs) of
        None \<Rightarrow> lo
      | Some v \<Rightarrow> min (max \<lfloor>v\<rfloor> lo) MAX_TIMER_TIMEOUT_MS)"

definition resolvePositiveTimerTimeoutMs :: "jsval \<Rightarrow> jsval \<Rightarrow> int" where
  "resolvePositiveTimerTimeoutMs valueMs fallbackMs =
     (case clampPositiveTimerTimeoutMs valueMs of
        Some t \<Rightarrow> t
      | None \<Rightarrow> resolveTimerTimeoutMs fallbackMs (JNum (Fin 1)) 1)"

text \<open>An exact sum of two finite numbers is finite, so the overflow branch has no case here.\<close>

definition addTimerTimeoutGraceMs :: "jsval \<Rightarrow> jsval \<Rightarrow> int option" where
  "addTimerTimeoutGraceMs timeoutMs graceMs =
     (case (asFiniteNumber timeoutMs, asFiniteNumber graceMs) of
        (Some timeout, Some grace) \<Rightarrow> clampTimerTimeoutMs (JNum (Fin (timeout + grace))) 1
      | _ \<Rightarrow> None)"

definition finiteSecondsToTimerSafeMilliseconds :: "jsval \<Rightarrow> bool \<Rightarrow> int option" where
  "finiteSecondsToTimerSafeMilliseconds v floorSeconds =
     (case asFiniteNumber v of
        None \<Rightarrow> None
      | Some seconds \<Rightarrow>
          if seconds \<le> 0 then None
          else
            let boundedSeconds = (if floorSeconds then of_int \<lfloor>seconds\<rfloor> else seconds) in
            if boundedSeconds \<ge> of_int MAX_TIMER_TIMEOUT_SECONDS then Some MAX_TIMER_TIMEOUT_MS
            else
              let milliseconds = \<lfloor>boundedSeconds * 1000\<rfloor> in
              if milliseconds \<le> 0 then None else Some (min milliseconds MAX_TIMER_TIMEOUT_MS))"

section \<open>Integer options\<close>

definition resolveIntegerOption :: "jsval \<Rightarrow> rat \<Rightarrow> rat option \<Rightarrow> rat option \<Rightarrow> rat" where
  "resolveIntegerOption v fallback lo hi =
     (let candidate = (case v of JNum (Fin r) \<Rightarrow> r | _ \<Rightarrow> fallback);
          floored = of_int \<lfloor>candidate\<rfloor>;
          minBounded = (case lo of None \<Rightarrow> floored | Some m \<Rightarrow> max m floored)
      in case hi of None \<Rightarrow> minBounded | Some m \<Rightarrow> min m minBounded)"

definition resolveOptionalIntegerOption :: "jsval \<Rightarrow> rat option \<Rightarrow> rat option \<Rightarrow> rat option" where
  "resolveOptionalIntegerOption v lo hi = (case v of
       JNum (Fin r) \<Rightarrow> Some (resolveIntegerOption v r lo hi)
     | _ \<Rightarrow> None)"

definition resolveNonNegativeIntegerOption :: "jsval \<Rightarrow> rat \<Rightarrow> rat" where
  "resolveNonNegativeIntegerOption v fallback = resolveIntegerOption v fallback (Some 0) None"

section \<open>Timestamps\<close>

definition MAX_DATE_TIMESTAMP_MS :: int where
  "MAX_DATE_TIMESTAMP_MS = 8640000000000000"

definition UNIX_EPOCH_ISO_STRING :: string where
  "UNIX_EPOCH_ISO_STRING = ''1970-01-01T00:00:00.000Z''"

definition asDateTimestampMs :: "jsval \<Rightarrow> rat option" where
  "asDateTimestampMs v = asFiniteNumberInRange v
     \<lparr>rmin = Some (- of_int MAX_DATE_TIMESTAMP_MS), rmax = Some (of_int MAX_DATE_TIMESTAMP_MS),
      minExclusive = False, maxExclusive = False\<rparr>"

definition isFutureDateTimestampMs :: "jsval \<Rightarrow> jsval \<Rightarrow> bool" where
  "isFutureDateTimestampMs v now =
     (case (asDateTimestampMs v, asDateTimestampMs now) of
        (Some t, Some n) \<Rightarrow> t > n
      | _ \<Rightarrow> False)"

definition timestampMsToIsoString :: "(rat \<Rightarrow> string) \<Rightarrow> jsval \<Rightarrow> string option" where
  "timestampMsToIsoString toISO v = (case asDateTimestampMs v of None \<Rightarrow> None | Some t \<Rightarrow> Some (toISO t))"

definition resolveDateTimestampMs :: "jsval \<Rightarrow> jsval \<Rightarrow> rat" where
  "resolveDateTimestampMs v fallbackValue =
     (case asDateTimestampMs v of
        Some t \<Rightarrow> t
      | None \<Rightarrow> (case asDateTimestampMs fallbackValue of Some t \<Rightarrow> t | None \<Rightarrow> 0))"

definition resolveTimestampMsToIsoString :: "(rat \<Rightarrow> string) \<Rightarrow> jsval \<Rightarrow> jsval \<Rightarrow> string" where
  "resolveTimestampMsToIsoString toISO v fallbackValue =
     (case timestampMsToIsoString toISO v of
        Some t \<Rightarrow> t
      | None \<Rightarrow> (case timestampMsToIsoString toISO fallbackValue of
                   Some t \<Rightarrow> t | None \<Rightarrow> UNIX_EPOCH_ISO_STRING))"

definition timestampMsToIsoFileStamp :: "(rat \<Rightarrow> string) \<Rightarrow> jsval \<Rightarrow> jsval \<Rightarrow> string" where
  "timestampMsToIsoFileStamp toISO v fallbackValue =
     map (\<lambda>c. if c = CHR '':'' then CHR ''-'' else c) (resolveTimestampMsToIsoString toISO v fallbackValue)"

section \<open>Expiry times\<close>

definition safeMillisecondsFromSeconds :: "rat option \<Rightarrow> rat option" where
  "safeMillisecondsFromSeconds seconds = (case seconds of
       None \<Rightarrow> None
     | Some s \<Rightarrow> if isSafeInteger (s * 1000) then Some (s * 1000) else None)"

definition positiveSecondsToSafeMilliseconds :: "jsval \<Rightarrow> rat option" where
  "positiveSecondsToSafeMilliseconds v = safeMillisecondsFromSeconds (parseStrictPositiveInteger v)"

definition nonNegativeSecondsToSafeMilliseconds :: "jsval \<Rightarrow> rat option" where
  "nonNegativeSecondsToSafeMilliseconds v = safeMillisecondsFromSeconds (parseStrictNonNegativeInteger v)"

text \<open>
  The options after their defaults: \<open>now\<close> is \<open>opts.nowMs ?? Date.now()\<close>, \<open>buffer\<close> is
  \<open>opts.bufferMs ?? 0\<close>. The only use of the ISO string is whether there is one.
\<close>

definition dateValid :: "rat \<Rightarrow> bool" where
  "dateValid t = (timestampMsToIsoString (\<lambda>_. []) (JNum (Fin t)) \<noteq> None)"

definition resolveExpiresAtMsFromDurationMs :: "jsval \<Rightarrow> jsval \<Rightarrow> jsval \<Rightarrow> rat option \<Rightarrow> rat option" where
  "resolveExpiresAtMsFromDurationMs v now buffer minRemainingMs =
     (case asPositiveSafeInteger v of
        None \<Rightarrow> None
      | Some durationMs \<Rightarrow>
          (case (asDateTimestampMs now, asFiniteNumber buffer) of
             (Some nowMs, Some bufferMs) \<Rightarrow>
               let expiresAt = nowMs + durationMs - bufferMs in
               if \<not> isSafeInteger expiresAt \<or> \<not> dateValid expiresAt then None
               else (case minRemainingMs of
                       None \<Rightarrow> Some expiresAt
                     | Some remaining \<Rightarrow>
                         let minExpiresAt = nowMs + remaining in
                         if \<not> isSafeInteger minExpiresAt \<or> \<not> dateValid minExpiresAt then Some expiresAt
                         else Some (max expiresAt minExpiresAt))
           | _ \<Rightarrow> None))"

definition resolveExpiresAtMsFromDurationSeconds ::
  "jsval \<Rightarrow> jsval \<Rightarrow> jsval \<Rightarrow> rat option \<Rightarrow> rat option" where
  "resolveExpiresAtMsFromDurationSeconds v now buffer minRemainingMs =
     (case positiveSecondsToSafeMilliseconds v of
        None \<Rightarrow> None
      | Some durationMs \<Rightarrow> resolveExpiresAtMsFromDurationMs (JNum (Fin durationMs)) now buffer minRemainingMs)"

definition js_trunc :: "rat \<Rightarrow> int" where
  "js_trunc r = (if r < 0 then \<lceil>r\<rceil> else \<lfloor>r\<rfloor>)"

definition resolveExpiresAtMsFromEpochSeconds :: "jsval \<Rightarrow> rat \<Rightarrow> rat option \<Rightarrow> rat option" where
  "resolveExpiresAtMsFromEpochSeconds v bufferMs maxMs =
     (case (case v of
              JNum (Fin r) \<Rightarrow> if r > 0 then Some (of_int (js_trunc r) * 1000)
                else positiveSecondsToSafeMilliseconds v
            | _ \<Rightarrow> positiveSecondsToSafeMilliseconds v) of
        None \<Rightarrow> None
      | Some epochMs \<Rightarrow>
          let expiresAt = epochMs - bufferMs in
          if \<not> isSafeInteger expiresAt then None
          else if \<not> dateValid expiresAt then None
          else (case maxMs of
                  None \<Rightarrow> Some expiresAt
                | Some m \<Rightarrow> if expiresAt \<le> m then Some expiresAt else None))"

text \<open>The thresholds after their defaults \<open>1_000_000_000\<close> and \<open>1_000_000_000_000\<close>.\<close>

definition resolveExpiresAtMsFromDurationOrEpoch :: "jsval \<Rightarrow> jsval \<Rightarrow> rat \<Rightarrow> rat \<Rightarrow> rat option" where
  "resolveExpiresAtMsFromDurationOrEpoch v now relativeSecondsThreshold absoluteMillisecondsThreshold =
     (case parseStrictPositiveInteger v of
        None \<Rightarrow> None
      | Some parsed \<Rightarrow>
          if parsed < relativeSecondsThreshold
          then resolveExpiresAtMsFromDurationSeconds (JNum (Fin parsed)) now (JNum (Fin 0)) None
          else if parsed < absoluteMillisecondsThreshold
          then resolveExpiresAtMsFromEpochSeconds (JNum (Fin parsed)) 0 None
          else asDateTimestampMs (JNum (Fin parsed)))"

section \<open>Lemmas\<close>

lemma digits_value_snoc: "digits_value (ds @ [c]) = 10 * digits_value ds + (of_char c - 48)"
  by (simp add: digits_value_def)

lemma of_char_digit:
  assumes "d < 10"
  shows "of_char (char_of (d + 48) :: char) = (of_nat (d + 48) :: int)"
    and "of_char (char_of (d + 48) :: char) = (d + 48 :: nat)"
proof -
  show n: "of_char (char_of (d + 48) :: char) = (d + 48 :: nat)" using assms by simp
  show "of_char (char_of (d + 48) :: char) = (of_nat (d + 48) :: int)"
    using of_nat_of_char [where 'a = int, of "char_of (d + 48)"] unfolding n by simp
qed

lemma digits_string_of_nat:
  "digits_value (string_of_nat n) = int n \<and> string_of_nat n \<noteq> [] \<and> list_all is_digit (string_of_nat n)"
proof (induction n rule: less_induct)
  case (less n)
  show ?case
  proof (cases "n < 10")
    case True
    then show ?thesis
      by (subst (1 2 3) string_of_nat.simps)
        (simp add: digits_value_def is_digit_def of_char_digit)
  next
    case False
    then have IH: "digits_value (string_of_nat (n div 10)) = int (n div 10)"
      "list_all is_digit (string_of_nat (n div 10))"
      using less.IH [of "n div 10"] by simp_all
    have s: "string_of_nat n = string_of_nat (n div 10) @ [char_of (n mod 10 + 48)]"
      using False by (subst string_of_nat.simps) simp
    have m: "n mod 10 < 10" by simp
    have d: "is_digit (char_of (n mod 10 + 48))"
      unfolding is_digit_def of_char_digit(2) [OF m] using m by linarith
    have "10 * int (n div 10) + int (n mod 10) = int n"
      by (metis mult_div_mod_eq of_nat_add of_nat_mult of_nat_numeral)
    then have "digits_value (string_of_nat n) = int n"
      unfolding s digits_value_snoc IH of_char_digit(1) [OF m] by simp
    with IH d show ?thesis by (simp add: s)
  qed
qed

text \<open>\<open>String(n)\<close> of an integer.\<close>

definition string_of_int :: "int \<Rightarrow> string" where
  "string_of_int n = (if n < 0 then CHR ''-'' # string_of_nat (nat (- n)) else string_of_nat (nat n))"

lemma digit_not_space: "is_digit c \<Longrightarrow> \<not> is_js_space c"
  by (auto simp: is_digit_def is_js_space_def Let_def)

lemma js_trim_no_space: "(\<forall>c \<in> set s. \<not> is_js_space c) \<Longrightarrow> js_trim s = s"
proof -
  have "(\<forall>c \<in> set t. \<not> is_js_space c) \<Longrightarrow> dropWhile is_js_space t = t" for t
    by (cases t) auto
  from this [of s] this [of "rev s"]
  show "(\<forall>c \<in> set s. \<not> is_js_space c) \<Longrightarrow> js_trim s = s" by (simp add: js_trim_def)
qed

lemma integer_token_string_of_int: "integer_token (string_of_int n) = Some n"
proof (cases "n < 0")
  case True
  then show ?thesis using digits_string_of_nat [of "nat (- n)"]
    by (simp add: integer_token_def string_of_int_def)
next
  case False
  obtain c r where s: "string_of_nat (nat n) = c # r"
    using digits_string_of_nat [of "nat n"] by (cases "string_of_nat (nat n)") auto
  then have "is_digit c" using digits_string_of_nat [of "nat n"] by simp
  then have "c \<noteq> CHR ''-''" "c \<noteq> CHR ''+''" by (auto simp: is_digit_def)
  with False s show ?thesis using digits_string_of_nat [of "nat n"]
    by (simp add: integer_token_def string_of_int_def)
qed

lemma string_of_int_trim: "js_trim (string_of_int n) = string_of_int n" "string_of_int n \<noteq> []"
proof -
  have "\<forall>c \<in> set (string_of_nat k). \<not> is_js_space c" for k
    using digits_string_of_nat [of k] digit_not_space by (auto simp: list_all_iff)
  moreover have "\<not> is_js_space (CHR ''-'')" by (simp add: is_js_space_def)
  ultimately show "js_trim (string_of_int n) = string_of_int n"
    by (intro js_trim_no_space) (auto simp: string_of_int_def)
  show "string_of_int n \<noteq> []" using digits_string_of_nat by (simp add: string_of_int_def)
qed

lemma isSafeInteger_of_int [simp]: "isSafeInteger (of_int n) \<longleftrightarrow> \<bar>n\<bar> \<le> MAX_SAFE_INTEGER"
  by (simp add: isSafeInteger_def)

lemma dateValid_iff: "dateValid t \<longleftrightarrow> \<bar>t\<bar> \<le> of_int MAX_DATE_TIMESTAMP_MS"
  by (auto simp: dateValid_def timestampMsToIsoString_def asDateTimestampMs_def
      asFiniteNumberInRange_def split: option.splits if_splits)

lemma asDateTimestampMs_Some:
  "asDateTimestampMs v = Some t \<longleftrightarrow> asFiniteNumber v = Some t \<and> dateValid t"
  by (auto simp: dateValid_iff asDateTimestampMs_def asFiniteNumberInRange_def split: option.splits if_splits)

lemma clampTimerTimeoutMs_bounds:
  "clampTimerTimeoutMs v m = Some t \<Longrightarrow> 1 \<le> t \<and> t \<le> MAX_TIMER_TIMEOUT_MS"
  by (auto simp: clampTimerTimeoutMs_def Let_def MAX_TIMER_TIMEOUT_MS_def split: option.splits)

lemma clampPositiveTimerTimeoutMs_Some:
  "clampPositiveTimerTimeoutMs v = Some t \<longleftrightarrow> (\<exists>r. v = JNum (Fin r) \<and> 0 < r \<and>
     t = min (max \<lfloor>r\<rfloor> 1) MAX_TIMER_TIMEOUT_MS)"
  by (cases v rule: asFiniteNumber.cases)
    (auto simp: clampPositiveTimerTimeoutMs_def clampTimerTimeoutMs_def Let_def)

lemma clampPositiveTimerTimeoutMs_idem:
  "clampPositiveTimerTimeoutMs v = Some t \<Longrightarrow> clampPositiveTimerTimeoutMs (JNum (Fin (of_int t))) = Some t"
  by (auto simp: clampPositiveTimerTimeoutMs_Some MAX_TIMER_TIMEOUT_MS_def)

section \<open>Properties\<close>

text \<open>
  Every delay these helpers hand to a Node timer is safe: a whole number of milliseconds from 1
  to \<open>MAX_TIMER_TIMEOUT_MS\<close> whatever the input (a bigger one would overflow Node's 32-bit timer and
  fire at once), positive in-range inputs are only rounded down, and clamping twice changes nothing.
\<close>

theorem timer_delays_bounded:
  "(\<forall>t. clampPositiveTimerTimeoutMs v = Some t \<longrightarrow> 1 \<le> t \<and> t \<le> MAX_TIMER_TIMEOUT_MS \<and>
      clampPositiveTimerTimeoutMs (JNum (Fin (of_int t))) = Some t) \<and>
   1 \<le> resolvePositiveTimerTimeoutMs v fallback \<and>
   resolvePositiveTimerTimeoutMs v fallback \<le> MAX_TIMER_TIMEOUT_MS \<and>
   (\<forall>t. addTimerTimeoutGraceMs v grace = Some t \<longrightarrow> 1 \<le> t \<and> t \<le> MAX_TIMER_TIMEOUT_MS) \<and>
   (\<forall>t. finiteSecondsToTimerSafeMilliseconds v fs = Some t \<longrightarrow> 1 \<le> t \<and> t \<le> MAX_TIMER_TIMEOUT_MS) \<and>
   (\<forall>r. v = JNum (Fin r) \<and> 1 \<le> r \<and> r \<le> of_int MAX_TIMER_TIMEOUT_MS \<longrightarrow>
      resolvePositiveTimerTimeoutMs v fallback = \<lfloor>r\<rfloor>)"
proof -
  have pos: "1 \<le> t \<and> t \<le> MAX_TIMER_TIMEOUT_MS" if "clampPositiveTimerTimeoutMs v = Some t" for t
    using that by (auto simp: clampPositiveTimerTimeoutMs_Some MAX_TIMER_TIMEOUT_MS_def)
  have fb: "1 \<le> resolveTimerTimeoutMs fallback (JNum (Fin 1)) 1 \<and>
      resolveTimerTimeoutMs fallback (JNum (Fin 1)) 1 \<le> MAX_TIMER_TIMEOUT_MS"
    by (auto simp: resolveTimerTimeoutMs_def Let_def MAX_TIMER_TIMEOUT_MS_def split: option.splits)
  have grace: "1 \<le> t \<and> t \<le> MAX_TIMER_TIMEOUT_MS" if "addTimerTimeoutGraceMs v grace = Some t" for t
    using that clampTimerTimeoutMs_bounds
    by (auto simp: addTimerTimeoutGraceMs_def split: option.splits)
  have secs: "1 \<le> t \<and> t \<le> MAX_TIMER_TIMEOUT_MS"
    if "finiteSecondsToTimerSafeMilliseconds v fs = Some t" for t
    using that by (auto simp: finiteSecondsToTimerSafeMilliseconds_def Let_def MAX_TIMER_TIMEOUT_MS_def
        split: option.splits if_splits)
  have exact: "resolvePositiveTimerTimeoutMs v fallback = \<lfloor>r\<rfloor>"
    if "v = JNum (Fin r)" "1 \<le> r" "r \<le> of_int MAX_TIMER_TIMEOUT_MS" for r
  proof -
    from that(2,3) have "1 \<le> \<lfloor>r\<rfloor>" "\<lfloor>r\<rfloor> \<le> MAX_TIMER_TIMEOUT_MS"
      by (simp_all add: floor_le_iff le_floor_iff)
    then have "clampPositiveTimerTimeoutMs v = Some \<lfloor>r\<rfloor>"
      using that by (simp add: clampPositiveTimerTimeoutMs_Some)
    then show ?thesis by (simp add: resolvePositiveTimerTimeoutMs_def)
  qed
  have res: "1 \<le> resolvePositiveTimerTimeoutMs v fallback \<and>
      resolvePositiveTimerTimeoutMs v fallback \<le> MAX_TIMER_TIMEOUT_MS"
    using pos fb by (auto simp: resolvePositiveTimerTimeoutMs_def split: option.splits)
  from pos grace secs exact res clampPositiveTimerTimeoutMs_idem show ?thesis by blast
qed

theorem timer_delays_bounded_witness:
  "clampPositiveTimerTimeoutMs (JNum (Fin (5 / 2))) = Some 2 \<and>
   resolvePositiveTimerTimeoutMs (JNum (Fin 7)) JOther = 7"
proof -
  have c: "clampPositiveTimerTimeoutMs (JNum (Fin (5 / 2))) = Some 2"
  proof -
    have "\<lfloor>5 / 2 :: rat\<rfloor> = 2" by (rule floor_unique) simp_all
    then show ?thesis unfolding clampPositiveTimerTimeoutMs_Some
      by (intro exI [of _ "5 / 2"]) (simp add: MAX_TIMER_TIMEOUT_MS_def)
  qed
  have "resolvePositiveTimerTimeoutMs (JNum (Fin 7)) JOther = \<lfloor>7 :: rat\<rfloor>"
    using timer_delays_bounded [of "JNum (Fin 7)" JOther JOther False]
    by (simp add: MAX_TIMER_TIMEOUT_MS_def)
  with c show ?thesis by simp
qed

text \<open>
  Strict integer parsing reads back what was printed, and nothing unsafe gets through: the
  decimal text of a safe integer, with any surrounding white space, parses to that integer, and
  every value the parser accepts is a safe integer.
\<close>

theorem strict_integer_round_trip:
  "(\<bar>n\<bar> \<le> MAX_SAFE_INTEGER \<longrightarrow>
      parseStrictInteger (JStr (string_of_int n)) = Some (of_int n) \<and>
      parseStrictInteger (JNum (Fin (of_int n))) = Some (of_int n)) \<and>
   parseStrictInteger (JStr (js_trim s)) = parseStrictInteger (JStr s) \<and>
   (\<forall>r. parseStrictInteger v = Some r \<longrightarrow> isSafeInteger r)"
  by (cases v rule: parseStrictInteger.cases)
    (auto simp: normalizeNumericString_def Let_def string_of_int_trim integer_token_string_of_int
      split: option.splits if_splits)

theorem strict_integer_round_trip_witness:
  "parseStrictInteger (JStr (string_of_int (-42))) = Some (- 42)"
  using strict_integer_round_trip [of "-42"] by (simp add: MAX_SAFE_INTEGER_def)

text \<open>
  An expiry is a real date that does not come early: an accepted duration gives a whole,
  Date-valid timestamp, no earlier than now plus the duration less the buffer, equal to it unless
  the requested minimum remaining time is later, and then equal to that minimum.
\<close>

theorem expiry_from_duration:
  assumes "resolveExpiresAtMsFromDurationMs v now buffer minRemaining = Some e"
  shows "isSafeInteger e \<and> dateValid e \<and>
    (\<exists>d n b. v = JNum (Fin d) \<and> 0 < d \<and> asDateTimestampMs now = Some n \<and> asFiniteNumber buffer = Some b \<and>
       n + d - b \<le> e \<and> (e = n + d - b \<or> (\<exists>m. minRemaining = Some m \<and> e = n + m)) \<and>
       (\<forall>m. minRemaining = Some m \<and> isSafeInteger (n + m) \<and> dateValid (n + m) \<longrightarrow> n + m \<le> e))"
proof -
  from assms obtain d n b where d: "v = JNum (Fin d)" "0 < d"
    and nb: "asDateTimestampMs now = Some n" "asFiniteNumber buffer = Some b"
    by (auto simp: resolveExpiresAtMsFromDurationMs_def asPositiveSafeInteger_def
        split: option.splits jsval.splits jsnum.splits if_splits)
  with assms show ?thesis
    by (auto simp: resolveExpiresAtMsFromDurationMs_def asPositiveSafeInteger_def Let_def max_def
        split: option.splits if_splits)
qed

theorem expiry_from_duration_witness:
  "resolveExpiresAtMsFromDurationMs (JNum (Fin 5000)) (JNum (Fin 1000)) (JNum (Fin 0)) (Some 9000) = Some 10000 \<and>
   dateValid 10000"
proof -
  have "asDateTimestampMs (JNum (Fin 1000)) = Some 1000"
    by (simp add: asDateTimestampMs_Some dateValid_iff MAX_DATE_TIMESTAMP_MS_def)
  then have e: "resolveExpiresAtMsFromDurationMs (JNum (Fin 5000)) (JNum (Fin 1000)) (JNum (Fin 0)) (Some 9000) = Some 10000"
    by (simp add: resolveExpiresAtMsFromDurationMs_def asPositiveSafeInteger_def dateValid_iff isSafeInteger_def MAX_SAFE_INTEGER_def MAX_DATE_TIMESTAMP_MS_def)
  from expiry_from_duration [OF e] e show ?thesis by blast
qed

end
