(* ===== verification/CommandQueue.thy ===== *)
theory CommandQueue
  imports LaneGroups WorkAdmission NumberCoercion
begin

text \<open>
  src/process/command-queue.ts: lanes, their drains, completion, publication of lane widths and
  groups, enqueue, inspection, clearing and resets.

  One call of an exported function is one step. \<open>Date.now()\<close> is the state's \<open>nowMs\<close>, which the
  environment advances between steps. Starting a task schedules a closure that waits for it: the
  closure is a record in \<open>running\<close>, and its completion (the continuation after the await, on both
  paths) is \<open>finishTask\<close>. \<open>onWait\<close> callbacks and promise settlements are recorded as effects in
  order; callbacks that call back into the queue are not modelled, so no step interrupts another
  (the \<open>draining\<close> flags and the draining-group set are kept, and are clear between steps). The
  promise of a command is named by its sequence number. The log lines are not modelled.
\<close>

section \<open>Operations\<close>

definition isQuietProbeLane :: "string \<Rightarrow> bool" where
  "isQuietProbeLane l \<longleftrightarrow> starts_with ''auth-probe:'' l \<or> starts_with ''session:probe-'' l \<or>
     starts_with ''session:temp:setup-inference:probe-setup-inference-'' l"

definition getLaneDepth :: "'t lane_state \<Rightarrow> nat" where
  "getLaneDepth st = queue_length (queue st) + length (activeTaskIds st)"

definition completeTask :: "nat \<Rightarrow> nat \<Rightarrow> nat \<Rightarrow> 't queue_state \<Rightarrow> bool \<times> 't queue_state" where
  "completeTask a taskId taskGeneration s =
     (let st = heap s ! a in
      if taskGeneration \<noteq> generation st then (False, s)
      else (True, putLane a (st\<lparr>activeTaskIds := set_delete taskId (activeTaskIds st)\<rparr>) s))"

definition retireIdleScopedCommandLane :: "nat \<Rightarrow> 't queue_state \<Rightarrow> 't queue_state" where
  "retireIdleScopedCommandLane a s =
     (let st = heap s ! a in
      if draining st \<or> length (activeTaskIds st) > 0 \<or> queue_length (queue st) > 0 \<or>
         maxConcurrent st \<noteq> 1 \<or>
         (\<not> starts_with ''session:'' (lane st) \<and> \<not> starts_with ''nested:'' (lane st) \<and>
          \<not> starts_with ''context-engine-turn-maintenance:'' (lane st))
      then s
      else if map_of (lanes s) (lane st) = Some a
      then s\<lparr>lanes := AList.delete (lane st) (lanes s)\<rparr> else s)"

definition normalizeTaskTimeoutMs :: "jsval \<Rightarrow> int option" where
  "normalizeTaskTimeoutMs v =
     (case v of
        JNum (Fin r) \<Rightarrow> if r \<le> 0 then None else clampPositiveTimerTimeoutMs v
      | _ \<Rightarrow> None)"

definition resolveQueuePriority :: "string option \<Rightarrow> queue_priority" where
  "resolveQueuePriority p =
     (if p = Some ''foreground'' then Foreground
      else if p = Some ''background'' then Background
      else Normal)"

definition enqueueLaneEntry :: "nat \<Rightarrow> 't queue_entry \<Rightarrow> 't queue_state \<Rightarrow> 't queue_state" where
  "enqueueLaneEntry a entry s =
     (let st = heap s ! a;
          ahead = fst (enqueueLaneQueue (queue st) entry);
          entry1 = entry\<lparr>queuedAheadAtEnqueue := ahead, activeAheadAtEnqueue := length (activeTaskIds st)\<rparr>
      in putLane a (st\<lparr>queue := snd (enqueueLaneQueue (queue st) entry1)\<rparr>) s)"

text \<open>
  The body of the drain loop: take the head entry, give it a task id and the lane's generation,
  occupy the slot, report an over-long wait, and start the closure.
\<close>

definition startNext :: "string \<Rightarrow> nat \<Rightarrow> 't queue_state \<Rightarrow> 't queue_state" where
  "startNext l a s =
     (let st = heap s ! a in
      case dequeueLaneQueue (queue st) of
        (None, q) \<Rightarrow> s
      | (Some entry, q) \<Rightarrow>
          let waitedMs = nowMs s - enqueuedAt entry;
              taskId = nextTaskId s;
              taskGeneration = generation st
          in s\<lparr>nextTaskId := taskId + 1,
               heap := (heap s)[a := st\<lparr>queue := q, activeTaskIds := set_add taskId (activeTaskIds st)\<rparr>],
               running := running s @ [\<lparr>run_lane = l, run_state = a, run_entry = entry,
                  run_taskId = taskId, run_generation = taskGeneration\<rparr>],
               queueEffects := queueEffects s
                  @ (if waitedMs \<ge> warnAfterMs entry \<and> onWait entry
                     then [OnWait (promise entry) waitedMs (queuedAheadAtEnqueue entry)] else [])
                  @ [TaskStarted l taskId taskGeneration]\<rparr>)"

text \<open>
  The loop of \<open>drainLane\<close>; \<open>maxStarts = None\<close> is \<open>Number.POSITIVE_INFINITY\<close>. Each iteration takes
  one entry off the queue, so the queue's length is enough fuel.
\<close>

fun drainLaneLoop :: "nat \<Rightarrow> string \<Rightarrow> nat \<Rightarrow> nat option \<Rightarrow> nat \<Rightarrow> 't queue_state \<Rightarrow> nat \<times> 't queue_state" where
  "drainLaneLoop 0 l a maxStarts started s = (started, s)"
| "drainLaneLoop (Suc fuel) l a maxStarts started s =
     (let st = heap s ! a in
      if (case maxStarts of None \<Rightarrow> True | Some m \<Rightarrow> started < m) \<and>
         int (length (activeTaskIds st)) < maxConcurrent st \<and>
         queue_length (queue st) > 0 \<and>
         canAdmitInGroup l s
      then drainLaneLoop fuel l a maxStarts (started + 1) (startNext l a s)
      else (started, s))"

definition drainLane :: "string \<Rightarrow> nat option \<Rightarrow> nat option \<Rightarrow> 't queue_state \<Rightarrow> nat \<times> 't queue_state" where
  "drainLane l maxStarts captured s =
     (let (a, s0) = (case captured of Some a \<Rightarrow> (a, s) | None \<Rightarrow> getLaneState l s);
          st = heap s0 ! a in
      if draining st then (0, s0)
      else
        let s1 = putLane a (st\<lparr>draining := True\<rparr>) s0;
            (started, s2) = drainLaneLoop (queue_length (queue st)) l a maxStarts 0 s1;
            s3 = putLane a ((heap s2 ! a)\<lparr>draining := False\<rparr>) s2
        in (started, retireIdleScopedCommandLane a s3))"

definition drainLaneBounded :: "string \<Rightarrow> nat \<Rightarrow> 't queue_state \<Rightarrow> nat \<times> 't queue_state" where
  "drainLaneBounded l n s = drainLane l (Some n) None s"

definition drainReadyCommandLane :: "string \<Rightarrow> nat option \<Rightarrow> 't queue_state \<Rightarrow> 't queue_state" where
  "drainReadyCommandLane l completedState s =
     (if getLaneGroup l s \<noteq> None
      then drainGroupSiblings drainLaneBounded (Suc (totalQueued s)) l s
      else snd (drainLane l None completedState s))"

text \<open>
  The continuation of a started task: release the slot of the current generation and drain, then
  settle the promise with the result or the error.
\<close>

definition finishTask :: "'t running_task \<Rightarrow> outcome \<Rightarrow> 't queue_state \<Rightarrow> 't queue_state" where
  "finishTask r out s =
     (let s0 = s\<lparr>running := remove1 r (running s)\<rparr>;
          (completedCurrentGeneration, s1) = completeTask (run_state r) (run_taskId r) (run_generation r) s0;
          s2 = (if completedCurrentGeneration
                then drainReadyCommandLane (run_lane r) (Some (run_state r)) s1 else s1)
      in s2\<lparr>queueEffects := queueEffects s2 @ [Settled (promise (run_entry r)) out]\<rparr>)"

subsection \<open>Publication\<close>

record lane_configuration =
  cfg_lanes :: "(string \<times> rat) list"
  cfg_groups :: "(string \<times> lane_group_spec) list"
  cfg_clearGroups :: "string list"

fun validateAll :: "(string \<times> lane_group_spec) list \<Rightarrow> group_error + lane_group_state list" where
  "validateAll [] = Inr []"
| "validateAll ((g, spec) # rest) =
     (case validateCommandLaneGroupSpec g spec of
        Inl e \<Rightarrow> Inl e
      | Inr next_group \<Rightarrow> (case validateAll rest of Inl e \<Rightarrow> Inl e | Inr gs \<Rightarrow> Inr (next_group # gs)))"

definition setLaneWidth :: "string \<Rightarrow> rat \<Rightarrow> 't queue_state \<Rightarrow> 't queue_state" where
  "setLaneWidth l width s =
     (let (a, s1) = getLaneState l s;
          minConcurrent = (if isQuietProbeLane l then 1 else 0)
      in putLane a ((heap s1 ! a)\<lparr>maxConcurrent := max minConcurrent \<lfloor>width\<rfloor>\<rparr>) s1)"

definition publishLane :: "string list \<times> 't queue_state \<Rightarrow> string \<times> rat \<Rightarrow> string list \<times> 't queue_state" where
  "publishLane acc cfg =
     (let l = normalizeLane (fst cfg) in (set_add l (fst acc), setLaneWidth l (snd cfg) (snd acc)))"

definition publishClear :: "string list \<times> 't queue_state \<Rightarrow> string \<Rightarrow> string list \<times> 't queue_state" where
  "publishClear acc g =
     (case map_of (laneGroups (snd acc)) g of
        None \<Rightarrow> acc
      | Some existing \<Rightarrow>
          (fold set_add (members existing) (fst acc),
           (snd acc)\<lparr>laneGroups := AList.delete g (laneGroups (snd acc)),
                     laneGroupByLane := forgetMembers (members existing) (laneGroupByLane (snd acc))\<rparr>))"

definition previousSiblings :: "'t queue_state \<Rightarrow> string \<Rightarrow> string list" where
  "previousSiblings s member =
     (let owner = (case map_of (laneGroupByLane s) member of Some g \<Rightarrow> g | None \<Rightarrow> '''')
      in case map_of (laneGroups s) owner of Some g \<Rightarrow> members g | None \<Rightarrow> [])"

definition publishGroup :: "string list \<times> 't queue_state \<Rightarrow> lane_group_state \<Rightarrow> string list \<times> 't queue_state" where
  "publishGroup acc nxt =
     (let s = snd acc;
          touched1 = fold set_add (case map_of (laneGroups s) (group nxt) of
                        Some previous \<Rightarrow> members previous | None \<Rightarrow> []) (fst acc);
          touched2 = fold set_add (concat (map (previousSiblings s) (members nxt))) touched1
      in (fold set_add (members nxt) touched2, installCommandLaneGroup nxt s))"

definition commitLane :: "'t queue_state \<Rightarrow> string \<Rightarrow> 't queue_state" where
  "commitLane s l =
     (case laneAt s l of
        None \<Rightarrow> s
      | Some st \<Rightarrow>
          if maxConcurrent st > 0 \<and> queue_length (queue st) > 0 \<and> \<not> draining st
          then drainReadyCommandLane l None s else s)"

definition publishLaneConfiguration ::
  "lane_configuration \<Rightarrow> 't queue_state \<Rightarrow> group_error + 't queue_state" where
  "publishLaneConfiguration config s =
     (case validateAll (cfg_groups config) of
        Inl e \<Rightarrow> Inl e
      | Inr validated \<Rightarrow>
          let acc1 = foldl publishLane ([], s) (cfg_lanes config);
              acc2 = foldl publishClear acc1 (cfg_clearGroups config);
              acc3 = foldl publishGroup acc2 validated
          in Inr (foldl commitLane (snd acc3) (fst acc3)))"

definition setCommandLaneConcurrency :: "string \<Rightarrow> rat \<Rightarrow> 't queue_state \<Rightarrow> 't queue_state" where
  "setCommandLaneConcurrency l width s =
     (let cleaned = normalizeLane l;
          s1 = setLaneWidth cleaned width s;
          (a, s2) = getLaneState cleaned s1
      in if maxConcurrent (heap s2 ! a) > 0 then drainReadyCommandLane cleaned None s1 else s1)"

subsection \<open>Enqueue\<close>

record enqueue_options =
  opt_warnAfterMs :: "int option"
  opt_onWait :: bool
  opt_taskTimeoutMs :: jsval
  opt_taskTimeoutProgress :: bool
  opt_taskTimeoutAbortGraceMs :: jsval
  opt_priority :: "string option"

definition enqueueCommandInLane :: "nat option \<Rightarrow> admission_state \<Rightarrow> string \<Rightarrow> 't \<Rightarrow> enqueue_options \<Rightarrow>
    't queue_state \<Rightarrow> nat option \<times> 't queue_state" where
  "enqueueCommandInLane ctx adm l tsk opts s =
     (if isGatewaySubordinateWorkAdmissionClosed ctx adm then (None, s)
      else
        let cleaned = normalizeLane l;
            (a, s1) = getLaneState cleaned s;
            seq = nextQueueSequence s1;
            s2 = s1\<lparr>nextQueueSequence := seq + 1\<rparr>;
            entry = \<lparr>task = tsk, promise = seq, enqueuedAt = nowMs s, sequence = seq,
               priority = resolveQueuePriority (opt_priority opts),
               warnAfterMs = (case opt_warnAfterMs opts of Some w \<Rightarrow> w | None \<Rightarrow> 2000),
               queuedAheadAtEnqueue = 0, activeAheadAtEnqueue = 0,
               taskTimeoutMs = normalizeTaskTimeoutMs (opt_taskTimeoutMs opts),
               taskTimeoutAbortGraceMs = normalizeTaskTimeoutMs (opt_taskTimeoutAbortGraceMs opts),
               progress = opt_taskTimeoutProgress opts, onWait = opt_onWait opts\<rparr>
        in (Some seq, drainReadyCommandLane cleaned None (enqueueLaneEntry a entry s2)))"

subsection \<open>Inspection\<close>

record lane_snapshot =
  snap_lane :: string
  snap_queuedCount :: nat
  snap_activeCount :: nat
  snap_maxConcurrent :: int
  snap_draining :: bool
  snap_generation :: nat
  snap_group :: "string option"
  snap_groupActive :: "int option"
  snap_groupBudget :: "int option"
  snap_reservedForLane :: "int option"
  snap_blockedBy :: "lane_block_reason option"

definition createCommandLaneSnapshot :: "'t lane_state \<Rightarrow> 't queue_state \<Rightarrow> lane_snapshot" where
  "createCommandLaneSnapshot st s =
     (let l = lane st; g = getLaneGroup l s in
      \<lparr>snap_lane = l, snap_queuedCount = queue_length (queue st),
       snap_activeCount = length (activeTaskIds st), snap_maxConcurrent = maxConcurrent st,
       snap_draining = draining st, snap_generation = generation st,
       snap_group = map_option group g,
       snap_groupActive = map_option (\<lambda>g. \<Sum>m\<leftarrow>members g. getMemberActiveCount m s) g,
       snap_groupBudget = map_option budget g,
       snap_reservedForLane = map_option (\<lambda>g. reservedFor g l) g,
       snap_blockedBy = resolveLaneBlockReason l s\<rparr>)"

definition getCommandLaneSnapshot :: "string \<Rightarrow> 't queue_state \<Rightarrow> lane_snapshot" where
  "getCommandLaneSnapshot l s =
     (let resolved = normalizeLane l in
      case laneAt s resolved of
        Some st \<Rightarrow> createCommandLaneSnapshot st s
      | None \<Rightarrow>
          let g = getLaneGroup resolved s in
          \<lparr>snap_lane = resolved, snap_queuedCount = 0, snap_activeCount = 0, snap_maxConcurrent = 1,
           snap_draining = False, snap_generation = 0,
           snap_group = map_option group g,
           snap_groupActive = map_option (\<lambda>g. \<Sum>m\<leftarrow>members g. getMemberActiveCount m s) g,
           snap_groupBudget = map_option budget g,
           snap_reservedForLane = map_option (\<lambda>g. reservedFor g resolved) g,
           snap_blockedBy = resolveLaneBlockReason resolved s\<rparr>)"

definition getQueueSize :: "string \<Rightarrow> 't queue_state \<Rightarrow> nat" where
  "getQueueSize l s = (case laneAt s (normalizeLane l) of None \<Rightarrow> 0 | Some st \<Rightarrow> getLaneDepth st)"

definition listCommandLaneTotals :: "'t queue_state \<Rightarrow> (string \<times> nat \<times> nat) list" where
  "listCommandLaneTotals s = map (\<lambda>(_, a). let st = heap s ! a in
     (lane st, length (activeTaskIds st), queue_length (queue st))) (lanes s)"

definition getCommandLaneActiveTaskIds :: "string \<Rightarrow> 't queue_state \<Rightarrow> nat list" where
  "getCommandLaneActiveTaskIds l s =
     (case laneAt s (normalizeLane l) of Some st \<Rightarrow> activeTaskIds st | None \<Rightarrow> [])"

text \<open>A marker is the lane name, the task id and the generation.\<close>

definition isCommandLaneTaskMarkerCurrent :: "(string \<times> nat \<times> nat) option \<Rightarrow> 't queue_state \<Rightarrow> bool" where
  "isCommandLaneTaskMarkerCurrent marker s =
     (case marker of
        None \<Rightarrow> False
      | Some (l, taskId, gen) \<Rightarrow>
          (case laneAt s (normalizeLane l) of
             None \<Rightarrow> False
           | Some st \<Rightarrow> generation st = gen \<and> taskId \<in> set (activeTaskIds st)))"

definition getTotalQueueSize :: "'t queue_state \<Rightarrow> nat" where
  "getTotalQueueSize s = foldl (\<lambda>n (_, a). n + getLaneDepth (heap s ! a)) 0 (lanes s)"

subsection \<open>Clearing and resets\<close>

text \<open>The loop of \<open>clearCommandLane\<close>: dequeue until nothing is left; the length is enough fuel.\<close>

fun clearLoop :: "nat \<Rightarrow> string \<Rightarrow> nat \<Rightarrow> 't queue_state \<Rightarrow> 't queue_state" where
  "clearLoop 0 l a s = s"
| "clearLoop (Suc fuel) l a s =
     (let st = heap s ! a in
      case dequeueLaneQueue (queue st) of
        (None, q) \<Rightarrow> s
      | (Some entry, q) \<Rightarrow>
          let s1 = putLane a (st\<lparr>queue := q\<rparr>) s
          in clearLoop fuel l a (s1\<lparr>queueEffects := queueEffects s1 @ [Settled (promise entry) (TaskCleared l)]\<rparr>))"

definition clearCommandLane :: "string \<Rightarrow> 't queue_state \<Rightarrow> nat \<times> 't queue_state" where
  "clearCommandLane l s =
     (let cleaned = normalizeLane l in
      case map_of (lanes s) cleaned of
        None \<Rightarrow> (0, s)
      | Some a \<Rightarrow>
          let removed = queue_length (queue (heap s ! a))
          in (removed, clearLoop removed cleaned a s))"

definition resetLaneState :: "'t lane_state \<Rightarrow> 't lane_state" where
  "resetLaneState st = st\<lparr>generation := generation st + 1, activeTaskIds := [], draining := False\<rparr>"

definition resetCommandLane :: "string \<Rightarrow> 't queue_state \<Rightarrow> nat \<times> 't queue_state" where
  "resetCommandLane l s =
     (let cleaned = normalizeLane l in
      case map_of (lanes s) cleaned of
        None \<Rightarrow> (0, s)
      | Some a \<Rightarrow>
          let st = heap s ! a;
              released = length (activeTaskIds st)
          in (released, drainReadyCommandLane cleaned None (putLane a (resetLaneState st) s)))"

definition resetAllLanes :: "admission_state \<Rightarrow> 't queue_state \<Rightarrow> admission_state \<times> 't queue_state" where
  "resetAllLanes adm s =
     (let s1 = foldl (\<lambda>s (_, a). putLane a (resetLaneState (heap s ! a)) s) s (lanes s);
          lanesToDrain = map (\<lambda>(_, a). lane (heap s ! a))
            (filter (\<lambda>(_, a). queue_length (queue (heap s ! a)) > 0) (lanes s))
      in (resetGatewayWorkAdmission adm,
          foldl (\<lambda>s l. drainReadyCommandLane l None s) s1 lanesToDrain))"

definition markGatewayDraining :: "admission_state \<Rightarrow> admission_state" where
  "markGatewayDraining adm = markGatewayRestartDraining adm"

definition isGatewayDraining :: "admission_state \<Rightarrow> bool" where
  "isGatewayDraining adm = isGatewayWorkAdmissionClosed adm"

end
