(* ===== verification/CommandQueueInv.thy ===== *)
theory CommandQueueInv
  imports CommandQueue
begin

text \<open>
  The invariants of the command queue and its properties: \<open>queue_wf\<close> (registry, lane objects, slots
  and accounting of promises), the rule by which an invariant passes through every drain, the step
  relation of the exported operations, and the theorems about budgets, work conservation, stale
  completions and the accounting of accepted commands.
\<close>

section \<open>Well-formed queue states\<close>

abbreviation cell :: "'t queue_state \<Rightarrow> nat \<Rightarrow> 't lane_state" where
  "cell s a \<equiv> heap s ! a"

definition lanes_ok :: "'t queue_state \<Rightarrow> bool" where
  "lanes_ok s \<longleftrightarrow> distinct (map fst (lanes s)) \<and>
     (\<forall>l a. map_of (lanes s) l = Some a \<longrightarrow> a < length (heap s) \<and> lane (cell s a) = l)"

text \<open>An object no name leads to any more (retired) is idle and empty.\<close>

definition cells_ok :: "'t queue_state \<Rightarrow> bool" where
  "cells_ok s \<longleftrightarrow> (\<forall>a < length (heap s).
     lane_ok (queue (cell s a)) \<and> distinct (activeTaskIds (cell s a)) \<and>
     (map_of (lanes s) (lane (cell s a)) \<noteq> Some a \<longrightarrow>
        queue_length (queue (cell s a)) = 0 \<and> activeTaskIds (cell s a) = []))"

text \<open>The ids whose closures are running on the object and belong to its current generation.\<close>

definition current_ids :: "'t queue_state \<Rightarrow> nat \<Rightarrow> nat set" where
  "current_ids s a = run_taskId ` {r \<in> set (running s). run_state r = a \<and>
     run_generation r = generation (cell s a)}"

definition slots_ok :: "'t queue_state \<Rightarrow> bool" where
  "slots_ok s \<longleftrightarrow> distinct (map run_taskId (running s)) \<and>
     (\<forall>r \<in> set (running s). run_state r < length (heap s) \<and> run_lane r = lane (cell s (run_state r)) \<and>
        run_generation r \<le> generation (cell s (run_state r)) \<and> run_taskId r < nextTaskId s) \<and>
     (\<forall>a < length (heap s). set (activeTaskIds (cell s a)) = current_ids s a)"

definition queued_promises :: "'t queue_state \<Rightarrow> nat multiset" where
  "queued_promises s = (\<Sum>st\<leftarrow>heap s. image_mset promise (mset (lane_list (queue st))))"

definition running_promises :: "'t queue_state \<Rightarrow> nat multiset" where
  "running_promises s = image_mset (\<lambda>r. promise (run_entry r)) (mset (running s))"

fun settled_by :: "queue_effect \<Rightarrow> nat list" where
  "settled_by (Settled p _) = [p]"
| "settled_by _ = []"

definition settled_promises :: "'t queue_state \<Rightarrow> nat multiset" where
  "settled_promises s = mset (concat (map settled_by (queueEffects s)))"

text \<open>
  Every accepted command is in one place: queued, running, settled, or (inside the completion of
  a task) among the promises \<open>X\<close> about to be settled.
\<close>

definition promises_ok :: "nat multiset \<Rightarrow> 't queue_state \<Rightarrow> bool" where
  "promises_ok X s \<longleftrightarrow> 1 \<le> nextQueueSequence s \<and>
     queued_promises s + running_promises s + settled_promises s + X = mset [1..<nextQueueSequence s]"

definition queue_wf :: "nat multiset \<Rightarrow> 't queue_state \<Rightarrow> bool" where
  "queue_wf X s \<longleftrightarrow> lanes_ok s \<and> cells_ok s \<and> slots_ok s \<and> promises_ok X s \<and>
     registry_ok (laneGroups s) (laneGroupByLane s)"

lemma queue_wf_registered:
  "queue_wf X s \<Longrightarrow> map_of (lanes s) l = Some a \<Longrightarrow> a < length (heap s) \<and> lane (cell s a) = l"
  by (simp add: queue_wf_def lanes_ok_def)

lemma queue_wf_owner:
  "queue_wf X s \<Longrightarrow> a < length (heap s) \<Longrightarrow>
   queue_length (queue (cell s a)) > 0 \<or> activeTaskIds (cell s a) \<noteq> [] \<Longrightarrow>
   map_of (lanes s) (lane (cell s a)) = Some a"
  unfolding queue_wf_def cells_ok_def by (metis less_irrefl)

lemma queue_wf_cell: "queue_wf X s \<Longrightarrow> a < length (heap s) \<Longrightarrow> lane_ok (queue (cell s a))"
  by (simp add: queue_wf_def cells_ok_def)

lemma laneAt_cell: "map_of (lanes s) l = Some a \<Longrightarrow> laneAt s l = Some (cell s a)"
  by (simp add: laneAt_def)

lemma putLane_simps [simp]:
  "lanes (putLane a st s) = lanes s" "nextTaskId (putLane a st s) = nextTaskId s"
  "nextQueueSequence (putLane a st s) = nextQueueSequence s" "laneGroups (putLane a st s) = laneGroups s"
  "laneGroupByLane (putLane a st s) = laneGroupByLane s" "drainingGroups (putLane a st s) = drainingGroups s"
  "running (putLane a st s) = running s" "queueEffects (putLane a st s) = queueEffects s"
  "nowMs (putLane a st s) = nowMs s" "heap (putLane a st s) = (heap s)[a := st]"
  by (simp_all add: putLane_def)

lemma initial_wf: "queue_wf {#} initialQueueState"
  by (simp add: queue_wf_def initialQueueState_def lanes_ok_def cells_ok_def slots_ok_def promises_ok_def
      registry_ok_def queued_promises_def running_promises_def settled_promises_def)

subsection \<open>Writing one object\<close>

lemma sum_mset_update:
  fixes f :: "'a \<Rightarrow> 'b multiset"
  assumes "a < length xs"
  shows "(\<Sum>x\<leftarrow>xs[a := y]. f x) + f (xs ! a) = (\<Sum>x\<leftarrow>xs. f x) + f y"
proof -
  have "xs = take a xs @ xs ! a # drop (Suc a) xs" using assms by (simp add: id_take_nth_drop)
  then have "(\<Sum>x\<leftarrow>xs. f x) = (\<Sum>x\<leftarrow>take a xs. f x) + f (xs ! a) + (\<Sum>x\<leftarrow>drop (Suc a) xs. f x)"
    by (metis (no_types) add.assoc list.simps(9) map_append sum_list.Cons sum_list.append)
  moreover have "(\<Sum>x\<leftarrow>xs[a := y]. f x) = (\<Sum>x\<leftarrow>take a xs. f x) + f y + (\<Sum>x\<leftarrow>drop (Suc a) xs. f x)"
    using assms by (simp add: upd_conv_take_nth_drop)
  ultimately show ?thesis by simp
qed

lemmas queued_update = sum_mset_update
  [where f = "\<lambda>st. image_mset promise (mset (lane_list (queue st)))", folded queued_promises_def]

text \<open>A write that keeps the queue's entries, the active ids, the name and the generation.\<close>

lemma putLane_inert:
  assumes wf: "queue_wf X s" and a: "a < length (heap s)"
    and same: "lane st = lane (cell s a)" "queue st = queue (cell s a)"
      "activeTaskIds st = activeTaskIds (cell s a)" "generation st = generation (cell s a)"
  shows "queue_wf X (putLane a st s)"
proof -
  have c: "lane (cell (putLane a st s) b) = lane (cell s b)"
    "queue (cell (putLane a st s) b) = queue (cell s b)"
    "activeTaskIds (cell (putLane a st s) b) = activeTaskIds (cell s b)"
    "generation (cell (putLane a st s) b) = generation (cell s b)" for b
    using a same by (cases "b = a"; simp)+
  have ids: "current_ids (putLane a st s) = current_ids s"
    by (intro ext) (simp add: current_ids_def c(4) del: putLane_simps(10))
  have q: "queued_promises (putLane a st s) = queued_promises s"
    using sum_mset_update [OF a, of "\<lambda>st. image_mset promise (mset (lane_list (queue st)))" st] same
    by (simp add: queued_promises_def)
  have len: "length (heap (putLane a st s)) = length (heap s)" by simp
  show ?thesis
    using wf unfolding queue_wf_def lanes_ok_def cells_ok_def slots_ok_def promises_ok_def
    by (simp add: c ids q len running_promises_def settled_promises_def del: putLane_simps(10))
qed

lemma flag_wf: "queue_wf X s \<Longrightarrow> a < length (heap s) \<Longrightarrow>
    queue_wf X (putLane a ((cell s a)\<lparr>draining := b\<rparr>) s)"
  by (rule putLane_inert) simp_all

lemma width_wf: "queue_wf X s \<Longrightarrow> a < length (heap s) \<Longrightarrow>
    queue_wf X (putLane a ((cell s a)\<lparr>maxConcurrent := n\<rparr>) s)"
  by (rule putLane_inert) simp_all

lemma drainingGroups_wf: "queue_wf X (s\<lparr>drainingGroups := gs\<rparr>) = queue_wf X s"
  by (simp add: queue_wf_def lanes_ok_def cells_ok_def slots_ok_def promises_ok_def current_ids_def
      queued_promises_def running_promises_def settled_promises_def)

subsection \<open>Getting an object\<close>

lemma getLaneState_cases:
  obtains a where "map_of (lanes s) l = Some a" "getLaneState l s = (a, s)"
  | "map_of (lanes s) l = None" "getLaneState l s = (length (heap s),
       s\<lparr>heap := heap s @ [newLaneState l], lanes := AList.update l (length (heap s)) (lanes s)\<rparr>)"
  by (cases "map_of (lanes s) l") (auto simp: getLaneState_def)

lemma newLaneState_simps [simp]:
  "lane (newLaneState l) = l" "queue (newLaneState l) = createLaneQueue"
  "activeTaskIds (newLaneState l) = []" "maxConcurrent (newLaneState l) = 1"
  "draining (newLaneState l) = False" "generation (newLaneState l) = 0"
  by (simp_all add: newLaneState_def)

lemma queue_length_create [simp]: "queue_length createLaneQueue = 0"
  by (simp add: createLaneQueue_def)

lemma append_wf:
  assumes wf: "queue_wf X s" and l: "map_of (lanes s) l = None"
  shows "queue_wf X (s\<lparr>heap := heap s @ [newLaneState l], lanes := AList.update l (length (heap s)) (lanes s)\<rparr>)"
    (is "queue_wf X ?t")
proof -
  have c: "cell ?t a = cell s a" if "a < length (heap s)" for a
    using that by (simp add: nth_append)
  have n: "cell ?t (length (heap s)) = newLaneState l" by simp
  have m: "map_of (lanes ?t) k = (if k = l then Some (length (heap s)) else map_of (lanes s) k)" for k
    by (simp add: map_of_update_if)
  have "lanes_ok ?t"
    unfolding lanes_ok_def
  proof (intro conjI allI impI)
    show "distinct (map fst (lanes ?t))"
      using wf by (simp add: queue_wf_def lanes_ok_def distinct_update)
    fix k x assume "map_of (lanes ?t) k = Some x"
    then have "k = l \<and> x = length (heap s) \<or> map_of (lanes s) k = Some x"
      unfolding m by (simp split: if_splits)
    then have "x < length (heap ?t) \<and> lane (cell ?t x) = k"
    proof
      assume "map_of (lanes s) k = Some x"
      from queue_wf_registered [OF wf this] show ?thesis by (simp add: nth_append)
    qed simp
    then show "x < length (heap ?t)" and "lane (cell ?t x) = k" by blast+
  qed
  moreover have "cells_ok ?t"
  proof -
    have "map_of (lanes ?t) (lane (cell ?t a)) \<noteq> Some a \<Longrightarrow> map_of (lanes s) (lane (cell s a)) \<noteq> Some a"
      if "a < length (heap s)" for a
      using that l unfolding m c [OF that] by (cases "lane (cell s a) = l") auto
    moreover have "map_of (lanes ?t) (lane (cell ?t (length (heap s)))) = Some (length (heap s))"
      unfolding n m by simp
    moreover have "a < length (heap ?t) \<Longrightarrow> a < length (heap s) \<or> a = length (heap s)" for a by auto
    ultimately show ?thesis
      using wf unfolding queue_wf_def cells_ok_def
      by (metis c n lane_ok_create newLaneState_simps(2,3) distinct.simps(1))
  qed
  moreover have "slots_ok ?t"
  proof -
    have ids: "current_ids ?t a = current_ids s a" if "a < length (heap s)" for a
      using c [OF that] by (simp add: current_ids_def)
    have new: "current_ids ?t (length (heap s)) = {}"
      using wf by (auto simp: current_ids_def queue_wf_def slots_ok_def)
    show ?thesis unfolding slots_ok_def
    proof (intro conjI allI ballI impI)
      fix a assume "a < length (heap ?t)"
      then consider "a < length (heap s)" | "a = length (heap s)" by fastforce
      then show "set (activeTaskIds (cell ?t a)) = current_ids ?t a"
      proof cases
        case 1
        then show ?thesis using wf unfolding ids [OF 1] c [OF 1] by (simp add: queue_wf_def slots_ok_def)
      next
        case 2
        then show ?thesis unfolding 2 new n by simp
      qed
    qed (use wf in \<open>auto simp: queue_wf_def slots_ok_def nth_append\<close>)
  qed
  moreover have "promises_ok X ?t"
    using wf by (simp add: queue_wf_def promises_ok_def queued_promises_def running_promises_def
        settled_promises_def lane_list_create)
  ultimately show ?thesis using wf by (simp add: queue_wf_def)
qed

lemma getLaneState_wf:
  assumes "queue_wf X s"
  shows "queue_wf X (snd (getLaneState l s))"
    and "map_of (lanes (snd (getLaneState l s))) l = Some (fst (getLaneState l s))"
    and "fst (getLaneState l s) < length (heap (snd (getLaneState l s)))"
    and "lane (cell (snd (getLaneState l s)) (fst (getLaneState l s))) = l"
  by (cases rule: getLaneState_cases [of s l];
      use assms in \<open>simp add: append_wf queue_wf_registered\<close>)+

subsection \<open>Starting the head entry\<close>

lemma dequeue_Some:
  assumes "lane_ok q" and "queue_length q > 0"
  obtains e q' where "dequeueLaneQueue q = (Some e, q')" and "lane_list q = e # lane_list q'"
    and "lane_ok q'" and "queue_length q' = queue_length q - 1" and "peekLaneQueue q = Some e"
proof -
  from assms have ne: "lane_list q \<noteq> []" by (auto simp: queue_length_lane_list)
  obtain x q' where d: "dequeueLaneQueue q = (x, q')" by (cases rule: prod.exhaust)
  from dequeueLaneQueue_correct [OF assms(1)] d ne
  have x: "x = Some (hd (lane_list q))" "lane_list q' = tl (lane_list q)" "lane_ok q'" by simp_all
  with d ne assms show thesis
    by (intro that [of "hd (lane_list q)" q']) (auto simp: queue_length_lane_list peekLaneQueue_hd)
qed

text \<open>What the loop body does, on the queue as a list.\<close>

lemma startNext_eq:
  assumes "lane_ok (queue (cell s a))" and "queue_length (queue (cell s a)) > 0"
    and "nextTaskId s \<notin> set (activeTaskIds (cell s a))"
  obtains e q es where "lane_list (queue (cell s a)) = e # lane_list q" and "lane_ok q"
    and "queue_length q = queue_length (queue (cell s a)) - 1"
    and "concat (map settled_by es) = []" and "dequeueLaneQueue (queue (cell s a)) = (Some e, q)"
    and "startNext l a s = s\<lparr>nextTaskId := nextTaskId s + 1,
       heap := (heap s)[a := (cell s a)\<lparr>queue := q, activeTaskIds := activeTaskIds (cell s a) @ [nextTaskId s]\<rparr>],
       running := running s @ [\<lparr>run_lane = l, run_state = a, run_entry = e,
          run_taskId = nextTaskId s, run_generation = generation (cell s a)\<rparr>],
       queueEffects := queueEffects s @ es @ [TaskStarted l (nextTaskId s) (generation (cell s a))]\<rparr>"
proof (rule dequeue_Some [OF assms(1,2)])
  fix e q assume d: "dequeueLaneQueue (queue (cell s a)) = (Some e, q)"
    "lane_list (queue (cell s a)) = e # lane_list q" "lane_ok q"
    "queue_length q = queue_length (queue (cell s a)) - 1"
  show thesis
    by (rule that [OF d(2-4) _ d(1), of "if nowMs s - enqueuedAt e \<ge> warnAfterMs e \<and> onWait e
        then [OnWait (promise e) (nowMs s - enqueuedAt e) (queuedAheadAtEnqueue e)] else []"])
      (use assms(3) in \<open>simp_all add: startNext_def d(1) Let_def set_add_def\<close>)
qed

lemma fresh_task_id:
  assumes "queue_wf X s" and "a < length (heap s)"
  shows "nextTaskId s \<notin> set (activeTaskIds (cell s a))"
    and "nextTaskId s \<notin> set (map run_taskId (running s))"
  using assms by (auto simp: queue_wf_def slots_ok_def current_ids_def)

lemma startNext_wf:
  assumes wf: "queue_wf X s" and a: "a < length (heap s)" and l: "map_of (lanes s) l = Some a"
    and q: "queue_length (queue (cell s a)) > 0"
  shows "queue_wf X (startNext l a s)"
proof (rule startNext_eq [OF queue_wf_cell [OF wf a] q fresh_task_id(1) [OF wf a], of l])
  fix e q es
  assume e: "lane_list (queue (cell s a)) = e # lane_list q" "lane_ok q"
    "concat (map settled_by es) = []"
    and eq: "startNext l a s = s\<lparr>nextTaskId := nextTaskId s + 1,
       heap := (heap s)[a := (cell s a)\<lparr>queue := q, activeTaskIds := activeTaskIds (cell s a) @ [nextTaskId s]\<rparr>],
       running := running s @ [\<lparr>run_lane = l, run_state = a, run_entry = e,
          run_taskId = nextTaskId s, run_generation = generation (cell s a)\<rparr>],
       queueEffects := queueEffects s @ es @ [TaskStarted l (nextTaskId s) (generation (cell s a))]\<rparr>"
      (is "_ = ?t")
  have len: "length (heap ?t) = length (heap s)" by simp
  have c: "cell ?t b = (if b = a then (cell s a)\<lparr>queue := q, activeTaskIds := activeTaskIds (cell s a) @ [nextTaskId s]\<rparr>
      else cell s b)" for b using a by simp
  have lg: "lane (cell ?t b) = lane (cell s b)" "generation (cell ?t b) = generation (cell s b)" for b
    using a by (cases "b = a"; simp)+
  have reg: "lane (cell s a) = l" using queue_wf_registered [OF wf l] by simp
  have "lanes_ok ?t"
    using wf unfolding queue_wf_def lanes_ok_def lg len by simp
  moreover have "cells_ok ?t"
    unfolding cells_ok_def len lg
  proof (intro allI impI conjI)
    fix b assume b: "b < length (heap s)"
    from wf b have s: "lane_ok (queue (cell s b))" "distinct (activeTaskIds (cell s b))"
      "map_of (lanes s) (lane (cell s b)) \<noteq> Some b \<longrightarrow>
         queue_length (queue (cell s b)) = 0 \<and> activeTaskIds (cell s b) = []"
      by (simp_all add: queue_wf_def cells_ok_def)
    show "lane_ok (queue (cell ?t b))" and "distinct (activeTaskIds (cell ?t b))"
      unfolding c using s e(2) fresh_task_id(1) [OF wf a] by (cases "b = a"; simp)+
    assume "map_of (lanes ?t) (lane (cell s b)) \<noteq> Some b"
    then have u: "map_of (lanes s) (lane (cell s b)) \<noteq> Some b" by simp
    then have "b \<noteq> a" using l reg by auto
    with u s show "queue_length (queue (cell ?t b)) = 0" and "activeTaskIds (cell ?t b) = []"
      unfolding c by simp_all
  qed
  moreover have "slots_ok ?t"
  proof -
    have ids: "current_ids ?t b = (if b = a then insert (nextTaskId s) (current_ids s a) else current_ids s b)" for b
    proof -
      have "{r \<in> set (running ?t). run_state r = b \<and> run_generation r = generation (cell s b)} =
          (if b = a then insert \<lparr>run_lane = l, run_state = a, run_entry = e, run_taskId = nextTaskId s,
               run_generation = generation (cell s a)\<rparr> else id)
            {r \<in> set (running s). run_state r = b \<and> run_generation r = generation (cell s b)}"
        by auto
      then show ?thesis unfolding current_ids_def lg by simp
    qed
    show ?thesis
      using wf fresh_task_id(2) [OF wf a] a reg unfolding queue_wf_def slots_ok_def lg len ids
      by (auto simp: c less_SucI)
  qed
  moreover have "promises_ok X ?t"
  proof -
    have "queued_promises ?t + image_mset promise (mset (lane_list (queue (cell s a))))
        = queued_promises s + image_mset promise (mset (lane_list q))"
      unfolding queued_promises_def
      using queued_update [OF a, of "(cell s a)\<lparr>queue := q,
          activeTaskIds := activeTaskIds (cell s a) @ [nextTaskId s]\<rparr>"] by simp
    then have "queued_promises s = add_mset (promise e) (queued_promises ?t)"
      by (simp add: e(1))
    moreover have "settled_promises ?t = settled_promises s"
      using e(3) by (simp add: settled_promises_def)
    ultimately show ?thesis
      using wf by (simp add: queue_wf_def promises_ok_def running_promises_def)
  qed
  ultimately show "queue_wf X (startNext l a s)" using wf unfolding eq by (simp add: queue_wf_def)
qed

subsection \<open>Retiring\<close>

lemma retire_cases:
  obtains "retireIdleScopedCommandLane a s = s"
  | "retireIdleScopedCommandLane a s = s\<lparr>lanes := AList.delete (lane (cell s a)) (lanes s)\<rparr>"
    "map_of (lanes s) (lane (cell s a)) = Some a"
    "queue_length (queue (cell s a)) = 0" "activeTaskIds (cell s a) = []"
proof (cases "retireIdleScopedCommandLane a s = s")
  case False
  then show thesis
    by (intro that(2)) (simp_all add: retireIdleScopedCommandLane_def Let_def split: if_splits)
qed (rule that(1))

lemma retire_wf:
  assumes wf: "queue_wf X s"
  shows "queue_wf X (retireIdleScopedCommandLane a s)"
proof (cases rule: retire_cases [of a s])
  case 1
  with wf show ?thesis by simp
next
  case 2
  let ?t = "s\<lparr>lanes := AList.delete (lane (cell s a)) (lanes s)\<rparr>"
  from 2(2) wf have a: "a < length (heap s)" by (auto dest: queue_wf_registered)
  have m: "map_of (lanes ?t) k = Some b \<longleftrightarrow> k \<noteq> lane (cell s a) \<and> map_of (lanes s) k = Some b" for k b
    by (simp add: map_of_delete_if)
  have "lanes_ok ?t"
    unfolding lanes_ok_def m
  proof (intro conjI allI impI)
    show "distinct (map fst (lanes ?t))"
      using wf by (simp add: queue_wf_def lanes_ok_def distinct_delete)
    fix k b assume "k \<noteq> lane (cell s a) \<and> map_of (lanes s) k = Some b"
    with queue_wf_registered [OF wf, of k b] show "b < length (heap ?t)" and "lane (cell ?t b) = k" by simp_all
  qed
  moreover have "cells_ok ?t"
    unfolding cells_ok_def m
  proof (intro allI impI conjI)
    fix b assume b: "b < length (heap ?t)"
    then show "lane_ok (queue (cell ?t b))" "distinct (activeTaskIds (cell ?t b))"
      using wf by (simp_all add: queue_wf_def cells_ok_def)
    assume "\<not> (lane (cell ?t b) \<noteq> lane (cell s a) \<and> map_of (lanes s) (lane (cell ?t b)) = Some b)"
    then have "b = a \<or> map_of (lanes s) (lane (cell s b)) \<noteq> Some b" using 2(2) by auto
    then show "queue_length (queue (cell ?t b)) = 0" and "activeTaskIds (cell ?t b) = []"
      using 2(3,4) b wf unfolding queue_wf_def cells_ok_def by auto
  qed
  ultimately show ?thesis
    using wf unfolding 2(1)
    by (simp add: queue_wf_def slots_ok_def current_ids_def promises_ok_def queued_promises_def
        running_promises_def settled_promises_def)
qed

section \<open>What passes through a drain\<close>

text \<open>
  An invariant that survives the atoms of a drain (creating a lane, the flags, starting an admitted
  head entry, retiring) survives every drain of the allowed lanes.
\<close>

locale drain_rule =
  fixes X :: "nat multiset" and P :: "'t queue_state \<Rightarrow> bool" and allowed :: "string \<Rightarrow> bool"
  assumes P_wf: "P s \<Longrightarrow> queue_wf X s"
    and P_get: "P s \<Longrightarrow> P (snd (getLaneState l s))"
    and P_flag: "P s \<Longrightarrow> a < length (heap s) \<Longrightarrow> P (putLane a ((cell s a)\<lparr>draining := b\<rparr>) s)"
    and P_start: "P s \<Longrightarrow> allowed l \<Longrightarrow> map_of (lanes s) l = Some a \<Longrightarrow>
      queue_length (queue (cell s a)) > 0 \<Longrightarrow>
      int (length (activeTaskIds (cell s a))) < maxConcurrent (cell s a) \<Longrightarrow>
      resolveLaneBlockReason l s = None \<Longrightarrow> P (startNext l a s)"
    and P_retire: "P s \<Longrightarrow> P (retireIdleScopedCommandLane a s)"
    and P_groups: "P s \<Longrightarrow> P (s\<lparr>drainingGroups := gs\<rparr>)"
begin

lemma P_loop:
  assumes "P s" and "allowed l" and "a < length (heap s)" and "lane (cell s a) = l"
  shows "P (snd (drainLaneLoop fuel l a n started s)) \<and>
    a < length (heap (snd (drainLaneLoop fuel l a n started s)))"
  using assms
proof (induction fuel arbitrary: started s)
  case 0
  then show ?case by simp
next
  case (Suc fuel)
  let ?go = "(case n of None \<Rightarrow> True | Some m \<Rightarrow> started < m) \<and>
      int (length (activeTaskIds (cell s a))) < maxConcurrent (cell s a) \<and>
      queue_length (queue (cell s a)) > 0 \<and> canAdmitInGroup l s"
  show ?case
  proof (cases ?go)
    case False
    with Suc.prems show ?thesis by (auto simp: Let_def)
  next
    case True
    note wf = P_wf [OF Suc.prems(1)]
    have q: "queue_length (queue (cell s a)) > 0" using True by simp
    have reg: "map_of (lanes s) l = Some a"
      using queue_wf_owner [OF wf Suc.prems(3)] q Suc.prems(4) by auto
    have full: "int (length (activeTaskIds (cell s a))) < maxConcurrent (cell s a)" using True by simp
    have adm: "resolveLaneBlockReason l s = None"
    proof -
      from True have "resolveLaneBlockReason l s = None \<or> resolveLaneBlockReason l s = Some LaneFull"
        by (simp add: canAdmitInGroup_def Let_def)
      moreover have "resolveLaneBlockReason l s \<noteq> Some LaneFull"
        using full by (auto simp: resolveLaneBlockReason_def laneAt_cell [OF reg] Let_def
            split: option.splits if_splits prod.splits)
      ultimately show ?thesis by blast
    qed
    from P_start [OF Suc.prems(1,2) reg q full adm] have P: "P (startNext l a s)" .
    have "a < length (heap (startNext l a s)) \<and> lane (cell (startNext l a s) a) = l"
      by (rule startNext_eq [OF queue_wf_cell [OF wf Suc.prems(3)] q fresh_task_id(1) [OF wf Suc.prems(3)], of l])
        (use Suc.prems(3,4) in simp)
    with Suc.IH [OF P Suc.prems(2)] True show ?thesis by (simp add: Let_def)
  qed
qed

lemma P_drainLane:
  assumes "P s" and "allowed l"
    and "\<And>a. captured = Some a \<Longrightarrow> a < length (heap s) \<and> lane (cell s a) = l"
  shows "P (snd (drainLane l n captured s))"
proof -
  obtain a s0 where as: "(case captured of Some a \<Rightarrow> (a, s) | None \<Rightarrow> getLaneState l s) = (a, s0)"
    by (cases rule: prod.exhaust)
  have s0: "P s0" "a < length (heap s0)" "lane (cell s0 a) = l"
    using as assms P_get [OF assms(1), of l] getLaneState_wf [OF P_wf [OF assms(1)], of l]
    by (cases captured; force)+
  show ?thesis
  proof (cases "draining (cell s0 a)")
    case True
    with as s0 show ?thesis by (simp add: drainLane_def)
  next
    case False
    let ?s1 = "putLane a ((cell s0 a)\<lparr>draining := True\<rparr>) s0"
    have s1: "P ?s1" "a < length (heap ?s1)" "lane (cell ?s1 a) = l"
      using s0 by (simp_all add: P_flag)
    obtain k s2 where loop: "drainLaneLoop (queue_length (queue (cell s0 a))) l a n 0 ?s1 = (k, s2)"
      by (cases rule: prod.exhaust)
    from P_loop [OF s1(1) assms(2) s1(2,3), of "queue_length (queue (cell s0 a))" n 0] loop
    have "P s2" "a < length (heap s2)" by simp_all
    with False show ?thesis
      by (simp add: drainLane_def as loop P_retire P_flag Let_def)
  qed
qed

lemma P_group_loop:
  "P s \<Longrightarrow> (\<And>m. m \<in> set (members g) \<Longrightarrow> allowed m) \<Longrightarrow> P (drainGroupLoop drainLaneBounded fuel g s)"
proof (induction fuel arbitrary: s)
  case 0
  then show ?case by simp
next
  case (Suc fuel)
  show ?case
  proof (cases "resolveNextGroupLane g s")
    case None
    with Suc.prems show ?thesis by simp
  next
    case (Some l)
    then have "l \<in> set (members g)" by (rule resolveNextGroupLane_Some)
    with Suc.prems have "P (snd (drainLaneBounded l 1 s))"
      unfolding drainLaneBounded_def by (intro P_drainLane) auto
    with Some Suc show ?thesis by (auto split: prod.splits)
  qed
qed

lemma P_group:
  assumes "P s" and "\<And>g m. getLaneGroup l s = Some g \<Longrightarrow> m \<in> set (members g) \<Longrightarrow> allowed m"
  shows "P (drainCommandLaneGroup drainLaneBounded fuel l s)"
proof (cases "getLaneGroup l s")
  case None
  with assms show ?thesis by (simp add: drainCommandLaneGroup_def)
next
  case (Some g)
  with assms have "P (drainGroupLoop drainLaneBounded fuel g (s\<lparr>drainingGroups := set_add (group g) (drainingGroups s)\<rparr>))"
    by (intro P_group_loop P_groups) auto
  with Some assms show ?thesis by (simp add: drainCommandLaneGroup_def P_groups Let_def)
qed

lemma P_ready:
  assumes "P s" and "getLaneGroup l s = None \<Longrightarrow> allowed l"
    and "\<And>g m. getLaneGroup l s = Some g \<Longrightarrow> m \<in> set (members g) \<Longrightarrow> allowed m"
    and "\<And>a. captured = Some a \<Longrightarrow> a < length (heap s) \<and> lane (cell s a) = l"
  shows "P (drainReadyCommandLane l captured s)"
  using assms by (simp add: drainReadyCommandLane_def drainGroupSiblings_def P_drainLane P_group)

end

interpretation wf_drain: drain_rule X "queue_wf X" "\<lambda>_. True" for X
  by unfold_locales
    (auto intro: getLaneState_wf(1) flag_wf startNext_wf retire_wf
      dest: queue_wf_registered simp: drainingGroups_wf)

lemma drainReady_wf:
  "queue_wf X s \<Longrightarrow> (\<And>a. captured = Some a \<Longrightarrow> a < length (heap s) \<and> lane (cell s a) = l) \<Longrightarrow>
   queue_wf X (drainReadyCommandLane l captured s)"
  by (rule wf_drain.P_ready) auto

lemma drainReady_wf_None: "queue_wf X s \<Longrightarrow> queue_wf X (drainReadyCommandLane l None s)"
  by (rule drainReady_wf) simp_all

section \<open>The other operations\<close>

subsection \<open>Completion\<close>

text \<open>The completion without its drain and its settlement.\<close>

definition releaseTask :: "'t running_task \<Rightarrow> 't queue_state \<Rightarrow> bool \<times> 't queue_state" where
  "releaseTask r s = completeTask (run_state r) (run_taskId r) (run_generation r)
     (s\<lparr>running := remove1 r (running s)\<rparr>)"

lemma finishTask_release:
  "finishTask r out s = (let (current, s1) = releaseTask r s;
       s2 = (if current then drainReadyCommandLane (run_lane r) (Some (run_state r)) s1 else s1)
     in s2\<lparr>queueEffects := queueEffects s2 @ [Settled (promise (run_entry r)) out]\<rparr>)"
  by (simp add: finishTask_def releaseTask_def)

lemma distinct_taskIds_unique:
  "distinct (map run_taskId rs) \<Longrightarrow> r \<in> set rs \<Longrightarrow> x \<in> set rs \<Longrightarrow> run_taskId x = run_taskId r \<Longrightarrow> x = r"
  by (simp add: distinct_map inj_on_def)

lemma current_ids_remove:
  assumes "distinct (map run_taskId (running s))" and "r \<in> set (running s)"
    and "a = run_state r" and "run_generation r = generation (cell s a)"
  shows "run_taskId ` {x \<in> set (remove1 r (running s)). run_state x = a \<and> run_generation x = generation (cell s a)}
    = current_ids s a - {run_taskId r}"
proof -
  have d: "distinct (running s)" using assms(1) by (simp add: distinct_map)
  have "{x \<in> set (remove1 r (running s)). run_state x = a \<and> run_generation x = generation (cell s a)}
      = {x \<in> set (running s). run_state x = a \<and> run_generation x = generation (cell s a)} - {r}"
    using d by auto
  moreover have "inj_on run_taskId (set (running s))" using assms(1) by (simp add: distinct_map)
  then have "run_taskId ` ({x \<in> set (running s). run_state x = a \<and> run_generation x = generation (cell s a)} - {r})
      = run_taskId ` {x \<in> set (running s). run_state x = a \<and> run_generation x = generation (cell s a)}
        - run_taskId ` {r}"
    using assms(2) by (intro inj_on_image_set_diff) auto
  ultimately show ?thesis unfolding current_ids_def by simp
qed

lemma current_ids_other:
  assumes "distinct (running s)" and "a \<noteq> run_state r \<or> run_generation r \<noteq> generation (cell s a)"
  shows "{x \<in> set (remove1 r (running s)). run_state x = a \<and> run_generation x = generation (cell s a)}
    = {x \<in> set (running s). run_state x = a \<and> run_generation x = generation (cell s a)}"
  using assms by auto

text \<open>After the release the state is well-formed but for the promise about to be settled.\<close>

lemma release_wf:
  assumes wf: "queue_wf X s" and r: "r \<in> set (running s)"
  defines "t \<equiv> snd (releaseTask r s)"
  shows "queue_wf (add_mset (promise (run_entry r)) X) t" (is "queue_wf ?X t")
    and "run_state r < length (heap t)" and "lane (cell t (run_state r)) = run_lane r"
proof -
  let ?a = "run_state r" and ?rs = "remove1 r (running s)"
  from wf r have a: "?a < length (heap s)" and ln: "lane (cell s ?a) = run_lane r"
    by (auto simp: queue_wf_def slots_ok_def)
  let ?st = "if run_generation r = generation (cell s ?a)
    then (cell s ?a)\<lparr>activeTaskIds := set_delete (run_taskId r) (activeTaskIds (cell s ?a))\<rparr> else cell s ?a"
  have t: "t = s\<lparr>running := ?rs, heap := (heap s)[?a := ?st]\<rparr>"
    by (simp add: t_def releaseTask_def completeTask_def Let_def putLane_def)
  have len: "length (heap t) = length (heap s)" by (simp add: t)
  have c: "cell t b = (if b = ?a then ?st else cell s b)" for b using a by (simp add: t)
  have lg: "lane (cell t b) = lane (cell s b)" "queue (cell t b) = queue (cell s b)"
    "generation (cell t b) = generation (cell s b)" for b using a by (cases "b = run_state r"; simp add: c)+
  have act: "activeTaskIds (cell t b) = (if b = ?a \<and> run_generation r = generation (cell s b)
      then set_delete (run_taskId r) (activeTaskIds (cell s b)) else activeTaskIds (cell s b))" for b
    by (simp only: c) simp
  have ls: "lanes t = lanes s" and rs: "running t = ?rs" and nt: "nextTaskId t = nextTaskId s"
    and gr: "laneGroups t = laneGroups s" "laneGroupByLane t = laneGroupByLane s" by (simp_all add: t)
  have "lanes_ok t" using wf unfolding queue_wf_def lanes_ok_def lg len ls by blast
  moreover have "cells_ok t"
    using wf unfolding queue_wf_def cells_ok_def lg len ls act by simp
  moreover have "slots_ok t"
  proof -
    from wf have ids: "distinct (map run_taskId (running s))" "distinct (running s)"
      by (auto simp: queue_wf_def slots_ok_def distinct_map)
    have "set (activeTaskIds (cell t b)) = current_ids t b" if "b < length (heap s)" for b
    proof -
      from that wf have s: "set (activeTaskIds (cell s b)) = current_ids s b"
        by (simp add: queue_wf_def slots_ok_def)
      show ?thesis
      proof (cases "b = ?a \<and> run_generation r = generation (cell s b)")
        case True
        with current_ids_remove [OF ids(1) r, of b] s show ?thesis
          unfolding act current_ids_def [of t] lg rs by simp
      next
        case False
        with current_ids_other [OF ids(2), of b r] s show ?thesis
          unfolding act current_ids_def lg rs by auto
      qed
    qed
    moreover have "distinct (map run_taskId ?rs)" using ids(1) r
      by (metis (no_types, lifting) distinct_map distinct_remove1 inj_on_subset set_remove1_subset)
    moreover have "x \<in> set ?rs \<Longrightarrow> x \<in> set (running s)" for x
      using set_remove1_subset [of r "running s"] by blast
    ultimately show ?thesis
      using wf unfolding queue_wf_def slots_ok_def lg len rs nt by blast
  qed
  moreover have "promises_ok ?X t"
  proof -
    have "queued_promises t = queued_promises s"
    proof -
      have ht: "heap t = (heap s)[?a := ?st]" by (simp add: t)
      have qst: "queue ?st = queue (cell s ?a)" by simp
      from queued_update [OF a, of ?st] show ?thesis
        unfolding queued_promises_def ht qst by (simp only: add_right_cancel)
    qed
    moreover have "running_promises s = add_mset (promise (run_entry r)) (running_promises t)"
    proof -
      have "mset (running s) = add_mset r (mset ?rs)" using r by simp
      then show ?thesis unfolding running_promises_def rs by (simp del: mset_remove1)
    qed
    moreover have "settled_promises t = settled_promises s"
      by (simp add: settled_promises_def t)
    ultimately show ?thesis using wf by (simp add: queue_wf_def promises_ok_def) (simp add: t)
  qed
  ultimately show "queue_wf ?X t" using wf by (simp add: queue_wf_def gr)
  show "?a < length (heap t)" using a by (simp add: t)
  show "lane (cell t ?a) = run_lane r" using ln a by (simp add: t)
qed

lemma settle_wf:
  "queue_wf (add_mset p X) s \<Longrightarrow> queue_wf X (s\<lparr>queueEffects := queueEffects s @ [Settled p out]\<rparr>)"
  by (simp add: queue_wf_def lanes_ok_def cells_ok_def slots_ok_def promises_ok_def current_ids_def
      queued_promises_def running_promises_def settled_promises_def)

lemma finishTask_wf:
  assumes "queue_wf X s" and "r \<in> set (running s)"
  shows "queue_wf X (finishTask r out s)"
proof -
  note rel = release_wf [OF assms]
  let ?t = "snd (releaseTask r s)"
  have "queue_wf (add_mset (promise (run_entry r)) X) (drainReadyCommandLane (run_lane r) (Some (run_state r)) ?t)"
    using rel by (intro drainReady_wf) auto
  with rel(1) show ?thesis
    by (simp add: finishTask_release Let_def split_beta settle_wf)
qed

subsection \<open>Enqueue\<close>

lemma lane_list_enqueue:
  "lane_ok q \<Longrightarrow> lane_ok (snd (enqueueLaneQueue q e)) \<and>
   mset (lane_list (snd (enqueueLaneQueue q e))) = add_mset e (mset (lane_list q)) \<and>
   queue_length (snd (enqueueLaneQueue q e)) = Suc (queue_length q)"
  using enqueueLaneQueue_correct [of q e "fst (enqueueLaneQueue q e)" "snd (enqueueLaneQueue q e)"]
  by (simp add: queue_length_lane_list)

text \<open>
  A write that keeps the name, the active ids and the generation, on a registered object; the
  promises that leave its queue go to \<open>Y\<close>, those that enter come from \<open>X\<close>.
\<close>

lemma putLane_queue:
  assumes wf: "queue_wf X s" and a: "map_of (lanes s) l = Some a"
    and same: "lane st = lane (cell s a)" "activeTaskIds st = activeTaskIds (cell s a)"
      "generation st = generation (cell s a)"
    and ok: "lane_ok (queue st)"
    and X: "X + image_mset promise (mset (lane_list (queue (cell s a))))
      = Y + image_mset promise (mset (lane_list (queue st)))"
  shows "queue_wf Y (putLane a st s)"
proof -
  from queue_wf_registered [OF wf a] have al: "a < length (heap s)" "lane (cell s a) = l" by simp_all
  have c: "cell (putLane a st s) b = (if b = a then st else cell s b)" for b using al by simp
  have lg: "lane (cell (putLane a st s) b) = lane (cell s b)"
    "activeTaskIds (cell (putLane a st s) b) = activeTaskIds (cell s b)"
    "generation (cell (putLane a st s) b) = generation (cell s b)" for b
    unfolding c using same by simp_all
  have len: "length (heap (putLane a st s)) = length (heap s)" by simp
  have ids: "current_ids (putLane a st s) = current_ids s"
    by (intro ext) (simp add: current_ids_def lg(3) del: putLane_simps(10))
  have "lanes_ok (putLane a st s)"
    using wf unfolding queue_wf_def lanes_ok_def lg len putLane_simps(1) by blast
  moreover have "cells_ok (putLane a st s)"
    using wf al a ok unfolding queue_wf_def cells_ok_def lg len putLane_simps(1)
    by (simp add: c del: putLane_simps(10))
  moreover have "slots_ok (putLane a st s)"
    using wf unfolding queue_wf_def slots_ok_def lg len ids putLane_simps(2,7) by blast
  moreover have "promises_ok Y (putLane a st s)"
  proof -
    let ?f = "\<lambda>st. image_mset promise (mset (lane_list (queue st)))"
    have q: "queued_promises (putLane a st s) + ?f (cell s a) = queued_promises s + ?f st"
      unfolding queued_promises_def using queued_update [OF al(1), of st] by simp
    have "queued_promises (putLane a st s) + Y + ?f (cell s a) = queued_promises s + (Y + ?f st)"
      using q by (simp add: ac_simps)
    also have "\<dots> = queued_promises s + X + ?f (cell s a)"
      unfolding X [symmetric] by (simp add: ac_simps)
    finally have "queued_promises (putLane a st s) + Y = queued_promises s + X" by simp
    then have "queued_promises (putLane a st s) + running_promises s + settled_promises s + Y
        = queued_promises s + running_promises s + settled_promises s + X"
      by (simp add: ac_simps)
    with wf show ?thesis
      by (simp add: queue_wf_def promises_ok_def running_promises_def settled_promises_def)
  qed
  ultimately show ?thesis using wf by (simp add: queue_wf_def)
qed

lemma enqueueLaneEntry_wf:
  assumes wf: "queue_wf (add_mset (promise e) X) s" and a: "map_of (lanes s) l = Some a"
  shows "queue_wf X (enqueueLaneEntry a e s)"
proof -
  from queue_wf_registered [OF wf a] have al: "a < length (heap s)" by simp
  let ?e = "e\<lparr>queuedAheadAtEnqueue := fst (enqueueLaneQueue (queue (cell s a)) e),
      activeAheadAtEnqueue := length (activeTaskIds (cell s a))\<rparr>"
  from lane_list_enqueue [OF queue_wf_cell [OF wf al], of ?e] show ?thesis
    unfolding enqueueLaneEntry_def Let_def
    by (intro putLane_queue [OF wf a]) auto
qed

lemma sequence_wf:
  "queue_wf X s \<Longrightarrow> queue_wf (add_mset (nextQueueSequence s) X) (s\<lparr>nextQueueSequence := nextQueueSequence s + 1\<rparr>)"
  by (simp add: queue_wf_def lanes_ok_def cells_ok_def slots_ok_def promises_ok_def current_ids_def
      queued_promises_def running_promises_def settled_promises_def)

lemma enqueueCommandInLane_wf:
  assumes wf: "queue_wf X s"
  shows "queue_wf X (snd (enqueueCommandInLane ctx adm l tsk opts s))"
proof (cases "isGatewaySubordinateWorkAdmissionClosed ctx adm")
  case True
  with wf show ?thesis by (simp add: enqueueCommandInLane_def)
next
  case False
  obtain a s1 where g: "getLaneState (normalizeLane l) s = (a, s1)" by (cases rule: prod.exhaust)
  note n = getLaneState_wf [OF wf, of "normalizeLane l", unfolded g fst_conv snd_conv]
  have "map_of (lanes (s1\<lparr>nextQueueSequence := nextQueueSequence s1 + 1\<rparr>)) (normalizeLane l) = Some a"
    using n(2) by simp
  note entry = enqueueLaneEntry_wf [OF _ this]
  show ?thesis
    unfolding enqueueCommandInLane_def g Let_def split_conv if_not_P [OF False] snd_conv
    by (rule drainReady_wf, rule entry) (use sequence_wf [OF n(1)] in simp_all)
qed

subsection \<open>Clearing and resets\<close>

lemma clearLoop_wf:
  "queue_wf X s \<Longrightarrow> map_of (lanes s) l' = Some a \<Longrightarrow> queue_wf X (clearLoop fuel l a s)"
proof (induction fuel arbitrary: s)
  case 0
  then show ?case by simp
next
  case (Suc fuel)
  from queue_wf_registered [OF Suc.prems] have al: "a < length (heap s)" by simp
  note ok = queue_wf_cell [OF Suc.prems(1) al]
  show ?case
  proof (cases "queue_length (queue (cell s a)) = 0")
    case True
    with dequeueLaneQueue_correct [OF ok] ok have "fst (dequeueLaneQueue (queue (cell s a))) = None"
      by (simp add: queue_length_lane_list)
    with Suc.prems show ?thesis by (simp add: split_beta Let_def)
  next
    case False
    then have "queue_length (queue (cell s a)) > 0" by simp
    then show ?thesis
    proof (rule dequeue_Some [OF ok])
      fix e q assume d: "dequeueLaneQueue (queue (cell s a)) = (Some e, q)"
        "lane_list (queue (cell s a)) = e # lane_list q" "lane_ok q"
      have "queue_wf (add_mset (promise e) X) (putLane a ((cell s a)\<lparr>queue := q\<rparr>) s)"
        by (rule putLane_queue [OF Suc.prems]) (simp_all add: d)
      from Suc.IH [OF settle_wf [OF this]] Suc.prems(2) d show ?thesis by (simp add: Let_def)
    qed
  qed
qed

lemma clearCommandLane_wf: "queue_wf X s \<Longrightarrow> queue_wf X (snd (clearCommandLane l s))"
  by (auto simp: clearCommandLane_def Let_def clearLoop_wf split: option.splits)

lemma reset_cell_wf:
  assumes wf: "queue_wf X s" and a: "a < length (heap s)"
  shows "queue_wf X (putLane a (resetLaneState (cell s a)) s)"
proof -
  let ?t = "putLane a (resetLaneState (cell s a)) s"
  have c: "cell ?t b = (if b = a then resetLaneState (cell s a) else cell s b)" for b using a by simp
  have lg: "lane (cell ?t b) = lane (cell s b)" "queue (cell ?t b) = queue (cell s b)" for b
    unfolding c by (simp_all add: resetLaneState_def)
  have gen: "generation (cell ?t b) = (if b = a then Suc (generation (cell s b)) else generation (cell s b))"
    and act: "activeTaskIds (cell ?t b) = (if b = a then [] else activeTaskIds (cell s b))" for b
    unfolding c by (simp_all add: resetLaneState_def)
  have len: "length (heap ?t) = length (heap s)" by simp
  have run: "r \<in> set (running s) \<Longrightarrow> run_generation r \<le> generation (cell s (run_state r))" for r
    using wf by (simp add: queue_wf_def slots_ok_def)
  have ids: "current_ids ?t b = (if b = a then {} else current_ids s b)" for b
    unfolding current_ids_def gen putLane_simps(7) using run by fastforce
  have "lanes_ok ?t"
    using wf unfolding queue_wf_def lanes_ok_def lg len putLane_simps(1) by blast
  moreover have "cells_ok ?t"
    using wf unfolding queue_wf_def cells_ok_def lg len act putLane_simps(1) by simp
  moreover have "slots_ok ?t"
    using wf run unfolding queue_wf_def slots_ok_def lg len ids gen act putLane_simps(2,7)
    by (auto simp: le_SucI)
  moreover have "promises_ok X ?t"
  proof -
    have "queued_promises ?t = queued_promises s"
      unfolding queued_promises_def using queued_update [OF a, of "resetLaneState (cell s a)"]
      by (simp add: resetLaneState_def)
    with wf show ?thesis by (simp add: queue_wf_def promises_ok_def running_promises_def settled_promises_def)
  qed
  ultimately show ?thesis using wf by (simp add: queue_wf_def)
qed

lemma resetCommandLane_wf: "queue_wf X s \<Longrightarrow> queue_wf X (snd (resetCommandLane l s))"
  by (auto simp: resetCommandLane_def Let_def split: option.splits
      intro!: drainReady_wf reset_cell_wf dest: queue_wf_registered)

lemma reset_cells_wf:
  "queue_wf X s \<Longrightarrow> (\<forall>(l, a) \<in> set ls. a < length (heap s)) \<Longrightarrow>
   queue_wf X (foldl (\<lambda>s (_, a). putLane a (resetLaneState (cell s a)) s) s ls)"
  by (induction ls arbitrary: s) (auto simp: reset_cell_wf)

lemma foldl_drainReady_wf:
  "queue_wf X s \<Longrightarrow> queue_wf X (foldl (\<lambda>s l. drainReadyCommandLane l None s) s ls)"
  by (induction ls arbitrary: s) (simp_all add: drainReady_wf_None)

lemma lanes_addresses:
  assumes "queue_wf X s" and "(l, a) \<in> set (lanes s)"
  shows "a < length (heap s) \<and> lane (cell s a) = l \<and> map_of (lanes s) l = Some a"
proof -
  from assms have "map_of (lanes s) l = Some a"
    by (simp add: queue_wf_def lanes_ok_def map_of_is_SomeI)
  with queue_wf_registered [OF assms(1) this] show ?thesis by simp
qed

lemma resetAllLanes_wf: "queue_wf X s \<Longrightarrow> queue_wf X (snd (resetAllLanes adm s))"
  unfolding resetAllLanes_def Let_def snd_conv
  by (intro foldl_drainReady_wf reset_cells_wf) (auto dest: lanes_addresses)

subsection \<open>Widths and groups\<close>

lemma setLaneWidth_wf:
  assumes "queue_wf X s"
  shows "queue_wf X (setLaneWidth l w s)"
proof -
  obtain a s1 where g: "getLaneState l s = (a, s1)" by (cases rule: prod.exhaust)
  from getLaneState_wf [OF assms, of l] show ?thesis
    unfolding setLaneWidth_def Let_def g split_conv fst_conv snd_conv by (intro width_wf)
qed

lemma setCommandLaneConcurrency_wf: "queue_wf X s \<Longrightarrow> queue_wf X (setCommandLaneConcurrency l w s)"
  by (auto simp: setCommandLaneConcurrency_def Let_def setLaneWidth_wf split: prod.splits
      intro: drainReady_wf_None)

lemma groups_wf:
  "queue_wf X s \<Longrightarrow> registry_ok gs byLane \<Longrightarrow> queue_wf X (s\<lparr>laneGroups := gs, laneGroupByLane := byLane\<rparr>)"
  by (simp add: queue_wf_def lanes_ok_def cells_ok_def slots_ok_def promises_ok_def current_ids_def
      queued_promises_def running_promises_def settled_promises_def)

lemma install_frame:
  "installCommandLaneGroup nxt s = s\<lparr>laneGroups := laneGroups (installCommandLaneGroup nxt s),
     laneGroupByLane := laneGroupByLane (installCommandLaneGroup nxt s)\<rparr>"
  by (simp add: installCommandLaneGroup_def Let_def)

lemma install_wf:
  assumes "queue_wf X s" and "group_ok nxt" and "group nxt \<noteq> ''''"
  shows "queue_wf X (installCommandLaneGroup nxt s)"
  by (subst install_frame, rule groups_wf [OF assms(1)], rule install_registry_ok(1))
    (use assms in \<open>simp_all add: queue_wf_def\<close>)

lemma registry_unique:
  assumes "registry_ok gs byLane" and "map_of gs n = Some g" and "l \<in> set (members g)"
    and "map_of gs k = Some h" and "l \<in> set (members h)"
  shows "k = n \<and> h = g"
proof -
  from assms have "map_of byLane l = Some n" "map_of byLane l = Some k"
    unfolding registry_ok_def by blast+
  with assms show ?thesis by simp
qed

lemma remove_group_ok:
  assumes ok: "registry_ok gs byLane" and g: "map_of gs n = Some g"
  shows "registry_ok (AList.delete n gs) (forgetMembers (members g) byLane)"
proof -
  from ok have owner: "map_of byLane l = Some k \<longleftrightarrow> (\<exists>g. map_of gs k = Some g \<and> l \<in> set (members g))" for l k
    unfolding registry_ok_def by blast
  have "map_of (forgetMembers (members g) byLane) l = Some k \<longleftrightarrow>
      (\<exists>h. map_of (AList.delete n gs) k = Some h \<and> l \<in> set (members h))" for l k
    unfolding map_of_forgetMembers map_of_delete_if using owner registry_unique [OF ok g] g
    by (metis option.distinct(1) option.inject)
  with ok show ?thesis unfolding registry_ok_def by (simp add: map_of_delete_if)
qed

lemma publishLane_wf: "queue_wf X (snd acc) \<Longrightarrow> queue_wf X (snd (publishLane acc cfg))"
  by (simp add: publishLane_def Let_def setLaneWidth_wf)

lemma publishClear_wf: "queue_wf X (snd acc) \<Longrightarrow> queue_wf X (snd (publishClear acc g))"
proof (cases "map_of (laneGroups (snd acc)) g")
  case None
  then show "queue_wf X (snd acc) \<Longrightarrow> ?thesis" by (simp add: publishClear_def)
next
  case (Some existing)
  assume wf: "queue_wf X (snd acc)"
  then have "registry_ok (laneGroups (snd acc)) (laneGroupByLane (snd acc))" by (simp add: queue_wf_def)
  from groups_wf [OF wf remove_group_ok [OF this Some]] Some show ?thesis by (simp add: publishClear_def)
qed

lemma publishGroup_wf:
  "queue_wf X (snd acc) \<Longrightarrow> group_ok nxt \<Longrightarrow> group nxt \<noteq> '''' \<Longrightarrow> queue_wf X (snd (publishGroup acc nxt))"
  by (simp add: publishGroup_def Let_def install_wf)

lemma foldl_inv:
  "Q acc \<Longrightarrow> (\<And>acc x. Q acc \<Longrightarrow> x \<in> set xs \<Longrightarrow> Q (f acc x)) \<Longrightarrow> Q (foldl f acc xs)"
  by (induction xs arbitrary: acc) auto

lemma validateAll_ok:
  "validateAll specs = Inr gs \<Longrightarrow> G \<in> set gs \<Longrightarrow> group_ok G \<and> group G \<in> fst ` set specs"
proof (induction specs arbitrary: gs)
  case Nil
  then show ?case by simp
next
  case (Cons p specs)
  obtain g spec where p: "p = (g, spec)" by (cases p)
  from Cons.prems(1) obtain H hs where v: "validateCommandLaneGroupSpec g spec = Inr H"
    "validateAll specs = Inr hs" "gs = H # hs"
    by (auto simp: p split: sum.splits)
  from validate_ok [OF v(1)] Cons.IH [OF v(2)] Cons.prems(2) show ?case by (auto simp: v(3) p)
qed

text \<open>The state after the suppressed phase of a publication, and the lanes to commit.\<close>

definition publishInstalled :: "lane_configuration \<Rightarrow> lane_group_state list \<Rightarrow> 't queue_state \<Rightarrow>
    string list \<times> 't queue_state" where
  "publishInstalled config validated s =
     foldl publishGroup (foldl publishClear (foldl publishLane ([], s) (cfg_lanes config))
       (cfg_clearGroups config)) validated"

lemma publish_cases:
  assumes "publishLaneConfiguration config s = Inr t" and "'''' \<notin> fst ` set (cfg_groups config)"
  obtains validated where "\<And>G. G \<in> set validated \<Longrightarrow> group_ok G \<and> group G \<noteq> ''''"
    and "t = foldl commitLane (snd (publishInstalled config validated s))
      (fst (publishInstalled config validated s))"
proof -
  from assms(1) obtain validated where v: "validateAll (cfg_groups config) = Inr validated"
    and t: "t = foldl commitLane (snd (publishInstalled config validated s))
      (fst (publishInstalled config validated s))"
    by (auto simp: publishLaneConfiguration_def publishInstalled_def Let_def split: sum.splits)
  have "group_ok G \<and> group G \<noteq> ''''" if "G \<in> set validated" for G
    using validateAll_ok [OF v that] assms(2) by metis
  then show thesis using t by (rule that)
qed

lemma publishInstalled_wf:
  assumes "queue_wf X s" and "\<And>G. G \<in> set validated \<Longrightarrow> group_ok G \<and> group G \<noteq> ''''"
  shows "queue_wf X (snd (publishInstalled config validated s))"
  unfolding publishInstalled_def
  by (rule foldl_inv, rule foldl_inv, rule foldl_inv)
    (use assms in \<open>auto intro: publishLane_wf publishClear_wf publishGroup_wf\<close>)

lemma commitLane_wf: "queue_wf X s \<Longrightarrow> queue_wf X (commitLane s l)"
  by (simp add: commitLane_def drainReady_wf_None split: option.split)

lemma publish_wf:
  assumes "queue_wf X s" and "publishLaneConfiguration config s = Inr t"
    and "'''' \<notin> fst ` set (cfg_groups config)"
  shows "queue_wf X t"
proof (rule publish_cases [OF assms(2,3)])
  fix validated assume v: "\<And>G. G \<in> set validated \<Longrightarrow> group_ok G \<and> group G \<noteq> ''''"
    and t: "t = foldl commitLane (snd (publishInstalled config validated s))
      (fst (publishInstalled config validated s))"
  show "queue_wf X t"
    unfolding t by (rule foldl_inv) (auto intro: publishInstalled_wf [OF assms(1) v] commitLane_wf)
qed

section \<open>Runs of the queue\<close>

text \<open>
  One step per exported operation, with arbitrary arguments, and one per completion of a started
  task; \<open>tick\<close> is the passing of time. The publication of a configuration is apart from the other
  steps, as it alone changes groups; no configuration names a group by the empty string.
\<close>

inductive work_step :: "'t queue_state \<Rightarrow> 't queue_state \<Rightarrow> bool" where
  tick: "work_step s (s\<lparr>nowMs := now\<rparr>)"
| enqueue: "work_step s (snd (enqueueCommandInLane ctx adm l tsk opts s))"
| concurrency: "work_step s (setCommandLaneConcurrency l w s)"
| finish: "r \<in> set (running s) \<Longrightarrow> work_step s (finishTask r out s)"
| clear: "work_step s (snd (clearCommandLane l s))"
| reset: "work_step s (snd (resetCommandLane l s))"
| reset_all: "work_step s (snd (resetAllLanes adm s))"

inductive queue_step :: "'t queue_state \<Rightarrow> 't queue_state \<Rightarrow> bool" where
  work: "work_step s t \<Longrightarrow> queue_step s t"
| publish: "publishLaneConfiguration config s = Inr t \<Longrightarrow> '''' \<notin> fst ` set (cfg_groups config) \<Longrightarrow> queue_step s t"

definition queue_reachable :: "'t queue_state \<Rightarrow> bool" where
  "queue_reachable s \<longleftrightarrow> queue_step\<^sup>*\<^sup>* initialQueueState s"

lemma tick_wf: "queue_wf X (s\<lparr>nowMs := now\<rparr>) = queue_wf X s"
  by (simp add: queue_wf_def lanes_ok_def cells_ok_def slots_ok_def promises_ok_def current_ids_def
      queued_promises_def running_promises_def settled_promises_def)

lemma work_step_wf: "work_step s t \<Longrightarrow> queue_wf X s \<Longrightarrow> queue_wf X t"
  by (induction rule: work_step.induct)
    (simp_all add: tick_wf enqueueCommandInLane_wf setCommandLaneConcurrency_wf finishTask_wf
      clearCommandLane_wf resetCommandLane_wf resetAllLanes_wf)

lemma queue_step_wf: "queue_step s t \<Longrightarrow> queue_wf X s \<Longrightarrow> queue_wf X t"
  by (erule queue_step.cases) (blast intro: work_step_wf publish_wf)+

lemma reachable_wf: "queue_reachable s \<Longrightarrow> queue_wf {#} s"
  unfolding queue_reachable_def
  by (induction rule: rtranclp_induct) (auto intro: initial_wf queue_step_wf)

end
