(* ===== verification/CommandQueueProps.thy ===== *)
theory CommandQueueProps
  imports CommandQueueInv
begin

text \<open>
  Capacity and progress of the command queue: how each operation changes the active counts, the
  caps that every drain respects, the invariant that no admissible work is left waiting, and the
  queue's properties.
\<close>

section \<open>Active counts\<close>

abbreviation count_of :: "'t queue_state \<Rightarrow> string \<Rightarrow> int" where
  "count_of s m \<equiv> getMemberActiveCount m s"

lemma count_putLane:
  "a < length (heap s) \<Longrightarrow> count_of (putLane a st s) m =
     (if map_of (lanes s) m = Some a then int (length (activeTaskIds st)) else count_of s m)"
  by (auto simp: getMemberActiveCount_def laneAt_def split: option.splits)

lemma laneAt_putLane:
  "a < length (heap s) \<Longrightarrow> laneAt (putLane a st s) m = (if map_of (lanes s) m = Some a then Some st else laneAt s m)"
  by (cases "map_of (lanes s) m") (auto simp: laneAt_def)

lemma laneAt_get:
  assumes "queue_wf X s"
  shows "laneAt (snd (getLaneState l s)) m =
    (if m = l \<and> map_of (lanes s) l = None then Some (newLaneState l) else laneAt s m)"
proof (cases rule: getLaneState_cases [of s l])
  case 2
  show ?thesis
  proof (cases "map_of (lanes s) m")
    case None
    with 2 show ?thesis by (simp add: laneAt_def map_of_update_if)
  next
    case (Some b)
    with queue_wf_registered [OF assms] have "b < length (heap s)" by blast
    with 2 Some show ?thesis by (auto simp: laneAt_def map_of_update_if nth_append)
  qed
qed (simp add: laneAt_def)

lemma count_get: "queue_wf X s \<Longrightarrow> count_of (snd (getLaneState l s)) m = count_of s m"
  unfolding getMemberActiveCount_def laneAt_get by (simp add: laneAt_def)

lemma get_frame:
  "laneGroups (snd (getLaneState l s)) = laneGroups s"
  "laneGroupByLane (snd (getLaneState l s)) = laneGroupByLane s"
  "drainingGroups (snd (getLaneState l s)) = drainingGroups s"
  by (cases rule: getLaneState_cases [of s l]; simp)+

lemma laneAt_retire:
  "laneAt (retireIdleScopedCommandLane a s) m =
     (if lanes (retireIdleScopedCommandLane a s) \<noteq> lanes s \<and> m = lane (cell s a) then None else laneAt s m)"
proof (cases rule: retire_cases [of a s])
  case 2
  then have "AList.delete (lane (cell s a)) (lanes s) \<noteq> lanes s"
    by (metis map_of_delete_same option.distinct(1))
  with 2(1) show ?thesis by (simp add: laneAt_def)
qed simp

lemma retire_frame:
  "laneGroups (retireIdleScopedCommandLane a s) = laneGroups s"
  "laneGroupByLane (retireIdleScopedCommandLane a s) = laneGroupByLane s"
  "drainingGroups (retireIdleScopedCommandLane a s) = drainingGroups s"
  "heap (retireIdleScopedCommandLane a s) = heap s"
  by (cases rule: retire_cases [of a s]; simp)+

lemma count_retire: "count_of (retireIdleScopedCommandLane a s) m = count_of s m"
  by (cases rule: retire_cases [of a s])
    (auto simp: getMemberActiveCount_def laneAt_def map_of_delete_if split: option.splits)

text \<open>What starting the head entry of a registered lane does to every name.\<close>

lemma start_effect:
  assumes wf: "queue_wf X s" and l: "map_of (lanes s) l = Some a" and q: "queue_length (queue (cell s a)) > 0"
  shows "laneAt (startNext l a s) m = (if m = l
      then Some ((cell s a)\<lparr>queue := snd (dequeueLaneQueue (queue (cell s a))),
        activeTaskIds := activeTaskIds (cell s a) @ [nextTaskId s]\<rparr>) else laneAt s m)"
    and "count_of (startNext l a s) m = count_of s m + (if m = l then 1 else 0)"
    and "laneGroups (startNext l a s) = laneGroups s"
    and "laneGroupByLane (startNext l a s) = laneGroupByLane s"
    and "drainingGroups (startNext l a s) = drainingGroups s"
    and "lanes (startNext l a s) = lanes s"
    and "length (heap (startNext l a s)) = length (heap s)"
    and "draining (cell (startNext l a s) b) = draining (cell s b)"
    and "lane (cell (startNext l a s) b) = lane (cell s b)"
    and "queue_length (queue (cell (startNext l a s) a)) = queue_length (queue (cell s a)) - 1"
    and "totalQueued (startNext l a s) < totalQueued s"
proof -
  from queue_wf_registered [OF wf l] have a: "a < length (heap s)" "lane (cell s a) = l" by simp_all
  have uniq: "map_of (lanes s) m = Some a \<longleftrightarrow> m = l" for m
    using queue_wf_registered [OF wf, of m a] a l by auto
  obtain e d es where d: "dequeueLaneQueue (queue (cell s a)) = (Some e, d)"
    "queue_length d = queue_length (queue (cell s a)) - 1"
    and eq: "startNext l a s = s\<lparr>nextTaskId := nextTaskId s + 1,
       heap := (heap s)[a := (cell s a)\<lparr>queue := d, activeTaskIds := activeTaskIds (cell s a) @ [nextTaskId s]\<rparr>],
       running := running s @ [\<lparr>run_lane = l, run_state = a, run_entry = e,
          run_taskId = nextTaskId s, run_generation = generation (cell s a)\<rparr>],
       queueEffects := queueEffects s @ es @ [TaskStarted l (nextTaskId s) (generation (cell s a))]\<rparr>"
    by (rule startNext_eq [OF queue_wf_cell [OF wf a(1)] q fresh_task_id(1) [OF wf a(1)], of l])
  show at: "laneAt (startNext l a s) m = (if m = l
      then Some ((cell s a)\<lparr>queue := snd (dequeueLaneQueue (queue (cell s a))),
        activeTaskIds := activeTaskIds (cell s a) @ [nextTaskId s]\<rparr>) else laneAt s m)" for m
    using a(1) l uniq [of m] by (cases "map_of (lanes s) m") (auto simp: eq d laneAt_def)
  show "count_of (startNext l a s) m = count_of s m + (if m = l then 1 else 0)"
    using l by (simp add: getMemberActiveCount_def at laneAt_cell)
  show "laneGroups (startNext l a s) = laneGroups s"
    "laneGroupByLane (startNext l a s) = laneGroupByLane s"
    "drainingGroups (startNext l a s) = drainingGroups s" "lanes (startNext l a s) = lanes s"
    "length (heap (startNext l a s)) = length (heap s)" by (simp_all add: eq)
  show "draining (cell (startNext l a s) b) = draining (cell s b)"
    "lane (cell (startNext l a s) b) = lane (cell s b)"
    using a(1) by (cases "b = a"; simp add: eq)+
  show "queue_length (queue (cell (startNext l a s) a)) = queue_length (queue (cell s a)) - 1"
    using a(1) by (simp add: eq d)
  have "queue_length (queue (cell s a)) \<le> totalQueued s"
    unfolding totalQueued_def using a(1) by (intro member_le_sum_list) simp_all
  then have "totalQueued (startNext l a s) + queue_length (queue (cell s a)) = totalQueued s + queue_length d"
    unfolding totalQueued_def eq using a(1) by (simp add: map_update sum_list_update)
  with d(2) q show "totalQueued (startNext l a s) < totalQueued s" by simp
qed

lemma count_flag:
  "a < length (heap s) \<Longrightarrow> count_of (putLane a ((cell s a)\<lparr>draining := b\<rparr>) s) m = count_of s m"
  by (cases "map_of (lanes s) m = Some a") (simp_all add: count_putLane, simp add: getMemberActiveCount_def laneAt_cell)

lemma laneAt_drainingGroups: "laneAt (s\<lparr>drainingGroups := gs\<rparr>) m = laneAt s m"
  by (simp add: laneAt_def)

lemma count_drainingGroups: "count_of (s\<lparr>drainingGroups := gs\<rparr>) m = count_of s m"
  by (simp add: getMemberActiveCount_def laneAt_drainingGroups)

section \<open>Caps\<close>

lemma groupActive_mono:
  "(\<And>m. m \<in> set (members g) \<Longrightarrow> count_of s m \<le> count_of t m) \<Longrightarrow> groupActive g s \<le> groupActive g t"
  unfolding groupActive_def by (intro sum_list_mono)

lemma groupClaim_mono:
  "(\<And>m. m \<in> set (members g) \<Longrightarrow> count_of s m \<le> count_of t m) \<Longrightarrow> groupClaim g s \<le> groupClaim g t"
  unfolding groupClaim_def by (intro sum_list_mono) (metis max.mono order_refl)

lemma groupActive_cong: "(\<And>m. count_of s m = count_of t m) \<Longrightarrow> groupActive g s = groupActive g t"
  by (simp add: groupActive_def)

lemma groupClaim_cong: "(\<And>m. count_of s m = count_of t m) \<Longrightarrow> groupClaim g s = groupClaim g t"
  by (simp add: groupClaim_def)

text \<open>
  Relative to an earlier state \<open>s0\<close>: no lane is above its width and no group above its budget,
  unless it was already that high in \<open>s0\<close>.
\<close>

definition lanes_capped :: "'t queue_state \<Rightarrow> 't queue_state \<Rightarrow> bool" where
  "lanes_capped s0 s \<longleftrightarrow> (\<forall>l st. laneAt s l = Some st \<longrightarrow>
     count_of s l \<le> max (maxConcurrent st) (count_of s0 l))"

definition groups_capped :: "'t queue_state \<Rightarrow> 't queue_state \<Rightarrow> bool" where
  "groups_capped s0 s \<longleftrightarrow> (\<forall>n g. map_of (laneGroups s) n = Some g \<longrightarrow>
     groupActive g s \<le> max (budget g) (groupActive g s0))"

definition claims_ok :: "'t queue_state \<Rightarrow> bool" where
  "claims_ok s \<longleftrightarrow> (\<forall>n g. map_of (laneGroups s) n = Some g \<longrightarrow> groupClaim g s \<le> budget g)"

definition capped :: "'t queue_state \<Rightarrow> nat multiset \<Rightarrow> 't queue_state \<Rightarrow> bool" where
  "capped s0 X s \<longleftrightarrow> queue_wf X s \<and> lanes_capped s0 s \<and> groups_capped s0 s"

lemma group_member_owner:
  assumes "queue_wf X s" and "map_of (laneGroups s) n = Some g" and "l \<in> set (members g)"
  shows "getLaneGroup l s = Some g" and "distinct (members g)"
proof -
  from assms(1) have r: "registry_ok (laneGroups s) (laneGroupByLane s)" by (simp add: queue_wf_def)
  with assms(2) have "group g = n" "group_ok g" by (auto simp: registry_ok_def)
  with assms(2,3) show "getLaneGroup l s = Some g" "distinct (members g)"
    by (simp_all add: getLaneGroup_iff [OF r] group_ok_def)
qed

lemma capped_start:
  assumes c: "capped s0 X s" and l: "map_of (lanes s) l = Some a" and q: "queue_length (queue (cell s a)) > 0"
    and full: "int (length (activeTaskIds (cell s a))) < maxConcurrent (cell s a)"
    and adm: "resolveLaneBlockReason l s = None"
  shows "capped s0 X (startNext l a s)"
proof -
  from c have wf: "queue_wf X s" by (simp add: capped_def)
  note eff = start_effect [OF wf l q]
  have "lanes_capped s0 (startNext l a s)"
    unfolding lanes_capped_def
  proof (intro allI impI)
    fix m st assume "laneAt (startNext l a s) m = Some st"
    then show "count_of (startNext l a s) m \<le> max (maxConcurrent st) (count_of s0 m)"
      using c full l unfolding eff(1,2)
      by (cases "m = l") (auto simp: capped_def lanes_capped_def getMemberActiveCount_def laneAt_cell)
  qed
  moreover have "groups_capped s0 (startNext l a s)"
    unfolding groups_capped_def eff(3)
  proof (intro allI impI)
    fix n g assume g: "map_of (laneGroups s) n = Some g"
    show "groupActive g (startNext l a s) \<le> max (budget g) (groupActive g s0)"
    proof (cases "l \<in> set (members g)")
      case True
      note o = group_member_owner [OF wf g True]
      have "groupActive g (startNext l a s) \<le> budget g"
        by (rule admission_keeps_active [OF adm o(1) o(2) True]) (simp add: eff(2))
      then show ?thesis by simp
    next
      case False
      then have "groupActive g (startNext l a s) = groupActive g s"
        unfolding groupActive_def by (intro arg_cong [where f = sum_list] map_cong) (auto simp: eff(2))
      with c g show ?thesis by (simp add: capped_def groups_capped_def)
    qed
  qed
  moreover have "queue_wf X (startNext l a s)"
    using startNext_wf [OF wf _ l q] queue_wf_registered [OF wf l] by simp
  ultimately show ?thesis by (simp add: capped_def)
qed

lemma claims_start:
  assumes c: "claims_ok s" and wf: "queue_wf X s" and l: "map_of (lanes s) l = Some a"
    and q: "queue_length (queue (cell s a)) > 0" and adm: "resolveLaneBlockReason l s = None"
  shows "claims_ok (startNext l a s)"
  unfolding claims_ok_def start_effect(3) [OF wf l q]
proof (intro allI impI)
  fix n g assume g: "map_of (laneGroups s) n = Some g"
  with c have le: "groupClaim g s \<le> budget g" by (simp add: claims_ok_def)
  show "groupClaim g (startNext l a s) \<le> budget g"
  proof (cases "l \<in> set (members g)")
    case True
    note o = group_member_owner [OF wf g True]
    show ?thesis
      by (rule admission_keeps_claim [OF adm o(1) o(2) True _ le]) (simp add: start_effect(2) [OF wf l q])
  next
    case False
    then have "groupClaim g (startNext l a s) = groupClaim g s"
      unfolding groupClaim_def
      by (intro arg_cong [where f = sum_list] map_cong) (auto simp: start_effect(2) [OF wf l q])
    with le show ?thesis by simp
  qed
qed

lemma capped_frame:
  assumes "capped s0 X s" and "queue_wf X t" and "\<And>m. count_of t m = count_of s m"
    and "laneGroups t = laneGroups s"
    and "\<And>m st. laneAt t m = Some st \<Longrightarrow> count_of t m \<noteq> 0 \<Longrightarrow>
      \<exists>st'. laneAt s m = Some st' \<and> maxConcurrent st' = maxConcurrent st"
  shows "capped s0 X t"
proof -
  have "lanes_capped s0 t"
    unfolding lanes_capped_def
  proof (intro allI impI)
    fix m st assume st: "laneAt t m = Some st"
    show "count_of t m \<le> max (maxConcurrent st) (count_of s0 m)"
    proof (cases "count_of t m = 0")
      case True
      then show ?thesis using getMemberActiveCount_nonneg [of m s0] by simp
    next
      case False
      with assms(5) [OF st] obtain st' where "laneAt s m = Some st'" "maxConcurrent st' = maxConcurrent st" by auto
      moreover have "count_of s m \<le> max (maxConcurrent st') (count_of s0 m)"
        using assms(1) calculation(1) unfolding capped_def lanes_capped_def by blast
      ultimately show ?thesis using assms(3) by simp
    qed
  qed
  moreover have "groupActive g t = groupActive g s" for g by (rule groupActive_cong) (rule assms(3))
  ultimately show ?thesis using assms(1,2,4) by (simp add: capped_def groups_capped_def)
qed

lemma claims_frame:
  "claims_ok s \<Longrightarrow> (\<And>m. count_of t m \<le> count_of s m) \<Longrightarrow> laneGroups t = laneGroups s \<Longrightarrow> claims_ok t"
  unfolding claims_ok_def by (metis groupClaim_mono order_trans)

lemma capped_init:
  assumes "queue_wf X s" and le: "\<And>m. count_of s m \<le> count_of s0 m"
  shows "capped s0 X s"
proof -
  have "groupActive g s \<le> groupActive g s0" for g by (rule groupActive_mono) (rule le)
  with assms show ?thesis
    by (auto simp: capped_def lanes_capped_def groups_capped_def intro: max.coboundedI2)
qed

interpretation capped_drain: drain_rule X "capped s0 X" "\<lambda>_. True" for s0 X
proof
  fix s :: "'a queue_state" and l a b gs
  assume c: "capped s0 X s"
  then show wf: "queue_wf X s" by (simp add: capped_def)
  show "capped s0 X (snd (getLaneState l s))"
  proof (rule capped_frame [OF c getLaneState_wf(1) [OF wf]])
    fix m st assume st: "laneAt (snd (getLaneState l s)) m = Some st" "count_of (snd (getLaneState l s)) m \<noteq> 0"
    have old: "\<not> (m = l \<and> map_of (lanes s) l = None)"
      using st(2) unfolding count_get [OF wf]
      by (auto simp: getMemberActiveCount_def laneAt_def split: option.splits)
    show "\<exists>st'. laneAt s m = Some st' \<and> maxConcurrent st' = maxConcurrent st"
      using st(1) unfolding laneAt_get [OF wf] if_not_P [OF old] by simp
  qed (simp_all add: count_get [OF wf] get_frame)
  show "a < length (heap s) \<Longrightarrow> capped s0 X (putLane a ((cell s a)\<lparr>draining := b\<rparr>) s)"
    by (rule capped_frame [OF c flag_wf [OF wf]])
      (auto simp: count_flag laneAt_putLane laneAt_cell split: if_splits)
  show "capped s0 X (retireIdleScopedCommandLane a s)"
    by (rule capped_frame [OF c retire_wf [OF wf]])
      (auto simp: count_retire retire_frame laneAt_retire split: if_splits)
  show "capped s0 X (s\<lparr>drainingGroups := gs\<rparr>)"
    by (rule capped_frame [OF c]) (simp_all add: wf drainingGroups_wf count_drainingGroups laneAt_drainingGroups)
next
  fix s :: "'a queue_state" and l a
  assume "capped s0 X s" "map_of (lanes s) l = Some a" "0 < queue_length (queue (cell s a))"
    "int (length (activeTaskIds (cell s a))) < maxConcurrent (cell s a)" "resolveLaneBlockReason l s = None"
  then show "capped s0 X (startNext l a s)" by (rule capped_start)
qed

interpretation claims_drain: drain_rule X "\<lambda>s. queue_wf X s \<and> claims_ok s" "\<lambda>_. True" for X
proof
  fix s :: "'a queue_state" and l a b gs
  assume c: "queue_wf X s \<and> claims_ok s"
  then show wf: "queue_wf X s" by simp
  from c have cl: "claims_ok s" by simp
  show "queue_wf X (snd (getLaneState l s)) \<and> claims_ok (snd (getLaneState l s))"
    using getLaneState_wf(1) [OF wf] by (auto intro: claims_frame [OF cl] simp: count_get [OF wf] get_frame)
  show "a < length (heap s) \<Longrightarrow> queue_wf X (putLane a ((cell s a)\<lparr>draining := b\<rparr>) s) \<and>
      claims_ok (putLane a ((cell s a)\<lparr>draining := b\<rparr>) s)"
    using flag_wf [OF wf] by (auto intro: claims_frame [OF cl] simp: count_flag)
  show "queue_wf X (retireIdleScopedCommandLane a s) \<and> claims_ok (retireIdleScopedCommandLane a s)"
    using retire_wf [OF wf] by (auto intro: claims_frame [OF cl] simp: count_retire retire_frame)
  show "queue_wf X (s\<lparr>drainingGroups := gs\<rparr>) \<and> claims_ok (s\<lparr>drainingGroups := gs\<rparr>)"
    using wf by (auto intro: claims_frame [OF cl] simp: drainingGroups_wf count_drainingGroups)
next
  fix s :: "'a queue_state" and l a
  assume "queue_wf X s \<and> claims_ok s" and l: "map_of (lanes s) l = Some a"
    and q: "0 < queue_length (queue (cell s a))" and adm: "resolveLaneBlockReason l s = None"
  then have wf: "queue_wf X s" and c: "claims_ok s" by simp_all
  from queue_wf_registered [OF wf l] have "a < length (heap s)" by simp
  with startNext_wf [OF wf _ l q] claims_start [OF c wf l q adm]
  show "queue_wf X (startNext l a s) \<and> claims_ok (startNext l a s)" by simp
qed

section \<open>Counts outside the drains\<close>

lemma count_release: "r \<in> set (running s) \<Longrightarrow> queue_wf X s \<Longrightarrow> count_of (snd (releaseTask r s)) m \<le> count_of s m"
  by (cases "map_of (lanes s) m")
    (auto simp: releaseTask_def completeTask_def Let_def getMemberActiveCount_def laneAt_def nth_list_update
      queue_wf_def slots_ok_def)

lemma release_frame:
  "laneGroups (snd (releaseTask r s)) = laneGroups s" "lanes (snd (releaseTask r s)) = lanes s"
  "laneGroupByLane (snd (releaseTask r s)) = laneGroupByLane s"
  "drainingGroups (snd (releaseTask r s)) = drainingGroups s"
  by (simp_all add: releaseTask_def completeTask_def Let_def)

lemma laneAt_enqueueEntry:
  "a < length (heap s) \<Longrightarrow> laneAt (enqueueLaneEntry a e s) m =
     (if map_of (lanes s) m = Some a
      then Some ((cell s a)\<lparr>queue := queue (cell (enqueueLaneEntry a e s) a)\<rparr>) else laneAt s m)"
  by (simp add: enqueueLaneEntry_def Let_def laneAt_putLane)

lemma count_enqueueEntry: "a < length (heap s) \<Longrightarrow> count_of (enqueueLaneEntry a e s) m = count_of s m"
  unfolding getMemberActiveCount_def laneAt_enqueueEntry by (simp add: laneAt_cell)

lemma count_reset: "a < length (heap s) \<Longrightarrow> count_of (putLane a (resetLaneState (cell s a)) s) m \<le> count_of s m"
  by (simp add: count_putLane resetLaneState_def getMemberActiveCount_nonneg)

lemma count_reset_all:
  "(\<forall>(l, a) \<in> set ls. a < length (heap s)) \<Longrightarrow>
   count_of (foldl (\<lambda>s (_, a). putLane a (resetLaneState (cell s a)) s) s ls) m \<le> count_of s m"
proof (induction ls arbitrary: s)
  case (Cons p ls)
  obtain l a where p: "p = (l, a)" by (cases p)
  have "count_of (foldl (\<lambda>s (_, a). putLane a (resetLaneState (cell s a)) s) (putLane a (resetLaneState (cell s a)) s) ls) m
      \<le> count_of (putLane a (resetLaneState (cell s a)) s) m"
    using Cons.prems by (intro Cons.IH) auto
  also have "\<dots> \<le> count_of s m" using Cons.prems by (intro count_reset) (simp add: p)
  finally show ?case by (simp add: p)
qed simp

lemma reset_all_frame:
  "laneGroups (foldl (\<lambda>s (_, a). putLane a (resetLaneState (cell s a)) s) s ls) = laneGroups s"
  "lanes (foldl (\<lambda>s (_, a). putLane a (resetLaneState (cell s a)) s) s ls) = lanes s"
  "laneGroupByLane (foldl (\<lambda>s (_, a). putLane a (resetLaneState (cell s a)) s) s ls) = laneGroupByLane s"
  "drainingGroups (foldl (\<lambda>s (_, a). putLane a (resetLaneState (cell s a)) s) s ls) = drainingGroups s"
  by (induction ls arbitrary: s) auto

lemma clearLoop_frame:
  "a < length (heap s) \<Longrightarrow> count_of (clearLoop fuel l a s) m = count_of s m \<and>
   laneGroups (clearLoop fuel l a s) = laneGroups s \<and> lanes (clearLoop fuel l a s) = lanes s \<and>
   laneGroupByLane (clearLoop fuel l a s) = laneGroupByLane s \<and>
   drainingGroups (clearLoop fuel l a s) = drainingGroups s"
proof (induction fuel arbitrary: s)
  case (Suc fuel)
  have "count_of (putLane a ((cell s a)\<lparr>queue := q\<rparr>) s\<lparr>queueEffects := es\<rparr>) m = count_of s m" for q es
  proof -
    have "count_of (putLane a ((cell s a)\<lparr>queue := q\<rparr>) s) m = count_of s m"
      unfolding count_putLane [OF Suc.prems] by (simp add: getMemberActiveCount_def laneAt_cell)
    then show ?thesis by (simp add: getMemberActiveCount_def laneAt_def)
  qed
  with Suc show ?case by (simp add: Let_def split_beta split: option.split)
qed simp

lemma width_frame:
  assumes "queue_wf X s"
  shows "count_of (setLaneWidth l w s) m = count_of s m" and "laneGroups (setLaneWidth l w s) = laneGroups s"
    and "laneGroupByLane (setLaneWidth l w s) = laneGroupByLane s"
    and "drainingGroups (setLaneWidth l w s) = drainingGroups s"
proof -
  obtain a s1 where g: "getLaneState l s = (a, s1)" by (cases rule: prod.exhaust)
  note n = getLaneState_wf [OF assms, of l, unfolded g fst_conv snd_conv]
  have "count_of (putLane a ((cell s1 a)\<lparr>maxConcurrent := k\<rparr>) s1) m = count_of s1 m" for k
    using n(3) by (simp add: count_putLane) (simp add: getMemberActiveCount_def laneAt_cell)
  with count_get [OF assms, where l = l and m = m] g show "count_of (setLaneWidth l w s) m = count_of s m"
    by (simp add: setLaneWidth_def)
  show "laneGroups (setLaneWidth l w s) = laneGroups s"
    "laneGroupByLane (setLaneWidth l w s) = laneGroupByLane s"
    "drainingGroups (setLaneWidth l w s) = drainingGroups s"
    using get_frame [of l s] g by (simp_all add: setLaneWidth_def)
qed

lemma count_groups: "count_of (s\<lparr>laneGroups := gs, laneGroupByLane := byLane\<rparr>) m = count_of s m"
  by (simp add: getMemberActiveCount_def laneAt_def)

lemma count_effects: "count_of (s\<lparr>queueEffects := es\<rparr>) m = count_of s m"
  by (simp add: getMemberActiveCount_def laneAt_def)

lemma count_install: "count_of (installCommandLaneGroup nxt s) m = count_of s m"
  by (subst install_frame) (rule count_groups)

lemma count_publishInstalled:
  assumes wf: "queue_wf X s" and "\<And>G. G \<in> set validated \<Longrightarrow> group_ok G \<and> group G \<noteq> ''''"
  shows "count_of (snd (publishInstalled config validated s)) m = count_of s m"
proof -
  let ?Q = "\<lambda>acc. queue_wf X (snd acc) \<and> count_of (snd acc) m = count_of s m"
  have lane: "?Q acc \<Longrightarrow> ?Q (publishLane acc cfg)" for acc :: "string list \<times> 'a queue_state" and cfg
    by (simp add: publishLane_def Let_def setLaneWidth_wf width_frame(1) [of X])
  have clear: "?Q acc \<Longrightarrow> ?Q (publishClear acc g)" for acc :: "string list \<times> 'a queue_state" and g
    using publishClear_wf [of X acc g] by (auto simp: publishClear_def count_groups split: option.splits)
  have grp: "?Q acc \<Longrightarrow> G \<in> set validated \<Longrightarrow> ?Q (publishGroup acc G)"
    for acc :: "string list \<times> 'a queue_state" and G
    using publishGroup_wf [of X acc G] assms(2) by (simp add: publishGroup_def Let_def count_install)
  have "?Q (publishInstalled config validated s)"
    unfolding publishInstalled_def
    by (rule foldl_inv, rule foldl_inv, rule foldl_inv)
      (use wf lane clear grp in simp_all)
  then show ?thesis by simp
qed

section \<open>Every step respects the caps\<close>

text \<open>
  Every step other than a publication is, up to effects and the clock, some bookkeeping that starts
  nothing followed by drains; a property that the bookkeeping and the drains keep is kept by it.
\<close>

lemma work_step_phases:
  fixes s t :: "'t queue_state" and Q :: "nat multiset \<Rightarrow> 't queue_state \<Rightarrow> bool"
  assumes step: "work_step s t" and wf: "queue_wf X s"
    and book: "\<And>Y u. queue_wf Y u \<Longrightarrow> (\<And>m. count_of u m \<le> count_of s m) \<Longrightarrow>
      laneGroups u = laneGroups s \<Longrightarrow> Q Y u"
    and drain: "\<And>Y u l c. Q Y u \<Longrightarrow> queue_wf Y u \<Longrightarrow>
      (\<And>a. c = Some a \<Longrightarrow> a < length (heap u) \<and> lane (cell u a) = l) \<Longrightarrow> Q Y (drainReadyCommandLane l c u)"
    and settle: "\<And>p Y u out. Q (add_mset p Y) u \<Longrightarrow> Q Y (u\<lparr>queueEffects := queueEffects u @ [Settled p out]\<rparr>)"
  shows "Q X t"
proof -
  have base: "Q X s" by (rule book [OF wf]) simp_all
  from step show ?thesis
proof cases
  case (tick now)
  then show ?thesis using wf by (intro book) (auto simp: tick_wf getMemberActiveCount_def laneAt_def)
next
  case (enqueue ctx adm l tsk opts)
  show ?thesis
  proof (cases "isGatewaySubordinateWorkAdmissionClosed ctx adm")
    case True
    then show ?thesis unfolding enqueue using base by (simp add: enqueueCommandInLane_def)
  next
    case False
    obtain a s1 where g: "getLaneState (normalizeLane l) s = (a, s1)" by (cases rule: prod.exhaust)
    note n = getLaneState_wf [OF wf, of "normalizeLane l", unfolded g fst_conv snd_conv]
    let ?s2 = "s1\<lparr>nextQueueSequence := nextQueueSequence s1 + 1\<rparr>"
    have reg: "map_of (lanes ?s2) (normalizeLane l) = Some a" using n(2) by simp
    have al: "a < length (heap ?s2)" using n(3) by simp
    have cnt: "count_of (enqueueLaneEntry a e ?s2) m = count_of s m" for e m
    proof -
      have "count_of ?s2 m = count_of s1 m" by (simp add: getMemberActiveCount_def laneAt_def)
      with count_enqueueEntry [OF al, where e = e and m = m] count_get [OF wf, where l = "normalizeLane l" and m = m] g
      show ?thesis by simp
    qed
    have grp: "laneGroups (enqueueLaneEntry a e ?s2) = laneGroups s" for e
      using get_frame(1) [of "normalizeLane l" s] g by (simp add: enqueueLaneEntry_def Let_def)
    have w: "promise e = nextQueueSequence s1 \<Longrightarrow> queue_wf X (enqueueLaneEntry a e ?s2)" for e
      using sequence_wf [OF n(1)] by (intro enqueueLaneEntry_wf [OF _ reg]) simp
    show ?thesis
      unfolding enqueue enqueueCommandInLane_def g Let_def split_conv if_not_P [OF False] snd_conv
      by (intro drain book w) (simp_all only: cnt grp order_refl, simp_all add: w)
  qed
next
  case (concurrency l w)
  obtain a s2 where g: "getLaneState (normalizeLane l) (setLaneWidth (normalizeLane l) w s) = (a, s2)"
    by (cases rule: prod.exhaust)
  have "Q X (setLaneWidth (normalizeLane l) w s)"
    using wf by (intro book) (simp_all add: setLaneWidth_wf width_frame [OF wf])
  then show ?thesis
    unfolding concurrency setCommandLaneConcurrency_def Let_def g split_conv
    using wf by (auto intro: drain setLaneWidth_wf)
next
  case (finish r out)
  note rel = release_wf [OF wf finish(2)]
  let ?u = "snd (releaseTask r s)"
  have "Q (add_mset (promise (run_entry r)) X) ?u"
    by (rule book [OF rel(1)]) (simp_all add: count_release [OF finish(2) wf] release_frame)
  moreover from this have "Q (add_mset (promise (run_entry r)) X)
      (drainReadyCommandLane (run_lane r) (Some (run_state r)) ?u)"
    by (rule drain [OF _ rel(1)]) (use rel(2,3) in auto)
  ultimately show ?thesis
    unfolding finish(1) finishTask_release by (auto simp: Let_def split_beta intro: settle)
next
  case (clear l)
  show ?thesis
  proof (cases "map_of (lanes s) (normalizeLane l)")
    case (Some a)
    then have "a < length (heap s)" using queue_wf_registered [OF wf] by blast
    from clearLoop_frame [OF this] Some have "count_of t m = count_of s m" "laneGroups t = laneGroups s" for m
      unfolding clear by (simp_all add: clearCommandLane_def Let_def)
    then show ?thesis using clearCommandLane_wf [OF wf] by (intro book) (simp_all add: clear)
  qed (use base in \<open>simp add: clear clearCommandLane_def\<close>)
next
  case (reset l)
  show ?thesis
  proof (cases "map_of (lanes s) (normalizeLane l)")
    case (Some a)
    then have a: "a < length (heap s)" using queue_wf_registered [OF wf] by blast
    have w: "queue_wf X (putLane a (resetLaneState (cell s a)) s)" by (rule reset_cell_wf [OF wf a])
    moreover have "Q X (putLane a (resetLaneState (cell s a)) s)"
      by (rule book [OF w]) (simp_all add: count_reset [OF a] del: putLane_simps(10))
    ultimately show ?thesis
      unfolding reset by (auto simp: resetCommandLane_def Some Let_def intro: drain)
  qed (use base in \<open>simp add: reset resetCommandLane_def\<close>)
next
  case (reset_all adm)
  let ?u = "foldl (\<lambda>s (_, a). putLane a (resetLaneState (cell s a)) s) s (lanes s)"
  have ls: "\<forall>(l, a) \<in> set (lanes s). a < length (heap s)" using lanes_addresses [OF wf] by auto
  have w: "queue_wf X ?u" by (rule reset_cells_wf [OF wf ls])
  have "Q X ?u" by (rule book [OF w]) (simp_all add: count_reset_all [OF ls] reset_all_frame)
  with w have start: "Q X ?u \<and> queue_wf X ?u" by simp
  have "Q X (foldl (\<lambda>s l. drainReadyCommandLane l None s) ?u ls) \<and>
      queue_wf X (foldl (\<lambda>s l. drainReadyCommandLane l None s) ?u ls)" for ls
  proof (rule foldl_inv [of "\<lambda>u. Q X u \<and> queue_wf X u", OF start])
    fix u :: "'t queue_state" and l assume u: "Q X u \<and> queue_wf X u"
    show "Q X (drainReadyCommandLane l None u) \<and> queue_wf X (drainReadyCommandLane l None u)"
      using drain [of X u None l] drainReady_wf_None [of X u l] u by simp
  qed
  then show ?thesis unfolding reset_all resetAllLanes_def Let_def by simp
qed
qed

lemma work_step_capped: "work_step s t \<Longrightarrow> queue_wf X s \<Longrightarrow> capped s X t"
proof (erule work_step_phases [where Q = "capped s"])
  fix p Y and u :: "'a queue_state" and out
  assume c: "capped s (add_mset p Y) u"
  then have "queue_wf Y (u\<lparr>queueEffects := queueEffects u @ [Settled p out]\<rparr>)"
    by (simp add: capped_def settle_wf)
  with c show "capped s Y (u\<lparr>queueEffects := queueEffects u @ [Settled p out]\<rparr>)"
    by (simp add: capped_def lanes_capped_def groups_capped_def laneAt_def groupActive_def getMemberActiveCount_def)
qed (auto intro: capped_init capped_drain.P_ready)

lemma publish_capped:
  assumes wf: "queue_wf X s" and p: "publishLaneConfiguration config s = Inr t"
    and ne: "'''' \<notin> fst ` set (cfg_groups config)"
  shows "capped s X t"
proof (rule publish_cases [OF p ne])
  fix validated assume v: "\<And>G. G \<in> set validated \<Longrightarrow> group_ok G \<and> group G \<noteq> ''''"
    and t: "t = foldl commitLane (snd (publishInstalled config validated s))
      (fst (publishInstalled config validated s))"
  have "capped s X (snd (publishInstalled config validated s))"
    by (rule capped_init [OF publishInstalled_wf [OF wf v]]) (simp_all add: count_publishInstalled [OF wf v])
  then show "capped s X t"
    unfolding t
    by (rule foldl_inv) (auto simp: commitLane_def intro: capped_drain.P_ready split: option.split)
qed

lemma queue_step_capped: "queue_step s t \<Longrightarrow> queue_wf X s \<Longrightarrow> capped s X t"
  by (auto elim!: queue_step.cases intro: work_step_capped publish_capped)

lemma work_step_claims: "work_step s t \<Longrightarrow> queue_wf X s \<Longrightarrow> claims_ok s \<Longrightarrow> claims_ok t"
proof -
  assume st: "work_step s t" and wf: "queue_wf X s" and c: "claims_ok s"
  have "(\<lambda>Y u. queue_wf Y u \<and> claims_ok u) X t"
  proof (rule work_step_phases [OF st wf])
    fix Y and u :: "'a queue_state"
    assume "queue_wf Y u" "\<And>m. count_of u m \<le> count_of s m" "laneGroups u = laneGroups s"
    with claims_frame [OF c, of u] show "queue_wf Y u \<and> claims_ok u" by simp
  next
    fix Y and u :: "'a queue_state" and p out
    assume "queue_wf (add_mset p Y) u \<and> claims_ok u"
    then show "queue_wf Y (u\<lparr>queueEffects := queueEffects u @ [Settled p out]\<rparr>) \<and>
        claims_ok (u\<lparr>queueEffects := queueEffects u @ [Settled p out]\<rparr>)"
      by (simp add: settle_wf claims_ok_def groupClaim_def getMemberActiveCount_def laneAt_def)
  qed (rule claims_drain.P_ready, auto)
  then show "claims_ok t" by simp
qed

end
