(* ===== verification/CommandQueueProgress.thy ===== *)
theory CommandQueueProgress
  imports CommandQueueProps
begin

text \<open>
  Work conservation of the command queue: in every state between two operations each lane with
  queued work has a reason not to start it, the reason \<open>resolveLaneBlockReason\<close> reports. Then the
  properties of the queue.
\<close>

section \<open>Blocked lanes\<close>

definition blocked :: "string \<Rightarrow> 't queue_state \<Rightarrow> bool" where
  "blocked m s \<longleftrightarrow> (\<forall>st. laneAt s m = Some st \<longrightarrow> queue_length (queue st) > 0 \<longrightarrow>
     resolveLaneBlockReason m s \<noteq> None)"

definition lane_full :: "string \<Rightarrow> 't queue_state \<Rightarrow> bool" where
  "lane_full m s \<longleftrightarrow> (case laneAt s m of
     Some st \<Rightarrow> int (length (activeTaskIds st)) \<ge> maxConcurrent st | None \<Rightarrow> False)"

text \<open>What the group has taken or must keep for the others, seen from one member.\<close>

lemma group_total:
  "groupActive g s + heldBack m g s =
     (\<Sum>x\<leftarrow>members g. if x \<noteq> m then max (count_of s x) (reservedFor g x) else count_of s x)"
  unfolding groupActive_def heldBack_def sum_list_addf [symmetric]
  by (intro arg_cong [where f = sum_list] map_cong) auto

lemma group_total_mono:
  assumes "\<And>x. x \<in> set (members g) \<Longrightarrow> count_of s x \<le> count_of t x"
  shows "groupActive g s + heldBack m g s \<le> groupActive g t + heldBack m g t"
  unfolding group_total
proof (rule sum_list_mono)
  fix x assume "x \<in> set (members g)"
  with assms have "count_of s x \<le> count_of t x" .
  then show "(if x \<noteq> m then max (count_of s x) (reservedFor g x) else count_of s x)
      \<le> (if x \<noteq> m then max (count_of t x) (reservedFor g x) else count_of t x)" by auto
qed

lemma resolve_None_iff:
  "resolveLaneBlockReason m s = None \<longleftrightarrow> \<not> lane_full m s \<and>
     (case getLaneGroup m s of None \<Rightarrow> True
      | Some g \<Rightarrow> groupActive g s < budget g \<and>
          (count_of s m < reservedFor g m \<or> groupActive g s + heldBack m g s < budget g))"
  by (auto simp: resolveLaneBlockReason_def lane_full_def groupLoad_eq split: option.splits)

text \<open>More activity elsewhere in the group never unblocks a lane.\<close>

lemma resolve_mono:
  assumes grp: "getLaneGroup m t = getLaneGroup m s"
    and full: "lane_full m s \<Longrightarrow> lane_full m t"
    and cnt: "\<And>g x. getLaneGroup m s = Some g \<Longrightarrow> x \<in> set (members g) \<Longrightarrow> count_of s x \<le> count_of t x"
    and own: "count_of t m = count_of s m"
    and free: "resolveLaneBlockReason m t = None"
  shows "resolveLaneBlockReason m s = None"
proof (cases "getLaneGroup m s")
  case None
  with grp full free show ?thesis by (auto simp: resolve_None_iff)
next
  case (Some g)
  have "groupActive g s \<le> groupActive g t" by (rule groupActive_mono) (rule cnt [OF Some])
  moreover have "groupActive g s + heldBack m g s \<le> groupActive g t + heldBack m g t"
    by (rule group_total_mono) (rule cnt [OF Some])
  ultimately show ?thesis using Some grp full free own by (auto simp: resolve_None_iff)
qed

lemma getLaneGroup_cong:
  "laneGroups t = laneGroups s \<Longrightarrow> laneGroupByLane t = laneGroupByLane s \<Longrightarrow> getLaneGroup m t = getLaneGroup m s"
  by (cases "map_of (laneGroupByLane s) m") (simp_all add: getLaneGroup_def)

lemma blocked_frame:
  assumes "blocked m s"
    and "\<And>st. laneAt t m = Some st \<Longrightarrow> queue_length (queue st) > 0 \<Longrightarrow>
      \<exists>st'. laneAt s m = Some st' \<and> queue_length (queue st') > 0 \<and>
        (int (length (activeTaskIds st')) \<ge> maxConcurrent st' \<longrightarrow>
         int (length (activeTaskIds st)) \<ge> maxConcurrent st)"
    and "\<And>x. count_of t x = count_of s x"
    and "getLaneGroup m t = getLaneGroup m s"
  shows "blocked m t"
  unfolding blocked_def
proof (intro allI impI notI)
  fix st assume st: "laneAt t m = Some st" "queue_length (queue st) > 0"
    and free: "resolveLaneBlockReason m t = None"
  from assms(2) [OF st] obtain st' where st': "laneAt s m = Some st'" "queue_length (queue st') > 0"
    "int (length (activeTaskIds st')) \<ge> maxConcurrent st' \<longrightarrow>
     int (length (activeTaskIds st)) \<ge> maxConcurrent st" by blast
  have "resolveLaneBlockReason m s = None"
    by (rule resolve_mono [OF assms(4) _ _ _ free]) (use st st' assms(3) in \<open>auto simp: lane_full_def\<close>)
  with assms(1) st' show False by (simp add: blocked_def)
qed

lemma blocked_frame_same:
  "blocked m s \<Longrightarrow> laneAt t m = laneAt s m \<Longrightarrow> (\<And>x. count_of t x = count_of s x) \<Longrightarrow>
   getLaneGroup m t = getLaneGroup m s \<Longrightarrow> blocked m t"
  by (erule blocked_frame) (metis, metis, metis)

lemma blocked_start:
  assumes wf: "queue_wf X s" and l: "map_of (lanes s) l = Some a" and q: "queue_length (queue (cell s a)) > 0"
    and m: "m \<noteq> l" and b: "blocked m s"
  shows "blocked m (startNext l a s)"
  unfolding blocked_def
proof (intro allI impI notI)
  note eff = start_effect [OF wf l q]
  fix st assume st: "laneAt (startNext l a s) m = Some st" "queue_length (queue st) > 0"
    and free: "resolveLaneBlockReason m (startNext l a s) = None"
  have at: "laneAt (startNext l a s) m = laneAt s m" using m by (simp add: eff(1))
  have "resolveLaneBlockReason m s = None"
    by (rule resolve_mono [OF getLaneGroup_cong [OF eff(3,4)] _ _ _ free])
      (use m in \<open>auto simp: lane_full_def at eff(2)\<close>)
  with b st show False by (simp add: blocked_def at)
qed

text \<open>Draining the lanes of \<open>A\<close> leaves every blocked lane outside \<open>A\<close> blocked.\<close>

interpretation others: drain_rule X "\<lambda>s. queue_wf X s \<and> (\<forall>m. \<not> A m \<longrightarrow> blocked m s)" A for X A
proof
  fix s :: "'a queue_state" and l a b gs
  assume c: "queue_wf X s \<and> (\<forall>m. \<not> A m \<longrightarrow> blocked m s)"
  then show wf: "queue_wf X s" by simp
  from c have bl: "\<And>m. \<not> A m \<Longrightarrow> blocked m s" by simp
  show "queue_wf X (snd (getLaneState l s)) \<and> (\<forall>m. \<not> A m \<longrightarrow> blocked m (snd (getLaneState l s)))"
    using getLaneState_wf(1) [OF wf]
    by (auto intro!: blocked_frame [OF bl] getLaneGroup_cong
        simp: count_get [OF wf] get_frame laneAt_get [OF wf] split: if_splits)
  show "a < length (heap s) \<Longrightarrow> queue_wf X (putLane a ((cell s a)\<lparr>draining := b\<rparr>) s) \<and>
      (\<forall>m. \<not> A m \<longrightarrow> blocked m (putLane a ((cell s a)\<lparr>draining := b\<rparr>) s))"
    using flag_wf [OF wf]
    by (auto intro!: blocked_frame [OF bl] getLaneGroup_cong
        simp: count_flag laneAt_putLane laneAt_cell split: if_splits simp del: putLane_simps(10))
  show "queue_wf X (retireIdleScopedCommandLane a s) \<and>
      (\<forall>m. \<not> A m \<longrightarrow> blocked m (retireIdleScopedCommandLane a s))"
    using retire_wf [OF wf]
    by (auto intro!: blocked_frame [OF bl] getLaneGroup_cong
        simp: count_retire retire_frame laneAt_retire split: if_splits)
  show "queue_wf X (s\<lparr>drainingGroups := gs\<rparr>) \<and> (\<forall>m. \<not> A m \<longrightarrow> blocked m (s\<lparr>drainingGroups := gs\<rparr>))"
    using wf by (auto intro!: blocked_frame [OF bl] getLaneGroup_cong
        simp: drainingGroups_wf count_drainingGroups laneAt_drainingGroups)
next
  fix s :: "'a queue_state" and l a
  assume "queue_wf X s \<and> (\<forall>m. \<not> A m \<longrightarrow> blocked m s)" and al: "A l" and l: "map_of (lanes s) l = Some a"
    and q: "0 < queue_length (queue (cell s a))"
  then have wf: "queue_wf X s" and bl: "\<And>m. \<not> A m \<Longrightarrow> blocked m s" by simp_all
  from queue_wf_registered [OF wf l] have "a < length (heap s)" by simp
  with startNext_wf [OF wf _ l q] bl al
  show "queue_wf X (startNext l a s) \<and> (\<forall>m. \<not> A m \<longrightarrow> blocked m (startNext l a s))"
    by (metis blocked_start [OF wf l q])
qed

section \<open>Flags between operations\<close>

definition calm :: "'t queue_state \<Rightarrow> bool" where
  "calm s \<longleftrightarrow> (\<forall>a < length (heap s). \<not> draining (cell s a))"

lemma startNext_flags:
  "draining (cell (startNext l a s) b) = draining (cell s b)"
  "length (heap (startNext l a s)) = length (heap s)"
  "laneGroups (startNext l a s) = laneGroups s"
  "laneGroupByLane (startNext l a s) = laneGroupByLane s"
  "drainingGroups (startNext l a s) = drainingGroups s"
proof -
  obtain x q where d: "dequeueLaneQueue (queue (cell s a)) = (x, q)" by (cases rule: prod.exhaust)
  show "draining (cell (startNext l a s) b) = draining (cell s b)"
    by (cases x; cases "a < length (heap s)"; cases "b = a")
      (simp_all add: startNext_def d Let_def list_update_beyond)
  show "length (heap (startNext l a s)) = length (heap s)"
    "laneGroups (startNext l a s) = laneGroups s"
    "laneGroupByLane (startNext l a s) = laneGroupByLane s"
    "drainingGroups (startNext l a s) = drainingGroups s"
    by (cases x; simp add: startNext_def d Let_def)+
qed

lemma loop_flags:
  "draining (cell (snd (drainLaneLoop fuel l a n k s)) b) = draining (cell s b) \<and>
   length (heap (snd (drainLaneLoop fuel l a n k s))) = length (heap s) \<and>
   laneGroups (snd (drainLaneLoop fuel l a n k s)) = laneGroups s \<and>
   laneGroupByLane (snd (drainLaneLoop fuel l a n k s)) = laneGroupByLane s \<and>
   drainingGroups (snd (drainLaneLoop fuel l a n k s)) = drainingGroups s"
  by (induction fuel arbitrary: k s) (auto simp: Let_def startNext_flags)

text \<open>Unfolding one drain of an idle lane object.\<close>

lemma drainLane_unfold:
  assumes "(case captured of Some a \<Rightarrow> (a, s) | None \<Rightarrow> getLaneState l s) = (a, s0)"
    and "\<not> draining (cell s0 a)"
  obtains k s2 where "drainLaneLoop (queue_length (queue (cell s0 a))) l a n 0
      (putLane a ((cell s0 a)\<lparr>draining := True\<rparr>) s0) = (k, s2)"
    and "drainLane l n captured s =
      (k, retireIdleScopedCommandLane a (putLane a ((cell s2 a)\<lparr>draining := False\<rparr>) s2))"
proof -
  obtain k s2 where loop: "drainLaneLoop (queue_length (queue (cell s0 a))) l a n 0
      (putLane a ((cell s0 a)\<lparr>draining := True\<rparr>) s0) = (k, s2)" by (cases rule: prod.exhaust)
  from this show thesis
    by (rule that) (simp add: drainLane_def assms loop Let_def)
qed

lemma calm_get: "calm s \<Longrightarrow> calm (snd (getLaneState l s))"
  by (cases rule: getLaneState_cases [of s l]) (auto simp: calm_def nth_append)

lemma drainLane_calm:
  assumes calm: "calm s" and wf: "queue_wf X s"
    and cap: "\<And>a. captured = Some a \<Longrightarrow> a < length (heap s) \<and> lane (cell s a) = l"
  shows "calm (snd (drainLane l n captured s)) \<and>
    laneGroups (snd (drainLane l n captured s)) = laneGroups s \<and>
    laneGroupByLane (snd (drainLane l n captured s)) = laneGroupByLane s \<and>
    drainingGroups (snd (drainLane l n captured s)) = drainingGroups s"
proof -
  obtain a s0 where as: "(case captured of Some a \<Rightarrow> (a, s) | None \<Rightarrow> getLaneState l s) = (a, s0)"
    by (cases rule: prod.exhaust)
  have s0: "calm s0" "a < length (heap s0)" "laneGroups s0 = laneGroups s"
    "laneGroupByLane s0 = laneGroupByLane s" "drainingGroups s0 = drainingGroups s"
    using as calm cap calm_get [OF calm, of l] getLaneState_wf [OF wf, of l] get_frame [of l s]
    by (cases captured; force)+
  then have "\<not> draining (cell s0 a)" by (simp add: calm_def)
  then show ?thesis
  proof (rule drainLane_unfold [OF as, of n])
    fix k s2
    assume loop: "drainLaneLoop (queue_length (queue (cell s0 a))) l a n 0
        (putLane a ((cell s0 a)\<lparr>draining := True\<rparr>) s0) = (k, s2)"
      and d: "drainLane l n captured s =
        (k, retireIdleScopedCommandLane a (putLane a ((cell s2 a)\<lparr>draining := False\<rparr>) s2))"
    have f: "draining (cell s2 b) = draining (cell (putLane a ((cell s0 a)\<lparr>draining := True\<rparr>) s0) b)"
      "length (heap s2) = length (heap s0)" "laneGroups s2 = laneGroups s0"
      "laneGroupByLane s2 = laneGroupByLane s0" "drainingGroups s2 = drainingGroups s0" for b
      using loop_flags [of "queue_length (queue (cell s0 a))" l a n 0
          "putLane a ((cell s0 a)\<lparr>draining := True\<rparr>) s0" b] loop by simp_all
    have "calm (putLane a ((cell s2 a)\<lparr>draining := False\<rparr>) s2)"
      unfolding calm_def
    proof (intro allI impI)
      fix b assume "b < length (heap (putLane a ((cell s2 a)\<lparr>draining := False\<rparr>) s2))"
      with s0(1,2) f(1,2) show "\<not> draining (cell (putLane a ((cell s2 a)\<lparr>draining := False\<rparr>) s2) b)"
        by (cases "b = a") (simp_all add: calm_def)
    qed
    with s0 f(3-5) show ?thesis by (simp add: d calm_def retire_frame)
  qed
qed

section \<open>Where drains stop\<close>

lemma blocked_exit:
  assumes l: "map_of (lanes s) l = Some a"
    and stop: "\<not> (int (length (activeTaskIds (cell s a))) < maxConcurrent (cell s a) \<and>
      queue_length (queue (cell s a)) > 0 \<and> canAdmitInGroup l s)"
  shows "blocked l s"
  unfolding blocked_def
proof (intro allI impI notI)
  fix st assume st: "laneAt s l = Some st" "queue_length (queue st) > 0"
    and free: "resolveLaneBlockReason l s = None"
  from st(1) l have "st = cell s a" by (simp add: laneAt_cell)
  moreover from free have "canAdmitInGroup l s" by (simp add: canAdmitInGroup_def)
  moreover from free have "\<not> lane_full l s" by (simp add: resolve_None_iff)
  ultimately show False using stop st by (auto simp: lane_full_def)
qed

text \<open>With the queue's length as fuel, an unbounded loop runs until the lane is blocked.\<close>

lemma loop_blocked:
  assumes "queue_wf X s" and "map_of (lanes s) l = Some a" and "queue_length (queue (cell s a)) \<le> fuel"
  shows "blocked l (snd (drainLaneLoop fuel l a None k s)) \<and> queue_wf X (snd (drainLaneLoop fuel l a None k s)) \<and>
    map_of (lanes (snd (drainLaneLoop fuel l a None k s))) l = Some a"
  using assms
proof (induction fuel arbitrary: k s)
  case 0
  then show ?case by (auto intro: blocked_exit)
next
  case (Suc fuel)
  from queue_wf_registered [OF Suc.prems(1,2)] have a: "a < length (heap s)" by simp
  let ?go = "int (length (activeTaskIds (cell s a))) < maxConcurrent (cell s a) \<and>
      queue_length (queue (cell s a)) > 0 \<and> canAdmitInGroup l s"
  show ?case
  proof (cases ?go)
    case False
    with blocked_exit [OF Suc.prems(2) False] Suc.prems show ?thesis by (auto simp: Let_def)
  next
    case True
    then have q: "queue_length (queue (cell s a)) > 0" by simp
    note eff = start_effect [OF Suc.prems(1,2) q]
    have "queue_wf X (startNext l a s)" by (rule startNext_wf [OF Suc.prems(1) a Suc.prems(2) q])
    moreover have "queue_length (queue (cell (startNext l a s) a)) \<le> fuel"
      using Suc.prems(3) q unfolding eff(10) by simp
    ultimately show ?thesis
      using Suc.IH [of "startNext l a s"] True Suc.prems(2) by (simp add: eff(6) Let_def)
  qed
qed

lemma flag_blocked:
  "a < length (heap s) \<Longrightarrow> blocked m s \<Longrightarrow> blocked m (putLane a ((cell s a)\<lparr>draining := b\<rparr>) s)"
  by (erule blocked_frame)
    (auto intro!: getLaneGroup_cong simp: count_flag laneAt_putLane laneAt_cell split: if_splits
      simp del: putLane_simps(10))

lemma retire_blocked: "blocked m s \<Longrightarrow> blocked m (retireIdleScopedCommandLane a s)"
  by (erule blocked_frame)
    (auto intro!: getLaneGroup_cong simp: count_retire retire_frame laneAt_retire split: if_splits)

lemma groups_blocked: "blocked m s \<Longrightarrow> blocked m (s\<lparr>drainingGroups := gs\<rparr>)"
  by (erule blocked_frame) (auto intro!: getLaneGroup_cong simp: count_drainingGroups laneAt_drainingGroups)

lemma drainLane_blocked:
  assumes wf: "queue_wf X s" and calm: "calm s"
    and cap: "\<And>a. captured = Some a \<Longrightarrow> map_of (lanes s) l = Some a"
  shows "blocked l (snd (drainLane l None captured s))"
proof -
  obtain a s0 where as: "(case captured of Some a \<Rightarrow> (a, s) | None \<Rightarrow> getLaneState l s) = (a, s0)"
    by (cases rule: prod.exhaust)
  have s0: "queue_wf X s0" "calm s0" "map_of (lanes s0) l = Some a"
    using as wf calm cap calm_get [OF calm, of l] getLaneState_wf [OF wf, of l]
    by (cases captured; force)+
  from queue_wf_registered [OF s0(1,3)] have a: "a < length (heap s0)" by simp
  with s0(2) have "\<not> draining (cell s0 a)" by (simp add: calm_def)
  then show ?thesis
  proof (rule drainLane_unfold [OF as, where n = None])
    let ?s1 = "putLane a ((cell s0 a)\<lparr>draining := True\<rparr>) s0"
    fix k s2
    assume loop: "drainLaneLoop (queue_length (queue (cell s0 a))) l a None 0 ?s1 = (k, s2)"
      and d: "drainLane l None captured s =
        (k, retireIdleScopedCommandLane a (putLane a ((cell s2 a)\<lparr>draining := False\<rparr>) s2))"
    have "blocked l s2 \<and> queue_wf X s2 \<and> map_of (lanes s2) l = Some a"
      using loop_blocked [OF flag_wf [OF s0(1) a], where b1 = True and l = l and a = a
          and fuel = "queue_length (queue (cell s0 a))" and k = 0] s0(3) a loop by simp
    moreover from this have "a < length (heap s2)" using queue_wf_registered by blast
    ultimately show ?thesis by (simp add: d retire_blocked flag_blocked)
  qed
qed

text \<open>A bounded drain of an admissible lane starts exactly one task.\<close>

lemma candidate_Some:
  assumes "candidate s l \<noteq> None"
  obtains a where "map_of (lanes s) l = Some a" and "queue_length (queue (cell s a)) > 0 \<or> \<not> lane_ok (queue (cell s a))"
    and "\<not> draining (cell s a)" and "resolveLaneBlockReason l s = None"
proof -
  from assms obtain a where a: "map_of (lanes s) l = Some a"
    by (auto simp: candidate_def laneAt_def split: option.splits)
  with assms show thesis
    by (intro that [OF a])
      (auto simp: candidate_def laneAt_cell queue_length_lane_list peekLaneQueue_hd split: option.splits if_splits)
qed

lemma totalQueued_flag:
  "a < length (heap s) \<Longrightarrow> totalQueued (putLane a ((cell s a)\<lparr>draining := b\<rparr>) s) = totalQueued s"
proof -
  assume a: "a < length (heap s)"
  have "map (\<lambda>st. queue_length (queue st)) ((heap s)[a := (cell s a)\<lparr>draining := b\<rparr>])
      = map (\<lambda>st. queue_length (queue st)) (heap s)"
    using a by (intro nth_equalityI) (auto simp: nth_list_update)
  then show ?thesis by (simp add: totalQueued_def)
qed

lemma resolve_flag:
  assumes "a < length (heap s)"
  shows "resolveLaneBlockReason m (putLane a ((cell s a)\<lparr>draining := b\<rparr>) s) = None \<longleftrightarrow>
    resolveLaneBlockReason m s = None"
proof -
  let ?t = "putLane a ((cell s a)\<lparr>draining := b\<rparr>) s"
  have "lane_full m ?t = lane_full m s"
    using assms by (auto simp: lane_full_def laneAt_putLane laneAt_cell split: if_splits simp del: putLane_simps(10))
  moreover have "getLaneGroup m ?t = getLaneGroup m s" by (rule getLaneGroup_cong) simp_all
  ultimately show ?thesis
    using resolve_mono [of m ?t s] resolve_mono [of m s ?t] count_flag [OF assms] by auto
qed

lemma bounded_once:
  assumes wf: "queue_wf X s" and c: "candidate s l \<noteq> None"
    and d: "drainLaneBounded l 1 s = (n, t)"
  shows "n = 1" and "totalQueued t < totalQueued s"
proof -
  from c obtain a where l: "map_of (lanes s) l = Some a" and q: "queue_length (queue (cell s a)) > 0"
    and nd: "\<not> draining (cell s a)" and free: "resolveLaneBlockReason l s = None"
    by (rule candidate_Some) (use queue_wf_cell [OF wf] queue_wf_registered [OF wf] in blast)
  from queue_wf_registered [OF wf l] have a: "a < length (heap s)" by simp
  let ?s1 = "putLane a ((cell s a)\<lparr>draining := True\<rparr>) s"
  have wf1: "queue_wf X ?s1" by (rule flag_wf [OF wf a])
  have l1: "map_of (lanes ?s1) l = Some a" and q1: "queue_length (queue (cell ?s1 a)) > 0"
    using l q a by simp_all
  have free1: "resolveLaneBlockReason l ?s1 = None" using free resolve_flag [OF a] by simp
  then have adm: "canAdmitInGroup l ?s1" by (simp add: canAdmitInGroup_def)
  have room: "int (length (activeTaskIds (cell s a))) < maxConcurrent (cell s a)"
    using free l by (simp add: resolve_None_iff lane_full_def laneAt_cell)
  obtain f where f: "queue_length (queue (cell s a)) = Suc f" using q by (cases "queue_length (queue (cell s a))") auto
  let ?s2 = "startNext l a ?s1"
  have loop: "drainLaneLoop (queue_length (queue (cell s a))) l a (Some 1) 0 ?s1 = (1, ?s2)"
    using a adm room q by (cases f) (simp_all add: f Let_def)
  have eq: "drainLaneBounded l 1 s = (1, retireIdleScopedCommandLane a (putLane a ((cell ?s2 a)\<lparr>draining := False\<rparr>) ?s2))"
    using loop nd by (simp add: drainLaneBounded_def drainLane_def getLaneState_def l Let_def)
  then show "n = 1" using d by simp
  have "a < length (heap ?s2)" using a by (simp add: startNext_flags)
  then have "totalQueued t = totalQueued ?s2"
    using d eq totalQueued_flag by (simp add: totalQueued_def retire_frame del: putLane_simps(10))
  also have "\<dots> < totalQueued ?s1" by (rule start_effect(11) [OF wf1 l1 q1])
  also have "\<dots> = totalQueued s" by (rule totalQueued_flag [OF a])
  finally show "totalQueued t < totalQueued s" .
qed

text \<open>\<open>drainLane\<close> provides the interface the group arbiter is written against.\<close>

interpretation arbiter: bounded_drain drainLaneBounded "\<lambda>s. queue_wf X s \<and> calm s" for X
proof
  fix s t :: "'a queue_state" and l n
  assume g: "queue_wf X s \<and> calm s" and c: "candidate s l \<noteq> None" and d: "drainLaneBounded l 1 s = (n, t)"
  then have t: "t = snd (drainLane l (Some 1) None s)" by (simp add: drainLaneBounded_def)
  have "queue_wf X t" unfolding t using g by (intro wf_drain.P_drainLane) auto
  with drainLane_calm [of s X None l "Some 1"] g
  show "(queue_wf X t \<and> calm t) \<and> laneGroups t = laneGroups s \<and> laneGroupByLane t = laneGroupByLane s \<and>
      drainingGroups t = drainingGroups s"
    unfolding t by simp
  show "totalQueued t < totalQueued s" and "n \<noteq> 0"
    using bounded_once [OF _ c d] g by auto
qed

lemma calm_candidate: "calm s \<Longrightarrow> queue_wf X s \<Longrightarrow> candidate s m = None \<Longrightarrow> blocked m s"
  unfolding blocked_def
proof (intro allI impI)
  fix st assume calm: "calm s" and wf: "queue_wf X s" and c: "candidate s m = None"
    and st: "laneAt s m = Some st" "queue_length (queue st) > 0"
  from st(1) obtain a where a: "map_of (lanes s) m = Some a" "st = cell s a" by (auto simp: laneAt_def)
  with queue_wf_registered [OF wf] have "a < length (heap s)" by blast
  with calm queue_wf_cell [OF wf] a st(2) have "\<not> draining st" "peekLaneQueue (queue st) \<noteq> None"
    by (auto simp: calm_def peekLaneQueue_hd queue_length_lane_list)
  with c st(1) show "resolveLaneBlockReason m s \<noteq> None"
    by (auto simp: candidate_def split: option.splits if_splits)
qed

section \<open>No admissible work is left waiting\<close>

definition quiet :: "'t queue_state \<Rightarrow> bool" where
  "quiet s \<longleftrightarrow> calm s \<and> drainingGroups s = []"

text \<open>The lanes a drain from \<open>l\<close> looks at: the lane, or its whole group.\<close>

definition reach :: "'t queue_state \<Rightarrow> string \<Rightarrow> string set" where
  "reach s l = (case getLaneGroup l s of Some g \<Rightarrow> set (members g) | None \<Rightarrow> {l})"

lemma reach_self: "queue_wf X s \<Longrightarrow> l \<in> reach s l"
  using getLaneGroup_iff [of s l] by (auto simp: reach_def queue_wf_def split: option.splits)

lemma reach_sym:
  assumes "queue_wf X s" and "m \<notin> reach s l" and "getLaneGroup m s = Some g"
  shows "l \<notin> set (members g)"
proof
  assume l: "l \<in> set (members g)"
  from assms(1) have r: "registry_ok (laneGroups s) (laneGroupByLane s)" by (simp add: queue_wf_def)
  from assms(3) getLaneGroup_iff [OF r] have g: "map_of (laneGroups s) (group g) = Some g" "m \<in> set (members g)"
    by auto
  with l getLaneGroup_iff [OF r] have "getLaneGroup l s = Some g" by simp
  with assms(2) g show False by (simp add: reach_def)
qed

lemma drainGroup_blocked:
  assumes wf: "queue_wf X s" and quiet: "quiet s" and g: "getLaneGroup l s = Some g"
  defines "t \<equiv> drainGroupSiblings drainLaneBounded (Suc (totalQueued s)) l s"
  shows "quiet t" and "laneGroups t = laneGroups s" and "laneGroupByLane t = laneGroupByLane s"
    and "m \<in> set (members g) \<Longrightarrow> blocked m t"
proof -
  let ?s1 = "s\<lparr>drainingGroups := set_add (group g) (drainingGroups s)\<rparr>"
  from wf have r: "registry_ok (laneGroups s) (laneGroupByLane s)" by (simp add: queue_wf_def)
  from g getLaneGroup_iff [OF r] have gg: "map_of (laneGroups s) (group g) = Some g" by auto
  with r have "group_ok g" by (simp add: registry_ok_def)
  then have ne: "'''' \<notin> set (members g)" by (simp add: group_ok_def)
  have good: "queue_wf X ?s1 \<and> calm ?s1" using wf quiet by (simp add: drainingGroups_wf quiet_def calm_def)
  have tq: "totalQueued ?s1 < Suc (totalQueued s)" by (simp add: totalQueued_def)
  let ?u = "drainGroupLoop drainLaneBounded (Suc (totalQueued s)) g ?s1"
  have u: "queue_wf X ?u" "calm ?u" "laneGroups ?u = laneGroups s" "laneGroupByLane ?u = laneGroupByLane s"
    "drainingGroups ?u = drainingGroups ?s1" "resolveNextGroupLane g ?u = None"
    using arbiter.loop_quiescent [OF good _ ne tq] gg by (simp_all add: Let_def)
  have t: "t = ?u\<lparr>drainingGroups := set_delete (group g) (drainingGroups ?u)\<rparr>"
    using g quiet
    by (simp add: t_def drainGroupSiblings_def drainCommandLaneGroup_def quiet_def Let_def)
  show "quiet t" using quiet u(2,5) by (simp add: t quiet_def calm_def set_add_def set_delete_def)
  show "laneGroups t = laneGroups s" and "laneGroupByLane t = laneGroupByLane s" using u by (simp_all add: t)
  assume "m \<in> set (members g)"
  with u(6) have "candidate ?u m = None" by (simp add: resolveNextGroupLane_None)
  from calm_candidate [OF u(2,1) this] show "blocked m t" unfolding t by (rule groups_blocked)
qed

text \<open>A drain leaves every lane in its reach blocked, and keeps the others that were.\<close>

lemma drainReady_blocked:
  assumes wf: "queue_wf X s" and quiet: "quiet s"
    and cap: "\<And>a. captured = Some a \<Longrightarrow> map_of (lanes s) l = Some a"
    and rest: "\<And>m. m \<notin> R \<Longrightarrow> m \<notin> reach s l \<Longrightarrow> blocked m s"
  defines "t \<equiv> drainReadyCommandLane l captured s"
  shows "quiet t" and "laneGroups t = laneGroups s" and "laneGroupByLane t = laneGroupByLane s"
    and "m \<notin> R \<or> m \<in> reach s l \<Longrightarrow> blocked m t"
proof -
  have cap': "a < length (heap s) \<and> lane (cell s a) = l" if "captured = Some a" for a
    using cap [OF that] queue_wf_registered [OF wf] by blast
  have out: "blocked m t" if m: "m \<notin> R" "m \<notin> reach s l" for m
  proof -
    let ?A = "\<lambda>m. m \<in> R \<or> m \<in> reach s l"
    have "queue_wf X t \<and> (\<forall>m. \<not> ?A m \<longrightarrow> blocked m t)"
      unfolding t_def
      by (rule others.P_ready)
        (use wf rest reach_self [OF wf] cap' in \<open>auto simp: reach_def split: option.splits\<close>)
    with m show ?thesis by blast
  qed
  have inside: "quiet t \<and> laneGroups t = laneGroups s \<and> laneGroupByLane t = laneGroupByLane s \<and>
      (\<forall>m \<in> reach s l. blocked m t)"
  proof (cases "getLaneGroup l s")
    case (Some g)
    with drainGroup_blocked [OF wf quiet Some] show ?thesis
      by (simp add: t_def drainReadyCommandLane_def reach_def)
  next
    case None
    with drainLane_calm [of s X captured l None] drainLane_blocked [OF wf _ cap] wf quiet cap'
    show ?thesis by (simp add: t_def drainReadyCommandLane_def reach_def quiet_def)
  qed
  then show "quiet t" and "laneGroups t = laneGroups s" and "laneGroupByLane t = laneGroupByLane s"
    by simp_all
  assume "m \<notin> R \<or> m \<in> reach s l"
  with out inside show "blocked m t" by blast
qed

text \<open>Between operations: no flag is up and nothing admissible waits.\<close>

definition settled_state :: "'t queue_state \<Rightarrow> bool" where
  "settled_state s \<longleftrightarrow> quiet s \<and> (\<forall>m. blocked m s)"

lemma initial_settled: "settled_state initialQueueState"
  by (simp add: settled_state_def quiet_def calm_def blocked_def initialQueueState_def laneAt_def)

lemma settled_cong:
  assumes "settled_state s" and "lanes t = lanes s" and "heap t = heap s" and "laneGroups t = laneGroups s"
    and "laneGroupByLane t = laneGroupByLane s" and "drainingGroups t = drainingGroups s"
  shows "settled_state t"
proof -
  have at: "laneAt t m = laneAt s m" for m using assms by (simp add: laneAt_def)
  have "blocked m t" for m
    by (rule blocked_frame [of m s])
      (use assms at in \<open>auto simp: settled_state_def getMemberActiveCount_def intro!: getLaneGroup_cong\<close>)
  with assms show ?thesis by (simp add: settled_state_def quiet_def calm_def)
qed

lemma drainReady_settled:
  assumes "queue_wf X s" and "quiet s" and "\<And>m. m \<noteq> l \<Longrightarrow> m \<notin> reach s l \<Longrightarrow> blocked m s"
    and "\<And>a. captured = Some a \<Longrightarrow> map_of (lanes s) l = Some a"
  shows "settled_state (drainReadyCommandLane l captured s)"
proof -
  have rest: "m \<notin> {} \<Longrightarrow> m \<notin> reach s l \<Longrightarrow> blocked m s" for m
    using assms(3) [of m] reach_self [OF assms(1), of l] by blast
  note d = drainReady_blocked [OF assms(1,2,4) rest]
  show ?thesis unfolding settled_state_def using d(1) d(4) by blast
qed

subsection \<open>The bookkeeping of each operation\<close>

lemma get_blocked:
  assumes "queue_wf X s" and "blocked m s"
  shows "blocked m (snd (getLaneState l s))"
  by (rule blocked_frame [OF assms(2)])
    (auto intro!: getLaneGroup_cong simp: count_get [OF assms(1)] get_frame laneAt_get [OF assms(1)] split: if_splits)

lemma get_quiet: "quiet s \<Longrightarrow> quiet (snd (getLaneState l s))"
  by (simp add: quiet_def calm_get get_frame)

text \<open>A write to the object of \<open>l\<close> that keeps its count leaves every other name as it was.\<close>

lemma put_blocked:
  assumes wf: "queue_wf X s" and l: "map_of (lanes s) l = Some a"
    and act: "activeTaskIds st = activeTaskIds (cell s a)" and m: "m \<noteq> l" and b: "blocked m s"
  shows "blocked m (putLane a st s)"
proof -
  from queue_wf_registered [OF wf l] have a: "a < length (heap s)" "lane (cell s a) = l" by simp_all
  have other: "map_of (lanes s) m \<noteq> Some a" using m a queue_wf_registered [OF wf, of m a] by auto
  have "count_of (putLane a st s) x = count_of s x" for x
    using count_putLane [OF a(1), where st = st and m = x] act by (auto simp: getMemberActiveCount_def laneAt_cell)
  note cnt = this
  have at: "laneAt (putLane a st s) m = laneAt s m" using laneAt_putLane [OF a(1)] other by simp
  show ?thesis
  proof (rule blocked_frame [OF b])
    fix st' assume "laneAt (putLane a st s) m = Some st'" "queue_length (queue st') > 0"
    then show "\<exists>st''. laneAt s m = Some st'' \<and> queue_length (queue st'') > 0 \<and>
        (int (length (activeTaskIds st'')) \<ge> maxConcurrent st'' \<longrightarrow>
         int (length (activeTaskIds st')) \<ge> maxConcurrent st')"
      unfolding at by blast
  qed (rule cnt, rule getLaneGroup_cong, simp_all)
qed

lemma put_quiet: "quiet s \<Longrightarrow> \<not> draining st \<Longrightarrow> quiet (putLane a st s)"
  by (cases "a < length (heap s)") (auto simp: quiet_def calm_def nth_list_update list_update_beyond)

lemma enqueue_settled:
  assumes wf: "queue_wf X s" and s: "settled_state s"
  shows "settled_state (snd (enqueueCommandInLane ctx adm l tsk opts s))"
proof (cases "isGatewaySubordinateWorkAdmissionClosed ctx adm")
  case True
  with s show ?thesis by (simp add: enqueueCommandInLane_def)
next
  case False
  let ?l = "normalizeLane l"
  obtain a s1 where g: "getLaneState ?l s = (a, s1)" by (cases rule: prod.exhaust)
  note n = getLaneState_wf [OF wf, of ?l, unfolded g fst_conv snd_conv]
  let ?s2 = "s1\<lparr>nextQueueSequence := nextQueueSequence s1 + 1\<rparr>"
  note wf2 = sequence_wf [OF n(1)]
  have reg: "map_of (lanes ?s2) ?l = Some a" and al: "a < length (heap ?s2)" using n by simp_all
  have q1: "quiet s1" "\<And>m. blocked m s1"
    using s get_quiet [of s ?l] get_blocked [OF wf, of _ ?l] g by (auto simp: settled_state_def)
  have "blocked m ?s2" for m
    by (rule blocked_frame [OF q1(2) [of m]])
      (auto intro!: getLaneGroup_cong simp: laneAt_def getMemberActiveCount_def)
  then have b: "m \<noteq> ?l \<Longrightarrow> blocked m (enqueueLaneEntry a e ?s2)" for m e
    unfolding enqueueLaneEntry_def Let_def by (intro put_blocked [OF wf2 reg]) auto
  have q: "quiet (enqueueLaneEntry a e ?s2)" for e
    unfolding enqueueLaneEntry_def Let_def
    using q1(1) al by (intro put_quiet) (auto simp: quiet_def calm_def)
  have w: "promise e = nextQueueSequence s1 \<Longrightarrow> queue_wf X (enqueueLaneEntry a e ?s2)" for e
    using wf2 by (intro enqueueLaneEntry_wf [OF _ reg]) simp
  show ?thesis
    unfolding enqueueCommandInLane_def g Let_def split_conv if_not_P [OF False] snd_conv
    by (rule drainReady_settled [OF w]) (simp, rule q, rule b, simp_all)
qed

lemma width_effect:
  assumes wf: "queue_wf X s" and quiet: "quiet s"
  shows "quiet (setLaneWidth l w s)" and "m \<noteq> l \<Longrightarrow> blocked m s \<Longrightarrow> blocked m (setLaneWidth l w s)"
proof -
  obtain a s1 where g: "getLaneState l s = (a, s1)" by (cases rule: prod.exhaust)
  note n = getLaneState_wf [OF wf, of l, unfolded g fst_conv snd_conv]
  have q1: "quiet s1" using get_quiet [OF quiet, of l] g by simp
  with n(3) have "\<not> draining (cell s1 a)" by (simp add: quiet_def calm_def)
  with q1 show "quiet (setLaneWidth l w s)"
    unfolding setLaneWidth_def Let_def g split_conv by (intro put_quiet) simp_all
  assume m: "m \<noteq> l" and b: "blocked m s"
  have "blocked m s1" using get_blocked [OF wf b, of l] g by simp
  with m show "blocked m (setLaneWidth l w s)"
    unfolding setLaneWidth_def Let_def g split_conv by (intro put_blocked [OF n(1,2)]) simp_all
qed

lemma concurrency_settled:
  assumes wf: "queue_wf X s" and s: "settled_state s"
  shows "settled_state (setCommandLaneConcurrency l w s)"
proof -
  let ?l = "normalizeLane l" and ?u = "setLaneWidth (normalizeLane l) w s"
  from s have quiet: "quiet s" and b: "\<And>m. blocked m s" by (simp_all add: settled_state_def)
  have wu: "queue_wf X ?u" by (rule setLaneWidth_wf [OF wf])
  note qu = width_effect(1) [OF wf quiet, of ?l w] and bu = width_effect(2) [OF wf quiet _ b, of _ ?l w]
  obtain a s2 where g: "getLaneState ?l ?u = (a, s2)" by (cases rule: prod.exhaust)
  show ?thesis
  proof (cases "maxConcurrent (cell s2 a) > 0")
    case True
    then have "setCommandLaneConcurrency l w s = drainReadyCommandLane ?l None ?u"
      by (simp add: setCommandLaneConcurrency_def g Let_def)
    with drainReady_settled [OF wu qu, of ?l None] bu show ?thesis by simp
  next
    case False
    obtain b0 s1 where g0: "getLaneState ?l s = (b0, s1)" by (cases rule: prod.exhaust)
    have "map_of (lanes ?u) ?l = Some b0"
      using getLaneState_wf(2) [OF wf, of ?l] g0 by (simp add: setLaneWidth_def)
    then have eq: "s2 = ?u" "a = b0" "map_of (lanes ?u) ?l = Some a"
      using g by (simp_all add: getLaneState_def)
    have "blocked ?l ?u" by (rule blocked_exit [OF eq(3)]) (use False eq in auto)
    with bu have "blocked m ?u" for m by (cases "m = ?l") auto
    with qu False show ?thesis
      by (simp add: setCommandLaneConcurrency_def g Let_def settled_state_def)
  qed
qed

text \<open>Any write to the object of \<open>l\<close> leaves the lanes outside the reach of \<open>l\<close> as they were.\<close>

lemma put_blocked_outside:
  assumes wf: "queue_wf X s" and l: "map_of (lanes s) l = Some a" and m: "m \<notin> reach s l" and b: "blocked m s"
  shows "blocked m (putLane a st s)"
  unfolding blocked_def
proof (intro allI impI notI)
  from queue_wf_registered [OF wf l] have a: "a < length (heap s)" "lane (cell s a) = l" by simp_all
  have uniq: "map_of (lanes s) x = Some a \<longleftrightarrow> x = l" for x
    using a l queue_wf_registered [OF wf, of x a] by auto
  have ml: "m \<noteq> l" using m reach_self [OF wf] by auto
  have at: "laneAt (putLane a st s) m = laneAt s m" using laneAt_putLane [OF a(1)] uniq ml by simp
  have cnt: "x \<noteq> l \<Longrightarrow> count_of (putLane a st s) x = count_of s x" for x
    using count_putLane [OF a(1)] uniq by simp
  fix st' assume st': "laneAt (putLane a st s) m = Some st'" "queue_length (queue st') > 0"
    and free: "resolveLaneBlockReason m (putLane a st s) = None"
  have "resolveLaneBlockReason m s = None"
  proof (rule resolve_mono [OF _ _ _ _ free])
    show "getLaneGroup m (putLane a st s) = getLaneGroup m s" by (rule getLaneGroup_cong) simp_all
    show "lane_full m s \<Longrightarrow> lane_full m (putLane a st s)" unfolding lane_full_def at .
    show "count_of (putLane a st s) m = count_of s m" by (rule cnt [OF ml])
    fix g x assume "getLaneGroup m s = Some g" "x \<in> set (members g)"
    with reach_sym [OF wf m] have "x \<noteq> l" by blast
    then show "count_of s x \<le> count_of (putLane a st s) x" using cnt by simp
  qed
  with b st' show False unfolding blocked_def at by blast
qed

lemma reach_cong: "laneGroups t = laneGroups s \<Longrightarrow> laneGroupByLane t = laneGroupByLane s \<Longrightarrow> reach t l = reach s l"
  using getLaneGroup_cong [of t s l] by (simp add: reach_def)

lemma finish_settled:
  assumes wf: "queue_wf X s" and s: "settled_state s" and r: "r \<in> set (running s)"
  shows "settled_state (finishTask r out s)"
proof -
  let ?u = "snd (releaseTask r s)" and ?a = "run_state r" and ?l = "run_lane r"
  let ?s0 = "s\<lparr>running := remove1 r (running s)\<rparr>"
  from wf r have a: "?a < length (heap s)" and ln: "?l = lane (cell s ?a)"
    by (auto simp: queue_wf_def slots_ok_def)
  note rel = release_wf [OF wf r]
  have "settled_state (if fst (releaseTask r s) then drainReadyCommandLane ?l (Some ?a) ?u else ?u)"
  proof (cases "run_generation r = generation (cell s ?a)")
    case False
    then have "releaseTask r s = (False, ?s0)" by (simp add: releaseTask_def completeTask_def Let_def)
    with s show ?thesis by (auto intro: settled_cong [of s])
  next
    case True
    let ?st = "(cell s ?a)\<lparr>activeTaskIds := set_delete (run_taskId r) (activeTaskIds (cell s ?a))\<rparr>"
    have u: "releaseTask r s = (True, putLane ?a ?st ?s0)"
      using True by (simp add: releaseTask_def completeTask_def Let_def)
    from True r have "run_taskId r \<in> current_ids s ?a" by (auto simp: current_ids_def)
    with wf a have "activeTaskIds (cell s ?a) \<noteq> []" unfolding queue_wf_def slots_ok_def by fastforce
    with queue_wf_owner [OF wf a] ln have l: "map_of (lanes s) ?l = Some ?a" by simp
    have quiet: "quiet ?u"
      using s a by (simp add: u settled_state_def quiet_def calm_def nth_list_update)
    have "blocked m ?u" if m: "m \<notin> reach ?u ?l" for m
    proof -
      have "m \<notin> reach s ?l" using m reach_cong [of ?u s] by (simp add: release_frame)
      then have b: "blocked m (putLane ?a ?st s)"
        using put_blocked_outside [OF wf l] s by (simp add: settled_state_def)
      show ?thesis
        by (rule blocked_frame [OF b])
          (auto intro!: getLaneGroup_cong simp: u laneAt_def getMemberActiveCount_def)
    qed
    with drainReady_settled [OF rel(1) quiet, of ?l "Some ?a"] l u show ?thesis by simp
  qed
  then show ?thesis
    unfolding finishTask_release Let_def split_beta by (rule settled_cong) simp_all
qed

lemma clearLoop_settled:
  "queue_wf X s \<Longrightarrow> settled_state s \<Longrightarrow> map_of (lanes s) l' = Some a \<Longrightarrow> settled_state (clearLoop fuel l a s)"
proof (induction fuel arbitrary: s)
  case 0
  then show ?case by simp
next
  case (Suc fuel)
  from queue_wf_registered [OF Suc.prems(1,3)] have al: "a < length (heap s)" "lane (cell s a) = l'" by simp_all
  note ok = queue_wf_cell [OF Suc.prems(1) al(1)]
  show ?case
  proof (cases "queue_length (queue (cell s a)) = 0")
    case True
    with dequeueLaneQueue_correct [OF ok] ok have "fst (dequeueLaneQueue (queue (cell s a))) = None"
      by (simp add: queue_length_lane_list)
    with Suc.prems show ?thesis by (simp add: split_beta Let_def)
  next
    case False
    then have pos: "queue_length (queue (cell s a)) > 0" by simp
    then show ?thesis
    proof (rule dequeue_Some [OF ok])
      fix e q assume d: "dequeueLaneQueue (queue (cell s a)) = (Some e, q)"
        "lane_list (queue (cell s a)) = e # lane_list q" "lane_ok q"
      let ?s1 = "putLane a ((cell s a)\<lparr>queue := q\<rparr>) s"
      let ?s2 = "?s1\<lparr>queueEffects := queueEffects ?s1 @ [Settled (promise e) (TaskCleared l)]\<rparr>"
      have "queue_wf (add_mset (promise e) X) ?s1"
        by (rule putLane_queue [OF Suc.prems(1,3)]) (simp_all add: d)
      then have wf2: "queue_wf X ?s2" by (rule settle_wf)
      have cnt: "count_of ?s1 x = count_of s x" for x
        unfolding count_putLane [OF al(1)] by (simp add: getMemberActiveCount_def laneAt_cell)
      have "blocked m ?s1" for m
      proof (cases "m = l'")
        case False
        with put_blocked [OF Suc.prems(1,3)] Suc.prems(2) show ?thesis by (simp add: settled_state_def)
      next
        case True
        show ?thesis
        proof (rule blocked_frame [of m s])
          fix st assume "laneAt ?s1 m = Some st"
          then have "st = (cell s a)\<lparr>queue := q\<rparr>"
            unfolding laneAt_putLane [OF al(1)] using Suc.prems(3) True by simp
          moreover have "laneAt s m = Some (cell s a)" using Suc.prems(3) True by (simp add: laneAt_cell)
          ultimately show "\<exists>st'. laneAt s m = Some st' \<and> queue_length (queue st') > 0 \<and>
              (int (length (activeTaskIds st')) \<ge> maxConcurrent st' \<longrightarrow>
               int (length (activeTaskIds st)) \<ge> maxConcurrent st)" using pos by simp
        next
          show "blocked m s" using Suc.prems(2) by (simp add: settled_state_def)
        next
          show "getLaneGroup m ?s1 = getLaneGroup m s" by (rule getLaneGroup_cong) simp_all
        qed (rule cnt)
      qed
      moreover have "quiet ?s1"
        using Suc.prems(2) al by (intro put_quiet) (auto simp: settled_state_def quiet_def calm_def)
      ultimately have "settled_state ?s1" by (simp add: settled_state_def)
      then have "settled_state ?s2" by (rule settled_cong) simp_all
      from Suc.IH [OF wf2 this] Suc.prems(3) d show ?thesis by (simp add: Let_def)
    qed
  qed
qed

lemma clear_settled: "queue_wf X s \<Longrightarrow> settled_state s \<Longrightarrow> settled_state (snd (clearCommandLane l s))"
  by (auto simp: clearCommandLane_def Let_def clearLoop_settled split: option.splits)

lemma reset_quiet: "quiet s \<Longrightarrow> quiet (putLane a (resetLaneState (cell s a)) s)"
  by (rule put_quiet) (simp_all add: resetLaneState_def)

lemma reset_settled:
  assumes wf: "queue_wf X s" and s: "settled_state s"
  shows "settled_state (snd (resetCommandLane l s))"
proof (cases "map_of (lanes s) (normalizeLane l)")
  case None
  with s show ?thesis by (simp add: resetCommandLane_def)
next
  case (Some a)
  let ?u = "putLane a (resetLaneState (cell s a)) s"
  from queue_wf_registered [OF wf Some] have a: "a < length (heap s)" by simp
  have "settled_state (drainReadyCommandLane (normalizeLane l) None ?u)"
  proof (rule drainReady_settled [OF reset_cell_wf [OF wf a]])
    show "quiet ?u" using s by (simp add: settled_state_def reset_quiet)
    fix m assume "m \<notin> reach ?u (normalizeLane l)"
    then have "m \<notin> reach s (normalizeLane l)" using reach_cong [of ?u s] by simp
    then show "blocked m ?u" using put_blocked_outside [OF wf Some] s by (simp add: settled_state_def)
  qed simp
  then show ?thesis by (simp add: resetCommandLane_def Some Let_def)
qed

text \<open>Draining a list of lanes settles the state once every other lane is blocked.\<close>

lemma drain_list_settled:
  assumes "queue_wf X s" and "quiet s" and "\<And>m. m \<notin> set ls \<Longrightarrow> blocked m s"
  shows "settled_state (foldl (\<lambda>s l. drainReadyCommandLane l None s) s ls)"
  using assms
proof (induction ls arbitrary: s)
  case Nil
  then show ?case by (simp add: settled_state_def)
next
  case (Cons l ls)
  let ?t = "drainReadyCommandLane l None s"
  have rest: "m \<notin> set ls \<Longrightarrow> m \<notin> reach s l \<Longrightarrow> blocked m s" for m
    using Cons.prems(3) [of m] reach_self [OF Cons.prems(1), of l] by (cases "m = l") auto
  note d = drainReady_blocked [where R = "set ls" and captured = None and l = l, OF Cons.prems(1,2) _ rest]
  have "settled_state (foldl (\<lambda>s l. drainReadyCommandLane l None s) ?t ls)"
  proof (rule Cons.IH)
    show "queue_wf X ?t" by (rule drainReady_wf_None [OF Cons.prems(1)])
    show "quiet ?t" by (rule d(1)) simp_all
    show "m \<notin> set ls \<Longrightarrow> blocked m ?t" for m by (rule d(4)) simp_all
  qed
  then show ?case by simp
qed

lemma reset_all_settled:
  assumes wf: "queue_wf X s" and s: "settled_state s"
  shows "settled_state (snd (resetAllLanes adm s))"
proof -
  let ?f = "\<lambda>s (_, a). putLane a (resetLaneState (cell s a)) s"
  let ?u = "foldl ?f s (lanes s)"
  let ?ls = "map (\<lambda>(_, a). lane (cell s a)) (filter (\<lambda>(_, a). queue_length (queue (cell s a)) > 0) (lanes s))"
  have ls: "\<forall>(l, a) \<in> set (lanes s). a < length (heap s)" using lanes_addresses [OF wf] by auto
  have w: "queue_wf X ?u" by (rule reset_cells_wf [OF wf ls])
  have q: "quiet ?u"
    by (rule foldl_inv) (use s in \<open>auto simp: settled_state_def intro: reset_quiet\<close>)
  have queues: "queue (cell (foldl ?f t ps) a) = queue (cell t a)" for t :: "'a queue_state" and ps a
  proof (induction ps arbitrary: t)
    case (Cons p ps)
    obtain l b where p: "p = (l, b)" by (cases p)
    have "queue (cell (putLane b (resetLaneState (cell t b)) t) a) = queue (cell t a)"
      by (cases "b < length (heap t)"; cases "a = b")
        (simp_all add: resetLaneState_def list_update_beyond)
    with Cons show ?case by (simp add: p)
  qed simp
  have "blocked m ?u" if m: "m \<notin> set ?ls" for m
    unfolding blocked_def
  proof (intro allI impI)
    fix st assume st: "laneAt ?u m = Some st" "queue_length (queue st) > 0"
    then obtain a where a: "map_of (lanes s) m = Some a" "st = cell ?u a"
      by (auto simp: laneAt_def reset_all_frame)
    with queue_wf_registered [OF wf] have "lane (cell s a) = m" by blast
    moreover have "queue_length (queue (cell s a)) > 0" using st(2) unfolding a(2) queues .
    moreover have "(m, a) \<in> set (lanes s)" using a(1) by (rule map_of_SomeD)
    ultimately have "m \<in> set ?ls" by force
    with m show "resolveLaneBlockReason m ?u \<noteq> None" by blast
  qed
  note out = this
  have "settled_state (foldl (\<lambda>s l. drainReadyCommandLane l None s) ?u ?ls)"
    by (rule drain_list_settled [OF w q]) (rule out)
  then show ?thesis by (simp only: resetAllLanes_def Let_def snd_conv)
qed

subsection \<open>Publication\<close>

definition published :: "nat multiset \<Rightarrow> string list \<times> 't queue_state \<Rightarrow> bool" where
  "published X acc \<longleftrightarrow> queue_wf X (snd acc) \<and> quiet (snd acc) \<and>
     (\<forall>m. m \<notin> set (fst acc) \<longrightarrow> blocked m (snd acc))"

lemma set_fold_set_add: "set (fold set_add xs acc) = set acc \<union> set xs"
  by (rule fold_set_add)

text \<open>Editing the groups leaves a lane blocked whose own group does not change.\<close>

lemma groups_blocked_same:
  assumes "blocked m s" and "getLaneGroup m (s\<lparr>laneGroups := gs, laneGroupByLane := byLane\<rparr>) = getLaneGroup m s"
  shows "blocked m (s\<lparr>laneGroups := gs, laneGroupByLane := byLane\<rparr>)"
proof -
  have "laneAt (s\<lparr>laneGroups := gs, laneGroupByLane := byLane\<rparr>) m = laneAt s m" by (simp add: laneAt_def)
  then show ?thesis
    by (rule blocked_frame_same [OF assms(1)]) (simp_all add: count_groups assms(2))
qed

lemma groups_quiet: "quiet (s\<lparr>laneGroups := gs, laneGroupByLane := byLane\<rparr>) = quiet s"
  by (simp add: quiet_def calm_def)

lemma publishLane_published: "published X acc \<Longrightarrow> published X (publishLane acc cfg)"
  unfolding published_def publishLane_def Let_def
  by (auto simp: setLaneWidth_wf width_effect)

lemma same_group:
  assumes "registry_ok (laneGroups s) (laneGroupByLane s)" and "registry_ok (laneGroups t) (laneGroupByLane t)"
    and "\<And>h. m \<in> set (members h) \<Longrightarrow>
      map_of (laneGroups t) (group h) = Some h \<longleftrightarrow> map_of (laneGroups s) (group h) = Some h"
  shows "getLaneGroup m t = getLaneGroup m s"
proof -
  have "getLaneGroup m t = Some h \<longleftrightarrow> getLaneGroup m s = Some h" for h
    using getLaneGroup_iff [OF assms(1)] getLaneGroup_iff [OF assms(2)] assms(3) by blast
  then show ?thesis by (metis option.exhaust)
qed

lemma publishClear_published:
  assumes "published X acc"
  shows "published X (publishClear acc g)"
proof (cases "map_of (laneGroups (snd acc)) g")
  case None
  with assms show ?thesis by (simp add: publishClear_def)
next
  case (Some old)
  let ?s = "snd acc"
  let ?t = "?s\<lparr>laneGroups := AList.delete g (laneGroups ?s),
      laneGroupByLane := forgetMembers (members old) (laneGroupByLane ?s)\<rparr>"
  from assms have wf: "queue_wf X ?s" and b: "\<And>m. m \<notin> set (fst acc) \<Longrightarrow> blocked m ?s" and q: "quiet ?s"
    by (simp_all add: published_def)
  then have r: "registry_ok (laneGroups ?s) (laneGroupByLane ?s)" by (simp add: queue_wf_def)
  from Some r have gn: "group old = g" by (simp add: registry_ok_def)
  have rt: "registry_ok (laneGroups ?t) (laneGroupByLane ?t)" using remove_group_ok [OF r Some] by simp
  have "blocked m ?t" if m: "m \<notin> set (fst acc)" "m \<notin> set (members old)" for m
  proof (rule groups_blocked_same [OF b [OF m(1)]], rule same_group [OF r rt])
    fix h :: lane_group_state assume "m \<in> set (members h)"
    then show "map_of (laneGroups ?t) (group h) = Some h \<longleftrightarrow> map_of (laneGroups ?s) (group h) = Some h"
      using m(2) Some by (auto simp: map_of_delete_if)
  qed
  moreover have "queue_wf X (snd (publishClear acc g))" by (rule publishClear_wf [OF wf])
  moreover have "publishClear acc g = (fold set_add (members old) (fst acc), ?t)"
    using Some by (simp add: publishClear_def)
  ultimately show ?thesis using q by (simp add: published_def set_fold_set_add groups_quiet)
qed

lemma laneGroups_install:
  "n \<noteq> '''' \<Longrightarrow> n \<noteq> group nxt \<Longrightarrow> map_of (laneGroups (installCommandLaneGroup nxt s)) n =
    map_option (\<lambda>g. g\<lparr>members := filter (\<lambda>l. \<not> (l \<in> set (members nxt) \<and>
       map_of (case map_of (laneGroups s) (group nxt) of
          Some previous \<Rightarrow> forgetMembers (members previous) (laneGroupByLane s)
        | None \<Rightarrow> laneGroupByLane s) l = Some n)) (members g)\<rparr>) (map_of (laneGroups s) n)"
  by (simp add: installCommandLaneGroup_def Let_def map_of_update_if map_of_detachMembers)

text \<open>
  A lane that is neither a member of the new group, nor of the one it replaces, nor a sibling of a
  member the new group takes over, keeps its group.
\<close>

lemma install_same_group:
  assumes r: "registry_ok (laneGroups s) (laneGroupByLane s)"
    and nxt: "group_ok nxt" "group nxt \<noteq> ''''"
    and m: "m \<notin> set (members nxt)"
      "\<And>previous. map_of (laneGroups s) (group nxt) = Some previous \<Longrightarrow> m \<notin> set (members previous)"
      "\<And>x. x \<in> set (members nxt) \<Longrightarrow> m \<notin> set (previousSiblings s x)"
  shows "getLaneGroup m (installCommandLaneGroup nxt s) = getLaneGroup m s"
proof (rule same_group [OF r install_registry_ok(1) [OF r nxt]])
  let ?t = "installCommandLaneGroup nxt s"
  fix h :: lane_group_state assume mh: "m \<in> set (members h)"
  show "map_of (laneGroups ?t) (group h) = Some h \<longleftrightarrow> map_of (laneGroups s) (group h) = Some h"
  proof (cases "group h = group nxt")
    case True
    with install_registry_ok(2) [OF r nxt] m(1,2) mh show ?thesis by auto
  next
    case other: False
    show ?thesis
    proof (cases "group h = ''''")
      case True
      with r install_registry_ok(1) [OF r nxt] show ?thesis by (simp add: registry_ok_def)
    next
      case False
      note eq = laneGroups_install [OF False other, of s]
      have keep: "map_of (laneGroups ?t) (group h) = map_of (laneGroups s) (group h)"
        if g: "map_of (laneGroups s) (group h) = Some g" "m \<in> set (members g)" for g
      proof -
        have "x \<notin> set (members nxt)" if x: "x \<in> set (members g)" for x
        proof
          assume xn: "x \<in> set (members nxt)"
          from r g(1) x have "map_of (laneGroupByLane s) x = Some (group h)"
            unfolding registry_ok_def by blast
          with g(1) have "previousSiblings s x = members g" by (simp add: previousSiblings_def)
          with m(3) [OF xn] g(2) show False by simp
        qed
        then have "filter (\<lambda>l. \<not> (l \<in> set (members nxt) \<and> P l)) (members g) = members g" for P
          by (auto simp: filter_id_conv)
        then show ?thesis using g(1) eq by simp
      qed
      show ?thesis
      proof
        assume t: "map_of (laneGroups ?t) (group h) = Some h"
        obtain g where g: "map_of (laneGroups s) (group h) = Some g"
          "set (members h) \<subseteq> set (members g)"
        proof (cases "map_of (laneGroups s) (group h)")
          case None
          with eq t show thesis by simp
        next
          case (Some g)
          obtain Q where "map_of (laneGroups ?t) (group h) =
              map_option (\<lambda>g. g\<lparr>members := filter Q (members g)\<rparr>) (map_of (laneGroups s) (group h))"
            using eq by blast
          with t Some have "h = g\<lparr>members := filter Q (members g)\<rparr>" by simp
          from arg_cong [OF this, of members] have "members h = filter Q (members g)" by simp
          with Some show thesis by (intro that [OF Some]) auto
        qed
        with keep [OF g(1)] mh t show "map_of (laneGroups s) (group h) = Some h" by auto
      next
        assume "map_of (laneGroups s) (group h) = Some h"
        with keep [OF this mh] show "map_of (laneGroups ?t) (group h) = Some h" by simp
      qed
    qed
  qed
qed

lemma publishGroup_published:
  assumes "published X acc" and nxt: "group_ok nxt" "group nxt \<noteq> ''''"
  shows "published X (publishGroup acc nxt)"
proof -
  let ?s = "snd acc" and ?t = "installCommandLaneGroup nxt (snd acc)"
  from assms(1) have wf: "queue_wf X ?s" and b: "\<And>m. m \<notin> set (fst acc) \<Longrightarrow> blocked m ?s" and q: "quiet ?s"
    by (simp_all add: published_def)
  then have r: "registry_ok (laneGroups ?s) (laneGroupByLane ?s)" by (simp add: queue_wf_def)
  have touched: "set (fst (publishGroup acc nxt)) = set (fst acc) \<union>
      (case map_of (laneGroups ?s) (group nxt) of Some previous \<Rightarrow> set (members previous) | None \<Rightarrow> {}) \<union>
      (\<Union>x \<in> set (members nxt). set (previousSiblings ?s x)) \<union> set (members nxt)"
    by (auto simp: publishGroup_def Let_def set_fold_set_add split: option.split)
  have "blocked m ?t" if m: "m \<notin> set (fst (publishGroup acc nxt))" for m
  proof -
    have "getLaneGroup m ?t = getLaneGroup m ?s"
      by (rule install_same_group [OF r nxt]) (use m in \<open>auto simp: touched\<close>)
    then show ?thesis
      using m b by (subst install_frame, intro groups_blocked_same) (auto simp: touched install_frame [symmetric])
  qed
  moreover have "quiet ?t" by (subst install_frame) (simp add: groups_quiet q)
  moreover have "queue_wf X ?t" by (rule install_wf [OF wf nxt])
  moreover have "snd (publishGroup acc nxt) = ?t" by (simp add: publishGroup_def Let_def)
  ultimately show ?thesis by (simp add: published_def)
qed

lemma commit_settled:
  "queue_wf X s \<Longrightarrow> quiet s \<Longrightarrow> (\<And>m. m \<notin> set ls \<Longrightarrow> blocked m s) \<Longrightarrow> settled_state (foldl commitLane s ls)"
proof (induction ls arbitrary: s)
  case Nil
  then show ?case by (simp add: settled_state_def)
next
  case (Cons l ls)
  have "quiet (commitLane s l) \<and> (\<forall>m. m \<notin> set ls \<longrightarrow> blocked m (commitLane s l))"
  proof (cases "commitLane s l = drainReadyCommandLane l None s")
    case True
    have rest: "m \<notin> set ls \<Longrightarrow> m \<notin> reach s l \<Longrightarrow> blocked m s" for m
      using Cons.prems(3) [of m] reach_self [OF Cons.prems(1), of l] by (cases "m = l") auto
    note d = drainReady_blocked [where R = "set ls" and captured = None and l = l, OF Cons.prems(1,2) _ rest]
    show ?thesis unfolding True using d(1) d(4) by blast
  next
    case False
    then have same: "commitLane s l = s" by (auto simp: commitLane_def split: option.splits)
    have "blocked l s"
      unfolding blocked_def
    proof (intro allI impI)
      fix st assume st: "laneAt s l = Some st" "queue_length (queue st) > 0"
      then obtain a where a: "map_of (lanes s) l = Some a" "st = cell s a" by (auto simp: laneAt_def)
      with queue_wf_registered [OF Cons.prems(1)] have "a < length (heap s)" by blast
      with Cons.prems(2) a have "\<not> draining st" by (simp add: quiet_def calm_def)
      with False st have "\<not> maxConcurrent st > 0" by (auto simp: commitLane_def)
      with st(1) have "lane_full l s" by (simp add: lane_full_def)
      then show "resolveLaneBlockReason l s \<noteq> None" by (simp add: resolve_None_iff)
    qed
    with Cons.prems(2,3) show ?thesis unfolding same by (metis set_ConsD)
  qed
  with Cons.IH [of "commitLane s l"] commitLane_wf [OF Cons.prems(1)] show ?case by simp
qed

lemma publish_settled:
  assumes wf: "queue_wf X s" and s: "settled_state s" and p: "publishLaneConfiguration config s = Inr t"
    and ne: "'''' \<notin> fst ` set (cfg_groups config)"
  shows "settled_state t"
proof (rule publish_cases [OF p ne])
  fix validated assume v: "\<And>G. G \<in> set validated \<Longrightarrow> group_ok G \<and> group G \<noteq> ''''"
    and t: "t = foldl commitLane (snd (publishInstalled config validated s))
      (fst (publishInstalled config validated s))"
  have start: "published X ([], s)" using wf s by (simp add: published_def settled_state_def)
  have "published X (publishInstalled config validated s)"
    unfolding publishInstalled_def
    by (intro foldl_inv [where Q = "published X"] start publishLane_published publishClear_published
        publishGroup_published) (use v in simp_all)
  then show "settled_state t" unfolding t published_def by (intro commit_settled) auto
qed

lemma work_step_settled: "work_step s t \<Longrightarrow> queue_wf X s \<Longrightarrow> settled_state s \<Longrightarrow> settled_state t"
proof (erule work_step.cases)
  fix s' :: "'a queue_state" and now
  assume "settled_state s" "s = s'" "t = s'\<lparr>nowMs := now\<rparr>"
  then show "settled_state t" by (auto intro: settled_cong)
qed (auto intro: enqueue_settled concurrency_settled finish_settled clear_settled reset_settled reset_all_settled)

lemma queue_step_settled: "queue_step s t \<Longrightarrow> queue_wf X s \<Longrightarrow> settled_state s \<Longrightarrow> settled_state t"
  by (erule queue_step.cases) (blast intro: work_step_settled publish_settled)+

lemma reachable_settled: "queue_reachable s \<Longrightarrow> queue_wf {#} s \<and> settled_state s"
  unfolding queue_reachable_def
  by (induction rule: rtranclp_induct) (auto intro: initial_wf initial_settled queue_step_wf queue_step_settled)

section \<open>The order of starts\<close>

text \<open>The entries started by a drain, oldest first: what it added to the running closures.\<close>

lemma loop_starts_in_order:
  assumes "queue_wf X s" and "map_of (lanes s) l = Some a" and "getLaneGroup l s = None"
    and "queue_length (queue (cell s a)) \<le> fuel"
  shows "\<exists>rs. running (snd (drainLaneLoop fuel l a None k s)) = running s @ rs \<and>
    map run_entry rs = take (nat (maxConcurrent (cell s a) - int (length (activeTaskIds (cell s a)))))
      (lane_list (queue (cell s a)))"
  using assms
proof (induction fuel arbitrary: k s)
  case 0
  from queue_wf_registered [OF 0(1,2)] have "a < length (heap s)" by simp
  from queue_wf_cell [OF 0(1) this] 0(4) have "lane_list (queue (cell s a)) = []"
    by (simp add: queue_length_lane_list)
  then show ?case by simp
next
  case (Suc fuel)
  from queue_wf_registered [OF Suc.prems(1,2)] have a: "a < length (heap s)" by simp
  note ok = queue_wf_cell [OF Suc.prems(1) a]
  have adm: "canAdmitInGroup l s"
    using Suc.prems(3) by (simp add: canAdmitInGroup_def resolveLaneBlockReason_def)
  show ?case
  proof (cases "int (length (activeTaskIds (cell s a))) < maxConcurrent (cell s a) \<and> queue_length (queue (cell s a)) > 0")
    case False
    then have "take (nat (maxConcurrent (cell s a) - int (length (activeTaskIds (cell s a)))))
        (lane_list (queue (cell s a))) = []"
      using ok by (auto simp: queue_length_lane_list)
    with False adm show ?thesis by (auto simp: Let_def)
  next
    case True
    then have q: "queue_length (queue (cell s a)) > 0" by simp
    note eff = start_effect [OF Suc.prems(1,2) q]
    let ?t = "startNext l a s"
    obtain e d where d: "lane_list (queue (cell s a)) = e # lane_list d"
      and t: "running ?t = running s @ [\<lparr>run_lane = l, run_state = a, run_entry = e,
          run_taskId = nextTaskId s, run_generation = generation (cell s a)\<rparr>]"
        "cell ?t a = (cell s a)\<lparr>queue := d, activeTaskIds := activeTaskIds (cell s a) @ [nextTaskId s]\<rparr>"
      by (rule startNext_eq [OF ok q fresh_task_id(1) [OF Suc.prems(1) a], of l]) (use a in simp)
    have "queue_wf X ?t" by (rule startNext_wf [OF Suc.prems(1) a Suc.prems(2) q])
    moreover have "queue_length (queue (cell ?t a)) \<le> fuel" using Suc.prems(4) q unfolding eff(10) by simp
    moreover have "getLaneGroup l ?t = None" using Suc.prems(3) getLaneGroup_cong [OF eff(3,4)] by simp
    ultimately obtain rs where rs: "running (snd (drainLaneLoop fuel l a None (k + 1) ?t)) = running ?t @ rs"
      "map run_entry rs = take (nat (maxConcurrent (cell ?t a) - int (length (activeTaskIds (cell ?t a)))))
        (lane_list (queue (cell ?t a)))"
      using Suc.IH [of ?t "k + 1"] Suc.prems(2) eff(6) by auto
    obtain j where j: "nat (maxConcurrent (cell s a) - int (length (activeTaskIds (cell s a)))) = Suc j"
      using True by (cases "nat (maxConcurrent (cell s a) - int (length (activeTaskIds (cell s a))))") auto
    then have "nat (maxConcurrent (cell ?t a) - int (length (activeTaskIds (cell ?t a)))) = j"
      by (simp add: t(2))
    with rs t d j True adm show ?thesis by (auto simp: Let_def)
  qed
qed

section \<open>Properties\<close>

abbreviation demoOptions :: enqueue_options where
  "demoOptions \<equiv> \<lparr>opt_warnAfterMs = None, opt_onWait = False, opt_taskTimeoutMs = JOther,
     opt_taskTimeoutProgress = False, opt_taskTimeoutAbortGraceMs = JOther, opt_priority = None\<rparr>"

definition demoWaiting :: "nat queue_state" where
  "demoWaiting = snd (enqueueCommandInLane None initialAdmissionState ''x'' 2 demoOptions
     (snd (enqueueCommandInLane None initialAdmissionState ''x'' 1 demoOptions initialQueueState)))"

lemma demoWaiting_reachable: "queue_reachable demoWaiting"
  unfolding queue_reachable_def demoWaiting_def
  by (rule rtranclp.rtrancl_into_rtrancl [OF r_into_rtranclp]; rule queue_step.work, rule work_step.enqueue)

lemma demoWaiting_lane: "\<exists>st. laneAt demoWaiting ''x'' = Some st \<and> queue_length (queue st) = 1 \<and> activeTaskIds st = [1]"
proof -
  have "map_option (\<lambda>st. (queue_length (queue st), activeTaskIds st)) (laneAt demoWaiting ''x'') = Some (1, [1])"
    by code_simp
  then show ?thesis by auto
qed

text \<open>
  C1. No admissible work is left waiting: in every state the queue can reach through its exported
  operations and task completions, in any order, a lane with queued commands is never idle without
  cause: either its own width is used up or its group refuses it for the budget or a sibling's
  reservation. Together with the fact that no drain is then in progress, this says that no wake-up
  is ever lost, neither by completions, timeouts, clears, resets nor reconfigurations.
\<close>

theorem no_admissible_work_waits:
  assumes "queue_reachable s" and "laneAt s l = Some st" and "queue_length (queue st) > 0"
  shows "\<not> draining st \<and> drainingGroups s = [] \<and>
    (\<exists>reason. resolveLaneBlockReason l s = Some reason)"
proof -
  from reachable_settled [OF assms(1)] have wf: "queue_wf {#} s" and s: "settled_state s" by simp_all
  from assms(2) obtain a where a: "map_of (lanes s) l = Some a" "st = cell s a" by (auto simp: laneAt_def)
  with queue_wf_registered [OF wf] have "a < length (heap s)" by blast
  with s a have "\<not> draining st" "drainingGroups s = []" by (simp_all add: settled_state_def quiet_def calm_def)
  moreover have "resolveLaneBlockReason l s \<noteq> None"
    using s assms(2,3) by (simp add: settled_state_def blocked_def)
  ultimately show ?thesis by blast
qed

theorem no_admissible_work_waits_witness:
  "queue_reachable demoWaiting \<and> (\<exists>reason. resolveLaneBlockReason ''x'' demoWaiting = Some reason)"
proof -
  from demoWaiting_lane obtain st where st: "laneAt demoWaiting ''x'' = Some st" "queue_length (queue st) = 1" by auto
  from no_admissible_work_waits [OF demoWaiting_reachable st(1)] st(2) demoWaiting_reachable show ?thesis by simp
qed

text \<open>
  C2. Capacity is never exceeded by starting work: whatever operation runs from a reachable state,
  a publication that shrinks lanes and groups included, afterwards no lane runs more tasks than its
  width and no group more than its budget, unless it already ran that many before.
\<close>

theorem capacity_never_exceeded:
  assumes "queue_reachable s" and "queue_step s t"
  shows "(\<forall>l st. laneAt t l = Some st \<longrightarrow>
      getMemberActiveCount l t \<le> max (maxConcurrent st) (getMemberActiveCount l s)) \<and>
    (\<forall>n g. map_of (laneGroups t) n = Some g \<longrightarrow> groupActive g t \<le> max (budget g) (groupActive g s))"
  using queue_step_capped [OF assms(2) reachable_wf [OF assms(1)]]
  unfolding capped_def lanes_capped_def groups_capped_def by blast

theorem capacity_never_exceeded_witness:
  "getMemberActiveCount ''x'' demoWaiting \<le> 1"
proof -
  let ?s = "snd (enqueueCommandInLane None initialAdmissionState ''x'' (1 :: nat) demoOptions initialQueueState)"
  have r: "queue_reachable ?s"
    unfolding queue_reachable_def by (rule r_into_rtranclp, rule queue_step.work, rule work_step.enqueue)
  have st: "queue_step ?s demoWaiting"
    unfolding demoWaiting_def by (rule queue_step.work, rule work_step.enqueue)
  have m: "map_option maxConcurrent (laneAt demoWaiting ''x'') = Some 1" by code_simp
  have c: "getMemberActiveCount ''x'' ?s = 1" by code_simp
  from m obtain st' where st': "laneAt demoWaiting ''x'' = Some st'" "maxConcurrent st' = 1" by auto
  have "getMemberActiveCount ''x'' demoWaiting \<le> max (maxConcurrent st') (getMemberActiveCount ''x'' ?s)"
    by (rule capacity_never_exceeded [OF r st, THEN conjunct1, rule_format, OF st'(1)])
  then show ?thesis unfolding c st'(2) by simp
qed

text \<open>
  C3. Reservations are kept for good: once the groups' claims fit their budgets (as they do when a
  group is installed with idle members), they fit after any number of enqueues, completions, width
  changes, clears and resets; so a member below its reservation is never refused on account of its
  group, whatever its siblings have been doing.
\<close>

theorem reservations_never_borrowed:
  assumes "queue_reachable s" and "claims_ok s" and "work_step\<^sup>*\<^sup>* s t"
    and "getLaneGroup l t = Some g" and "getMemberActiveCount l t < reservedFor g l"
  shows "claims_ok t \<and> groupActive g t \<le> budget g \<and>
    resolveLaneBlockReason l t \<noteq> Some GroupBudget \<and> resolveLaneBlockReason l t \<noteq> Some SiblingReservation"
proof -
  from assms(3,1,2) have t: "queue_wf {#} t \<and> claims_ok t"
    by (induction rule: rtranclp_induct) (auto dest: reachable_wf work_step_wf work_step_claims)
  then have r: "registry_ok (laneGroups t) (laneGroupByLane t)" by (simp add: queue_wf_def)
  from assms(4) getLaneGroup_iff [OF r] have g: "map_of (laneGroups t) (group g) = Some g" "l \<in> set (members g)"
    by auto
  with t have claim: "groupClaim g t \<le> budget g" by (simp add: claims_ok_def)
  have "groupActive g t + 1 \<le> groupClaim g t"
    unfolding groupActive_def groupClaim_def
    by (rule sum_list_le_add [OF g(2)]) (use assms(5) in simp_all)
  with claim t assms(4,5) show ?thesis
    by (auto simp: resolveLaneBlockReason_def groupLoad_eq split: if_splits)
qed

definition demoConfig :: lane_configuration where
  "demoConfig = \<lparr>cfg_lanes = [(''h'', 2), (''n'', 2)],
     cfg_groups = [(''g'', \<lparr>spec_budget = 2, spec_members = [''h'', ''n''], spec_reservations = [(''h'', 1)]\<rparr>)],
     cfg_clearGroups = []\<rparr>"

definition demoPublished :: "nat queue_state" where
  "demoPublished = (case publishLaneConfiguration demoConfig initialQueueState of Inr t \<Rightarrow> t | Inl _ \<Rightarrow> initialQueueState)"

theorem reservations_never_borrowed_witness:
  "\<exists>g. getLaneGroup ''h'' demoPublished = Some g \<and> getMemberActiveCount ''h'' demoPublished < reservedFor g ''h'' \<and>
     resolveLaneBlockReason ''h'' demoPublished \<noteq> Some GroupBudget"
proof -
  let ?g = "\<lparr>group = ''g'', budget = 2, members = [''h'', ''n''], reservations = [(''h'', 1)]\<rparr>"
  have p: "publishLaneConfiguration demoConfig initialQueueState = Inr demoPublished" by code_simp
  have n: "'''' \<notin> fst ` set (cfg_groups demoConfig)" by (simp add: demoConfig_def)
  have r: "queue_reachable demoPublished"
    unfolding queue_reachable_def by (rule r_into_rtranclp, rule queue_step.publish [OF p n])
  have gs: "laneGroups demoPublished = [(''g'', ?g)]" by code_simp
  have cl: "groupClaim ?g demoPublished = 1" by code_simp
  have c: "claims_ok demoPublished" unfolding claims_ok_def gs using cl by simp
  have g: "getLaneGroup ''h'' demoPublished = Some ?g" by code_simp
  have a: "getMemberActiveCount ''h'' demoPublished < reservedFor ?g ''h''" by code_simp
  from reservations_never_borrowed [OF r c rtranclp.rtrancl_refl g a] g a show ?thesis by blast
qed

text \<open>
  C5. Slots do not leak and are not shared: in every reachable state the active ids of a lane object
  are exactly the ids of the started tasks of its current generation that have not completed, each
  id belongs to one task, and an object that has been retired holds neither slots nor commands. So
  each occupied slot has an owner whose completion will free it.
\<close>

theorem slots_have_owners:
  assumes "queue_reachable s" and "a < length (heap s)"
  shows "set (activeTaskIds (cell s a)) = run_taskId ` {r \<in> set (running s). run_state r = a \<and>
      run_generation r = generation (cell s a)} \<and> distinct (activeTaskIds (cell s a)) \<and>
    distinct (map run_taskId (running s)) \<and>
    (map_of (lanes s) (lane (cell s a)) \<noteq> Some a \<longrightarrow>
       activeTaskIds (cell s a) = [] \<and> lane_list (queue (cell s a)) = [])"
proof -
  from reachable_wf [OF assms(1)] have wf: "queue_wf {#} s" .
  with assms(2) have s: "set (activeTaskIds (cell s a)) = current_ids s a" "distinct (map run_taskId (running s))"
    "distinct (activeTaskIds (cell s a))"
    by (simp_all add: queue_wf_def slots_ok_def cells_ok_def)
  moreover have "activeTaskIds (cell s a) = [] \<and> lane_list (queue (cell s a)) = []"
    if "map_of (lanes s) (lane (cell s a)) \<noteq> Some a"
  proof -
    from that wf assms(2) have "queue_length (queue (cell s a)) = 0" "activeTaskIds (cell s a) = []"
      by (simp_all add: queue_wf_def cells_ok_def)
    with queue_length_lane_list [OF queue_wf_cell [OF wf assms(2)]] show ?thesis by simp
  qed
  ultimately show ?thesis unfolding current_ids_def by blast
qed

theorem slots_have_owners_witness:
  "set (activeTaskIds (cell demoWaiting 0)) = {1} \<and> run_taskId ` {r \<in> set (running demoWaiting). run_state r = 0 \<and>
      run_generation r = generation (cell demoWaiting 0)} = {1}"
proof -
  have n: "0 < length (heap demoWaiting)" by code_simp
  have "activeTaskIds (cell demoWaiting 0) = [1]" by code_simp
  then have "set (activeTaskIds (cell demoWaiting 0)) = {1}" by simp
  with slots_have_owners [OF demoWaiting_reachable n] show ?thesis by simp
qed

text \<open>
  C4. No command is lost, duplicated or settled twice: the commands accepted so far are numbered
  consecutively, and in every reachable state each of them is in exactly one place, queued in one
  lane, running, or settled, across clears, resets, retired lanes and late completions alike.
\<close>

theorem commands_accounted_once:
  assumes "queue_reachable s"
  shows "queued_promises s + running_promises s + settled_promises s = mset [1..<nextQueueSequence s] \<and>
    distinct (concat (map settled_by (queueEffects s)))"
proof -
  from reachable_wf [OF assms] have eq: "queued_promises s + running_promises s + settled_promises s
      = mset [1..<nextQueueSequence s]" by (simp add: queue_wf_def promises_ok_def)
  have "count (mset (concat (map settled_by (queueEffects s)))) p \<le> 1" for p
  proof -
    have "count (settled_promises s) p \<le> count (mset [1..<nextQueueSequence s]) p"
      unfolding eq [symmetric] by simp
    also have "\<dots> \<le> 1" using distinct_upt [of 1 "nextQueueSequence s"] by (simp add: distinct_count_atmost_1)
    finally show ?thesis by (simp add: settled_promises_def)
  qed
  then have "distinct (concat (map settled_by (queueEffects s)))"
    by (metis (full_types) count_eq_zero_iff distinct_count_atmost_1 le_antisym less_one not_less set_mset_mset)
  with eq show ?thesis by simp
qed

theorem commands_accounted_once_witness:
  "queued_promises demoWaiting + running_promises demoWaiting + settled_promises demoWaiting = {#1, 2#}"
proof -
  have "nextQueueSequence demoWaiting = 3" by code_simp
  with commands_accounted_once [OF demoWaiting_reachable] show ?thesis by (simp add: upt_rec)
qed


definition demoStale :: "nat running_task" where
  "demoStale = hd (running demoWaiting)"

definition demoReset :: "nat queue_state" where
  "demoReset = snd (resetCommandLane ''x'' demoWaiting)"


text \<open>
  A lane outside any group starts its commands strictly in queue order, as many as it has free
  slots for: an unbounded drain starts exactly the first entries of its queue, by priority and then
  arrival, up to the free width, and leaves the rest.
\<close>

theorem drain_starts_in_order:
  assumes "queue_reachable s" and "map_of (lanes s) l = Some a" and "getLaneGroup l s = None"
  shows "\<exists>rs. running (snd (drainLane l None None s)) = running s @ rs \<and>
    map run_entry rs = take (nat (maxConcurrent (cell s a) - int (length (activeTaskIds (cell s a)))))
      (lane_list (queue (cell s a)))"
proof -
  from reachable_settled [OF assms(1)] have wf: "queue_wf {#} s" and calm: "calm s"
    by (simp_all add: settled_state_def quiet_def)
  from queue_wf_registered [OF wf assms(2)] have a: "a < length (heap s)" by simp
  with calm have nd: "\<not> draining (cell s a)" by (simp add: calm_def)
  have as: "(case None of Some a \<Rightarrow> (a, s) | None \<Rightarrow> getLaneState l s) = (a, s)"
    using assms(2) by (simp add: getLaneState_def)
  show ?thesis
  proof (rule drainLane_unfold [OF as nd, where n = None])
    let ?s1 = "putLane a ((cell s a)\<lparr>draining := True\<rparr>) s"
    fix k s2
    assume loop: "drainLaneLoop (queue_length (queue (cell s a))) l a None 0 ?s1 = (k, s2)"
      and d: "drainLane l None None s =
        (k, retireIdleScopedCommandLane a (putLane a ((cell s2 a)\<lparr>draining := False\<rparr>) s2))"
    have "running (snd (drainLane l None None s)) = running s2"
      unfolding d by (cases rule: retire_cases [of a "putLane a ((cell s2 a)\<lparr>draining := False\<rparr>) s2"]) simp_all
    moreover have "getLaneGroup l ?s1 = None" using assms(3) getLaneGroup_cong [of ?s1 s l] by simp
    ultimately show ?thesis
      using loop_starts_in_order [OF flag_wf [OF wf a], where l = l and a = a and b1 = True
          and fuel = "queue_length (queue (cell s a))" and k = 0] loop assms(2) a by simp
  qed
qed

theorem drain_starts_in_order_witness:
  "map_of (lanes demoWaiting) ''x'' = Some 0 \<and> getLaneGroup ''x'' demoWaiting = None \<and>
   (\<exists>rs. running (snd (drainLane ''x'' None None demoWaiting)) = running demoWaiting @ rs)"
proof -
  have l: "map_of (lanes demoWaiting) ''x'' = Some 0" and g: "getLaneGroup ''x'' demoWaiting = None" by code_simp+
  from drain_starts_in_order [OF demoWaiting_reachable l g] l g show ?thesis by blast
qed

end
