(* ===== verification/IngressTypes.thy ===== *)
theory IngressTypes
  imports Prelude NumberCoercion
begin

text \<open>
  Data of the channel ingress access kernel (\<open>src/channels/message-access/types.ts\<close> and the
  mention facts of \<open>src/channels/mention-gating.ts\<close>).

  A union of string literals is a datatype with one constructor per literal, an object type a
  record, an optional field an \<open>option\<close>. Field names carry a short prefix of their record because
  field selectors are global. An \<open>Array<string | number>\<close> is a list of \<open>raw_entry\<close>; the numeric
  ids are whole numbers, and every use of an entry goes through \<open>String(entry)\<close>.
\<close>

section \<open>Identifiers and allowlist material\<close>

datatype raw_entry = RawStr string | RawNum int

fun entry_string :: "raw_entry \<Rightarrow> string" where
  "entry_string (RawStr s) = s"
| "entry_string (RawNum n) = string_of_int n"

text \<open>\<open>normalizeStringEntries\<close> of a list of strings and numbers.\<close>

definition normalizeEntryList :: "raw_entry list \<Rightarrow> string list" where
  "normalizeEntryList xs = normalizeStringEntries (map entry_string xs)"

datatype identifier_kind = StableId | Username | Email | Phone | RoleId | PluginKind string

datatype sensitivity = Normal | Pii

text \<open>Truthiness of an optional boolean.\<close>

definition is_true :: "bool option \<Rightarrow> bool" where
  "is_true b \<longleftrightarrow> b = Some True"

lemma is_true_simps [simp]: "is_true None = False" "is_true (Some b) = b"
  by (auto simp: is_true_def)

record match_material =
  mm_opaqueId :: string
  mm_kind :: identifier_kind
  mm_dangerous :: "bool option"
  mm_sensitivity :: "sensitivity option"
  mm_value :: string

record ingress_subject =
  identifiers :: "match_material list"

text \<open>
  \<open>ChannelIngressNormalizedEntry\<close> (redacted, no comparable value) and \<open>InternalNormalizedEntry\<close>
  (the same with the raw value): the second extends the first.
\<close>

record normalized_entry =
  ne_opaqueEntryId :: string
  ne_kind :: identifier_kind
  ne_dangerous :: "bool option"
  ne_sensitivity :: "sensitivity option"

record internal_entry = normalized_entry +
  ne_value :: string

datatype reason_code =
    allowed_reason | route_blocked | route_sender_empty
  | dm_policy_disabled | dm_policy_open | dm_policy_allowlisted | dm_policy_pairing_required
  | dm_policy_not_allowlisted
  | group_policy_disabled | group_policy_open | group_policy_allowed | group_policy_empty_allowlist
  | group_policy_not_allowlisted
  | command_authorized | control_command_unauthorized
  | event_authorized | event_unauthorized | event_pairing_not_allowed | sender_not_required
  | origin_subject_missing | origin_subject_not_matched
  | activation_allowed | activation_skipped
  | access_group_missing | access_group_unsupported | access_group_failed
  | mutable_identifier_disabled | no_policy_match

record entry_diagnostic =
  ed_opaqueEntryId :: "string option"
  ed_reasonCode :: reason_code

record ingress_match =
  im_matched :: bool
  im_matchedEntryIds :: "string list"

record normalize_result =
  nr_matchable :: "internal_entry list"
  nr_invalid :: "entry_diagnostic list"
  nr_disabled :: "entry_diagnostic list"

datatype match_context = DmContext | GroupContext | RouteContext | CommandContext

text \<open>The adapter of a channel: an interface, here the record of its two operations.\<close>

record ingress_adapter =
  normalizeEntriesOf :: "string list \<Rightarrow> match_context \<Rightarrow> string \<Rightarrow> normalize_result"
  matchSubjectOf :: "ingress_subject \<Rightarrow> internal_entry list \<Rightarrow> match_context \<Rightarrow> ingress_match"

section \<open>Access groups and resolved allowlists\<close>

datatype fact_source = StaticFact | DynamicFact

datatype membership_fact =
    FactMatched (factGroupName: string) fact_source "string list"
  | FactNotMatched (factGroupName: string) fact_source
  | FactMissing (factGroupName: string) fact_source reason_code "string option"
  | FactUnsupported (factGroupName: string) fact_source reason_code "string option"
  | FactFailed (factGroupName: string) fact_source reason_code "string option"

text \<open>
  \<open>AccessGroupConfig\<close> (\<open>src/config/types.access-groups.ts\<close>): a static sender group lists its
  members by channel (key \<open>*\<close> for all), a Discord audience names a guild and a channel.
\<close>

datatype access_group_config =
    MessageSenders "(string \<times> string list) list"
  | DiscordChannelAudience (guildId: string) (audienceChannelId: string)

record group_facts =
  ag_referenced :: "string list"
  ag_matched :: "string list"
  ag_missing :: "string list"
  ag_unsupported :: "string list"
  ag_failed :: "string list"

record resolved_allowlist =
  rawEntryCount :: nat
  normalizedEntries :: "normalized_entry list"
  invalidEntries :: "entry_diagnostic list"
  disabledEntries :: "entry_diagnostic list"
  matchedEntryIds :: "string list"
  hasConfiguredEntries :: bool
  hasMatchableEntries :: bool
  hasWildcard :: bool
  accessGroups :: group_facts
  al_match :: ingress_match

record allowlist_facts =
  af_configured :: bool
  af_matched :: bool
  af_reasonCode :: reason_code
  af_matchedEntryIds :: "string list"
  af_invalidEntryCount :: nat
  af_disabledEntryCount :: nat
  af_accessGroups :: group_facts

section \<open>Routes and events\<close>

datatype route_gate_state = RouteNotConfigured | RouteMatched | RouteNotMatched | RouteDisabled | RouteLookupFailed
datatype route_sender_policy = Inherit | Replace | DenyWhenEmpty
datatype sender_source = EffectiveDm | EffectiveGroup
datatype gate_kind =
    RouteKind | RouteSenderKind | DmSenderKind | GroupSenderKind | MembershipKind
  | OwnerAllowlistKind | NestedAllowlistKind | CommandKind | EventKind | MentionKind
datatype gate_effect = Allow | BlockDispatch | BlockCommand | Skip | Observe | Ignore
datatype gate_phase = RoutePhase | SenderPhase | CommandPhase | EventPhase | ActivationPhase

text \<open>The kinds and effects a route fact can carry, and the gate kinds and effects they become.\<close>

datatype route_kind = RtRoute | RtRouteSender | RtMembership | RtOwnerAllowlist | RtNestedAllowlist
datatype route_effect = RtAllow | RtBlockDispatch | RtIgnore

fun gateKindOfRoute :: "route_kind \<Rightarrow> gate_kind" where
  "gateKindOfRoute RtRoute = RouteKind"
| "gateKindOfRoute RtRouteSender = RouteSenderKind"
| "gateKindOfRoute RtMembership = MembershipKind"
| "gateKindOfRoute RtOwnerAllowlist = OwnerAllowlistKind"
| "gateKindOfRoute RtNestedAllowlist = NestedAllowlistKind"

fun gateEffectOfRoute :: "route_effect \<Rightarrow> gate_effect" where
  "gateEffectOfRoute RtAllow = Allow"
| "gateEffectOfRoute RtBlockDispatch = BlockDispatch"
| "gateEffectOfRoute RtIgnore = Ignore"

record route_gate_facts =
  rg_id :: string
  rg_kind :: route_kind
  rg_gate :: route_gate_state
  rg_effect :: route_effect
  rg_precedence :: int
  rg_senderPolicy :: route_sender_policy
  rg_senderAllowFrom :: "raw_entry list option"
  rg_senderAllowFromSource :: "sender_source option"
  rg_match :: "ingress_match option"

record resolved_route =
  rr_id :: string
  rr_kind :: route_kind
  rr_gate :: route_gate_state
  rr_effect :: route_effect
  rr_precedence :: int
  rr_senderPolicy :: route_sender_policy
  rr_match :: "ingress_match option"
  rr_senderAllowlist :: "resolved_allowlist option"

datatype event_kind =
    MessageEvent | ReactionEvent | ButtonEvent | PostbackEvent | NativeCommandEvent
  | SlashCommandEvent | SystemEvent
datatype event_auth_mode = AuthInbound | AuthCommand | AuthOriginSubject | AuthRouteOnly | AuthNone

record event_input =
  ei_kind :: event_kind
  ei_authMode :: event_auth_mode
  ei_mayPair :: bool
  ei_originSubject :: "ingress_subject option"

record redacted_event =
  ev_kind :: event_kind
  ev_authMode :: event_auth_mode
  ev_mayPair :: bool
  ev_hasOriginSubject :: bool
  ev_originSubjectMatched :: bool

datatype conversation_kind = Direct | Group | Channel

datatype implicit_mention_kind = ReplyToBot | QuotedBot | BotThreadParticipant | NativeMention

record mention_facts =
  mf_canDetectMention :: bool
  mf_wasMentioned :: bool
  mf_hasAnyMention :: "bool option"
  mf_implicitMentionKinds :: "implicit_mention_kind list option"

section \<open>Input, policy and resolved state\<close>

record conversation_ref =
  cv_kind :: conversation_kind
  cv_id :: string
  cv_parentId :: "string option"
  cv_threadId :: "string option"
  cv_title :: "string option"

record allowlist_input =
  ai_dm :: "raw_entry list option"
  ai_group :: "raw_entry list option"
  ai_commandOwner :: "raw_entry list option"
  ai_commandGroup :: "raw_entry list option"
  ai_pairingStore :: "raw_entry list option"

record state_input =
  in_channelId :: string
  in_accountId :: string
  in_subject :: ingress_subject
  in_conversation :: conversation_ref
  in_adapter :: ingress_adapter
  in_accessGroups :: "(string \<times> access_group_config) list option"
  in_accessGroupMembership :: "membership_fact list option"
  in_routeFacts :: "route_gate_facts list option"
  in_mentionFacts :: "mention_facts option"
  in_event :: event_input
  in_allowlists :: allowlist_input

datatype dm_policy = DmPairing | DmAllowlist | DmOpen | DmDisabled
datatype group_policy = GroupAllowlist | GroupOpen | GroupDisabled
datatype sender_policy = DmPolicyOf dm_policy | GroupPolicyOf group_policy
datatype mutable_matching = MutableDisabled | MutableEnabled
datatype activation_order = BeforeSender | AfterCommand
datatype gating_mode_off = ModeAllow | ModeDeny | ModeConfigured

text \<open>\<open>ChannelImplicitMentionsConfig\<close>; its resolved form has every field present.\<close>

record implicit_mentions =
  replyToBot :: "bool option"
  quotedBot :: "bool option"
  threadParticipation :: "bool option"

record activation_policy =
  ap_requireMention :: bool
  ap_allowTextCommands :: bool
  ap_implicitMentions :: "implicit_mentions option"
  ap_allowedImplicitMentionKinds :: "implicit_mention_kind list option"
  ap_order :: "activation_order option"

record command_policy =
  cp_useAccessGroups :: "bool option"
  cp_allowTextCommands :: bool
  cp_hasControlCommand :: bool
  cp_modeWhenAccessGroupsOff :: "gating_mode_off option"

record policy_input =
  po_dmPolicy :: dm_policy
  po_groupPolicy :: group_policy
  po_groupAllowFromFallbackToAllowFrom :: "bool option"
  po_mutableIdentifierMatching :: "mutable_matching option"
  po_activation :: "activation_policy option"
  po_command :: "command_policy option"

record state_allowlists =
  sl_dm :: resolved_allowlist
  sl_pairingStore :: resolved_allowlist
  sl_group :: resolved_allowlist
  sl_commandOwner :: resolved_allowlist
  sl_commandGroup :: resolved_allowlist

record ingress_state =
  st_channelId :: string
  st_accountId :: string
  st_conversationKind :: conversation_kind
  st_event :: redacted_event
  st_mentionFacts :: "mention_facts option"
  st_routeFacts :: "resolved_route list"
  st_allowlists :: state_allowlists

section \<open>Gates and decisions\<close>

record gate_command =
  gc_useAccessGroups :: bool
  gc_allowTextCommands :: bool
  gc_modeWhenAccessGroupsOff :: "gating_mode_off option"
  gc_shouldBlockControlCommand :: bool

record gate_activation =
  ga_hasMentionFacts :: bool
  ga_requireMention :: bool
  ga_allowTextCommands :: bool
  ga_allowedImplicitMentionKinds :: "implicit_mention_kind list option"
  ga_order :: "activation_order option"
  ga_shouldSkip :: bool
  ga_canDetectMention :: "bool option"
  ga_wasMentioned :: "bool option"
  ga_hasAnyMention :: "bool option"
  ga_implicitMentionKinds :: "implicit_mention_kind list option"
  ga_effectiveWasMentioned :: "bool option"
  ga_shouldBypassMention :: "bool option"

record access_gate =
  g_id :: string
  g_phase :: gate_phase
  g_kind :: gate_kind
  g_effect :: gate_effect
  g_allowed :: bool
  g_reasonCode :: reason_code
  g_match :: "ingress_match option"
  g_allowlist :: "allowlist_facts option"
  g_senderPolicy :: "sender_policy option"
  g_command :: "gate_command option"
  g_event :: "redacted_event option"
  g_activation :: "gate_activation option"

datatype admission = Dispatch | ObserveOnly | SkipTurn | Drop | PairingRequired
datatype verdict = AllowVerdict | BlockVerdict | PairingVerdict

record ingress_decision =
  id_admission :: admission
  id_decision :: verdict
  id_decisiveGateId :: string
  id_reasonCode :: reason_code
  id_gates :: "access_gate list"

end
