(* ===== verification/IngressState.thy ===== *)
theory IngressState
  imports IngressTypes
begin

text \<open>
  Resolution of the raw configuration into the ingress state
  (\<open>src/channels/message-access/state.ts\<close>, \<open>src/channels/allow-from.ts\<close>): access-group references are
  split off the configured entries, direct entries go through the channel's adapter, static sender
  groups are expanded, and the facts are merged into one \<open>resolved_allowlist\<close> per gate.

  The adapter is the record of its two operations; promises are their results. JavaScript objects are
  read at their own keys. \<open>localeCompare\<close> is the argument \<open>lc\<close>.
\<close>

section \<open>Allow-from entries\<close>

definition ACCESS_GROUP_ALLOW_FROM_PREFIX :: string where
  "ACCESS_GROUP_ALLOW_FROM_PREFIX = ''accessGroup:''"

definition parseAccessGroupAllowFromEntry :: "string \<Rightarrow> string option" where
  "parseAccessGroupAllowFromEntry entry =
     (let trimmed = js_trim entry in
      if \<not> starts_with ACCESS_GROUP_ALLOW_FROM_PREFIX trimmed then None
      else let name = js_trim (drop (length ACCESS_GROUP_ALLOW_FROM_PREFIX) trimmed) in
           if length name > 0 then Some name else None)"

definition mergeDmAllowFromSources :: "raw_entry list option \<Rightarrow> raw_entry list option \<Rightarrow> string option \<Rightarrow> string list" where
  "mergeDmAllowFromSources allowFrom storeAllowFrom dmPolicy =
     (let storeEntries = (if dmPolicy = Some ''allowlist'' \<or> dmPolicy = Some ''open'' then []
                          else (case storeAllowFrom of None \<Rightarrow> [] | Some s \<Rightarrow> s)) in
      normalizeEntryList ((case allowFrom of None \<Rightarrow> [] | Some a \<Rightarrow> a) @ storeEntries))"

definition resolveGroupAllowFromSources :: "raw_entry list option \<Rightarrow> raw_entry list option \<Rightarrow> bool option \<Rightarrow> string list" where
  "resolveGroupAllowFromSources allowFrom groupAllowFrom fallbackToAllowFrom =
     (let explicit = (case groupAllowFrom of Some g \<Rightarrow> if length g > 0 then Some g else None | None \<Rightarrow> None);
          scoped = (case explicit of Some g \<Rightarrow> g
                    | None \<Rightarrow> if fallbackToAllowFrom = Some False then []
                             else (case allowFrom of None \<Rightarrow> [] | Some a \<Rightarrow> a)) in
      normalizeEntryList scoped)"

fun firstDefined :: "'a option list \<Rightarrow> 'a option" where
  "firstDefined [] = None"
| "firstDefined (v # vs) = (case v of Some x \<Rightarrow> Some x | None \<Rightarrow> firstDefined vs)"

text \<open>The allowlist argument of \<open>isSenderIdAllowed\<close>.\<close>

record sender_allow =
  sa_entries :: "string list"
  sa_hasWildcard :: bool
  sa_hasEntries :: bool

definition isSenderIdAllowed :: "sender_allow \<Rightarrow> string option \<Rightarrow> bool \<Rightarrow> bool" where
  "isSenderIdAllowed allow senderId allowWhenEmpty =
     (if \<not> sa_hasEntries allow then allowWhenEmpty
      else if sa_hasWildcard allow then True
      else (case senderId of
              None \<Rightarrow> False
            | Some s \<Rightarrow> if s = [] then False else s \<in> set (sa_entries allow)))"

section \<open>Normalising and matching one list\<close>

definition redactedEntries :: "internal_entry list \<Rightarrow> normalized_entry list" where
  "redactedEntries es = map normalized_entry.truncate es"

definition emptyMatch :: ingress_match where
  "emptyMatch = \<lparr>im_matched = False, im_matchedEntryIds = []\<rparr>"

definition mergeMatches :: "ingress_match list \<Rightarrow> ingress_match" where
  "mergeMatches ms =
     (let ids = uniqueValues (concat (map im_matchedEntryIds ms)) in
      \<lparr>im_matched = list_ex im_matched ms \<or> ids \<noteq> [], im_matchedEntryIds = ids\<rparr>)"

definition mergeDiagnostics :: "entry_diagnostic list option list \<Rightarrow> entry_diagnostic list" where
  "mergeDiagnostics groups = concat (map (\<lambda>g. case g of None \<Rightarrow> [] | Some ds \<Rightarrow> ds) groups)"

text \<open>\<open>new Map(facts.map(...))\<close>: a later fact about the same group replaces an earlier one.\<close>

definition accessGroupFactByName :: "membership_fact list option \<Rightarrow> (string \<times> membership_fact) list" where
  "accessGroupFactByName facts =
     fold (\<lambda>f m. AList.update (factGroupName f) f m) (case facts of None \<Rightarrow> [] | Some fs \<Rightarrow> fs) []"

record match_result =
  mr_normalizedEntries :: "normalized_entry list"
  mr_invalidEntries :: "entry_diagnostic list"
  mr_disabledEntries :: "entry_diagnostic list"
  mr_match :: ingress_match

definition normalizeAndMatch :: "ingress_adapter \<Rightarrow> ingress_subject \<Rightarrow> string \<Rightarrow> string list \<Rightarrow> match_context \<Rightarrow> match_result" where
  "normalizeAndMatch adapter subject accountId entries context =
     (if entries = [] then
        \<lparr>mr_normalizedEntries = [], mr_invalidEntries = [], mr_disabledEntries = [], mr_match = emptyMatch\<rparr>
      else
        let normalized = normalizeEntriesOf adapter entries context accountId;
            match = (if nr_matchable normalized \<noteq> []
                     then matchSubjectOf adapter subject (nr_matchable normalized) context
                     else emptyMatch) in
        \<lparr>mr_normalizedEntries = redactedEntries (nr_matchable normalized),
         mr_invalidEntries = nr_invalid normalized,
         mr_disabledEntries = nr_disabled normalized, mr_match = match\<rparr>)"

section \<open>Access groups\<close>

definition referencedAccessGroups :: "string list \<Rightarrow> string list" where
  "referencedAccessGroups entries = uniqueValues (List.map_filter parseAccessGroupAllowFromEntry entries)"

definition directAllowlistEntries :: "string list \<Rightarrow> string list" where
  "directAllowlistEntries entries = filter (\<lambda>e. parseAccessGroupAllowFromEntry e = None) entries"

definition accessGroupConfigOf :: "state_input \<Rightarrow> string \<Rightarrow> access_group_config option" where
  "accessGroupConfigOf input groupName =
     (case in_accessGroups input of None \<Rightarrow> None | Some gs \<Rightarrow> map_of gs groupName)"

definition groupSenderEntries :: "string \<Rightarrow> state_input \<Rightarrow> string list" where
  "groupSenderEntries groupName input =
     (case accessGroupConfigOf input groupName of
        Some (MessageSenders members) \<Rightarrow>
          normalizeStringEntries
            ((case map_of members ''*'' of None \<Rightarrow> [] | Some s \<Rightarrow> s) @
             (case map_of members (in_channelId input) of None \<Rightarrow> [] | Some s \<Rightarrow> s))
      | _ \<Rightarrow> [])"

text \<open>The accumulators of \<open>resolveAccessGroupEntries\<close>.\<close>

record group_resolution =
  gr_normalizedEntries :: "normalized_entry list"
  gr_invalidEntries :: "entry_diagnostic list"
  gr_disabledEntries :: "entry_diagnostic list"
  gr_matches :: "ingress_match list"
  gr_accessGroups :: group_facts

definition emptyGroupResolution :: "string list \<Rightarrow> group_resolution" where
  "emptyGroupResolution referenced =
     \<lparr>gr_normalizedEntries = [], gr_invalidEntries = [], gr_disabledEntries = [], gr_matches = [],
      gr_accessGroups = \<lparr>ag_referenced = referenced, ag_matched = [], ag_missing = [],
                         ag_unsupported = [], ag_failed = []\<rparr>\<rparr>"

definition markMatched :: "string \<Rightarrow> ingress_match \<Rightarrow> group_resolution \<Rightarrow> group_resolution" where
  "markMatched n m r = r\<lparr>gr_accessGroups := (gr_accessGroups r)\<lparr>ag_matched := ag_matched (gr_accessGroups r) @ [n]\<rparr>,
                          gr_matches := gr_matches r @ [m]\<rparr>"

definition markMissing :: "string \<Rightarrow> group_resolution \<Rightarrow> group_resolution" where
  "markMissing n r = r\<lparr>gr_accessGroups := (gr_accessGroups r)\<lparr>ag_missing := ag_missing (gr_accessGroups r) @ [n]\<rparr>\<rparr>"

definition markUnsupported :: "string \<Rightarrow> group_resolution \<Rightarrow> group_resolution" where
  "markUnsupported n r = r\<lparr>gr_accessGroups := (gr_accessGroups r)\<lparr>ag_unsupported := ag_unsupported (gr_accessGroups r) @ [n]\<rparr>\<rparr>"

definition markFailed :: "string \<Rightarrow> group_resolution \<Rightarrow> group_resolution" where
  "markFailed n r = r\<lparr>gr_accessGroups := (gr_accessGroups r)\<lparr>ag_failed := ag_failed (gr_accessGroups r) @ [n]\<rparr>\<rparr>"

text \<open>A static sender group is normalised and matched like a direct list of the same entries.\<close>

definition expandSenderGroup :: "state_input \<Rightarrow> match_context \<Rightarrow> string \<Rightarrow> group_resolution \<Rightarrow> group_resolution" where
  "expandSenderGroup input context groupName r =
     (let resolved = normalizeAndMatch (in_adapter input) (in_subject input) (in_accountId input)
                       (groupSenderEntries groupName input) context;
          r' = r\<lparr>gr_normalizedEntries := gr_normalizedEntries r @ mr_normalizedEntries resolved,
                 gr_invalidEntries := gr_invalidEntries r @ mr_invalidEntries resolved,
                 gr_disabledEntries := gr_disabledEntries r @ mr_disabledEntries resolved\<rparr> in
      if im_matched (mr_match resolved) then markMatched groupName (mr_match resolved) r' else r')"

definition resolveAccessGroupStep :: "state_input \<Rightarrow> match_context \<Rightarrow> string \<Rightarrow> group_resolution \<Rightarrow> group_resolution" where
  "resolveAccessGroupStep input context groupName r =
     (case map_of (accessGroupFactByName (in_accessGroupMembership input)) groupName of
        Some (FactMatched _ _ ids) \<Rightarrow> markMatched groupName \<lparr>im_matched = True, im_matchedEntryIds = ids\<rparr> r
      | Some (FactMissing _ _ _ _) \<Rightarrow> markMissing groupName r
      | Some (FactUnsupported _ _ _ _) \<Rightarrow> markUnsupported groupName r
      | Some (FactFailed _ _ _ _) \<Rightarrow> markFailed groupName r
      | Some (FactNotMatched _ _) \<Rightarrow> r
      | None \<Rightarrow>
          (case accessGroupConfigOf input groupName of
             None \<Rightarrow> markMissing groupName r
           | Some (DiscordChannelAudience _ _) \<Rightarrow> markUnsupported groupName r
           | Some (MessageSenders _) \<Rightarrow> expandSenderGroup input context groupName r))"

definition resolveAccessGroupEntries :: "state_input \<Rightarrow> match_context \<Rightarrow> string list \<Rightarrow> group_resolution" where
  "resolveAccessGroupEntries input context referenced =
     fold (resolveAccessGroupStep input context) referenced (emptyGroupResolution referenced)"

section \<open>One allowlist\<close>

definition resolveIngressAllowlist :: "state_input \<Rightarrow> raw_entry list option \<Rightarrow> match_context \<Rightarrow> resolved_allowlist" where
  "resolveIngressAllowlist input rawEntries context =
     (let entries = normalizeEntryList (case rawEntries of None \<Rightarrow> [] | Some es \<Rightarrow> es);
          referenced = referencedAccessGroups entries;
          directEntries = directAllowlistEntries entries;
          direct = normalizeAndMatch (in_adapter input) (in_subject input) (in_accountId input) directEntries context;
          groups = resolveAccessGroupEntries input context referenced;
          match = mergeMatches (mr_match direct # gr_matches groups) in
      \<lparr>rawEntryCount = length entries,
       normalizedEntries = mr_normalizedEntries direct @ gr_normalizedEntries groups,
       invalidEntries = mergeDiagnostics [Some (mr_invalidEntries direct), Some (gr_invalidEntries groups)],
       disabledEntries = mergeDiagnostics [Some (mr_disabledEntries direct), Some (gr_disabledEntries groups)],
       matchedEntryIds = im_matchedEntryIds match,
       hasConfiguredEntries = (length entries > 0),
       hasMatchableEntries = (mr_normalizedEntries direct \<noteq> [] \<or> gr_normalizedEntries groups \<noteq> []),
       hasWildcard = (''*'' \<in> set directEntries),
       accessGroups = gr_accessGroups groups,
       al_match = match\<rparr>)"

section \<open>Origin subjects\<close>

definition eventSubjectMatchContext :: "state_input \<Rightarrow> match_context" where
  "eventSubjectMatchContext input = (if cv_kind (in_conversation input) = Direct then DmContext else GroupContext)"

definition opaqueIndexedId :: "string \<Rightarrow> nat \<Rightarrow> nat \<Rightarrow> string" where
  "opaqueIndexedId pre i j = pre @ ''-'' @ string_of_nat (i + 1) @ '':'' @ string_of_nat (j + 1)"

definition normalizeIdentifierForMatch :: "state_input \<Rightarrow> match_context \<Rightarrow> string \<Rightarrow> nat \<times> match_material \<Rightarrow> internal_entry list" where
  "normalizeIdentifierForMatch input context opaquePrefix ix =
     (case ix of (identifierIndex, identifier) \<Rightarrow>
        let entries = normalizeEntriesOf (in_adapter input) [mm_value identifier] context (in_accountId input);
            kept = filter (\<lambda>e. ne_kind e = mm_kind identifier \<and> ne_value e \<noteq> ''*'') (nr_matchable entries) in
        map (\<lambda>(entryIndex, e). e\<lparr>ne_opaqueEntryId := opaqueIndexedId opaquePrefix identifierIndex entryIndex\<rparr>)
            (enumerate 0 kept))"

definition normalizeSubjectIdentifiersForMatch :: "state_input \<Rightarrow> ingress_subject \<Rightarrow> match_context \<Rightarrow> string \<Rightarrow> internal_entry list" where
  "normalizeSubjectIdentifiersForMatch input subject context opaquePrefix =
     concat (map (normalizeIdentifierForMatch input context opaquePrefix) (enumerate 0 (identifiers subject)))"

definition sharesIdentifier :: "ingress_subject \<Rightarrow> ingress_subject \<Rightarrow> bool" where
  "sharesIdentifier origin current =
     list_ex (\<lambda>i. list_ex (\<lambda>c. mm_kind c = mm_kind i \<and> mm_value c = mm_value i) (identifiers current))
       (identifiers origin)"

definition originSubjectMatched :: "state_input \<Rightarrow> bool" where
  "originSubjectMatched input =
     (case ei_originSubject (in_event input) of
        None \<Rightarrow> False
      | Some origin \<Rightarrow>
          if sharesIdentifier origin (in_subject input) then True
          else
            let context = eventSubjectMatchContext input;
                originEntries = normalizeSubjectIdentifiersForMatch input origin context ''origin'' in
            if originEntries \<noteq> [] \<and> im_matched (matchSubjectOf (in_adapter input) (in_subject input) originEntries context)
            then True
            else
              let currentEntries = normalizeSubjectIdentifiersForMatch input (in_subject input) context ''current'' in
              if currentEntries = [] then False
              else im_matched (matchSubjectOf (in_adapter input) origin currentEntries context))"

section \<open>Routes\<close>

definition compareRouteFacts :: "(string \<Rightarrow> string \<Rightarrow> int) \<Rightarrow> route_gate_facts \<Rightarrow> route_gate_facts \<Rightarrow> int" where
  "compareRouteFacts lc left right =
     (let d = rg_precedence left - rg_precedence right in
      if d \<noteq> 0 then d else lc (rg_id left) (rg_id right))"

definition routeSenderAllowFrom :: "state_input \<Rightarrow> route_gate_facts \<Rightarrow> raw_entry list option" where
  "routeSenderAllowFrom input route =
     (case rg_senderAllowFrom route of
        Some es \<Rightarrow> Some es
      | None \<Rightarrow> if rg_senderAllowFromSource route = Some EffectiveDm then ai_dm (in_allowlists input)
               else if rg_senderAllowFromSource route = Some EffectiveGroup then ai_group (in_allowlists input)
               else None)"

definition resolveRouteFact :: "state_input \<Rightarrow> route_gate_facts \<Rightarrow> resolved_route" where
  "resolveRouteFact input route =
     \<lparr>rr_id = rg_id route, rr_kind = rg_kind route, rr_gate = rg_gate route, rr_effect = rg_effect route,
      rr_precedence = rg_precedence route, rr_senderPolicy = rg_senderPolicy route, rr_match = rg_match route,
      rr_senderAllowlist =
        map_option (\<lambda>es. resolveIngressAllowlist input (Some es) RouteContext) (routeSenderAllowFrom input route)\<rparr>"

definition resolveRouteFacts :: "(string \<Rightarrow> string \<Rightarrow> int) \<Rightarrow> state_input \<Rightarrow> resolved_route list" where
  "resolveRouteFacts lc input =
     map (resolveRouteFact input)
       (sort_by (compareRouteFacts lc) (case in_routeFacts input of None \<Rightarrow> [] | Some rs \<Rightarrow> rs))"

section \<open>The resolved state\<close>

definition resolveChannelIngressState :: "(string \<Rightarrow> string \<Rightarrow> int) \<Rightarrow> state_input \<Rightarrow> ingress_state" where
  "resolveChannelIngressState lc input =
     \<lparr>st_channelId = in_channelId input, st_accountId = in_accountId input,
      st_conversationKind = cv_kind (in_conversation input),
      st_event = \<lparr>ev_kind = ei_kind (in_event input), ev_authMode = ei_authMode (in_event input),
                  ev_mayPair = ei_mayPair (in_event input),
                  ev_hasOriginSubject = (ei_originSubject (in_event input) \<noteq> None),
                  ev_originSubjectMatched = originSubjectMatched input\<rparr>,
      st_mentionFacts = in_mentionFacts input,
      st_routeFacts = resolveRouteFacts lc input,
      st_allowlists =
        \<lparr>sl_dm = resolveIngressAllowlist input (ai_dm (in_allowlists input)) DmContext,
         sl_pairingStore = resolveIngressAllowlist input (ai_pairingStore (in_allowlists input)) DmContext,
         sl_group = resolveIngressAllowlist input (ai_group (in_allowlists input)) GroupContext,
         sl_commandOwner = resolveIngressAllowlist input (ai_commandOwner (in_allowlists input)) CommandContext,
         sl_commandGroup = resolveIngressAllowlist input (ai_commandGroup (in_allowlists input)) CommandContext\<rparr>\<rparr>"

end
