(* ===== verification/IngressDecision.thy ===== *)
theory IngressDecision
  imports IngressState
begin

text \<open>
  The ingress decision: allowlist policies (\<open>allowlist.ts\<close>), sender gates (\<open>sender-gates.ts\<close>), command
  gating (\<open>command-gating.ts\<close>), mention gating (\<open>mention-gating.ts\<close>) and the ordered gate graph
  (\<open>decision.ts\<close>) that ends in one admission.
\<close>

section \<open>Allowlist policies\<close>

definition allowlistFailureReason :: "resolved_allowlist \<Rightarrow> reason_code option" where
  "allowlistFailureReason al =
     (if length (ag_failed (accessGroups al)) > 0 then Some access_group_failed
      else if length (ag_unsupported (accessGroups al)) > 0 then Some access_group_unsupported
      else if length (ag_missing (accessGroups al)) > 0 then Some access_group_missing
      else None)"

definition redactedAllowlistDiagnostics :: "resolved_allowlist \<Rightarrow> reason_code \<Rightarrow> allowlist_facts" where
  "redactedAllowlistDiagnostics al reasonCode =
     \<lparr>af_configured = hasConfiguredEntries al, af_matched = im_matched (al_match al),
      af_reasonCode = reasonCode, af_matchedEntryIds = matchedEntryIds al,
      af_invalidEntryCount = length (invalidEntries al),
      af_disabledEntryCount = length (disabledEntries al), af_accessGroups = accessGroups al\<rparr>"

definition mergeResolvedAllowlists :: "resolved_allowlist list \<Rightarrow> resolved_allowlist" where
  "mergeResolvedAllowlists als =
     (let ids = uniqueValues (concat (map matchedEntryIds als));
          names = (\<lambda>f. uniqueValues (concat (map (\<lambda>al. f (accessGroups al)) als))) in
      \<lparr>rawEntryCount = sum_list (map rawEntryCount als),
       normalizedEntries = concat (map normalizedEntries als),
       invalidEntries = concat (map invalidEntries als),
       disabledEntries = concat (map disabledEntries als),
       matchedEntryIds = ids,
       hasConfiguredEntries = list_ex hasConfiguredEntries als,
       hasMatchableEntries = list_ex hasMatchableEntries als,
       hasWildcard = list_ex hasWildcard als,
       accessGroups = \<lparr>ag_referenced = names ag_referenced, ag_matched = names ag_matched,
                       ag_missing = names ag_missing, ag_unsupported = names ag_unsupported,
                       ag_failed = names ag_failed\<rparr>,
       al_match = \<lparr>im_matched = list_ex (\<lambda>al. im_matched (al_match al)) als \<or> length ids > 0,
                   im_matchedEntryIds = ids\<rparr>\<rparr>)"

definition dangerousEntryIds :: "resolved_allowlist \<Rightarrow> string list" where
  "dangerousEntryIds al =
     uniqueValues (map ne_opaqueEntryId (filter (\<lambda>e. is_true (ne_dangerous e)) (normalizedEntries al)))"

definition applyMutableIdentifierPolicy :: "resolved_allowlist \<Rightarrow> policy_input \<Rightarrow> resolved_allowlist" where
  "applyMutableIdentifierPolicy al policy =
     (if po_mutableIdentifierMatching policy = Some MutableEnabled then al
      else
        let dangerous = dangerousEntryIds al in
        if length dangerous = 0 then al
        else
          let ids = filter (\<lambda>i. i \<notin> set dangerous) (matchedEntryIds al) in
          al\<lparr>disabledEntries := disabledEntries al @
               map (\<lambda>e. \<lparr>ed_opaqueEntryId = Some (ne_opaqueEntryId e), ed_reasonCode = mutable_identifier_disabled\<rparr>)
                 (filter (\<lambda>e. is_true (ne_dangerous e)) (normalizedEntries al)),
             matchedEntryIds := ids,
             hasMatchableEntries := list_ex (\<lambda>e. \<not> is_true (ne_dangerous e)) (normalizedEntries al),
             al_match := \<lparr>im_matched = length ids > 0, im_matchedEntryIds = ids\<rparr>\<rparr>)"

text \<open>One step of the route override loop of \<open>effectiveGroupSenderAllowlist\<close>.\<close>

definition overrideByRoute :: "resolved_route \<Rightarrow> resolved_allowlist \<Rightarrow> resolved_allowlist" where
  "overrideByRoute route effective =
     (if rr_gate route \<noteq> RouteMatched then effective
      else (case rr_senderAllowlist route of
              None \<Rightarrow> effective
            | Some al \<Rightarrow> if rr_senderPolicy route = Inherit then mergeResolvedAllowlists [effective, al] else al))"

definition effectiveGroupSenderAllowlist :: "ingress_state \<Rightarrow> policy_input \<Rightarrow> resolved_allowlist" where
  "effectiveGroupSenderAllowlist state policy =
     (let base = (if is_true (po_groupAllowFromFallbackToAllowFrom policy) \<and>
                     \<not> hasConfiguredEntries (sl_group (st_allowlists state))
                  then sl_dm (st_allowlists state) else sl_group (st_allowlists state)) in
      applyMutableIdentifierPolicy (fold overrideByRoute (st_routeFacts state) base) policy)"

section \<open>Sender gates\<close>

definition plainGate :: "string \<Rightarrow> gate_phase \<Rightarrow> gate_kind \<Rightarrow> gate_effect \<Rightarrow> bool \<Rightarrow> reason_code \<Rightarrow> access_gate" where
  "plainGate i ph k eff a rc =
     \<lparr>g_id = i, g_phase = ph, g_kind = k, g_effect = eff, g_allowed = a, g_reasonCode = rc, g_match = None,
      g_allowlist = None, g_senderPolicy = None, g_command = None, g_event = None, g_activation = None\<rparr>"

definition senderGate :: "string \<Rightarrow> gate_kind \<Rightarrow> gate_effect \<Rightarrow> bool \<Rightarrow> reason_code \<Rightarrow> ingress_match \<Rightarrow> sender_policy \<Rightarrow> resolved_allowlist \<Rightarrow> access_gate" where
  "senderGate i k eff a rc m pol src =
     (plainGate i SenderPhase k eff a rc)
       \<lparr>g_match := Some m, g_senderPolicy := Some pol, g_allowlist := Some (redactedAllowlistDiagnostics src rc)\<rparr>"

definition senderGateForDirect :: "ingress_state \<Rightarrow> policy_input \<Rightarrow> access_gate" where
  "senderGateForDirect state policy =
     (let dm = applyMutableIdentifierPolicy (sl_dm (st_allowlists state)) policy;
          pairingStore = applyMutableIdentifierPolicy (sl_pairingStore (st_allowlists state)) policy;
          pol = DmPolicyOf (po_dmPolicy policy);
          allow = (\<lambda>rc. senderGate ''sender:dm'' DmSenderKind Allow True rc (al_match dm) pol dm);
          block = (\<lambda>rc. senderGate ''sender:dm'' DmSenderKind BlockDispatch False rc (al_match dm) pol dm) in
      if po_dmPolicy policy = DmDisabled then block dm_policy_disabled
      else if po_dmPolicy policy = DmOpen then
        (if hasWildcard dm then allow dm_policy_open
         else if im_matched (al_match dm) then allow dm_policy_allowlisted
         else block dm_policy_not_allowlisted)
      else if im_matched (al_match dm) then allow dm_policy_allowlisted
      else if po_dmPolicy policy = DmPairing \<and> im_matched (al_match pairingStore) then
        senderGate ''sender:dm'' DmSenderKind Allow True dm_policy_allowlisted (al_match pairingStore) pol pairingStore
      else if po_dmPolicy policy = DmPairing \<and> ev_mayPair (st_event state) then block dm_policy_pairing_required
      else block (if po_dmPolicy policy = DmPairing then event_pairing_not_allowed
                  else (case allowlistFailureReason dm of Some r \<Rightarrow> r | None \<Rightarrow> dm_policy_not_allowlisted)))"

definition senderGateForGroup :: "ingress_state \<Rightarrow> policy_input \<Rightarrow> access_gate" where
  "senderGateForGroup state policy =
     (let grp = effectiveGroupSenderAllowlist state policy;
          pol = GroupPolicyOf (po_groupPolicy policy);
          allow = (\<lambda>rc. senderGate ''sender:group'' GroupSenderKind Allow True rc (al_match grp) pol grp);
          block = (\<lambda>rc. senderGate ''sender:group'' GroupSenderKind BlockDispatch False rc (al_match grp) pol grp) in
      if po_groupPolicy policy = GroupDisabled then block group_policy_disabled
      else if po_groupPolicy policy = GroupOpen then allow group_policy_open
      else if \<not> hasConfiguredEntries grp then block group_policy_empty_allowlist
      else if im_matched (al_match grp) then allow group_policy_allowed
      else block (case allowlistFailureReason grp of Some r \<Rightarrow> r | None \<Rightarrow> group_policy_not_allowlisted))"

definition applyEventAuthModeToSenderGate :: "ingress_state \<Rightarrow> access_gate \<Rightarrow> access_gate" where
  "applyEventAuthModeToSenderGate state gate =
     (if ev_authMode (st_event state) = AuthInbound \<or> g_allowed gate then gate
      else gate\<lparr>g_effect := Ignore, g_allowed := True, g_reasonCode := sender_not_required,
                g_allowlist := map_option (\<lambda>a. a\<lparr>af_reasonCode := sender_not_required\<rparr>) (g_allowlist gate)\<rparr>)"

section \<open>Command gating\<close>

record command_authorizer =
  ca_configured :: bool
  ca_allowed :: bool

definition resolveCommandAuthorizedFromAuthorizers :: "bool \<Rightarrow> command_authorizer list \<Rightarrow> gating_mode_off option \<Rightarrow> bool" where
  "resolveCommandAuthorizedFromAuthorizers useAccessGroups authorizers modeOff =
     (let mode = (case modeOff of Some m \<Rightarrow> m | None \<Rightarrow> ModeAllow) in
      if \<not> useAccessGroups then
        (if mode = ModeAllow then True
         else if mode = ModeDeny then False
         else if \<not> list_ex ca_configured authorizers then True
         else list_ex (\<lambda>e. ca_configured e \<and> ca_allowed e) authorizers)
      else list_ex (\<lambda>e. ca_configured e \<and> ca_allowed e) authorizers)"

record control_command_gate =
  cc_commandAuthorized :: bool
  cc_shouldBlock :: bool

definition resolveControlCommandGate :: "bool \<Rightarrow> command_authorizer list \<Rightarrow> bool \<Rightarrow> bool \<Rightarrow> gating_mode_off option \<Rightarrow> control_command_gate" where
  "resolveControlCommandGate useAccessGroups authorizers allowTextCommands hasControlCommand modeOff =
     (let a = resolveCommandAuthorizedFromAuthorizers useAccessGroups authorizers modeOff in
      \<lparr>cc_commandAuthorized = a, cc_shouldBlock = allowTextCommands \<and> hasControlCommand \<and> \<not> a\<rparr>)"

definition resolveDualTextControlCommandGate :: "bool \<Rightarrow> bool \<Rightarrow> bool \<Rightarrow> bool \<Rightarrow> bool \<Rightarrow> bool \<Rightarrow> gating_mode_off option \<Rightarrow> control_command_gate" where
  "resolveDualTextControlCommandGate useAccessGroups primaryConfigured primaryAllowed secondaryConfigured secondaryAllowed hasControlCommand modeOff =
     resolveControlCommandGate useAccessGroups
       [\<lparr>ca_configured = primaryConfigured, ca_allowed = primaryAllowed\<rparr>,
        \<lparr>ca_configured = secondaryConfigured, ca_allowed = secondaryAllowed\<rparr>]
       True hasControlCommand modeOff"

definition mergeCommandMatch :: "ingress_match \<Rightarrow> ingress_match \<Rightarrow> ingress_match" where
  "mergeCommandMatch own grp =
     (let ids = uniqueValues (im_matchedEntryIds own @ im_matchedEntryIds grp) in
      \<lparr>im_matched = im_matched own \<or> im_matched grp \<or> length ids > 0, im_matchedEntryIds = ids\<rparr>)"

definition commandGate :: "ingress_state \<Rightarrow> policy_input \<Rightarrow> access_gate" where
  "commandGate state policy =
     (case po_command policy of
        None \<Rightarrow> plainGate ''command'' CommandPhase CommandKind Allow True command_authorized
      | Some command \<Rightarrow>
          let useAccessGroups = (case cp_useAccessGroups command of Some u \<Rightarrow> u | None \<Rightarrow> True);
              own = applyMutableIdentifierPolicy (sl_commandOwner (st_allowlists state)) policy;
              grp = applyMutableIdentifierPolicy (sl_commandGroup (st_allowlists state)) policy;
              authorized = resolveCommandAuthorizedFromAuthorizers useAccessGroups
                 [\<lparr>ca_configured = hasConfiguredEntries own, ca_allowed = im_matched (al_match own)\<rparr>,
                  \<lparr>ca_configured = hasConfiguredEntries grp, ca_allowed = im_matched (al_match grp)\<rparr>]
                 (cp_modeWhenAccessGroupsOff command);
              shouldBlock = (cp_allowTextCommands command \<and> cp_hasControlCommand command \<and> \<not> authorized) in
          (plainGate ''command'' CommandPhase CommandKind (if shouldBlock then BlockCommand else Allow) authorized
             (if shouldBlock then control_command_unauthorized else command_authorized))
            \<lparr>g_match := Some (mergeCommandMatch (al_match own) (al_match grp)),
             g_command := Some \<lparr>gc_useAccessGroups = useAccessGroups, gc_allowTextCommands = cp_allowTextCommands command,
                               gc_modeWhenAccessGroupsOff = cp_modeWhenAccessGroupsOff command,
                               gc_shouldBlockControlCommand = shouldBlock\<rparr>\<rparr>)"

section \<open>Mention gating\<close>

record mention_policy =
  mp_isGroup :: bool
  mp_requireMention :: bool
  mp_implicitMentions :: "implicit_mentions option"
  mp_allowedImplicitMentionKinds :: "implicit_mention_kind list option"
  mp_allowTextCommands :: bool
  mp_hasControlCommand :: bool
  mp_commandAuthorized :: bool

record mention_decision =
  md_effectiveWasMentioned :: bool
  md_shouldSkip :: bool
  md_implicitMention :: bool
  md_matchedImplicitMentionKinds :: "implicit_mention_kind list"
  md_shouldBypassMention :: bool

definition implicitMentionKindWhen :: "implicit_mention_kind \<Rightarrow> bool \<Rightarrow> implicit_mention_kind list" where
  "implicitMentionKindWhen k enabled = (if enabled then [k] else [])"

definition allowedImplicitMentionKindsFromConfig :: "implicit_mentions \<Rightarrow> implicit_mention_kind list" where
  "allowedImplicitMentionKindsFromConfig config =
     implicitMentionKindWhen ReplyToBot (replyToBot config \<noteq> Some False) @
     implicitMentionKindWhen QuotedBot (quotedBot config \<noteq> Some False) @
     implicitMentionKindWhen BotThreadParticipant (threadParticipation config \<noteq> Some False) @
     [NativeMention]"

definition resolveMatchedImplicitMentionKinds :: "implicit_mention_kind list option \<Rightarrow> implicit_mention_kind list option \<Rightarrow> implicit_mention_kind list" where
  "resolveMatchedImplicitMentionKinds inputKinds allowedKinds =
     fold (\<lambda>k matched.
        if (case allowedKinds of None \<Rightarrow> False | Some ks \<Rightarrow> k \<notin> set ks) then matched
        else if k \<in> set matched then matched else matched @ [k])
       (case inputKinds of None \<Rightarrow> [] | Some ks \<Rightarrow> ks) []"

definition resolveMentionDecisionCore :: "bool \<Rightarrow> bool \<Rightarrow> bool \<Rightarrow> implicit_mention_kind list option \<Rightarrow> implicit_mention_kind list option \<Rightarrow> bool \<Rightarrow> mention_decision" where
  "resolveMentionDecisionCore requireMention canDetectMention wasMentioned implicitKinds allowedKinds shouldBypassMention =
     (let matched = resolveMatchedImplicitMentionKinds implicitKinds allowedKinds;
          implicitMention = (length matched > 0);
          effectiveWasMentioned = (wasMentioned \<or> implicitMention \<or> shouldBypassMention) in
      \<lparr>md_effectiveWasMentioned = effectiveWasMentioned,
       md_shouldSkip = (requireMention \<and> canDetectMention \<and> \<not> effectiveWasMentioned),
       md_implicitMention = implicitMention, md_matchedImplicitMentionKinds = matched,
       md_shouldBypassMention = shouldBypassMention\<rparr>)"

definition resolveInboundMentionDecision :: "mention_facts \<Rightarrow> mention_policy \<Rightarrow> mention_decision" where
  "resolveInboundMentionDecision facts policy =
     (let allowedKinds = (case mp_allowedImplicitMentionKinds policy of
                            Some ks \<Rightarrow> Some ks
                          | None \<Rightarrow> map_option allowedImplicitMentionKindsFromConfig (mp_implicitMentions policy));
          shouldBypassMention =
            (mp_isGroup policy \<and> mp_requireMention policy \<and> \<not> mf_wasMentioned facts \<and>
             \<not> is_true (mf_hasAnyMention facts) \<and> mp_allowTextCommands policy \<and>
             mp_commandAuthorized policy \<and> mp_hasControlCommand policy) in
      resolveMentionDecisionCore (mp_requireMention policy) (mf_canDetectMention facts) (mf_wasMentioned facts)
        (mf_implicitMentionKinds facts) allowedKinds shouldBypassMention)"

section \<open>Event and activation gates\<close>

definition eventResult :: "redacted_event \<Rightarrow> bool \<Rightarrow> reason_code \<Rightarrow> access_gate" where
  "eventResult event a rc =
     (plainGate ''event'' EventPhase EventKind (if a then Allow else BlockDispatch) a rc)\<lparr>g_event := Some event\<rparr>"

definition eventGate :: "ingress_state \<Rightarrow> access_gate \<Rightarrow> access_gate \<Rightarrow> access_gate" where
  "eventGate state sGate cGate =
     (let event = st_event state; authMode = ev_authMode event in
      if authMode = AuthNone \<or> authMode = AuthRouteOnly then eventResult event True event_authorized
      else if authMode = AuthCommand then
        eventResult event (g_allowed cGate) (if g_allowed cGate then event_authorized else event_unauthorized)
      else if authMode = AuthOriginSubject then
        (if \<not> ev_hasOriginSubject event then eventResult event False origin_subject_missing
         else eventResult event (ev_originSubjectMatched event)
                (if ev_originSubjectMatched event then event_authorized else origin_subject_not_matched))
      else eventResult event (g_allowed sGate) (if g_allowed sGate then event_authorized else event_unauthorized))"

definition resolveAllowedImplicitMentionKinds :: "activation_policy option \<Rightarrow> implicit_mention_kind list option" where
  "resolveAllowedImplicitMentionKinds activation =
     (case activation of
        None \<Rightarrow> None
      | Some a \<Rightarrow> (case ap_allowedImplicitMentionKinds a of
                     Some ks \<Rightarrow> Some ks
                   | None \<Rightarrow> map_option allowedImplicitMentionKindsFromConfig (ap_implicitMentions a)))"

definition activationMetadata :: "activation_policy option \<Rightarrow> mention_facts option \<Rightarrow> bool \<Rightarrow> bool option \<Rightarrow> bool option \<Rightarrow> gate_activation" where
  "activationMetadata activation facts shouldSkip effectiveWasMentioned shouldBypassMention =
     \<lparr>ga_hasMentionFacts = (facts \<noteq> None),
      ga_requireMention = (case activation of None \<Rightarrow> False | Some a \<Rightarrow> ap_requireMention a),
      ga_allowTextCommands = (case activation of None \<Rightarrow> False | Some a \<Rightarrow> ap_allowTextCommands a),
      ga_allowedImplicitMentionKinds = resolveAllowedImplicitMentionKinds activation,
      ga_order = (case activation of None \<Rightarrow> None | Some a \<Rightarrow> ap_order a),
      ga_shouldSkip = shouldSkip,
      ga_canDetectMention = map_option mf_canDetectMention facts,
      ga_wasMentioned = map_option mf_wasMentioned facts,
      ga_hasAnyMention = Option.bind facts mf_hasAnyMention,
      ga_implicitMentionKinds = Option.bind facts mf_implicitMentionKinds,
      ga_effectiveWasMentioned = effectiveWasMentioned,
      ga_shouldBypassMention = shouldBypassMention\<rparr>"

definition activationResult :: "activation_policy option \<Rightarrow> mention_facts option \<Rightarrow> bool \<Rightarrow> bool option \<Rightarrow> bool option \<Rightarrow> access_gate" where
  "activationResult activation facts shouldSkip effectiveWasMentioned shouldBypassMention =
     (plainGate ''activation'' ActivationPhase MentionKind (if shouldSkip then Skip else Allow) (\<not> shouldSkip)
        (if shouldSkip then activation_skipped else activation_allowed))
       \<lparr>g_activation := Some (activationMetadata activation facts shouldSkip effectiveWasMentioned shouldBypassMention)\<rparr>"

definition activationGate :: "ingress_state \<Rightarrow> policy_input \<Rightarrow> access_gate \<Rightarrow> access_gate" where
  "activationGate state policy cGate =
     (case (po_activation policy, st_mentionFacts state) of
        (Some activation, Some facts) \<Rightarrow>
          let result = resolveInboundMentionDecision facts
                \<lparr>mp_isGroup = (st_conversationKind state \<noteq> Direct),
                 mp_requireMention = ap_requireMention activation, mp_implicitMentions = None,
                 mp_allowedImplicitMentionKinds = resolveAllowedImplicitMentionKinds (Some activation),
                 mp_allowTextCommands = ap_allowTextCommands activation,
                 mp_hasControlCommand = (case po_command policy of None \<Rightarrow> False | Some c \<Rightarrow> cp_hasControlCommand c),
                 mp_commandAuthorized = g_allowed cGate\<rparr> in
          activationResult (Some activation) (Some facts) (md_shouldSkip result)
            (Some (md_effectiveWasMentioned result)) (Some (md_shouldBypassMention result))
      | (activation, facts) \<Rightarrow>
          activationResult activation facts False
            (map_option (\<lambda>f. mf_wasMentioned f \<or> (case mf_implicitMentionKinds f of None \<Rightarrow> False | Some ks \<Rightarrow> ks \<noteq> [])) facts)
            None)"

section \<open>The decision\<close>

definition decisiveDecision :: "admission \<Rightarrow> verdict \<Rightarrow> access_gate \<Rightarrow> access_gate list \<Rightarrow> ingress_decision" where
  "decisiveDecision a v gate gates =
     \<lparr>id_admission = a, id_decision = v, id_decisiveGateId = g_id gate, id_reasonCode = g_reasonCode gate,
      id_gates = gates\<rparr>"

definition routeGate :: "resolved_route \<Rightarrow> access_gate" where
  "routeGate route =
     (plainGate (rr_id route) RoutePhase (gateKindOfRoute (rr_kind route)) (gateEffectOfRoute (rr_effect route))
        (rr_effect route \<noteq> RtBlockDispatch)
        (if rr_effect route = RtBlockDispatch then route_blocked else allowed_reason))\<lparr>g_match := rr_match route\<rparr>"

definition routeGates :: "ingress_state \<Rightarrow> access_gate list" where
  "routeGates state = map routeGate (st_routeFacts state)"

definition routeSenderIsEmpty :: "resolved_route \<Rightarrow> bool" where
  "routeSenderIsEmpty r \<longleftrightarrow>
     rr_senderPolicy r = DenyWhenEmpty \<and> rr_gate r = RouteMatched \<and>
     \<not> (case rr_senderAllowlist r of None \<Rightarrow> False | Some al \<Rightarrow> hasConfiguredEntries al)"

definition routeSenderEmptyGate :: "ingress_state \<Rightarrow> access_gate option" where
  "routeSenderEmptyGate state =
     (case find routeSenderIsEmpty (st_routeFacts state) of
        None \<Rightarrow> None
      | Some route \<Rightarrow>
          Some ((plainGate (rr_id route @ '':sender'') RoutePhase RouteSenderKind BlockDispatch False route_sender_empty)
            \<lparr>g_match := rr_match route,
             g_allowlist := map_option (\<lambda>al. redactedAllowlistDiagnostics al route_sender_empty) (rr_senderAllowlist route)\<rparr>))"

definition activationBeforeSender :: "ingress_state \<Rightarrow> policy_input \<Rightarrow> access_gate option" where
  "activationBeforeSender state policy =
     (case po_activation policy of
        None \<Rightarrow> None
      | Some a \<Rightarrow>
          if ap_order a = Some BeforeSender \<and> \<not> ap_allowTextCommands a
          then Some (activationGate state policy (commandGate state (policy\<lparr>po_command := None\<rparr>)))
          else None)"

text \<open>The part of \<open>decideChannelIngress\<close> after the sender gate.\<close>

definition decideAfterSender :: "ingress_state \<Rightarrow> policy_input \<Rightarrow> access_gate option \<Rightarrow> access_gate \<Rightarrow> access_gate list \<Rightarrow> ingress_decision" where
  "decideAfterSender state policy early sGate gates0 =
     (let command = commandGate state policy; gates1 = gates0 @ [command] in
      if g_effect command = BlockCommand then decisiveDecision Drop BlockVerdict command gates1
      else
        let event = eventGate state sGate command; gates2 = gates1 @ [event] in
        if \<not> g_allowed event then decisiveDecision Drop BlockVerdict event gates2
        else
          let activation = (case early of Some a \<Rightarrow> a | None \<Rightarrow> activationGate state policy command);
              gates3 = (case early of Some _ \<Rightarrow> gates2 | None \<Rightarrow> gates2 @ [activation]) in
          if g_effect activation = Skip then decisiveDecision SkipTurn AllowVerdict activation gates3
          else if g_effect activation = Observe then decisiveDecision ObserveOnly AllowVerdict activation gates3
          else decisiveDecision Dispatch AllowVerdict activation gates3)"

definition eventModeSender :: "ingress_state \<Rightarrow> policy_input \<Rightarrow> access_gate" where
  "eventModeSender state policy =
     applyEventAuthModeToSenderGate state
       (if st_conversationKind state = Direct then senderGateForDirect state policy
        else senderGateForGroup state policy)"

definition skipOf :: "access_gate option \<Rightarrow> access_gate option" where
  "skipOf early = (case early of Some a \<Rightarrow> if g_effect a = Skip then Some a else None | None \<Rightarrow> None)"

definition decideChannelIngress :: "ingress_state \<Rightarrow> policy_input \<Rightarrow> ingress_decision" where
  "decideChannelIngress state policy =
     (let gates0 = routeGates state @ (case routeSenderEmptyGate state of None \<Rightarrow> [] | Some g \<Rightarrow> [g]) in
      case find (\<lambda>g. g_effect g = BlockDispatch) gates0 of
        Some g \<Rightarrow> decisiveDecision Drop BlockVerdict g gates0
      | None \<Rightarrow>
          let early = activationBeforeSender state policy;
              gates1 = gates0 @ (case early of None \<Rightarrow> [] | Some a \<Rightarrow> [a]) in
          (case skipOf early of
                Some a \<Rightarrow> decisiveDecision SkipTurn AllowVerdict a gates1
              | None \<Rightarrow>
                  let sGate = eventModeSender state policy; gates2 = gates1 @ [sGate] in
                  if \<not> g_allowed sGate then
                    (if g_reasonCode sGate = dm_policy_pairing_required
                     then decisiveDecision PairingRequired PairingVerdict sGate gates2
                     else decisiveDecision Drop BlockVerdict sGate gates2)
                  else decideAfterSender state policy early sGate gates2))"

end
