(* ===== verification/IngressProps.thy ===== *)
theory IngressProps
  imports IngressDecision
begin

text \<open>
  What the ingress decision guarantees: the shape of the gate graph and its decisive gate, who may be
  dispatched, when pairing is offered, when a turn is skipped, and what cannot influence the outcome.
\<close>

section \<open>Gates, field by field\<close>

lemma plainGate_simps [simp]:
  "g_id (plainGate i ph k eff a rc) = i" "g_phase (plainGate i ph k eff a rc) = ph"
  "g_kind (plainGate i ph k eff a rc) = k" "g_effect (plainGate i ph k eff a rc) = eff"
  "g_allowed (plainGate i ph k eff a rc) = a" "g_reasonCode (plainGate i ph k eff a rc) = rc"
  by (simp_all add: plainGate_def)

lemma senderGate_simps [simp]:
  "g_id (senderGate i k eff a rc m pol src) = i" "g_phase (senderGate i k eff a rc m pol src) = SenderPhase"
  "g_kind (senderGate i k eff a rc m pol src) = k" "g_effect (senderGate i k eff a rc m pol src) = eff"
  "g_allowed (senderGate i k eff a rc m pol src) = a" "g_reasonCode (senderGate i k eff a rc m pol src) = rc"
  by (simp_all add: senderGate_def)

lemma activationResult_simps [simp]:
  "g_id (activationResult a f s e b) = ''activation''" "g_phase (activationResult a f s e b) = ActivationPhase"
  "g_kind (activationResult a f s e b) = MentionKind"
  "g_effect (activationResult a f s e b) = (if s then Skip else Allow)"
  "g_allowed (activationResult a f s e b) = (\<not> s)"
  by (simp_all add: activationResult_def)

lemma eventResult_simps [simp]:
  "g_id (eventResult ev a rc) = ''event''" "g_phase (eventResult ev a rc) = EventPhase"
  "g_kind (eventResult ev a rc) = EventKind" "g_effect (eventResult ev a rc) = (if a then Allow else BlockDispatch)"
  "g_allowed (eventResult ev a rc) = a" "g_reasonCode (eventResult ev a rc) = rc"
  by (simp_all add: eventResult_def)

lemma routeGate_simps [simp]:
  "g_id (routeGate r) = rr_id r" "g_phase (routeGate r) = RoutePhase" "g_kind (routeGate r) = gateKindOfRoute (rr_kind r)"
  "g_effect (routeGate r) = gateEffectOfRoute (rr_effect r)" "g_allowed (routeGate r) = (rr_effect r \<noteq> RtBlockDispatch)"
  "g_reasonCode (routeGate r) = (if rr_effect r = RtBlockDispatch then route_blocked else allowed_reason)"
  by (simp_all add: routeGate_def)

lemma decisiveDecision_simps [simp]:
  "id_admission (decisiveDecision a v g gs) = a" "id_decision (decisiveDecision a v g gs) = v"
  "id_decisiveGateId (decisiveDecision a v g gs) = g_id g" "id_reasonCode (decisiveDecision a v g gs) = g_reasonCode g"
  "id_gates (decisiveDecision a v g gs) = gs"
  by (simp_all add: decisiveDecision_def)

text \<open>A gate stops the event when its effect is not to let it pass.\<close>

definition stopping :: "access_gate \<Rightarrow> bool" where
  "stopping g \<longleftrightarrow> g_effect g \<in> {BlockDispatch, BlockCommand, Skip}"

lemma gateEffectOfRoute_cases: "gateEffectOfRoute e \<notin> {Allow, Ignore} \<Longrightarrow> gateEffectOfRoute e = BlockDispatch"
  by (cases e) auto

lemma sender_direct_shape:
  "g_phase (senderGateForDirect state policy) = SenderPhase \<and>
   g_effect (senderGateForDirect state policy) = (if g_allowed (senderGateForDirect state policy) then Allow else BlockDispatch)"
  by (simp add: senderGateForDirect_def Let_def)

lemma sender_group_shape:
  "g_phase (senderGateForGroup state policy) = SenderPhase \<and>
   g_effect (senderGateForGroup state policy) = (if g_allowed (senderGateForGroup state policy) then Allow else BlockDispatch)"
  by (simp add: senderGateForGroup_def Let_def)

lemma eventModeSender_shape:
  "g_phase (eventModeSender state policy) = SenderPhase"
  "g_allowed (eventModeSender state policy) \<longleftrightarrow> g_effect (eventModeSender state policy) \<in> {Allow, Ignore}"
  "\<not> g_allowed (eventModeSender state policy) \<longleftrightarrow> g_effect (eventModeSender state policy) = BlockDispatch"
  using sender_direct_shape [of state policy] sender_group_shape [of state policy]
  by (auto simp: eventModeSender_def applyEventAuthModeToSenderGate_def split: if_splits)

lemma commandGate_shape:
  "g_phase (commandGate state policy) = CommandPhase"
  "g_effect (commandGate state policy) \<in> {Allow, BlockCommand}"
  by (auto simp: commandGate_def Let_def split: option.split)

lemma commandGate_None [simp]:
  "po_command policy = None \<Longrightarrow> g_allowed (commandGate state policy)"
  by (simp add: commandGate_def)

lemma eventGate_shape:
  "g_phase (eventGate state s c) = EventPhase"
  "g_effect (eventGate state s c) = (if g_allowed (eventGate state s c) then Allow else BlockDispatch)"
  by (simp_all add: eventGate_def Let_def)

lemma activationGate_shape:
  "g_phase (activationGate state policy c) = ActivationPhase"
  "g_effect (activationGate state policy c) = (if g_allowed (activationGate state policy c) then Allow else Skip)"
  by (auto simp: activationGate_def Let_def split: option.split)

lemma activationGate_effect:
  "g_effect (activationGate state policy c) \<in> {Allow, Skip}"
  by (auto simp: activationGate_shape(2))

lemma activationBeforeSender_shape:
  "activationBeforeSender state policy = Some a \<Longrightarrow> g_phase a = ActivationPhase \<and> g_effect a \<in> {Allow, Skip}"
  using activationGate_shape activationGate_effect
  by (fastforce simp: activationBeforeSender_def split: option.splits if_splits)

section \<open>The graph and its decisive gate\<close>

definition routeGraph :: "ingress_state \<Rightarrow> access_gate list" where
  "routeGraph state = routeGates state @ (case routeSenderEmptyGate state of None \<Rightarrow> [] | Some g \<Rightarrow> [g])"

lemma routeGraph_effects:
  "g \<in> set (routeGraph state) \<Longrightarrow> g_phase g = RoutePhase \<and> g_effect g \<in> {Allow, BlockDispatch, Ignore}"
  by (auto simp: routeGraph_def routeGates_def routeSenderEmptyGate_def split: option.splits
      intro: gateEffectOfRoute_cases)

lemma routeGraph_clear:
  assumes "find (\<lambda>g. g_effect g = BlockDispatch) (routeGraph state) = None" "g \<in> set (routeGraph state)"
  shows "\<not> stopping g"
  using assms routeGraph_effects [of g state] by (auto simp: stopping_def find_None_iff)

lemma decideChannelIngress_routeGraph:
  "decideChannelIngress state policy =
     (case find (\<lambda>g. g_effect g = BlockDispatch) (routeGraph state) of
        Some g \<Rightarrow> decisiveDecision Drop BlockVerdict g (routeGraph state)
      | None \<Rightarrow>
          let early = activationBeforeSender state policy;
              gates1 = routeGraph state @ (case early of None \<Rightarrow> [] | Some a \<Rightarrow> [a]) in
          (case skipOf early of
             Some a \<Rightarrow> decisiveDecision SkipTurn AllowVerdict a gates1
           | None \<Rightarrow>
               let sGate = eventModeSender state policy; gates2 = gates1 @ [sGate] in
               if \<not> g_allowed sGate then
                 (if g_reasonCode sGate = dm_policy_pairing_required
                  then decisiveDecision PairingRequired PairingVerdict sGate gates2
                  else decisiveDecision Drop BlockVerdict sGate gates2)
               else decideAfterSender state policy early sGate gates2))"
  unfolding decideChannelIngress_def routeGraph_def Let_def by (rule refl)

text \<open>The exits of the decision, as one elimination rule.\<close>

lemma decision_cases:
  obtains
    (route) g where "find (\<lambda>g. g_effect g = BlockDispatch) (routeGraph state) = Some g"
      "decideChannelIngress state policy = decisiveDecision Drop BlockVerdict g (routeGraph state)"
  | (early) a where "find (\<lambda>g. g_effect g = BlockDispatch) (routeGraph state) = None"
      "activationBeforeSender state policy = Some a" "g_effect a = Skip"
      "decideChannelIngress state policy = decisiveDecision SkipTurn AllowVerdict a (routeGraph state @ [a])"
  | (sender) pre where "find (\<lambda>g. g_effect g = BlockDispatch) (routeGraph state) = None"
      "skipOf (activationBeforeSender state policy) = None"
      "pre = routeGraph state @ (case activationBeforeSender state policy of None \<Rightarrow> [] | Some a \<Rightarrow> [a])"
      "\<not> g_allowed (eventModeSender state policy)"
      "decideChannelIngress state policy =
         (if g_reasonCode (eventModeSender state policy) = dm_policy_pairing_required
          then decisiveDecision PairingRequired PairingVerdict (eventModeSender state policy) (pre @ [eventModeSender state policy])
          else decisiveDecision Drop BlockVerdict (eventModeSender state policy) (pre @ [eventModeSender state policy]))"
  | (after) pre where "find (\<lambda>g. g_effect g = BlockDispatch) (routeGraph state) = None"
      "skipOf (activationBeforeSender state policy) = None"
      "pre = routeGraph state @ (case activationBeforeSender state policy of None \<Rightarrow> [] | Some a \<Rightarrow> [a])"
      "g_allowed (eventModeSender state policy)"
      "decideChannelIngress state policy =
         decideAfterSender state policy (activationBeforeSender state policy) (eventModeSender state policy)
           (pre @ [eventModeSender state policy])"
proof (cases "find (\<lambda>g. g_effect g = BlockDispatch) (routeGraph state)")
  case (Some g)
  then show thesis by (intro that(1) [of g]) (simp_all add: decideChannelIngress_routeGraph)
next
  case None
  note clear = None
  show thesis
  proof (cases "skipOf (activationBeforeSender state policy)")
    case (Some a)
    then have "activationBeforeSender state policy = Some a" "g_effect a = Skip"
      by (auto simp: skipOf_def split: option.splits if_splits)
    with clear Some show thesis by (intro that(2) [of a]) (simp_all add: decideChannelIngress_routeGraph)
  next
    case None
    show thesis
    proof (cases "g_allowed (eventModeSender state policy)")
      case True
      with clear None show thesis
        by (intro that(4) [OF clear None refl True]) (simp add: decideChannelIngress_routeGraph Let_def)
    next
      case False
      with clear None show thesis
        by (intro that(3) [OF clear None refl False]) (simp add: decideChannelIngress_routeGraph Let_def)
    qed
  qed
qed

text \<open>
  A decision is coherent when its decisive gate is in the graph and carries the reason, the event is
  dispatched exactly when no gate stops it, and the verdict agrees with the admission.
\<close>

definition decision_coherent :: "ingress_decision \<Rightarrow> bool" where
  "decision_coherent d \<longleftrightarrow>
     list_ex (\<lambda>g. g_id g = id_decisiveGateId d \<and> g_reasonCode g = id_reasonCode d \<and>
                  (stopping g \<longleftrightarrow> id_admission d \<noteq> Dispatch)) (id_gates d) \<and>
     (id_admission d = Dispatch \<longleftrightarrow> \<not> list_ex stopping (id_gates d)) \<and>
     (id_admission d = Drop \<longleftrightarrow> id_decision d = BlockVerdict) \<and>
     (id_admission d = PairingRequired \<longleftrightarrow> id_decision d = PairingVerdict) \<and>
     id_admission d \<noteq> ObserveOnly"

lemma coherent_stop:
  "stopping g \<Longrightarrow> g \<in> set gs \<Longrightarrow> (a, v) \<in> {(Drop, BlockVerdict), (SkipTurn, AllowVerdict), (PairingRequired, PairingVerdict)}
   \<Longrightarrow> decision_coherent (decisiveDecision a v g gs)"
  unfolding decision_coherent_def by (auto simp: list_ex_iff)

lemma coherent_dispatch:
  "\<forall>g' \<in> set gs. \<not> stopping g' \<Longrightarrow> g \<in> set gs \<Longrightarrow> decision_coherent (decisiveDecision Dispatch AllowVerdict g gs)"
  unfolding decision_coherent_def by (auto simp: list_ex_iff)

lemma decideAfterSender_cases:
  obtains
    (command) "g_effect (commandGate state policy) = BlockCommand"
      "decideAfterSender state policy early s gs = decisiveDecision Drop BlockVerdict (commandGate state policy) (gs @ [commandGate state policy])"
  | (event) "g_effect (commandGate state policy) \<noteq> BlockCommand"
      "\<not> g_allowed (eventGate state s (commandGate state policy))"
      "decideAfterSender state policy early s gs =
         decisiveDecision Drop BlockVerdict (eventGate state s (commandGate state policy))
           (gs @ [commandGate state policy, eventGate state s (commandGate state policy)])"
  | (activation) a gs' where "g_effect (commandGate state policy) \<noteq> BlockCommand"
      "g_allowed (eventGate state s (commandGate state policy))"
      "a = (case early of Some e \<Rightarrow> e | None \<Rightarrow> activationGate state policy (commandGate state policy))"
      "gs' = gs @ [commandGate state policy, eventGate state s (commandGate state policy)] @ (case early of Some _ \<Rightarrow> [] | None \<Rightarrow> [a])"
      "decideAfterSender state policy early s gs =
         (if g_effect a = Skip then decisiveDecision SkipTurn AllowVerdict a gs'
          else if g_effect a = Observe then decisiveDecision ObserveOnly AllowVerdict a gs'
          else decisiveDecision Dispatch AllowVerdict a gs')"
proof (cases "g_effect (commandGate state policy) = BlockCommand")
  case True
  then show thesis by (intro that(1)) (simp_all add: decideAfterSender_def Let_def)
next
  case False
  note nb = False
  show thesis
  proof (cases "g_allowed (eventGate state s (commandGate state policy))")
    case True
    show thesis
      by (rule that(3) [OF nb True refl refl]) (cases early; simp add: decideAfterSender_def Let_def nb True)
  next
    case False
    show thesis by (rule that(2) [OF nb False]) (simp add: decideAfterSender_def Let_def nb False)
  qed
qed

lemma decideAfterSender_coherent:
  assumes gs: "\<forall>g \<in> set gs. \<not> stopping g"
    and early: "\<And>a. early = Some a \<Longrightarrow> a \<in> set gs \<and> g_effect a = Allow"
  shows "decision_coherent (decideAfterSender state policy early s gs)"
proof -
  let ?c = "commandGate state policy"
  let ?e = "eventGate state s ?c"
  show ?thesis
  proof (cases rule: decideAfterSender_cases [of state policy early s gs])
    case command
    then show ?thesis by (simp only:) (rule coherent_stop, auto simp: stopping_def)
  next
    case event
    then have "stopping ?e" by (simp add: stopping_def eventGate_shape)
    with event show ?thesis by (simp only:) (rule coherent_stop, auto)
  next
    case (activation a gs')
    have c: "\<not> stopping ?c" using activation(1) commandGate_shape(2) [of state policy] by (auto simp: stopping_def)
    have e: "\<not> stopping ?e" using activation(2) by (simp add: stopping_def eventGate_shape)
    have a: "a \<in> set gs'" and eff: "g_effect a \<in> {Allow, Skip}"
      using activation(3,4) early activationGate_effect [of state policy ?c] by (auto split: option.splits)
    show ?thesis
    proof (cases "g_effect a = Skip")
      case True
      with activation(5) a show ?thesis by (simp add: stopping_def coherent_stop)
    next
      case False
      then have "g_effect a = Allow" using eff by simp
      then have "\<not> stopping a" by (simp add: stopping_def)
      then have "\<forall>g' \<in> set gs'. \<not> stopping g'" using gs c e activation(4) by (auto split: option.splits)
      with activation(5) a False \<open>g_effect a = Allow\<close> show ?thesis by (simp add: coherent_dispatch)
    qed
  qed
qed

lemma earlyGates:
  assumes "skipOf (activationBeforeSender state policy) = None" "activationBeforeSender state policy = Some a"
  shows "g_effect a = Allow"
  using assms activationBeforeSender_shape [of state policy a] by (auto simp: skipOf_def split: if_splits)

lemma decideChannelIngress_coherent:
  "decision_coherent (decideChannelIngress state policy)"
proof -
  let ?s = "eventModeSender state policy"
  show ?thesis
  proof (cases rule: decision_cases [of state policy])
    case (route g)
    then have "g \<in> set (routeGraph state)" "g_effect g = BlockDispatch"
      by (auto simp: find_Some_iff)
    with route show ?thesis by (simp add: coherent_stop stopping_def)
  next
    case (early a)
    then show ?thesis by (simp add: coherent_stop stopping_def)
  next
    case (sender pre)
    then have "stopping ?s" using eventModeSender_shape(3) by (simp add: stopping_def)
    with sender(5) show ?thesis by (simp add: coherent_stop split: if_splits)
  next
    case (after pre)
    have "\<forall>g \<in> set (pre @ [?s]). \<not> stopping g"
      using after(3,4) routeGraph_clear [OF after(1)] earlyGates [OF after(2)] eventModeSender_shape(2) [of state policy]
      by (auto simp: stopping_def split: option.splits)
    moreover have "a \<in> set (pre @ [?s]) \<and> g_effect a = Allow" if "activationBeforeSender state policy = Some a" for a
      using that after(3) earlyGates [OF after(2) that] by simp
    ultimately show ?thesis unfolding after(5) by (rule decideAfterSender_coherent)
  qed
qed

text \<open>
  C15. For every resolved state and policy the ingress decision is coherent: its decisive gate is in
  the graph and carries the reported reason, the event is dispatched exactly when no gate of the graph
  blocks dispatch, blocks the command or skips, dropping is exactly the block verdict, pairing exactly
  the pairing verdict, and the \<open>observe\<close> admission is never produced.
\<close>

theorem ingress_decision_coherent:
  "decision_coherent (decideChannelIngress state policy)"
  by (rule decideChannelIngress_coherent)

section \<open>Who is dispatched\<close>

text \<open>
  A list authorises a sender when it matched and, unless mutable identifiers are enabled, when the
  match rests on an entry that is not marked dangerous.
\<close>

definition stable_match :: "policy_input \<Rightarrow> resolved_allowlist \<Rightarrow> bool" where
  "stable_match policy al \<longleftrightarrow>
     (if po_mutableIdentifierMatching policy = Some MutableEnabled \<or>
         \<not> list_ex (\<lambda>e. is_true (ne_dangerous e)) (normalizedEntries al)
      then im_matched (al_match al)
      else list_ex (\<lambda>i. \<not> list_ex (\<lambda>e. is_true (ne_dangerous e) \<and> ne_opaqueEntryId e = i) (normalizedEntries al))
             (matchedEntryIds al))"

lemma set_dangerousEntryIds:
  "set (dangerousEntryIds al) = {ne_opaqueEntryId e | e. e \<in> set (normalizedEntries al) \<and> is_true (ne_dangerous e)}"
  by (auto simp: dangerousEntryIds_def)

lemma dangerousEntryIds_Nil:
  "dangerousEntryIds al = [] \<longleftrightarrow> \<not> list_ex (\<lambda>e. is_true (ne_dangerous e)) (normalizedEntries al)"
  by (auto simp: dangerousEntryIds_def list_ex_iff filter_empty_conv)

lemma matched_applyMutable [simp]:
  "im_matched (al_match (applyMutableIdentifierPolicy al policy)) = stable_match policy al"
proof (cases "po_mutableIdentifierMatching policy = Some MutableEnabled \<or> dangerousEntryIds al = []")
  case True
  then show ?thesis by (auto simp: applyMutableIdentifierPolicy_def stable_match_def dangerousEntryIds_Nil Let_def)
next
  case False
  then have "im_matched (al_match (applyMutableIdentifierPolicy al policy)) \<longleftrightarrow>
      (\<exists>i \<in> set (matchedEntryIds al). i \<notin> set (dangerousEntryIds al))"
    by (auto simp: applyMutableIdentifierPolicy_def Let_def filter_empty_conv)
  also have "\<dots> \<longleftrightarrow> stable_match policy al"
  proof -
    have "i \<notin> set (dangerousEntryIds al) \<longleftrightarrow>
        \<not> list_ex (\<lambda>e. is_true (ne_dangerous e) \<and> ne_opaqueEntryId e = i) (normalizedEntries al)" for i
      unfolding set_dangerousEntryIds list_ex_iff by blast
    moreover have "po_mutableIdentifierMatching policy \<noteq> Some MutableEnabled"
      "list_ex (\<lambda>e. is_true (ne_dangerous e)) (normalizedEntries al)"
      using False by (simp_all add: dangerousEntryIds_Nil)
    ultimately show ?thesis by (simp add: stable_match_def list_ex_iff [of _ "matchedEntryIds al"])
  qed
  finally show ?thesis .
qed

lemma applyMutable_keeps [simp]:
  "hasWildcard (applyMutableIdentifierPolicy al policy) = hasWildcard al"
  "hasConfiguredEntries (applyMutableIdentifierPolicy al policy) = hasConfiguredEntries al"
  "accessGroups (applyMutableIdentifierPolicy al policy) = accessGroups al"
  by (simp_all add: applyMutableIdentifierPolicy_def Let_def)

definition directSenderAllowed :: "ingress_state \<Rightarrow> policy_input \<Rightarrow> bool" where
  "directSenderAllowed state policy \<longleftrightarrow>
     po_dmPolicy policy = DmOpen \<and> hasWildcard (sl_dm (st_allowlists state)) \<or>
     po_dmPolicy policy \<noteq> DmDisabled \<and> stable_match policy (sl_dm (st_allowlists state)) \<or>
     po_dmPolicy policy = DmPairing \<and> stable_match policy (sl_pairingStore (st_allowlists state))"

lemma senderGateForDirect_allowed [simp]:
  "g_allowed (senderGateForDirect state policy) = directSenderAllowed state policy"
  by (cases "po_dmPolicy policy")
    (simp_all add: senderGateForDirect_def directSenderAllowed_def Let_def)

lemma senderGateForDirect_reason:
  "g_reasonCode (senderGateForDirect state policy) = dm_policy_pairing_required \<longleftrightarrow>
   po_dmPolicy policy = DmPairing \<and> ev_mayPair (st_event state) \<and> \<not> directSenderAllowed state policy"
  by (cases "po_dmPolicy policy")
    (auto simp: senderGateForDirect_def directSenderAllowed_def Let_def allowlistFailureReason_def split: option.splits)

definition groupSenderAllowed :: "ingress_state \<Rightarrow> policy_input \<Rightarrow> bool" where
  "groupSenderAllowed state policy \<longleftrightarrow>
     po_groupPolicy policy = GroupOpen \<or>
     po_groupPolicy policy = GroupAllowlist \<and> hasConfiguredEntries (effectiveGroupSenderAllowlist state policy) \<and>
       im_matched (al_match (effectiveGroupSenderAllowlist state policy))"

lemma senderGateForGroup_allowed [simp]:
  "g_allowed (senderGateForGroup state policy) = groupSenderAllowed state policy"
  by (cases "po_groupPolicy policy") (simp_all add: senderGateForGroup_def groupSenderAllowed_def Let_def)

lemma senderGateForGroup_reason:
  "g_reasonCode (senderGateForGroup state policy) \<noteq> dm_policy_pairing_required"
  by (auto simp: senderGateForGroup_def Let_def allowlistFailureReason_def split: option.splits)

definition senderAllowed :: "ingress_state \<Rightarrow> policy_input \<Rightarrow> bool" where
  "senderAllowed state policy =
     (if st_conversationKind state = Direct then directSenderAllowed state policy else groupSenderAllowed state policy)"

lemma eventModeSender_allowed:
  "g_allowed (eventModeSender state policy) \<longleftrightarrow> ev_authMode (st_event state) \<noteq> AuthInbound \<or> senderAllowed state policy"
  by (simp add: eventModeSender_def applyEventAuthModeToSenderGate_def senderAllowed_def)

lemma eventModeSender_pairing:
  "\<not> g_allowed (eventModeSender state policy) \<Longrightarrow>
   g_reasonCode (eventModeSender state policy) = dm_policy_pairing_required \<longleftrightarrow>
   st_conversationKind state = Direct \<and> po_dmPolicy policy = DmPairing \<and> ev_mayPair (st_event state)"
  using senderGateForDirect_reason [of state policy] senderGateForGroup_reason [of state policy]
  by (auto simp: eventModeSender_def applyEventAuthModeToSenderGate_def split: if_splits)

lemma decideAfterSender_admission:
  "id_admission (decideAfterSender state policy early s gs) \<noteq> PairingRequired"
  by (cases rule: decideAfterSender_cases [of state policy early s gs]) auto

lemma dispatch_after_sender:
  assumes "id_admission (decideChannelIngress state policy) = Dispatch"
  obtains pre where "g_allowed (eventModeSender state policy)"
    "skipOf (activationBeforeSender state policy) = None"
    "decideChannelIngress state policy =
       decideAfterSender state policy (activationBeforeSender state policy) (eventModeSender state policy) pre"
  using assms by (cases rule: decision_cases [of state policy]) (auto split: if_splits)


text \<open>
  C14. Pairing is offered exactly when nothing earlier decided (no blocking route, no empty
  deny-when-empty route, no early mention skip), the event is an inbound one of a direct conversation
  that may pair, the policy is pairing, and neither the configured list nor the pairing store
  authorises the sender.
\<close>

theorem pairing_offered_iff:
  "id_admission (decideChannelIngress state policy) = PairingRequired \<longleftrightarrow>
     \<not> list_ex (\<lambda>r. rr_effect r = RtBlockDispatch \<or> routeSenderIsEmpty r) (st_routeFacts state) \<and>
     skipOf (activationBeforeSender state policy) = None \<and>
     st_conversationKind state = Direct \<and> ev_authMode (st_event state) = AuthInbound \<and>
     po_dmPolicy policy = DmPairing \<and> ev_mayPair (st_event state) \<and>
     \<not> stable_match policy (sl_dm (st_allowlists state)) \<and>
     \<not> stable_match policy (sl_pairingStore (st_allowlists state))"
proof -
  have bd: "gateEffectOfRoute e = BlockDispatch \<longleftrightarrow> e = RtBlockDispatch" for e by (cases e) auto
  have clear: "find (\<lambda>g. g_effect g = BlockDispatch) (routeGraph state) = None \<longleftrightarrow>
      \<not> list_ex (\<lambda>r. rr_effect r = RtBlockDispatch \<or> routeSenderIsEmpty r) (st_routeFacts state)"
    by (auto simp: find_None_iff routeGraph_def routeGates_def routeSenderEmptyGate_def list_ex_iff bd
        find_Some_iff split: option.splits dest: nth_mem)
  let ?s = "eventModeSender state policy"
  have s: "\<not> g_allowed ?s \<Longrightarrow> g_reasonCode ?s = dm_policy_pairing_required \<longleftrightarrow>
      st_conversationKind state = Direct \<and> po_dmPolicy policy = DmPairing \<and> ev_mayPair (st_event state)"
    by (rule eventModeSender_pairing)
  have a: "\<not> g_allowed ?s \<longleftrightarrow> ev_authMode (st_event state) = AuthInbound \<and> \<not> senderAllowed state policy"
    by (simp add: eventModeSender_allowed)
  have d: "st_conversationKind state = Direct \<Longrightarrow> po_dmPolicy policy = DmPairing \<Longrightarrow>
      senderAllowed state policy \<longleftrightarrow> stable_match policy (sl_dm (st_allowlists state)) \<or>
        stable_match policy (sl_pairingStore (st_allowlists state))"
    by (simp add: senderAllowed_def directSenderAllowed_def)
  show ?thesis
  proof (cases rule: decision_cases [of state policy])
    case (route g)
    then show ?thesis using clear by auto
  next
    case (early x)
    then show ?thesis by (simp add: skipOf_def)
  next
    case (sender pre)
    with clear s a d show ?thesis by auto
  next
    case (after pre)
    with clear a d decideAfterSender_admission show ?thesis by auto
  qed
qed

section \<open>Commands\<close>

definition commandAuthorized :: "ingress_state \<Rightarrow> policy_input \<Rightarrow> command_policy \<Rightarrow> bool" where
  "commandAuthorized state policy c \<longleftrightarrow>
     (let owner = sl_commandOwner (st_allowlists state); grp = sl_commandGroup (st_allowlists state);
          listed = (hasConfiguredEntries owner \<and> stable_match policy owner \<or>
                    hasConfiguredEntries grp \<and> stable_match policy grp) in
      if cp_useAccessGroups c = Some False
      then (case cp_modeWhenAccessGroupsOff c of
              None \<Rightarrow> True | Some ModeAllow \<Rightarrow> True | Some ModeDeny \<Rightarrow> False
            | Some ModeConfigured \<Rightarrow> \<not> hasConfiguredEntries owner \<and> \<not> hasConfiguredEntries grp \<or> listed)
      else listed)"

lemma commandGate_Some:
  "po_command policy = Some c \<Longrightarrow>
   g_allowed (commandGate state policy) = commandAuthorized state policy c \<and>
   (g_effect (commandGate state policy) = BlockCommand \<longleftrightarrow>
      cp_allowTextCommands c \<and> cp_hasControlCommand c \<and> \<not> commandAuthorized state policy c)"
  by (auto simp: commandGate_def commandAuthorized_def resolveCommandAuthorizedFromAuthorizers_def Let_def
      split: option.splits gating_mode_off.splits)

lemma dispatch_after_command:
  assumes "id_admission (decideChannelIngress state policy) \<in> {Dispatch, SkipTurn}"
    and "skipOf (activationBeforeSender state policy) = None"
  obtains a where "g_effect (commandGate state policy) \<noteq> BlockCommand"
    "g_allowed (eventGate state (eventModeSender state policy) (commandGate state policy))"
    "a = (case activationBeforeSender state policy of Some e \<Rightarrow> e | None \<Rightarrow> activationGate state policy (commandGate state policy))"
    "id_admission (decideChannelIngress state policy) = (if g_effect a = Skip then SkipTurn else Dispatch)"
proof (cases rule: decision_cases [of state policy])
  case (after pre)
  let ?early = "activationBeforeSender state policy"
  show thesis
  proof (cases rule: decideAfterSender_cases [of state policy ?early "eventModeSender state policy" "pre @ [eventModeSender state policy]"])
    case (activation a gs')
    have "g_effect a \<in> {Allow, Skip}"
      using activation(3) activationGate_effect activationBeforeSender_shape [of state policy]
      by (auto split: option.splits)
    with activation after(5) show thesis by (intro that [of a]) auto
  qed (use assms after(5) in auto)
qed (use assms in \<open>auto simp: skipOf_def split: if_splits\<close>)

text \<open>
  C13. A recognised control command is dispatched only when it is authorised: with access groups on,
  by a stable match of a configured owner or group command list; with access groups off, by the
  channel's fallback mode. Otherwise the event is dropped with \<open>control_command_unauthorized\<close>
  whenever no earlier gate decided.
\<close>

theorem control_command_needs_authorisation:
  assumes "po_command policy = Some c" "cp_allowTextCommands c" "cp_hasControlCommand c"
    and "id_admission (decideChannelIngress state policy) = Dispatch"
  shows "commandAuthorized state policy c"
proof -
  from assms(4) have n: "skipOf (activationBeforeSender state policy) = None" by (rule dispatch_after_sender)
  have "id_admission (decideChannelIngress state policy) \<in> {Dispatch, SkipTurn}" using assms(4) by simp
  from this n have "g_effect (commandGate state policy) \<noteq> BlockCommand" by (rule dispatch_after_command)
  with commandGate_Some [OF assms(1)] assms(2,3) show ?thesis by blast
qed

section \<open>Mention gating\<close>

lemma resolveMatched_set:
  "set (resolveMatchedImplicitMentionKinds ks allowed) =
     {k \<in> set (case ks of None \<Rightarrow> [] | Some l \<Rightarrow> l). case allowed of None \<Rightarrow> True | Some l \<Rightarrow> k \<in> set l}"
proof -
  have "set (fold (\<lambda>k matched. if (case allowed of None \<Rightarrow> False | Some ks \<Rightarrow> k \<notin> set ks) then matched
        else if k \<in> set matched then matched else matched @ [k]) l acc) =
      set acc \<union> {k \<in> set l. case allowed of None \<Rightarrow> True | Some l \<Rightarrow> k \<in> set l}" for l acc
    by (induction l arbitrary: acc) (auto split: option.splits)
  from this [of _ "[]"] show ?thesis by (simp add: resolveMatchedImplicitMentionKinds_def)
qed

text \<open>The message addresses the bot: by mention, or by an implicit mention of an allowed kind.\<close>

definition addressesBot :: "activation_policy \<Rightarrow> mention_facts \<Rightarrow> bool" where
  "addressesBot a f \<longleftrightarrow> mf_wasMentioned f \<or>
     list_ex (\<lambda>k. case resolveAllowedImplicitMentionKinds (Some a) of None \<Rightarrow> True | Some l \<Rightarrow> k \<in> set l)
       (case mf_implicitMentionKinds f of None \<Rightarrow> [] | Some l \<Rightarrow> l)"

definition commandBypass :: "ingress_state \<Rightarrow> policy_input \<Rightarrow> activation_policy \<Rightarrow> mention_facts \<Rightarrow> access_gate \<Rightarrow> bool" where
  "commandBypass state policy a f c \<longleftrightarrow>
     st_conversationKind state \<noteq> Direct \<and> ap_requireMention a \<and> \<not> mf_wasMentioned f \<and> \<not> is_true (mf_hasAnyMention f) \<and>
     ap_allowTextCommands a \<and> g_allowed c \<and> (case po_command policy of None \<Rightarrow> False | Some p \<Rightarrow> cp_hasControlCommand p)"

lemma activationGate_skips:
  "g_effect (activationGate state policy c) = Skip \<longleftrightarrow>
     (case (po_activation policy, st_mentionFacts state) of
        (Some a, Some f) \<Rightarrow> ap_requireMention a \<and> mf_canDetectMention f \<and> \<not> addressesBot a f \<and> \<not> commandBypass state policy a f c
      | _ \<Rightarrow> False)"
proof (cases "po_activation policy"; cases "st_mentionFacts state")
  fix a f assume [simp]: "po_activation policy = Some a" "st_mentionFacts state = Some f"
  have len: "resolveMatchedImplicitMentionKinds ks al = [] \<longleftrightarrow>
      \<not> list_ex (\<lambda>k. case al of None \<Rightarrow> True | Some l \<Rightarrow> k \<in> set l) (case ks of None \<Rightarrow> [] | Some l \<Rightarrow> l)" for ks al
    using resolveMatched_set [of ks al] by (auto simp: list_ex_iff simp flip: set_empty)
  show ?thesis
    by (cases "resolveAllowedImplicitMentionKinds (Some a)")
      (auto simp: activationGate_def Let_def resolveInboundMentionDecision_def resolveMentionDecisionCore_def
        len addressesBot_def commandBypass_def)
qed (simp_all add: activationGate_def)

text \<open>
  Mention gating. With a mention requirement on a message where mentions can be detected, an
  event is dispatched only if it addresses the bot, by mention or by an allowed implicit kind, or if it
  is a group control command that is authorised and mentions nobody else; and a turn is skipped only
  under such a requirement, for a message that does not address the bot.
\<close>

theorem mention_requirement_enforced:
  assumes "po_activation policy = Some a" "st_mentionFacts state = Some f"
  shows "(id_admission (decideChannelIngress state policy) = Dispatch \<and> ap_requireMention a \<and> mf_canDetectMention f \<longrightarrow>
           addressesBot a f \<or> commandBypass state policy a f (commandGate state policy)) \<and>
         (id_admission (decideChannelIngress state policy) = SkipTurn \<longrightarrow>
           ap_requireMention a \<and> mf_canDetectMention f \<and> \<not> addressesBot a f)"
proof -
  let ?early = "activationBeforeSender state policy"
  have gate: "g_effect (activationGate state policy c) = Skip \<longleftrightarrow>
      ap_requireMention a \<and> mf_canDetectMention f \<and> \<not> addressesBot a f \<and> \<not> commandBypass state policy a f c" for c
    by (simp add: activationGate_skips assms)
  have early: "\<exists>c. e = activationGate state policy c \<and> \<not> commandBypass state policy a f c" if "?early = Some e" for e
    using that assms(1) by (auto simp: activationBeforeSender_def commandBypass_def split: if_splits)
  have "addressesBot a f \<or> commandBypass state policy a f (commandGate state policy)"
    if d: "id_admission (decideChannelIngress state policy) = Dispatch" "ap_requireMention a" "mf_canDetectMention f"
  proof -
    from d(1) have n: "skipOf ?early = None" by (rule dispatch_after_sender)
    have "id_admission (decideChannelIngress state policy) \<in> {Dispatch, SkipTurn}" using d(1) by simp
    from this n obtain x where x: "x = (case ?early of Some e \<Rightarrow> e | None \<Rightarrow> activationGate state policy (commandGate state policy))"
      and "id_admission (decideChannelIngress state policy) = (if g_effect x = Skip then SkipTurn else Dispatch)"
      by (rule dispatch_after_command)
    then have "g_effect x \<noteq> Skip" using d(1) by auto
    with x d gate early show ?thesis by (cases ?early) auto
  qed
  moreover have "ap_requireMention a \<and> mf_canDetectMention f \<and> \<not> addressesBot a f"
    if s: "id_admission (decideChannelIngress state policy) = SkipTurn"
  proof (cases "skipOf ?early")
    case (Some e)
    then have e: "?early = Some e" "g_effect e = Skip" by (auto simp: skipOf_def split: option.splits if_splits)
    with early [OF e(1)] gate show ?thesis by auto
  next
    case None
    have "id_admission (decideChannelIngress state policy) \<in> {Dispatch, SkipTurn}" using s by simp
    from this None obtain x where x: "x = (case ?early of Some e \<Rightarrow> e | None \<Rightarrow> activationGate state policy (commandGate state policy))"
      and "id_admission (decideChannelIngress state policy) = (if g_effect x = Skip then SkipTurn else Dispatch)"
      by (rule dispatch_after_command)
    then have "g_effect x = Skip" using s by (auto split: if_splits)
    with x gate early show ?thesis by (cases ?early) auto
  qed
  ultimately show ?thesis by blast
qed

section \<open>The pairing store\<close>

definition withPairingStore :: "resolved_allowlist \<Rightarrow> ingress_state \<Rightarrow> ingress_state" where
  "withPairingStore al state = state\<lparr>st_allowlists := (st_allowlists state)\<lparr>sl_pairingStore := al\<rparr>\<rparr>"

lemma withPairingStore_simps [simp]:
  "st_conversationKind (withPairingStore al s) = st_conversationKind s" "st_event (withPairingStore al s) = st_event s"
  "st_mentionFacts (withPairingStore al s) = st_mentionFacts s" "st_routeFacts (withPairingStore al s) = st_routeFacts s"
  "sl_dm (st_allowlists (withPairingStore al s)) = sl_dm (st_allowlists s)"
  "sl_group (st_allowlists (withPairingStore al s)) = sl_group (st_allowlists s)"
  "sl_commandOwner (st_allowlists (withPairingStore al s)) = sl_commandOwner (st_allowlists s)"
  "sl_commandGroup (st_allowlists (withPairingStore al s)) = sl_commandGroup (st_allowlists s)"
  by (simp_all add: withPairingStore_def)

lemma gates_withPairingStore [simp]:
  "commandGate (withPairingStore al s) policy = commandGate s policy"
  "activationGate (withPairingStore al s) policy c = activationGate s policy c"
  "eventGate (withPairingStore al s) g c = eventGate s g c"
  "routeGates (withPairingStore al s) = routeGates s"
  "routeSenderEmptyGate (withPairingStore al s) = routeSenderEmptyGate s"
  "applyEventAuthModeToSenderGate (withPairingStore al s) g = applyEventAuthModeToSenderGate s g"
  "senderGateForGroup (withPairingStore al s) policy = senderGateForGroup s policy"
  by (simp_all add: commandGate_def activationGate_def eventGate_def routeGates_def routeSenderEmptyGate_def
      applyEventAuthModeToSenderGate_def senderGateForGroup_def effectiveGroupSenderAllowlist_def Let_def
      cong: option.case_cong)

text \<open>
  The pairing store only speaks under the pairing policy of a direct conversation: in every other
  case replacing its resolved entries by any others leaves the whole decision, gates included,
  unchanged.
\<close>

theorem pairing_store_only_under_pairing:
  assumes "po_dmPolicy policy \<noteq> DmPairing \<or> st_conversationKind state \<noteq> Direct"
  shows "decideChannelIngress (withPairingStore al state) policy = decideChannelIngress state policy"
proof -
  have "eventModeSender (withPairingStore al state) policy = eventModeSender state policy"
  proof (cases "st_conversationKind state = Direct")
    case True
    with assms have "senderGateForDirect (withPairingStore al state) policy = senderGateForDirect state policy"
      by (simp add: senderGateForDirect_def Let_def)
    with True show ?thesis by (simp add: eventModeSender_def)
  qed (simp add: eventModeSender_def)
  moreover have "activationBeforeSender (withPairingStore al state) policy = activationBeforeSender state policy"
    by (simp add: activationBeforeSender_def split: option.split)
  moreover have "decideAfterSender (withPairingStore al state) policy e s g = decideAfterSender state policy e s g" for e s g
    by (simp only: decideAfterSender_def gates_withPairingStore)
  ultimately show ?thesis by (simp only: decideChannelIngress_def gates_withPairingStore)
qed

section \<open>Example states\<close>

definition demoGroups :: group_facts where
  "demoGroups = \<lparr>ag_referenced = [], ag_matched = [], ag_missing = [], ag_unsupported = [], ag_failed = []\<rparr>"

text \<open>A one-entry allowlist, matched or not; the entry is a mutable user name when \<open>dangerous\<close>.\<close>

definition demoList :: "bool \<Rightarrow> bool \<Rightarrow> resolved_allowlist" where
  "demoList matched dangerous =
     \<lparr>rawEntryCount = 1,
      normalizedEntries = [\<lparr>ne_opaqueEntryId = ''entry-1'', ne_kind = Username, ne_dangerous = Some dangerous,
                            ne_sensitivity = None\<rparr>],
      invalidEntries = [], disabledEntries = [],
      matchedEntryIds = (if matched then [''entry-1''] else []), hasConfiguredEntries = True,
      hasMatchableEntries = True, hasWildcard = False, accessGroups = demoGroups,
      al_match = \<lparr>im_matched = matched, im_matchedEntryIds = (if matched then [''entry-1''] else [])\<rparr>\<rparr>"

definition demoState :: "conversation_kind \<Rightarrow> resolved_allowlist \<Rightarrow> resolved_allowlist \<Rightarrow> mention_facts option \<Rightarrow> ingress_state" where
  "demoState k dm store facts =
     \<lparr>st_channelId = ''telegram'', st_accountId = ''default'', st_conversationKind = k,
      st_event = \<lparr>ev_kind = MessageEvent, ev_authMode = AuthInbound, ev_mayPair = True, ev_hasOriginSubject = False,
                  ev_originSubjectMatched = False\<rparr>,
      st_mentionFacts = facts, st_routeFacts = [],
      st_allowlists = \<lparr>sl_dm = dm, sl_pairingStore = store, sl_group = demoList False False,
                       sl_commandOwner = dm, sl_commandGroup = demoList False False\<rparr>\<rparr>"

definition demoPolicy :: "dm_policy \<Rightarrow> group_policy \<Rightarrow> policy_input" where
  "demoPolicy d g =
     \<lparr>po_dmPolicy = d, po_groupPolicy = g, po_groupAllowFromFallbackToAllowFrom = None,
      po_mutableIdentifierMatching = None,
      po_activation = Some \<lparr>ap_requireMention = True, ap_allowTextCommands = True, ap_implicitMentions = None,
                             ap_allowedImplicitMentionKinds = None, ap_order = None\<rparr>,
      po_command = Some \<lparr>cp_useAccessGroups = None, cp_allowTextCommands = True, cp_hasControlCommand = True,
                         cp_modeWhenAccessGroupsOff = None\<rparr>\<rparr>"

definition demoMention :: mention_facts where
  "demoMention = \<lparr>mf_canDetectMention = True, mf_wasMentioned = False, mf_hasAnyMention = None, mf_implicitMentionKinds = Some [ReplyToBot]\<rparr>"

text \<open>A user name that matches is no authorisation while mutable identifiers are off.\<close>

lemma demo_dangerous_not_dispatched:
  "id_admission (decideChannelIngress (demoState Direct (demoList True True) (demoList False False) None) (demoPolicy DmPairing GroupOpen)) = PairingRequired"
  by code_simp


theorem control_command_needs_authorisation_witness:
  "commandAuthorized (demoState Channel (demoList True False) (demoList False False) None) (demoPolicy DmDisabled GroupOpen)
     (the (po_command (demoPolicy DmDisabled GroupOpen)))"
proof (rule control_command_needs_authorisation)
  show "po_command (demoPolicy DmDisabled GroupOpen) = Some (the (po_command (demoPolicy DmDisabled GroupOpen)))" by code_simp
  show "cp_allowTextCommands (the (po_command (demoPolicy DmDisabled GroupOpen)))" by code_simp
  show "cp_hasControlCommand (the (po_command (demoPolicy DmDisabled GroupOpen)))" by code_simp
  show "id_admission (decideChannelIngress (demoState Channel (demoList True False) (demoList False False) None) (demoPolicy DmDisabled GroupOpen)) = Dispatch"
    by code_simp
qed

theorem mention_requirement_enforced_witness:
  "addressesBot (the (po_activation (demoPolicy DmDisabled GroupOpen))) demoMention"
proof -
  let ?s = "demoState Group (demoList True False) (demoList False False) (Some demoMention)"
  let ?p = "(demoPolicy DmDisabled GroupOpen)\<lparr>po_command := None\<rparr>"
  let ?a = "the (po_activation ?p)"
  have "po_activation ?p = Some ?a" by code_simp
  moreover have "st_mentionFacts ?s = Some demoMention" by code_simp
  ultimately have "id_admission (decideChannelIngress ?s ?p) = Dispatch \<and> ap_requireMention ?a \<and> mf_canDetectMention demoMention \<longrightarrow>
           addressesBot ?a demoMention \<or> commandBypass ?s ?p ?a demoMention (commandGate ?s ?p)"
    by (rule mention_requirement_enforced [THEN conjunct1])
  moreover have "id_admission (decideChannelIngress ?s ?p) = Dispatch \<and> ap_requireMention ?a \<and> mf_canDetectMention demoMention"
    by code_simp
  moreover have "\<not> commandBypass ?s ?p ?a demoMention (commandGate ?s ?p)" by code_simp
  moreover have "?a = the (po_activation (demoPolicy DmDisabled GroupOpen))" by code_simp
  ultimately show ?thesis by simp
qed

theorem pairing_store_only_under_pairing_witness:
  "id_admission (decideChannelIngress (withPairingStore (demoList True False)
      (demoState Direct (demoList False False) (demoList False False) None)) (demoPolicy DmAllowlist GroupOpen)) = Drop"
proof -
  let ?s = "demoState Direct (demoList False False) (demoList False False) None"
  have "decideChannelIngress (withPairingStore (demoList True False) ?s) (demoPolicy DmAllowlist GroupOpen) =
      decideChannelIngress ?s (demoPolicy DmAllowlist GroupOpen)"
    by (rule pairing_store_only_under_pairing) code_simp
  moreover have "id_admission (decideChannelIngress ?s (demoPolicy DmAllowlist GroupOpen)) = Drop" by code_simp
  ultimately show ?thesis by simp
qed

end
