(* ===== verification/IngressIdentity.thy ===== *)
theory IngressIdentity
  imports IngressState
begin

text \<open>
  The shared identity adapter (\<open>src/channels/message-access/runtime-identity.ts\<close>) behind every channel,
  the runtime access-group facts (\<open>runtime-access-groups.ts\<close>) and the effective allowlists
  (\<open>effective-allow-from.ts\<close>, \<open>store-allow-from.ts\<close>, \<open>dm-allow-state.ts\<close>).

  The interface the resolver of \<open>IngressState\<close> relies on is the locale \<open>match_source\<close>: a matcher names
  only entries it was given, and it matched exactly when it names one. The identity adapter provides it.
\<close>

section \<open>Identity descriptors\<close>

datatype danger_rule = DangerFlag bool | DangerTest "string \<Rightarrow> bool option"

record identity_field =
  if_key :: "string option"
  if_kind :: "identifier_kind option"
  if_normalize :: "(string \<Rightarrow> string option) option"
  if_normalizeEntry :: "(string \<Rightarrow> string option) option"
  if_normalizeSubject :: "(string \<Rightarrow> string option) option"
  if_dangerous :: "danger_rule option"
  if_sensitivity :: "sensitivity option"

text \<open>The arguments of \<open>resolveEntryId\<close>: entry, entry index, field key, field index.\<close>

type_synonym entry_id_maker = "string \<Rightarrow> nat \<Rightarrow> string \<Rightarrow> nat \<Rightarrow> string"

record identity_descriptor =
  primary :: identity_field
  aliases :: "(string \<times> identity_field) list option"
  isWildcardEntry :: "(string \<Rightarrow> bool) option"
  matchEntry :: "(ingress_subject \<Rightarrow> internal_entry \<Rightarrow> match_context \<Rightarrow> bool option) option"
  resolveEntryId :: "entry_id_maker option"

record subject_input =
  si_stableId :: "raw_entry option"
  si_aliases :: "(string \<times> raw_entry) list option"

record resolved_field =
  rf_key :: string
  rf_kind :: identifier_kind
  rf_field :: identity_field

definition defineStableChannelIngressIdentity :: "identity_field \<Rightarrow> (string \<times> identity_field) list option \<Rightarrow> (string \<Rightarrow> bool) option \<Rightarrow>
    (ingress_subject \<Rightarrow> internal_entry \<Rightarrow> match_context \<Rightarrow> bool option) option \<Rightarrow> string option \<Rightarrow> entry_id_maker option \<Rightarrow> identity_descriptor" where
  "defineStableChannelIngressIdentity prim als wild me entryIdPrefix resolveId =
     \<lparr>primary = prim, aliases = als, isWildcardEntry = wild, matchEntry = me,
      resolveEntryId =
        (case resolveId of
           Some r \<Rightarrow> Some r
         | None \<Rightarrow> (case entryIdPrefix of
                      Some p \<Rightarrow> if p = [] then None
                                else Some (\<lambda>_ entryIndex _ _. p @ ''-'' @ string_of_nat (entryIndex + 1))
                    | None \<Rightarrow> None))\<rparr>"

datatype normalize_mode = EntryMode | SubjectMode

definition firstNormalizer :: "(string \<Rightarrow> string option) option \<Rightarrow> (string \<Rightarrow> string option) option \<Rightarrow> string \<Rightarrow> string option" where
  "firstNormalizer specific shared =
     (case specific of Some f \<Rightarrow> f | None \<Rightarrow> (case shared of Some f \<Rightarrow> f | None \<Rightarrow> Some))"

definition normalizeFieldValue :: "resolved_field \<Rightarrow> string \<Rightarrow> normalize_mode \<Rightarrow> string option" where
  "normalizeFieldValue field value mode =
     (let norm = (if mode = EntryMode then firstNormalizer (if_normalizeEntry (rf_field field)) (if_normalize (rf_field field))
                  else firstNormalizer (if_normalizeSubject (rf_field field)) (if_normalize (rf_field field))) in
      Option.bind (norm value) normalizeOptionalString)"

definition fieldDangerous :: "resolved_field \<Rightarrow> string \<Rightarrow> bool option" where
  "fieldDangerous field value =
     (case if_dangerous (rf_field field) of
        None \<Rightarrow> None | Some (DangerFlag b) \<Rightarrow> Some b | Some (DangerTest t) \<Rightarrow> t value)"

definition identityFields :: "identity_descriptor \<Rightarrow> resolved_field list" where
  "identityFields identity =
     \<lparr>rf_key = (case if_key (primary identity) of Some k \<Rightarrow> k | None \<Rightarrow> ''stableId''),
      rf_kind = (case if_kind (primary identity) of Some k \<Rightarrow> k | None \<Rightarrow> StableId), rf_field = primary identity\<rparr> #
     map (\<lambda>(key, f). \<lparr>rf_key = key, rf_kind = (case if_kind f of Some k \<Rightarrow> k | None \<Rightarrow> PluginKind key), rf_field = f\<rparr>)
       (case aliases identity of None \<Rightarrow> [] | Some as \<Rightarrow> as)"

fun kindString :: "identifier_kind \<Rightarrow> string" where
  "kindString StableId = ''stable-id''"
| "kindString Username = ''username''"
| "kindString Email = ''email''"
| "kindString Phone = ''phone''"
| "kindString RoleId = ''role''"
| "kindString (PluginKind s) = ''plugin:'' @ s"

definition identityMatchKey :: "identifier_kind \<Rightarrow> string \<Rightarrow> string" where
  "identityMatchKey k v = kindString k @ '':'' @ v"

definition adapterEntry :: "identity_descriptor \<Rightarrow> resolved_field \<Rightarrow> nat \<Rightarrow> string \<Rightarrow> nat \<Rightarrow> string \<Rightarrow> string option \<Rightarrow> internal_entry" where
  "adapterEntry identity field fieldIndex entry entryIndex value fallbackSuffix =
     \<lparr>ne_opaqueEntryId =
        (case resolveEntryId identity of
           Some r \<Rightarrow> r entry entryIndex (rf_key field) fieldIndex
         | None \<Rightarrow> ''entry-'' @ string_of_nat (entryIndex + 1) @ '':'' @
                   (case fallbackSuffix of Some s \<Rightarrow> s | None \<Rightarrow> rf_key field)),
      ne_kind = rf_kind field, ne_dangerous = fieldDangerous field entry,
      ne_sensitivity = if_sensitivity (rf_field field), ne_value = value\<rparr>"

definition isWildcard :: "identity_descriptor \<Rightarrow> string \<Rightarrow> bool" where
  "isWildcard identity = (case isWildcardEntry identity of Some f \<Rightarrow> f | None \<Rightarrow> (\<lambda>v. v = ''*''))"

definition normalizeIdentityEntry :: "identity_descriptor \<Rightarrow> nat \<times> string \<Rightarrow> internal_entry list" where
  "normalizeIdentityEntry identity ie =
     (case ie of (entryIndex, entry) \<Rightarrow>
        if isWildcard identity entry
        then [adapterEntry identity (hd (identityFields identity)) 0 entry entryIndex ''*'' (Some ''wildcard'')]
        else concat (map (\<lambda>(fieldIndex, field).
               case normalizeFieldValue field entry EntryMode of
                 None \<Rightarrow> []
               | Some value \<Rightarrow> [adapterEntry identity field fieldIndex entry entryIndex value None])
             (enumerate 0 (identityFields identity))))"

definition subjectKeys :: "identity_descriptor \<Rightarrow> ingress_subject \<Rightarrow> string list" where
  "subjectKeys identity subject =
     List.map_filter (\<lambda>identifier.
       case find (\<lambda>f. rf_kind f = mm_kind identifier) (identityFields identity) of
         None \<Rightarrow> None
       | Some field \<Rightarrow> map_option (identityMatchKey (mm_kind identifier))
                         (normalizeFieldValue field (mm_value identifier) SubjectMode))
       (identifiers subject)"

definition entryMatches :: "identity_descriptor \<Rightarrow> ingress_subject \<Rightarrow> match_context \<Rightarrow> internal_entry \<Rightarrow> bool" where
  "entryMatches identity subject context entry =
     (let fallback = (ne_value entry = ''*'' \<or> identityMatchKey (ne_kind entry) (ne_value entry) \<in> set (subjectKeys identity subject)) in
      case matchEntry identity of
        None \<Rightarrow> fallback
      | Some me \<Rightarrow> (case me subject entry context of Some b \<Rightarrow> b | None \<Rightarrow> fallback))"

definition createIdentityAdapter :: "identity_descriptor \<Rightarrow> ingress_adapter" where
  "createIdentityAdapter identity =
     \<lparr>normalizeEntriesOf = (\<lambda>entries _ _.
        \<lparr>nr_matchable = concat (map (normalizeIdentityEntry identity) (enumerate 0 entries)), nr_invalid = [], nr_disabled = []\<rparr>),
      matchSubjectOf = (\<lambda>subject entries context.
        let ids = map ne_opaqueEntryId (filter (entryMatches identity subject context) entries) in
        \<lparr>im_matched = length ids > 0, im_matchedEntryIds = ids\<rparr>)\<rparr>"

definition createIdentitySubject :: "identity_descriptor \<Rightarrow> subject_input \<Rightarrow> ingress_subject" where
  "createIdentitySubject identity input =
     \<lparr>identifiers = concat (map (\<lambda>(index, field).
        case (if index = 0 then si_stableId input else Option.bind (si_aliases input) (\<lambda>as. map_of as (rf_key field))) of
          None \<Rightarrow> []
        | Some raw \<Rightarrow>
            [\<lparr>mm_opaqueId = rf_key field, mm_kind = rf_kind field,
              mm_dangerous = fieldDangerous field (entry_string raw),
              mm_sensitivity = if_sensitivity (rf_field field), mm_value = entry_string raw\<rparr>])
        (enumerate 0 (identityFields identity)))\<rparr>"

text \<open>Every match in a group resolution has its source: a named normalised entry or a matched fact.\<close>

definition group_matches_sourced :: "state_input \<Rightarrow> group_resolution \<Rightarrow> bool" where
  "group_matches_sourced input r \<longleftrightarrow>
     (\<forall>m \<in> set (gr_matches r).
        (im_matchedEntryIds m \<noteq> [] \<and> set (im_matchedEntryIds m) \<subseteq> ne_opaqueEntryId ` set (gr_normalizedEntries r)) \<or>
        (\<exists>g s ids. map_of (accessGroupFactByName (in_accessGroupMembership input)) g = Some (FactMatched g s ids) \<and>
                   g \<in> set (ag_matched (gr_accessGroups r)) \<and> im_matchedEntryIds m = ids))"

lemma accessGroupFactByName_key:
  "map_of (accessGroupFactByName facts) g = Some f \<Longrightarrow> factGroupName f = g"
proof -
  have "(\<forall>k v. map_of acc k = Some v \<longrightarrow> factGroupName v = k) \<Longrightarrow>
      map_of (fold (\<lambda>f m. AList.update (factGroupName f) f m) fs acc) g = Some f \<Longrightarrow> factGroupName f = g" for fs acc
  proof (induction fs arbitrary: acc)
    case (Cons a fs)
    have "\<forall>k v. map_of (AList.update (factGroupName a) a acc) k = Some v \<longrightarrow> factGroupName v = k"
    proof (intro allI impI)
      fix k v assume "map_of (AList.update (factGroupName a) a acc) k = Some v"
      then have "k = factGroupName a \<and> v = a \<or> map_of acc k = Some v"
        by (cases "k = factGroupName a") simp_all
      then show "factGroupName v = k" using Cons.prems(1) by blast
    qed
    then show ?case using Cons.prems(2) unfolding fold_Cons comp_apply by (rule Cons.IH)
  next
    case Nil
    from Nil.prems(2) have "map_of acc g = Some f" by (simp only: fold_Nil id_apply)
    with Nil.prems(1) show ?case by blast
  qed
  from this [of "[]"] show "map_of (accessGroupFactByName facts) g = Some f \<Longrightarrow> factGroupName f = g"
    unfolding accessGroupFactByName_def by (simp only: map_of.simps) blast
qed

section \<open>What the resolver needs of a matcher\<close>

locale match_source =
  fixes match :: "ingress_subject \<Rightarrow> internal_entry list \<Rightarrow> match_context \<Rightarrow> ingress_match"
  assumes match_names_entries: "set (im_matchedEntryIds (match s es c)) \<subseteq> ne_opaqueEntryId ` set es"
    and matched_iff_named: "im_matched (match s es c) \<longleftrightarrow> im_matchedEntryIds (match s es c) \<noteq> []"
begin

lemma normalizeAndMatch_source:
  assumes "matchSubjectOf adapter = match"
  shows "im_matched (mr_match (normalizeAndMatch adapter s a es c)) \<longleftrightarrow>
           im_matchedEntryIds (mr_match (normalizeAndMatch adapter s a es c)) \<noteq> []"
    and "set (im_matchedEntryIds (mr_match (normalizeAndMatch adapter s a es c))) \<subseteq>
           ne_opaqueEntryId ` set (mr_normalizedEntries (normalizeAndMatch adapter s a es c))"
proof -
  have t: "ne_opaqueEntryId (normalized_entry.truncate e) = ne_opaqueEntryId e" for e :: internal_entry
    by (simp add: normalized_entry.truncate_def)
  show "im_matched (mr_match (normalizeAndMatch adapter s a es c)) \<longleftrightarrow>
           im_matchedEntryIds (mr_match (normalizeAndMatch adapter s a es c)) \<noteq> []"
    using assms matched_iff_named by (simp add: normalizeAndMatch_def emptyMatch_def Let_def)
  show "set (im_matchedEntryIds (mr_match (normalizeAndMatch adapter s a es c))) \<subseteq>
           ne_opaqueEntryId ` set (mr_normalizedEntries (normalizeAndMatch adapter s a es c))"
    using match_names_entries [of s "nr_matchable (normalizeEntriesOf adapter es c a)" c]
    by (auto simp: normalizeAndMatch_def emptyMatch_def redactedEntries_def assms Let_def image_image t)
qed

lemma expandSenderGroup_sourced:
  assumes m: "matchSubjectOf (in_adapter input) = match" and s: "group_matches_sourced input r"
  shows "group_matches_sourced input (expandSenderGroup input context g r)"
proof -
  let ?n = "normalizeAndMatch (in_adapter input) (in_subject input) (in_accountId input) (groupSenderEntries g input) context"
  note src = normalizeAndMatch_source [OF m, of "in_subject input" "in_accountId input" "groupSenderEntries g input" "context"]
  have new: "im_matched (mr_match ?n) \<Longrightarrow> im_matchedEntryIds (mr_match ?n) \<noteq> [] \<and>
      set (im_matchedEntryIds (mr_match ?n)) \<subseteq> ne_opaqueEntryId ` set (mr_normalizedEntries ?n)"
    using src by blast
  show ?thesis
    unfolding group_matches_sourced_def
  proof (intro ballI)
    fix x assume x: "x \<in> set (gr_matches (expandSenderGroup input context g r))"
    let ?r' = "expandSenderGroup input context g r"
    have sub: "set (gr_normalizedEntries r) \<union> set (mr_normalizedEntries ?n) = set (gr_normalizedEntries ?r')"
      "set (ag_matched (gr_accessGroups r)) \<subseteq> set (ag_matched (gr_accessGroups ?r'))"
      by (auto simp: expandSenderGroup_def markMatched_def Let_def)
    from x have "x \<in> set (gr_matches r) \<or> x = mr_match ?n \<and> im_matched (mr_match ?n)"
      by (auto simp: expandSenderGroup_def markMatched_def Let_def split: if_splits)
    then show "(im_matchedEntryIds x \<noteq> [] \<and> set (im_matchedEntryIds x) \<subseteq> ne_opaqueEntryId ` set (gr_normalizedEntries ?r')) \<or>
        (\<exists>g s ids. map_of (accessGroupFactByName (in_accessGroupMembership input)) g = Some (FactMatched g s ids) \<and>
                   g \<in> set (ag_matched (gr_accessGroups ?r')) \<and> im_matchedEntryIds x = ids)"
    proof
      assume "x \<in> set (gr_matches r)"
      with s sub show ?thesis unfolding group_matches_sourced_def by blast
    next
      assume "x = mr_match ?n \<and> im_matched (mr_match ?n)"
      with new sub(1) show ?thesis by blast
    qed
  qed
qed

lemma resolveAccessGroupStep_sourced:
  assumes m: "matchSubjectOf (in_adapter input) = match" and s: "group_matches_sourced input r"
  shows "group_matches_sourced input (resolveAccessGroupStep input context g r)"
proof (cases "map_of (accessGroupFactByName (in_accessGroupMembership input)) g")
  case None
  show ?thesis
    using None s expandSenderGroup_sourced [OF m s, of "context" g]
    by (auto simp: resolveAccessGroupStep_def markMissing_def markUnsupported_def group_matches_sourced_def
        split: option.split access_group_config.split)
next
  case (Some f)
  have "factGroupName f = g" using accessGroupFactByName_key [OF Some] .
  with Some s show ?thesis
    by (cases f) (auto simp: resolveAccessGroupStep_def markMatched_def markMissing_def markUnsupported_def
        markFailed_def group_matches_sourced_def)
qed

lemma resolveAccessGroupEntries_sourced:
  assumes "matchSubjectOf (in_adapter input) = match"
  shows "group_matches_sourced input (resolveAccessGroupEntries input context names)"
proof -
  have "group_matches_sourced input r \<Longrightarrow> group_matches_sourced input (fold (resolveAccessGroupStep input context) xs r)" for xs r
    by (induction xs arbitrary: r) (auto intro: resolveAccessGroupStep_sourced [OF assms])
  then show ?thesis
    by (simp add: resolveAccessGroupEntries_def group_matches_sourced_def emptyGroupResolution_def)
qed

text \<open>A resolved allowlist only matches on a configured entry or on a membership fact.\<close>

lemma resolveIngressAllowlist_sourced:
  assumes m: "matchSubjectOf (in_adapter input) = match"
    and x: "im_matched (al_match (resolveIngressAllowlist input raw context))"
  shows "list_ex (\<lambda>e. ne_opaqueEntryId e \<in> set (matchedEntryIds (resolveIngressAllowlist input raw context)))
           (normalizedEntries (resolveIngressAllowlist input raw context)) \<or>
         (\<exists>g s ids. map_of (accessGroupFactByName (in_accessGroupMembership input)) g = Some (FactMatched g s ids) \<and>
            g \<in> set (ag_matched (accessGroups (resolveIngressAllowlist input raw context))))"
proof -
  define entries where "entries = normalizeEntryList (case raw of None \<Rightarrow> [] | Some es \<Rightarrow> es)"
  define direct where "direct = normalizeAndMatch (in_adapter input) (in_subject input) (in_accountId input)
      (directAllowlistEntries entries) context"
  define groups where "groups = resolveAccessGroupEntries input context (referencedAccessGroups entries)"
  let ?al = "resolveIngressAllowlist input raw context"
  have al: "normalizedEntries ?al = mr_normalizedEntries direct @ gr_normalizedEntries groups"
    "matchedEntryIds ?al = im_matchedEntryIds (mergeMatches (mr_match direct # gr_matches groups))"
    "al_match ?al = mergeMatches (mr_match direct # gr_matches groups)"
    "accessGroups ?al = gr_accessGroups groups"
    by (simp_all add: resolveIngressAllowlist_def Let_def entries_def direct_def groups_def)
  have ids: "set (matchedEntryIds ?al) = (\<Union>m \<in> set (mr_match direct # gr_matches groups). set (im_matchedEntryIds m))"
    by (simp add: al mergeMatches_def Let_def)
  note dsrc = normalizeAndMatch_source [OF m, of "in_subject input" "in_accountId input"
      "directAllowlistEntries entries" "context", folded direct_def]
  note gsrc = resolveAccessGroupEntries_sourced [OF m, of "context" "referencedAccessGroups entries", folded groups_def]
  show ?thesis
  proof (cases "im_matchedEntryIds (mr_match direct) = []")
    case False
    then obtain i where "i \<in> set (im_matchedEntryIds (mr_match direct))" using last_in_set by blast
    moreover from this dsrc(2) obtain e where "e \<in> set (mr_normalizedEntries direct)" "ne_opaqueEntryId e = i" by blast
    ultimately show ?thesis using ids al(1) by (auto simp: list_ex_iff)
  next
    case True
    then have "\<not> im_matched (mr_match direct)" using dsrc(1) by simp
    with True x obtain k where k: "k \<in> set (gr_matches groups)"
      unfolding al(3) by (cases "gr_matches groups") (auto simp: mergeMatches_def Let_def)
    from gsrc k consider
      "im_matchedEntryIds k \<noteq> []" "set (im_matchedEntryIds k) \<subseteq> ne_opaqueEntryId ` set (gr_normalizedEntries groups)"
      | g s ids where "map_of (accessGroupFactByName (in_accessGroupMembership input)) g = Some (FactMatched g s ids)"
        "g \<in> set (ag_matched (gr_accessGroups groups))"
      unfolding group_matches_sourced_def by blast
    then show ?thesis
    proof cases
      case 1
      then obtain i where "i \<in> set (im_matchedEntryIds k)" using last_in_set by blast
      moreover from this 1(2) obtain e where "e \<in> set (gr_normalizedEntries groups)" "ne_opaqueEntryId e = i" by blast
      ultimately show ?thesis using ids al(1) k by (auto simp: list_ex_iff)
    next
      case (2 g s ids)
      then show ?thesis unfolding al(4) by blast
    qed
  qed
qed

end

text \<open>The identity adapter is such a matcher, whatever its custom hooks are.\<close>

lemma identity_match_source: "match_source (matchSubjectOf (createIdentityAdapter identity))"
  by unfold_locales (auto simp: createIdentityAdapter_def Let_def)

interpretation identity: match_source "matchSubjectOf (createIdentityAdapter identity)" for identity
  by (rule identity_match_source)

section \<open>Runtime access-group facts\<close>

definition accessGroupNames :: "raw_entry list \<Rightarrow> string list" where
  "accessGroupNames entries = uniqueValues (List.map_filter (\<lambda>e. parseAccessGroupAllowFromEntry (entry_string e)) entries)"

definition allReferencedAccessGroupNames :: "raw_entry list list \<Rightarrow> string list" where
  "allReferencedAccessGroupNames entries = uniqueValues (concat (map accessGroupNames entries))"

definition normalizeEffectiveEntries :: "ingress_adapter \<Rightarrow> string \<Rightarrow> raw_entry list \<Rightarrow> match_context \<Rightarrow> string list" where
  "normalizeEffectiveEntries adapter accountId entries context =
     (let rawEntries = normalizeEntryList entries;
          accessGroupEntries = filter (\<lambda>e. parseAccessGroupAllowFromEntry e \<noteq> None) rawEntries;
          directEntries = filter (\<lambda>e. parseAccessGroupAllowFromEntry e = None) rawEntries in
      if length directEntries = 0 then accessGroupEntries
      else uniqueValues (accessGroupEntries @
             map ne_value (nr_matchable (normalizeEntriesOf adapter directEntries context accountId))))"

text \<open>The membership hook of a channel: \<open>None\<close> when it throws.\<close>

type_synonym membership_resolver = "string \<Rightarrow> access_group_config \<Rightarrow> string \<Rightarrow> string \<Rightarrow> subject_input \<Rightarrow> bool option"

definition runtimeMembershipFact :: "membership_resolver \<Rightarrow> (string \<times> access_group_config) list option \<Rightarrow> string \<Rightarrow> string \<Rightarrow> subject_input \<Rightarrow> string \<Rightarrow> membership_fact option" where
  "runtimeMembershipFact resolve groups channelId accountId subject name =
     (case Option.bind groups (\<lambda>gs. map_of gs name) of
        None \<Rightarrow> None
      | Some (MessageSenders _) \<Rightarrow> None
      | Some grp \<Rightarrow>
          Some (case resolve name grp channelId accountId subject of
                  Some True \<Rightarrow> FactMatched name DynamicFact [''access-group:'' @ name]
                | Some False \<Rightarrow> FactNotMatched name DynamicFact
                | None \<Rightarrow> FactFailed name DynamicFact access_group_failed (Some (''access-group:'' @ name))))"

definition resolveRuntimeAccessGroupMembershipFacts :: "membership_resolver option \<Rightarrow> (string \<times> access_group_config) list option \<Rightarrow> string \<Rightarrow> string \<Rightarrow> subject_input \<Rightarrow> string list \<Rightarrow> membership_fact list" where
  "resolveRuntimeAccessGroupMembershipFacts resolver groups channelId accountId subject names =
     (case resolver of
        None \<Rightarrow> []
      | Some resolve \<Rightarrow> List.map_filter (runtimeMembershipFact resolve groups channelId accountId subject) names)"

section \<open>Effective allowlists\<close>

record effective_lists =
  effectiveAllowFrom :: "string list"
  effectiveGroupAllowFrom :: "string list"

definition resolveChannelIngressEffectiveAllowFromLists :: "raw_entry list option \<Rightarrow> raw_entry list option \<Rightarrow> raw_entry list option \<Rightarrow> string option \<Rightarrow> bool option \<Rightarrow> effective_lists" where
  "resolveChannelIngressEffectiveAllowFromLists allowFrom groupAllowFrom storeAllowFrom dmPolicy fallback =
     \<lparr>effectiveAllowFrom = normalizeStringEntries (mergeDmAllowFromSources allowFrom storeAllowFrom dmPolicy),
      effectiveGroupAllowFrom = normalizeStringEntries (resolveGroupAllowFromSources allowFrom groupAllowFrom fallback)\<rparr>"

text \<open>A pairing-store reader: \<open>None\<close> when its promise rejects.\<close>

definition readChannelIngressStoreAllowFromForDmPolicy :: "string \<Rightarrow> string \<Rightarrow> string option \<Rightarrow> bool option \<Rightarrow> (string \<Rightarrow> string \<Rightarrow> string list option) \<Rightarrow> string list" where
  "readChannelIngressStoreAllowFromForDmPolicy provider accountId dmPolicy shouldRead readStore =
     (if shouldRead = Some False \<or> dmPolicy = Some ''allowlist'' \<or> dmPolicy = Some ''open'' then []
      else (case readStore provider accountId of Some es \<Rightarrow> es | None \<Rightarrow> []))"

record dm_audit_state =
  au_hasWildcard :: bool
  au_admittedPrincipals :: "string list"

definition resolveDmAllowAuditState :: "string \<Rightarrow> string \<Rightarrow> raw_entry list option \<Rightarrow> string option \<Rightarrow> (string \<Rightarrow> string) option \<Rightarrow> (string \<Rightarrow> string \<Rightarrow> string list option) \<Rightarrow> dm_audit_state" where
  "resolveDmAllowAuditState provider accountId allowFrom dmPolicy normalizeEntry readStore =
     (let configAllowFrom = normalizeEntryList (case allowFrom of None \<Rightarrow> [] | Some a \<Rightarrow> a);
          storeAllowFrom = readChannelIngressStoreAllowFromForDmPolicy provider accountId dmPolicy None readStore;
          norm = (case normalizeEntry of Some f \<Rightarrow> f | None \<Rightarrow> (\<lambda>v. v));
          normalizedCfg = normalizeStringEntries (map norm (filter (\<lambda>v. v \<noteq> ''*'') configAllowFrom));
          normalizedStore = normalizeStringEntries (map norm storeAllowFrom) in
      \<lparr>au_hasWildcard = (''*'' \<in> set configAllowFrom),
       au_admittedPrincipals = uniqueValues (normalizedCfg @ normalizedStore)\<rparr>)"

text \<open>
  A list resolved through the identity adapter only matches when a configured entry that went
  through normalisation is among the matched ones, or when a membership fact says the sender belongs to
  a group the list references. Missing, unsupported and failed access groups never match: they fail
  closed.
\<close>

theorem allowlist_match_has_source:
  assumes "in_adapter input = createIdentityAdapter identity"
    and "im_matched (al_match (resolveIngressAllowlist input raw context))"
  shows "list_ex (\<lambda>e. ne_opaqueEntryId e \<in> set (matchedEntryIds (resolveIngressAllowlist input raw context)))
           (normalizedEntries (resolveIngressAllowlist input raw context)) \<or>
         (\<exists>g s ids. map_of (accessGroupFactByName (in_accessGroupMembership input)) g = Some (FactMatched g s ids) \<and>
            g \<in> set (ag_matched (accessGroups (resolveIngressAllowlist input raw context))))"
proof -
  have "matchSubjectOf (in_adapter input) = matchSubjectOf (createIdentityAdapter identity)" using assms(1) by simp
  from this assms(2) show ?thesis by (rule identity.resolveIngressAllowlist_sourced)
qed

section \<open>Example\<close>

definition demoIdentity :: identity_descriptor where
  "demoIdentity =
     \<lparr>primary = \<lparr>if_key = None, if_kind = None, if_normalize = None, if_normalizeEntry = None, if_normalizeSubject = None,
                 if_dangerous = None, if_sensitivity = None\<rparr>,
      aliases = Some [(''username'', \<lparr>if_key = None, if_kind = Some Username, if_normalize = Some (\<lambda>s. Some (js_lower s)),
                 if_normalizeEntry = None, if_normalizeSubject = None, if_dangerous = Some (DangerFlag True), if_sensitivity = None\<rparr>)],
      isWildcardEntry = None, matchEntry = None, resolveEntryId = None\<rparr>"

definition demoInput :: state_input where
  "demoInput =
     \<lparr>in_channelId = ''telegram'', in_accountId = ''default'',
      in_subject = createIdentitySubject demoIdentity \<lparr>si_stableId = Some (RawNum 42), si_aliases = Some [(''username'', RawStr ''Alice'')]\<rparr>,
      in_conversation = \<lparr>cv_kind = Direct, cv_id = ''42'', cv_parentId = None, cv_threadId = None, cv_title = None\<rparr>,
      in_adapter = createIdentityAdapter demoIdentity,
      in_accessGroups = Some [(''ops'', MessageSenders [(''*'', [''7'', ''42''])])],
      in_accessGroupMembership = None, in_routeFacts = None, in_mentionFacts = None,
      in_event = \<lparr>ei_kind = MessageEvent, ei_authMode = AuthInbound, ei_mayPair = True, ei_originSubject = None\<rparr>,
      in_allowlists = \<lparr>ai_dm = Some [RawStr ''accessGroup:ops''], ai_group = None, ai_commandOwner = None, ai_commandGroup = None, ai_pairingStore = None\<rparr>\<rparr>"

theorem allowlist_match_has_source_witness:
  "list_ex (\<lambda>e. ne_opaqueEntryId e \<in> set (matchedEntryIds (resolveIngressAllowlist demoInput (Some [RawStr ''accessGroup:ops'']) DmContext)))
     (normalizedEntries (resolveIngressAllowlist demoInput (Some [RawStr ''accessGroup:ops'']) DmContext))"
proof -
  have a: "in_adapter demoInput = createIdentityAdapter demoIdentity" by (simp add: demoInput_def)
  have m: "im_matched (al_match (resolveIngressAllowlist demoInput (Some [RawStr ''accessGroup:ops'']) DmContext))" by code_simp
  have "accessGroupFactByName (in_accessGroupMembership demoInput) = []"
    by (simp add: demoInput_def accessGroupFactByName_def)
  with allowlist_match_has_source [OF a m] show ?thesis by simp
qed

end
