(* ===== verification/IngressRuntime.thy ===== *)
theory IngressRuntime
  imports IngressProps IngressIdentity
begin

text \<open>
  The ingress runtime (\<open>src/channels/message-access/runtime.ts\<close>): route descriptors become route facts,
  the pairing store is read when the policy allows it, the effective lists are assembled, the state is
  resolved and decided, and the sender, route, command and activation projections are taken from the
  gate graph. The default pairing store, an injected reader and the membership hook are arguments;
  recording the admission evidence of the result is not modelled.
\<close>

section \<open>Inputs\<close>

datatype group_owner_mode = OwnersConfigured | OwnersNone
datatype direct_group_mode = DirectGroupEffective | DirectGroupNone

record command_input = command_policy +
  ci_commandOwnerAllowFrom :: "raw_entry list option"
  ci_groupOwnerAllowFrom :: "group_owner_mode option"
  ci_directGroupAllowFrom :: "direct_group_mode option"
  ci_commandGroupAllowFromFallbackToAllowFrom :: "bool option"

record route_descriptor =
  rd_id :: string
  rd_kind :: "route_kind option"
  rd_configured :: "bool option"
  rd_matched :: "bool option"
  rd_allowed :: "bool option"
  rd_enabled :: "bool option"
  rd_precedence :: "int option"
  rd_senderPolicy :: "route_sender_policy option"
  rd_senderAllowFrom :: "raw_entry list option"
  rd_senderAllowFromSource :: "sender_source option"
  rd_matchId :: "string option"
  rd_blockReason :: "string option"

datatype route_input = NoRoute | OneRoute route_descriptor | ManyRoutes "route_descriptor list"

text \<open>An injected store reader: \<open>None\<close> when it rejects, \<open>Some None\<close> when it yields no list.\<close>

type_synonym store_reader = "string \<Rightarrow> string \<Rightarrow> dm_policy \<Rightarrow> raw_entry list option option"

record ingress_params =
  pa_channelId :: string
  pa_accountId :: string
  pa_identity :: identity_descriptor
  pa_subject :: subject_input
  pa_conversation :: conversation_ref
  pa_event :: event_input
  pa_policy :: policy_input
  pa_allowFrom :: "raw_entry list option"
  pa_groupAllowFrom :: "raw_entry list option"
  pa_route :: route_input
  pa_routeFacts :: "route_gate_facts list option"
  pa_accessGroups :: "(string \<times> access_group_config) list option"
  pa_accessGroupMembership :: "membership_fact list option"
  pa_resolveMembership :: "membership_resolver option"
  pa_matchedAllowFromEntry :: "raw_entry option"
  pa_providerMissingFallbackApplied :: "bool option"
  pa_mentionFacts :: "mention_facts option"
  pa_readStoreAllowFrom :: "store_reader option"
  pa_useDefaultPairingStore :: "bool option"
  pa_command :: "command_input option"

section \<open>The pairing store\<close>

fun dmPolicyString :: "dm_policy \<Rightarrow> string" where
  "dmPolicyString DmPairing = ''pairing''"
| "dmPolicyString DmAllowlist = ''allowlist''"
| "dmPolicyString DmOpen = ''open''"
| "dmPolicyString DmDisabled = ''disabled''"

definition shouldReadStore :: "conversation_kind \<Rightarrow> dm_policy \<Rightarrow> bool" where
  "shouldReadStore conversationKind dmPolicy \<longleftrightarrow> conversationKind = Direct \<and> dmPolicy \<noteq> DmAllowlist \<and> dmPolicy \<noteq> DmOpen"

definition readStoreAllowFrom :: "(string \<Rightarrow> string \<Rightarrow> string list option) \<Rightarrow> ingress_params \<Rightarrow> string \<Rightarrow> raw_entry list" where
  "readStoreAllowFrom defaultStore p channelId =
     (if \<not> shouldReadStore (cv_kind (pa_conversation p)) (po_dmPolicy (pa_policy p)) then []
      else (case pa_readStoreAllowFrom p of
              Some reader \<Rightarrow>
                (case reader channelId (pa_accountId p) (po_dmPolicy (pa_policy p)) of
                   Some (Some es) \<Rightarrow> es | _ \<Rightarrow> [])
            | None \<Rightarrow>
                if is_true (pa_useDefaultPairingStore p)
                then map RawStr (readChannelIngressStoreAllowFromForDmPolicy channelId (pa_accountId p)
                       (Some (dmPolicyString (po_dmPolicy (pa_policy p)))) None defaultStore)
                else []))"

text \<open>The only error of the resolver: a blank channel id.\<close>

datatype ingress_error = ChannelIdEmpty

definition normalizeChannelId :: "string \<Rightarrow> ingress_error + string" where
  "normalizeChannelId cid = (let trimmed = js_trim cid in if trimmed = [] then Inl ChannelIdEmpty else Inr trimmed)"

section \<open>Routes\<close>

fun routeDescriptors :: "route_input \<Rightarrow> route_descriptor list" where
  "routeDescriptors NoRoute = []"
| "routeDescriptors (OneRoute d) = [d]"
| "routeDescriptors (ManyRoutes ds) = ds"

definition channelIngressRoutes :: "route_descriptor option list \<Rightarrow> route_descriptor list" where
  "channelIngressRoutes routes = List.map_filter (\<lambda>r. r) routes"

definition routeDescriptorMatch :: "route_descriptor \<Rightarrow> ingress_match" where
  "routeDescriptorMatch d =
     (let matched = (case rd_matched d of Some b \<Rightarrow> b
                     | None \<Rightarrow> (case rd_allowed d of Some b \<Rightarrow> b | None \<Rightarrow> rd_enabled d \<noteq> Some False)) in
      \<lparr>im_matched = matched,
       im_matchedEntryIds = (case rd_matchId d of Some i \<Rightarrow> if matched \<and> i \<noteq> [] then [i] else [] | None \<Rightarrow> [])\<rparr>)"

definition routeFact :: "route_descriptor \<Rightarrow> route_kind option \<Rightarrow> route_sender_policy option \<Rightarrow> route_gate_state \<Rightarrow> route_effect \<Rightarrow> route_gate_facts" where
  "routeFact d kind senderPolicy gate effect =
     \<lparr>rg_id = rd_id d, rg_kind = (case kind of Some k \<Rightarrow> k | None \<Rightarrow> RtRoute), rg_gate = gate, rg_effect = effect,
      rg_precedence = (case rd_precedence d of Some n \<Rightarrow> n | None \<Rightarrow> 0),
      rg_senderPolicy = (case senderPolicy of Some s \<Rightarrow> s | None \<Rightarrow> Inherit),
      rg_senderAllowFrom = rd_senderAllowFrom d, rg_senderAllowFromSource = rd_senderAllowFromSource d,
      rg_match = Some (routeDescriptorMatch d)\<rparr>"

definition routeFactsFromDescriptor :: "route_descriptor \<Rightarrow> route_gate_facts list" where
  "routeFactsFromDescriptor d =
     (if rd_configured d = Some False then []
      else if rd_enabled d = Some False then [routeFact d (rd_kind d) (rd_senderPolicy d) RouteDisabled RtBlockDispatch]
      else (case rd_allowed d of
              Some a \<Rightarrow> [routeFact d (rd_kind d) (rd_senderPolicy d) (if a then RouteMatched else RouteNotMatched)
                          (if a then RtAllow else RtBlockDispatch)]
            | None \<Rightarrow>
                if rd_senderPolicy d \<noteq> Some DenyWhenEmpty \<and> rd_senderAllowFrom d = None \<and> rd_senderAllowFromSource d = None
                then []
                else [routeFact d (if rd_senderPolicy d = Some DenyWhenEmpty then rd_kind d else Some RtRouteSender)
                        (rd_senderPolicy d) RouteMatched RtAllow]))"

definition routeFactsFromDescriptors :: "route_input \<Rightarrow> route_gate_facts list" where
  "routeFactsFromDescriptors route = concat (map routeFactsFromDescriptor (routeDescriptors route))"

definition routeDescriptorForGate :: "route_descriptor list \<Rightarrow> access_gate \<Rightarrow> route_descriptor option" where
  "routeDescriptorForGate ds gate =
     (let baseGateId = (if ends_with '':sender'' (g_id gate) then take (length (g_id gate) - length '':sender'') (g_id gate) else g_id gate) in
      find (\<lambda>d. rd_id d = g_id gate \<or> rd_id d = baseGateId) ds)"

section \<open>Projections of the decision\<close>

definition findIngressGate :: "ingress_decision \<Rightarrow> gate_phase \<Rightarrow> gate_kind \<Rightarrow> access_gate option" where
  "findIngressGate ingress ph k = find (\<lambda>g. g_phase g = ph \<and> g_kind g = k) (id_gates ingress)"

definition findSenderGate :: "ingress_decision \<Rightarrow> bool \<Rightarrow> access_gate option" where
  "findSenderGate ingress isGroup = findIngressGate ingress SenderPhase (if isGroup then GroupSenderKind else DmSenderKind)"

record route_access =
  ra_allowed :: bool
  ra_reasonCode :: "reason_code option"
  ra_reason :: "string option"
  ra_gate :: "access_gate option"

definition nonEmptyReason :: "string option \<Rightarrow> string option" where
  "nonEmptyReason r = (case r of Some s \<Rightarrow> if s = [] then None else Some s | None \<Rightarrow> None)"

definition projectRouteAccess :: "ingress_decision \<Rightarrow> route_input \<Rightarrow> route_access" where
  "projectRouteAccess ingress route =
     (let ds = routeDescriptors route in
      case find (\<lambda>g. g_phase g = RoutePhase \<and> g_effect g = BlockDispatch) (id_gates ingress) of
        Some g \<Rightarrow> \<lparr>ra_allowed = g_allowed g, ra_reasonCode = Some (g_reasonCode g),
                   ra_reason = Option.bind (routeDescriptorForGate ds g) (\<lambda>d. nonEmptyReason (rd_blockReason d)),
                   ra_gate = Some g\<rparr>
      | None \<Rightarrow>
          (case (find (\<lambda>d. rd_senderPolicy d = Some Replace \<and> nonEmptyReason (rd_blockReason d) \<noteq> None) ds,
                 find (\<lambda>g. g_phase g = SenderPhase \<and> g_effect g = BlockDispatch) (id_gates ingress)) of
             (Some d, Some g) \<Rightarrow> \<lparr>ra_allowed = False, ra_reasonCode = Some (g_reasonCode g),
                                  ra_reason = rd_blockReason d, ra_gate = Some g\<rparr>
           | _ \<Rightarrow>
               (case find (\<lambda>g. g_phase g = RoutePhase) (id_gates ingress) of
                  Some g \<Rightarrow> \<lparr>ra_allowed = g_allowed g, ra_reasonCode = Some (g_reasonCode g), ra_reason = None, ra_gate = Some g\<rparr>
                | None \<Rightarrow> \<lparr>ra_allowed = True, ra_reasonCode = None, ra_reason = None, ra_gate = None\<rparr>)))"

record sender_access =
  sx_allowed :: bool
  sx_decision :: verdict
  sx_reasonCode :: reason_code
  sx_gate :: "access_gate option"
  sx_effectiveAllowFrom :: "string list"
  sx_effectiveGroupAllowFrom :: "string list"
  sx_providerMissingFallbackApplied :: bool

definition projectSenderAccess :: "ingress_decision \<Rightarrow> bool \<Rightarrow> string list \<Rightarrow> string list \<Rightarrow> bool option \<Rightarrow> sender_access" where
  "projectSenderAccess ingress isGroup effDm effGroup missing =
     (let gate = findSenderGate ingress isGroup;
          reasonCode = (if gate = None \<and> isGroup \<and> id_reasonCode ingress = route_sender_empty \<and> length effGroup = 0
                        then group_policy_empty_allowlist
                        else (case gate of Some g \<Rightarrow> g_reasonCode g | None \<Rightarrow> id_reasonCode ingress));
          decision = (if reasonCode = dm_policy_pairing_required then PairingVerdict
                      else if (case gate of Some g \<Rightarrow> g_allowed g | None \<Rightarrow> False) then AllowVerdict else BlockVerdict) in
      \<lparr>sx_allowed = (decision = AllowVerdict), sx_decision = decision, sx_reasonCode = reasonCode, sx_gate = gate,
       sx_effectiveAllowFrom = effDm, sx_effectiveGroupAllowFrom = effGroup,
       sx_providerMissingFallbackApplied = is_true missing\<rparr>)"

record command_access =
  cx_requested :: bool
  cx_authorized :: bool
  cx_shouldBlockControlCommand :: bool
  cx_reasonCode :: reason_code
  cx_gate :: "access_gate option"

definition commandRequested :: "policy_input \<Rightarrow> bool" where
  "commandRequested policy \<longleftrightarrow> po_command policy \<noteq> None"

definition projectCommandAccess :: "ingress_decision \<Rightarrow> policy_input \<Rightarrow> command_access" where
  "projectCommandAccess ingress policy =
     (let gate = findIngressGate ingress CommandPhase CommandKind in
      \<lparr>cx_requested = commandRequested policy,
       cx_authorized = (commandRequested policy \<and> (case gate of Some g \<Rightarrow> g_allowed g | None \<Rightarrow> False)),
       cx_shouldBlockControlCommand =
         (case Option.bind gate g_command of Some c \<Rightarrow> gc_shouldBlockControlCommand c | None \<Rightarrow> False),
       cx_reasonCode = (case gate of Some g \<Rightarrow> g_reasonCode g | None \<Rightarrow> id_reasonCode ingress),
       cx_gate = gate\<rparr>)"

record activation_access =
  ax_ran :: bool
  ax_allowed :: bool
  ax_shouldSkip :: bool
  ax_reasonCode :: reason_code
  ax_effectiveWasMentioned :: "bool option"
  ax_shouldBypassMention :: "bool option"
  ax_gate :: "access_gate option"

definition projectActivationAccess :: "ingress_decision \<Rightarrow> activation_access" where
  "projectActivationAccess ingress =
     (let gate = findIngressGate ingress ActivationPhase MentionKind; act = Option.bind gate g_activation in
      \<lparr>ax_ran = (gate \<noteq> None),
       ax_allowed = (case gate of Some g \<Rightarrow> g_allowed g | None \<Rightarrow> False),
       ax_shouldSkip = (case act of Some a \<Rightarrow> ga_shouldSkip a | None \<Rightarrow> False),
       ax_reasonCode = (case gate of Some g \<Rightarrow> g_reasonCode g | None \<Rightarrow> id_reasonCode ingress),
       ax_effectiveWasMentioned = Option.bind act ga_effectiveWasMentioned,
       ax_shouldBypassMention = Option.bind act ga_shouldBypassMention,
       ax_gate = gate\<rparr>)"

section \<open>Command lists and effective entries\<close>

definition commandOwnerAllowFrom :: "command_input option \<Rightarrow> bool \<Rightarrow> raw_entry list \<Rightarrow> string list \<Rightarrow> raw_entry list" where
  "commandOwnerAllowFrom command isGroup configured effective =
     (case Option.bind command ci_commandOwnerAllowFrom of
        Some es \<Rightarrow> es
      | None \<Rightarrow> if \<not> isGroup then map RawStr effective
               else if Option.bind command ci_groupOwnerAllowFrom = Some OwnersNone then [] else configured)"

definition commandGroupAllowFrom :: "command_input option \<Rightarrow> bool \<Rightarrow> string list \<Rightarrow> raw_entry list" where
  "commandGroupAllowFrom command isGroup effective =
     (if isGroup then map RawStr effective
      else if Option.bind command ci_directGroupAllowFrom = Some DirectGroupEffective then map RawStr effective else [])"

definition accessGroupMatchedEntry :: "ingress_params \<Rightarrow> string option" where
  "accessGroupMatchedEntry p =
     map_option entry_string (case pa_matchedAllowFromEntry p of Some e \<Rightarrow> Some e | None \<Rightarrow> si_stableId (pa_subject p))"

definition appendAccessGroupMatchedEntry :: "string list \<Rightarrow> resolved_allowlist \<Rightarrow> string option \<Rightarrow> string list" where
  "appendAccessGroupMatchedEntry entries al matchedEntry =
     (case matchedEntry of
        Some e \<Rightarrow> if e \<noteq> [] \<and> length (ag_matched (accessGroups al)) > 0 then uniqueValues (entries @ [e]) else entries
      | None \<Rightarrow> entries)"

section \<open>The resolver\<close>

record resolved_ingress =
  ri_state :: ingress_state
  ri_ingress :: ingress_decision
  ri_senderAccess :: sender_access
  ri_routeAccess :: route_access
  ri_commandAccess :: command_access
  ri_activationAccess :: activation_access

text \<open>The raw lists of a request: \<open>rawAllowFrom\<close>, \<open>rawGroupAllowFrom\<close>, \<open>rawStoreAllowFrom\<close>.\<close>

definition rawList :: "raw_entry list option \<Rightarrow> raw_entry list" where
  "rawList es = map RawStr (normalizeEntryList (case es of None \<Rightarrow> [] | Some l \<Rightarrow> l))"

definition effectiveOf :: "ingress_params \<Rightarrow> raw_entry list \<Rightarrow> raw_entry list \<Rightarrow> raw_entry list option \<Rightarrow> bool option \<Rightarrow> effective_lists" where
  "effectiveOf p allowFrom groupAllowFrom store fallback =
     resolveChannelIngressEffectiveAllowFromLists (Some allowFrom) (Some groupAllowFrom) store
       (Some (dmPolicyString (po_dmPolicy (pa_policy p)))) fallback"

definition runtimeStateInput :: "(string \<Rightarrow> string \<Rightarrow> string list option) \<Rightarrow> ingress_params \<Rightarrow> string \<Rightarrow> state_input" where
  "runtimeStateInput defaultStore p channelId =
     (let adapter = createIdentityAdapter (pa_identity p);
          routeFacts = routeFactsFromDescriptors (pa_route p) @ (case pa_routeFacts p of None \<Rightarrow> [] | Some rs \<Rightarrow> rs);
          rawAllowFrom = rawList (pa_allowFrom p);
          rawStoreAllowFrom = rawList (Some (readStoreAllowFrom defaultStore p channelId));
          rawGroupAllowFrom = rawList (pa_groupAllowFrom p);
          names = allReferencedAccessGroupNames
                    ([rawAllowFrom, rawGroupAllowFrom, rawStoreAllowFrom,
                      (case Option.bind (pa_command p) ci_commandOwnerAllowFrom of None \<Rightarrow> [] | Some es \<Rightarrow> es)] @
                     map (\<lambda>r. case rg_senderAllowFrom r of None \<Rightarrow> [] | Some es \<Rightarrow> es) routeFacts);
          membership = resolveRuntimeAccessGroupMembershipFacts (pa_resolveMembership p) (pa_accessGroups p) channelId
                         (pa_accountId p) (pa_subject p) names @
                       (case pa_accessGroupMembership p of None \<Rightarrow> [] | Some fs \<Rightarrow> fs);
          fallback = po_groupAllowFromFallbackToAllowFrom (pa_policy p);
          rawEffective = effectiveOf p rawAllowFrom rawGroupAllowFrom (Some rawStoreAllowFrom) fallback;
          rawCommandGroup = effectiveOf p rawAllowFrom rawGroupAllowFrom None
                              (case Option.bind (pa_command p) ci_commandGroupAllowFromFallbackToAllowFrom of
                                 Some b \<Rightarrow> Some b | None \<Rightarrow> fallback);
          isGroup = (cv_kind (pa_conversation p) \<noteq> Direct) in
      \<lparr>in_channelId = channelId, in_accountId = pa_accountId p,
       in_subject = createIdentitySubject (pa_identity p) (pa_subject p),
       in_conversation = pa_conversation p, in_adapter = adapter, in_accessGroups = pa_accessGroups p,
       in_accessGroupMembership = Some membership, in_routeFacts = Some routeFacts,
       in_mentionFacts = pa_mentionFacts p, in_event = pa_event p,
       in_allowlists =
         \<lparr>ai_dm = Some rawAllowFrom, ai_group = Some (map RawStr (effectiveGroupAllowFrom rawEffective)),
          ai_commandOwner = Some (commandOwnerAllowFrom (pa_command p) isGroup rawAllowFrom (effectiveAllowFrom rawEffective)),
          ai_commandGroup = Some (commandGroupAllowFrom (pa_command p) isGroup (effectiveGroupAllowFrom rawCommandGroup)),
          ai_pairingStore = Some rawStoreAllowFrom\<rparr>\<rparr>)"

definition runtimePolicy :: "ingress_params \<Rightarrow> policy_input" where
  "runtimePolicy p =
     (case pa_command p of None \<Rightarrow> pa_policy p
      | Some c \<Rightarrow> (pa_policy p)\<lparr>po_command := Some (command_policy.truncate c)\<rparr>)"

definition resolveChannelMessageIngress :: "(string \<Rightarrow> string \<Rightarrow> int) \<Rightarrow> (string \<Rightarrow> string \<Rightarrow> string list option) \<Rightarrow> ingress_params \<Rightarrow> ingress_error + resolved_ingress" where
  "resolveChannelMessageIngress lc defaultStore p =
     (case normalizeChannelId (pa_channelId p) of
        Inl e \<Rightarrow> Inl e
      | Inr channelId \<Rightarrow>
          let adapter = createIdentityAdapter (pa_identity p);
              norm = (\<lambda>es c. map RawStr (normalizeEffectiveEntries adapter (pa_accountId p) es c));
              baseEffective = effectiveOf p
                 (norm (rawList (pa_allowFrom p)) DmContext) (norm (rawList (pa_groupAllowFrom p)) GroupContext)
                 (Some (norm (rawList (Some (readStoreAllowFrom defaultStore p channelId))) DmContext))
                 (po_groupAllowFromFallbackToAllowFrom (pa_policy p));
              isGroup = (cv_kind (pa_conversation p) \<noteq> Direct);
              policy = runtimePolicy p;
              state = resolveChannelIngressState lc (runtimeStateInput defaultStore p channelId);
              ingress = decideChannelIngress state policy;
              matchedEntry = accessGroupMatchedEntry p;
              effDm = appendAccessGroupMatchedEntry (effectiveAllowFrom baseEffective) (sl_dm (st_allowlists state)) matchedEntry;
              effGroup = appendAccessGroupMatchedEntry (effectiveGroupAllowFrom baseEffective) (sl_group (st_allowlists state)) matchedEntry in
          Inr \<lparr>ri_state = state, ri_ingress = ingress,
               ri_senderAccess = projectSenderAccess ingress isGroup effDm effGroup (pa_providerMissingFallbackApplied p),
               ri_routeAccess = projectRouteAccess ingress (pa_route p),
               ri_commandAccess = projectCommandAccess ingress policy,
               ri_activationAccess = projectActivationAccess ingress\<rparr>)"

section \<open>Resolver presets\<close>

definition useAccessGroupsFromConfig :: "bool option \<Rightarrow> bool" where
  "useAccessGroupsFromConfig u = (case u of Some b \<Rightarrow> b | None \<Rightarrow> True)"

record command_preset =
  pr_requested :: "bool option"
  pr_useAccessGroups :: "bool option"
  pr_allowTextCommands :: "bool option"
  pr_hasControlCommand :: "bool option"
  pr_modeWhenAccessGroupsOff :: "gating_mode_off option"
  pr_commandOwnerAllowFrom :: "raw_entry list option"
  pr_groupOwnerAllowFrom :: "group_owner_mode option"
  pr_directGroupAllowFrom :: "direct_group_mode option"
  pr_groupFallback :: "bool option"

definition channelIngressCommand :: "command_preset \<Rightarrow> command_input option" where
  "channelIngressCommand p =
     (if pr_requested p = Some False then None
      else Some \<lparr>cp_useAccessGroups = Some (useAccessGroupsFromConfig (pr_useAccessGroups p)),
                 cp_allowTextCommands = (case pr_allowTextCommands p of Some b \<Rightarrow> b | None \<Rightarrow> False),
                 cp_hasControlCommand = (case pr_hasControlCommand p of Some b \<Rightarrow> b | None \<Rightarrow> True),
                 cp_modeWhenAccessGroupsOff = pr_modeWhenAccessGroupsOff p,
                 ci_commandOwnerAllowFrom = pr_commandOwnerAllowFrom p,
                 ci_groupOwnerAllowFrom = pr_groupOwnerAllowFrom p,
                 ci_directGroupAllowFrom = pr_directGroupAllowFrom p,
                 ci_commandGroupAllowFromFallbackToAllowFrom = pr_groupFallback p\<rparr>)"

record event_preset =
  ep_isGroup :: "bool option"
  ep_kind :: "event_kind option"
  ep_authMode :: "event_auth_mode option"
  ep_mayPair :: "bool option"
  ep_originSubject :: "ingress_subject option"

definition channelIngressEvent :: "event_preset \<Rightarrow> event_input" where
  "channelIngressEvent p =
     (let isGroup = (case ep_isGroup p of Some b \<Rightarrow> b | None \<Rightarrow> False) in
      \<lparr>ei_kind = (case ep_kind p of Some k \<Rightarrow> k | None \<Rightarrow> MessageEvent),
       ei_authMode = (case ep_authMode p of Some m \<Rightarrow> m | None \<Rightarrow> AuthInbound),
       ei_mayPair = (case ep_mayPair p of Some b \<Rightarrow> b | None \<Rightarrow> \<not> isGroup),
       ei_originSubject = ep_originSubject p\<rparr>)"

text \<open>A resolver call passes a preset, or \<open>false\<close> or nothing for no command gate.\<close>

definition resolveCommandInput :: "command_preset option \<Rightarrow> bool option \<Rightarrow> command_input option" where
  "resolveCommandInput command useAccessGroups =
     (case command of
        None \<Rightarrow> None
      | Some c \<Rightarrow> channelIngressCommand (c\<lparr>pr_useAccessGroups :=
                    (case pr_useAccessGroups c of Some b \<Rightarrow> Some b | None \<Rightarrow> useAccessGroups)\<rparr>))"

record resolver_defaults =
  rs_defaultDmPolicy :: "dm_policy option"
  rs_defaultGroupPolicy :: "group_policy option"
  rs_groupFallback :: "bool option"
  rs_mutable :: "mutable_matching option"

record resolver_call =
  rc_dmPolicy :: "dm_policy option"
  rc_groupPolicy :: "group_policy option"
  rc_groupFallback :: "bool option"
  rc_mutable :: "mutable_matching option"
  rc_activation :: "activation_policy option"

definition resolveResolverPolicy :: "resolver_defaults \<Rightarrow> resolver_call \<Rightarrow> policy_input" where
  "resolveResolverPolicy base input =
     \<lparr>po_dmPolicy = (case rc_dmPolicy input of Some p \<Rightarrow> p | None \<Rightarrow> (case rs_defaultDmPolicy base of Some p \<Rightarrow> p | None \<Rightarrow> DmPairing)),
      po_groupPolicy = (case rc_groupPolicy input of Some p \<Rightarrow> p | None \<Rightarrow> (case rs_defaultGroupPolicy base of Some p \<Rightarrow> p | None \<Rightarrow> GroupDisabled)),
      po_groupAllowFromFallbackToAllowFrom = (case rc_groupFallback input of Some b \<Rightarrow> Some b | None \<Rightarrow> rs_groupFallback base),
      po_mutableIdentifierMatching = (case rc_mutable input of Some m \<Rightarrow> Some m | None \<Rightarrow> rs_mutable base),
      po_activation = rc_activation input, po_command = None\<rparr>"

section \<open>What the runtime guarantees\<close>

lemma resolveChannelMessageIngress_Inr:
  assumes "resolveChannelMessageIngress lc ds p = Inr r"
  shows "ri_ingress r = decideChannelIngress (ri_state r) (runtimePolicy p)"
    and "ri_routeAccess r = projectRouteAccess (ri_ingress r) (pa_route p)"
    and "ri_commandAccess r = projectCommandAccess (ri_ingress r) (runtimePolicy p)"
    and "ri_activationAccess r = projectActivationAccess (ri_ingress r)"
    and "\<exists>dm gr. ri_senderAccess r = projectSenderAccess (ri_ingress r) (st_conversationKind (ri_state r) \<noteq> Direct) dm gr
           (pa_providerMissingFallbackApplied p)"
proof -
  obtain channelId where "normalizeChannelId (pa_channelId p) = Inr channelId"
    using assms by (cases "normalizeChannelId (pa_channelId p)") (simp_all add: resolveChannelMessageIngress_def)
  with assms have r: "\<exists>dm gr state. state = resolveChannelIngressState lc (runtimeStateInput ds p channelId) \<and>
    r = \<lparr>ri_state = state, ri_ingress = decideChannelIngress state (runtimePolicy p),
      ri_senderAccess = projectSenderAccess (decideChannelIngress state (runtimePolicy p)) (cv_kind (pa_conversation p) \<noteq> Direct) dm gr (pa_providerMissingFallbackApplied p),
      ri_routeAccess = projectRouteAccess (decideChannelIngress state (runtimePolicy p)) (pa_route p),
      ri_commandAccess = projectCommandAccess (decideChannelIngress state (runtimePolicy p)) (runtimePolicy p),
      ri_activationAccess = projectActivationAccess (decideChannelIngress state (runtimePolicy p))\<rparr>"
    unfolding resolveChannelMessageIngress_def Let_def by (simp only: sum.case sum.inject) blast
  have k: "st_conversationKind (resolveChannelIngressState lc (runtimeStateInput ds p channelId)) = cv_kind (pa_conversation p)"
    by (simp add: resolveChannelIngressState_def runtimeStateInput_def Let_def)
  from r k show "ri_ingress r = decideChannelIngress (ri_state r) (runtimePolicy p)"
    "ri_routeAccess r = projectRouteAccess (ri_ingress r) (pa_route p)"
    "ri_commandAccess r = projectCommandAccess (ri_ingress r) (runtimePolicy p)"
    "ri_activationAccess r = projectActivationAccess (ri_ingress r)"
    "\<exists>dm gr. ri_senderAccess r = projectSenderAccess (ri_ingress r) (st_conversationKind (ri_state r) \<noteq> Direct) dm gr
           (pa_providerMissingFallbackApplied p)"
    by (elim exE conjE; simp only: resolved_ingress.simps; blast)+
qed

lemma eventModeSender_kind:
  "g_kind (eventModeSender state policy) = (if st_conversationKind state = Direct then DmSenderKind else GroupSenderKind)"
  by (simp add: eventModeSender_def applyEventAuthModeToSenderGate_def senderGateForDirect_def senderGateForGroup_def Let_def)

lemma commandGate_kind: "g_kind (commandGate state policy) = CommandKind"
  by (simp add: commandGate_def Let_def split: option.split)

lemma activationGate_kind: "g_kind (activationGate state policy c) = MentionKind"
  by (simp add: activationGate_def Let_def split: option.split)

lemma commandGate_block_fact:
  "g_command (commandGate state policy) = Some f \<Longrightarrow> gc_shouldBlockControlCommand f \<Longrightarrow> g_effect (commandGate state policy) = BlockCommand"
  by (auto simp: commandGate_def Let_def plainGate_def split: option.splits)

lemma routeGraph_allowed: "x \<in> set (routeGraph state) \<Longrightarrow> g_allowed x \<longleftrightarrow> g_effect x \<noteq> BlockDispatch"
proof -
  have bd: "gateEffectOfRoute e = BlockDispatch \<longleftrightarrow> e = RtBlockDispatch" for e by (cases e) auto
  show "x \<in> set (routeGraph state) \<Longrightarrow> g_allowed x \<longleftrightarrow> g_effect x \<noteq> BlockDispatch"
    by (auto simp: bd routeGraph_def routeGates_def routeSenderEmptyGate_def split: option.splits)
qed

text \<open>The graph of a dispatched event.\<close>

lemma dispatch_gates:
  assumes "id_admission (decideChannelIngress state policy) = Dispatch"
  obtains E A e a where
    "id_gates (decideChannelIngress state policy) = routeGraph state @ E @ [eventModeSender state policy, commandGate state policy, e] @ A"
    "set (E @ A) = {a}" "g_phase a = ActivationPhase" "g_kind a = MentionKind" "g_effect a = Allow" "g_allowed a"
    "g_allowed (eventModeSender state policy)" "g_effect (commandGate state policy) \<noteq> BlockCommand" "g_phase e = EventPhase"
    "find (\<lambda>g. g_effect g = BlockDispatch) (routeGraph state) = None"
proof (cases rule: decision_cases [of state policy])
  case (after pre)
  let ?early = "activationBeforeSender state policy" and ?c = "commandGate state policy" and ?s = "eventModeSender state policy"
  have k: "g_kind x = MentionKind \<and> g_allowed x = (g_effect x = Allow)" if "?early = Some x" for x
    using that activationGate_shape(2) by (auto simp: activationBeforeSender_def activationGate_kind split: option.splits if_splits)
  show thesis
  proof (cases rule: decideAfterSender_cases [of state policy ?early ?s "pre @ [?s]"])
    case (activation a gs')
    have eff: "g_effect a \<in> {Allow, Skip}"
      using activation(3) activationGate_effect activationBeforeSender_shape [of state policy] by (auto split: option.splits)
    then have "g_effect a = Allow" using assms after(5) activation(5) by auto
    then have gates: "id_gates (decideChannelIngress state policy) = gs'" and al: "g_effect a = Allow"
      using after(5) activation(5) by simp_all
    have a: "g_phase a = ActivationPhase" "g_kind a = MentionKind" "g_allowed a"
      using activation(3) al k activationBeforeSender_shape [of state policy] activationGate_shape [of state policy ?c]
      by (auto simp: activationGate_kind split: option.splits if_splits)
    show thesis
    proof (rule that [of "case ?early of None \<Rightarrow> [] | Some x \<Rightarrow> [x]" "eventGate state ?s ?c"
          "case ?early of None \<Rightarrow> [a] | Some _ \<Rightarrow> []" a])
      show "id_gates (decideChannelIngress state policy) = routeGraph state @ (case ?early of None \<Rightarrow> [] | Some x \<Rightarrow> [x]) @
          [?s, ?c, eventGate state ?s ?c] @ (case ?early of None \<Rightarrow> [a] | Some _ \<Rightarrow> [])"
        using gates activation(4) after(3) by (simp split: option.split)
      show "set ((case ?early of None \<Rightarrow> [] | Some x \<Rightarrow> [x]) @ (case ?early of None \<Rightarrow> [a] | Some _ \<Rightarrow> [])) = {a}"
        using activation(3) by (simp split: option.split)
    qed (use a al after activation eventGate_shape(1) in auto)
  qed (use assms after(5) in auto)
qed (use assms in \<open>auto split: if_splits\<close>)

text \<open>
  The projections channel handlers read agree with the decision: when the resolver admits an event
  for dispatch, the sender, route and activation projections all allow it and the command projection does
  not ask to block a control command.
\<close>

theorem dispatch_projections_allow:
  assumes "resolveChannelMessageIngress lc defaultStore p = Inr r"
    and "id_admission (ri_ingress r) = Dispatch"
  shows "sx_allowed (ri_senderAccess r) \<and> ra_allowed (ri_routeAccess r) \<and>
         \<not> cx_shouldBlockControlCommand (ri_commandAccess r) \<and> ax_ran (ri_activationAccess r) \<and> ax_allowed (ri_activationAccess r)"
proof -
  let ?state = "ri_state r" and ?policy = "runtimePolicy p" and ?d = "ri_ingress r"
  let ?s = "eventModeSender ?state ?policy" and ?c = "commandGate ?state ?policy"
  note R = resolveChannelMessageIngress_Inr [OF assms(1)]
  have d: "?d = decideChannelIngress ?state ?policy" by (rule R(1))
  from assms(2) obtain E A e a where g: "id_gates ?d = routeGraph ?state @ E @ [?s, ?c, e] @ A"
    and a: "set (E @ A) = {a}" "g_phase a = ActivationPhase" "g_kind a = MentionKind" "g_effect a = Allow" "g_allowed a"
    and s: "g_allowed ?s" and c: "g_effect ?c \<noteq> BlockCommand" and e: "g_phase e = EventPhase"
    and clear: "find (\<lambda>g. g_effect g = BlockDispatch) (routeGraph ?state) = None"
    unfolding d by (rule dispatch_gates)
  have rt: "g_phase x = RoutePhase \<and> g_effect x \<noteq> BlockDispatch" if "x \<in> set (routeGraph ?state)" for x
    using that routeGraph_effects [OF that] clear by (auto simp: find_None_iff)
  have E: "x = a" if "x \<in> set E \<or> x \<in> set A" for x using that a(1) by auto
  have skipR: "find P (routeGraph ?state @ xs) = find P xs" if "\<And>x. g_phase x = RoutePhase \<Longrightarrow> \<not> P x" for P xs
  proof -
    have "find P (ys @ xs) = find P xs" if "\<forall>y \<in> set ys. \<not> P y" for ys using that by (induction ys) auto
    then show ?thesis using rt that by blast
  qed
  have skipE: "find P (E @ xs) = find P xs" if "\<not> P a" for P xs
  proof -
    have "find P (ys @ xs) = find P xs" if "\<forall>y \<in> set ys. \<not> P y" for ys using that by (induction ys) auto
    then show ?thesis using E that by metis
  qed
  have sg: "findSenderGate ?d (st_conversationKind ?state \<noteq> Direct) = Some ?s"
    unfolding findSenderGate_def findIngressGate_def g
    by (subst skipR, simp, subst skipE) (simp_all add: a eventModeSender_shape(1) eventModeSender_kind)
  have cg: "findIngressGate ?d CommandPhase CommandKind = Some ?c"
    unfolding findIngressGate_def g
    by (subst skipR, simp, subst skipE) (simp_all add: a eventModeSender_shape(1) commandGate_shape(1) commandGate_kind)
  have "a \<in> set (id_gates ?d)" using a(1) g by auto
  then obtain a' where ag: "findIngressGate ?d ActivationPhase MentionKind = Some a'"
    using a(2,3) unfolding findIngressGate_def by (cases "find (\<lambda>g. g_phase g = ActivationPhase \<and> g_kind g = MentionKind) (id_gates ?d)")
      (auto simp: find_None_iff)
  then have "a' \<in> set (id_gates ?d)" "g_phase a' = ActivationPhase"
    unfolding findIngressGate_def by (auto simp: find_Some_iff)
  then have "a' = a"
    using g rt E e eventModeSender_shape(1) [of ?state ?policy] commandGate_shape(1) [of ?state ?policy] by auto
  have sr: "g_reasonCode ?s \<noteq> dm_policy_pairing_required"
    using s senderGateForDirect_reason [of ?state ?policy] senderGateForGroup_reason [of ?state ?policy]
    by (auto simp: eventModeSender_def applyEventAuthModeToSenderGate_def split: if_splits)
  from R(5) obtain dm gr where sx: "ri_senderAccess r = projectSenderAccess ?d (st_conversationKind ?state \<noteq> Direct) dm gr
      (pa_providerMissingFallbackApplied p)" by blast
  have 1: "sx_allowed (ri_senderAccess r)"
    unfolding sx projectSenderAccess_def Let_def sg using s sr by simp
  have 3: "\<not> cx_shouldBlockControlCommand (ri_commandAccess r)"
    unfolding R(3) projectCommandAccess_def Let_def cg
    using c commandGate_block_fact [of ?state ?policy] by (auto split: option.split)
  have 4: "ax_ran (ri_activationAccess r) \<and> ax_allowed (ri_activationAccess r)"
    unfolding R(4) projectActivationAccess_def Let_def ag using a(5) \<open>a' = a\<close> by simp
  have nb: "find (\<lambda>g. g_phase g = ph \<and> g_effect g = BlockDispatch) (id_gates ?d) = None" for ph
  proof -
    have "decision_coherent ?d" unfolding d by (rule decideChannelIngress_coherent)
    then show ?thesis using assms(2) by (auto simp: decision_coherent_def find_None_iff list_ex_iff stopping_def)
  qed
  have 2: "ra_allowed (ri_routeAccess r)"
  proof (cases "find (\<lambda>g. g_phase g = RoutePhase) (id_gates ?d)")
    case None
    then show ?thesis unfolding R(2) projectRouteAccess_def Let_def nb by (simp split: option.split)
  next
    case (Some x)
    then have "x \<in> set (id_gates ?d)" "g_phase x = RoutePhase" by (auto simp: find_Some_iff)
    moreover have "g_phase y \<noteq> RoutePhase" if "y \<in> set E \<or> y \<in> set A" for y
      using E [OF that] a(2) by simp
    ultimately have "x \<in> set (routeGraph ?state)"
      using g e eventModeSender_shape(1) [of ?state ?policy] commandGate_shape(1) [of ?state ?policy] by auto
    then have "g_allowed x" using rt routeGraph_allowed by blast
    with Some show ?thesis unfolding R(2) projectRouteAccess_def Let_def nb by (simp split: option.split)
  qed
  from 1 2 3 4 show ?thesis by blast
qed

text \<open>
  The resolver fails only on a blank channel id, with that error; otherwise it returns the decision
  of its policy over the state it resolved.
\<close>

theorem blank_channel_rejected:
  "(case resolveChannelMessageIngress lc defaultStore p of
      Inl e \<Rightarrow> js_trim (pa_channelId p) = [] \<and> e = ChannelIdEmpty
    | Inr r \<Rightarrow> js_trim (pa_channelId p) \<noteq> [] \<and> ri_ingress r = decideChannelIngress (ri_state r) (runtimePolicy p) \<and>
               st_channelId (ri_state r) = js_trim (pa_channelId p))"
  by (simp add: resolveChannelMessageIngress_def normalizeChannelId_def Let_def resolveChannelIngressState_def
      runtimeStateInput_def split: sum.split)

text \<open>
  The pairing store is out of reach unless the conversation is direct and the policy is pairing or
  disabled: in every other case no reader, injected or default, can change anything in the resolver's
  result.
\<close>

theorem store_unread_unless_pairing:
  assumes "cv_kind (pa_conversation p) \<noteq> Direct \<or> po_dmPolicy (pa_policy p) = DmAllowlist \<or> po_dmPolicy (pa_policy p) = DmOpen"
  shows "resolveChannelMessageIngress lc store (p\<lparr>pa_readStoreAllowFrom := reader, pa_useDefaultPairingStore := useDefault\<rparr>) =
         resolveChannelMessageIngress lc store' p"
proof -
  let ?p = "p\<lparr>pa_readStoreAllowFrom := reader, pa_useDefaultPairingStore := useDefault\<rparr>"
  have n: "readStoreAllowFrom s p c = []" "readStoreAllowFrom s ?p c = []" for s c
    using assms by (auto simp: readStoreAllowFrom_def shouldReadStore_def)
  have i: "runtimeStateInput store ?p c = runtimeStateInput store' p c" for c
    by (simp add: runtimeStateInput_def n effectiveOf_def)
  have e: "effectiveOf ?p = effectiveOf p" by (simp add: effectiveOf_def fun_eq_iff)
  have q: "runtimePolicy ?p = runtimePolicy p" by (simp add: runtimePolicy_def split: option.split)
  have m: "accessGroupMatchedEntry ?p = accessGroupMatchedEntry p" by (simp add: accessGroupMatchedEntry_def split: option.split)
  show ?thesis
    by (simp add: resolveChannelMessageIngress_def n i e q m cong: sum.case_cong)
qed

section \<open>Example requests\<close>

definition demoParams :: "dm_policy \<Rightarrow> raw_entry list \<Rightarrow> ingress_params" where
  "demoParams d allowFrom =
     \<lparr>pa_channelId = '' telegram '', pa_accountId = ''default'', pa_identity = demoIdentity,
      pa_subject = \<lparr>si_stableId = Some (RawNum 42), si_aliases = None\<rparr>,
      pa_conversation = \<lparr>cv_kind = Direct, cv_id = ''42'', cv_parentId = None, cv_threadId = None, cv_title = None\<rparr>,
      pa_event = \<lparr>ei_kind = MessageEvent, ei_authMode = AuthInbound, ei_mayPair = True, ei_originSubject = None\<rparr>,
      pa_policy = \<lparr>po_dmPolicy = d, po_groupPolicy = GroupDisabled, po_groupAllowFromFallbackToAllowFrom = None,
                   po_mutableIdentifierMatching = None, po_activation = None, po_command = None\<rparr>,
      pa_allowFrom = Some allowFrom, pa_groupAllowFrom = None, pa_route = NoRoute, pa_routeFacts = None,
      pa_accessGroups = None, pa_accessGroupMembership = None, pa_resolveMembership = None,
      pa_matchedAllowFromEntry = None, pa_providerMissingFallbackApplied = None, pa_mentionFacts = None,
      pa_readStoreAllowFrom = Some (\<lambda>_ _ _. Some (Some [RawStr ''42''])), pa_useDefaultPairingStore = None,
      pa_command = None\<rparr>"

definition demoStore :: "string \<Rightarrow> string \<Rightarrow> string list option" where
  "demoStore _ _ = None"

definition demoLocale :: "string \<Rightarrow> string \<Rightarrow> int" where
  "demoLocale _ _ = 0"

fun rightOf :: "ingress_error + resolved_ingress \<Rightarrow> resolved_ingress" where
  "rightOf (Inr r) = r"
| "rightOf (Inl _) = undefined"

text \<open>
  The paired sender is dispatched by the store under the pairing policy, and the projections agree;
  under the allowlist policy the same store does not speak.
\<close>

theorem dispatch_projections_allow_witness:
  "sx_allowed (ri_senderAccess (rightOf (resolveChannelMessageIngress demoLocale demoStore (demoParams DmPairing []))))"
proof -
  let ?x = "resolveChannelMessageIngress demoLocale demoStore (demoParams DmPairing [])"
  have "?x = Inr (rightOf ?x)" by code_simp
  moreover have "id_admission (ri_ingress (rightOf ?x)) = Dispatch" by code_simp
  ultimately show ?thesis by (rule dispatch_projections_allow [THEN conjunct1])
qed

theorem store_unread_unless_pairing_witness:
  "id_admission (ri_ingress (rightOf (resolveChannelMessageIngress demoLocale demoStore
     ((demoParams DmAllowlist [RawStr ''7''])\<lparr>pa_readStoreAllowFrom := Some (\<lambda>_ _ _. Some (Some [RawStr ''*''])), pa_useDefaultPairingStore := None\<rparr>)))) = Drop"
proof -
  let ?p = "demoParams DmAllowlist [RawStr ''7'']"
  have "resolveChannelMessageIngress demoLocale demoStore (?p\<lparr>pa_readStoreAllowFrom := Some (\<lambda>_ _ _. Some (Some [RawStr ''*''])), pa_useDefaultPairingStore := None\<rparr>) =
      resolveChannelMessageIngress demoLocale demoStore ?p"
    by (rule store_unread_unless_pairing) (simp add: demoParams_def)
  moreover have "id_admission (ri_ingress (rightOf (resolveChannelMessageIngress demoLocale demoStore ?p))) = Drop"
    by code_simp
  ultimately show ?thesis by simp
qed

text \<open>
  The sender projection's \<open>decision\<close> is the sender gate's verdict, not the final one: an unauthorised
  control command is blocked while the sender projection says allow.
\<close>

lemma sender_decision_is_not_final:
  "\<exists>p r. resolveChannelMessageIngress demoLocale demoStore p = Inr r \<and>
     id_decision (ri_ingress r) = BlockVerdict \<and> sx_decision (ri_senderAccess r) = AllowVerdict"
proof -
  let ?p = "(demoParams DmPairing [])\<lparr>pa_command := Some \<lparr>cp_useAccessGroups = None, cp_allowTextCommands = True,
      cp_hasControlCommand = True, cp_modeWhenAccessGroupsOff = None, ci_commandOwnerAllowFrom = Some [RawStr ''7''],
      ci_groupOwnerAllowFrom = None, ci_directGroupAllowFrom = None, ci_commandGroupAllowFromFallbackToAllowFrom = None\<rparr>\<rparr>"
  let ?x = "resolveChannelMessageIngress demoLocale demoStore ?p"
  have "?x = Inr (rightOf ?x)" by code_simp
  moreover have "id_decision (ri_ingress (rightOf ?x)) = BlockVerdict" by code_simp
  moreover have "sx_decision (ri_senderAccess (rightOf ?x)) = AllowVerdict" by code_simp
  ultimately show ?thesis by blast
qed

text \<open>
  A route descriptor with \<open>enabled = false\<close> is not left out of the graph: it adds a blocking gate, and
  only \<open>configured = false\<close> leaves it out.
\<close>

lemma disabled_route_blocks:
  "rd_configured d \<noteq> Some False \<Longrightarrow> rd_enabled d = Some False \<Longrightarrow>
   \<exists>f. routeFactsFromDescriptor d = [f] \<and> rg_effect f = RtBlockDispatch"
  by (simp add: routeFactsFromDescriptor_def routeFact_def)

end
