(* ===== verification/ExecPolicy.thy ===== *)
theory ExecPolicy
  imports Prelude
begin

text \<open>
  Exec approval policy (\<open>src/infra/exec-approvals-core.ts\<close>, \<open>exec-approvals-policy.ts\<close>,
  \<open>exec-policy.ts\<close>): the security and ask levels with their order, the named modes, when a command needs
  an approval, which decisions an approval offers, and the guard for commands that touch the security
  audit suppressions.

  The level types are instances of \<open>linorder\<close>, ordered by strictness as \<open>minSecurity\<close> and \<open>maxAsk\<close> rank them.
\<close>

section \<open>Levels\<close>

datatype exec_host = HostSandbox | HostGateway | HostNode
datatype exec_target = TargetAuto | TargetHost exec_host
datatype exec_security = SecDeny | SecAllowlist | SecFull
datatype exec_ask = AskOff | AskOnMiss | AskAlways
datatype exec_mode = ModeDenied | ModeAllowlist | ModeAsk | ModeAuto | ModeFull
datatype approval_decision = AllowOnce | AllowAlways | DenyDecision

fun securityRank :: "exec_security \<Rightarrow> nat" where
  "securityRank SecDeny = 0"
| "securityRank SecAllowlist = 1"
| "securityRank SecFull = 2"

fun askRank :: "exec_ask \<Rightarrow> nat" where
  "askRank AskOff = 0"
| "askRank AskOnMiss = 1"
| "askRank AskAlways = 2"

lemma securityRank_inj: "securityRank a = securityRank b \<longleftrightarrow> a = b"
  by (cases a; cases b) auto

lemma askRank_inj: "askRank a = askRank b \<longleftrightarrow> a = b"
  by (cases a; cases b) auto

instantiation exec_security :: linorder
begin

definition less_eq_exec_security :: "exec_security \<Rightarrow> exec_security \<Rightarrow> bool" where
  "less_eq_exec_security a b = (securityRank a \<le> securityRank b)"

definition less_exec_security :: "exec_security \<Rightarrow> exec_security \<Rightarrow> bool" where
  "less_exec_security a b = (securityRank a < securityRank b)"

instance
  by standard (auto simp: less_eq_exec_security_def less_exec_security_def securityRank_inj)

end

instantiation exec_ask :: linorder
begin

definition less_eq_exec_ask :: "exec_ask \<Rightarrow> exec_ask \<Rightarrow> bool" where
  "less_eq_exec_ask a b = (askRank a \<le> askRank b)"

definition less_exec_ask :: "exec_ask \<Rightarrow> exec_ask \<Rightarrow> bool" where
  "less_exec_ask a b = (askRank a < askRank b)"

instance
  by standard (auto simp: less_eq_exec_ask_def less_exec_ask_def askRank_inj)

end

definition minSecurity :: "exec_security \<Rightarrow> exec_security \<Rightarrow> exec_security" where
  "minSecurity a b = (if securityRank a \<le> securityRank b then a else b)"

definition maxAsk :: "exec_ask \<Rightarrow> exec_ask \<Rightarrow> exec_ask" where
  "maxAsk a b = (if askRank a \<ge> askRank b then a else b)"

lemma minSecurity_min [simp]: "minSecurity a b = min a b"
  by (auto simp: minSecurity_def min_def less_eq_exec_security_def)

lemma maxAsk_max [simp]: "maxAsk a b = max a b"
  by (auto simp: maxAsk_def max_def less_eq_exec_ask_def askRank_inj)

section \<open>Reading levels from text\<close>

definition normalizeExecHost :: "string option \<Rightarrow> exec_host option" where
  "normalizeExecHost value =
     (let n = normalizeOptionalLowercaseString value in
      if n = Some ''sandbox'' then Some HostSandbox
      else if n = Some ''gateway'' then Some HostGateway
      else if n = Some ''node'' then Some HostNode else None)"

definition normalizeExecTarget :: "string option \<Rightarrow> exec_target option" where
  "normalizeExecTarget value =
     (let n = normalizeOptionalLowercaseString value in
      if n = Some ''auto'' then Some TargetAuto else map_option TargetHost (normalizeExecHost n))"

fun targetText :: "exec_target \<Rightarrow> string" where
  "targetText TargetAuto = ''auto''"
| "targetText (TargetHost HostSandbox) = ''sandbox''"
| "targetText (TargetHost HostGateway) = ''gateway''"
| "targetText (TargetHost HostNode) = ''node''"

definition EXEC_TARGET_VALUES :: "exec_target list" where
  "EXEC_TARGET_VALUES = [TargetAuto, TargetHost HostSandbox, TargetHost HostGateway, TargetHost HostNode]"

text \<open>An untyped argument: absent, a string, or a value of another type (with its \<open>typeof\<close>).\<close>

datatype exec_arg = ArgAbsent | ArgString string | ArgOther string

datatype exec_error =
    InvalidHostType string
  | InvalidHost string
  | ApprovalChanged
  | SnapshotRequired
  | ExplicitApprovalRequired
  | AgentIdRequired

definition requireValidExecTarget :: "exec_arg \<Rightarrow> exec_error + exec_target option" where
  "requireValidExecTarget value =
     (case value of
        ArgAbsent \<Rightarrow> Inr None
      | ArgOther t \<Rightarrow> Inl (InvalidHostType t)
      | ArgString s \<Rightarrow>
          (case normalizeOptionalLowercaseString (Some s) of
             None \<Rightarrow> Inr None
           | Some n \<Rightarrow> (case normalizeExecTarget (Some n) of
                          Some t \<Rightarrow> Inr (Some t)
                        | None \<Rightarrow> Inl (InvalidHost s))))"

definition parseSecurity :: "string \<Rightarrow> exec_security option" where
  "parseSecurity s = (if s = ''deny'' then Some SecDeny else if s = ''allowlist'' then Some SecAllowlist
                      else if s = ''full'' then Some SecFull else None)"

definition parseAsk :: "string \<Rightarrow> exec_ask option" where
  "parseAsk s = (if s = ''off'' then Some AskOff else if s = ''on-miss'' then Some AskOnMiss
                 else if s = ''always'' then Some AskAlways else None)"

definition normalizeExecSecurity :: "string option \<Rightarrow> exec_security option" where
  "normalizeExecSecurity value = Option.bind (normalizeOptionalLowercaseString value) parseSecurity"

definition normalizeExecAsk :: "string option \<Rightarrow> exec_ask option" where
  "normalizeExecAsk value = Option.bind (normalizeOptionalLowercaseString value) parseAsk"

definition normalizeExecMode :: "string option \<Rightarrow> exec_mode option" where
  "normalizeExecMode value =
     (let n = normalizeOptionalLowercaseString value in
      if n = Some ''deny'' then Some ModeDenied
      else if n = Some ''allowlist'' then Some ModeAllowlist
      else if n = Some ''ask'' then Some ModeAsk
      else if n = Some ''auto'' then Some ModeAuto
      else if n = Some ''full'' then Some ModeFull else None)"

section \<open>Modes\<close>

record exec_policy =
  ep_security :: exec_security
  ep_ask :: exec_ask
  ep_autoReview :: bool

definition resolveExecModeFromPolicy :: "exec_security \<Rightarrow> exec_ask \<Rightarrow> exec_mode" where
  "resolveExecModeFromPolicy security ask =
     (if security = SecDeny then ModeDenied
      else if security = SecAllowlist \<and> ask = AskOff then ModeAllowlist
      else if security = SecFull \<and> ask \<noteq> AskAlways then ModeFull
      else ModeAsk)"

fun resolveExecPolicyForMode :: "exec_mode \<Rightarrow> exec_policy" where
  "resolveExecPolicyForMode ModeDenied = \<lparr>ep_security = SecDeny, ep_ask = AskOff, ep_autoReview = False\<rparr>"
| "resolveExecPolicyForMode ModeAllowlist = \<lparr>ep_security = SecAllowlist, ep_ask = AskOff, ep_autoReview = False\<rparr>"
| "resolveExecPolicyForMode ModeAsk = \<lparr>ep_security = SecAllowlist, ep_ask = AskOnMiss, ep_autoReview = False\<rparr>"
| "resolveExecPolicyForMode ModeAuto = \<lparr>ep_security = SecAllowlist, ep_ask = AskOnMiss, ep_autoReview = True\<rparr>"
| "resolveExecPolicyForMode ModeFull = \<lparr>ep_security = SecFull, ep_ask = AskOff, ep_autoReview = False\<rparr>"

definition resolveExecModePolicy :: "exec_mode option \<Rightarrow> exec_security \<Rightarrow> exec_ask \<Rightarrow> exec_mode \<times> exec_policy" where
  "resolveExecModePolicy mode security ask =
     (case mode of
        None \<Rightarrow> (resolveExecModeFromPolicy security ask, \<lparr>ep_security = security, ep_ask = ask, ep_autoReview = False\<rparr>)
      | Some m \<Rightarrow> (m, resolveExecPolicyForMode m))"

record policy_layer =
  pl_mode :: "exec_mode option"
  pl_security :: "exec_security option"
  pl_ask :: "exec_ask option"

definition applyExecPolicyLayer :: "policy_layer \<Rightarrow> policy_layer option \<Rightarrow> policy_layer" where
  "applyExecPolicyLayer base layer =
     (case layer of
        None \<Rightarrow> base
      | Some l \<Rightarrow>
          (case pl_mode l of
             Some m \<Rightarrow> \<lparr>pl_mode = Some m, pl_security = Some (ep_security (resolveExecPolicyForMode m)),
                        pl_ask = Some (ep_ask (resolveExecPolicyForMode m))\<rparr>
           | None \<Rightarrow>
               if pl_security l \<noteq> None \<or> pl_ask l \<noteq> None
               then \<lparr>pl_mode = None,
                     pl_security = (case pl_security l of Some s \<Rightarrow> Some s | None \<Rightarrow> pl_security base),
                     pl_ask = (case pl_ask l of Some a \<Rightarrow> Some a | None \<Rightarrow> pl_ask base)\<rparr>
               else base))"

section \<open>Approvals\<close>

definition requiresExecApproval :: "exec_ask \<Rightarrow> exec_security \<Rightarrow> bool \<Rightarrow> bool \<Rightarrow> bool option \<Rightarrow> bool" where
  "requiresExecApproval ask security analysisOk allowlistSatisfied durableApprovalSatisfied =
     (if ask = AskAlways then True
      else if durableApprovalSatisfied = Some True then False
      else ask = AskOnMiss \<and> security = SecAllowlist \<and> (\<not> analysisOk \<or> \<not> allowlistSatisfied))"

datatype persistence_reason = NoReusablePattern | PromptOnly | RuntimePayload | Unplanned

record allow_pattern =
  ap_pattern :: string
  ap_argPattern :: "string option"

datatype persistence_decision =
    PersistPatterns "allow_pattern list" "string option"
  | PersistExactCommand string
  | OneShot "persistence_reason list"

definition DEFAULT_EXEC_APPROVAL_DECISIONS :: "approval_decision list" where
  "DEFAULT_EXEC_APPROVAL_DECISIONS = [AllowOnce, AllowAlways, DenyDecision]"

definition OPTIONAL_EXEC_APPROVAL_DECISIONS :: "approval_decision list" where
  "OPTIONAL_EXEC_APPROVAL_DECISIONS = [AllowAlways]"

fun decisionText :: "approval_decision \<Rightarrow> string" where
  "decisionText AllowOnce = ''allow-once''"
| "decisionText AllowAlways = ''allow-always''"
| "decisionText DenyDecision = ''deny''"

definition isOptionalExecApprovalDecision :: "string \<Rightarrow> bool" where
  "isOptionalExecApprovalDecision d \<longleftrightarrow> d \<in> set (map decisionText OPTIONAL_EXEC_APPROVAL_DECISIONS)"

definition collectExecApprovalUnavailableDecisionSet :: "string list option \<Rightarrow> string list" where
  "collectExecApprovalUnavailableDecisionSet decisions =
     (case decisions of None \<Rightarrow> [] | Some ds \<Rightarrow> fold (\<lambda>d s. if isOptionalExecApprovalDecision d then set_add d s else s) ds [])"

definition normalizeExecApprovalUnavailableDecisions :: "string list option \<Rightarrow> approval_decision list" where
  "normalizeExecApprovalUnavailableDecisions decisions =
     (let unavailable = collectExecApprovalUnavailableDecisionSet decisions in
      filter (\<lambda>d. decisionText d \<in> set unavailable) OPTIONAL_EXEC_APPROVAL_DECISIONS)"

definition isOneShot :: "persistence_decision option \<Rightarrow> bool" where
  "isOneShot p = (case p of Some (OneShot _) \<Rightarrow> True | _ \<Rightarrow> False)"

definition resolveExecApprovalAllowedDecisions :: "string option \<Rightarrow> persistence_decision option \<Rightarrow> approval_decision list" where
  "resolveExecApprovalAllowedDecisions ask persistence =
     (if normalizeExecAsk ask = Some AskAlways \<or> isOneShot persistence then [AllowOnce, DenyDecision]
      else DEFAULT_EXEC_APPROVAL_DECISIONS)"

definition resolveExecApprovalUnavailableDecisions :: "string option \<Rightarrow> persistence_decision option \<Rightarrow> approval_decision list" where
  "resolveExecApprovalUnavailableDecisions ask persistence =
     filter (\<lambda>d. d \<notin> set (resolveExecApprovalAllowedDecisions ask persistence)) OPTIONAL_EXEC_APPROVAL_DECISIONS"

definition resolveExecApprovalRequestAllowedDecisions :: "string option \<Rightarrow> string list option \<Rightarrow> approval_decision list" where
  "resolveExecApprovalRequestAllowedDecisions ask unavailableDecisions =
     (let policyDecisions = resolveExecApprovalAllowedDecisions ask None;
          unavailable = collectExecApprovalUnavailableDecisionSet unavailableDecisions in
      if length unavailable = 0 then policyDecisions
      else filter (\<lambda>d. \<not> isOptionalExecApprovalDecision (decisionText d) \<or> decisionText d \<notin> set unavailable) policyDecisions)"

definition isExecApprovalDecisionAllowed :: "approval_decision \<Rightarrow> string option \<Rightarrow> bool" where
  "isExecApprovalDecisionAllowed decision ask \<longleftrightarrow> decision \<in> set (resolveExecApprovalAllowedDecisions ask None)"

section \<open>Security audit suppressions\<close>

text \<open>
  The pattern \<open>["']?security["']?[\s\S]{0,200}["']?audit["']?[\s\S]{0,200}["']?suppressions["']?\<close> as a
  matcher in continuation style: an optional quote, a literal, a gap of at most \<open>n\<close> characters.
\<close>

definition is_quote :: "char \<Rightarrow> bool" where
  "is_quote c \<longleftrightarrow> c = CHR 0x22 \<or> c = CHR 0x27"

fun opt_quote :: "(string \<Rightarrow> bool) \<Rightarrow> string \<Rightarrow> bool" where
  "opt_quote k [] = k []"
| "opt_quote k (c # s) = (k (c # s) \<or> (is_quote c \<and> k s))"

definition literal_then :: "string \<Rightarrow> (string \<Rightarrow> bool) \<Rightarrow> string \<Rightarrow> bool" where
  "literal_then w k s \<longleftrightarrow> starts_with w s \<and> k (drop (length w) s)"

fun gap_then :: "nat \<Rightarrow> (string \<Rightarrow> bool) \<Rightarrow> string \<Rightarrow> bool" where
  "gap_then 0 k s = k s"
| "gap_then (Suc n) k [] = k []"
| "gap_then (Suc n) k (c # s) = (k (c # s) \<or> gap_then n k s)"

fun match_somewhere :: "(string \<Rightarrow> bool) \<Rightarrow> string \<Rightarrow> bool" where
  "match_somewhere k [] = k []"
| "match_somewhere k (c # s) = (k (c # s) \<or> match_somewhere k s)"

definition suppressionsPattern :: "string \<Rightarrow> bool" where
  "suppressionsPattern =
     opt_quote (literal_then ''security'' (opt_quote (gap_then 200
       (opt_quote (literal_then ''audit'' (opt_quote (gap_then 200
         (opt_quote (literal_then ''suppressions'' (opt_quote (\<lambda>_. True)))))))))))"

definition textMentionsSecurityAuditSuppressions :: "string \<Rightarrow> bool" where
  "textMentionsSecurityAuditSuppressions value =
     (let n = js_lower value in
      js_includes ''security.audit.suppressions'' n \<or> match_somewhere suppressionsPattern n)"

fun last_path_part :: "string \<Rightarrow> string \<Rightarrow> string" where
  "last_path_part acc [] = rev acc"
| "last_path_part acc (c # s) = (if c = CHR ''/'' \<or> c = CHR 0x5C then last_path_part [] s else last_path_part (c # acc) s)"

definition normalizeCommandName :: "string option \<Rightarrow> string" where
  "normalizeCommandName value = js_lower (last_path_part [] (case value of None \<Rightarrow> [] | Some s \<Rightarrow> s))"

text \<open>\<open>argv[i]\<close>: absent out of range.\<close>

definition arg_at :: "string list \<Rightarrow> nat \<Rightarrow> string option" where
  "arg_at argv i = (if i < length argv then Some (argv ! i) else None)"

fun skipGlobalFlags :: "string list \<Rightarrow> string list" where
  "skipGlobalFlags [] = []"
| "skipGlobalFlags (arg # rest) =
     (if arg = ''--dev'' \<or> arg = ''--no-color'' then skipGlobalFlags rest
      else if arg = ''--profile'' \<or> arg = ''--container'' \<or> arg = ''--log-level'' then
        (case rest of [] \<Rightarrow> [] | _ # rest' \<Rightarrow> skipGlobalFlags rest')
      else if starts_with ''--profile='' arg \<or> starts_with ''--container='' arg \<or> starts_with ''--log-level='' arg
      then skipGlobalFlags rest
      else arg # rest)"

definition isReadOnlySecurityAuditSuppressionInspection :: "string list \<Rightarrow> bool" where
  "isReadOnlySecurityAuditSuppressionInspection argv =
     (let offset = (if normalizeCommandName (arg_at argv 0) = ''pnpm'' \<and> arg_at argv 1 = Some ''openclaw'' then 1 else 0) in
      if normalizeCommandName (arg_at argv offset) \<noteq> ''openclaw'' then False
      else let rest = skipGlobalFlags (drop (offset + 1) argv) in
           arg_at rest 0 = Some ''config'' \<and>
           (arg_at rest 1 = Some ''get'' \<or> arg_at rest 1 = Some ''schema'' \<or> arg_at rest 1 = Some ''validate''))"

text \<open>\<open>s.replace(p, r)\<close> for a non-empty string pattern: the first occurrence.\<close>

fun replace_first :: "string \<Rightarrow> string \<Rightarrow> string \<Rightarrow> string" where
  "replace_first p r [] = []"
| "replace_first p r (c # s) = (if starts_with p (c # s) then r @ drop (length p) (c # s) else c # replace_first p r s)"

record command_segment =
  cs_argv :: "string list"
  cs_raw :: "string option"

definition removeParsedSegmentText :: "string \<Rightarrow> command_segment list \<Rightarrow> string" where
  "removeParsedSegmentText command segments =
     fold (\<lambda>seg remaining.
        let raw = js_trim (case cs_raw seg of Some r \<Rightarrow> r | None \<Rightarrow> join_with '' '' (cs_argv seg)) in
        if raw = [] then remaining else replace_first raw '' '' remaining) segments command"

definition segmentMentions :: "command_segment \<Rightarrow> bool" where
  "segmentMentions seg =
     textMentionsSecurityAuditSuppressions ((case cs_raw seg of Some r \<Rightarrow> r | None \<Rightarrow> []) @ '' '' @ join_with '' '' (cs_argv seg))"

definition commandRequiresSecurityAuditSuppressionApproval :: "string \<Rightarrow> command_segment list \<Rightarrow> bool" where
  "commandRequiresSecurityAuditSuppressionApproval command segments =
     (if list_ex (\<lambda>seg. segmentMentions seg \<and> \<not> isReadOnlySecurityAuditSuppressionInspection (cs_argv seg)) segments then True
      else if list_ex segmentMentions segments
      then textMentionsSecurityAuditSuppressions (removeParsedSegmentText command segments)
      else textMentionsSecurityAuditSuppressions command)"

lemma normalizeOptionalLowercaseString_idem [simp]:
  "normalizeOptionalLowercaseString (normalizeOptionalLowercaseString v) = normalizeOptionalLowercaseString v"
  by (cases v) (simp_all add: normalizeOptionalLowercaseString_Some js_trim_lower,
      simp_all add: normalizeOptionalLowercaseString_def)

lemma normalizeExecTarget_Some:
  assumes "js_trim s \<noteq> []"
  shows "normalizeExecTarget (Some s) = Some t \<longleftrightarrow> js_lower (js_trim s) = targetText t"
proof -
  have n: "normalizeOptionalLowercaseString (Some s) = Some (js_lower (js_trim s))"
    "normalizeOptionalLowercaseString (Some (js_lower (js_trim s))) = Some (js_lower (js_trim s))"
    using assms by (simp_all add: normalizeOptionalLowercaseString_Some js_trim_lower)
  show ?thesis
    by (cases t rule: targetText.cases) (auto simp: normalizeExecTarget_def normalizeExecHost_def n Let_def)
qed

text \<open>
  Reading an exec target from an untyped argument: an absent or blank value gives no target, a
  string that reads as a target (ignoring case and surrounding space) gives it, any other string and any
  value of another type is rejected with the error naming it.
\<close>

theorem exec_target_required:
  "case requireValidExecTarget value of
     Inr None \<Rightarrow> value = ArgAbsent \<or> (\<exists>s. value = ArgString s \<and> js_trim s = [])
   | Inr (Some t) \<Rightarrow> (\<exists>s. value = ArgString s \<and> js_trim s \<noteq> [] \<and> js_lower (js_trim s) = targetText t)
   | Inl (InvalidHostType t) \<Rightarrow> value = ArgOther t
   | Inl (InvalidHost s) \<Rightarrow> value = ArgString s \<and> js_trim s \<noteq> [] \<and> js_lower (js_trim s) \<notin> targetText ` set EXEC_TARGET_VALUES
   | Inl _ \<Rightarrow> False"
proof (cases "value")
  case (ArgString s)
  show ?thesis
  proof (cases "js_trim s = []")
    case True
    then show ?thesis by (simp add: ArgString requireValidExecTarget_def normalizeOptionalLowercaseString_Some)
  next
    case False
    have l: "js_trim (js_lower (js_trim s)) \<noteq> []" using False by (simp add: js_trim_lower)
    have v: "requireValidExecTarget value = (case normalizeExecTarget (Some (js_lower (js_trim s))) of
        Some t \<Rightarrow> Inr (Some t) | None \<Rightarrow> Inl (InvalidHost s))"
      by (simp add: ArgString requireValidExecTarget_def normalizeOptionalLowercaseString_Some False)
    show ?thesis
    proof (cases "normalizeExecTarget (Some (js_lower (js_trim s)))")
      case None
      then have "js_lower (js_trim s) \<noteq> targetText t" for t
        using normalizeExecTarget_Some [OF l, of t] by (simp add: js_trim_lower)
      then show ?thesis using v None False ArgString by auto
    next
      case (Some t)
      then have "js_lower (js_trim s) = targetText t"
        using normalizeExecTarget_Some [OF l, of t] by (simp add: js_trim_lower)
      with Some v False ArgString show ?thesis by simp
    qed
  qed
qed (simp_all add: requireValidExecTarget_def)

section \<open>Approvals and modes\<close>

text \<open>
  Modes and approvals. Every mode but \<open>auto\<close> is read back from its policy (\<open>auto\<close> reads as \<open>ask\<close>,
  which has the same security and ask); naming a policy by its mode never raises the security level;
  and asking for more or knowing less never removes the need for an approval.
\<close>

theorem exec_modes_and_approvals:
  "resolveExecModeFromPolicy (ep_security (resolveExecPolicyForMode m)) (ep_ask (resolveExecPolicyForMode m)) =
     (if m = ModeAuto then ModeAsk else m) \<and>
   ep_security (resolveExecPolicyForMode (resolveExecModeFromPolicy security ask)) \<le> security \<and>
   (ask \<le> ask' \<and> requiresExecApproval ask security (analysisOk \<or> extra) (satisfied \<or> extra) durable \<longrightarrow>
      requiresExecApproval ask' security analysisOk satisfied durable)"
  by (cases m; cases security; cases ask; cases ask')
    (auto simp: resolveExecModeFromPolicy_def requiresExecApproval_def less_eq_exec_security_def less_eq_exec_ask_def)

theorem exec_modes_and_approvals_witness:
  "requiresExecApproval AskAlways SecAllowlist False False None"
  by (rule exec_modes_and_approvals [of ModeFull SecAllowlist AskOnMiss AskAlways False False False None, THEN conjunct2, THEN conjunct2, rule_format])
    (simp add: less_eq_exec_ask_def requiresExecApproval_def)

end
