(* ===== verification/ExecResolver.thy ===== *)
theory ExecResolver
  imports ExecPolicy
begin

text \<open>
  The persisted approvals file, its normalisation (\<open>src/infra/exec-approvals-config.ts\<close>), the effective policy of
  an agent (\<open>exec-approvals-resolver.ts\<close>) and the portable policy snapshot
  (\<open>exec-approval-policy-snapshot.ts\<close>).

  Level fields of the file are optional text, as persisted; \<open>agents\<close> is a map in insertion order. Fresh
  entry ids are drawn from the argument \<open>uuid\<close> (agent key, entry index). The socket block, the state
  directory and the token do not take part in policy and are not modelled.
\<close>

section \<open>The approvals file\<close>

datatype allow_source = SourceAllowAlways

record allow_entry =
  ae_id :: "string option"
  ae_pattern :: string
  ae_source :: "allow_source option"
  ae_commandText :: "string option"
  ae_argPattern :: "string option"
  ae_lastUsedAt :: "int option"
  ae_lastUsedCommand :: "string option"
  ae_lastResolvedPath :: "string option"

record approvals_defaults =
  ad_security :: "string option"
  ad_ask :: "string option"
  ad_askFallback :: "string option"
  ad_autoAllowSkills :: "bool option"

record approvals_agent = approvals_defaults +
  aa_allowlist :: "allow_entry list option"

record socket_config =
  so_path :: "string option"
  so_token :: "string option"

record approvals_file =
  fl_socket :: "socket_config option"
  fl_defaults :: "approvals_defaults option"
  fl_agents :: "(string \<times> approvals_agent) list option"

record resolved_defaults =
  rd_security :: exec_security
  rd_ask :: exec_ask
  rd_askFallback :: exec_security
  rd_autoAllowSkills :: bool

definition DEFAULT_SECURITY :: exec_security where "DEFAULT_SECURITY = SecFull"
definition DEFAULT_ASK :: exec_ask where "DEFAULT_ASK = AskOff"
definition DEFAULT_EXEC_APPROVAL_ASK_FALLBACK :: exec_security where "DEFAULT_EXEC_APPROVAL_ASK_FALLBACK = SecDeny"
definition DEFAULT_AUTO_ALLOW_SKILLS :: bool where "DEFAULT_AUTO_ALLOW_SKILLS = False"
definition DEFAULT_AGENT_ID :: string where "DEFAULT_AGENT_ID = ''main''"

section \<open>Normalisation\<close>

definition normalizeAllowlistPattern :: "string \<Rightarrow> string option" where
  "normalizeAllowlistPattern value = map_option js_lower (normalizeOptionalString value)"

definition nul :: char where "nul = CHR 0x00"

definition legacyEntryKey :: "allow_entry \<Rightarrow> string option" where
  "legacyEntryKey entry =
     map_option (\<lambda>k. k @ [nul] @ (case ae_argPattern entry of None \<Rightarrow> [] | Some a \<Rightarrow> js_trim a))
       (normalizeAllowlistPattern (ae_pattern entry))"

definition pushEntry :: "allow_entry \<Rightarrow> string list \<times> allow_entry list \<Rightarrow> string list \<times> allow_entry list" where
  "pushEntry entry acc =
     (case legacyEntryKey entry of
        None \<Rightarrow> acc
      | Some key \<Rightarrow> if key \<in> set (fst acc) then acc else (fst acc @ [key], snd acc @ [entry]))"

definition firstSome :: "'a option \<Rightarrow> 'a option \<Rightarrow> 'a option" where
  "firstSome a b = (case a of Some x \<Rightarrow> Some x | None \<Rightarrow> b)"

definition listOf :: "'a list option \<Rightarrow> 'a list" where
  "listOf xs = (case xs of None \<Rightarrow> [] | Some l \<Rightarrow> l)"

lemma listOf_simps [simp]: "listOf None = []" "listOf (Some l) = l"
  by (simp_all add: listOf_def)

definition mergeLegacyAgent :: "approvals_agent \<Rightarrow> approvals_agent \<Rightarrow> approvals_agent" where
  "mergeLegacyAgent current legacy =
     (let allowlist = snd (fold pushEntry (listOf (aa_allowlist current) @ listOf (aa_allowlist legacy)) ([], [])) in
      \<lparr>ad_security = firstSome (ad_security current) (ad_security legacy),
       ad_ask = firstSome (ad_ask current) (ad_ask legacy),
       ad_askFallback = firstSome (ad_askFallback current) (ad_askFallback legacy),
       ad_autoAllowSkills = firstSome (ad_autoAllowSkills current) (ad_autoAllowSkills legacy),
       aa_allowlist = (if allowlist = [] then None else Some allowlist)\<rparr>)"

text \<open>A persisted allowlist item: an entry, a legacy bare pattern, or anything else.\<close>

datatype allow_item = ItemEntry allow_entry | ItemText string | ItemOther

definition bareEntry :: "string \<Rightarrow> allow_entry" where
  "bareEntry p = \<lparr>ae_id = None, ae_pattern = p, ae_source = None, ae_commandText = None, ae_argPattern = None,
                  ae_lastUsedAt = None, ae_lastUsedCommand = None, ae_lastResolvedPath = None\<rparr>"

definition coerceItem :: "allow_item \<Rightarrow> allow_entry option" where
  "coerceItem item =
     (case item of
        ItemText s \<Rightarrow> (let t = js_trim s in if t = [] then None else Some (bareEntry t))
      | ItemEntry e \<Rightarrow> if length (js_trim (ae_pattern e)) > 0 then Some e else None
      | ItemOther \<Rightarrow> None)"

text \<open>An empty list stays; a list that only loses items becomes absent.\<close>

definition coerceAllowlistEntries :: "allow_item list option \<Rightarrow> allow_entry list option" where
  "coerceAllowlistEntries allowlist =
     (case allowlist of
        None \<Rightarrow> None
      | Some [] \<Rightarrow> Some []
      | Some items \<Rightarrow>
          let result = List.map_filter coerceItem items;
              changed = list_ex (\<lambda>i. case i of ItemEntry e \<Rightarrow> coerceItem i = None | _ \<Rightarrow> True) items in
          if changed \<and> result = [] then None else Some result)"

definition ensureEntryId :: "string \<Rightarrow> allow_entry \<Rightarrow> allow_entry" where
  "ensureEntryId fresh e =
     (case ae_id e of
        Some x \<Rightarrow> if x = [] then e\<lparr>ae_id := Some fresh\<rparr> else e
      | None \<Rightarrow> e\<lparr>ae_id := Some fresh\<rparr>)"

definition ensureAllowlistIds :: "(nat \<Rightarrow> string) \<Rightarrow> allow_entry list option \<Rightarrow> allow_entry list option" where
  "ensureAllowlistIds uuid allowlist =
     map_option (\<lambda>es. map (\<lambda>(i, e). ensureEntryId (uuid i) e) (enumerate 0 es)) allowlist"

definition stripAllowlistCommandText :: "allow_entry list option \<Rightarrow> allow_entry list option" where
  "stripAllowlistCommandText allowlist = map_option (map (\<lambda>e. e\<lparr>ae_commandText := None\<rparr>)) allowlist"

definition keepSecurityText :: "string option \<Rightarrow> string option" where
  "keepSecurityText v = (case v of None \<Rightarrow> None | Some s \<Rightarrow> if parseSecurity (js_trim s) \<noteq> None then Some (js_trim s) else None)"

definition keepAskText :: "string option \<Rightarrow> string option" where
  "keepAskText v = (case v of None \<Rightarrow> None | Some s \<Rightarrow> if parseAsk (js_trim s) \<noteq> None then Some (js_trim s) else None)"

definition sanitizeExecApprovalPolicy :: "approvals_defaults \<Rightarrow> approvals_defaults" where
  "sanitizeExecApprovalPolicy policy =
     \<lparr>ad_security = keepSecurityText (ad_security policy), ad_ask = keepAskText (ad_ask policy),
      ad_askFallback = keepSecurityText (ad_askFallback policy), ad_autoAllowSkills = ad_autoAllowSkills policy\<rparr>"

definition emptyDefaults :: approvals_defaults where
  "emptyDefaults = \<lparr>ad_security = None, ad_ask = None, ad_askFallback = None, ad_autoAllowSkills = None\<rparr>"

definition emptyAgent :: approvals_agent where
  "emptyAgent = \<lparr>ad_security = None, ad_ask = None, ad_askFallback = None, ad_autoAllowSkills = None, aa_allowlist = None\<rparr>"

definition normalizeAgent :: "(nat \<Rightarrow> string) \<Rightarrow> approvals_agent \<Rightarrow> approvals_agent" where
  "normalizeAgent uuid agent =
     (let p = sanitizeExecApprovalPolicy (approvals_defaults.truncate agent) in
      agent\<lparr>aa_allowlist := stripAllowlistCommandText (ensureAllowlistIds uuid
              (coerceAllowlistEntries (map_option (map ItemEntry) (aa_allowlist agent)))),
            ad_security := ad_security p, ad_ask := ad_ask p, ad_askFallback := ad_askFallback p\<rparr>)"

definition foldLegacyDefault :: "(string \<times> approvals_agent) list \<Rightarrow> (string \<times> approvals_agent) list" where
  "foldLegacyDefault agents =
     (case map_of agents ''default'' of
        None \<Rightarrow> agents
      | Some legacy \<Rightarrow>
          AList.delete ''default''
            (AList.update DEFAULT_AGENT_ID
               (case map_of agents DEFAULT_AGENT_ID of Some main \<Rightarrow> mergeLegacyAgent main legacy | None \<Rightarrow> legacy) agents))"

definition trimSocket :: "socket_config option \<Rightarrow> socket_config" where
  "trimSocket socket =
     (case socket of
        None \<Rightarrow> \<lparr>so_path = None, so_token = None\<rparr>
      | Some s \<Rightarrow> \<lparr>so_path = Option.bind (so_path s) normalizeOptionalString, so_token = Option.bind (so_token s) normalizeOptionalString\<rparr>)"

definition normalizeExecApprovalsInternal :: "(string \<Rightarrow> nat \<Rightarrow> string) \<Rightarrow> approvals_file \<Rightarrow> approvals_file" where
  "normalizeExecApprovalsInternal uuid file =
     \<lparr>fl_socket = Some (trimSocket (fl_socket file)),
      fl_defaults = Some (sanitizeExecApprovalPolicy (case fl_defaults file of Some d \<Rightarrow> d | None \<Rightarrow> emptyDefaults)),
      fl_agents = Some (map (\<lambda>(k, a). (k, normalizeAgent (uuid k) a)) (foldLegacyDefault (listOf (fl_agents file))))\<rparr>"

definition createFailClosedExecApprovalsFallback :: "(string \<Rightarrow> nat \<Rightarrow> string) \<Rightarrow> approvals_file" where
  "createFailClosedExecApprovalsFallback uuid =
     normalizeExecApprovalsInternal uuid
       \<lparr>fl_socket = None, fl_defaults = Some \<lparr>ad_security = Some ''deny'', ad_ask = Some ''off'', ad_askFallback = Some ''deny'',
                           ad_autoAllowSkills = Some False\<rparr>, fl_agents = Some []\<rparr>"

section \<open>The effective policy\<close>

record default_overrides =
  ov_security :: "exec_security option"
  ov_ask :: "exec_ask option"
  ov_askFallback :: "exec_security option"
  ov_autoAllowSkills :: "bool option"

definition noOverrides :: default_overrides where
  "noOverrides = \<lparr>ov_security = None, ov_ask = None, ov_askFallback = None, ov_autoAllowSkills = None\<rparr>"

definition normalizeSecurity :: "string option \<Rightarrow> exec_security \<Rightarrow> exec_security" where
  "normalizeSecurity value fallback = (case Option.bind value parseSecurity of Some s \<Rightarrow> s | None \<Rightarrow> fallback)"

definition normalizeAsk :: "string option \<Rightarrow> exec_ask \<Rightarrow> exec_ask" where
  "normalizeAsk value fallback = (case Option.bind value parseAsk of Some a \<Rightarrow> a | None \<Rightarrow> fallback)"

datatype policy_field = FieldSecurity | FieldAskFallback

fun fieldName :: "policy_field \<Rightarrow> string" where
  "fieldName FieldSecurity = ''security''"
| "fieldName FieldAskFallback = ''askFallback''"

fun securityFieldOf :: "policy_field \<Rightarrow> ('a approvals_defaults_scheme) \<Rightarrow> string option" where
  "securityFieldOf FieldSecurity d = ad_security d"
| "securityFieldOf FieldAskFallback d = ad_askFallback d"

text \<open>A resolved field: its value and where it comes from.\<close>

definition resolveDefaultSecurityField :: "policy_field \<Rightarrow> approvals_defaults \<Rightarrow> exec_security \<Rightarrow> exec_security \<times> string option" where
  "resolveDefaultSecurityField field defaults fallback =
     (case Option.bind (securityFieldOf field defaults) parseSecurity of
        Some s \<Rightarrow> (s, Some (''defaults.'' @ fieldName field))
      | None \<Rightarrow> (fallback, None))"

definition resolveDefaultAskField :: "approvals_defaults \<Rightarrow> exec_ask \<Rightarrow> exec_ask \<times> string option" where
  "resolveDefaultAskField defaults fallback =
     (case Option.bind (ad_ask defaults) parseAsk of
        Some a \<Rightarrow> (a, Some ''defaults.ask'')
      | None \<Rightarrow> (fallback, None))"

definition resolveAgentSecurityField :: "policy_field \<Rightarrow> approvals_defaults \<Rightarrow> approvals_agent \<Rightarrow> approvals_agent \<Rightarrow>
    approvals_agent \<Rightarrow> approvals_agent \<Rightarrow> string \<Rightarrow> exec_security \<Rightarrow> exec_security \<times> string option" where
  "resolveAgentSecurityField field defaults agent rawAgent wildcard rawWildcard agentKey fallback =
     (let fallbackField = resolveDefaultSecurityField field defaults fallback in
      if securityFieldOf field rawAgent \<noteq> None then
        (case Option.bind (securityFieldOf field agent) parseSecurity of
           Some s \<Rightarrow> (s, Some (''agents.'' @ agentKey @ ''.'' @ fieldName field))
         | None \<Rightarrow> fallbackField)
      else if securityFieldOf field rawWildcard \<noteq> None then
        (case Option.bind (securityFieldOf field wildcard) parseSecurity of
           Some s \<Rightarrow> (s, Some (''agents.*.'' @ fieldName field))
         | None \<Rightarrow> fallbackField)
      else fallbackField)"

definition resolveAgentAskField :: "approvals_defaults \<Rightarrow> approvals_agent \<Rightarrow> approvals_agent \<Rightarrow>
    approvals_agent \<Rightarrow> approvals_agent \<Rightarrow> string \<Rightarrow> exec_ask \<Rightarrow> exec_ask \<times> string option" where
  "resolveAgentAskField defaults agent rawAgent wildcard rawWildcard agentKey fallback =
     (let fallbackField = resolveDefaultAskField defaults fallback in
      if ad_ask rawAgent \<noteq> None then
        (case Option.bind (ad_ask agent) parseAsk of
           Some a \<Rightarrow> (a, Some (''agents.'' @ agentKey @ ''.ask''))
         | None \<Rightarrow> fallbackField)
      else if ad_ask rawWildcard \<noteq> None then
        (case Option.bind (ad_ask wildcard) parseAsk of
           Some a \<Rightarrow> (a, Some ''agents.*.ask'')
         | None \<Rightarrow> fallbackField)
      else fallbackField)"

record approvals_resolved =
  ar_defaults :: resolved_defaults
  ar_agent :: resolved_defaults
  ar_securitySource :: "string option"
  ar_askSource :: "string option"
  ar_askFallbackSource :: "string option"
  ar_allowlist :: "allow_entry list"
  ar_file :: approvals_file

definition agentOf :: "approvals_file \<Rightarrow> string \<Rightarrow> approvals_agent" where
  "agentOf file key = (case map_of (listOf (fl_agents file)) key of Some a \<Rightarrow> a | None \<Rightarrow> emptyAgent)"

definition orElse :: "'a option \<Rightarrow> 'a \<Rightarrow> 'a" where
  "orElse v d = (case v of Some x \<Rightarrow> x | None \<Rightarrow> d)"

definition resolveExecApprovalsFromFilePrepared :: "approvals_file \<Rightarrow> approvals_file \<Rightarrow> string option \<Rightarrow> default_overrides \<Rightarrow> approvals_resolved" where
  "resolveExecApprovalsFromFilePrepared rawFile file agentId overrides =
     (let defaults = (case fl_defaults file of Some d \<Rightarrow> d | None \<Rightarrow> emptyDefaults);
          agentKey = orElse agentId ''default'';
          agent = agentOf file agentKey; wildcard = agentOf file ''*'';
          rawAgent = agentOf rawFile agentKey; rawWildcard = agentOf rawFile ''*'';
          fallbackAskFallback = orElse (ov_askFallback overrides) DEFAULT_EXEC_APPROVAL_ASK_FALLBACK;
          rdef = \<lparr>rd_security = normalizeSecurity (ad_security defaults) (orElse (ov_security overrides) DEFAULT_SECURITY),
                  rd_ask = normalizeAsk (ad_ask defaults) (orElse (ov_ask overrides) DEFAULT_ASK),
                  rd_askFallback = normalizeSecurity (ad_askFallback defaults) fallbackAskFallback,
                  rd_autoAllowSkills = orElse (ad_autoAllowSkills defaults) (orElse (ov_autoAllowSkills overrides) DEFAULT_AUTO_ALLOW_SKILLS)\<rparr>;
          sec = resolveAgentSecurityField FieldSecurity defaults agent rawAgent wildcard rawWildcard agentKey (rd_security rdef);
          ask = resolveAgentAskField defaults agent rawAgent wildcard rawWildcard agentKey (rd_ask rdef);
          fb = resolveAgentSecurityField FieldAskFallback defaults agent rawAgent wildcard rawWildcard agentKey (rd_askFallback rdef) in
      \<lparr>ar_defaults = rdef,
       ar_agent = \<lparr>rd_security = fst sec, rd_ask = fst ask, rd_askFallback = fst fb,
                   rd_autoAllowSkills = orElse (ad_autoAllowSkills agent) (orElse (ad_autoAllowSkills wildcard) (rd_autoAllowSkills rdef))\<rparr>,
       ar_securitySource = snd sec, ar_askSource = snd ask, ar_askFallbackSource = snd fb,
       ar_allowlist = listOf (aa_allowlist wildcard) @ listOf (aa_allowlist agent),
       ar_file = file\<rparr>)"

definition resolveExecApprovalsFromFileInternal :: "(string \<Rightarrow> nat \<Rightarrow> string) \<Rightarrow> approvals_file \<Rightarrow> string option \<Rightarrow> default_overrides \<Rightarrow> approvals_resolved" where
  "resolveExecApprovalsFromFileInternal uuid file agentId overrides =
     resolveExecApprovalsFromFilePrepared file (normalizeExecApprovalsInternal uuid file) agentId overrides"

section \<open>Normal form\<close>

lemma keepSecurityText_cases:
  "keepSecurityText v = None \<or> (\<exists>s sec. keepSecurityText v = Some s \<and> parseSecurity s = Some sec \<and> js_trim s = s)"
  by (auto simp: keepSecurityText_def split: option.split)

lemma keepAskText_cases:
  "keepAskText v = None \<or> (\<exists>s a. keepAskText v = Some s \<and> parseAsk s = Some a \<and> js_trim s = s)"
  by (auto simp: keepAskText_def split: option.split)

lemma keepSecurityText_idem [simp]: "keepSecurityText (keepSecurityText v) = keepSecurityText v"
  by (auto simp: keepSecurityText_def split: option.split)

lemma keepAskText_idem [simp]: "keepAskText (keepAskText v) = keepAskText v"
  by (auto simp: keepAskText_def split: option.split)

text \<open>An entry in normal form has a pattern that is not blank, an id and no command text.\<close>

definition entry_normal :: "allow_entry \<Rightarrow> bool" where
  "entry_normal e \<longleftrightarrow> js_trim (ae_pattern e) \<noteq> [] \<and> (\<exists>i. ae_id e = Some i \<and> i \<noteq> []) \<and> ae_commandText e = None"

definition agent_normal :: "approvals_agent \<Rightarrow> bool" where
  "agent_normal a \<longleftrightarrow>
     list_all entry_normal (listOf (aa_allowlist a)) \<and> keepSecurityText (ad_security a) = ad_security a \<and>
     keepAskText (ad_ask a) = ad_ask a \<and> keepSecurityText (ad_askFallback a) = ad_askFallback a"

lemma coerce_set:
  "coerceAllowlistEntries (map_option (map ItemEntry) al) = Some es \<Longrightarrow> e \<in> set es \<Longrightarrow> js_trim (ae_pattern e) \<noteq> []"
  by (auto simp: coerceAllowlistEntries_def coerceItem_def map_filter_def split: option.splits list.splits if_splits)

lemma normalizeAgent_normal:
  assumes "\<And>i. uuid i \<noteq> []"
  shows "agent_normal (normalizeAgent uuid a)"
proof -
  have "entry_normal e" if e: "e \<in> set (listOf (aa_allowlist (normalizeAgent uuid a)))" for e
  proof -
    let ?c = "coerceAllowlistEntries (map_option (map ItemEntry) (aa_allowlist a))"
    obtain es where es: "?c = Some es"
      using e by (cases ?c) (auto simp: normalizeAgent_def Let_def ensureAllowlistIds_def stripAllowlistCommandText_def)
    with e have "e \<in> (\<lambda>e. e\<lparr>ae_commandText := None\<rparr>) ` set (map (\<lambda>(i, e). ensureEntryId (uuid i) e) (enumerate 0 es))"
      by (simp add: normalizeAgent_def Let_def ensureAllowlistIds_def stripAllowlistCommandText_def image_image)
    then obtain i where i: "i < length es" "e = (ensureEntryId (uuid i) (es ! i))\<lparr>ae_commandText := None\<rparr>"
      by (auto simp: in_set_enumerate_eq)
    then have "es ! i \<in> set es" by simp
    with coerce_set [OF es] assms i(2) show ?thesis by (auto simp: entry_normal_def ensureEntryId_def split: option.splits)
  qed
  then show ?thesis
    by (simp add: agent_normal_def list_all_iff normalizeAgent_def Let_def sanitizeExecApprovalPolicy_def
        approvals_defaults.truncate_def)
qed

lemma normalizeAgent_id:
  assumes "agent_normal a"
  shows "normalizeAgent uuid a = a"
proof -
  have m: "List.map_filter coerceItem (map ItemEntry es) = es" if "\<forall>e \<in> set es. entry_normal e" for es
    using that by (induction es) (auto simp: coerceItem_def entry_normal_def map_filter_simps)
  have k: "ensureAllowlistIds uuid (Some es) = Some es \<and> stripAllowlistCommandText (Some es) = Some es"
    if "\<forall>e \<in> set es. entry_normal e" for es
  proof -
    have "map (\<lambda>(i, e). ensureEntryId (uuid i) e) (enumerate n es) = es" for n
      using that by (induction es arbitrary: n) (auto simp: entry_normal_def ensureEntryId_def)
    moreover have "map (\<lambda>e. e\<lparr>ae_commandText := None\<rparr>) es = es"
      using that by (induction es) (auto simp: entry_normal_def)
    ultimately show ?thesis by (simp add: ensureAllowlistIds_def stripAllowlistCommandText_def)
  qed
  have al: "stripAllowlistCommandText (ensureAllowlistIds uuid (coerceAllowlistEntries (map_option (map ItemEntry) (aa_allowlist a)))) = aa_allowlist a"
  proof (cases "aa_allowlist a")
    case None
    then show ?thesis by (simp add: coerceAllowlistEntries_def ensureAllowlistIds_def stripAllowlistCommandText_def)
  next
    case (Some es)
    have n: "\<forall>e \<in> set es. entry_normal e" using assms Some by (simp add: agent_normal_def list_all_iff)
    have "coerceAllowlistEntries (Some (map ItemEntry es)) = Some es"
    proof (cases es)
      case (Cons x xs)
      then show ?thesis using m [OF n] by (simp add: coerceAllowlistEntries_def Let_def)
    qed (simp add: coerceAllowlistEntries_def)
    with k [OF n] Some show ?thesis by simp
  qed
  show ?thesis
    using assms unfolding normalizeAgent_def Let_def al
    by (cases a) (simp add: agent_normal_def sanitizeExecApprovalPolicy_def approvals_defaults.truncate_def)
qed

definition file_normal :: "approvals_file \<Rightarrow> bool" where
  "file_normal f \<longleftrightarrow>
     (\<exists>s d as. f = \<lparr>fl_socket = Some s, fl_defaults = Some d, fl_agents = Some as\<rparr> \<and> trimSocket (Some s) = s \<and> sanitizeExecApprovalPolicy d = d \<and>
        map_of as ''default'' = None \<and> (\<forall>(k, a) \<in> set as. agent_normal a))"

lemma sanitize_idem [simp]: "sanitizeExecApprovalPolicy (sanitizeExecApprovalPolicy d) = sanitizeExecApprovalPolicy d"
  by (simp add: sanitizeExecApprovalPolicy_def)

lemma trimSocket_idem [simp]: "trimSocket (Some (trimSocket s)) = trimSocket s"
proof -
  have "Option.bind (Option.bind v normalizeOptionalString) normalizeOptionalString = Option.bind v normalizeOptionalString" for v
    by (cases v) (auto simp: normalizeOptionalString_def Let_def)
  then show ?thesis by (simp add: trimSocket_def split: option.split)
qed

lemma foldLegacyDefault_None: "map_of (foldLegacyDefault as) ''default'' = None"
  by (auto simp: foldLegacyDefault_def split: option.split)

lemma map_of_map_snd: "map_of (map (\<lambda>(k, a). (k, f k a)) as) k = map_option (f k) (map_of as k)"
  by (induction as) auto

lemma normalize_file_normal:
  assumes "\<And>k i. uuid k i \<noteq> []"
  shows "file_normal (normalizeExecApprovalsInternal uuid f)"
  unfolding file_normal_def normalizeExecApprovalsInternal_def
  using normalizeAgent_normal [OF assms] foldLegacyDefault_None [of "listOf (fl_agents f)"]
  by (auto simp: map_of_map_snd)

lemma normalize_normal_id:
  assumes "file_normal f"
  shows "normalizeExecApprovalsInternal uuid f = f"
proof -
  obtain s d as where f: "f = \<lparr>fl_socket = Some s, fl_defaults = Some d, fl_agents = Some as\<rparr>" "sanitizeExecApprovalPolicy d = d"
    "map_of as ''default'' = None" "\<forall>(k, a) \<in> set as. agent_normal a" "trimSocket (Some s) = s"
    using assms by (auto simp: file_normal_def)
  have "map (\<lambda>(k, a). (k, normalizeAgent (uuid k) a)) as = as"
    using f(4) by (intro map_idI) (auto simp: normalizeAgent_id)
  with f show ?thesis by (simp add: normalizeExecApprovalsInternal_def foldLegacyDefault_def)
qed

text \<open>
  Normalising an approvals file is idempotent, whichever fresh ids either pass would draw: the
  second pass finds every level trimmed and valid, the legacy \<open>default\<close> agent folded into \<open>main\<close>, every
  allowlist entry with a pattern and an id and without command text.
\<close>

theorem normalization_idempotent:
  assumes "\<And>k i. uuid k i \<noteq> []"
  shows "normalizeExecApprovalsInternal uuid' (normalizeExecApprovalsInternal uuid f) = normalizeExecApprovalsInternal uuid f"
  by (rule normalize_normal_id) (rule normalize_file_normal, rule assms)

section \<open>Precedence\<close>

lemma agentOf_normal: "file_normal f \<Longrightarrow> agent_normal (agentOf f k)"
proof -
  assume "file_normal f"
  then obtain s d as where f: "f = \<lparr>fl_socket = Some s, fl_defaults = Some d, fl_agents = Some as\<rparr>" "\<forall>(k, a) \<in> set as. agent_normal a"
    by (auto simp: file_normal_def)
  have "agent_normal emptyAgent"
    by (simp add: agent_normal_def emptyAgent_def keepSecurityText_def keepAskText_def)
  moreover have "agent_normal a" if "map_of as k = Some a" for a
    using f(2) map_of_SomeD [OF that] by blast
  ultimately show ?thesis by (auto simp: agentOf_def f(1) split: option.split)
qed

lemma parse_kept_security: "keepSecurityText v = v \<Longrightarrow> v \<noteq> None \<Longrightarrow> Option.bind v parseSecurity \<noteq> None"
  using keepSecurityText_cases [of v] by auto

lemma parse_kept_ask: "keepAskText v = v \<Longrightarrow> v \<noteq> None \<Longrightarrow> Option.bind v parseAsk \<noteq> None"
  using keepAskText_cases [of v] by auto

definition fileDefaults :: "approvals_file \<Rightarrow> approvals_defaults" where
  "fileDefaults f = (case fl_defaults f of Some d \<Rightarrow> d | None \<Rightarrow> emptyDefaults)"

fun firstValid :: "'a option list \<Rightarrow> 'a \<Rightarrow> 'a" where
  "firstValid [] d = d"
| "firstValid (v # vs) d = (case v of Some x \<Rightarrow> x | None \<Rightarrow> firstValid vs d)"

text \<open>
  For a normalised file the effective policy of an agent takes each level from the agent, else from
  the wildcard agent, else from the file's defaults, else from the runtime overrides, else from the
  built-in default (full, off, deny), and its allowlist is the wildcard's followed by the agent's.
\<close>

theorem effective_policy_precedence:
  assumes "\<And>k i. uuid k i \<noteq> []"
    and "f = normalizeExecApprovalsInternal uuid raw"
    and "r = resolveExecApprovalsFromFileInternal uuid' f (Some key) ov"
  shows "rd_security (ar_agent r) =
           firstValid [Option.bind (ad_security (agentOf f key)) parseSecurity, Option.bind (ad_security (agentOf f ''*'')) parseSecurity,
                       Option.bind (ad_security (fileDefaults f)) parseSecurity, ov_security ov] SecFull \<and>
         rd_ask (ar_agent r) =
           firstValid [Option.bind (ad_ask (agentOf f key)) parseAsk, Option.bind (ad_ask (agentOf f ''*'')) parseAsk,
                       Option.bind (ad_ask (fileDefaults f)) parseAsk, ov_ask ov] AskOff \<and>
         rd_askFallback (ar_agent r) =
           firstValid [Option.bind (ad_askFallback (agentOf f key)) parseSecurity, Option.bind (ad_askFallback (agentOf f ''*'')) parseSecurity,
                       Option.bind (ad_askFallback (fileDefaults f)) parseSecurity, ov_askFallback ov] SecDeny \<and>
         ar_allowlist r = listOf (aa_allowlist (agentOf f ''*'')) @ listOf (aa_allowlist (agentOf f key))"
proof -
  have n: "file_normal f" unfolding assms(2) by (rule normalize_file_normal) (rule assms(1))
  have r: "r = resolveExecApprovalsFromFilePrepared f f (Some key) ov"
    unfolding assms(3) resolveExecApprovalsFromFileInternal_def normalize_normal_id [OF n] ..
  note k = agentOf_normal [OF n, of key] agentOf_normal [OF n, of "''*''"]
  have sec: "Option.bind (ad_security (agentOf f key')) parseSecurity = None \<longleftrightarrow> ad_security (agentOf f key') = None"
    "Option.bind (ad_askFallback (agentOf f key')) parseSecurity = None \<longleftrightarrow> ad_askFallback (agentOf f key') = None"
    "Option.bind (ad_ask (agentOf f key')) parseAsk = None \<longleftrightarrow> ad_ask (agentOf f key') = None" for key'
    using agentOf_normal [OF n, of key'] parse_kept_security parse_kept_ask unfolding agent_normal_def by (metis bind.bind_lzero)+
  note defs = resolveExecApprovalsFromFilePrepared_def resolveAgentSecurityField_def resolveAgentAskField_def
    resolveDefaultSecurityField_def resolveDefaultAskField_def normalizeSecurity_def normalizeAsk_def orElse_def fileDefaults_def
    DEFAULT_SECURITY_def DEFAULT_ASK_def DEFAULT_EXEC_APPROVAL_ASK_FALLBACK_def
  have "rd_security (ar_agent r) =
           firstValid [Option.bind (ad_security (agentOf f key)) parseSecurity, Option.bind (ad_security (agentOf f ''*'')) parseSecurity,
                       Option.bind (ad_security (fileDefaults f)) parseSecurity, ov_security ov] SecFull"
    using sec(1) [of key] sec(1) [of "''*''"] unfolding r by (auto simp: defs Let_def split: option.splits)
  moreover have "rd_ask (ar_agent r) =
           firstValid [Option.bind (ad_ask (agentOf f key)) parseAsk, Option.bind (ad_ask (agentOf f ''*'')) parseAsk,
                       Option.bind (ad_ask (fileDefaults f)) parseAsk, ov_ask ov] AskOff"
    using sec(3) [of key] sec(3) [of "''*''"] unfolding r by (auto simp: defs Let_def split: option.splits)
  moreover have "rd_askFallback (ar_agent r) =
           firstValid [Option.bind (ad_askFallback (agentOf f key)) parseSecurity, Option.bind (ad_askFallback (agentOf f ''*'')) parseSecurity,
                       Option.bind (ad_askFallback (fileDefaults f)) parseSecurity, ov_askFallback ov] SecDeny"
    using sec(2) [of key] sec(2) [of "''*''"] unfolding r by (auto simp: defs Let_def split: option.splits)
  moreover have "ar_allowlist r = listOf (aa_allowlist (agentOf f ''*'')) @ listOf (aa_allowlist (agentOf f key))"
    unfolding r by (simp add: defs Let_def)
  ultimately show ?thesis by blast
qed

text \<open>
  The fail-closed fallback used when the persisted policy cannot be read denies every agent, under
  every runtime override: security and the ask fallback are \<open>deny\<close>, skills are not allowed and no
  allowlist entry exists.
\<close>

theorem fallback_denies_everyone:
  "(let r = resolveExecApprovalsFromFileInternal uuid' (createFailClosedExecApprovalsFallback uuid) agentId ov in
    rd_security (ar_agent r) = SecDeny \<and> rd_askFallback (ar_agent r) = SecDeny \<and>
    \<not> rd_autoAllowSkills (ar_agent r) \<and> ar_allowlist r = [])"
proof -
  have p: "parseSecurity ''deny'' = Some SecDeny" "js_trim ''deny'' = ''deny''" "js_trim ''off'' = ''off''" "parseAsk ''off'' = Some AskOff"
    by code_simp+
  let ?f = "createFailClosedExecApprovalsFallback uuid"
  have f: "?f = \<lparr>fl_socket = Some \<lparr>so_path = None, so_token = None\<rparr>, fl_defaults = Some \<lparr>ad_security = Some ''deny'', ad_ask = Some ''off'', ad_askFallback = Some ''deny'',
      ad_autoAllowSkills = Some False\<rparr>, fl_agents = Some []\<rparr>"
    by (simp add: createFailClosedExecApprovalsFallback_def normalizeExecApprovalsInternal_def foldLegacyDefault_def
        sanitizeExecApprovalPolicy_def keepSecurityText_def keepAskText_def trimSocket_def p)
  have "normalizeExecApprovalsInternal uuid' ?f = ?f"
    unfolding f
    by (simp add: normalizeExecApprovalsInternal_def foldLegacyDefault_def
        sanitizeExecApprovalPolicy_def keepSecurityText_def keepAskText_def trimSocket_def p)
  then show ?thesis
    unfolding f
    by (simp add: resolveExecApprovalsFromFileInternal_def resolveExecApprovalsFromFilePrepared_def
      Let_def agentOf_def emptyAgent_def resolveAgentSecurityField_def resolveDefaultSecurityField_def orElse_def
      normalizeSecurity_def p)
qed

section \<open>Examples\<close>

definition demoUuid :: "string \<Rightarrow> nat \<Rightarrow> string" where
  "demoUuid k i = k @ ''-'' @ string_of_nat i"

definition demoAgent :: "string option \<Rightarrow> allow_entry list option \<Rightarrow> approvals_agent" where
  "demoAgent sec al = \<lparr>ad_security = sec, ad_ask = None, ad_askFallback = None, ad_autoAllowSkills = None, aa_allowlist = al\<rparr>"

definition demoRaw :: approvals_file where
  "demoRaw = \<lparr>fl_socket = None, fl_defaults = None,
     fl_agents = Some [(''*'', demoAgent (Some '' allowlist '') (Some [bareEntry ''ls'', bareEntry '' ''])), (''dev'', demoAgent (Some ''bogus'') None)]\<rparr>"

lemma demoUuid_nonempty: "demoUuid k i \<noteq> []"
  by (simp add: demoUuid_def)

theorem normalization_idempotent_witness:
  "normalizeExecApprovalsInternal (\<lambda>_ _. ''x'') (normalizeExecApprovalsInternal demoUuid demoRaw) = normalizeExecApprovalsInternal demoUuid demoRaw"
  by (rule normalization_idempotent) (rule demoUuid_nonempty)

theorem effective_policy_precedence_witness:
  "rd_security (ar_agent (resolveExecApprovalsFromFileInternal demoUuid (normalizeExecApprovalsInternal demoUuid demoRaw) (Some ''dev'') noOverrides)) = SecAllowlist"
proof -
  let ?f = "normalizeExecApprovalsInternal demoUuid demoRaw"
  have "rd_security (ar_agent (resolveExecApprovalsFromFileInternal demoUuid ?f (Some ''dev'') noOverrides)) =
      firstValid [Option.bind (ad_security (agentOf ?f ''dev'')) parseSecurity, Option.bind (ad_security (agentOf ?f ''*'')) parseSecurity,
                       Option.bind (ad_security (fileDefaults ?f)) parseSecurity, ov_security noOverrides] SecFull"
    by (rule effective_policy_precedence [OF demoUuid_nonempty refl refl, THEN conjunct1])
  moreover have "firstValid [Option.bind (ad_security (agentOf ?f ''dev'')) parseSecurity, Option.bind (ad_security (agentOf ?f ''*'')) parseSecurity,
                       Option.bind (ad_security (fileDefaults ?f)) parseSecurity, ov_security noOverrides] SecFull = SecAllowlist"
    by code_simp
  ultimately show ?thesis by simp
qed

text \<open>
  For a file that still carries the legacy \<open>default\<close> agent, normalisation moves its policy to \<open>main\<close>,
  but resolution asks the unmerged file whether \<open>main\<close> sets the level: the moved \<open>deny\<close> is not applied.
\<close>

definition demoLegacy :: approvals_file where
  "demoLegacy = \<lparr>fl_socket = None, fl_defaults = None, fl_agents = Some [(''default'', demoAgent (Some ''deny'') None)]\<rparr>"

lemma legacy_default_policy_not_applied:
  "ad_security (agentOf (normalizeExecApprovalsInternal demoUuid demoLegacy) ''main'') = Some ''deny'' \<and>
   rd_security (ar_agent (resolveExecApprovalsFromFileInternal demoUuid demoLegacy (Some ''main'') noOverrides)) = SecFull"
proof
  show "ad_security (agentOf (normalizeExecApprovalsInternal demoUuid demoLegacy) ''main'') = Some ''deny''" by code_simp
  show "rd_security (ar_agent (resolveExecApprovalsFromFileInternal demoUuid demoLegacy (Some ''main'') noOverrides)) = SecFull" by code_simp
qed

end
