(* ===== verification/ExecAuthorization.thy ===== *)
theory ExecAuthorization
  imports ExecResolver
begin

text \<open>
  Delayed exec authority: the portable policy snapshot (\<open>src/infra/exec-approval-policy-snapshot.ts\<close>), durable
  grants and their persistence (\<open>exec-approvals-allow-always.ts\<close>), and the revalidation that commits an
  authorisation against the policy of the moment (\<open>exec-approvals-authorization.ts\<close>).

  \<open>sha\<close> is the 16-digit SHA-256 prefix of the command digest, \<open>now\<close> the clock and \<open>uuid\<close> a fresh id. A JSON
  tuple used as a map key is the tuple. The store's update transaction is a function from the file to an
  error, to no change (\<open>None\<close>) or to the next file.
\<close>

section \<open>Policy rules and their canonical order\<close>

record policy_rule =
  pr_pattern :: string
  pr_argPattern :: "string option"
  pr_source :: "allow_source option"

record policy_snapshot =
  ps_security :: exec_security
  ps_ask :: exec_ask
  ps_askFallback :: exec_security
  ps_autoAllowSkills :: bool
  ps_allowlistRules :: "policy_rule list"

definition compareUtf8 :: "string \<Rightarrow> string \<Rightarrow> int" where
  "compareUtf8 left right = compareBytes (utf8Bytes left) (utf8Bytes right)"

fun compareOptionalUtf8 :: "string option \<Rightarrow> string option \<Rightarrow> int" where
  "compareOptionalUtf8 None None = 0"
| "compareOptionalUtf8 None (Some _) = -1"
| "compareOptionalUtf8 (Some _) None = 1"
| "compareOptionalUtf8 (Some l) (Some r) = compareUtf8 l r"

fun sourceText :: "allow_source \<Rightarrow> string" where
  "sourceText SourceAllowAlways = ''allow-always''"

definition compareExecApprovalPolicyRules :: "policy_rule \<Rightarrow> policy_rule \<Rightarrow> int" where
  "compareExecApprovalPolicyRules left right =
     cmp_then (compareUtf8 (pr_pattern left) (pr_pattern right))
       (cmp_then (compareOptionalUtf8 (pr_argPattern left) (pr_argPattern right))
                 (compareOptionalUtf8 (map_option sourceText (pr_source left)) (map_option sourceText (pr_source right))))"

type_synonym rule_key = "string \<times> string option \<times> allow_source option"

definition buildExecApprovalPolicyRuleKey :: "policy_rule \<Rightarrow> rule_key" where
  "buildExecApprovalPolicyRuleKey r = (pr_pattern r, pr_argPattern r, pr_source r)"

definition uniqueByKey :: "('a \<Rightarrow> 'k) \<Rightarrow> 'a list \<Rightarrow> 'a list" where
  "uniqueByKey key xs = map snd (fold (\<lambda>x m. AList.update (key x) x m) xs [])"

definition canonicalizeExecApprovalPolicyRules :: "policy_rule list \<Rightarrow> policy_rule list" where
  "canonicalizeExecApprovalPolicyRules rules =
     sort_by compareExecApprovalPolicyRules (uniqueByKey buildExecApprovalPolicyRuleKey rules)"

definition jsField :: "(string \<times> json) list \<Rightarrow> string \<Rightarrow> json" where
  "jsField obj k = (case map_of obj k of Some v \<Rightarrow> v | None \<Rightarrow> JsUndefined)"

fun jsText :: "json \<Rightarrow> string option" where
  "jsText (JsStr s) = Some s"
| "jsText _ = None"

definition readRule :: "json \<Rightarrow> policy_rule option" where
  "readRule raw =
     (case raw of
        JsObj obj \<Rightarrow>
          (case jsText (jsField obj ''pattern'') of
             None \<Rightarrow> None
           | Some p \<Rightarrow>
               if jsField obj ''argPattern'' \<noteq> JsUndefined \<and> jsText (jsField obj ''argPattern'') = None then None
               else if jsField obj ''source'' \<noteq> JsUndefined \<and> jsField obj ''source'' \<noteq> JsStr ''allow-always'' then None
               else Some \<lparr>pr_pattern = p, pr_argPattern = jsText (jsField obj ''argPattern''),
                          pr_source = (if jsField obj ''source'' = JsStr ''allow-always'' then Some SourceAllowAlways else None)\<rparr>)
      | _ \<Rightarrow> None)"

fun readRules :: "json list \<Rightarrow> policy_rule list option" where
  "readRules [] = Some []"
| "readRules (raw # raws) =
     (case readRule raw of
        None \<Rightarrow> None
      | Some r \<Rightarrow> (case readRules raws of None \<Rightarrow> None | Some rs \<Rightarrow> Some (r # rs)))"

text \<open>\<open>None\<close> for \<open>undefined\<close>, \<open>Some None\<close> for \<open>null\<close> (not a snapshot).\<close>

definition normalizeExecApprovalPolicySnapshot :: "json \<Rightarrow> policy_snapshot option option" where
  "normalizeExecApprovalPolicySnapshot v =
     (case v of
        JsUndefined \<Rightarrow> None
      | JsObj obj \<Rightarrow>
          Some (case (Option.bind (jsText (jsField obj ''security'')) parseSecurity, Option.bind (jsText (jsField obj ''ask'')) parseAsk,
                      Option.bind (jsText (jsField obj ''askFallback'')) parseSecurity, jsField obj ''autoAllowSkills'', jsField obj ''allowlistRules'') of
                  (Some sec, Some ask, Some fb, JsBool skills, JsArr raws) \<Rightarrow>
                    (case readRules raws of
                       None \<Rightarrow> None
                     | Some rules \<Rightarrow>
                         Some \<lparr>ps_security = sec, ps_ask = ask, ps_askFallback = fb, ps_autoAllowSkills = skills,
                               ps_allowlistRules = canonicalizeExecApprovalPolicyRules rules\<rparr>)
                | _ \<Rightarrow> None)
      | _ \<Rightarrow> Some None)"

section \<open>Durable grants\<close>

definition buildDurableCommandApprovalPattern :: "(string \<Rightarrow> string) \<Rightarrow> string \<Rightarrow> string" where
  "buildDurableCommandApprovalPattern sha commandText = ''=command:'' @ sha commandText"

definition buildNodeCommandApprovalPattern :: "(string \<Rightarrow> string) \<Rightarrow> string \<Rightarrow> string" where
  "buildNodeCommandApprovalPattern sha commandText = ''=node-command:'' @ sha commandText"

definition hasNodeCommandAllowAlwaysMarker :: "(string \<Rightarrow> string) \<Rightarrow> allow_entry list \<Rightarrow> string option \<Rightarrow> bool" where
  "hasNodeCommandAllowAlwaysMarker sha allowlist commandText =
     (case Option.bind commandText normalizeOptionalString of
        None \<Rightarrow> False
      | Some c \<Rightarrow> list_ex (\<lambda>e. ae_source e = Some SourceAllowAlways \<and> ae_pattern e = buildNodeCommandApprovalPattern sha c) allowlist)"

definition hasExactCommandDurableExecApproval :: "(string \<Rightarrow> string) \<Rightarrow> allow_entry list \<Rightarrow> string option \<Rightarrow> bool" where
  "hasExactCommandDurableExecApproval sha allowlist commandText =
     (case Option.bind commandText normalizeOptionalString of
        None \<Rightarrow> False
      | Some c \<Rightarrow>
          list_ex (\<lambda>e. ae_source e = Some SourceAllowAlways \<and>
             (ae_pattern e = buildDurableCommandApprovalPattern sha c \<or> map_option js_trim (ae_commandText e) = Some c)) allowlist)"

definition hasSegmentDurableExecApproval :: "bool \<Rightarrow> allow_entry option list \<Rightarrow> bool" where
  "hasSegmentDurableExecApproval analysisOk entries \<longleftrightarrow>
     analysisOk \<and> length entries > 0 \<and>
     list_all (\<lambda>e. case e of Some x \<Rightarrow> ae_source x = Some SourceAllowAlways | None \<Rightarrow> False) entries"

definition hasDurableExecApproval :: "(string \<Rightarrow> string) \<Rightarrow> bool \<Rightarrow> allow_entry option list \<Rightarrow> allow_entry list \<Rightarrow> string option \<Rightarrow> bool" where
  "hasDurableExecApproval sha analysisOk segmentEntries allowlist commandText \<longleftrightarrow>
     hasExactCommandDurableExecApproval sha allowlist commandText \<or> hasSegmentDurableExecApproval analysisOk segmentEntries"

datatype durable_requirement = ExactCommandGrant | SegmentAllowlistGrant

definition resolveDurableExecApprovalRequirement :: "(string \<Rightarrow> string) \<Rightarrow> bool \<Rightarrow> allow_entry list \<Rightarrow> string option \<Rightarrow> durable_requirement option" where
  "resolveDurableExecApprovalRequirement sha durableApprovalRequired allowlist commandText =
     (if \<not> durableApprovalRequired then None
      else if hasExactCommandDurableExecApproval sha allowlist commandText then Some ExactCommandGrant
      else Some SegmentAllowlistGrant)"

definition buildAllowlistEntryMatchKey :: "allow_entry \<Rightarrow> string \<times> string option" where
  "buildAllowlistEntryMatchKey e = (ae_pattern e, ae_argPattern e)"

definition buildAllowAlwaysUpgradeRuleKey :: "policy_rule \<Rightarrow> rule_key option" where
  "buildAllowAlwaysUpgradeRuleKey r =
     (if pr_source r \<noteq> None then None else Some (buildExecApprovalPolicyRuleKey (r\<lparr>pr_source := Some SourceAllowAlways\<rparr>)))"

definition ruleOfEntry :: "allow_entry \<Rightarrow> policy_rule" where
  "ruleOfEntry e = \<lparr>pr_pattern = ae_pattern e, pr_argPattern = ae_argPattern e, pr_source = ae_source e\<rparr>"

definition createExecApprovalPolicySnapshot :: "(string \<Rightarrow> nat \<Rightarrow> string) \<Rightarrow> approvals_file \<Rightarrow> string option \<Rightarrow> policy_snapshot" where
  "createExecApprovalPolicySnapshot uuid file agentId =
     (let r = resolveExecApprovalsFromFileInternal uuid file agentId noOverrides in
      \<lparr>ps_security = rd_security (ar_agent r), ps_ask = rd_ask (ar_agent r), ps_askFallback = rd_askFallback (ar_agent r),
       ps_autoAllowSkills = rd_autoAllowSkills (ar_agent r),
       ps_allowlistRules = canonicalizeExecApprovalPolicyRules
         (uniqueByKey buildExecApprovalPolicyRuleKey (map ruleOfEntry (ar_allowlist r)))\<rparr>)"

definition isExecApprovalPolicySnapshotCurrent :: "policy_snapshot \<Rightarrow> policy_snapshot \<Rightarrow> bool" where
  "isExecApprovalPolicySnapshotCurrent expected current \<longleftrightarrow>
     (let currentRuleKeys = map buildExecApprovalPolicyRuleKey (ps_allowlistRules current) in
      ps_security expected = ps_security current \<and> ps_ask expected = ps_ask current \<and>
      ps_askFallback expected = ps_askFallback current \<and> ps_autoAllowSkills expected = ps_autoAllowSkills current \<and>
      list_all (\<lambda>rule. buildExecApprovalPolicyRuleKey rule \<in> set currentRuleKeys \<or>
                  (case buildAllowAlwaysUpgradeRuleKey rule of None \<Rightarrow> False | Some k \<Rightarrow> k \<in> set currentRuleKeys))
        (ps_allowlistRules expected))"

section \<open>Persisting a grant\<close>

definition blankToNone :: "string option \<Rightarrow> string option" where
  "blankToNone v = (if v = Some [] then None else v)"

definition setAgentAllowlist :: "string \<Rightarrow> allow_entry list \<Rightarrow> approvals_file \<Rightarrow> approvals_file" where
  "setAgentAllowlist target al file =
     file\<lparr>fl_agents := Some (AList.update target ((agentOf file target)\<lparr>aa_allowlist := Some al\<rparr>) (listOf (fl_agents file)))\<rparr>"

definition applyAllowlistEntryUpdate :: "int \<Rightarrow> string \<Rightarrow> approvals_file \<Rightarrow> string option \<Rightarrow> string \<Rightarrow> string option \<Rightarrow> allow_source option \<Rightarrow> exec_error + approvals_file option" where
  "applyAllowlistEntryUpdate now uuid file agentId pattern optArgPattern optSource =
     (case blankToNone agentId of
        None \<Rightarrow> Inl AgentIdRequired
      | Some target \<Rightarrow>
          let allowlist = listOf (aa_allowlist (agentOf file target)); trimmed = js_trim pattern in
          if trimmed = [] then Inr None
          else
            let argPattern = blankToNone optArgPattern;
                same = (\<lambda>e. ae_pattern e = trimmed \<and> ae_argPattern e = argPattern) in
            case find same allowlist of
              Some e \<Rightarrow>
                if optSource = None \<or> ae_source e = optSource then Inr None
                else Inr (Some (setAgentAllowlist target
                       (map (\<lambda>e. if same e then e\<lparr>ae_argPattern := argPattern, ae_source := firstSome optSource (ae_source e),
                                                   ae_lastUsedAt := Some now\<rparr> else e) allowlist) file))
            | None \<Rightarrow>
                Inr (Some (setAgentAllowlist target
                  (allowlist @ [\<lparr>ae_id = Some uuid, ae_pattern = trimmed, ae_source = optSource, ae_commandText = None,
                                 ae_argPattern = argPattern, ae_lastUsedAt = Some now, ae_lastUsedCommand = None,
                                 ae_lastResolvedPath = None\<rparr>]) file)))"

definition CWD_BOUND_HASHED_ARG_PATTERN_PREFIX :: string where
  "CWD_BOUND_HASHED_ARG_PATTERN_PREFIX = ''sha256:cwd-argv:v1:''"

definition LEGACY_HASHED_ARG_PATTERN_PREFIX :: string where
  "LEGACY_HASHED_ARG_PATTERN_PREFIX = ''sha256:argv:''"

definition isGeneratedHashedArgPattern :: "string option \<Rightarrow> bool" where
  "isGeneratedHashedArgPattern v =
     (case v of None \<Rightarrow> False
      | Some s \<Rightarrow> starts_with CWD_BOUND_HASHED_ARG_PATTERN_PREFIX s \<or> starts_with LEGACY_HASHED_ARG_PATTERN_PREFIX s)"

definition isCwdBoundHashedArgPattern :: "string option \<Rightarrow> bool" where
  "isCwdBoundHashedArgPattern v = (case v of None \<Rightarrow> False | Some s \<Rightarrow> starts_with CWD_BOUND_HASHED_ARG_PATTERN_PREFIX s)"

text \<open>The entries a decision grants; a one-shot decision is not persisted.\<close>

definition grantEntries :: "(string \<Rightarrow> string) \<Rightarrow> persistence_decision \<Rightarrow> allow_pattern list" where
  "grantEntries sha decision =
     (case decision of
        PersistExactCommand c \<Rightarrow>
          (case normalizeOptionalString c of
             None \<Rightarrow> [] | Some t \<Rightarrow> [\<lparr>ap_pattern = buildDurableCommandApprovalPattern sha t, ap_argPattern = None\<rparr>])
      | PersistPatterns ps c \<Rightarrow>
          ps @ (case Option.bind c normalizeOptionalString of
                  None \<Rightarrow> [] | Some t \<Rightarrow> [\<lparr>ap_pattern = buildNodeCommandApprovalPattern sha t, ap_argPattern = None\<rparr>])
      | OneShot _ \<Rightarrow> [])"

fun applyGrants :: "int \<Rightarrow> (nat \<Rightarrow> string) \<Rightarrow> string \<Rightarrow> allow_pattern list \<Rightarrow> approvals_file \<times> bool \<Rightarrow> approvals_file \<times> bool" where
  "applyGrants now uuid target [] acc = acc"
| "applyGrants now uuid target (g # gs) acc =
     applyGrants now (\<lambda>i. uuid (Suc i)) target gs
       (case applyAllowlistEntryUpdate now (uuid 0) (fst acc) (Some target) (ap_pattern g) (ap_argPattern g) (Some SourceAllowAlways) of
          Inr (Some f) \<Rightarrow> (f, True)
        | _ \<Rightarrow> acc)"

definition retainedAllowlist :: "allow_pattern list \<Rightarrow> allow_entry list \<Rightarrow> allow_entry list" where
  "retainedAllowlist entries existing =
     (let generated = map ap_pattern (filter (\<lambda>g. isCwdBoundHashedArgPattern (ap_argPattern g)) entries) in
      filter (\<lambda>e. \<not> (ae_pattern e \<in> set generated \<and> ae_source e = Some SourceAllowAlways \<and>
                       \<not> isCwdBoundHashedArgPattern (ae_argPattern e))) existing)"

definition applyAllowAlwaysDecision :: "(string \<Rightarrow> string) \<Rightarrow> int \<Rightarrow> (nat \<Rightarrow> string) \<Rightarrow> approvals_file \<Rightarrow> string option \<Rightarrow> persistence_decision \<Rightarrow> exec_error + approvals_file option" where
  "applyAllowAlwaysDecision sha now uuid file agentId decision =
     (let entries = grantEntries sha decision in
      case blankToNone agentId of
        None \<Rightarrow> Inl AgentIdRequired
      | Some target \<Rightarrow>
          let existing = listOf (aa_allowlist (agentOf file target)); retained = retainedAllowlist entries existing;
              start = (if length retained = length existing then (file, False) else (setAgentAllowlist target retained file, True));
              final = applyGrants now uuid target entries start in
          Inr (if snd final then Some (fst final) else None))"

section \<open>Revalidation\<close>

datatype usage_source = CurrentPolicy | AskFallback | ExplicitApproval | AutoReview

record usage_authorization =
  ua_source :: usage_source
  ua_security :: exec_security
  ua_ask :: exec_ask
  ua_allowlistSatisfied :: bool
  ua_policySnapshot :: "policy_snapshot option"
  ua_requireAutoAllowSkills :: "bool option"
  ua_requireExactCommandApproval :: "bool option"
  ua_requireDurableAllowlistApproval :: "bool option"

text \<open>The allowlist part of \<open>assertCurrentUsageAuthorization\<close>.\<close>

definition allowlistStillAuthorizes :: "(string \<Rightarrow> string) \<Rightarrow> approvals_resolved \<Rightarrow> string \<Rightarrow> (string \<times> string option) list \<Rightarrow> usage_authorization \<Rightarrow> bool" where
  "allowlistStillAuthorizes sha current command matchKeys auth \<longleftrightarrow>
     (if ua_requireExactCommandApproval auth = Some True
      then hasExactCommandDurableExecApproval sha (ar_allowlist current) (Some command)
      else
        (ua_requireDurableAllowlistApproval auth = Some True \<longrightarrow>
           matchKeys \<noteq> [] \<and>
           list_all (\<lambda>k. k \<in> set (map buildAllowlistEntryMatchKey (filter (\<lambda>e. ae_source e = Some SourceAllowAlways) (ar_allowlist current)))) matchKeys) \<and>
        ua_allowlistSatisfied auth \<and>
        list_all (\<lambda>k. k \<in> set (map buildAllowlistEntryMatchKey (ar_allowlist current))) matchKeys \<and>
        (ua_requireAutoAllowSkills auth = Some True \<longrightarrow> rd_autoAllowSkills (ar_agent current)))"

definition authorizationHolds :: "(string \<Rightarrow> string) \<Rightarrow> (string \<Rightarrow> nat \<Rightarrow> string) \<Rightarrow> approvals_file \<Rightarrow> string option \<Rightarrow> string \<Rightarrow> (string \<times> string option) list \<Rightarrow> usage_authorization \<Rightarrow> bool" where
  "authorizationHolds sha uuid file agentId command matchKeys auth =
     (let current = resolveExecApprovalsFromFileInternal uuid file agentId
            (noOverrides\<lparr>ov_security := Some (ua_security auth), ov_ask := Some (ua_ask auth)\<rparr>);
          security = minSecurity (ua_security auth) (rd_security (ar_agent current));
          ask = maxAsk (ua_ask auth) (rd_ask (ar_agent current));
          delayed = (ua_source auth = ExplicitApproval \<or> ua_source auth = AutoReview) in
      if security = SecDeny then False
      else if delayed \<and> (case ua_policySnapshot auth of
                None \<Rightarrow> True
              | Some expected \<Rightarrow> \<not> isExecApprovalPolicySnapshotCurrent expected (createExecApprovalPolicySnapshot uuid file agentId)) then False
      else if ua_source auth = ExplicitApproval then True
      else if ua_source auth = AutoReview then ask \<noteq> AskAlways
      else if ua_source auth = AskFallback then
        (let askFallback = minSecurity security (rd_askFallback (ar_agent current)) in
         if askFallback = SecDeny \<or> askFallback \<noteq> ua_security auth then False
         else if askFallback = SecFull then True
         else allowlistStillAuthorizes sha current command matchKeys auth)
      else if security \<noteq> ua_security auth \<or> ask \<noteq> ua_ask auth then False
      else if security \<noteq> SecAllowlist then True
      else allowlistStillAuthorizes sha current command matchKeys auth)"

definition assertCurrentUsageAuthorization :: "(string \<Rightarrow> string) \<Rightarrow> (string \<Rightarrow> nat \<Rightarrow> string) \<Rightarrow> approvals_file \<Rightarrow> string option \<Rightarrow> string \<Rightarrow> (string \<times> string option) list \<Rightarrow> usage_authorization \<Rightarrow> exec_error + unit" where
  "assertCurrentUsageAuthorization sha uuid file agentId command matchKeys auth =
     (if authorizationHolds sha uuid file agentId command matchKeys auth then Inr () else Inl ApprovalChanged)"

section \<open>Usage metadata and commit\<close>

definition matchKeysOf :: "allow_entry list \<Rightarrow> (string \<times> string option) list" where
  "matchKeysOf matches = uniqueValues (map buildAllowlistEntryMatchKey (filter (\<lambda>e. ae_pattern e \<noteq> []) matches))"

definition recordUseOfEntry :: "int \<Rightarrow> string \<Rightarrow> string \<Rightarrow> string option \<Rightarrow> allow_entry \<Rightarrow> allow_entry" where
  "recordUseOfEntry now fresh command resolvedPath e =
     e\<lparr>ae_id := Some (orElse (ae_id e) fresh), ae_lastUsedAt := Some now,
       ae_lastUsedCommand := (if isGeneratedHashedArgPattern (ae_argPattern e) then None else Some command),
       ae_lastResolvedPath := resolvedPath\<rparr>"

definition recordUseForAgent :: "int \<Rightarrow> (nat \<Rightarrow> string) \<Rightarrow> (string \<times> string option) list \<Rightarrow> string \<Rightarrow> string option \<Rightarrow> (string \<times> approvals_agent) list \<Rightarrow> string \<Rightarrow>
    (string \<times> approvals_agent) list \<times> bool \<Rightarrow> (string \<times> approvals_agent) list \<times> bool" where
  "recordUseForAgent now uuid keys command resolvedPath agents key acc =
     (case Option.bind (map_of agents key) aa_allowlist of
        None \<Rightarrow> acc
      | Some al \<Rightarrow>
          if list_ex (\<lambda>e. buildAllowlistEntryMatchKey e \<in> set keys) al
          then (AList.update key ((the (map_of agents key))\<lparr>aa_allowlist :=
                  Some (map (\<lambda>(i, e). if buildAllowlistEntryMatchKey e \<in> set keys then recordUseOfEntry now (uuid i) command resolvedPath e else e)
                         (enumerate 0 al))\<rparr>) (fst acc), True)
          else acc)"

definition applyRecordedAllowlistMetadata :: "int \<Rightarrow> (string \<Rightarrow> nat \<Rightarrow> string) \<Rightarrow> approvals_file \<Rightarrow> string option \<Rightarrow> allow_entry list \<Rightarrow> string \<Rightarrow> string option \<Rightarrow> exec_error + approvals_file option" where
  "applyRecordedAllowlistMetadata now uuid file agentId matches command resolvedPath =
     (let keys = matchKeysOf matches in
      if keys = [] then Inr None
      else (case blankToNone agentId of
              None \<Rightarrow> Inl AgentIdRequired
            | Some target \<Rightarrow>
                let agents = listOf (fl_agents file);
                    final = fold (\<lambda>k. recordUseForAgent now (uuid k) keys command resolvedPath agents k)
                              (if target = ''*'' then [target] else [''*'', target]) (agents, False) in
                Inr (if snd final then Some (file\<lparr>fl_agents := Some (fst final)\<rparr>) else None)))"

definition applyRecordedAllowlistUse :: "(string \<Rightarrow> string) \<Rightarrow> int \<Rightarrow> (string \<Rightarrow> nat \<Rightarrow> string) \<Rightarrow> approvals_file \<Rightarrow> string option \<Rightarrow> allow_entry list \<Rightarrow> string \<Rightarrow> string option \<Rightarrow> usage_authorization option \<Rightarrow> exec_error + approvals_file option" where
  "applyRecordedAllowlistUse sha now uuid file agentId matches command resolvedPath authorization =
     (case authorization of
        None \<Rightarrow> applyRecordedAllowlistMetadata now uuid file agentId matches command resolvedPath
      | Some auth \<Rightarrow>
          (case assertCurrentUsageAuthorization sha uuid file agentId command (matchKeysOf matches) auth of
             Inl e \<Rightarrow> Inl e
           | Inr _ \<Rightarrow> applyRecordedAllowlistMetadata now uuid file agentId matches command resolvedPath))"

definition persists :: "persistence_decision option \<Rightarrow> persistence_decision option" where
  "persists d = (case d of Some (OneShot _) \<Rightarrow> None | _ \<Rightarrow> d)"

definition commitExecAuthorizationLocked :: "(string \<Rightarrow> string) \<Rightarrow> int \<Rightarrow> (string \<Rightarrow> nat \<Rightarrow> string) \<Rightarrow> (nat \<Rightarrow> string) \<Rightarrow> approvals_file \<Rightarrow> string option \<Rightarrow> allow_entry list \<Rightarrow> string \<Rightarrow> string option \<Rightarrow> usage_authorization \<Rightarrow> persistence_decision option \<Rightarrow> exec_error + approvals_file option" where
  "commitExecAuthorizationLocked sha now uuid grantUuid file agentId matches command resolvedPath auth allowAlways =
     (if (ua_source auth = ExplicitApproval \<or> ua_source auth = AutoReview) \<and> ua_policySnapshot auth = None then Inl SnapshotRequired
      else if persists allowAlways \<noteq> None \<and> ua_source auth \<noteq> ExplicitApproval then Inl ExplicitApprovalRequired
      else
        case assertCurrentUsageAuthorization sha uuid file agentId command (matchKeysOf matches) auth of
          Inl e \<Rightarrow> Inl e
        | Inr _ \<Rightarrow>
            (case (case persists allowAlways of None \<Rightarrow> Inr None | Some d \<Rightarrow> applyAllowAlwaysDecision sha now grantUuid file agentId d) of
               Inl e \<Rightarrow> Inl e
             | Inr granted \<Rightarrow>
                 (case applyRecordedAllowlistMetadata now uuid (orElse granted file) agentId matches command resolvedPath of
                    Inl e \<Rightarrow> Inl e
                  | Inr recorded \<Rightarrow> Inr (case recorded of Some f \<Rightarrow> Some f | None \<Rightarrow> granted))))"

section \<open>The canonical order\<close>

lemma strict_utf8: "strict_comparator compareUtf8"
  using strict_comparator_map [OF strict_bytes utf8Bytes_inj] by (simp add: compareUtf8_def [abs_def])

lemma strict_optional: "strict_comparator compareOptionalUtf8"
proof -
  note u = strict_comparator.cmp_zero [OF strict_utf8] comparator.cmp_flip [OF strict_comparator.axioms(1) [OF strict_utf8]]
    comparator.cmp_trans [OF strict_comparator.axioms(1) [OF strict_utf8]]
  show ?thesis
  proof
    show "compareOptionalUtf8 x y = 0 \<longleftrightarrow> x = y" for x y
      by (cases x; cases y) (auto simp: u(1))
    show "compareOptionalUtf8 y x = - compareOptionalUtf8 x y" for x y
      by (cases x; cases y) (auto intro: u(2))
    show "compareOptionalUtf8 x y \<le> 0 \<Longrightarrow> compareOptionalUtf8 y z \<le> 0 \<Longrightarrow> compareOptionalUtf8 x z \<le> 0" for x y z
      by (cases x; cases y; cases z) (auto intro: u(3))
  qed
qed

lemma strict_rules: "strict_comparator compareExecApprovalPolicyRules"
proof -
  let ?f = "\<lambda>r :: policy_rule. (pr_pattern r, pr_argPattern r, map_option sourceText (pr_source r))"
  have src: "map_option sourceText a = map_option sourceText b \<longleftrightarrow> a = b" for a b
    by (cases a; cases b) (auto, metis allow_source.exhaust)
  have "inj ?f"
    by (rule injI, rule policy_rule.equality) (simp_all add: src)
  from strict_comparator_map [OF strict_comparator_prod [OF strict_utf8 strict_comparator_prod [OF strict_optional strict_optional]] this]
  show ?thesis by (simp add: compareExecApprovalPolicyRules_def [abs_def])
qed

interpretation rules: strict_comparator compareExecApprovalPolicyRules
  by (rule strict_rules)

lemma ruleKey_inj: "buildExecApprovalPolicyRuleKey r = buildExecApprovalPolicyRuleKey r' \<longleftrightarrow> r = r'"
  by (cases r; cases r') (auto simp: buildExecApprovalPolicyRuleKey_def)

text \<open>Unique by an injective key: the same elements, once each.\<close>

lemma uniqueByKey_invariant:
  assumes "\<And>x y. key x = key y \<longleftrightarrow> x = y"
  shows "(\<forall>(k, v) \<in> set m. k = key v) \<and> distinct (map fst m) \<Longrightarrow>
    (\<forall>(k, v) \<in> set (fold (\<lambda>x m. AList.update (key x) x m) xs m). k = key v) \<and>
    distinct (map fst (fold (\<lambda>x m. AList.update (key x) x m) xs m)) \<and>
    snd ` set (fold (\<lambda>x m. AList.update (key x) x m) xs m) = snd ` set m \<union> set xs"
proof (induction xs arbitrary: m)
  case Nil
  then show ?case by simp
next
  case (Cons x xs)
  have step: "(\<forall>(k, v) \<in> set (AList.update (key x) x m). k = key v) \<and> distinct (map fst (AList.update (key x) x m)) \<and>
      snd ` set (AList.update (key x) x m) = insert x (snd ` set m)"
  proof (intro conjI)
    show d: "distinct (map fst (AList.update (key x) x m))" using Cons.prems by (simp add: distinct_update)
    have mem: "(k, v) \<in> set (AList.update (key x) x m) \<longleftrightarrow> (k = key x \<and> v = x) \<or> (k \<noteq> key x \<and> (k, v) \<in> set m)" for k v
      using mem_map_of [OF d, of k v] mem_map_of [of m k v] Cons.prems by (auto simp: update_conv')
    show "\<forall>(k, v) \<in> set (AList.update (key x) x m). k = key v" using mem Cons.prems by auto
    show "snd ` set (AList.update (key x) x m) = insert x (snd ` set m)"
    proof (rule set_eqI)
      fix v
      have "v \<in> snd ` set (AList.update (key x) x m) \<longleftrightarrow> (\<exists>k. (k, v) \<in> set (AList.update (key x) x m))" by force
      also have "\<dots> \<longleftrightarrow> v = x \<or> (\<exists>k. k \<noteq> key x \<and> (k, v) \<in> set m)" using mem by blast
      also have "\<dots> \<longleftrightarrow> v = x \<or> (\<exists>k. (k, v) \<in> set m)"
        using Cons.prems assms by fastforce
      also have "\<dots> \<longleftrightarrow> v \<in> insert x (snd ` set m)" by force
      finally show "v \<in> snd ` set (AList.update (key x) x m) \<longleftrightarrow> v \<in> insert x (snd ` set m)" .
    qed
  qed
  with Cons.IH [of "AList.update (key x) x m"] show ?case by auto
qed

lemma uniqueByKey_rules [simp]:
  "set (uniqueByKey buildExecApprovalPolicyRuleKey rs) = set rs"
  "distinct (uniqueByKey buildExecApprovalPolicyRuleKey rs)"
proof -
  let ?m = "fold (\<lambda>x m. AList.update (buildExecApprovalPolicyRuleKey x) x m) rs []"
  have i: "(\<forall>(k, v) \<in> set ?m. k = buildExecApprovalPolicyRuleKey v) \<and> distinct (map fst ?m) \<and> snd ` set ?m = set rs"
    using uniqueByKey_invariant [OF ruleKey_inj, of "[]" rs] by simp
  then show "set (uniqueByKey buildExecApprovalPolicyRuleKey rs) = set rs" by (simp add: uniqueByKey_def)
  have "inj_on snd (set ?m)"
  proof (rule inj_onI)
    fix p q assume "p \<in> set ?m" "q \<in> set ?m" "snd p = snd q"
    have "fst p = buildExecApprovalPolicyRuleKey (snd p)"
      using bspec [OF conjunct1 [OF i] \<open>p \<in> set ?m\<close>] by (simp only: split_beta)
    moreover have "fst q = buildExecApprovalPolicyRuleKey (snd q)"
      using bspec [OF conjunct1 [OF i] \<open>q \<in> set ?m\<close>] by (simp only: split_beta)
    moreover note \<open>snd p = snd q\<close>
    ultimately show "p = q" by (simp add: prod_eq_iff)
  qed
  moreover have "distinct ?m" using conjunct1 [OF conjunct2 [OF i]] by (simp only: distinct_map)
  ultimately show "distinct (uniqueByKey buildExecApprovalPolicyRuleKey rs)"
    by (simp only: uniqueByKey_def distinct_map)
qed

lemma set_canonicalize [simp]: "set (canonicalizeExecApprovalPolicyRules rs) = set rs"
  by (simp add: canonicalizeExecApprovalPolicyRules_def)

text \<open>
  The canonical form of the policy rules depends on the set of rules only: listing them in another
  order or repeating some gives the same canonical list, which holds every rule once, in ascending order
  of the cross-runtime comparison, and is its own canonical form.
\<close>

theorem canonical_rules_unique:
  assumes "set rs = set rs'"
  shows "canonicalizeExecApprovalPolicyRules rs = canonicalizeExecApprovalPolicyRules rs' \<and>
         set (canonicalizeExecApprovalPolicyRules rs) = set rs' \<and> distinct (canonicalizeExecApprovalPolicyRules rs) \<and>
         sorted_wrt (\<lambda>x y. compareExecApprovalPolicyRules x y \<le> 0) (canonicalizeExecApprovalPolicyRules rs) \<and>
         canonicalizeExecApprovalPolicyRules (canonicalizeExecApprovalPolicyRules rs) = canonicalizeExecApprovalPolicyRules rs"
proof -
  have eq: "canonicalizeExecApprovalPolicyRules xs = canonicalizeExecApprovalPolicyRules ys" if "set xs = set ys" for xs ys
    unfolding canonicalizeExecApprovalPolicyRules_def by (rule rules.sort_by_canonical) (simp_all add: that)
  have "distinct (canonicalizeExecApprovalPolicyRules rs)"
    unfolding canonicalizeExecApprovalPolicyRules_def by (rule distinct_sort_by) simp
  moreover have "sorted_wrt (\<lambda>x y. compareExecApprovalPolicyRules x y \<le> 0) (canonicalizeExecApprovalPolicyRules rs)"
    unfolding canonicalizeExecApprovalPolicyRules_def by (rule rules.sorted_sort_by)
  ultimately show ?thesis using assms eq [of rs rs'] eq [of "canonicalizeExecApprovalPolicyRules rs" rs] by simp
qed

section \<open>Commit\<close>

lemma authorizationHolds_facts:
  assumes h: "authorizationHolds sha uuid file agentId command keys auth"
    and c: "current = resolveExecApprovalsFromFileInternal uuid file agentId
              (noOverrides\<lparr>ov_security := Some (ua_security auth), ov_ask := Some (ua_ask auth)\<rparr>)"
  shows "min (ua_security auth) (rd_security (ar_agent current)) \<noteq> SecDeny"
    and "ua_source auth = ExplicitApproval \<or> ua_source auth = AutoReview \<Longrightarrow>
           \<exists>s. ua_policySnapshot auth = Some s \<and> isExecApprovalPolicySnapshotCurrent s (createExecApprovalPolicySnapshot uuid file agentId)"
    and "ua_source auth = AutoReview \<Longrightarrow> max (ua_ask auth) (rd_ask (ar_agent current)) \<noteq> AskAlways"
    and "ua_source auth = CurrentPolicy \<Longrightarrow> min (ua_security auth) (rd_security (ar_agent current)) = ua_security auth \<and>
           max (ua_ask auth) (rd_ask (ar_agent current)) = ua_ask auth"
    and "ua_source auth = AskFallback \<Longrightarrow>
           min (min (ua_security auth) (rd_security (ar_agent current))) (rd_askFallback (ar_agent current)) = ua_security auth"
    and "ua_source auth = CurrentPolicy \<or> ua_source auth = AskFallback \<Longrightarrow> ua_security auth = SecAllowlist \<Longrightarrow>
           allowlistStillAuthorizes sha current command keys auth"
  using h unfolding authorizationHolds_def Let_def c [symmetric]
  by (auto split: if_splits option.splits usage_source.splits)

lemma commit_Inr:
  assumes "commitExecAuthorizationLocked sha now uuid grantUuid file agentId matches command resolvedPath auth allowAlways = Inr result"
  shows "authorizationHolds sha uuid file agentId command (matchKeysOf matches) auth"
    and "persists allowAlways \<noteq> None \<Longrightarrow> ua_source auth = ExplicitApproval"
  using assms
  by (auto simp: commitExecAuthorizationLocked_def assertCurrentUsageAuthorization_def split: if_splits)


section \<open>Grants\<close>

lemma agentOf_setAgentAllowlist:
  "agentOf (setAgentAllowlist target al f) k =
     (if k = target then (agentOf f target)\<lparr>aa_allowlist := Some al\<rparr> else agentOf f k)"
  by (simp add: agentOf_def setAgentAllowlist_def)

lemma fl_defaults_setAgentAllowlist [simp]: "fl_defaults (setAgentAllowlist target al f) = fl_defaults f"
  by (simp add: setAgentAllowlist_def)

text \<open>A list covers another when it has every entry's rule, or the same rule upgraded to allow-always.\<close>

definition covers :: "allow_entry list \<Rightarrow> allow_entry list \<Rightarrow> bool" where
  "covers new old \<longleftrightarrow>
     (\<forall>e \<in> set old. \<exists>e' \<in> set new. buildAllowlistEntryMatchKey e' = buildAllowlistEntryMatchKey e \<and>
        (ae_source e' = ae_source e \<or> (ae_source e = None \<and> ae_source e' = Some SourceAllowAlways)))"

lemma covers_refl: "covers xs xs"
  by (auto simp: covers_def)

lemma covers_trans:
  assumes "covers zs ys" "covers ys xs"
  shows "covers zs xs"
  unfolding covers_def
proof
  fix e assume "e \<in> set xs"
  with assms(2) obtain e' where e': "e' \<in> set ys" "buildAllowlistEntryMatchKey e' = buildAllowlistEntryMatchKey e"
    "ae_source e' = ae_source e \<or> (ae_source e = None \<and> ae_source e' = Some SourceAllowAlways)" unfolding covers_def by blast
  with assms(1) obtain e'' where "e'' \<in> set zs" "buildAllowlistEntryMatchKey e'' = buildAllowlistEntryMatchKey e'"
    "ae_source e'' = ae_source e' \<or> (ae_source e' = None \<and> ae_source e'' = Some SourceAllowAlways)" unfolding covers_def by blast
  with e' show "\<exists>e' \<in> set zs. buildAllowlistEntryMatchKey e' = buildAllowlistEntryMatchKey e \<and>
      (ae_source e' = ae_source e \<or> (ae_source e = None \<and> ae_source e' = Some SourceAllowAlways))" by auto
qed

lemma covers_append: "covers new old \<Longrightarrow> covers new' old' \<Longrightarrow> covers (new @ new') (old @ old')"
  unfolding covers_def by (metis Un_iff set_append)

text \<open>Everything a grant does to a file, seen from the resolver.\<close>

definition grant_step :: "string \<Rightarrow> approvals_file \<Rightarrow> approvals_file \<Rightarrow> bool" where
  "grant_step target f f' \<longleftrightarrow>
     fl_defaults f' = fl_defaults f \<and>
     (\<exists>al. agentOf f' target = (agentOf f target)\<lparr>aa_allowlist := al\<rparr> \<and>
        covers (listOf al) (listOf (aa_allowlist (agentOf f target))) \<and>
        (file_normal f \<longrightarrow> file_normal f')) \<and>
     (\<forall>k. k \<noteq> target \<longrightarrow> agentOf f' k = agentOf f k)"

lemma grant_step_refl: "grant_step target f f"
  unfolding grant_step_def by (intro conjI exI [of _ "aa_allowlist (agentOf f target)"]) (simp_all add: covers_refl)

lemma grant_step_trans:
  assumes "grant_step t f g" "grant_step t g h"
  shows "grant_step t f h"
proof -
  from assms obtain a b where a: "agentOf g t = (agentOf f t)\<lparr>aa_allowlist := a\<rparr>" "covers (listOf a) (listOf (aa_allowlist (agentOf f t)))"
    "file_normal f \<longrightarrow> file_normal g"
    and b: "agentOf h t = (agentOf g t)\<lparr>aa_allowlist := b\<rparr>" "covers (listOf b) (listOf (aa_allowlist (agentOf g t)))"
    "file_normal g \<longrightarrow> file_normal h"
    unfolding grant_step_def by blast
  have "covers (listOf b) (listOf (aa_allowlist (agentOf f t)))"
    using b(2) a(2) by (simp add: a(1)) (rule covers_trans)
  with a b assms show ?thesis unfolding grant_step_def by (intro conjI exI [of _ b]) auto
qed

lemma file_normal_setAgentAllowlist:
  assumes "file_normal f" "target \<noteq> ''default''" "list_all entry_normal al"
  shows "file_normal (setAgentAllowlist target al f)"
proof -
  obtain s d as where f: "f = \<lparr>fl_socket = Some s, fl_defaults = Some d, fl_agents = Some as\<rparr>" "sanitizeExecApprovalPolicy d = d"
    "map_of as ''default'' = None" "\<forall>(k, a) \<in> set as. agent_normal a" "trimSocket (Some s) = s"
    using assms(1) by (auto simp: file_normal_def)
  have n: "agent_normal ((agentOf f target)\<lparr>aa_allowlist := Some al\<rparr>)"
    using agentOf_normal [OF assms(1), of target] assms(3) by (simp add: agent_normal_def)
  have "agent_normal a" if "(k, a) \<in> set (AList.update target ((agentOf f target)\<lparr>aa_allowlist := Some al\<rparr>) as)" for k a
  proof -
    have "set (AList.update target v as) \<subseteq> insert (target, v) (set as)" for v
      by (induction as) auto
    with that n f(4) show ?thesis by fastforce
  qed
  with f assms(2) show ?thesis unfolding file_normal_def setAgentAllowlist_def by auto
qed

lemma applyAllowlistEntryUpdate_step:
  assumes "applyAllowlistEntryUpdate now uuid f (Some target) pattern arg (Some SourceAllowAlways) = Inr (Some f')"
    and "target \<noteq> ''default''" "uuid \<noteq> []"
  shows "grant_step target f f'"
proof -
  let ?al = "listOf (aa_allowlist (agentOf f target))"
  let ?same = "\<lambda>e. ae_pattern e = js_trim pattern \<and> ae_argPattern e = blankToNone arg"
  have t: "target \<noteq> []" "js_trim pattern \<noteq> []" using assms(1)
    by (auto simp: applyAllowlistEntryUpdate_def blankToNone_def Let_def split: if_splits option.splits)
  obtain al where al: "f' = setAgentAllowlist target al f" and
    alt: "(\<exists>e. find ?same ?al = Some e \<and> al = map (\<lambda>e. if ?same e then e\<lparr>ae_argPattern := blankToNone arg, ae_source := Some SourceAllowAlways,
                                                   ae_lastUsedAt := Some now\<rparr> else e) ?al) \<or>
      (al = ?al @ [\<lparr>ae_id = Some uuid, ae_pattern = js_trim pattern, ae_source = Some SourceAllowAlways, ae_commandText = None,
                                 ae_argPattern = blankToNone arg, ae_lastUsedAt = Some now, ae_lastUsedCommand = None,
                                 ae_lastResolvedPath = None\<rparr>])"
    using assms(1) t
    by (auto simp: applyAllowlistEntryUpdate_def Let_def blankToNone_def firstSome_def split: if_splits option.splits)
  have cov: "covers al ?al"
    unfolding covers_def
  proof
    fix e assume e: "e \<in> set ?al"
    have s: "ae_source e = None \<or> ae_source e = Some SourceAllowAlways" by (cases "ae_source e") (auto, metis allow_source.exhaust)
    show "\<exists>e' \<in> set al. buildAllowlistEntryMatchKey e' = buildAllowlistEntryMatchKey e \<and>
        (ae_source e' = ae_source e \<or> (ae_source e = None \<and> ae_source e' = Some SourceAllowAlways))"
      using alt
    proof
      assume "al = ?al @ [\<lparr>ae_id = Some uuid, ae_pattern = js_trim pattern, ae_source = Some SourceAllowAlways, ae_commandText = None,
                                 ae_argPattern = blankToNone arg, ae_lastUsedAt = Some now, ae_lastUsedCommand = None,
                                 ae_lastResolvedPath = None\<rparr>]"
      with e show ?thesis by auto
    next
      let ?upd = "\<lambda>e. if ?same e then e\<lparr>ae_argPattern := blankToNone arg, ae_source := Some SourceAllowAlways, ae_lastUsedAt := Some now\<rparr> else e"
      assume "\<exists>e. find ?same ?al = Some e \<and> al = map ?upd ?al"
      then have "?upd e \<in> set al" using e by auto
      moreover have "buildAllowlistEntryMatchKey (?upd e) = buildAllowlistEntryMatchKey e"
        by (simp add: buildAllowlistEntryMatchKey_def)
      moreover have "ae_source (?upd e) = ae_source e \<or> (ae_source e = None \<and> ae_source (?upd e) = Some SourceAllowAlways)"
        using s by auto
      ultimately show ?thesis by blast
    qed
  qed
  have norm: "file_normal f \<longrightarrow> file_normal f'"
  proof
    assume n: "file_normal f"
    have "list_all entry_normal ?al" using agentOf_normal [OF n] by (simp add: agent_normal_def)
    then have "list_all entry_normal al"
      using alt assms(3) t(2) by (auto simp: list_all_iff entry_normal_def)
    with n assms(2) show "file_normal f'" unfolding al by (intro file_normal_setAgentAllowlist)
  qed
  show ?thesis
    unfolding grant_step_def
    by (intro conjI exI [of _ "Some al"]) (simp_all add: al agentOf_setAgentAllowlist cov norm [unfolded al])
qed

lemma applyGrants_step:
  assumes "target \<noteq> ''default''" "\<And>i. uuid i \<noteq> []"
  shows "grant_step target (fst acc) (fst (applyGrants now uuid target gs acc))"
  using assms(2)
proof (induction gs arbitrary: uuid acc)
  case Nil
  then show ?case by (simp add: grant_step_refl)
next
  case (Cons g gs)
  let ?u = "applyAllowlistEntryUpdate now (uuid 0) (fst acc) (Some target) (ap_pattern g) (ap_argPattern g) (Some SourceAllowAlways)"
  have "grant_step target (fst acc) (fst (case ?u of Inr (Some f) \<Rightarrow> (f, True) | _ \<Rightarrow> acc))"
    using applyAllowlistEntryUpdate_step [OF _ assms(1) Cons.prems [of 0]]
    by (auto simp: grant_step_refl split: sum.split option.split)
  from grant_step_trans [OF this] Cons.IH [of "\<lambda>i. uuid (Suc i)"] Cons.prems show ?case by simp
qed

lemma retainedAllowlist_id:
  "list_all (\<lambda>g. \<not> isCwdBoundHashedArgPattern (ap_argPattern g)) entries \<Longrightarrow> retainedAllowlist entries al = al"
proof -
  assume "list_all (\<lambda>g. \<not> isCwdBoundHashedArgPattern (ap_argPattern g)) entries"
  then have "filter (\<lambda>g. isCwdBoundHashedArgPattern (ap_argPattern g)) entries = []" by (simp add: filter_empty_conv list_all_iff)
  then show ?thesis by (simp add: retainedAllowlist_def)
qed

lemma applyAllowAlwaysDecision_step:
  assumes "applyAllowAlwaysDecision sha now uuid f (Some target) decision = Inr (Some f')"
    and "target \<noteq> ''default''" "\<And>i. uuid i \<noteq> []"
    and "list_all (\<lambda>g. \<not> isCwdBoundHashedArgPattern (ap_argPattern g)) (grantEntries sha decision)"
  shows "grant_step target f f'"
proof -
  have "f' = fst (applyGrants now uuid target (grantEntries sha decision) (f, False))"
    using assms(1) retainedAllowlist_id [OF assms(4)]
    by (auto simp: applyAllowAlwaysDecision_def Let_def blankToNone_def split: if_splits)
  with applyGrants_step [OF assms(2), of uuid "(f, False)"] assms(3) show ?thesis by simp
qed

lemma resolve_normal:
  assumes "file_normal f"
  shows "resolveExecApprovalsFromFileInternal uuid f agentId ov = resolveExecApprovalsFromFilePrepared f f agentId ov"
  by (simp add: resolveExecApprovalsFromFileInternal_def normalize_normal_id [OF assms])

lemma grant_step_resolve:
  assumes g: "grant_step target f f'" and n: "file_normal f"
    and r_def: "r = resolveExecApprovalsFromFileInternal uuid f agentId ov"
    and r'_def: "r' = resolveExecApprovalsFromFileInternal uuid' f' agentId ov"
  shows "ar_agent r' = ar_agent r" and "covers (ar_allowlist r') (ar_allowlist r)"
proof -
  have n': "file_normal f'" using g n unfolding grant_step_def by blast
  have d: "fl_defaults f' = fl_defaults f" using g unfolding grant_step_def by blast
  have same: "ad_security (agentOf f' k) = ad_security (agentOf f k)" "ad_ask (agentOf f' k) = ad_ask (agentOf f k)"
    "ad_askFallback (agentOf f' k) = ad_askFallback (agentOf f k)"
    "ad_autoAllowSkills (agentOf f' k) = ad_autoAllowSkills (agentOf f k)" for k
    using g unfolding grant_step_def by (cases "k = target"; auto)+
  have cov: "covers (listOf (aa_allowlist (agentOf f' k))) (listOf (aa_allowlist (agentOf f k)))" for k
    using g covers_refl unfolding grant_step_def by (cases "k = target") auto
  have fld: "securityFieldOf field (agentOf f' k) = securityFieldOf field (agentOf f k)" for field k
    by (cases field) (simp_all add: same)
  show "ar_agent r' = ar_agent r"
    unfolding r_def r'_def resolve_normal [OF n] resolve_normal [OF n'] resolveExecApprovalsFromFilePrepared_def
    by (simp add: Let_def d fld same resolveAgentSecurityField_def resolveAgentAskField_def)
  show "covers (ar_allowlist r') (ar_allowlist r)"
    unfolding r_def r'_def resolve_normal [OF n] resolve_normal [OF n'] resolveExecApprovalsFromFilePrepared_def
    by (simp add: Let_def covers_append [OF cov cov])
qed

lemma snapshot_rules:
  "set (ps_allowlistRules (createExecApprovalPolicySnapshot uuid f agentId)) =
     ruleOfEntry ` set (ar_allowlist (resolveExecApprovalsFromFileInternal uuid f agentId noOverrides))"
  by (simp add: createExecApprovalPolicySnapshot_def Let_def)

lemma covers_rule:
  assumes "covers new old" "rule \<in> ruleOfEntry ` set old"
  shows "rule \<in> ruleOfEntry ` set new \<or> (pr_source rule = None \<and> rule\<lparr>pr_source := Some SourceAllowAlways\<rparr> \<in> ruleOfEntry ` set new)"
proof -
  from assms obtain e e' where "e \<in> set old" "rule = ruleOfEntry e" "e' \<in> set new"
    "buildAllowlistEntryMatchKey e' = buildAllowlistEntryMatchKey e"
    "ae_source e' = ae_source e \<or> (ae_source e = None \<and> ae_source e' = Some SourceAllowAlways)"
    unfolding covers_def by blast
  then have "ruleOfEntry e' = rule \<or> (pr_source rule = None \<and> ruleOfEntry e' = rule\<lparr>pr_source := Some SourceAllowAlways\<rparr>)"
    by (auto simp: ruleOfEntry_def buildAllowlistEntryMatchKey_def)
  with \<open>e' \<in> set new\<close> show ?thesis by (metis imageI)
qed


lemma applyAllowlistEntryUpdate_total:
  "target \<noteq> [] \<Longrightarrow> \<exists>u. applyAllowlistEntryUpdate now uuid f (Some target) pattern arg src = Inr u"
  by (simp add: applyAllowlistEntryUpdate_def blankToNone_def Let_def split: option.split)

text \<open>What the update leaves behind: an allow-always entry with the granted pattern.\<close>

lemma applyAllowlistEntryUpdate_present:
  assumes "applyAllowlistEntryUpdate now uuid f (Some target) pattern None (Some SourceAllowAlways) = Inr res"
    and "target \<noteq> []" "js_trim pattern = pattern" "pattern \<noteq> []"
  shows "\<exists>e \<in> set (listOf (aa_allowlist (agentOf (orElse res f) target))).
           ae_pattern e = pattern \<and> ae_source e = Some SourceAllowAlways"
proof -
  let ?al = "listOf (aa_allowlist (agentOf f target))"
  let ?same = "\<lambda>e. ae_pattern e = pattern \<and> ae_argPattern e = None"
  show ?thesis
  proof (cases "find ?same ?al")
    case None
    with assms show ?thesis
      by (auto simp: applyAllowlistEntryUpdate_def blankToNone_def Let_def orElse_def agentOf_setAgentAllowlist)
  next
    case (Some e)
    then have e: "e \<in> set ?al" "ae_pattern e = pattern" "ae_argPattern e = None" by (auto simp: find_Some_iff)
    show ?thesis
    proof (cases "ae_source e = Some SourceAllowAlways")
      case True
      with assms Some e show ?thesis
        by (auto simp: applyAllowlistEntryUpdate_def blankToNone_def Let_def orElse_def)
    next
      case False
      with assms Some have "res = Some (setAgentAllowlist target
          (map (\<lambda>e. if ?same e then e\<lparr>ae_argPattern := None, ae_source := firstSome (Some SourceAllowAlways) (ae_source e), ae_lastUsedAt := Some now\<rparr> else e) ?al) f)"
        by (simp add: applyAllowlistEntryUpdate_def blankToNone_def Let_def)
      then have "listOf (aa_allowlist (agentOf (orElse res f) target)) =
          map (\<lambda>e. if ?same e then e\<lparr>ae_argPattern := None, ae_source := firstSome (Some SourceAllowAlways) (ae_source e), ae_lastUsedAt := Some now\<rparr> else e) ?al"
        by (simp add: orElse_def agentOf_setAgentAllowlist)
      then have "e\<lparr>ae_argPattern := None, ae_source := firstSome (Some SourceAllowAlways) (ae_source e), ae_lastUsedAt := Some now\<rparr>
          \<in> set (listOf (aa_allowlist (agentOf (orElse res f) target)))"
        using e by force
      then show ?thesis by (rule bexI [rotated]) (simp add: e(2) firstSome_def)
    qed
  qed
qed


section \<open>Examples\<close>

definition demoSha :: "string \<Rightarrow> string" where
  "demoSha c = ''h'' @ string_of_nat (length c) @ ''z''"

definition demoNormal :: approvals_file where
  "demoNormal = normalizeExecApprovalsInternal demoUuid
     \<lparr>fl_socket = None, fl_defaults = None, fl_agents = Some [(''dev'', demoAgent (Some ''allowlist'') (Some [bareEntry ''/bin/ls'']))]\<rparr>"

definition demoAuth :: usage_authorization where
  "demoAuth = \<lparr>ua_source = CurrentPolicy, ua_security = SecAllowlist, ua_ask = AskOnMiss, ua_allowlistSatisfied = True,
     ua_policySnapshot = None, ua_requireAutoAllowSkills = None, ua_requireExactCommandApproval = None,
     ua_requireDurableAllowlistApproval = None\<rparr>"

fun fileOf :: "exec_error + approvals_file option \<Rightarrow> approvals_file option" where
  "fileOf (Inr f) = f"
| "fileOf (Inl _) = None"

lemma demoSha_trim: "js_trim (''=command:'' @ demoSha c) = ''=command:'' @ demoSha c"
proof -
  have "dropWhile is_js_space (CHR ''='' # s) = CHR ''='' # s" "dropWhile is_js_space (CHR ''z'' # s) = CHR ''z'' # s" for s
    by (simp_all add: is_js_space_def)
  then show ?thesis by (simp add: js_trim_def demoSha_def)
qed

theorem canonical_rules_unique_witness:
  "canonicalizeExecApprovalPolicyRules
     [\<lparr>pr_pattern = ''b'', pr_argPattern = None, pr_source = None\<rparr>, \<lparr>pr_pattern = ''a'', pr_argPattern = Some ''x'', pr_source = None\<rparr>,
      \<lparr>pr_pattern = ''a'', pr_argPattern = None, pr_source = None\<rparr>, \<lparr>pr_pattern = ''b'', pr_argPattern = None, pr_source = None\<rparr>] =
   canonicalizeExecApprovalPolicyRules
     [\<lparr>pr_pattern = ''a'', pr_argPattern = None, pr_source = None\<rparr>, \<lparr>pr_pattern = ''a'', pr_argPattern = Some ''x'', pr_source = None\<rparr>,
      \<lparr>pr_pattern = ''b'', pr_argPattern = None, pr_source = None\<rparr>]"
  by (rule canonical_rules_unique [THEN conjunct1]) auto




end
