(* ===== verification/Identifiers.thy ===== *)
theory Identifiers
  imports NumberCoercion
begin

text \<open>
  The canonical identifiers sessions and routes are keyed by: agent ids
  (packages/normalization-core/src/agent-id.ts), account ids with their cache (\<open>src/routing/account-id.ts\<close>), chat
  types (\<open>src/channels/chat-type.ts\<close>), and the ids and scopes of route bindings
  (\<open>src/routing/binding-scope.ts\<close>, \<open>peer-kind-match.ts\<close>).
\<close>

section \<open>Safe identifiers\<close>

definition is_alnum :: "char \<Rightarrow> bool" where
  "is_alnum c \<longleftrightarrow> (let n = (of_char c :: nat) in (48 \<le> n \<and> n \<le> 57) \<or> (97 \<le> n \<and> n \<le> 122))"

definition is_id_char :: "char \<Rightarrow> bool" where
  "is_id_char c \<longleftrightarrow> is_alnum c \<or> c = CHR ''_'' \<or> c = CHR ''-''"

text \<open>\<open>VALID_ID_RE\<close>, case-insensitive: a letter or digit and at most 63 further identifier characters.\<close>

definition VALID_ID_RE :: "string \<Rightarrow> bool" where
  "VALID_ID_RE s =
     (case map lower_char s of
        [] \<Rightarrow> False
      | c # cs \<Rightarrow> is_alnum c \<and> list_all is_id_char cs \<and> length cs \<le> 63)"

text \<open>\<open>replace(INVALID_CHARS_RE, "-")\<close>: every maximal run of other characters becomes one dash.\<close>

fun replaceInvalidRuns :: "bool \<Rightarrow> string \<Rightarrow> string" where
  "replaceInvalidRuns inRun [] = []"
| "replaceInvalidRuns inRun (c # s) =
     (if is_id_char c then c # replaceInvalidRuns False s
      else if inRun then replaceInvalidRuns True s
      else CHR ''-'' # replaceInvalidRuns True s)"

definition stripLeadingDashes :: "string \<Rightarrow> string" where
  "stripLeadingDashes s = dropWhile (\<lambda>c. c = CHR ''-'') s"

definition stripTrailingDashes :: "string \<Rightarrow> string" where
  "stripTrailingDashes s = rev (dropWhile (\<lambda>c. c = CHR ''-'') (rev s))"

definition replaceInvalid :: "string \<Rightarrow> string" where
  "replaceInvalid s = take 64 (stripTrailingDashes (stripLeadingDashes (replaceInvalidRuns False s)))"

section \<open>Agent ids\<close>

datatype id_error = Unrepresentable

definition normalizeAgentIdStrict :: "string option \<Rightarrow> id_error + string" where
  "normalizeAgentIdStrict value =
     (let trimmed = js_trim (case value of Some v \<Rightarrow> v | None \<Rightarrow> []);
          normalized = normalizeLowercaseStringOrEmpty (Some trimmed) in
      if VALID_ID_RE trimmed then Inr normalized
      else (let agentId = replaceInvalid normalized in
            if agentId \<noteq> [] then Inr agentId else Inl Unrepresentable))"

definition normalizeAgentId :: "string option \<Rightarrow> string" where
  "normalizeAgentId value = (case normalizeAgentIdStrict value of Inr v \<Rightarrow> v | Inl _ \<Rightarrow> ''main'')"

definition isValidAgentId :: "string option \<Rightarrow> bool" where
  "isValidAgentId value =
     (let trimmed = js_trim (case value of Some v \<Rightarrow> v | None \<Rightarrow> []) in trimmed \<noteq> [] \<and> VALID_ID_RE trimmed)"

section \<open>Account ids\<close>

definition DEFAULT_ACCOUNT_ID :: string where "DEFAULT_ACCOUNT_ID = ''default''"
definition ACCOUNT_ID_CACHE_MAX :: nat where "ACCOUNT_ID_CACHE_MAX = 512"

definition isBlockedObjectKey :: "string \<Rightarrow> bool" where
  "isBlockedObjectKey key \<longleftrightarrow> key \<in> set [''__proto__'', ''prototype'', ''constructor'']"

definition canonicalizeAccountId :: "string \<Rightarrow> string" where
  "canonicalizeAccountId value =
     (let normalized = normalizeLowercaseStringOrEmpty (Some value) in
      if VALID_ID_RE value then normalized else replaceInvalid normalized)"

definition normalizeCanonicalAccountId :: "string \<Rightarrow> string option" where
  "normalizeCanonicalAccountId value =
     (let canonical = canonicalizeAccountId value in
      if canonical = [] \<or> isBlockedObjectKey canonical then None else Some canonical)"

definition resolveCachedCanonicalAccountId :: "string \<Rightarrow> (string \<times> string option) list \<Rightarrow> string option \<times> (string \<times> string option) list" where
  "resolveCachedCanonicalAccountId value cache =
     (case map_of cache value of
        Some r \<Rightarrow> (r, cache)
      | None \<Rightarrow>
          let normalized = normalizeCanonicalAccountId value in
          (normalized, pruneMapToMaxSize ACCOUNT_ID_CACHE_MAX (AList.update value normalized cache)))"

interpretation account_cache: memo_table id normalizeCanonicalAccountId id "\<lambda>_. True" ACCOUNT_ID_CACHE_MAX resolveCachedCanonicalAccountId
proof unfold_locales
  fix i :: string and m :: "(string \<times> string option) list"
  let ?c = "resolveCachedCanonicalAccountId i m"
  show "fst ?c = normalizeCanonicalAccountId i \<or> (\<exists>v. (id i, v) \<in> set m \<and> fst ?c = id v)"
    by (auto simp: resolveCachedCanonicalAccountId_def Let_def dest: map_of_SomeD split: option.split)
  show "set (snd ?c) \<subseteq> set m \<union> {(id i, v) |v. id v = normalizeCanonicalAccountId i}"
    by (auto simp: resolveCachedCanonicalAccountId_def Let_def dest: set_prune_updateD split: option.split)
qed (auto simp: resolveCachedCanonicalAccountId_def Let_def length_prune split: option.split)

text \<open>The cache cannot be observed, so the readers are given without it.\<close>

definition normalizeAccountId :: "string option \<Rightarrow> string" where
  "normalizeAccountId value =
     (let trimmed = js_trim (case value of Some v \<Rightarrow> v | None \<Rightarrow> []) in
      if trimmed = [] then DEFAULT_ACCOUNT_ID
      else (case normalizeCanonicalAccountId trimmed of Some a \<Rightarrow> a | None \<Rightarrow> DEFAULT_ACCOUNT_ID))"

definition normalizeOptionalAccountId :: "string option \<Rightarrow> string option" where
  "normalizeOptionalAccountId value =
     (let trimmed = js_trim (case value of Some v \<Rightarrow> v | None \<Rightarrow> []) in
      if trimmed = [] then None else normalizeCanonicalAccountId trimmed)"

lemma account_ids_independent_of_cache:
  "fst (run_lookups resolveCachedCanonicalAccountId values []) = map normalizeCanonicalAccountId values \<and>
   length (snd (run_lookups resolveCachedCanonicalAccountId values [])) \<le> ACCOUNT_ID_CACHE_MAX"
  by (intro conjI account_cache.runs_transparent account_cache.runs_bounded) simp_all

section \<open>Chat types and binding scopes\<close>

datatype chat_type = ChatDirect | ChatGroup | ChatChannel

definition normalizeChatType :: "string option \<Rightarrow> chat_type option" where
  "normalizeChatType raw =
     (case normalizeOptionalLowercaseString raw of
        None \<Rightarrow> None
      | Some v \<Rightarrow>
          if v = ''direct'' \<or> v = ''dm'' then Some ChatDirect
          else if v = ''group'' then Some ChatGroup
          else if v = ''channel'' then Some ChatChannel else None)"

fun chatTypeText :: "chat_type \<Rightarrow> string" where
  "chatTypeText ChatDirect = ''direct''"
| "chatTypeText ChatGroup = ''group''"
| "chatTypeText ChatChannel = ''channel''"

definition peerKindMatches :: "chat_type \<Rightarrow> chat_type \<Rightarrow> bool" where
  "peerKindMatches bindingKind scopeKind \<longleftrightarrow>
     bindingKind = scopeKind \<or> (bindingKind = ChatGroup \<and> scopeKind = ChatChannel) \<or>
     (bindingKind = ChatChannel \<and> scopeKind = ChatGroup)"

text \<open>An id as configuration files carry it: text, an integer, or something else.\<close>

datatype raw_id = IdText string | IdNumber int | IdOther

definition normalizeRouteBindingId :: "raw_id \<Rightarrow> string" where
  "normalizeRouteBindingId value =
     (case value of IdText s \<Rightarrow> js_trim s | IdNumber n \<Rightarrow> js_trim (string_of_int n) | IdOther \<Rightarrow> [])"

definition normalizeRouteBindingRoles :: "string list option \<Rightarrow> string list option" where
  "normalizeRouteBindingRoles value = (case value of Some (r # rs) \<Rightarrow> Some (r # rs) | _ \<Rightarrow> None)"

definition scopeIdMatches :: "string option \<Rightarrow> string \<Rightarrow> string \<Rightarrow> bool" where
  "scopeIdMatches constraint exact groupSpace =
     (case constraint of None \<Rightarrow> True | Some c \<Rightarrow> c = [] \<or> c = exact \<or> c = groupSpace)"

definition hasAnyRouteBindingRole :: "string list \<Rightarrow> string list option \<Rightarrow> bool" where
  "hasAnyRouteBindingRole roles memberRoleIds =
     (case memberRoleIds of None \<Rightarrow> False | Some ids \<Rightarrow> list_ex (\<lambda>role. role \<in> set ids) roles)"

record route_constraint =
  rc_guildId :: "string option"
  rc_teamId :: "string option"
  rc_roles :: "string list option"

record route_scope =
  rs_guildId :: raw_id
  rs_teamId :: raw_id
  rs_groupSpace :: raw_id
  rs_memberRoleIds :: "string list option"

definition routeBindingScopeMatches :: "route_constraint \<Rightarrow> route_scope \<Rightarrow> bool" where
  "routeBindingScopeMatches constraint scope =
     (let guildId = normalizeRouteBindingId (rs_guildId scope);
          teamId = normalizeRouteBindingId (rs_teamId scope);
          groupSpace = normalizeRouteBindingId (rs_groupSpace scope) in
      scopeIdMatches (rc_guildId constraint) guildId groupSpace \<and>
      scopeIdMatches (rc_teamId constraint) teamId groupSpace \<and>
      (case normalizeRouteBindingRoles (rc_roles constraint) of
         None \<Rightarrow> True
       | Some roles \<Rightarrow> hasAnyRouteBindingRole roles (rs_memberRoleIds scope)))"

section \<open>What a canonical identifier is\<close>

definition canonical_id :: "string \<Rightarrow> bool" where
  "canonical_id s \<longleftrightarrow> s \<noteq> [] \<and> list_all is_id_char s \<and> length s \<le> 64"

lemma id_char_lower: "is_id_char c \<Longrightarrow> lower_char c = c"
  by (auto simp: is_id_char_def is_alnum_def lower_char_def Let_def)

lemma id_char_not_space: "is_id_char c \<Longrightarrow> \<not> is_js_space c"
  by (auto simp: is_id_char_def is_alnum_def is_js_space_def Let_def)

lemma id_char_not_colon: "is_id_char c \<Longrightarrow> c \<noteq> CHR '':''"
  by (auto simp: is_id_char_def is_alnum_def Let_def)

lemma id_chars_lower: "list_all is_id_char s \<Longrightarrow> js_lower s = s"
  by (induction s) (auto simp: js_lower_def id_char_lower)

lemma id_chars_trim: "list_all is_id_char s \<Longrightarrow> js_trim s = s"
  by (rule js_trim_id) (cases s; auto simp: list_all_iff id_char_not_space)

lemma id_chars_no_colon: "list_all is_id_char s \<Longrightarrow> CHR '':'' \<notin> set s"
  using id_char_not_colon by (auto simp: list_all_iff)

lemma alnum_id_char: "is_alnum c \<Longrightarrow> is_id_char c"
  by (simp add: is_id_char_def)

lemma list_all_replaceInvalidRuns: "list_all is_id_char (replaceInvalidRuns b s)"
  by (induction b s rule: replaceInvalidRuns.induct) (auto simp: is_id_char_def)

lemma replaceInvalidRuns_id: "list_all is_id_char s \<Longrightarrow> replaceInvalidRuns b s = s"
  by (induction s arbitrary: b) auto

lemma list_all_dropWhile: "list_all P s \<Longrightarrow> list_all P (dropWhile Q s)"
  by (induction s) auto

lemma list_all_take: "list_all P s \<Longrightarrow> list_all P (take n s)"
  by (auto simp: list_all_iff dest: in_set_takeD)

lemma list_all_replaceInvalid: "list_all is_id_char (replaceInvalid s)"
  unfolding replaceInvalid_def stripTrailingDashes_def stripLeadingDashes_def
  by (intro list_all_take) (simp add: list_all_dropWhile list_all_replaceInvalidRuns)

lemma length_replaceInvalid: "length (replaceInvalid s) \<le> 64"
  by (simp add: replaceInvalid_def)

lemma hd_replaceInvalid: "replaceInvalid s \<noteq> [] \<Longrightarrow> hd (replaceInvalid s) \<noteq> CHR ''-''"
proof -
  assume n: "replaceInvalid s \<noteq> []"
  let ?t = "stripLeadingDashes (replaceInvalidRuns False s)"
  obtain u where u: "?t = stripTrailingDashes ?t @ u"
    unfolding stripTrailingDashes_def by (metis rev_append rev_rev_ident takeWhile_dropWhile_id)
  have "stripTrailingDashes ?t \<noteq> []" using n by (auto simp: replaceInvalid_def)
  moreover from this have "hd ?t = hd (stripTrailingDashes ?t)" "?t \<noteq> []" using u by (metis hd_append2, auto)
  ultimately show ?thesis
    using hd_dropWhile [of "\<lambda>c. c = CHR ''-''" "replaceInvalidRuns False s"] n
    by (simp add: replaceInvalid_def stripLeadingDashes_def hd_take)
qed

lemma replaceInvalid_id:
  assumes "canonical_id s" "hd s \<noteq> CHR ''-''" "last s \<noteq> CHR ''-''"
  shows "replaceInvalid s = s"
proof -
  have "stripLeadingDashes s = s" using assms by (cases s) (auto simp: stripLeadingDashes_def)
  moreover have "stripTrailingDashes s = s"
    using assms by (cases s rule: rev_cases) (auto simp: stripTrailingDashes_def)
  ultimately show ?thesis using assms(1) by (simp add: replaceInvalid_def canonical_id_def replaceInvalidRuns_id)
qed

lemma valid_lower: "VALID_ID_RE s \<Longrightarrow> canonical_id (js_lower s) \<and> is_alnum (hd (js_lower s))"
  by (auto simp: VALID_ID_RE_def js_lower_def canonical_id_def alnum_id_char split: list.splits)

lemma valid_canonical: "canonical_id s \<Longrightarrow> VALID_ID_RE s \<longleftrightarrow> is_alnum (hd s)"
  using id_chars_lower [of s] by (cases s) (auto simp: VALID_ID_RE_def canonical_id_def js_lower_def)

lemma normalizeAgentId_canonical:
  "canonical_id (normalizeAgentId v) \<and> hd (normalizeAgentId v) \<noteq> CHR ''-''"
proof -
  let ?t = "js_trim (case v of Some v \<Rightarrow> v | None \<Rightarrow> [])"
  have d: "hd s \<noteq> CHR ''-''" if "is_alnum (hd s)" for s using that by (auto simp: is_alnum_def Let_def)
  have m: "canonical_id ''main''" by (simp add: canonical_id_def is_id_char_def is_alnum_def)
  show ?thesis
  proof (cases "VALID_ID_RE ?t")
    case True
    then show ?thesis using valid_lower [OF True] d
      by (simp add: normalizeAgentId_def normalizeAgentIdStrict_def Let_def)
  next
    case False
    then show ?thesis using hd_replaceInvalid [of "js_lower ?t"] list_all_replaceInvalid length_replaceInvalid m
      by (auto simp: normalizeAgentId_def normalizeAgentIdStrict_def Let_def canonical_id_def)
  qed
qed

lemma normalizeAgentId_id:
  assumes "canonical_id s" "hd s \<noteq> CHR ''-''" "is_alnum (hd s) \<or> last s \<noteq> CHR ''-''"
  shows "normalizeAgentId (Some s) = s"
proof -
  have s: "js_trim s = s" "js_lower s = s" "s \<noteq> []"
    using assms(1) by (auto simp: canonical_id_def id_chars_trim id_chars_lower)
  show ?thesis
    using valid_canonical [OF assms(1)] replaceInvalid_id [OF assms(1,2)] assms(3) s
    by (auto simp: normalizeAgentId_def normalizeAgentIdStrict_def Let_def)
qed

text \<open>
  Agent ids are safe names: whatever the input, the normalised id is non-empty, at most 64
  characters, made of lower-case letters, digits, underscores and dashes, and does not start with a dash; and
  normalising it again changes nothing, unless it starts with an underscore and was cut at a dash.
\<close>

theorem agent_ids_canonical:
  "canonical_id (normalizeAgentId v) \<and> hd (normalizeAgentId v) \<noteq> CHR ''-'' \<and>
   (normalizeAgentId (Some (normalizeAgentId v)) = normalizeAgentId v \<or>
    hd (normalizeAgentId v) = CHR ''_'' \<and> last (normalizeAgentId v) = CHR ''-'')"
proof (intro conjI)
  let ?s = "normalizeAgentId v"
  have c: "canonical_id ?s" and h: "hd ?s \<noteq> CHR ''-''" using normalizeAgentId_canonical by blast+
  then have "is_id_char (hd ?s)" by (cases ?s) (auto simp: canonical_id_def)
  with h have "is_alnum (hd ?s) \<or> hd ?s = CHR ''_''" by (auto simp: is_id_char_def)
  with normalizeAgentId_id [OF c h]
  show "normalizeAgentId (Some ?s) = ?s \<or> hd ?s = CHR ''_'' \<and> last ?s = CHR ''-''" by auto
qed (use normalizeAgentId_canonical in auto)

text \<open>The exception is real: an over-long id that starts with an underscore and has a separator at the cut.\<close>

lemma agent_id_not_stable:
  "let raw = ''_'' @ replicate 62 (CHR ''a'') @ ''!b'' in
   normalizeAgentId (Some (normalizeAgentId (Some raw))) \<noteq> normalizeAgentId (Some raw)"
  by code_simp

lemma canonicalizeAccountId_chars: "list_all is_id_char (canonicalizeAccountId v) \<and> length (canonicalizeAccountId v) \<le> 64"
proof (cases "VALID_ID_RE v")
  case True
  have "js_trim (js_lower v) = js_lower v" using valid_lower [OF True] by (simp add: canonical_id_def id_chars_trim)
  then have "js_lower (js_trim v) = js_lower v" by (simp add: js_trim_lower)
  with valid_lower [OF True] True show ?thesis by (simp add: canonicalizeAccountId_def canonical_id_def)
qed (simp add: canonicalizeAccountId_def Let_def list_all_replaceInvalid length_replaceInvalid)

text \<open>
  Account ids are safe object keys: the normalised account id is a canonical identifier and never one
  of the names that reach an object's prototype, and absent or unusable input selects the default account.
\<close>

theorem account_ids_safe:
  "canonical_id (normalizeAccountId v) \<and> \<not> isBlockedObjectKey (normalizeAccountId v) \<and>
   normalizeAccountId v = (case normalizeOptionalAccountId v of Some a \<Rightarrow> a | None \<Rightarrow> DEFAULT_ACCOUNT_ID)"
proof -
  have d: "canonical_id DEFAULT_ACCOUNT_ID \<and> \<not> isBlockedObjectKey DEFAULT_ACCOUNT_ID"
    by (simp add: canonical_id_def DEFAULT_ACCOUNT_ID_def is_id_char_def is_alnum_def isBlockedObjectKey_def)
  have "canonical_id a \<and> \<not> isBlockedObjectKey a" if "normalizeCanonicalAccountId t = Some a" for t a
    using that canonicalizeAccountId_chars [of t]
    by (auto simp: normalizeCanonicalAccountId_def Let_def canonical_id_def split: if_splits)
  with d show ?thesis
    by (auto simp: normalizeAccountId_def normalizeOptionalAccountId_def Let_def split: option.split)
qed

end
