(* ===== verification/AgentRoster.thy ===== *)
theory AgentRoster
  imports Identifiers
begin

text \<open>
  The configured agents and the owner of work that names none (\<open>src/agents/agent-scope-config.ts\<close>). A roster is
  the keyed \<open>entries\<close> record or the legacy \<open>list\<close> array; values of the wrong shape are kept as such. The
  owner retained from a migrated configuration (a WeakMap of legacy.default-agent-owner-state.ts) is an
  argument.
\<close>

section \<open>Rosters\<close>

record agent_entry =
  ag_id :: "string option"
  ag_default :: "bool option"

datatype roster_entries = EntriesRecord "(string \<times> agent_entry option) list" | EntriesOther
datatype roster_list = ListArray "agent_entry option list" | ListOther
datatype roster_property = RosterEntries roster_entries | RosterList roster_list
datatype entry_source = SourceKey string | SourceIndex nat

record agents_config =
  ac_entries :: "roster_entries option"
  ac_list :: "roster_list option"
  ac_ownership :: "string option"
  ac_systemAgentId :: "string option"

definition readAgentRosterProperty :: "agents_config option \<Rightarrow> roster_property option" where
  "readAgentRosterProperty agents =
     (case agents of
        None \<Rightarrow> None
      | Some a \<Rightarrow>
          (case ac_entries a of
             Some e \<Rightarrow> Some (RosterEntries e)
           | None \<Rightarrow> map_option RosterList (ac_list a)))"

definition hasAgentRosterProperty :: "agents_config option \<Rightarrow> bool" where
  "hasAgentRosterProperty agents \<longleftrightarrow> readAgentRosterProperty agents \<noteq> None"

definition listAgentEntriesWithSource :: "agents_config option \<Rightarrow> (agent_entry \<times> entry_source) list" where
  "listAgentEntriesWithSource agents =
     (case readAgentRosterProperty agents of
        Some (RosterEntries (EntriesRecord es)) \<Rightarrow>
          List.map_filter (\<lambda>(k, e). map_option (\<lambda>e. (e\<lparr>ag_id := Some k\<rparr>, SourceKey k)) e) es
      | Some (RosterList (ListArray es)) \<Rightarrow>
          List.map_filter (\<lambda>(i, e). map_option (\<lambda>e. (e, SourceIndex i)) e) (enumerate 0 es)
      | _ \<Rightarrow> [])"

definition listAgentEntries :: "agents_config option \<Rightarrow> agent_entry list" where
  "listAgentEntries agents = map fst (listAgentEntriesWithSource agents)"

definition listAgentIds :: "agents_config option \<Rightarrow> string list" where
  "listAgentIds agents =
     (if listAgentEntries agents = [] \<and> \<not> hasAgentRosterProperty agents then [''main'']
      else uniqueValues (map (\<lambda>e. normalizeAgentId (ag_id e)) (listAgentEntries agents)))"

section \<open>Owners\<close>

datatype agent_error = UnknownAgent string | NoAgentsConfigured | SelectionRequired "string list"

definition resolveConfiguredAgentId :: "agents_config option \<Rightarrow> string \<Rightarrow> agent_error + string" where
  "resolveConfiguredAgentId agents agentId =
     (if agentId \<in> set (listAgentIds agents) then Inr agentId else Inl (UnknownAgent agentId))"

definition tryResolveSoleAgentId :: "agents_config option \<Rightarrow> string option" where
  "tryResolveSoleAgentId agents =
     (case listAgentEntries agents of
        [] \<Rightarrow> if \<not> hasAgentRosterProperty agents then Some ''main'' else None
      | [e] \<Rightarrow> Some (normalizeAgentId (ag_id e))
      | _ \<Rightarrow> None)"

definition resolveSoleAgentId :: "agents_config option \<Rightarrow> agent_error + string" where
  "resolveSoleAgentId agents =
     (case tryResolveSoleAgentId agents of
        Some sole \<Rightarrow> Inr sole
      | None \<Rightarrow>
          let agentIds = listAgentIds agents in
          if agentIds = [] then Inl NoAgentsConfigured else Inl (SelectionRequired agentIds))"

definition tryResolveRawLegacyDefaultAgentId :: "agents_config option \<Rightarrow> string option" where
  "tryResolveRawLegacyDefaultAgentId agents =
     (if Option.bind agents ac_ownership = Some ''explicit'' then None
      else (case filter (\<lambda>e. ag_default e = Some True) (listAgentEntries agents) of
              [e] \<Rightarrow> Some (normalizeAgentId (ag_id e))
            | _ \<Rightarrow> None))"

definition resolveDefaultAgentId :: "agents_config option \<Rightarrow> agent_error + string" where
  "resolveDefaultAgentId agents =
     (case tryResolveRawLegacyDefaultAgentId agents of Some a \<Rightarrow> Inr a | None \<Rightarrow> resolveSoleAgentId agents)"

definition tryResolveDefaultAgentId :: "agents_config option \<Rightarrow> string option" where
  "tryResolveDefaultAgentId agents =
     (case tryResolveRawLegacyDefaultAgentId agents of Some a \<Rightarrow> Some a | None \<Rightarrow> tryResolveSoleAgentId agents)"

definition tryResolveLegacyCompatibilityAgentId :: "string option \<Rightarrow> agents_config option \<Rightarrow> string option" where
  "tryResolveLegacyCompatibilityAgentId retained agents =
     (case retained of
        Some r \<Rightarrow> if r \<noteq> [] \<and> r \<in> set (listAgentIds agents) then Some r else tryResolveDefaultAgentId agents
      | None \<Rightarrow> tryResolveDefaultAgentId agents)"

definition tryResolveAmbientOwnerAgentId :: "string option \<Rightarrow> agents_config option \<Rightarrow> string option \<Rightarrow> string option" where
  "tryResolveAmbientOwnerAgentId retained agents requested =
     (let explicit = (case Option.bind requested normalizeOptionalString of
                        Some r \<Rightarrow> Some r
                      | None \<Rightarrow> Option.bind (Option.bind agents ac_systemAgentId) normalizeOptionalString) in
      case explicit of
        Some a \<Rightarrow> Some (normalizeAgentId (Some a))
      | None \<Rightarrow> tryResolveLegacyCompatibilityAgentId retained agents)"

definition resolveAmbientOwnerAgentId :: "string option \<Rightarrow> agents_config option \<Rightarrow> string option \<Rightarrow> agent_error + string" where
  "resolveAmbientOwnerAgentId retained agents requested =
     (case tryResolveAmbientOwnerAgentId retained agents requested of
        Some a \<Rightarrow> Inr a | None \<Rightarrow> resolveSoleAgentId agents)"

definition resolveAgentOperationAgentId :: "string option \<Rightarrow> agents_config option \<Rightarrow> string option \<Rightarrow> agent_error + string" where
  "resolveAgentOperationAgentId retained agents requested =
     (if requested \<noteq> None \<or> Option.bind agents ac_ownership = Some ''explicit''
      then resolveAmbientOwnerAgentId retained agents requested
      else (case tryResolveLegacyCompatibilityAgentId retained agents of
              Some a \<Rightarrow> Inr a | None \<Rightarrow> resolveDefaultAgentId agents))"

definition resolveAgentEntry :: "agents_config option \<Rightarrow> string \<Rightarrow> agent_entry option" where
  "resolveAgentEntry agents agentId =
     (let target = normalizeAgentId (Some agentId) in
      case readAgentRosterProperty agents of
        Some (RosterEntries (EntriesRecord es)) \<Rightarrow>
          (case find (\<lambda>(k, e). e \<noteq> None \<and> normalizeAgentId (Some k) = target) es of
             Some (k, Some e) \<Rightarrow> Some (e\<lparr>ag_id := Some k\<rparr>)
           | _ \<Rightarrow> None)
      | Some (RosterList (ListArray es)) \<Rightarrow>
          Option.bind (find (\<lambda>e. case e of Some e \<Rightarrow> normalizeAgentId (ag_id e) = target | None \<Rightarrow> False) es) id
      | _ \<Rightarrow> None)"

section \<open>Properties\<close>

lemma sole_listed: "tryResolveSoleAgentId agents = Some a \<Longrightarrow> a \<in> set (listAgentIds agents)"
  by (auto simp: tryResolveSoleAgentId_def listAgentIds_def split: list.splits if_splits)

lemma legacy_listed: "tryResolveRawLegacyDefaultAgentId agents = Some a \<Longrightarrow> a \<in> set (listAgentIds agents)"
proof -
  assume a: "tryResolveRawLegacyDefaultAgentId agents = Some a"
  then obtain e where e: "filter (\<lambda>e. ag_default e = Some True) (listAgentEntries agents) = [e]" "a = normalizeAgentId (ag_id e)"
    by (auto simp: tryResolveRawLegacyDefaultAgentId_def split: if_splits list.splits)
  then have "e \<in> set (listAgentEntries agents)" by (metis filter_is_subset in_mono list.set_intros(1))
  with e(2) show ?thesis by (auto simp: listAgentIds_def)
qed

lemma default_listed: "tryResolveDefaultAgentId agents = Some a \<Longrightarrow> a \<in> set (listAgentIds agents)"
  by (auto simp: tryResolveDefaultAgentId_def intro: sole_listed legacy_listed split: option.splits)

lemma compatibility_listed: "tryResolveLegacyCompatibilityAgentId retained agents = Some a \<Longrightarrow> a \<in> set (listAgentIds agents)"
  by (auto simp: tryResolveLegacyCompatibilityAgentId_def intro: default_listed split: option.splits if_splits)

lemma resolveSole_cases:
  "case resolveSoleAgentId agents of
     Inr a \<Rightarrow> a \<in> set (listAgentIds agents)
   | Inl NoAgentsConfigured \<Rightarrow> listAgentIds agents = []
   | Inl (SelectionRequired ids) \<Rightarrow> ids = listAgentIds agents \<and> 2 \<le> length (listAgentEntries agents)
   | Inl (UnknownAgent _) \<Rightarrow> False"
proof (cases "tryResolveSoleAgentId agents")
  case (Some a)
  then show ?thesis using sole_listed [OF Some] by (simp add: resolveSoleAgentId_def)
next
  case None
  then have "listAgentEntries agents = [] \<and> hasAgentRosterProperty agents \<or> 2 \<le> length (listAgentEntries agents)"
    by (auto simp: tryResolveSoleAgentId_def split: list.splits if_splits)
  with None show ?thesis by (auto simp: resolveSoleAgentId_def Let_def listAgentIds_def)
qed

text \<open>
  Work that names no agent is never given to one that is not configured: the default owner is a
  configured agent, and the failure is exact (no agent is configured, or at least two entries are and the error lists
  their ids).
\<close>

theorem default_agent_is_configured:
  "case resolveDefaultAgentId agents of
     Inr a \<Rightarrow> a \<in> set (listAgentIds agents)
   | Inl NoAgentsConfigured \<Rightarrow> listAgentIds agents = []
   | Inl (SelectionRequired ids) \<Rightarrow> ids = listAgentIds agents \<and> 2 \<le> length (listAgentEntries agents)
   | Inl (UnknownAgent _) \<Rightarrow> False"
proof (cases "tryResolveRawLegacyDefaultAgentId agents")
  case None
  then show ?thesis using resolveSole_cases [of agents] by (simp add: resolveDefaultAgentId_def)
next
  case (Some a)
  then show ?thesis using legacy_listed [OF Some] by (simp add: resolveDefaultAgentId_def)
qed

text \<open>The point lookup agrees with a search of the listed entries.\<close>

lemma resolveAgentEntry_eq:
  "resolveAgentEntry agents agentId =
     find (\<lambda>e. normalizeAgentId (ag_id e) = normalizeAgentId (Some agentId)) (listAgentEntries agents)"
proof -
  let ?t = "normalizeAgentId (Some agentId)"
  have k: "(case find (\<lambda>(k, e). e \<noteq> None \<and> normalizeAgentId (Some k) = ?t) es of
              Some (k, Some e) \<Rightarrow> Some (e\<lparr>ag_id := Some k\<rparr>) | _ \<Rightarrow> None) =
      find (\<lambda>e. normalizeAgentId (ag_id e) = ?t)
        (map fst (List.map_filter (\<lambda>(k, e). map_option (\<lambda>e. (e\<lparr>ag_id := Some k\<rparr>, SourceKey k)) e) es))" for es
    by (induction es) (auto simp: map_filter_simps split: option.splits)
  have l: "Option.bind (find (\<lambda>e. case e of Some e \<Rightarrow> normalizeAgentId (ag_id e) = ?t | None \<Rightarrow> False) es) id =
      find (\<lambda>e. normalizeAgentId (ag_id e) = ?t)
        (map fst (List.map_filter (\<lambda>(i, e). map_option (\<lambda>e. (e, SourceIndex i)) e) (enumerate n es)))" for es n
    by (induction es arbitrary: n) (auto simp: map_filter_simps split: option.splits)
  note d = resolveAgentEntry_def listAgentEntries_def listAgentEntriesWithSource_def Let_def
  consider es where "readAgentRosterProperty agents = Some (RosterEntries (EntriesRecord es))"
    | es where "readAgentRosterProperty agents = Some (RosterList (ListArray es))"
    | "readAgentRosterProperty agents \<in> {None, Some (RosterEntries EntriesOther), Some (RosterList ListOther)}"
    by (cases "readAgentRosterProperty agents") (auto, metis roster_property.exhaust roster_entries.exhaust roster_list.exhaust)
  then show ?thesis
  proof cases
    case (1 es)
    show ?thesis unfolding d 1 option.case roster_property.case roster_entries.case by (rule k)
  next
    case (2 es)
    show ?thesis unfolding d 2 option.case roster_property.case roster_list.case by (rule l)
  next
    case 3
    then show ?thesis unfolding d by auto
  qed
qed

end
