(* ===== verification/SessionKeys.thy ===== *)
theory SessionKeys
  imports Identifiers
begin

text \<open>
  Session keys: normalising, parsing and classifying them (\<open>src/sessions/session-key-utils.ts\<close>,
  \<open>src/shared/incognito-session-key.ts\<close>) and building them from routes (\<open>src/routing/session-key.ts\<close>).

  The regular expressions are written out as recursive matchers over the key; each has no ambiguity, so no
  backtracking is lost. A span is its start, its end and whether the preserved text is trimmed.
\<close>

section \<open>Peers with case-sensitive ids\<close>

datatype preserve_span = SpanSegment | SpanTail

record preserving_peer =
  cp_channel :: string
  cp_peerKinds :: "string list"
  cp_span :: preserve_span
  cp_unscoped :: bool

definition CASE_PRESERVING_PEERS :: "preserving_peer list" where
  "CASE_PRESERVING_PEERS =
     [\<lparr>cp_channel = ''signal'', cp_peerKinds = [''group''], cp_span = SpanSegment, cp_unscoped = True\<rparr>,
      \<lparr>cp_channel = ''matrix'', cp_peerKinds = [''channel'', ''group''], cp_span = SpanTail, cp_unscoped = True\<rparr>]"

definition findCasePreservingPeerDescriptor :: "string option \<Rightarrow> string option \<Rightarrow> preserving_peer option" where
  "findCasePreservingPeerDescriptor channel peerKind =
     (let c = normalizeLowercaseStringOrEmpty channel; k = normalizeLowercaseStringOrEmpty peerKind in
      find (\<lambda>d. cp_channel d = c \<and> k \<in> set (cp_peerKinds d)) CASE_PRESERVING_PEERS)"

definition isCasePreservingPeer :: "string option \<Rightarrow> string option \<Rightarrow> bool" where
  "isCasePreservingPeer channel peerKind \<longleftrightarrow>
     findCasePreservingPeerDescriptor (Some (normalizeLowercaseStringOrEmpty channel))
       (Some (normalizeLowercaseStringOrEmpty peerKind)) \<noteq> None"

text \<open>The loop over leading \<open>agent:<id>\<close> pairs of a split key: whether there was one, and what is left.\<close>

fun skipOwners :: "string list \<Rightarrow> bool \<times> string list" where
  "skipOwners (a # b # c # ps) =
     (if normalizeOptionalLowercaseString (Some a) = Some ''agent'' then (True, snd (skipOwners (c # ps)))
      else (False, a # b # c # ps))"
| "skipOwners ps = (False, ps)"

definition nth_opt :: "'a list \<Rightarrow> nat \<Rightarrow> 'a option" where
  "nth_opt xs i = (if i < length xs then Some (xs ! i) else None)"

definition requiresFoldedSessionKeyAliasProof :: "string option \<Rightarrow> bool" where
  "requiresFoldedSessionKeyAliasProof sessionKey =
     (case Option.bind sessionKey normalizeOptionalString of
        None \<Rightarrow> False
      | Some raw \<Rightarrow>
          let (hasAgentWrapper, rest) = skipOwners (js_split CHR '':'' raw);
              body = (if hasAgentWrapper then dropWhile (\<lambda>p. normalizeOptionalString p = None) rest else rest) in
          (case findCasePreservingPeerDescriptor (nth_opt body 0) (nth_opt body 1) of
             Some d \<Rightarrow> cp_span d = SpanTail | None \<Rightarrow> False))"

definition normalizeSessionPeerId :: "string option \<Rightarrow> string option \<Rightarrow> string option \<Rightarrow> string" where
  "normalizeSessionPeerId channel peerKind peerId =
     (let p = js_trim (case peerId of Some v \<Rightarrow> v | None \<Rightarrow> []) in
      if p = [] then []
      else if isCasePreservingPeer channel peerKind then p else normalizeLowercaseStringOrEmpty (Some p))"

section \<open>Normalising a key\<close>

type_synonym span = "nat \<times> nat \<times> bool"

definition mayContainCasePreservingPeer :: "string \<Rightarrow> bool" where
  "mayContainCasePreservingPeer raw \<longleftrightarrow>
     list_ex (\<lambda>d. js_includes (cp_channel d @ '':'') (js_lower raw)) CASE_PRESERVING_PEERS"

text \<open>
  All matches of \<open>(^|:)channel:kind:([^:]+)\<close>, left to right: \<open>pos\<close> is the offset of the text in the key.
\<close>

definition segmentAt :: "string \<Rightarrow> nat \<Rightarrow> string \<Rightarrow> bool" where
  "segmentAt pat off s \<longleftrightarrow>
     starts_with pat (js_lower (drop off s)) \<and>
     (case drop (off + length pat) s of [] \<Rightarrow> False | c # _ \<Rightarrow> c \<noteq> CHR '':'')"

definition segmentStart :: "string \<Rightarrow> nat \<Rightarrow> string \<Rightarrow> nat option" where
  "segmentStart pat pos s =
     (if pos = 0 \<and> segmentAt pat 0 s then Some (length pat)
      else if hd s = CHR '':'' \<and> segmentAt pat 1 s then Some (Suc (length pat)) else None)"

function segmentSpans :: "string \<Rightarrow> nat \<Rightarrow> string \<Rightarrow> span list" where
  "segmentSpans pat pos s =
     (if s = [] then []
      else (case segmentStart pat pos s of
              None \<Rightarrow> segmentSpans pat (Suc pos) (tl s)
            | Some k \<Rightarrow>
                let n = length (takeWhile (\<lambda>c. c \<noteq> CHR '':'') (drop k s)) in
                (pos + k, pos + k + n, True) #
                  (if n = 0 then [] else segmentSpans pat (pos + k + n) (drop (k + n) s))))"
  by pat_completeness auto
termination
  by (relation "measure (\<lambda>(pat, pos, s). length s)") (auto simp: length_greater_0_conv)

declare segmentSpans.simps [simp del]

text \<open>\<open>agent:[^:]*:\<close>, once and repeatedly.\<close>

definition stripOwner :: "string \<Rightarrow> string option" where
  "stripOwner s =
     (if starts_with ''agent:'' (js_lower s)
      then (case dropWhile (\<lambda>c. c \<noteq> CHR '':'') (drop 6 s) of [] \<Rightarrow> None | _ # r \<Rightarrow> Some r)
      else None)"

lemma stripOwner_shorter: "stripOwner s = Some r \<Longrightarrow> length r < length s"
proof -
  assume s: "stripOwner s = Some r"
  then have "length (dropWhile (\<lambda>c. c \<noteq> CHR '':'') (drop 6 s)) = Suc (length r)"
    by (auto simp: stripOwner_def split: if_splits list.splits)
  moreover have "length (dropWhile (\<lambda>c. c \<noteq> CHR '':'') (drop 6 s)) \<le> length (drop 6 s)" by (rule length_dropWhile_le)
  ultimately show ?thesis by simp
qed

function stripOwners :: "string \<Rightarrow> string" where
  "stripOwners s = (case stripOwner s of None \<Rightarrow> s | Some r \<Rightarrow> stripOwners r)"
  by pat_completeness auto
termination
  by (relation "measure length") (auto simp: stripOwner_shorter)

declare stripOwners.simps [simp del]

text \<open>The end of \<open>^(?:agent:[^:]*:)+:*channel:kind:\<close>, and of the unscoped form.\<close>

definition scopedTailStart :: "string \<Rightarrow> string \<Rightarrow> nat option" where
  "scopedTailStart pat raw =
     (case stripOwner raw of
        None \<Rightarrow> None
      | Some r \<Rightarrow>
          let body = dropWhile (\<lambda>c. c = CHR '':'') (stripOwners r) in
          if starts_with pat (js_lower body) then Some (length raw - length body + length pat) else None)"

definition unscopedTailStart :: "string \<Rightarrow> string \<Rightarrow> nat option" where
  "unscopedTailStart pat raw = (if starts_with pat (js_lower raw) then Some (length pat) else None)"

definition threadMarker :: string where "threadMarker = '':thread:''"

definition collectTailSpan :: "string \<Rightarrow> nat \<Rightarrow> span list" where
  "collectTailSpan raw tailStart =
     (if tailStart \<ge> length raw then []
      else let tail = drop tailStart raw in
        (case last_index threadMarker (normalizeLowercaseStringOrEmpty (Some tail)) of
           None \<Rightarrow> [(tailStart, length raw, False)]
         | Some markerIndex \<Rightarrow>
             let threadIdStart = tailStart + markerIndex + length threadMarker in
             (tailStart, tailStart + markerIndex, False) #
             (if threadIdStart < length raw then [(threadIdStart, length raw, False)] else [])))"

definition collectCasePreservedSpans :: "string \<Rightarrow> span list" where
  "collectCasePreservedSpans raw =
     concat (map (\<lambda>d. concat (map (\<lambda>kind.
        let pat = cp_channel d @ '':'' @ kind @ '':'' in
        (case cp_span d of
           SpanSegment \<Rightarrow> segmentSpans pat 0 raw
         | SpanTail \<Rightarrow>
             (case scopedTailStart pat raw of
                Some n \<Rightarrow> collectTailSpan raw n
              | None \<Rightarrow>
                  if cp_unscoped d
                  then (case unscopedTailStart pat raw of Some n \<Rightarrow> collectTailSpan raw n | None \<Rightarrow> [])
                  else []))) (cp_peerKinds d))) CASE_PRESERVING_PEERS)"

definition slice :: "nat \<Rightarrow> nat \<Rightarrow> string \<Rightarrow> string" where
  "slice a b s = take (b - a) (drop a s)"

fun emitSpans :: "string \<Rightarrow> nat \<Rightarrow> span list \<Rightarrow> string" where
  "emitSpans raw cursor [] = normalizeLowercaseStringOrEmpty (Some (drop cursor raw))"
| "emitSpans raw cursor ((a, b, trim) # spans) =
     (if a < cursor then emitSpans raw cursor spans
      else normalizeLowercaseStringOrEmpty (Some (slice cursor a raw)) @
           (if trim then js_trim (slice a b raw) else slice a b raw) @
           emitSpans raw b spans)"

definition compareSpanStart :: "span \<Rightarrow> span \<Rightarrow> int" where
  "compareSpanStart x y = int (fst x) - int (fst y)"

definition normalizeTrimmedSessionKey :: "string \<Rightarrow> string" where
  "normalizeTrimmedSessionKey raw =
     (if \<not> mayContainCasePreservingPeer raw then js_lower raw
      else emitSpans raw 0 (sort_by compareSpanStart (filter (\<lambda>(a, b, _). b > a) (collectCasePreservedSpans raw))))"

definition NORMALIZED_SESSION_KEY_CACHE_MAX_ENTRIES :: nat where "NORMALIZED_SESSION_KEY_CACHE_MAX_ENTRIES = 2048"
definition NORMALIZED_SESSION_KEY_CACHE_MAX_LENGTH :: nat where "NORMALIZED_SESSION_KEY_CACHE_MAX_LENGTH = 4096"

definition readNormalizedSessionKeyCache :: "string \<Rightarrow> (string \<times> string) list \<Rightarrow> string option" where
  "readNormalizedSessionKeyCache raw cache =
     (if length raw \<le> NORMALIZED_SESSION_KEY_CACHE_MAX_LENGTH then map_of cache raw else None)"

definition writeNormalizedSessionKeyCache :: "string \<Rightarrow> string \<Rightarrow> (string \<times> string) list \<Rightarrow> (string \<times> string) list" where
  "writeNormalizedSessionKeyCache raw normalized cache =
     (if length raw > NORMALIZED_SESSION_KEY_CACHE_MAX_LENGTH then cache
      else pruneMapToMaxSize NORMALIZED_SESSION_KEY_CACHE_MAX_ENTRIES (AList.update raw normalized cache))"

definition normalizeSessionKeyCached :: "string \<Rightarrow> (string \<times> string) list \<Rightarrow> string \<times> (string \<times> string) list" where
  "normalizeSessionKeyCached raw cache =
     (case readNormalizedSessionKeyCache raw cache of
        Some normalized \<Rightarrow> (normalized, cache)
      | None \<Rightarrow>
          let normalized = normalizeTrimmedSessionKey raw in
          (normalized, writeNormalizedSessionKeyCache raw normalized cache))"

interpretation key_cache: memo_table id normalizeTrimmedSessionKey id "\<lambda>_. True"
  NORMALIZED_SESSION_KEY_CACHE_MAX_ENTRIES normalizeSessionKeyCached
proof unfold_locales
  fix i :: string and m :: "(string \<times> string) list"
  let ?c = "normalizeSessionKeyCached i m"
  note defs = normalizeSessionKeyCached_def readNormalizedSessionKeyCache_def writeNormalizedSessionKeyCache_def Let_def
  show "fst ?c = normalizeTrimmedSessionKey i \<or> (\<exists>v. (id i, v) \<in> set m \<and> fst ?c = id v)"
    by (auto simp: defs dest: map_of_SomeD split: option.split)
  show "set (snd ?c) \<subseteq> set m \<union> {(id i, v) |v. id v = normalizeTrimmedSessionKey i}"
    by (auto simp: defs dest: set_prune_updateD split: option.split)
  show "length m \<le> NORMALIZED_SESSION_KEY_CACHE_MAX_ENTRIES \<Longrightarrow> length (snd ?c) \<le> NORMALIZED_SESSION_KEY_CACHE_MAX_ENTRIES"
    by (auto simp: defs length_prune split: option.split)
qed simp

text \<open>As with account ids, the cache cannot be observed, and the readers are given without it.\<close>

lemma session_keys_independent_of_cache:
  "fst (run_lookups normalizeSessionKeyCached keys []) = map normalizeTrimmedSessionKey keys \<and>
   length (snd (run_lookups normalizeSessionKeyCached keys [])) \<le> NORMALIZED_SESSION_KEY_CACHE_MAX_ENTRIES"
  by (intro conjI key_cache.runs_transparent key_cache.runs_bounded) simp_all

definition normalizeSessionKeyPreservingOpaquePeerIds :: "string option \<Rightarrow> string" where
  "normalizeSessionKeyPreservingOpaquePeerIds sessionKey =
     (case Option.bind sessionKey normalizeOptionalString of None \<Rightarrow> [] | Some raw \<Rightarrow> normalizeTrimmedSessionKey raw)"

section \<open>Parsing and classifying\<close>

record parsed_agent_key =
  pk_agentId :: string
  pk_rest :: string

definition parseAgentSessionKey :: "string option \<Rightarrow> parsed_agent_key option" where
  "parseAgentSessionKey sessionKey =
     (let raw = normalizeSessionKeyPreservingOpaquePeerIds sessionKey in
      if raw = [] \<or> \<not> starts_with ''agent:'' raw then None
      else (case dropWhile (\<lambda>c. c \<noteq> CHR '':'') (drop 6 raw) of
              [] \<Rightarrow> None
            | _ # rest \<Rightarrow>
                (case normalizeOptionalString (takeWhile (\<lambda>c. c \<noteq> CHR '':'') (drop 6 raw)) of
                   None \<Rightarrow> None
                 | Some agentId \<Rightarrow>
                     if rest = [] \<or> starts_with '':'' rest then None
                     else Some \<lparr>pk_agentId = agentId, pk_rest = rest\<rparr>)))"

text \<open>\<open>^cron:[^:]+:run:[^:]+(?::|$)\<close> and the same with only the end allowed, over the split rest.\<close>

fun cronRunPrefix :: "string list \<Rightarrow> bool" where
  "cronRunPrefix (a # job # r # run # _) = (a = ''cron'' \<and> job \<noteq> [] \<and> r = ''run'' \<and> run \<noteq> [])"
| "cronRunPrefix _ = False"

definition isCronRunSessionKey :: "string option \<Rightarrow> bool" where
  "isCronRunSessionKey sessionKey =
     (case parseAgentSessionKey sessionKey of
        None \<Rightarrow> False | Some parsed \<Rightarrow> cronRunPrefix (js_split CHR '':'' (pk_rest parsed)))"

text \<open>The base key and the run id; \<open>slice(0, -1)\<close> is what the code computes for a missing marker.\<close>

definition parseCronRunScopeSuffix :: "string option \<Rightarrow> string option \<times> string option" where
  "parseCronRunScopeSuffix sessionKey =
     (case Option.bind sessionKey normalizeOptionalString of
        None \<Rightarrow> (None, None)
      | Some raw \<Rightarrow>
          (case parseAgentSessionKey (Some raw) of
             None \<Rightarrow> (Some raw, None)
           | Some parsed \<Rightarrow>
               let parts = js_split CHR '':'' (pk_rest parsed) in
               if \<not> (cronRunPrefix parts \<and> length parts = 4) then (Some raw, None)
               else (case last_index '':run:'' (js_lower raw) of
                       Some i \<Rightarrow> (Some (take i raw), Some (drop (i + 5) raw))
                     | None \<Rightarrow> (Some (butlast raw), Some (drop 4 raw)))))"

definition restStartsWith :: "string \<Rightarrow> parsed_agent_key option \<Rightarrow> bool" where
  "restStartsWith p parsed =
     (case parsed of
        None \<Rightarrow> False
      | Some k \<Rightarrow> (case normalizeOptionalLowercaseString (Some (pk_rest k)) of None \<Rightarrow> False | Some r \<Rightarrow> starts_with p r))"

definition isCronSessionKey :: "string option \<Rightarrow> bool" where
  "isCronSessionKey sessionKey = restStartsWith ''cron:'' (parseAgentSessionKey sessionKey)"

definition isSubagentSessionKey :: "string option \<Rightarrow> bool" where
  "isSubagentSessionKey sessionKey =
     (case Option.bind sessionKey normalizeOptionalString of
        None \<Rightarrow> False
      | Some raw \<Rightarrow> starts_with ''subagent:'' (js_lower raw) \<or> restStartsWith ''subagent:'' (parseAgentSessionKey (Some raw)))"

definition isAcpSessionKey :: "string option \<Rightarrow> bool" where
  "isAcpSessionKey sessionKey =
     (case Option.bind sessionKey normalizeOptionalString of
        None \<Rightarrow> False
      | Some raw \<Rightarrow> starts_with ''acp:'' (js_lower raw) \<or> restStartsWith ''acp:'' (parseAgentSessionKey (Some raw)))"

text \<open>The number of matches of \<open>(^|:)subagent:\<close>: a match consumes its closing colon.\<close>

function subagentMatches :: "bool \<Rightarrow> string \<Rightarrow> nat" where
  "subagentMatches atStart s =
     (if s = [] then 0
      else if atStart \<and> starts_with ''subagent:'' s then Suc (subagentMatches False (drop 9 s))
      else if starts_with '':subagent:'' s then Suc (subagentMatches False (drop 10 s))
      else subagentMatches False (tl s))"
  by pat_completeness auto
termination
  by (relation "measure (\<lambda>(b, s). length s)") auto

declare subagentMatches.simps [simp del]

definition getSubagentDepth :: "string option \<Rightarrow> nat" where
  "getSubagentDepth sessionKey =
     (case normalizeOptionalLowercaseString sessionKey of
        None \<Rightarrow> 0
      | Some raw \<Rightarrow>
          let scoped = (case parseAgentSessionKey (Some raw) of Some k \<Rightarrow> pk_rest k | None \<Rightarrow> raw) in
          subagentMatches True (js_lower scoped))"

definition parseThreadSessionSuffix :: "string option \<Rightarrow> string option \<times> string option" where
  "parseThreadSessionSuffix sessionKey =
     (case Option.bind sessionKey normalizeOptionalString of
        None \<Rightarrow> (None, None)
      | Some raw \<Rightarrow>
          (case last_index threadMarker (normalizeLowercaseStringOrEmpty (Some raw)) of
             None \<Rightarrow> (Some raw, None)
           | Some i \<Rightarrow> (Some (take i raw), normalizeOptionalString (drop (i + length threadMarker) raw))))"

record delivery_route =
  dr_accountId :: "string option"
  dr_channel :: string
  dr_peerId :: string
  dr_peerKind :: string
  dr_threadId :: "string option"

definition SESSION_DELIVERY_PEER_KINDS :: "string list" where
  "SESSION_DELIVERY_PEER_KINDS = [''channel'', ''direct'', ''dm'', ''group'']"

definition parseSessionDeliveryRoute :: "string option \<Rightarrow> delivery_route option" where
  "parseSessionDeliveryRoute sessionKey =
     (let (base, threadId) = parseThreadSessionSuffix sessionKey in
      case parseAgentSessionKey (case base of Some b \<Rightarrow> Some b | None \<Rightarrow> sessionKey) of
        None \<Rightarrow> None
      | Some parsed \<Rightarrow>
          let parts = js_split CHR '':'' (pk_rest parsed) in
          if parts ! 0 = ''agent'' \<or> length parts < 3 then None
          else (case normalizeOptionalLowercaseString (Some (parts ! 0)) of
            None \<Rightarrow> None
          | Some channel \<Rightarrow>
              if length parts \<ge> 4 \<and> (parts ! 2 = ''direct'' \<or> parts ! 2 = ''dm'')
              then (case (normalizeOptionalString (parts ! 1), normalizeOptionalString (parts ! 3),
                          normalizeOptionalString (join_with '':'' (drop 3 parts))) of
                      (Some accountId, Some _, Some peerId) \<Rightarrow>
                        Some \<lparr>dr_accountId = Some accountId, dr_channel = channel, dr_peerId = peerId,
                              dr_peerKind = parts ! 2, dr_threadId = threadId\<rparr>
                    | _ \<Rightarrow> None)
              else (case (normalizeOptionalString (parts ! 2), normalizeOptionalString (join_with '':'' (drop 2 parts))) of
                      (Some _, Some peerId) \<Rightarrow>
                        if parts ! 1 \<in> set SESSION_DELIVERY_PEER_KINDS
                        then Some \<lparr>dr_accountId = None, dr_channel = channel, dr_peerId = peerId,
                                   dr_peerKind = parts ! 1, dr_threadId = threadId\<rparr>
                        else None
                    | _ \<Rightarrow> None)))"

record conversation_key =
  ck_channel :: string
  ck_kind :: string
  ck_rawId :: string
  ck_prefix :: string

definition parseRawSessionConversationRef :: "string option \<Rightarrow> conversation_key option" where
  "parseRawSessionConversationRef sessionKey =
     (case Option.bind sessionKey normalizeOptionalString of
        None \<Rightarrow> None
      | Some raw \<Rightarrow>
          let rawParts = js_split CHR '':'' raw;
              hasAgentWrapper = (normalizeOptionalLowercaseString (Some (rawParts ! 0)) = Some ''agent'') in
          if hasAgentWrapper \<and> (length rawParts < 3 \<or> normalizeOptionalString (rawParts ! 1) = None) then None
          else
            let bodyStartIndex = (if hasAgentWrapper then 2 else 0); parts = drop bodyStartIndex rawParts in
            if normalizeOptionalLowercaseString (nth_opt parts 0) = Some ''agent'' then None
            else if length parts < 3 \<or> normalizeOptionalString (parts ! 2) = None then None
            else (case (normalizeOptionalLowercaseString (nth_opt parts 0), normalizeOptionalLowercaseString (nth_opt parts 1)) of
                    (Some channel, Some kind) \<Rightarrow>
                      if kind \<noteq> ''group'' \<and> kind \<noteq> ''channel'' then None
                      else (case (normalizeOptionalString (join_with '':'' (drop 2 parts)),
                                  normalizeOptionalString (join_with '':'' (take (bodyStartIndex + 2) rawParts))) of
                              (Some rawId, Some keyPrefix) \<Rightarrow>
                                Some \<lparr>ck_channel = channel, ck_kind = kind, ck_rawId = rawId, ck_prefix = keyPrefix\<rparr>
                            | _ \<Rightarrow> None)
                  | _ \<Rightarrow> None))"

definition isIncognitoSessionKey :: "string option \<Rightarrow> bool" where
  "isIncognitoSessionKey sessionKey =
     (let raw = js_lower (js_trim (case sessionKey of Some s \<Rightarrow> s | None \<Rightarrow> []));
          parts = js_split CHR '':'' raw in
      raw \<noteq> [] \<and> length parts = 4 \<and> parts ! 0 = ''agent'' \<and> parts ! 1 \<noteq> [] \<and>
      parts ! 2 \<in> set [''dashboard'', ''subagent'', ''internal-session-effects''] \<and>
      starts_with ''incognito-'' (parts ! 3) \<and> length (parts ! 3) > 10)"


section \<open>Building keys from routes\<close>

definition DEFAULT_MAIN_KEY :: string where "DEFAULT_MAIN_KEY = ''main''"

datatype session_key_shape = MissingKey | AgentKey | LegacyOrAliasKey | MalformedAgentKey
datatype dm_scope = DmMain | DmPerPeer | DmPerChannelPeer | DmPerAccountChannelPeer
datatype group_scope = GroupMain | PerGroup

definition normalizeMainKey :: "string option \<Rightarrow> string" where
  "normalizeMainKey value =
     (let k = normalizeLowercaseStringOrEmpty value in if k = [] then DEFAULT_MAIN_KEY else k)"

definition buildAgentMainSessionKey :: "string \<Rightarrow> string option \<Rightarrow> string" where
  "buildAgentMainSessionKey agentId mainKey =
     ''agent:'' @ normalizeAgentId (Some agentId) @ '':'' @ normalizeMainKey mainKey"

definition trimOrEmpty :: "string option \<Rightarrow> string" where
  "trimOrEmpty v = js_trim (case v of Some s \<Rightarrow> s | None \<Rightarrow> [])"

definition resolveLinkedDirectPeerId :: "(string \<times> string list option) list option \<Rightarrow> string \<Rightarrow> string \<Rightarrow> string option" where
  "resolveLinkedDirectPeerId identityLinks channelText peerIdText =
     (case identityLinks of
        None \<Rightarrow> None
      | Some links \<Rightarrow>
          let peerId = js_trim peerIdText in
          if peerId = [] then None
          else
            let rawCandidate = normalizeLowercaseStringOrEmpty (Some peerId);
                channel = normalizeLowercaseStringOrEmpty (Some channelText);
                scopedCandidate = normalizeLowercaseStringOrEmpty (Some (channel @ '':'' @ peerId));
                candidates = (if rawCandidate = [] then [] else [rawCandidate]) @
                             (if channel = [] \<or> scopedCandidate = [] then [] else [scopedCandidate]) in
            if candidates = [] then None
            else map_option (\<lambda>(canonical, _). js_trim canonical)
                   (find (\<lambda>(canonical, ids). js_trim canonical \<noteq> [] \<and>
                      (case ids of
                         None \<Rightarrow> False
                       | Some is \<Rightarrow> list_ex (\<lambda>i. let n = normalizeLowercaseStringOrEmpty (Some i) in n \<noteq> [] \<and> n \<in> set candidates) is))
                      links))"

definition channelOrUnknown :: "string \<Rightarrow> string" where
  "channelOrUnknown channel =
     (let c = normalizeLowercaseStringOrEmpty (Some channel) in if c = [] then ''unknown'' else c)"

record peer_key_params =
  pp_agentId :: string
  pp_mainKey :: "string option"
  pp_channel :: string
  pp_accountId :: "string option"
  pp_peerKind :: "chat_type option"
  pp_peerId :: "string option"
  pp_identityLinks :: "(string \<times> string list option) list option"
  pp_dmScope :: "dm_scope option"
  pp_groupScope :: "group_scope option"

definition directPeerId :: "peer_key_params \<Rightarrow> dm_scope \<Rightarrow> string" where
  "directPeerId p dmScope =
     (let peerId = trimOrEmpty (pp_peerId p);
          linkedPeerId = (if dmScope = DmMain then None
                          else resolveLinkedDirectPeerId (pp_identityLinks p) (pp_channel p) peerId) in
      normalizeLowercaseStringOrEmpty
        (Some (case linkedPeerId of Some l \<Rightarrow> if l = [] then peerId else l | None \<Rightarrow> peerId)))"

definition buildAgentPeerSessionKey :: "peer_key_params \<Rightarrow> string" where
  "buildAgentPeerSessionKey p =
     (let peerKind = (case pp_peerKind p of Some k \<Rightarrow> k | None \<Rightarrow> ChatDirect);
          head = ''agent:'' @ normalizeAgentId (Some (pp_agentId p)) @ '':'' in
      if peerKind = ChatDirect then
        (let dmScope = (case pp_dmScope p of Some d \<Rightarrow> d | None \<Rightarrow> DmMain);
             peerId = directPeerId p dmScope in
         if dmScope = DmPerAccountChannelPeer \<and> peerId \<noteq> [] then
           head @ channelOrUnknown (pp_channel p) @ '':'' @ normalizeAccountId (pp_accountId p) @ '':direct:'' @ peerId
         else if dmScope = DmPerChannelPeer \<and> peerId \<noteq> [] then
           head @ channelOrUnknown (pp_channel p) @ '':direct:'' @ peerId
         else if dmScope = DmPerPeer \<and> peerId \<noteq> [] then
           head @ ''direct:'' @ peerId
         else buildAgentMainSessionKey (pp_agentId p) (pp_mainKey p))
      else if pp_groupScope p = Some GroupMain then buildAgentMainSessionKey (pp_agentId p) (pp_mainKey p)
      else
        (let peerId = normalizeSessionPeerId (Some (pp_channel p)) (Some (chatTypeText peerKind)) (pp_peerId p) in
         head @ channelOrUnknown (pp_channel p) @ '':'' @ chatTypeText peerKind @ '':'' @
           (if peerId = [] then ''unknown'' else peerId)))"

definition buildGroupHistoryKey :: "string \<Rightarrow> string option \<Rightarrow> chat_type \<Rightarrow> string \<Rightarrow> string" where
  "buildGroupHistoryKey channelText accountId peerKind peerIdText =
     (let channel = channelOrUnknown channelText;
          peerId = normalizeSessionPeerId (Some channel) (Some (chatTypeText peerKind)) (Some peerIdText) in
      channel @ '':'' @ normalizeAccountId accountId @ '':'' @ chatTypeText peerKind @ '':'' @
        (if peerId = [] then ''unknown'' else peerId))"

definition resolveThreadSessionKeys :: "string \<Rightarrow> string option \<Rightarrow> string option \<Rightarrow> bool option \<Rightarrow> (string \<Rightarrow> string) option \<Rightarrow> string \<times> string option" where
  "resolveThreadSessionKeys baseSessionKey threadIdText parentSessionKey useSuffix normalizeThreadId =
     (let threadId = trimOrEmpty threadIdText in
      if threadId = [] then (baseSessionKey, None)
      else
        let normalizedThread = (case normalizeThreadId of Some f \<Rightarrow> f threadId | None \<Rightarrow> normalizeLowercaseStringOrEmpty (Some threadId)) in
        (if useSuffix = Some False then baseSessionKey else baseSessionKey @ threadMarker @ normalizedThread, parentSessionKey))"

section \<open>Keys as requests and store entries\<close>

definition classifySessionKeyShape :: "string option \<Rightarrow> session_key_shape" where
  "classifySessionKeyShape sessionKey =
     (let raw = trimOrEmpty sessionKey in
      if raw = [] then MissingKey
      else if parseAgentSessionKey (Some raw) \<noteq> None then AgentKey
      else if starts_with ''agent:'' (normalizeLowercaseStringOrEmpty (Some raw)) then MalformedAgentKey
      else LegacyOrAliasKey)"

definition toAgentRequestSessionKey :: "string option \<Rightarrow> string option" where
  "toAgentRequestSessionKey storeKey =
     (let raw = trimOrEmpty storeKey in
      if raw = [] then None
      else Some (case parseAgentSessionKey (Some raw) of Some k \<Rightarrow> pk_rest k | None \<Rightarrow> raw))"

definition agentSessionKeysMatchByRequestKey :: "string option \<Rightarrow> string option \<Rightarrow> bool" where
  "agentSessionKeysMatchByRequestKey left right =
     (let leftRaw = trimOrEmpty left; rightRaw = trimOrEmpty right in
      leftRaw \<noteq> [] \<and> rightRaw \<noteq> [] \<and>
      (leftRaw = rightRaw \<or> toAgentRequestSessionKey (Some leftRaw) = toAgentRequestSessionKey (Some rightRaw)))"

definition toAgentStoreSessionKey :: "string \<Rightarrow> string option \<Rightarrow> string option \<Rightarrow> string" where
  "toAgentStoreSessionKey agentId requestKey mainKey =
     (let raw = trimOrEmpty requestKey; lowered = normalizeLowercaseStringOrEmpty (Some raw) in
      if raw = [] \<or> lowered = DEFAULT_MAIN_KEY then buildAgentMainSessionKey agentId mainKey
      else (case parseAgentSessionKey (Some raw) of
              Some k \<Rightarrow> ''agent:'' @ pk_agentId k @ '':'' @ pk_rest k
            | None \<Rightarrow>
                let normalized = normalizeSessionKeyPreservingOpaquePeerIds (Some raw) in
                if starts_with ''agent:'' lowered then normalized
                else ''agent:'' @ normalizeAgentId (Some agentId) @ '':'' @ normalized))"

datatype session_key_error = MalformedAgentSessionKey | NoAgentInSessionKey

definition resolveAgentIdFromSessionKey :: "string option \<Rightarrow> string option \<Rightarrow> session_key_error + string" where
  "resolveAgentIdFromSessionKey sessionKey configuredDefault =
     (case parseAgentSessionKey sessionKey of
        Some k \<Rightarrow> Inr (normalizeAgentId (Some (pk_agentId k)))
      | None \<Rightarrow>
          if classifySessionKeyShape sessionKey = MalformedAgentKey then Inl MalformedAgentSessionKey
          else if trimOrEmpty configuredDefault \<noteq> [] then Inr (normalizeAgentId (Some (trimOrEmpty configuredDefault)))
          else Inl NoAgentInSessionKey)"

definition isUnscopedSessionKeySentinel :: "string option \<Rightarrow> bool" where
  "isUnscopedSessionKeySentinel sessionKey =
     (let lowered = normalizeLowercaseStringOrEmpty sessionKey in lowered = ''global'' \<or> lowered = ''unknown'')"

definition scopeLegacySessionKeyToAgent :: "string option \<Rightarrow> string option \<Rightarrow> string option \<Rightarrow> string option" where
  "scopeLegacySessionKeyToAgent agentIdText sessionKey mainKey =
     (let raw = trimOrEmpty sessionKey; agentId = trimOrEmpty agentIdText in
      if raw = [] then None
      else if agentId = [] \<or> classifySessionKeyShape (Some raw) \<noteq> LegacyOrAliasKey then Some raw
      else Some (toAgentStoreSessionKey agentId (Some raw) mainKey))"

definition normalizeOptionalAgentId :: "string option \<Rightarrow> string option" where
  "normalizeOptionalAgentId value = map_option (\<lambda>t. normalizeAgentId (Some t)) (Option.bind value normalizeOptionalString)"

datatype wake_target = WakeUnchanged | WakeAgent string | WakeSession string

definition scopedHeartbeatWakeOptions :: "string \<Rightarrow> string option \<Rightarrow> bool \<Rightarrow> wake_target" where
  "scopedHeartbeatWakeOptions sessionKey mainKey globalScope =
     (case parseAgentSessionKey (Some sessionKey) of
        None \<Rightarrow> WakeUnchanged
      | Some parsed \<Rightarrow>
          if isCronRunSessionKey (Some sessionKey) then
            (if globalScope then WakeAgent (pk_agentId parsed)
             else WakeSession (buildAgentMainSessionKey (pk_agentId parsed) mainKey))
          else WakeSession sessionKey)"

definition resolveEventSessionKey :: "string \<Rightarrow> string option \<Rightarrow> bool \<Rightarrow> string" where
  "resolveEventSessionKey sessionKey mainKey globalScope =
     (case parseAgentSessionKey (Some sessionKey) of
        None \<Rightarrow> sessionKey
      | Some parsed \<Rightarrow>
          if \<not> isCronRunSessionKey (Some sessionKey) then sessionKey
          else if globalScope then ''global''
          else buildAgentMainSessionKey (pk_agentId parsed) mainKey)"

section \<open>A built key names its agent\<close>

text \<open>The owner prefix of a key, and what its normal form keeps.\<close>

definition ownerHead :: "string \<Rightarrow> string" where
  "ownerHead agentId = ''agent:'' @ agentId @ '':''"

lemma length_ownerHead [simp]: "length (ownerHead i) = length i + 7"
  by (simp add: ownerHead_def)

lemma lower_colon [simp]: "lower_char c = CHR '':'' \<longleftrightarrow> c = CHR '':''"
proof
  assume "lower_char c = CHR '':''"
  then have "(of_char (lower_char c) :: nat) = of_char (CHR '':'')" by simp
  then have "(of_char c :: nat) = of_char (CHR '':'')"
    by (auto simp: lower_char_code Let_def split: if_splits)
  then show "c = CHR '':''" by (simp only: of_char_eq_iff)
qed (simp add: lower_char_def Let_def)

lemma ownerHead_colons:
  assumes "list_all is_id_char i" "k < length (ownerHead i)" "ownerHead i ! k = CHR '':''"
  shows "k = 5 \<or> k = length i + 6"
proof (rule ccontr)
  assume n: "\<not> ?thesis"
  show False
  proof (cases "k < 6")
    case True
    then have "k \<in> {0, 1, 2, 3, 4}" using n by auto
    then show False using assms(3) by (auto simp: ownerHead_def)
  next
    case False
    then have "6 \<le> k" by simp
    then obtain j where "k = 6 + j" unfolding le_iff_add by blast
    then have j: "k = Suc (Suc (Suc (Suc (Suc (Suc j)))))" by simp
    then have "j < length i" using n assms(2) by simp
    moreover from this j have "ownerHead i ! k = i ! j" by (simp add: ownerHead_def nth_append)
    ultimately show False using id_chars_no_colon [OF assms(1)] assms(3) by (metis nth_mem)
  qed
qed

lemma stripOwners_le: "length (stripOwners s) \<le> length s"
proof (induction s rule: stripOwners.induct)
  case (1 s)
  then show ?case
    using stripOwner_shorter [of s] by (subst stripOwners.simps) (fastforce split: option.split)
qed

lemma lower_ownerHead: "list_all is_id_char i \<Longrightarrow> js_lower (ownerHead i) = ownerHead i"
proof -
  assume "list_all is_id_char i"
  then have "map lower_char i = i" using id_chars_lower [of i] by (simp add: js_lower_def)
  then show ?thesis by (simp add: ownerHead_def js_lower_def) (simp add: lower_char_def Let_def)
qed

lemma stripOwner_head:
  assumes "list_all is_id_char i"
  shows "stripOwner (ownerHead i @ rest) = Some rest"
proof -
  have "js_lower (ownerHead i @ rest) = ownerHead i @ js_lower rest"
    by (simp only: js_lower_append lower_ownerHead [OF assms])
  then have "starts_with ''agent:'' (js_lower (ownerHead i @ rest))"
    unfolding starts_with_iff by (simp only: ownerHead_def append_assoc) blast
  moreover have "dropWhile (\<lambda>c. c \<noteq> CHR '':'') (i @ CHR '':'' # rest) = CHR '':'' # rest"
    using id_chars_no_colon [OF assms] by (subst dropWhile_append2) auto
  ultimately show ?thesis by (simp add: stripOwner_def ownerHead_def)
qed

text \<open>Where a segment span starts: right behind an occurrence of its pattern.\<close>

lemma segmentStart_pattern:
  assumes "segmentStart pat pos s = Some k" "s \<noteq> []"
  shows "length pat \<le> k \<and> k \<le> Suc (length pat) \<and> take (length pat) (drop (k - length pat) (js_lower s)) = pat"
proof -
  have "js_lower (drop off s) = drop off (js_lower s)" for off by (simp add: js_lower_def drop_map)
  with assms show ?thesis
    by (auto simp: segmentStart_def segmentAt_def starts_with_def split: if_splits)
qed

lemma segmentSpans_pattern:
  assumes "(a, b, t) \<in> set (segmentSpans pat pos s)"
  shows "pos + length pat \<le> a \<and> b \<le> pos + length s \<and>
    take (length pat) (drop (a - pos - length pat) (js_lower s)) = pat"
  using assms
proof (induction pat pos s rule: segmentSpans.induct)
  case (1 pat pos s)
  note IH = 1(1,2) and m = 1(3)
  have s: "s \<noteq> []" using m by (auto simp: segmentSpans.simps)
  have dl: "js_lower (drop n s) = drop n (js_lower s)" "js_lower (tl s) = drop 1 (js_lower s)" for n
    by (simp_all add: js_lower_def drop_map map_tl drop_Suc)
  show ?case
  proof (cases "segmentStart pat pos s")
    case None
    have "(a, b, t) \<in> set (segmentSpans pat (Suc pos) (tl s))"
      using m s None by (subst (asm) segmentSpans.simps) simp
    from IH(1) [OF s None this] s have r: "Suc pos + length pat \<le> a" "b \<le> Suc pos + length (tl s)"
      "take (length pat) (drop (a - Suc pos - length pat) (js_lower (tl s))) = pat" by auto
    have "a - Suc pos - length pat + 1 = a - pos - length pat" using r(1) by simp
    then have "drop (a - pos - length pat) (js_lower s) = drop (a - Suc pos - length pat) (js_lower (tl s))"
      unfolding dl drop_drop by simp
    moreover have "Suc pos + length (tl s) = pos + length s" using s by (cases s) auto
    ultimately show ?thesis using r by simp
  next
    case (Some k)
    let ?n = "length (takeWhile (\<lambda>c. c \<noteq> CHR '':'') (drop k s))"
    note p = segmentStart_pattern [OF Some s]
    have "?n \<le> length (drop k s)" by (rule length_takeWhile_le)
    moreover have "k \<le> length s"
    proof -
      have "min (length s - (k - length pat)) (length pat) = length pat"
        using p by (metis length_take length_drop length_js_lower min.commute)
      moreover have "0 < length s" using s by simp
      moreover have "min (n - (k - m)) m = m \<Longrightarrow> 0 < n \<Longrightarrow> m \<le> k \<Longrightarrow> k \<le> Suc m \<Longrightarrow> k \<le> n" for n m :: nat
        by arith
      ultimately show ?thesis using p by blast
    qed
    ultimately have kn: "k + ?n \<le> length s" by simp
    consider "(a, b, t) = (pos + k, pos + k + ?n, True)"
      | "?n \<noteq> 0" "(a, b, t) \<in> set (segmentSpans pat (pos + k + ?n) (drop (k + ?n) s))"
      using m s Some by (subst (asm) segmentSpans.simps) (auto simp: Let_def split: if_splits)
    then show ?thesis
    proof cases
      case 1
      then show ?thesis using p kn by auto
    next
      case 2
      from IH(2) [OF s Some refl 2] have r: "pos + k + ?n + length pat \<le> a" "b \<le> pos + k + ?n + length (drop (k + ?n) s)"
        "take (length pat) (drop (a - (pos + k + ?n) - length pat) (drop (k + ?n) (js_lower s))) = pat"
        by (auto simp: dl)
      have "a - (pos + k + ?n) - length pat + (k + ?n) = a - pos - length pat" using r(1) by simp
      with r kn show ?thesis by (auto simp: add.commute)
    qed
  qed
qed

lemma nth_of_take: "take n (drop d xs) = p \<Longrightarrow> d \<le> length xs \<Longrightarrow> j < n \<Longrightarrow> xs ! (d + j) = p ! j"
  by (metis nth_drop nth_take)

text \<open>No segment starts inside the owner prefix: the prefix has two colons, the pattern two that lie closer.\<close>

lemma segment_after_head:
  assumes "list_all is_id_char i" and "(a, b, t) \<in> set (segmentSpans ''signal:group:'' 0 (ownerHead i @ rest))"
  shows "length (ownerHead i) < a"
proof (rule ccontr)
  assume n: "\<not> ?thesis"
  let ?p = "''signal:group:''" and ?L = "js_lower (ownerHead i @ rest)"
  have lp: "length ?p = 13" by simp
  have p: "13 \<le> a" "take 13 (drop (a - 13) ?L) = ?p"
    using segmentSpans_pattern [OF assms(2), unfolded lp diff_zero add_0] by blast+
  have L: "?L = ownerHead i @ js_lower rest" by (simp only: js_lower_append lower_ownerHead [OF assms(1)])
  have c: "?L ! (a - 13 + j) = ?p ! j" if "j < 13" for j
    by (rule nth_of_take [OF p(2)]) (use that n in simp_all)
  have h: "ownerHead i ! k = ?L ! k" if "k < length (ownerHead i)" for k
    using that unfolding L by (simp add: nth_append)
  have "ownerHead i ! (a - 13 + 6) = CHR '':''" "ownerHead i ! (a - 13 + 12) = CHR '':''"
    using c [of 6] c [of 12] h [of "a - 13 + 6"] h [of "a - 13 + 12"] n p(1) by simp_all
  moreover have "a - 13 + 6 < length (ownerHead i)" "a - 13 + 12 < length (ownerHead i)" using n p(1) by simp_all
  ultimately have "a - 13 + 6 = 5 \<or> a - 13 + 6 = length i + 6" "a - 13 + 12 = 5 \<or> a - 13 + 12 = length i + 6"
    using ownerHead_colons [OF assms(1)] by blast+
  then show False by simp
qed

lemma scopedTail_after_head:
  assumes "list_all is_id_char i" "scopedTailStart pat (ownerHead i @ rest) = Some n" "pat \<noteq> []"
  shows "length (ownerHead i) < n"
proof -
  let ?body = "dropWhile (\<lambda>c. c = CHR '':'') (stripOwners rest)"
  have "n = length (ownerHead i @ rest) - length ?body + length pat"
    using assms(2) by (simp add: scopedTailStart_def stripOwner_head [OF assms(1)] Let_def split: if_splits)
  moreover have "length ?body \<le> length rest"
    using stripOwners_le [of rest] length_dropWhile_le [of "\<lambda>c. c = CHR '':''" "stripOwners rest"] by linarith
  ultimately show ?thesis using assms(3) by (cases pat) auto
qed

lemma collectTailSpan_after: "(a, b, t) \<in> set (collectTailSpan raw n) \<Longrightarrow> n \<le> a"
  by (auto simp: collectTailSpan_def Let_def split: if_splits option.splits)

lemma unscopedTail_owner:
  "list_all is_id_char i \<Longrightarrow> unscopedTailStart (''matrix:'' @ k) (ownerHead i @ rest) = None"
proof -
  assume "list_all is_id_char i"
  then have "js_lower (ownerHead i @ rest) = ownerHead i @ js_lower rest" by (simp only: js_lower_append lower_ownerHead)
  then show ?thesis by (simp add: unscopedTailStart_def starts_with_def ownerHead_def)
qed

text \<open>The spans of a key under an owner, with the unscoped cases gone.\<close>

lemma spans_owner:
  assumes "list_all is_id_char i"
  shows "collectCasePreservedSpans (ownerHead i @ rest) =
    segmentSpans ''signal:group:'' 0 (ownerHead i @ rest) @
    (case scopedTailStart ''matrix:channel:'' (ownerHead i @ rest) of Some n \<Rightarrow> collectTailSpan (ownerHead i @ rest) n | None \<Rightarrow> []) @
    (case scopedTailStart ''matrix:group:'' (ownerHead i @ rest) of Some n \<Rightarrow> collectTailSpan (ownerHead i @ rest) n | None \<Rightarrow> [])"
  using unscopedTail_owner [OF assms, of "''channel:''" rest] unscopedTail_owner [OF assms, of "''group:''" rest]
  by (simp add: collectCasePreservedSpans_def CASE_PRESERVING_PEERS_def split: option.split)

lemma spans_after_head:
  assumes "list_all is_id_char i" "(a, b, t) \<in> set (collectCasePreservedSpans (ownerHead i @ rest))"
  shows "length (ownerHead i) < a"
proof -
  let ?r = "ownerHead i @ rest"
  have tail: "length (ownerHead i) < a"
    if "(a, b, t) \<in> set (case scopedTailStart pat ?r of Some n \<Rightarrow> collectTailSpan ?r n | None \<Rightarrow> [])" "pat \<noteq> []" for pat
    using that scopedTail_after_head [OF assms(1) _ that(2), of rest] collectTailSpan_after [of a b t ?r]
    by (cases "scopedTailStart pat ?r") fastforce+
  show ?thesis
    using assms(2) segment_after_head [OF assms(1)] tail [of "''matrix:channel:''"] tail [of "''matrix:group:''"]
    unfolding spans_owner [OF assms(1)] by auto
qed

lemma js_trim_keeps:
  assumes "\<not> is_js_space x" "\<not> is_js_space c"
  shows "\<exists>v. js_trim (x # w @ c # u) = x # w @ c # v"
proof -
  let ?d = "dropWhile is_js_space (rev u)"
  have "dropWhile is_js_space (rev u @ c # rev w @ [x]) = ?d @ c # rev w @ [x]"
    using assms(2) by (simp add: dropWhile_append)
  then have "js_trim (x # w @ c # u) = x # w @ c # rev ?d" using assms(1) by (simp add: js_trim_def)
  then show ?thesis by blast
qed

text \<open>A key in normal form keeps its owner prefix, and what follows starts with the same character, lowered.\<close>

lemma normalize_keeps_owner:
  assumes "list_all is_id_char i" "\<not> is_js_space c" "js_trim (ownerHead i @ c # cs) = ownerHead i @ c # cs"
  shows "\<exists>rest. normalizeTrimmedSessionKey (ownerHead i @ c # cs) = ownerHead i @ lower_char c # rest"
proof -
  let ?r = "ownerHead i @ c # cs"
  have low: "js_lower (ownerHead i @ c # u) = ownerHead i @ lower_char c # js_lower u" for u
    unfolding js_lower_append lower_ownerHead [OF assms(1)] by (simp add: js_lower_def)
  have e: "\<exists>rest. emitSpans ?r 0 spans = ownerHead i @ lower_char c # rest"
    if "\<And>a b t. (a, b, t) \<in> set spans \<Longrightarrow> length (ownerHead i) < a" for spans
  proof (cases spans)
    case Nil
    then show ?thesis using low [of cs] assms(3) by auto
  next
    case (Cons sp sps)
    obtain a b t where sp: "sp = (a, b, t)" by (cases sp)
    with that Cons have a: "length (ownerHead i) < a" by auto
    then obtain u where u: "slice 0 a ?r = ownerHead i @ c # u"
      by (auto simp: slice_def take_Cons' )
    obtain v where v: "js_trim (ownerHead i @ c # u) = ownerHead i @ c # v"
      using js_trim_keeps [of "CHR ''a''" c "''gent:'' @ i @ '':''" u] assms(2) by (auto simp: ownerHead_def is_js_space_def)
    show ?thesis using low [of v] by (auto simp: Cons sp u v)
  qed
  show ?thesis
  proof (cases "mayContainCasePreservingPeer ?r")
    case True
    let ?s = "sort_by compareSpanStart (filter (\<lambda>(a, b, _). b > a) (collectCasePreservedSpans ?r))"
    have "length (ownerHead i) < a" if "(a, b, t) \<in> set ?s" for a b t
      using that spans_after_head [OF assms(1), of a b t "c # cs"] by auto
    from e [of ?s, OF this] True show ?thesis by (simp add: normalizeTrimmedSessionKey_def)
  next
    case False
    then show ?thesis using low [of cs] by (auto simp: normalizeTrimmedSessionKey_def)
  qed
qed

lemma parse_owner:
  assumes "list_all is_id_char i" "i \<noteq> []" "\<not> is_js_space c" "c \<noteq> CHR '':''" "js_trim (ownerHead i @ c # cs) = ownerHead i @ c # cs"
  shows "\<exists>rest. parseAgentSessionKey (Some (ownerHead i @ c # cs)) = Some \<lparr>pk_agentId = i, pk_rest = lower_char c # rest\<rparr>"
proof -
  obtain rest where r: "normalizeTrimmedSessionKey (ownerHead i @ c # cs) = ownerHead i @ lower_char c # rest"
    using normalize_keeps_owner [OF assms(1,3,5)] by blast
  have d: "dropWhile (\<lambda>c. c \<noteq> CHR '':'') (i @ CHR '':'' # u) = CHR '':'' # u"
    "takeWhile (\<lambda>c. c \<noteq> CHR '':'') (i @ CHR '':'' # u) = i" for u
    using id_chars_no_colon [OF assms(1)] by (subst dropWhile_append2 takeWhile_append2; auto)+
  have n: "normalizeSessionKeyPreservingOpaquePeerIds (Some (ownerHead i @ c # cs)) = ownerHead i @ lower_char c # rest"
    using assms(5) r by (simp add: normalizeSessionKeyPreservingOpaquePeerIds_def normalizeOptionalString_def Let_def)
  have "normalizeOptionalString i = Some i"
    using assms(1,2) by (simp add: normalizeOptionalString_def id_chars_trim)
  then show ?thesis
    using assms(4) unfolding parseAgentSessionKey_def n
    by (simp add: Let_def ownerHead_def starts_with_def d)
qed

text \<open>Trimmed text, the pieces keys are built from.\<close>

definition tight :: "string \<Rightarrow> bool" where
  "tight s \<longleftrightarrow> s \<noteq> [] \<and> \<not> is_js_space (hd s) \<and> \<not> is_js_space (last s)"

lemma tight_lower [simp]: "tight (js_lower s) = tight s"
  by (cases s) (auto simp: tight_def js_lower_def last_map)

lemma tight_trim: "js_trim s \<noteq> [] \<Longrightarrow> tight (js_trim s)"
  using js_trim_ends by (auto simp: tight_def)

lemma tight_lower_trim: "js_lower (js_trim s) \<noteq> [] \<Longrightarrow> tight (js_lower (js_trim s))"
  by (simp add: tight_trim)

lemma tight_channel: "tight (channelOrUnknown ch)"
  using tight_trim [of ch] by (auto simp: channelOrUnknown_def Let_def) (simp add: tight_def is_js_space_def)

lemma tight_mainKey: "tight (normalizeMainKey k)"
  using tight_trim by (cases k) (auto simp: normalizeMainKey_def Let_def DEFAULT_MAIN_KEY_def, simp_all add: tight_def is_js_space_def)

lemma tight_append: "tight s \<Longrightarrow> tight t \<Longrightarrow> tight (s @ u @ t)"
  by (auto simp: tight_def)

lemma tight_trim_id: "tight s \<Longrightarrow> js_trim s = s"
  by (auto simp: tight_def intro: js_trim_id)

lemma tight_sessionPeer: "normalizeSessionPeerId ch k v \<noteq> [] \<Longrightarrow> tight (normalizeSessionPeerId ch k v)"
  using tight_trim by (auto simp: normalizeSessionPeerId_def Let_def split: if_splits)

lemma tight_directPeer: "directPeerId p sc \<noteq> [] \<Longrightarrow> tight (directPeerId p sc)"
  unfolding directPeerId_def Let_def normalizeLowercaseStringOrEmpty_Some by (rule tight_lower_trim)

text \<open>A built key is an owner prefix and a tight rest that starts like its channel, \<open>direct\<close>, or the main key.\<close>

lemma built_key_shape:
  "\<exists>rest. buildAgentPeerSessionKey p = ownerHead (normalizeAgentId (Some (pp_agentId p))) @ rest \<and> tight rest \<and>
     (hd rest = hd (channelOrUnknown (pp_channel p)) \<or> hd rest = CHR ''d'' \<or> hd rest = hd (normalizeMainKey (pp_mainKey p)))"
proof -
  let ?h = "ownerHead (normalizeAgentId (Some (pp_agentId p)))" and ?c = "channelOrUnknown (pp_channel p)"
  let ?m = "normalizeMainKey (pp_mainKey p)"
  have main: "buildAgentMainSessionKey (pp_agentId p) (pp_mainKey p) = ?h @ ?m"
    by (simp add: buildAgentMainSessionKey_def ownerHead_def)
  have cn: "?c \<noteq> []" using tight_channel [of "pp_channel p"] by (simp add: tight_def)
  have u: "tight ''unknown''" "tight ''direct:''" by (simp_all add: tight_def is_js_space_def)
  have ch: "\<exists>rest. ?h @ ?c @ mid @ x = ?h @ rest \<and> tight rest \<and> (hd rest = hd ?c \<or> hd rest = CHR ''d'' \<or> hd rest = hd ?m)"
    if "tight x" for mid x
    using tight_append [OF tight_channel that, of "pp_channel p" mid] cn by (intro exI [of _ "?c @ mid @ x"]) simp
  have mn: "\<exists>rest. ?h @ ?m = ?h @ rest \<and> tight rest \<and> (hd rest = hd ?c \<or> hd rest = CHR ''d'' \<or> hd rest = hd ?m)"
    using tight_mainKey by blast
  have dr: "\<exists>rest. ?h @ ''direct:'' @ x = ?h @ rest \<and> tight rest \<and> (hd rest = hd ?c \<or> hd rest = CHR ''d'' \<or> hd rest = hd ?m)"
    if "tight x" for x
    using tight_append [OF u(2) that, of "[]"] by (intro exI [of _ "''direct:'' @ x"]) simp
  define pk where "pk = (case pp_peerKind p of Some k \<Rightarrow> k | None \<Rightarrow> ChatDirect)"
  define ds where "ds = (case pp_dmScope p of Some d \<Rightarrow> d | None \<Rightarrow> DmMain)"
  define sp where "sp = normalizeSessionPeerId (Some (pp_channel p)) (Some (chatTypeText pk)) (pp_peerId p)"
  have b: "buildAgentPeerSessionKey p =
      (if pk = ChatDirect then
         (if ds = DmPerAccountChannelPeer \<and> directPeerId p ds \<noteq> [] then
            ?h @ ?c @ ('':'' @ normalizeAccountId (pp_accountId p) @ '':direct:'') @ directPeerId p ds
          else if ds = DmPerChannelPeer \<and> directPeerId p ds \<noteq> [] then ?h @ ?c @ '':direct:'' @ directPeerId p ds
          else if ds = DmPerPeer \<and> directPeerId p ds \<noteq> [] then ?h @ ''direct:'' @ directPeerId p ds
          else ?h @ ?m)
       else if pp_groupScope p = Some GroupMain then ?h @ ?m
       else ?h @ ?c @ ('':'' @ chatTypeText pk @ '':'') @ (if sp = [] then ''unknown'' else sp))"
    unfolding buildAgentPeerSessionKey_def Let_def main ownerHead_def [symmetric] pk_def [symmetric] ds_def [symmetric] sp_def
    by (simp only: ownerHead_def append_assoc)
  have x: "tight (if sp = [] then ''unknown'' else sp)" using tight_sessionPeer u(1) by (auto simp: sp_def)
  show ?thesis
    unfolding b using ch [OF tight_directPeer] dr [OF tight_directPeer] mn ch [OF x] by (simp only: split: if_splits) blast
qed

text \<open>
  A session key names its agent: reading the agent back from the key built for a route gives the
  route's agent, whatever default is configured, for every channel, account, peer and scope. The
  agent id must be stable under normalisation, and neither the channel nor the main key may start with a colon.
\<close>

lemma built_key_names_agent:
  assumes "is_alnum (hd (normalizeAgentId (Some (pp_agentId p)))) \<or> last (normalizeAgentId (Some (pp_agentId p))) \<noteq> CHR ''-''"
    and "hd (channelOrUnknown (pp_channel p)) \<noteq> CHR '':''" and "hd (normalizeMainKey (pp_mainKey p)) \<noteq> CHR '':''"
  shows "resolveAgentIdFromSessionKey (Some (buildAgentPeerSessionKey p)) configuredDefault = Inr (normalizeAgentId (Some (pp_agentId p)))"
proof -
  let ?i = "normalizeAgentId (Some (pp_agentId p))"
  have i: "canonical_id ?i" "hd ?i \<noteq> CHR ''-''" using normalizeAgentId_canonical by blast+
  obtain rest where r: "buildAgentPeerSessionKey p = ownerHead ?i @ rest" "tight rest"
    "hd rest = hd (channelOrUnknown (pp_channel p)) \<or> hd rest = CHR ''d'' \<or> hd rest = hd (normalizeMainKey (pp_mainKey p))"
    using built_key_shape by blast
  obtain c cs where c: "rest = c # cs" using r(2) by (cases rest) (auto simp: tight_def)
  have "tight (ownerHead ?i @ rest)"
    using r(2) by (auto simp: tight_def ownerHead_def is_js_space_def)
  then have "js_trim (ownerHead ?i @ c # cs) = ownerHead ?i @ c # cs" unfolding c by (rule tight_trim_id)
  moreover have "\<not> is_js_space c" "c \<noteq> CHR '':''" using r(2,3) assms(2,3) by (auto simp: c tight_def)
  ultimately obtain u where "parseAgentSessionKey (Some (buildAgentPeerSessionKey p)) = Some \<lparr>pk_agentId = ?i, pk_rest = u\<rparr>"
    using parse_owner [of ?i c cs] i(1) unfolding r(1) c canonical_id_def by blast
  then show ?thesis using normalizeAgentId_id [OF i assms(1)] by (simp add: resolveAgentIdFromSessionKey_def)
qed

section \<open>Keys separate conversations\<close>

lemma colon_split: "a @ CHR '':'' # x = b @ CHR '':'' # y \<Longrightarrow> CHR '':'' \<notin> set a \<Longrightarrow> CHR '':'' \<notin> set b \<Longrightarrow> a = b \<and> x = y"
proof (induction a arbitrary: b)
  case Nil
  then show ?case by (cases b) auto
next
  case (Cons u a)
  then show ?case by (cases b) auto
qed

text \<open>The conversation a key stands for, and the parameters that ask for one key per conversation.\<close>

definition conversationPeer :: "peer_key_params \<Rightarrow> string" where
  "conversationPeer p =
     (case pp_peerKind p of
        Some ChatGroup \<Rightarrow> normalizeSessionPeerId (Some (pp_channel p)) (Some ''group'') (pp_peerId p)
      | Some ChatChannel \<Rightarrow> normalizeSessionPeerId (Some (pp_channel p)) (Some ''channel'') (pp_peerId p)
      | _ \<Rightarrow> directPeerId p DmPerChannelPeer)"

definition perConversation :: "peer_key_params \<Rightarrow> bool" where
  "perConversation p \<longleftrightarrow>
     pp_peerKind p \<noteq> None \<and> pp_dmScope p = Some DmPerChannelPeer \<and> pp_groupScope p \<noteq> Some GroupMain \<and>
     conversationPeer p \<noteq> [] \<and> CHR '':'' \<notin> set (channelOrUnknown (pp_channel p))"

lemma perConversation_key:
  assumes "perConversation p"
  shows "buildAgentPeerSessionKey p =
    ''agent:'' @ normalizeAgentId (Some (pp_agentId p)) @ '':'' @ channelOrUnknown (pp_channel p) @ '':'' @
      chatTypeText (the (pp_peerKind p)) @ '':'' @ conversationPeer p"
proof -
  obtain k where k: "pp_peerKind p = Some k" using assms by (auto simp: perConversation_def)
  show ?thesis
    using assms by (cases k) (simp_all add: k perConversation_def conversationPeer_def buildAgentPeerSessionKey_def Let_def)
qed


section \<open>Opaque ids survive\<close>

lemma sort_by_last_first:
  "(\<And>x. x \<in> set xs \<Longrightarrow> cmp x y > 0) \<Longrightarrow> sort_by cmp (xs @ [y]) = y # sort_by cmp xs"
proof -
  assume a: "\<And>x. x \<in> set xs \<Longrightarrow> cmp x y > 0"
  have "foldr (insort_by cmp) xs [y] = y # foldr (insort_by cmp) xs []" using a
  proof (induction xs)
    case (Cons x xs)
    have "cmp x y > 0" by (rule Cons.prems) simp
    moreover have "foldr (insort_by cmp) xs [y] = y # foldr (insort_by cmp) xs []" by (rule Cons.IH) (rule Cons.prems, simp)
    ultimately show ?case by simp
  qed simp
  then show ?thesis by (simp add: sort_by_def)
qed

lemma emit_skips:
  "(\<And>a b t. (a, b, t) \<in> set spans \<Longrightarrow> a < cursor) \<Longrightarrow>
     emitSpans raw cursor spans = normalizeLowercaseStringOrEmpty (Some (drop cursor raw))"
proof (induction spans)
  case (Cons sp sps)
  obtain a b t where sp: "sp = (a, b, t)" by (cases sp)
  have "a < cursor" using Cons.prems [of a b t] by (simp add: sp)
  moreover have "emitSpans raw cursor sps = normalizeLowercaseStringOrEmpty (Some (drop cursor raw))"
    by (rule Cons.IH) (rule Cons.prems, rule list.set_intros(2))
  ultimately show ?case by (simp add: sp)
qed simp

definition matrixKind :: "string \<Rightarrow> bool" where
  "matrixKind k \<longleftrightarrow> k = ''group'' \<or> k = ''channel''"

definition matrixHead :: "string \<Rightarrow> string" where
  "matrixHead k = ''matrix:'' @ k @ '':''"

lemma lower_matrixHead: "matrixKind k \<Longrightarrow> js_lower (matrixHead k) = matrixHead k"
  by (auto simp: matrixKind_def matrixHead_def js_lower_def lower_char_def Let_def)

lemma segment_after_matrixHead:
  assumes "list_all is_id_char i" "matrixKind k" "(a, b, t) \<in> set (segmentSpans ''signal:group:'' 0 (ownerHead i @ matrixHead k @ s))"
  shows "length (ownerHead i) + length (matrixHead k) < a"
proof (rule ccontr)
  assume n: "\<not> ?thesis"
  let ?p = "''signal:group:''" and ?L = "js_lower (ownerHead i @ matrixHead k @ s)" and ?h = "length (ownerHead i)"
  have lp: "length ?p = 13" by simp
  have p: "13 \<le> a" "take 13 (drop (a - 13) ?L) = ?p"
    using segmentSpans_pattern [OF assms(3), unfolded lp diff_zero add_0] by blast+
  obtain d where d: "a = ?h + Suc d" using segment_after_head [OF assms(1,3)] less_iff_Suc_add by auto
  have dm: "d < length (matrixHead k)" using n d by simp
  have L: "?L = ownerHead i @ matrixHead k @ js_lower s"
    by (simp only: js_lower_append lower_ownerHead [OF assms(1)] lower_matrixHead [OF assms(2)])
  have c: "?L ! (a - 13 + j) = ?p ! j" if "j < 13" for j
    by (rule nth_of_take [OF p(2)]) (use that n in simp_all)
  have m: "?L ! (?h + j) = matrixHead k ! j" if "j < length (matrixHead k)" for j
    using that unfolding L by (simp add: nth_append)
  have "a - 13 + 12 = ?h + d" using p(1) d by simp
  from c [of 12, unfolded this] m [OF dm] have "matrixHead k ! d = CHR '':''"
    by (simp del: js_lower_append)
  then have "d = 6 \<or> d = 12 \<and> k = ''group'' \<or> d = 14 \<and> k = ''channel''"
    using dm assms(2) by (auto simp: matrixKind_def matrixHead_def less_Suc_eq)
  then consider "d = 6" | "d = 12" "k = ''group''" | "d = 14" "k = ''channel''" by blast
  then show False
  proof cases
    case 1
    then have e: "a - 13 + 6 = ?h + 0" using p(1) d by simp
    show False using c [of 6] m [of 0] assms(2) unfolding e by (auto simp: matrixKind_def matrixHead_def)
  next
    case 2
    then have e: "a - 13 + 0 = ?h + 0" using p(1) d by simp
    show False using c [of 0] m [of 0] assms(2) unfolding e by (auto simp: matrixKind_def matrixHead_def)
  next
    case 3
    then have e: "a - 13 + 6 = ?h + 8" using p(1) d by simp
    show False using c [of 6] m [of 8] 3(2) unfolding e by (simp add: matrixHead_def)
  qed
qed

lemma scopedTail_matrix:
  assumes "list_all is_id_char i" "matrixKind k" "matrixKind k'"
  shows "scopedTailStart (matrixHead k') (ownerHead i @ matrixHead k @ s) =
    (if k' = k then Some (length (ownerHead i) + length (matrixHead k)) else None)"
proof -
  have l: "js_lower (matrixHead k @ s) = matrixHead k @ js_lower s" by (simp only: js_lower_append lower_matrixHead [OF assms(2)])
  have "stripOwner (matrixHead k @ s) = None" unfolding stripOwner_def l by (simp add: starts_with_def matrixHead_def)
  then have so: "stripOwners (matrixHead k @ s) = matrixHead k @ s" by (subst stripOwners.simps) simp
  have dw: "dropWhile (\<lambda>c. c = CHR '':'') (matrixHead k @ s) = matrixHead k @ s" by (simp add: matrixHead_def)
  have "starts_with (matrixHead k') (matrixHead k @ js_lower s) \<longleftrightarrow> k' = k"
    using assms(2,3) by (auto simp: starts_with_def matrixKind_def matrixHead_def)
  then show ?thesis
    unfolding scopedTailStart_def stripOwner_head [OF assms(1)] option.case so dw Let_def l by auto
qed

lemma matrix_normal:
  assumes "list_all is_id_char i" "matrixKind k" "tight s" "last_index threadMarker (js_lower s) = None"
  shows "normalizeTrimmedSessionKey (ownerHead i @ matrixHead k @ s) = ownerHead i @ matrixHead k @ s"
proof -
  let ?r = "ownerHead i @ matrixHead k @ s" and ?n = "length (ownerHead i) + length (matrixHead k)"
  let ?segs = "filter (\<lambda>(a, b, _). b > a) (segmentSpans ''signal:group:'' 0 ?r)"
  have s: "s \<noteq> []" "js_trim s = s" using assms(3) by (auto simp: tight_def tight_trim_id)
  have "drop ?n ?r = s" by simp
  then have "collectTailSpan ?r ?n = [(?n, length ?r, False)]"
    using s assms(4) by (simp add: collectTailSpan_def Let_def)
  moreover have "''matrix:channel:'' = matrixHead ''channel''" "''matrix:group:'' = matrixHead ''group''" by (simp_all add: matrixHead_def)
  moreover have "matrixKind ''channel''" "matrixKind ''group''" by (simp_all add: matrixKind_def)
  ultimately have spans: "collectCasePreservedSpans ?r = segmentSpans ''signal:group:'' 0 ?r @ [(?n, length ?r, False)]"
    using assms(2) by (auto simp only: spans_owner [OF assms(1)] scopedTail_matrix [OF assms(1,2)] matrixKind_def split: if_splits option.split)
  have sorted: "sort_by compareSpanStart (filter (\<lambda>(a, b, _). b > a) (collectCasePreservedSpans ?r)) =
      (?n, length ?r, False) # sort_by compareSpanStart ?segs"
  proof -
    have "compareSpanStart x (?n, length ?r, False) > 0" if x: "x \<in> set ?segs" for x
    proof -
      obtain a b t where e: "x = (a, b, t)" by (cases x)
      have "(a, b, t) \<in> set (segmentSpans ''signal:group:'' 0 ?r)" using x by (simp add: e)
      from segment_after_matrixHead [OF assms(1,2) this] show ?thesis by (simp add: e compareSpanStart_def)
    qed
    then have "sort_by compareSpanStart (?segs @ [(?n, length ?r, False)]) = (?n, length ?r, False) # sort_by compareSpanStart ?segs"
      by (rule sort_by_last_first)
    moreover have "?n < length ?r" using s(1) by simp
    ultimately show ?thesis by (simp add: spans)
  qed
  have skip: "emitSpans ?r (length ?r) (sort_by compareSpanStart ?segs) = []"
  proof -
    have "a < length ?r" if m: "(a, b, t) \<in> set (sort_by compareSpanStart ?segs)" for a b t
    proof -
      have "a < b" "(a, b, t) \<in> set (segmentSpans ''signal:group:'' 0 ?r)" using m by auto
      with segmentSpans_pattern [OF this(2)] show ?thesis by simp
    qed
    from emit_skips [of "sort_by compareSpanStart ?segs", OF this] show ?thesis by simp
  qed
  have front: "normalizeLowercaseStringOrEmpty (Some (slice 0 ?n ?r)) = ownerHead i @ matrixHead k"
  proof -
    have t: "slice 0 ?n ?r = ownerHead i @ matrixHead k" by (simp add: slice_def)
    have "tight (ownerHead i @ matrixHead k)" by (simp add: tight_def ownerHead_def matrixHead_def is_js_space_def)
    then show ?thesis
      by (simp only: t normalizeLowercaseStringOrEmpty_Some tight_trim_id js_lower_append lower_ownerHead [OF assms(1)] lower_matrixHead [OF assms(2)])
  qed
  have opaque: "slice ?n (length ?r) ?r = s" by (simp add: slice_def)
  have may: "mayContainCasePreservingPeer ?r"
  proof -
    have "js_includes ''matrix:'' (ownerHead i @ matrixHead k @ js_lower s)"
      unfolding js_includes_iff matrixHead_def by (metis append_assoc)
    then show ?thesis
      by (simp add: mayContainCasePreservingPeer_def CASE_PRESERVING_PEERS_def lower_ownerHead [OF assms(1)] lower_matrixHead [OF assms(2)])
  qed
  show ?thesis
    using may unfolding normalizeTrimmedSessionKey_def sorted by (simp only: emitSpans.simps front opaque skip) simp
qed

text \<open>
  Case-sensitive room ids survive the canonical lower-casing of session keys: for a Matrix room or
  channel, parsing the key built for it gives the agent and, letter for letter, the room id (ids that
  themselves contain a thread marker apart).
\<close>

theorem matrix_ids_preserved:
  assumes "channelOrUnknown (pp_channel p) = ''matrix''" and "pp_peerKind p \<in> {Some ChatGroup, Some ChatChannel}"
    and "pp_groupScope p \<noteq> Some GroupMain" and "pp_peerId p = Some room" and "js_trim room \<noteq> []"
    and "last_index threadMarker (js_lower (js_trim room)) = None"
  shows "parseAgentSessionKey (Some (buildAgentPeerSessionKey p)) =
    Some \<lparr>pk_agentId = normalizeAgentId (Some (pp_agentId p)),
          pk_rest = ''matrix:'' @ chatTypeText (the (pp_peerKind p)) @ '':'' @ js_trim room\<rparr>"
proof -
  let ?i = "normalizeAgentId (Some (pp_agentId p))" and ?k = "chatTypeText (the (pp_peerKind p))"
  have i: "list_all is_id_char ?i" "?i \<noteq> []" using normalizeAgentId_canonical [of "Some (pp_agentId p)"] by (auto simp: canonical_id_def)
  have k: "matrixKind ?k" using assms(2) by (auto simp: matrixKind_def)
  have t: "tight (js_trim room)" using assms(5) by (rule tight_trim)
  have "normalizeLowercaseStringOrEmpty (Some (pp_channel p)) = ''matrix''"
    using assms(1) by (simp add: channelOrUnknown_def Let_def split: if_splits)
  moreover have "normalizeLowercaseStringOrEmpty (Some ''matrix'') = ''matrix''" "normalizeLowercaseStringOrEmpty (Some ''group'') = ''group''"
    "normalizeLowercaseStringOrEmpty (Some ''channel'') = ''channel''" by code_simp+
  ultimately have "normalizeSessionPeerId (Some (pp_channel p)) (Some ?k) (Some room) = js_trim room"
    using k assms(5) by (auto simp: normalizeSessionPeerId_def Let_def isCasePreservingPeer_def findCasePreservingPeerDescriptor_def
        CASE_PRESERVING_PEERS_def matrixKind_def simp del: normalizeLowercaseStringOrEmpty_Some)
  then have b: "buildAgentPeerSessionKey p = ownerHead ?i @ matrixHead ?k @ js_trim room"
    using assms(1-5) by (auto simp: buildAgentPeerSessionKey_def Let_def ownerHead_def matrixHead_def)
  have "tight (ownerHead ?i @ matrixHead ?k @ js_trim room)"
    using t by (auto simp: tight_def ownerHead_def is_js_space_def)
  then have "js_trim (ownerHead ?i @ matrixHead ?k @ js_trim room) = ownerHead ?i @ matrixHead ?k @ js_trim room" by (rule tight_trim_id)
  then have n: "normalizeSessionKeyPreservingOpaquePeerIds (Some (buildAgentPeerSessionKey p)) = ownerHead ?i @ matrixHead ?k @ js_trim room"
    using matrix_normal [OF i(1) k t assms(6)]
    by (simp add: b normalizeSessionKeyPreservingOpaquePeerIds_def normalizeOptionalString_def Let_def)
  have d: "dropWhile (\<lambda>c. c \<noteq> CHR '':'') (?i @ CHR '':'' # u) = CHR '':'' # u"
    "takeWhile (\<lambda>c. c \<noteq> CHR '':'') (?i @ CHR '':'' # u) = ?i" for u
    using id_chars_no_colon [OF i(1)] by (subst dropWhile_append2 takeWhile_append2; auto)+
  have "normalizeOptionalString ?i = Some ?i"
    using i by (simp add: normalizeOptionalString_def id_chars_trim)
  then show ?thesis
    unfolding parseAgentSessionKey_def n by (simp add: Let_def ownerHead_def matrixHead_def starts_with_def d)
qed

section \<open>Examples\<close>

definition demoPeer :: "string \<Rightarrow> chat_type \<Rightarrow> string \<Rightarrow> peer_key_params" where
  "demoPeer channel kind peer = \<lparr>pp_agentId = ''Work Bot'', pp_mainKey = None, pp_channel = channel, pp_accountId = None, pp_peerKind = Some kind,
     pp_peerId = Some peer, pp_identityLinks = None, pp_dmScope = Some DmPerChannelPeer, pp_groupScope = None\<rparr>"


theorem matrix_ids_preserved_witness:
  "parseAgentSessionKey (Some (buildAgentPeerSessionKey (demoPeer ''Matrix'' ChatGroup '' !Room:Example.org ''))) =
     Some \<lparr>pk_agentId = ''work-bot'', pk_rest = ''matrix:group:!Room:Example.org''\<rparr>"
proof -
  let ?p = "demoPeer ''Matrix'' ChatGroup '' !Room:Example.org ''"
  have c: "normalizeAgentId (Some (pp_agentId ?p)) = ''work-bot''" "js_trim '' !Room:Example.org '' = ''!Room:Example.org''"
    "chatTypeText (the (pp_peerKind ?p)) = ''group''" by code_simp+
  have "parseAgentSessionKey (Some (buildAgentPeerSessionKey ?p)) =
    Some \<lparr>pk_agentId = normalizeAgentId (Some (pp_agentId ?p)),
          pk_rest = ''matrix:'' @ chatTypeText (the (pp_peerKind ?p)) @ '':'' @ js_trim '' !Room:Example.org ''\<rparr>"
    by (rule matrix_ids_preserved) code_simp+
  then show ?thesis unfolding c by simp
qed

end
