(* ===== verification/Routing.thy ===== *)
theory Routing
  imports AgentRoster SessionKeys "HOL-Library.List_Lexorder" "HOL-Library.Char_ord"
begin

text \<open>
  Which agent and which session an inbound message belongs to (\<open>src/routing/resolve-route.ts\<close>, with
  \<open>listRouteBindings\<close> of \<open>src/config/bindings.ts\<close>): bindings are evaluated once per channel and account,
  indexed by what they constrain, searched tier by tier, and the resolved routes are cached per configuration.

  Objects compared by identity (evaluated bindings) are told apart by their position \<open>eb_order\<close>. The caches keyed by the
  configuration object are tables for one configuration, which the code takes to be immutable. The JSON text of a cache key is the
  tuple it prints, as printing a list of strings is injective.
\<close>

section \<open>Configuration and input\<close>

record binding_match =
  bm_channel :: "string option"
  bm_accountId :: "string option"
  bm_peer :: "(string option \<times> raw_id) option"
  bm_guildId :: raw_id
  bm_teamId :: raw_id
  bm_roles :: "string list option"

record route_binding =
  rb_agentId :: string
  rb_match :: "binding_match option"
  rb_dmScope :: "dm_scope option"
  rb_groupScope :: "group_scope option"

datatype config_binding = RouteBinding route_binding | AcpBinding route_binding

definition listRouteBindings :: "config_binding list option \<Rightarrow> route_binding list" where
  "listRouteBindings bindings =
     (case bindings of
        None \<Rightarrow> []
      | Some bs \<Rightarrow> List.map_filter (\<lambda>b. case b of RouteBinding r \<Rightarrow> Some r | AcpBinding _ \<Rightarrow> None) bs)"

record routing_config =
  rt_agents :: "agents_config option"
  rt_retainedOwner :: "string option"
  rt_bindings :: "config_binding list option"
  rt_mainKey :: "string option"
  rt_dmScope :: "dm_scope option"
  rt_groupScope :: "group_scope option"
  rt_identityLinks :: "(string \<times> string list option) list option"

type_synonym route_peer = "chat_type \<times> string"

record agent_route_input =
  in_channel :: string
  in_defaultAgentId :: "string option"
  in_accountId :: "string option"
  in_peer :: "route_peer option"
  in_dmScope :: "dm_scope option"
  in_groupScope :: "group_scope option"
  in_parentPeer :: "route_peer option"
  in_guildId :: raw_id
  in_teamId :: raw_id
  in_memberRoleIds :: "string list option"

datatype matched_by = ByPeer | ByPeerParent | ByPeerWildcard | ByGuildRoles | ByGuild | ByTeam | ByAccount | ByChannel | ByDefault
datatype last_route_policy = LastRouteMain | LastRouteSession

record agent_route =
  ro_agentId :: string
  ro_channel :: string
  ro_accountId :: string
  ro_dmScope :: dm_scope
  ro_groupScope :: group_scope
  ro_sessionKey :: string
  ro_mainSessionKey :: string
  ro_lastRoutePolicy :: last_route_policy
  ro_matchedBy :: matched_by

definition deriveLastRoutePolicy :: "string \<Rightarrow> string \<Rightarrow> last_route_policy" where
  "deriveLastRoutePolicy sessionKey mainSessionKey = (if sessionKey = mainSessionKey then LastRouteMain else LastRouteSession)"

definition resolveInboundLastRouteSessionKey :: "agent_route \<Rightarrow> string \<Rightarrow> string" where
  "resolveInboundLastRouteSessionKey route sessionKey =
     (if ro_lastRoutePolicy route = LastRouteMain then ro_mainSessionKey route else sessionKey)"

section \<open>Agents of bindings\<close>

definition agentsByNormalizedId :: "agents_config option \<Rightarrow> (string \<times> string) list" where
  "agentsByNormalizedId agents =
     fold (\<lambda>e m. let rawId = trimOrEmpty (ag_id e) in
        if rawId = [] then m else AList.update (normalizeAgentId (Some rawId)) (normalizeAgentId (Some rawId)) m)
       (listAgentEntries agents) []"

definition pickFirstExistingAgentId :: "routing_config \<Rightarrow> string \<Rightarrow> agent_error + string" where
  "pickFirstExistingAgentId cfg agentId =
     (let byNormalizedId = agentsByNormalizedId (rt_agents cfg); trimmed = js_trim agentId in
      if trimmed = [] then
        (case tryResolveLegacyCompatibilityAgentId (rt_retainedOwner cfg) (rt_agents cfg) of
           Some a \<Rightarrow> Inr (normalizeAgentId (Some a))
         | None \<Rightarrow> map_sum id (\<lambda>a. normalizeAgentId (Some a)) (resolveDefaultAgentId (rt_agents cfg)))
      else
        let normalized = normalizeAgentId (Some trimmed) in
        (case map_of byNormalizedId normalized of
           Some resolved \<Rightarrow> Inr resolved
         | None \<Rightarrow>
             if normalized = ''main'' then Inr ''main''
             else if byNormalizedId = [] then Inr (normalizeAgentId (Some trimmed))
             else Inl (SelectionRequired (map snd byNormalizedId))))"

section \<open>Evaluated bindings\<close>

datatype peer_constraint = PeerNone | PeerInvalid | PeerWildcardKind chat_type | PeerValid chat_type string

record normalized_match =
  nm_accountPattern :: string
  nm_peer :: peer_constraint
  nm_guildId :: "string option"
  nm_teamId :: "string option"
  nm_roles :: "string list option"

record evaluated_binding =
  eb_binding :: route_binding
  eb_match :: normalized_match
  eb_order :: nat

definition normalizePeerConstraint :: "(string option \<times> raw_id) option \<Rightarrow> peer_constraint" where
  "normalizePeerConstraint peer =
     (case peer of
        None \<Rightarrow> PeerNone
      | Some (kindText, rawId) \<Rightarrow>
          let i = normalizeRouteBindingId rawId in
          (case normalizeChatType kindText of
             None \<Rightarrow> PeerInvalid
           | Some kind \<Rightarrow> if i = [] then PeerInvalid else if i = ''*'' then PeerWildcardKind kind else PeerValid kind i))"

definition nonEmptyId :: "raw_id \<Rightarrow> string option" where
  "nonEmptyId v = (let i = normalizeRouteBindingId v in if i = [] then None else Some i)"

definition normalizeBindingMatch :: "binding_match option \<Rightarrow> normalized_match" where
  "normalizeBindingMatch m =
     \<lparr>nm_accountPattern = trimOrEmpty (Option.bind m bm_accountId),
      nm_peer = normalizePeerConstraint (Option.bind m bm_peer),
      nm_guildId = (case m of None \<Rightarrow> None | Some b \<Rightarrow> nonEmptyId (bm_guildId b)),
      nm_teamId = (case m of None \<Rightarrow> None | Some b \<Rightarrow> nonEmptyId (bm_teamId b)),
      nm_roles = normalizeRouteBindingRoles (Option.bind m bm_roles)\<rparr>"

record channel_bucket =
  cb_byAccount :: "(string \<times> evaluated_binding list) list"
  cb_byAnyAccount :: "evaluated_binding list"

text \<open>One step of the loop of \<open>buildEvaluatedBindingsByChannel\<close>: the map so far and the next order.\<close>

definition addEvaluatedBinding :: "route_binding \<Rightarrow> (string \<times> channel_bucket) list \<times> nat \<Rightarrow> (string \<times> channel_bucket) list \<times> nat" where
  "addEvaluatedBinding binding acc =
     (let (byChannel, order) = acc;
          channel = normalizeLowercaseStringOrEmpty (Option.bind (rb_match binding) bm_channel) in
      if channel = [] then acc
      else
        let mt = normalizeBindingMatch (rb_match binding);
            evaluated = \<lparr>eb_binding = binding, eb_match = mt, eb_order = order\<rparr>;
            bucket = (case map_of byChannel channel of Some b \<Rightarrow> b | None \<Rightarrow> \<lparr>cb_byAccount = [], cb_byAnyAccount = []\<rparr>);
            accountKey = normalizeAccountId (Some (nm_accountPattern mt));
            bucket' = (if nm_accountPattern mt = ''*'' then bucket\<lparr>cb_byAnyAccount := cb_byAnyAccount bucket @ [evaluated]\<rparr>
              else bucket\<lparr>cb_byAccount := AList.update accountKey
                     ((case map_of (cb_byAccount bucket) accountKey of Some es \<Rightarrow> es | None \<Rightarrow> []) @ [evaluated]) (cb_byAccount bucket)\<rparr>) in
        (AList.update channel bucket' byChannel, Suc order))"

definition buildEvaluatedBindingsByChannel :: "routing_config \<Rightarrow> (string \<times> channel_bucket) list" where
  "buildEvaluatedBindingsByChannel cfg = fst (fold addEvaluatedBinding (listRouteBindings (rt_bindings cfg)) ([], 0))"

fun mergeEvaluatedBindingsInSourceOrder :: "evaluated_binding list \<Rightarrow> evaluated_binding list \<Rightarrow> evaluated_binding list" where
  "mergeEvaluatedBindingsInSourceOrder [] anyAccount = anyAccount"
| "mergeEvaluatedBindingsInSourceOrder accountScoped [] = accountScoped"
| "mergeEvaluatedBindingsInSourceOrder (a # as) (b # bs) =
     (if eb_order a \<le> eb_order b then a # mergeEvaluatedBindingsInSourceOrder as (b # bs)
      else b # mergeEvaluatedBindingsInSourceOrder (a # as) bs)"

definition evaluatedBindings :: "routing_config \<Rightarrow> string \<times> string \<Rightarrow> evaluated_binding list" where
  "evaluatedBindings cfg ca =
     (let (channel, accountId) = ca; bucket = map_of (buildEvaluatedBindingsByChannel cfg) channel in
      mergeEvaluatedBindingsInSourceOrder
        (case Option.bind bucket (\<lambda>b. map_of (cb_byAccount b) accountId) of Some es \<Rightarrow> es | None \<Rightarrow> [])
        (case bucket of Some b \<Rightarrow> cb_byAnyAccount b | None \<Rightarrow> []))"

section \<open>The index\<close>

definition pushToIndexMap :: "(string \<times> evaluated_binding list) list \<Rightarrow> string option \<Rightarrow> evaluated_binding \<Rightarrow> (string \<times> evaluated_binding list) list" where
  "pushToIndexMap m key binding =
     (case key of
        None \<Rightarrow> m
      | Some k \<Rightarrow>
          if k = [] then m
          else AList.update k ((case map_of m k of Some es \<Rightarrow> es | None \<Rightarrow> []) @ [binding]) m)"

definition peerLookupKeys :: "chat_type \<Rightarrow> string \<Rightarrow> string list" where
  "peerLookupKeys kind i =
     (case kind of
        ChatGroup \<Rightarrow> [''group:'' @ i, ''channel:'' @ i]
      | ChatChannel \<Rightarrow> [''channel:'' @ i, ''group:'' @ i]
      | ChatDirect \<Rightarrow> [''direct:'' @ i])"

record bindings_index =
  ix_byPeer :: "(string \<times> evaluated_binding list) list"
  ix_byPeerWildcard :: "evaluated_binding list"
  ix_byGuildWithRoles :: "(string \<times> evaluated_binding list) list"
  ix_byGuild :: "(string \<times> evaluated_binding list) list"
  ix_byTeam :: "(string \<times> evaluated_binding list) list"
  ix_byAccount :: "evaluated_binding list"
  ix_byChannel :: "evaluated_binding list"

definition emptyIndex :: bindings_index where
  "emptyIndex = \<lparr>ix_byPeer = [], ix_byPeerWildcard = [], ix_byGuildWithRoles = [], ix_byGuild = [], ix_byTeam = [],
     ix_byAccount = [], ix_byChannel = []\<rparr>"

definition addToIndex :: "evaluated_binding \<Rightarrow> bindings_index \<Rightarrow> bindings_index" where
  "addToIndex b ix =
     (let m = eb_match b in
      case nm_peer m of
        PeerValid kind i \<Rightarrow> ix\<lparr>ix_byPeer := fold (\<lambda>key t. pushToIndexMap t (Some key) b) (peerLookupKeys kind i) (ix_byPeer ix)\<rparr>
      | PeerWildcardKind _ \<Rightarrow> ix\<lparr>ix_byPeerWildcard := ix_byPeerWildcard ix @ [b]\<rparr>
      | _ \<Rightarrow>
          if nm_guildId m \<noteq> None \<and> nm_roles m \<noteq> None
          then ix\<lparr>ix_byGuildWithRoles := pushToIndexMap (ix_byGuildWithRoles ix) (nm_guildId m) b\<rparr>
          else if nm_guildId m \<noteq> None \<and> nm_roles m = None
          then ix\<lparr>ix_byGuild := pushToIndexMap (ix_byGuild ix) (nm_guildId m) b\<rparr>
          else if nm_teamId m \<noteq> None then ix\<lparr>ix_byTeam := pushToIndexMap (ix_byTeam ix) (nm_teamId m) b\<rparr>
          else if nm_accountPattern m \<noteq> ''*'' then ix\<lparr>ix_byAccount := ix_byAccount ix @ [b]\<rparr>
          else ix\<lparr>ix_byChannel := ix_byChannel ix @ [b]\<rparr>)"

definition buildEvaluatedBindingsIndex :: "evaluated_binding list \<Rightarrow> bindings_index" where
  "buildEvaluatedBindingsIndex bindings = fold addToIndex bindings emptyIndex"

definition collectPeerIndexedBindings :: "bindings_index \<Rightarrow> route_peer option \<Rightarrow> evaluated_binding list" where
  "collectPeerIndexedBindings index peer =
     (case peer of
        None \<Rightarrow> []
      | Some (kind, i) \<Rightarrow>
          uniqueValues (concat (map (\<lambda>key. case map_of (ix_byPeer index) key of Some es \<Rightarrow> es | None \<Rightarrow> []) (peerLookupKeys kind i))))"

definition listExactDirectMessageBindingPeerIds :: "routing_config \<Rightarrow> string \<Rightarrow> string option \<Rightarrow> string list" where
  "listExactDirectMessageBindingPeerIds cfg channel accountId =
     List.map_filter (\<lambda>key. if starts_with ''direct:'' key then Some (drop 7 key) else None)
       (map fst (ix_byPeer (buildEvaluatedBindingsIndex
          (evaluatedBindings cfg (normalizeLowercaseStringOrEmpty (Some channel), normalizeAccountId accountId)))))"

section \<open>Resolving a route\<close>

definition matchesBindingScope :: "normalized_match \<Rightarrow> route_peer option \<Rightarrow> string \<Rightarrow> string \<Rightarrow> string list \<Rightarrow> bool" where
  "matchesBindingScope m scopePeer guildId teamId memberRoleIds \<longleftrightarrow>
     (case nm_peer m of
        PeerInvalid \<Rightarrow> False
      | PeerValid kind i \<Rightarrow> (case scopePeer of None \<Rightarrow> False | Some (k, j) \<Rightarrow> peerKindMatches kind k \<and> j = i)
      | PeerWildcardKind kind \<Rightarrow> (case scopePeer of None \<Rightarrow> False | Some (k, _) \<Rightarrow> peerKindMatches kind k)
      | PeerNone \<Rightarrow> True) \<and>
     routeBindingScopeMatches \<lparr>rc_guildId = nm_guildId m, rc_teamId = nm_teamId m, rc_roles = nm_roles m\<rparr>
       \<lparr>rs_guildId = IdText guildId, rs_teamId = IdText teamId, rs_groupSpace = IdOther, rs_memberRoleIds = Some memberRoleIds\<rparr>"

text \<open>The input after the normalisation at the head of \<open>resolveAgentRoute\<close>.\<close>

record normal_input =
  ni_channel :: string
  ni_defaultAgentId :: string
  ni_accountId :: string
  ni_peer :: "route_peer option"
  ni_parentPeer :: "route_peer option"
  ni_guildId :: string
  ni_teamId :: string
  ni_memberRoleIds :: "string list"
  ni_dmScope :: dm_scope
  ni_groupScope :: group_scope

definition normalizePeer :: "route_peer option \<Rightarrow> route_peer option" where
  "normalizePeer = map_option (\<lambda>(k, i). (k, normalizeRouteBindingId (IdText i)))"

definition normalizeInput :: "routing_config \<Rightarrow> agent_route_input \<Rightarrow> normal_input" where
  "normalizeInput cfg input =
     \<lparr>ni_channel = normalizeLowercaseStringOrEmpty (Some (in_channel input)),
      ni_defaultAgentId = normalizeLowercaseStringOrEmpty (in_defaultAgentId input),
      ni_accountId = normalizeAccountId (in_accountId input),
      ni_peer = normalizePeer (in_peer input),
      ni_parentPeer = normalizePeer (in_parentPeer input),
      ni_guildId = normalizeRouteBindingId (in_guildId input),
      ni_teamId = normalizeRouteBindingId (in_teamId input),
      ni_memberRoleIds = (case in_memberRoleIds input of Some rs \<Rightarrow> rs | None \<Rightarrow> []),
      ni_dmScope = (case in_dmScope input of Some d \<Rightarrow> d | None \<Rightarrow> (case rt_dmScope cfg of Some d \<Rightarrow> d | None \<Rightarrow> DmMain)),
      ni_groupScope = (case in_groupScope input of Some g \<Rightarrow> g | None \<Rightarrow> (case rt_groupScope cfg of Some g \<Rightarrow> g | None \<Rightarrow> PerGroup))\<rparr>"

definition buildAgentSessionKey :: "string \<Rightarrow> string option \<Rightarrow> string \<Rightarrow> string option \<Rightarrow> route_peer option \<Rightarrow> dm_scope option \<Rightarrow> group_scope option \<Rightarrow>
    (string \<times> string list option) list option \<Rightarrow> string" where
  "buildAgentSessionKey agentId mainKey channel accountId peer dmScope groupScope identityLinks =
     buildAgentPeerSessionKey
       \<lparr>pp_agentId = agentId, pp_mainKey = Some (case mainKey of Some k \<Rightarrow> k | None \<Rightarrow> DEFAULT_MAIN_KEY),
        pp_channel = channelOrUnknown channel, pp_accountId = accountId,
        pp_peerKind = Some (case peer of Some (k, _) \<Rightarrow> k | None \<Rightarrow> ChatDirect),
        pp_peerId = (case peer of None \<Rightarrow> None
                     | Some (_, i) \<Rightarrow> let n = normalizeRouteBindingId (IdText i) in Some (if n = [] then ''unknown'' else n)),
        pp_identityLinks = identityLinks, pp_dmScope = dmScope, pp_groupScope = groupScope\<rparr>"

definition chooseRoute :: "routing_config \<Rightarrow> normal_input \<Rightarrow> string \<Rightarrow> matched_by \<Rightarrow> route_binding option \<Rightarrow> agent_error + agent_route" where
  "chooseRoute cfg n agentId matchedBy binding =
     map_sum id (\<lambda>resolvedAgentId.
       let dmScope = (case Option.bind binding rb_dmScope of Some d \<Rightarrow> d | None \<Rightarrow> ni_dmScope n);
           groupScope = (case Option.bind binding rb_groupScope of Some g \<Rightarrow> g | None \<Rightarrow> ni_groupScope n);
           sessionKey = buildAgentSessionKey resolvedAgentId (rt_mainKey cfg) (ni_channel n) (Some (ni_accountId n)) (ni_peer n)
                          (Some dmScope) (Some groupScope) (rt_identityLinks cfg);
           mainSessionKey = normalizeLowercaseStringOrEmpty (Some (buildAgentMainSessionKey resolvedAgentId (rt_mainKey cfg))) in
       \<lparr>ro_agentId = resolvedAgentId, ro_channel = ni_channel n, ro_accountId = ni_accountId n, ro_dmScope = dmScope,
        ro_groupScope = groupScope, ro_sessionKey = sessionKey, ro_mainSessionKey = mainSessionKey,
        ro_lastRoutePolicy = deriveLastRoutePolicy sessionKey mainSessionKey, ro_matchedBy = matchedBy\<rparr>)
     (pickFirstExistingAgentId cfg agentId)"

text \<open>A tier: its name, whether it applies, the peer its candidates are matched against, and the candidates.\<close>

type_synonym route_tier = "matched_by \<times> bool \<times> route_peer option \<times> evaluated_binding list"

definition routeTiers :: "bindings_index \<Rightarrow> normal_input \<Rightarrow> route_tier list" where
  "routeTiers index n =
     (let peer = ni_peer n; parentPeer = ni_parentPeer n; guildId = ni_guildId n; teamId = ni_teamId n;
          parentScope = (case parentPeer of Some (k, i) \<Rightarrow> if i = [] then None else Some (k, i) | None \<Rightarrow> None);
          bucket = (\<lambda>m key. if key = [] then [] else (case map_of m key of Some es \<Rightarrow> es | None \<Rightarrow> [])) in
      [(ByPeer, peer \<noteq> None, peer, collectPeerIndexedBindings index peer),
       (ByPeerParent, parentScope \<noteq> None, parentScope, collectPeerIndexedBindings index parentPeer),
       (ByPeerWildcard, peer \<noteq> None, peer, ix_byPeerWildcard index),
       (ByGuildRoles, guildId \<noteq> [] \<and> ni_memberRoleIds n \<noteq> [], peer, bucket (ix_byGuildWithRoles index) guildId),
       (ByGuild, guildId \<noteq> [], peer, bucket (ix_byGuild index) guildId),
       (ByTeam, teamId \<noteq> [], peer, bucket (ix_byTeam index) teamId),
       (ByAccount, True, peer, ix_byAccount index),
       (ByChannel, True, peer, ix_byChannel index)])"

fun firstMatchingTier :: "normal_input \<Rightarrow> route_tier list \<Rightarrow> (matched_by \<times> evaluated_binding) option" where
  "firstMatchingTier n [] = None"
| "firstMatchingTier n ((matchedBy, enabled, scopePeer, candidates) # tiers) =
     (case (if enabled
            then find (\<lambda>e. matchesBindingScope (eb_match e) scopePeer (ni_guildId n) (ni_teamId n) (ni_memberRoleIds n)) candidates
            else None) of
        Some e \<Rightarrow> Some (matchedBy, e)
      | None \<Rightarrow> firstMatchingTier n tiers)"

definition selectBinding :: "routing_config \<Rightarrow> normal_input \<Rightarrow> (matched_by \<times> evaluated_binding) option" where
  "selectBinding cfg n =
     firstMatchingTier n (routeTiers (buildEvaluatedBindingsIndex (evaluatedBindings cfg (ni_channel n, ni_accountId n))) n)"

definition resolveNormalRoute :: "routing_config \<Rightarrow> normal_input \<Rightarrow> agent_error + agent_route" where
  "resolveNormalRoute cfg n =
     (case selectBinding cfg n of
        Some (matchedBy, e) \<Rightarrow> chooseRoute cfg n (rb_agentId (eb_binding e)) matchedBy (Some (eb_binding e))
      | None \<Rightarrow>
          (case (if ni_defaultAgentId n \<noteq> [] then Some (ni_defaultAgentId n)
                 else tryResolveLegacyCompatibilityAgentId (rt_retainedOwner cfg) (rt_agents cfg)) of
             Some unboundAgentId \<Rightarrow> chooseRoute cfg n unboundAgentId ByDefault None
           | None \<Rightarrow>
               (case resolveDefaultAgentId (rt_agents cfg) of
                  Inl e \<Rightarrow> Inl e
                | Inr a \<Rightarrow> chooseRoute cfg n a ByDefault None)))"

definition resolveAgentRouteUncached :: "routing_config \<Rightarrow> agent_route_input \<Rightarrow> agent_error + agent_route" where
  "resolveAgentRouteUncached cfg input = resolveNormalRoute cfg (normalizeInput cfg input)"

section \<open>The route cache\<close>

definition MAX_RESOLVED_ROUTE_CACHE_KEYS :: nat where "MAX_RESOLVED_ROUTE_CACHE_KEYS = 4000"

definition formatRouteCachePeer :: "route_peer option \<Rightarrow> string" where
  "formatRouteCachePeer peer =
     (case peer of None \<Rightarrow> ''-'' | Some (k, i) \<Rightarrow> if i = [] then ''-'' else chatTypeText k @ '':'' @ i)"

type_synonym route_cache_key = "string \<times> string \<times> string \<times> string \<times> string \<times> string \<times> string \<times> string list \<times> dm_scope \<times> group_scope"

definition buildResolvedRouteCacheKey :: "normal_input \<Rightarrow> route_cache_key" where
  "buildResolvedRouteCacheKey n =
     (ni_channel n, ni_defaultAgentId n, ni_accountId n, formatRouteCachePeer (ni_peer n), formatRouteCachePeer (ni_parentPeer n),
      ni_guildId n, ni_teamId n, sort (ni_memberRoleIds n), ni_dmScope n, ni_groupScope n)"

definition storeRoute :: "route_cache_key \<Rightarrow> agent_route \<Rightarrow> (route_cache_key \<times> agent_route) list \<Rightarrow> (route_cache_key \<times> agent_route) list" where
  "storeRoute key route cache =
     (let cache' = AList.update key route cache in
      if length cache' > MAX_RESOLVED_ROUTE_CACHE_KEYS then [(key, route)] else cache')"

text \<open>\<open>resolveAgentRoute\<close> with its cache, which identity links switch off.\<close>

definition resolveAgentRoute :: "routing_config \<Rightarrow> agent_route_input \<Rightarrow> (route_cache_key \<times> agent_route) list \<Rightarrow>
    (agent_error + agent_route) \<times> (route_cache_key \<times> agent_route) list" where
  "resolveAgentRoute cfg input cache =
     (let n = normalizeInput cfg input in
      if rt_identityLinks cfg \<noteq> None then (resolveNormalRoute cfg n, cache)
      else
        let key = buildResolvedRouteCacheKey n in
        (case map_of cache key of
           Some route \<Rightarrow> (Inr route, cache)
         | None \<Rightarrow>
             (case resolveNormalRoute cfg n of
                Inl e \<Rightarrow> (Inl e, cache)
              | Inr route \<Rightarrow> (Inr route, storeRoute key route cache))))"

definition resolveUnknownDirectMessageRoute :: "routing_config \<Rightarrow> agent_route_input \<Rightarrow> (route_cache_key \<times> agent_route) list \<Rightarrow>
    (agent_error + agent_route) \<times> (route_cache_key \<times> agent_route) list" where
  "resolveUnknownDirectMessageRoute cfg input cache =
     resolveAgentRoute cfg (input\<lparr>in_peer := Some (ChatDirect, []), in_defaultAgentId := None, in_parentPeer := None,
        in_guildId := IdOther, in_teamId := IdOther, in_memberRoleIds := None\<rparr>) cache"

end
