(* ===== verification/RoutingProps.thy ===== *)
theory RoutingProps
  imports Routing
begin

text \<open>
  Route resolution against its specification: the indexed, cached search of \<open>Routing\<close> selects what a plain
  search of the configured bindings in their order selects, tier by tier; what the cache may and may not be asked; and
  what every resolved route guarantees.
\<close>

section \<open>The specification: search the configured bindings\<close>

definition bindingChannel :: "route_binding \<Rightarrow> string" where
  "bindingChannel b = normalizeLowercaseStringOrEmpty (Option.bind (rb_match b) bm_channel)"

fun evaluateFrom :: "nat \<Rightarrow> route_binding list \<Rightarrow> evaluated_binding list" where
  "evaluateFrom k [] = []"
| "evaluateFrom k (b # bs) =
     (if bindingChannel b = [] then evaluateFrom k bs
      else \<lparr>eb_binding = b, eb_match = normalizeBindingMatch (rb_match b), eb_order = k\<rparr> # evaluateFrom (Suc k) bs)"

definition anyAccount :: "evaluated_binding \<Rightarrow> bool" where
  "anyAccount e \<longleftrightarrow> nm_accountPattern (eb_match e) = ''*''"

definition accountKeyOf :: "evaluated_binding \<Rightarrow> string" where
  "accountKeyOf e = normalizeAccountId (Some (nm_accountPattern (eb_match e)))"

text \<open>The bindings of a channel that cover an account, in configuration order.\<close>

definition eligibleBindings :: "routing_config \<Rightarrow> string \<Rightarrow> string \<Rightarrow> evaluated_binding list" where
  "eligibleBindings cfg channel accountId =
     filter (\<lambda>e. bindingChannel (eb_binding e) = channel \<and> (anyAccount e \<or> accountKeyOf e = accountId))
       (evaluateFrom 0 (listRouteBindings (rt_bindings cfg)))"

text \<open>The tier a binding belongs to by what it constrains; a parent peer is looked up among the peer bindings.\<close>

definition bindingTier :: "normalized_match \<Rightarrow> matched_by" where
  "bindingTier m =
     (case nm_peer m of
        PeerValid _ _ \<Rightarrow> ByPeer
      | PeerWildcardKind _ \<Rightarrow> ByPeerWildcard
      | _ \<Rightarrow>
          if nm_guildId m \<noteq> None \<and> nm_roles m \<noteq> None then ByGuildRoles
          else if nm_guildId m \<noteq> None then ByGuild
          else if nm_teamId m \<noteq> None then ByTeam
          else if nm_accountPattern m \<noteq> ''*'' then ByAccount else ByChannel)"

fun tierScope :: "normal_input \<Rightarrow> matched_by \<Rightarrow> route_peer option" where
  "tierScope n ByPeerParent = (case ni_parentPeer n of Some (k, i) \<Rightarrow> if i = [] then None else Some (k, i) | None \<Rightarrow> None)"
| "tierScope n _ = ni_peer n"

fun tierEnabled :: "normal_input \<Rightarrow> matched_by \<Rightarrow> bool" where
  "tierEnabled n ByPeer = (ni_peer n \<noteq> None)"
| "tierEnabled n ByPeerParent = (tierScope n ByPeerParent \<noteq> None)"
| "tierEnabled n ByPeerWildcard = (ni_peer n \<noteq> None)"
| "tierEnabled n ByGuildRoles = (ni_guildId n \<noteq> [] \<and> ni_memberRoleIds n \<noteq> [])"
| "tierEnabled n ByGuild = (ni_guildId n \<noteq> [])"
| "tierEnabled n ByTeam = (ni_teamId n \<noteq> [])"
| "tierEnabled n _ = True"

definition routeTierOrder :: "matched_by list" where
  "routeTierOrder = [ByPeer, ByPeerParent, ByPeerWildcard, ByGuildRoles, ByGuild, ByTeam, ByAccount, ByChannel]"

definition acceptedBy :: "normal_input \<Rightarrow> matched_by \<Rightarrow> evaluated_binding \<Rightarrow> bool" where
  "acceptedBy n t e \<longleftrightarrow>
     tierEnabled n t \<and> bindingTier (eb_match e) = (if t = ByPeerParent then ByPeer else t) \<and>
     matchesBindingScope (eb_match e) (tierScope n t) (ni_guildId n) (ni_teamId n) (ni_memberRoleIds n)"

text \<open>The first accepted binding of the first tier that has one.\<close>

definition specifiedBinding :: "routing_config \<Rightarrow> normal_input \<Rightarrow> (matched_by \<times> evaluated_binding) option" where
  "specifiedBinding cfg n =
     find (\<lambda>_. True) (concat (map (\<lambda>t. map (Pair t) (filter (acceptedBy n t) (eligibleBindings cfg (ni_channel n) (ni_accountId n)))) routeTierOrder))"

section \<open>Merging two ordered lists\<close>

lemma evaluateFrom_ge: "e \<in> set (evaluateFrom k bs) \<Longrightarrow> k \<le> eb_order e"
  by (induction k bs rule: evaluateFrom.induct) (auto split: if_splits)

lemma evaluateFrom_sorted: "sorted_wrt (\<lambda>x y. eb_order x < eb_order y) (evaluateFrom k bs)"
  by (induction k bs rule: evaluateFrom.induct) (auto dest: evaluateFrom_ge)

lemma sorted_distinct: "sorted_wrt (\<lambda>x y. eb_order x < eb_order y) es \<Longrightarrow> distinct es"
  by (induction es) auto

lemma merge_Nil [simp]: "mergeEvaluatedBindingsInSourceOrder as [] = as"
  by (cases as) auto

lemma merge_left: "(\<And>b. b \<in> set bs \<Longrightarrow> eb_order a < eb_order b) \<Longrightarrow>
    mergeEvaluatedBindingsInSourceOrder (a # as) bs = a # mergeEvaluatedBindingsInSourceOrder as bs"
  by (cases bs) (auto simp: less_imp_le)

lemma merge_right: "(\<And>a. a \<in> set as \<Longrightarrow> eb_order b < eb_order a) \<Longrightarrow>
    mergeEvaluatedBindingsInSourceOrder as (b # bs) = b # mergeEvaluatedBindingsInSourceOrder as bs"
proof (cases as)
  case (Cons x xs)
  assume "\<And>a. a \<in> set as \<Longrightarrow> eb_order b < eb_order a"
  from this [of x] have "\<not> eb_order x \<le> eb_order b" using Cons by simp
  then show ?thesis using Cons by simp
qed simp

lemma merge_filters:
  assumes "sorted_wrt (\<lambda>x y. eb_order x < eb_order y) es" "\<And>e. e \<in> set es \<Longrightarrow> \<not> (P e \<and> Q e)"
  shows "mergeEvaluatedBindingsInSourceOrder (filter P es) (filter Q es) = filter (\<lambda>e. P e \<or> Q e) es"
  using assms
proof (induction es)
  case (Cons x es)
  have lt: "\<And>e R. e \<in> set (filter R es) \<Longrightarrow> eb_order x < eb_order e" using Cons.prems(1) by auto
  have IH: "mergeEvaluatedBindingsInSourceOrder (filter P es) (filter Q es) = filter (\<lambda>e. P e \<or> Q e) es"
    using Cons.prems by (intro Cons.IH) auto
  from Cons.prems(2) [of x] consider "P x" "\<not> Q x" | "\<not> P x" "Q x" | "\<not> P x" "\<not> Q x" by auto
  then show ?case
  proof cases
    case 1
    then show ?thesis using merge_left [of "filter Q es" x "filter P es", OF lt] IH by simp
  next
    case 2
    then show ?thesis using merge_right [of "filter P es" x "filter Q es", OF lt] IH by simp
  next
    case 3
    then show ?thesis using IH by simp
  qed
qed simp

section \<open>The bucket map\<close>

definition bucketAny :: "(string \<times> channel_bucket) list \<Rightarrow> string \<Rightarrow> evaluated_binding list" where
  "bucketAny m c = (case map_of m c of Some b \<Rightarrow> cb_byAnyAccount b | None \<Rightarrow> [])"

definition bucketAccount :: "(string \<times> channel_bucket) list \<Rightarrow> string \<Rightarrow> string \<Rightarrow> evaluated_binding list" where
  "bucketAccount m c a =
     (case Option.bind (map_of m c) (\<lambda>b. map_of (cb_byAccount b) a) of Some es \<Rightarrow> es | None \<Rightarrow> [])"

definition buckets_hold :: "(string \<times> channel_bucket) list \<Rightarrow> evaluated_binding list \<Rightarrow> bool" where
  "buckets_hold m es \<longleftrightarrow>
     (\<forall>c. bucketAny m c = filter (\<lambda>e. bindingChannel (eb_binding e) = c \<and> anyAccount e) es) \<and>
     (\<forall>c a. bucketAccount m c a = filter (\<lambda>e. bindingChannel (eb_binding e) = c \<and> \<not> anyAccount e \<and> accountKeyOf e = a) es)"

lemma addEvaluatedBinding_holds:
  assumes "buckets_hold m es" "bindingChannel b \<noteq> []"
  shows "addEvaluatedBinding b (m, k) = (fst (addEvaluatedBinding b (m, k)), Suc k) \<and>
    buckets_hold (fst (addEvaluatedBinding b (m, k))) (es @ [\<lparr>eb_binding = b, eb_match = normalizeBindingMatch (rb_match b), eb_order = k\<rparr>])"
proof -
  let ?c = "bindingChannel b" and ?e = "\<lparr>eb_binding = b, eb_match = normalizeBindingMatch (rb_match b), eb_order = k\<rparr>"
  define bucket where "bucket = (case map_of m ?c of Some b \<Rightarrow> b | None \<Rightarrow> \<lparr>cb_byAccount = [], cb_byAnyAccount = []\<rparr>)"
  have any: "cb_byAnyAccount bucket = bucketAny m ?c"
    by (simp add: bucket_def bucketAny_def split: option.split)
  have acct: "(case map_of (cb_byAccount bucket) a of Some es \<Rightarrow> es | None \<Rightarrow> []) = bucketAccount m ?c a" for a
    by (simp add: bucket_def bucketAccount_def split: option.split)
  define bucket' where "bucket' = (if anyAccount ?e then bucket\<lparr>cb_byAnyAccount := cb_byAnyAccount bucket @ [?e]\<rparr>
      else bucket\<lparr>cb_byAccount := AList.update (accountKeyOf ?e) (bucketAccount m ?c (accountKeyOf ?e) @ [?e]) (cb_byAccount bucket)\<rparr>)"
  have step: "addEvaluatedBinding b (m, k) = (AList.update ?c bucket' m, Suc k)"
    using assms(2) by (simp add: addEvaluatedBinding_def Let_def bindingChannel_def [symmetric] bucket_def [symmetric] acct [symmetric]
        bucket'_def anyAccount_def accountKeyOf_def)
  have any': "bucketAny (AList.update ?c bucket' m) c = bucketAny m c @ (if c = ?c \<and> anyAccount ?e then [?e] else [])" for c
  proof -
    have "bucketAny (AList.update ?c bucket' m) c = (if c = ?c then cb_byAnyAccount bucket' else bucketAny m c)"
      by (simp add: bucketAny_def map_of_update_if)
    moreover have "cb_byAnyAccount bucket' = bucketAny m ?c @ (if anyAccount ?e then [?e] else [])"
      by (simp add: bucket'_def any)
    ultimately show ?thesis by simp
  qed
  have acct': "bucketAccount (AList.update ?c bucket' m) c a =
      bucketAccount m c a @ (if c = ?c \<and> \<not> anyAccount ?e \<and> accountKeyOf ?e = a then [?e] else [])" for c a
  proof -
    have "bucketAccount (AList.update ?c bucket' m) c a =
        (if c = ?c then (case map_of (cb_byAccount bucket') a of Some es \<Rightarrow> es | None \<Rightarrow> []) else bucketAccount m c a)"
      by (simp add: bucketAccount_def map_of_update_if)
    moreover have "(case map_of (cb_byAccount bucket') a of Some es \<Rightarrow> es | None \<Rightarrow> []) =
        bucketAccount m ?c a @ (if \<not> anyAccount ?e \<and> accountKeyOf ?e = a then [?e] else [])"
      by (simp add: bucket'_def map_of_update_if acct)
    ultimately show ?thesis by simp
  qed
  show ?thesis using assms(1) by (simp add: step buckets_hold_def any' acct')
qed

lemma build_holds:
  assumes "buckets_hold m es"
  shows "buckets_hold (fst (fold addEvaluatedBinding bs (m, k))) (es @ evaluateFrom k bs)"
  using assms
proof (induction bs arbitrary: m k es)
  case (Cons b bs)
  show ?case
  proof (cases "bindingChannel b = []")
    case True
    then have "addEvaluatedBinding b (m, k) = (m, k)"
      by (simp add: addEvaluatedBinding_def bindingChannel_def Let_def)
    then show ?thesis using Cons True by simp
  next
    case False
    let ?e = "\<lparr>eb_binding = b, eb_match = normalizeBindingMatch (rb_match b), eb_order = k\<rparr>"
    obtain m' where m': "addEvaluatedBinding b (m, k) = (m', Suc k)" "buckets_hold m' (es @ [?e])"
      using addEvaluatedBinding_holds [OF Cons.prems False] by blast
    from Cons.IH [OF m'(2), of "Suc k"] show ?thesis using False by (simp add: m'(1))
  qed
qed simp

lemma evaluatedBindings_eligible: "evaluatedBindings cfg (c, a) = eligibleBindings cfg c a"
proof -
  let ?es = "evaluateFrom 0 (listRouteBindings (rt_bindings cfg))" and ?m = "buildEvaluatedBindingsByChannel cfg"
  have h: "buckets_hold ?m ?es"
    using build_holds [of "[]" "[]" "listRouteBindings (rt_bindings cfg)" 0]
    by (simp add: buildEvaluatedBindingsByChannel_def) (simp add: buckets_hold_def bucketAny_def bucketAccount_def)
  have "evaluatedBindings cfg (c, a) = mergeEvaluatedBindingsInSourceOrder (bucketAccount ?m c a) (bucketAny ?m c)"
    by (simp add: evaluatedBindings_def bucketAny_def bucketAccount_def Let_def)
  also have "\<dots> = mergeEvaluatedBindingsInSourceOrder
      (filter (\<lambda>e. bindingChannel (eb_binding e) = c \<and> \<not> anyAccount e \<and> accountKeyOf e = a) ?es)
      (filter (\<lambda>e. bindingChannel (eb_binding e) = c \<and> anyAccount e) ?es)"
    using h unfolding buckets_hold_def by simp
  also have "\<dots> = filter (\<lambda>e. (bindingChannel (eb_binding e) = c \<and> \<not> anyAccount e \<and> accountKeyOf e = a) \<or>
      (bindingChannel (eb_binding e) = c \<and> anyAccount e)) ?es"
    by (rule merge_filters [OF evaluateFrom_sorted]) auto
  also have "\<dots> = eligibleBindings cfg c a"
    unfolding eligibleBindings_def by (rule filter_cong) auto
  finally show ?thesis .
qed

section \<open>The index\<close>

definition indexBucket :: "(string \<times> evaluated_binding list) list \<Rightarrow> string \<Rightarrow> evaluated_binding list" where
  "indexBucket m key = (case map_of m key of Some es \<Rightarrow> es | None \<Rightarrow> [])"

lemma indexBucket_Nil [simp]: "indexBucket [] key = []"
  by (simp add: indexBucket_def)

lemma indexBucket_push:
  "key \<noteq> [] \<Longrightarrow> indexBucket (pushToIndexMap m k b) key = indexBucket m key @ (if k = Some key then [b] else [])"
  by (cases k) (auto simp: indexBucket_def pushToIndexMap_def map_of_update_if)

lemma indexBucket_push_all:
  "key \<noteq> [] \<Longrightarrow> distinct ks \<Longrightarrow>
   indexBucket (fold (\<lambda>k t. pushToIndexMap t (Some k) b) ks m) key = indexBucket m key @ (if key \<in> set ks then [b] else [])"
  by (induction ks arbitrary: m) (auto simp: indexBucket_push)

lemma distinct_peerLookupKeys: "distinct (peerLookupKeys kind i)"
  by (cases kind) (auto simp: peerLookupKeys_def)

lemma peerLookupKeys_match:
  "key \<in> set (peerLookupKeys k j) \<Longrightarrow> key \<in> set (peerLookupKeys kind i) \<longleftrightarrow> peerKindMatches kind k \<and> i = j"
  by (cases k; cases kind) (auto simp: peerLookupKeys_def peerKindMatches_def)

definition peerOf :: "route_peer \<Rightarrow> evaluated_binding \<Rightarrow> bool" where
  "peerOf p e \<longleftrightarrow> (case nm_peer (eb_match e) of PeerValid kind i \<Rightarrow> peerKindMatches kind (fst p) \<and> i = snd p | _ \<Rightarrow> False)"

definition inTier :: "matched_by \<Rightarrow> evaluated_binding \<Rightarrow> bool" where
  "inTier t e \<longleftrightarrow> bindingTier (eb_match e) = t"

lemma addToIndex_tiers:
  "ix_byPeerWildcard (addToIndex b ix) = ix_byPeerWildcard ix @ (if inTier ByPeerWildcard b then [b] else [])"
  "ix_byAccount (addToIndex b ix) = ix_byAccount ix @ (if inTier ByAccount b then [b] else [])"
  "ix_byChannel (addToIndex b ix) = ix_byChannel ix @ (if inTier ByChannel b then [b] else [])"
  "ix_byGuildWithRoles (addToIndex b ix) =
     (if inTier ByGuildRoles b then pushToIndexMap (ix_byGuildWithRoles ix) (nm_guildId (eb_match b)) b else ix_byGuildWithRoles ix)"
  "ix_byGuild (addToIndex b ix) =
     (if inTier ByGuild b then pushToIndexMap (ix_byGuild ix) (nm_guildId (eb_match b)) b else ix_byGuild ix)"
  "ix_byTeam (addToIndex b ix) =
     (if inTier ByTeam b then pushToIndexMap (ix_byTeam ix) (nm_teamId (eb_match b)) b else ix_byTeam ix)"
  by (cases "nm_peer (eb_match b)"; simp add: addToIndex_def inTier_def bindingTier_def Let_def)+

lemma addToIndex_byPeer:
  "ix_byPeer (addToIndex b ix) =
     (case nm_peer (eb_match b) of
        PeerValid kind i \<Rightarrow> fold (\<lambda>key t. pushToIndexMap t (Some key) b) (peerLookupKeys kind i) (ix_byPeer ix)
      | _ \<Rightarrow> ix_byPeer ix)"
  by (cases "nm_peer (eb_match b)"; simp add: addToIndex_def Let_def)

lemma build_snoc: "buildEvaluatedBindingsIndex (es @ [b]) = addToIndex b (buildEvaluatedBindingsIndex es)"
  by (simp add: buildEvaluatedBindingsIndex_def)

lemma build_Nil: "buildEvaluatedBindingsIndex [] = emptyIndex"
  by (simp add: buildEvaluatedBindingsIndex_def)

lemma index_lists:
  "ix_byPeerWildcard (buildEvaluatedBindingsIndex es) = filter (inTier ByPeerWildcard) es"
  "ix_byAccount (buildEvaluatedBindingsIndex es) = filter (inTier ByAccount) es"
  "ix_byChannel (buildEvaluatedBindingsIndex es) = filter (inTier ByChannel) es"
  by (induction es rule: rev_induct; simp add: build_Nil build_snoc addToIndex_tiers emptyIndex_def)+

lemma index_buckets:
  assumes "key \<noteq> []"
  shows "indexBucket (ix_byGuildWithRoles (buildEvaluatedBindingsIndex es)) key =
           filter (\<lambda>e. inTier ByGuildRoles e \<and> nm_guildId (eb_match e) = Some key) es"
    "indexBucket (ix_byGuild (buildEvaluatedBindingsIndex es)) key =
           filter (\<lambda>e. inTier ByGuild e \<and> nm_guildId (eb_match e) = Some key) es"
    "indexBucket (ix_byTeam (buildEvaluatedBindingsIndex es)) key =
           filter (\<lambda>e. inTier ByTeam e \<and> nm_teamId (eb_match e) = Some key) es"
  by (induction es rule: rev_induct; simp add: build_Nil build_snoc addToIndex_tiers emptyIndex_def indexBucket_push [OF assms])+

lemma index_peer:
  assumes "key \<in> set (peerLookupKeys k j)"
  shows "indexBucket (ix_byPeer (buildEvaluatedBindingsIndex es)) key = filter (peerOf (k, j)) es"
proof -
  have k: "key \<noteq> []" using assms by (cases k) (auto simp: peerLookupKeys_def)
  show ?thesis
  proof (induction es rule: rev_induct)
    case (snoc b es)
    then show ?case
      by (cases "nm_peer (eb_match b)"; simp add: build_snoc addToIndex_byPeer peerOf_def
          indexBucket_push_all [OF k distinct_peerLookupKeys] peerLookupKeys_match [OF assms])
  qed (simp add: build_Nil emptyIndex_def)
qed

lemma collect_peer:
  assumes "distinct es"
  shows "collectPeerIndexedBindings (buildEvaluatedBindingsIndex es) (Some (k, j)) = filter (peerOf (k, j)) es"
proof -
  let ?L = "filter (peerOf (k, j)) es" and ?keys = "peerLookupKeys k j"
  have "concat (map (indexBucket (ix_byPeer (buildEvaluatedBindingsIndex es))) ?keys) = concat (map (\<lambda>_. ?L) ?keys)"
    by (rule arg_cong [where f = concat]) (auto simp: index_peer)
  moreover have "uniqueValues (concat (map (\<lambda>_. ?L) ?keys)) = ?L"
    using assms by (cases k) (simp_all add: peerLookupKeys_def uniqueValues_distinct uniqueValues_twice)
  ultimately show ?thesis
    unfolding collectPeerIndexedBindings_def indexBucket_def [symmetric] by simp
qed

section \<open>Selection meets its specification\<close>

definition scopeAccepts :: "normal_input \<Rightarrow> route_peer option \<Rightarrow> evaluated_binding \<Rightarrow> bool" where
  "scopeAccepts n p e \<longleftrightarrow> matchesBindingScope (eb_match e) p (ni_guildId n) (ni_teamId n) (ni_memberRoleIds n)"

lemma find_filter: "find P (filter Q xs) = find (\<lambda>x. Q x \<and> P x) xs"
  by (induction xs) auto

lemma find_cong_set: "(\<And>x. x \<in> set xs \<Longrightarrow> P x = Q x) \<Longrightarrow> find P xs = find Q xs"
  by (induction xs) auto

lemma find_False: "find (\<lambda>_. False) xs = None"
  by (induction xs) auto

lemma find_tagged:
  "find (\<lambda>_. True) (map (Pair t) (filter P es) @ rest) =
   (case find P es of Some e \<Rightarrow> Some (t, e) | None \<Rightarrow> find (\<lambda>_. True) rest)"
  by (induction es) auto

definition wf_evaluated :: "evaluated_binding \<Rightarrow> bool" where
  "wf_evaluated e \<longleftrightarrow> nm_guildId (eb_match e) \<noteq> Some [] \<and> nm_teamId (eb_match e) \<noteq> Some []"

lemma evaluateFrom_wf: "e \<in> set (evaluateFrom k bs) \<Longrightarrow> wf_evaluated e"
  by (induction k bs rule: evaluateFrom.induct)
    (auto simp: wf_evaluated_def normalizeBindingMatch_def nonEmptyId_def Let_def split: if_splits option.splits)

lemma eligible_facts:
  "distinct (eligibleBindings cfg c a)"
  "e \<in> set (eligibleBindings cfg c a) \<Longrightarrow> wf_evaluated e"
  using sorted_distinct [OF evaluateFrom_sorted] by (auto simp: eligibleBindings_def dest: evaluateFrom_wf)

lemma scopeIdMatches_text:
  "c \<noteq> Some [] \<Longrightarrow> scopeIdMatches c (js_trim i) [] \<longleftrightarrow> c = None \<or> c = Some (js_trim i)"
  by (cases c) (auto simp: scopeIdMatches_def)

lemma scopeAccepts_ids:
  assumes "wf_evaluated e" "scopeAccepts n p e"
  shows "nm_guildId (eb_match e) = None \<or> nm_guildId (eb_match e) = Some (js_trim (ni_guildId n))"
    "nm_teamId (eb_match e) = None \<or> nm_teamId (eb_match e) = Some (js_trim (ni_teamId n))"
  using assms by (auto simp: scopeAccepts_def matchesBindingScope_def routeBindingScopeMatches_def Let_def
      normalizeRouteBindingId_def wf_evaluated_def scopeIdMatches_text)

lemma scopeAccepts_peer:
  "inTier ByPeer e \<Longrightarrow> scopeAccepts n (Some (k, j)) e \<Longrightarrow> peerOf (k, j) e"
  by (auto simp: inTier_def bindingTier_def scopeAccepts_def matchesBindingScope_def peerOf_def
      split: peer_constraint.splits if_splits)

lemma peerOf_tier: "peerOf p e \<Longrightarrow> inTier ByPeer e"
  by (auto simp: inTier_def bindingTier_def peerOf_def split: peer_constraint.splits)

lemma inTier_ids:
  "inTier ByGuildRoles e \<Longrightarrow> nm_guildId (eb_match e) \<noteq> None"
  "inTier ByGuild e \<Longrightarrow> nm_guildId (eb_match e) \<noteq> None"
  "inTier ByTeam e \<Longrightarrow> nm_teamId (eb_match e) \<noteq> None"
  by (auto simp: inTier_def bindingTier_def split: peer_constraint.splits if_splits)

definition trimmed_scope :: "normal_input \<Rightarrow> bool" where
  "trimmed_scope n \<longleftrightarrow> js_trim (ni_guildId n) = ni_guildId n \<and> js_trim (ni_teamId n) = ni_teamId n"

lemma normalizeInput_trimmed: "trimmed_scope (normalizeInput cfg input)"
  by (auto simp: trimmed_scope_def normalizeInput_def normalizeRouteBindingId_def split: raw_id.split)

text \<open>Every tier's candidates hold exactly the accepted bindings among those it may accept.\<close>

fun searchTier :: "normal_input \<Rightarrow> route_tier \<Rightarrow> evaluated_binding option" where
  "searchTier n (t, enabled, p, cs) = (if enabled then find (scopeAccepts n p) cs else None)"

lemma firstMatchingTier_Cons:
  "firstMatchingTier n (tier # tiers) =
   (case searchTier n tier of Some e \<Rightarrow> Some (fst tier, e) | None \<Rightarrow> firstMatchingTier n tiers)"
  by (cases tier) (auto simp: scopeAccepts_def [abs_def] split: option.split)

lemma acceptedBy_alt:
  "acceptedBy n t e \<longleftrightarrow> tierEnabled n t \<and> inTier (if t = ByPeerParent then ByPeer else t) e \<and> scopeAccepts n (tierScope n t) e"
  by (auto simp: acceptedBy_def inTier_def scopeAccepts_def)

lemma searchTier_filter:
  assumes "\<And>e. e \<in> set es \<Longrightarrow> tierEnabled n t \<Longrightarrow> scopeAccepts n p e \<Longrightarrow> Q e \<longleftrightarrow> inTier (if t = ByPeerParent then ByPeer else t) e"
    "enabled = tierEnabled n t" "p = tierScope n t" "tierEnabled n t \<Longrightarrow> cs = filter Q es"
  shows "searchTier n (t', enabled, p, cs) = find (acceptedBy n t) es"
proof (cases "tierEnabled n t")
  case True
  then have "searchTier n (t', enabled, p, cs) = find (\<lambda>e. Q e \<and> scopeAccepts n p e) es"
    using assms by (simp add: find_filter)
  also have "\<dots> = find (acceptedBy n t) es"
    using assms True by (intro find_cong_set) (auto simp: acceptedBy_alt)
  finally show ?thesis .
next
  case False
  then have "acceptedBy n t = (\<lambda>_. False)" by (auto simp: acceptedBy_alt)
  then show ?thesis using False assms(2) by (simp add: find_False)
qed

lemma specified_step:
  "find (\<lambda>_. True) (concat (map (\<lambda>t. map (Pair t) (filter (A t) es)) (t # ts))) =
   (case find (A t) es of Some e \<Rightarrow> Some (t, e) | None \<Rightarrow> find (\<lambda>_. True) (concat (map (\<lambda>t. map (Pair t) (filter (A t) es)) ts)))"
  by (simp add: find_tagged)

lemma tiers_specified:
  "list_all2 (\<lambda>tier t. fst tier = t \<and> searchTier n tier = find (acceptedBy n t) es) tiers ts \<Longrightarrow>
   firstMatchingTier n tiers = find (\<lambda>_. True) (concat (map (\<lambda>t. map (Pair t) (filter (acceptedBy n t) es)) ts))"
proof (induction rule: list_all2_induct)
  case (Cons tier tiers t ts)
  then show ?case unfolding specified_step firstMatchingTier_Cons by (auto split: option.split)
qed simp

lemma tierEnabled_peer: "tierEnabled n t \<Longrightarrow> t = ByPeer \<or> t = ByPeerParent \<Longrightarrow> \<exists>k j. tierScope n t = Some (k, j)"
  by auto

lemma searchTier_peer:
  assumes "distinct es" "t = ByPeer \<or> t = ByPeerParent" "enabled = tierEnabled n t" "p = tierScope n t"
    "cs = collectPeerIndexedBindings (buildEvaluatedBindingsIndex es) q" "tierEnabled n t \<Longrightarrow> q = p"
  shows "searchTier n (t', enabled, p, cs) = find (acceptedBy n t) es"
proof (cases "tierEnabled n t")
  case True
  obtain k j where kj: "tierScope n t = Some (k, j)" using tierEnabled_peer [OF True assms(2)] by blast
  have tier: "(if t = ByPeerParent then ByPeer else t) = ByPeer" using assms(2) by auto
  show ?thesis
    by (rule searchTier_filter [where Q = "peerOf (k, j)"])
      (use assms kj True tier in \<open>auto simp: collect_peer dest: peerOf_tier scopeAccepts_peer\<close>)
next
  case False
  then show ?thesis using assms(3) by (intro searchTier_filter [where Q = "\<lambda>_. False"]) (auto simp: assms(4))
qed

lemma selectBinding_specified:
  assumes "trimmed_scope n"
  shows "selectBinding cfg n = specifiedBinding cfg n"
proof -
  let ?es = "eligibleBindings cfg (ni_channel n) (ni_accountId n)"
  let ?ix = "buildEvaluatedBindingsIndex ?es"
  note wf = eligible_facts(2) [of _ cfg "ni_channel n" "ni_accountId n"]
  have ids: "nm_guildId (eb_match e) = None \<or> nm_guildId (eb_match e) = Some (ni_guildId n)"
    "nm_teamId (eb_match e) = None \<or> nm_teamId (eb_match e) = Some (ni_teamId n)"
    if "e \<in> set ?es" "scopeAccepts n p e" for e p
    using scopeAccepts_ids [OF wf [OF that(1)] that(2)] assms by (simp_all add: trimmed_scope_def)
  note peer = searchTier_peer [OF eligible_facts(1)]
  have "list_all2 (\<lambda>tier t. fst tier = t \<and> searchTier n tier = find (acceptedBy n t) ?es) (routeTiers ?ix n) routeTierOrder"
    unfolding routeTiers_def routeTierOrder_def Let_def indexBucket_def [symmetric] list_all2_Cons fst_conv
  proof (intro conjI list_all2_Nil [THEN iffD2] refl)
    show "searchTier n (ByPeer, ni_peer n \<noteq> None, ni_peer n, collectPeerIndexedBindings ?ix (ni_peer n)) = find (acceptedBy n ByPeer) ?es"
      by (rule peer) auto
    show "searchTier n (ByPeerParent, (case ni_parentPeer n of None \<Rightarrow> None | Some (k, i) \<Rightarrow> if i = [] then None else Some (k, i)) \<noteq> None,
        case ni_parentPeer n of None \<Rightarrow> None | Some (k, i) \<Rightarrow> if i = [] then None else Some (k, i),
        collectPeerIndexedBindings ?ix (ni_parentPeer n)) = find (acceptedBy n ByPeerParent) ?es"
      by (rule peer [where q = "ni_parentPeer n"]) (auto split: option.splits if_splits)
    show "searchTier n (ByPeerWildcard, ni_peer n \<noteq> None, ni_peer n, ix_byPeerWildcard ?ix) = find (acceptedBy n ByPeerWildcard) ?es"
      by (rule searchTier_filter [where Q = "inTier ByPeerWildcard"]) (simp_all add: index_lists)
    show "searchTier n (ByGuildRoles, ni_guildId n \<noteq> [] \<and> ni_memberRoleIds n \<noteq> [], ni_peer n,
        if ni_guildId n = [] then [] else indexBucket (ix_byGuildWithRoles ?ix) (ni_guildId n)) = find (acceptedBy n ByGuildRoles) ?es"
      by (rule searchTier_filter [where Q = "\<lambda>e. inTier ByGuildRoles e \<and> nm_guildId (eb_match e) = Some (ni_guildId n)"])
        (auto simp: index_buckets dest: ids inTier_ids)
    show "searchTier n (ByGuild, ni_guildId n \<noteq> [], ni_peer n,
        if ni_guildId n = [] then [] else indexBucket (ix_byGuild ?ix) (ni_guildId n)) = find (acceptedBy n ByGuild) ?es"
      by (rule searchTier_filter [where Q = "\<lambda>e. inTier ByGuild e \<and> nm_guildId (eb_match e) = Some (ni_guildId n)"])
        (auto simp: index_buckets dest: ids inTier_ids)
    show "searchTier n (ByTeam, ni_teamId n \<noteq> [], ni_peer n,
        if ni_teamId n = [] then [] else indexBucket (ix_byTeam ?ix) (ni_teamId n)) = find (acceptedBy n ByTeam) ?es"
      by (rule searchTier_filter [where Q = "\<lambda>e. inTier ByTeam e \<and> nm_teamId (eb_match e) = Some (ni_teamId n)"])
        (auto simp: index_buckets dest: ids inTier_ids)
    show "searchTier n (ByAccount, True, ni_peer n, ix_byAccount ?ix) = find (acceptedBy n ByAccount) ?es"
      by (rule searchTier_filter [where Q = "inTier ByAccount"]) (simp_all add: index_lists)
    show "searchTier n (ByChannel, True, ni_peer n, ix_byChannel ?ix) = find (acceptedBy n ByChannel) ?es"
      by (rule searchTier_filter [where Q = "inTier ByChannel"]) (simp_all add: index_lists)
  qed
  from tiers_specified [OF this] show ?thesis
    by (simp add: selectBinding_def evaluatedBindings_eligible specifiedBinding_def)
qed

section \<open>The route cache\<close>

text \<open>What a route depends on: roles as a set, and a parent peer only when its id is not empty.\<close>

definition same_question :: "normal_input \<Rightarrow> normal_input \<Rightarrow> bool" where
  "same_question n n' \<longleftrightarrow>
     ni_channel n = ni_channel n' \<and> ni_defaultAgentId n = ni_defaultAgentId n' \<and> ni_accountId n = ni_accountId n' \<and>
     ni_peer n = ni_peer n' \<and> tierScope n ByPeerParent = tierScope n' ByPeerParent \<and> ni_guildId n = ni_guildId n' \<and>
     ni_teamId n = ni_teamId n' \<and> set (ni_memberRoleIds n) = set (ni_memberRoleIds n') \<and>
     ni_dmScope n = ni_dmScope n' \<and> ni_groupScope n = ni_groupScope n'"

lemma same_question_scope:
  assumes "same_question n n'"
  shows "tierScope n t = tierScope n' t" "tierEnabled n t = tierEnabled n' t"
proof -
  have r: "ni_memberRoleIds n = [] \<longleftrightarrow> ni_memberRoleIds n' = []"
    using assms by (metis same_question_def set_empty)
  have p: "tierScope n ByPeerParent = tierScope n' ByPeerParent" "ni_peer n = ni_peer n'" using assms by (simp_all add: same_question_def)
  show s: "tierScope n t = tierScope n' t" using p by (cases t) auto
  show "tierEnabled n t = tierEnabled n' t"
    using assms r by (cases t) (simp_all add: same_question_def del: tierScope.simps)
qed

lemma same_question_accepted: "same_question n n' \<Longrightarrow> acceptedBy n t = acceptedBy n' t"
proof -
  assume q: "same_question n n'"
  then have "matchesBindingScope m p (ni_guildId n) (ni_teamId n) (ni_memberRoleIds n) =
      matchesBindingScope m p (ni_guildId n') (ni_teamId n') (ni_memberRoleIds n')" for m p
    by (simp add: matchesBindingScope_def routeBindingScopeMatches_def hasAnyRouteBindingRole_def same_question_def Let_def
        split: option.split)
  then show ?thesis
    unfolding fun_eq_iff acceptedBy_def same_question_scope [OF q] by simp
qed

lemma same_question_route:
  assumes "same_question n n'" "trimmed_scope n" "trimmed_scope n'"
  shows "resolveNormalRoute cfg n = resolveNormalRoute cfg n'"
proof -
  have "specifiedBinding cfg n = specifiedBinding cfg n'"
    unfolding specifiedBinding_def same_question_accepted [OF assms(1)] using assms(1) by (simp add: same_question_def)
  then have sel: "selectBinding cfg n = selectBinding cfg n'" using assms(2,3) by (simp add: selectBinding_specified)
  have ch: "chooseRoute cfg n = chooseRoute cfg n'"
  proof -
    have e: "ni_channel n = ni_channel n'" "ni_accountId n = ni_accountId n'" "ni_peer n = ni_peer n'"
      "ni_dmScope n = ni_dmScope n'" "ni_groupScope n = ni_groupScope n'"
      using assms(1) by (simp_all add: same_question_def)
    show ?thesis unfolding fun_eq_iff chooseRoute_def e by blast
  qed
  have "ni_defaultAgentId n = ni_defaultAgentId n'" using assms(1) by (simp add: same_question_def)
  then show ?thesis unfolding resolveNormalRoute_def sel ch by (rule arg_cong)
qed

text \<open>A peer whose id survives trimming; the cache key does not tell an empty id from no peer.\<close>

definition solidPeer :: "agent_route_input \<Rightarrow> bool" where
  "solidPeer input \<longleftrightarrow> (case in_peer input of None \<Rightarrow> True | Some (_, i) \<Rightarrow> js_trim i \<noteq> [])"

lemma formatPeer_inj:
  assumes "formatRouteCachePeer p = formatRouteCachePeer q"
  shows "(case p of Some (k, i) \<Rightarrow> if i = [] then None else Some (k, i) | None \<Rightarrow> None) =
    (case q of Some (k, i) \<Rightarrow> if i = [] then None else Some (k, i) | None \<Rightarrow> None)"
proof -
  have c: "chatTypeText k @ CHR '':'' # i = chatTypeText k' @ CHR '':'' # i' \<Longrightarrow> k = k' \<and> i = i'" for k k' i i'
    by (cases k; cases k') auto
  have d: "chatTypeText k @ CHR '':'' # i \<noteq> ''-''" for k i by (cases k) auto
  let ?s = "\<lambda>p. (case p of Some (k, i) \<Rightarrow> if i = [] then None else Some (k, i) | None \<Rightarrow> None) :: route_peer option"
  have e: "formatRouteCachePeer p = (case ?s p of None \<Rightarrow> ''-'' | Some (k, i) \<Rightarrow> chatTypeText k @ '':'' @ i)" for p
    by (cases p) (auto simp: formatRouteCachePeer_def)
  have "(case a of None \<Rightarrow> ''-'' | Some (k, i) \<Rightarrow> chatTypeText k @ '':'' @ i) = (case b of None \<Rightarrow> ''-'' | Some (k, i) \<Rightarrow> chatTypeText k @ '':'' @ i)
      \<Longrightarrow> a = b" for a b
    by (cases a; cases b) (auto dest: c simp: d d [symmetric])
  from this [of "?s p" "?s q"] show ?thesis using assms unfolding e by blast
qed

lemma sort_eq_set: "sort xs = sort (ys :: string list) \<Longrightarrow> set xs = set ys"
  by (metis set_sort)

lemma same_key_question:
  assumes "solidPeer i" "solidPeer j"
    "buildResolvedRouteCacheKey (normalizeInput cfg i) = buildResolvedRouteCacheKey (normalizeInput cfg j)"
  shows "same_question (normalizeInput cfg i) (normalizeInput cfg j)"
proof -
  let ?n = "normalizeInput cfg i" and ?n' = "normalizeInput cfg j"
  have f: "formatRouteCachePeer (ni_peer ?n) = formatRouteCachePeer (ni_peer ?n')"
    "formatRouteCachePeer (ni_parentPeer ?n) = formatRouteCachePeer (ni_parentPeer ?n')"
    using assms(3) by (simp_all add: buildResolvedRouteCacheKey_def)
  have s: "(case ni_peer (normalizeInput cfg x) of Some (k, i) \<Rightarrow> if i = [] then None else Some (k, i) | None \<Rightarrow> None) =
      ni_peer (normalizeInput cfg x)" if "solidPeer x" for x
    using that by (auto simp: solidPeer_def normalizeInput_def normalizePeer_def normalizeRouteBindingId_def split: option.splits)
  have "ni_peer ?n = ni_peer ?n'" using formatPeer_inj [OF f(1)] by (simp only: s assms(1,2))
  moreover have "tierScope ?n ByPeerParent = tierScope ?n' ByPeerParent" using formatPeer_inj [OF f(2)] by simp
  moreover have "set (ni_memberRoleIds ?n) = set (ni_memberRoleIds ?n')"
    by (rule sort_eq_set) (use assms(3) in \<open>simp add: buildResolvedRouteCacheKey_def\<close>)
  ultimately show ?thesis
    using assms(3) by (simp add: same_question_def buildResolvedRouteCacheKey_def del: tierScope.simps)
qed

lemma length_storeRoute:
  "length c \<le> MAX_RESOLVED_ROUTE_CACHE_KEYS \<Longrightarrow> length (storeRoute k r c) \<le> MAX_RESOLVED_ROUTE_CACHE_KEYS"
  by (simp add: storeRoute_def Let_def MAX_RESOLVED_ROUTE_CACHE_KEYS_def)

lemma set_storeRoute: "set (storeRoute k r c) \<subseteq> insert (k, r) (set c)"
  using set_update_subset [of k r c] by (auto simp: storeRoute_def Let_def)

definition routeCacheKeyOf :: "routing_config \<Rightarrow> agent_route_input \<Rightarrow> route_cache_key" where
  "routeCacheKeyOf cfg input = buildResolvedRouteCacheKey (normalizeInput cfg input)"

lemma resolveAgentRoute_cases:
  obtains "resolveAgentRoute cfg i m = (resolveAgentRouteUncached cfg i, m)"
  | r where "map_of m (routeCacheKeyOf cfg i) = Some r" "resolveAgentRoute cfg i m = (Inr r, m)"
  | r where "resolveAgentRouteUncached cfg i = Inr r" "resolveAgentRoute cfg i m = (Inr r, storeRoute (routeCacheKeyOf cfg i) r m)"
proof -
  note d = resolveAgentRoute_def resolveAgentRouteUncached_def routeCacheKeyOf_def Let_def
  show thesis
  proof (cases "rt_identityLinks cfg = None")
    case False
    then show thesis by (intro that(1)) (simp add: d)
  next
    case True
    show thesis
    proof (cases "map_of m (routeCacheKeyOf cfg i)")
      case None
      show thesis
      proof (cases "resolveAgentRouteUncached cfg i")
        case (Inl e)
        then show thesis using True None by (intro that(1)) (simp add: d)
      next
        case (Inr r)
        then show thesis using True None by (intro that(3) [of r]) (simp_all add: d)
      qed
    next
      case (Some r)
      then show thesis using True by (intro that(2) [of r]) (simp_all add: d)
    qed
  qed
qed

interpretation route_cache: memo_table "routeCacheKeyOf cfg" "resolveAgentRouteUncached cfg" Inr solidPeer
  MAX_RESOLVED_ROUTE_CACHE_KEYS "resolveAgentRoute cfg" for cfg
proof unfold_locales
  fix i and m :: "(route_cache_key \<times> agent_route) list"
  let ?c = "resolveAgentRoute cfg i m"
  show "fst ?c = resolveAgentRouteUncached cfg i \<or> (\<exists>v. (routeCacheKeyOf cfg i, v) \<in> set m \<and> fst ?c = Inr v)"
    by (cases rule: resolveAgentRoute_cases [of cfg i m]) (auto dest: map_of_SomeD)
  show "set (snd ?c) \<subseteq> set m \<union> {(routeCacheKeyOf cfg i, v) |v. Inr v = resolveAgentRouteUncached cfg i}"
    using set_storeRoute [of "routeCacheKeyOf cfg i" _ m]
    by (cases rule: resolveAgentRoute_cases [of cfg i m]) (auto dest!: subsetD)
  show "length m \<le> MAX_RESOLVED_ROUTE_CACHE_KEYS \<Longrightarrow> length (snd ?c) \<le> MAX_RESOLVED_ROUTE_CACHE_KEYS"
    by (cases rule: resolveAgentRoute_cases [of cfg i m]) (auto simp: length_storeRoute)
next
  fix i j
  assume "solidPeer i" "solidPeer j" "routeCacheKeyOf cfg i = routeCacheKeyOf cfg j"
  then show "resolveAgentRouteUncached cfg i = resolveAgentRouteUncached cfg j"
    unfolding resolveAgentRouteUncached_def routeCacheKeyOf_def
    by (intro same_question_route same_key_question normalizeInput_trimmed)
qed

section \<open>What a resolved route guarantees\<close>

lemma normalizeAgentId_trim: "normalizeAgentId (Some (js_trim s)) = normalizeAgentId (Some s)"
  by (simp add: normalizeAgentId_def normalizeAgentIdStrict_def Let_def)

definition namedAgentIds :: "agents_config option \<Rightarrow> string set" where
  "namedAgentIds agents = {normalizeAgentId (ag_id e) | e. e \<in> set (listAgentEntries agents) \<and> trimOrEmpty (ag_id e) \<noteq> []}"

lemma normalizeAgentId_trimOrEmpty: "normalizeAgentId (Some (trimOrEmpty v)) = normalizeAgentId v"
  by (cases v) (simp_all add: trimOrEmpty_def normalizeAgentId_trim, simp add: normalizeAgentId_def normalizeAgentIdStrict_def Let_def)

lemma map_of_agents_fold:
  "map_of (fold (\<lambda>e m. let rawId = trimOrEmpty (ag_id e) in
      if rawId = [] then m else AList.update (normalizeAgentId (Some rawId)) (normalizeAgentId (Some rawId)) m) es m) a =
   (if a \<in> {normalizeAgentId (ag_id e) | e. e \<in> set es \<and> trimOrEmpty (ag_id e) \<noteq> []} then Some a else map_of m a)"
  by (induction es arbitrary: m) (auto simp: Let_def normalizeAgentId_trimOrEmpty map_of_update_if)

lemma map_of_agents: "map_of (agentsByNormalizedId agents) a = (if a \<in> namedAgentIds agents then Some a else None)"
  unfolding agentsByNormalizedId_def map_of_agents_fold namedAgentIds_def by simp blast

lemma distinct_agents_fold:
  "distinct (map fst m) \<Longrightarrow> distinct (map fst (fold (\<lambda>e m. let rawId = trimOrEmpty (ag_id e) in
      if rawId = [] then m else AList.update (normalizeAgentId (Some rawId)) (normalizeAgentId (Some rawId)) m) es m))"
  by (induction es arbitrary: m) (auto simp: Let_def distinct_update)

lemma distinct_agents: "distinct (map fst (agentsByNormalizedId agents))"
  unfolding agentsByNormalizedId_def by (rule distinct_agents_fold) simp

lemma agents_ids: "set (map snd (agentsByNormalizedId agents)) = namedAgentIds agents"
proof -
  have m: "(a, b) \<in> set (agentsByNormalizedId agents) \<longleftrightarrow> a = b \<and> a \<in> namedAgentIds agents" for a b
    by (auto simp: mem_map_of [OF distinct_agents] map_of_agents)
  have "b \<in> snd ` set (agentsByNormalizedId agents) \<longleftrightarrow> (\<exists>a. (a, b) \<in> set (agentsByNormalizedId agents))" for b
    by force
  then show ?thesis by (simp add: set_eq_iff m)
qed

lemma agents_empty: "agentsByNormalizedId agents = [] \<longleftrightarrow> namedAgentIds agents = {}"
  using agents_ids [of agents] by auto

lemma pickFirst_cases:
  assumes "js_trim agentId \<noteq> []"
  shows "pickFirstExistingAgentId cfg agentId =
    (let a = normalizeAgentId (Some agentId) in
     if a \<in> namedAgentIds (rt_agents cfg) \<or> a = ''main'' \<or> namedAgentIds (rt_agents cfg) = {} then Inr a
     else Inl (SelectionRequired (map snd (agentsByNormalizedId (rt_agents cfg)))))"
  using assms by (simp add: pickFirstExistingAgentId_def Let_def normalizeAgentId_trim map_of_agents agents_empty)

lemma chooseRoute_agent:
  "(case chooseRoute cfg n agentId t b of Inr r \<Rightarrow> pickFirstExistingAgentId cfg agentId = Inr (ro_agentId r) \<and> ro_matchedBy r = t
    | Inl e \<Rightarrow> pickFirstExistingAgentId cfg agentId = Inl e)"
  by (cases "pickFirstExistingAgentId cfg agentId") (simp_all add: chooseRoute_def Let_def)

text \<open>
  C23. A binding sends its messages to the agent it names or to nobody: if that agent is configured, is
  main, or no agent is, the route goes to it under the binding's tier; otherwise resolution fails and the error lists
  the configured agents.
\<close>

theorem bound_route_agent:
  assumes "selectBinding cfg n = Some (t, e)" and "js_trim (rb_agentId (eb_binding e)) \<noteq> []"
  shows "case resolveNormalRoute cfg n of
      Inr r \<Rightarrow> ro_agentId r = normalizeAgentId (Some (rb_agentId (eb_binding e))) \<and> ro_matchedBy r = t \<and>
        ro_agentId r \<in> namedAgentIds (rt_agents cfg) \<union> (if namedAgentIds (rt_agents cfg) = {} then {ro_agentId r} else {''main''})
    | Inl (SelectionRequired ids) \<Rightarrow> normalizeAgentId (Some (rb_agentId (eb_binding e))) \<notin> set ids \<and> set ids = namedAgentIds (rt_agents cfg)
    | Inl _ \<Rightarrow> False"
proof -
  have r: "resolveNormalRoute cfg n = chooseRoute cfg n (rb_agentId (eb_binding e)) t (Some (eb_binding e))"
    using assms(1) by (simp add: resolveNormalRoute_def)
  show ?thesis
    using chooseRoute_agent [where cfg = cfg and n = n and agentId = "rb_agentId (eb_binding e)" and t = t and b = "Some (eb_binding e)"] pickFirst_cases [OF assms(2), of cfg]
      agents_ids [of "rt_agents cfg"]
    unfolding r by (auto simp: Let_def split: sum.splits agent_error.splits if_splits)
qed

lemma hd_channelOrUnknown: "hd (channelOrUnknown (channelOrUnknown c)) = hd (channelOrUnknown c)"
  by (simp add: channelOrUnknown_def Let_def js_trim_lower) (simp add: js_lower_def js_trim_def is_js_space_def lower_char_def)

lemma pickFirst_normal: "pickFirstExistingAgentId cfg x = Inr a \<Longrightarrow> \<exists>v. a = normalizeAgentId v"
proof (cases "js_trim x = []")
  case True
  then show "pickFirstExistingAgentId cfg x = Inr a \<Longrightarrow> ?thesis"
    by (cases "resolveDefaultAgentId (rt_agents cfg)")
      (auto simp: pickFirstExistingAgentId_def Let_def split: option.splits)
next
  case False
  have "normalizeAgentId None = ''main''" by code_simp
  with False show "pickFirstExistingAgentId cfg x = Inr a \<Longrightarrow> ?thesis"
    by (auto simp: pickFirst_cases Let_def namedAgentIds_def split: if_splits)
qed

definition routePeerKey :: "routing_config \<Rightarrow> normal_input \<Rightarrow> agent_route \<Rightarrow> peer_key_params" where
  "routePeerKey cfg n r =
     \<lparr>pp_agentId = ro_agentId r, pp_mainKey = Some (case rt_mainKey cfg of Some k \<Rightarrow> k | None \<Rightarrow> DEFAULT_MAIN_KEY),
      pp_channel = channelOrUnknown (ni_channel n), pp_accountId = Some (ni_accountId n),
      pp_peerKind = Some (case ni_peer n of Some (k, _) \<Rightarrow> k | None \<Rightarrow> ChatDirect),
      pp_peerId = (case ni_peer n of None \<Rightarrow> None
                   | Some (_, i) \<Rightarrow> let n = normalizeRouteBindingId (IdText i) in Some (if n = [] then ''unknown'' else n)),
      pp_identityLinks = rt_identityLinks cfg, pp_dmScope = Some (ro_dmScope r), pp_groupScope = Some (ro_groupScope r)\<rparr>"

lemma chooseRoute_fields:
  assumes "chooseRoute cfg n x t b = Inr r"
  shows "pickFirstExistingAgentId cfg x = Inr (ro_agentId r)" "ro_sessionKey r = buildAgentPeerSessionKey (routePeerKey cfg n r)"
    "ro_lastRoutePolicy r = (if ro_sessionKey r = ro_mainSessionKey r then LastRouteMain else LastRouteSession)"
  using assms
  by (cases "pickFirstExistingAgentId cfg x";
      auto simp: chooseRoute_def Let_def buildAgentSessionKey_def routePeerKey_def deriveLastRoutePolicy_def)+

lemma resolveNormalRoute_chosen: "resolveNormalRoute cfg n = Inr r \<Longrightarrow> \<exists>x t b. chooseRoute cfg n x t b = Inr r"
  by (auto simp: resolveNormalRoute_def split: option.splits prod.splits sum.splits if_splits)

lemma channelOrUnknown_stable:
  "channelOrUnknown (channelOrUnknown (normalizeLowercaseStringOrEmpty (Some c))) = channelOrUnknown c"
proof (cases "js_trim c = []")
  case False
  then show ?thesis by (simp add: channelOrUnknown_def Let_def js_trim_lower)
next
  case True
  then have "channelOrUnknown c = ''unknown''" "channelOrUnknown (normalizeLowercaseStringOrEmpty (Some c)) = ''unknown''"
    by (simp_all add: channelOrUnknown_def Let_def js_lower_def)
  moreover have "channelOrUnknown ''unknown'' = ''unknown''" by code_simp
  ultimately show ?thesis by simp
qed


text \<open>
  C19. The tier-by-tier search through the index and its per-account merge selects what the configuration
  says: the first binding, in configuration order, that constrains the message's channel and account and matches
  its peer, parent peer, guild, team and roles, in the first tier of the documented order that has one.
\<close>

theorem route_selection_specified:
  "selectBinding cfg (normalizeInput cfg input) = specifiedBinding cfg (normalizeInput cfg input)"
  by (rule selectBinding_specified [OF normalizeInput_trimmed])

text \<open>
  C20. The route cache cannot be observed: from an empty cache, any run of lookups whose peers carry an id gives the
  routes the search gives, whatever is stored, hit or cleared meanwhile, and the cache never exceeds its bound.
\<close>

theorem route_cache_transparent:
  assumes "\<forall>i \<in> set inputs. solidPeer i"
  shows "fst (run_lookups (resolveAgentRoute cfg) inputs []) = map (resolveAgentRouteUncached cfg) inputs \<and>
    length (snd (run_lookups (resolveAgentRoute cfg) inputs [])) \<le> MAX_RESOLVED_ROUTE_CACHE_KEYS"
  using assms by (intro conjI route_cache.runs_transparent route_cache.runs_bounded) simp_all

section \<open>Witnesses\<close>

definition demoBinding :: "string \<Rightarrow> string option \<Rightarrow> (string option \<times> raw_id) option \<Rightarrow> config_binding" where
  "demoBinding agent account peer = RouteBinding \<lparr>rb_agentId = agent,
     rb_match = Some \<lparr>bm_channel = Some ''telegram'', bm_accountId = account, bm_peer = peer, bm_guildId = IdOther, bm_teamId = IdOther,
       bm_roles = None\<rparr>, rb_dmScope = None, rb_groupScope = None\<rparr>"

definition demoRouting :: routing_config where
  "demoRouting = \<lparr>rt_agents = Some \<lparr>ac_entries = Some (EntriesRecord
       [(''main'', Some \<lparr>ag_id = None, ag_default = None\<rparr>), (''work'', Some \<lparr>ag_id = None, ag_default = None\<rparr>)]),
       ac_list = None, ac_ownership = None, ac_systemAgentId = None\<rparr>,
     rt_retainedOwner = None,
     rt_bindings = Some [demoBinding ''main'' (Some ''*'') None, demoBinding ''work'' (Some ''*'') (Some (Some ''direct'', IdText ''*''))],
     rt_mainKey = None, rt_dmScope = None, rt_groupScope = None, rt_identityLinks = None\<rparr>"

definition demoRouteInput :: "route_peer option \<Rightarrow> agent_route_input" where
  "demoRouteInput peer = \<lparr>in_channel = '' Telegram'', in_defaultAgentId = None, in_accountId = None, in_peer = peer, in_dmScope = None,
     in_groupScope = None, in_parentPeer = None, in_guildId = IdOther, in_teamId = IdOther, in_memberRoleIds = None\<rparr>"

theorem bound_route_agent_witness:
  "map_sum id ro_agentId (resolveNormalRoute demoRouting (normalizeInput demoRouting (demoRouteInput (Some (ChatDirect, ''42''))))) = Inr ''work''"
proof -
  let ?n = "normalizeInput demoRouting (demoRouteInput (Some (ChatDirect, ''42'')))"
  obtain t e where e: "selectBinding demoRouting ?n = Some (t, e)" "rb_agentId (eb_binding e) = ''work''"
    by (rule that [of "fst (the (selectBinding demoRouting ?n))" "snd (the (selectBinding demoRouting ?n))"]) code_simp+
  have c: "js_trim ''work'' \<noteq> []" "normalizeAgentId (Some ''work'') = ''work''"
    "''work'' \<in> set (map snd (agentsByNormalizedId (rt_agents demoRouting)))" by code_simp+
  show ?thesis
    using bound_route_agent [OF e(1)] c unfolding e(2) agents_ids by (auto split: sum.splits agent_error.splits)
qed


theorem route_cache_transparent_witness:
  "fst (run_lookups (resolveAgentRoute demoRouting) [demoRouteInput (Some (ChatDirect, ''42'')), demoRouteInput None, demoRouteInput (Some (ChatDirect, ''42''))] []) =
     map (resolveAgentRouteUncached demoRouting) [demoRouteInput (Some (ChatDirect, ''42'')), demoRouteInput None, demoRouteInput (Some (ChatDirect, ''42''))]"
  by (rule route_cache_transparent [THEN conjunct1]) code_simp

text \<open>
  The restriction to peers with an id is needed: \<open>formatRouteCachePeer\<close> prints a missing peer and a peer with an empty id alike,
  so the route of an unknown direct peer depends on whether the account was routed without a peer before.
\<close>

lemma unknown_peer_route_depends_on_history:
  "let i = demoRouteInput None; cache = snd (resolveAgentRoute demoRouting i []) in
   map_sum id ro_agentId (fst (resolveUnknownDirectMessageRoute demoRouting i [])) = Inr ''work'' \<and>
   map_sum id ro_agentId (fst (resolveUnknownDirectMessageRoute demoRouting i cache)) = Inr ''main''"
  by code_simp

end
