(* ===== verification/RouteAudit.thy ===== *)
theory RouteAudit
  imports RoutingProps
begin

text \<open>
  \<open>listEffectiveGroupRouteBindings\<close> of \<open>src/routing/resolve-route.ts\<close>: which bindings some group or channel message can
  reach, found by probing the resolver with fresh values. The probes of one call share a route cache that is empty at the start;
  every probe's peer has an id, so by \<open>route_cache\<close> the cache is left out.
\<close>

section \<open>A value no binding uses\<close>

definition usedRouteIds :: "route_binding list \<Rightarrow> string list" where
  "usedRouteIds bindings =
     concat (map (\<lambda>b. normalizeAccountId (Option.bind (rb_match b) bm_accountId) #
       filter (\<lambda>i. i \<noteq> []) (map normalizeRouteBindingId
         (case rb_match b of
            None \<Rightarrow> []
          | Some m \<Rightarrow> [case bm_peer m of Some (_, i) \<Rightarrow> i | None \<Rightarrow> IdOther, bm_guildId m, bm_teamId m]))) bindings)"

lemma longer_psubset:
  assumes "s \<in> set used" "t \<noteq> []"
  shows "{u \<in> set used. length (s @ t) \<le> length u} \<subset> {u \<in> set used. length s \<le> length u}"
proof (rule psubsetI)
  have "s \<in> {u \<in> set used. length s \<le> length u}" "s \<notin> {u \<in> set used. length (s @ t) \<le> length u}" using assms by simp_all
  then show "{u \<in> set used. length (s @ t) \<le> length u} \<noteq> {u \<in> set used. length s \<le> length u}" by blast
qed auto

function freshSentinel :: "string list \<Rightarrow> string \<Rightarrow> string" where
  "freshSentinel used s = (if s \<in> set used then freshSentinel used (s @ ''-next'') else s)"
  by pat_completeness auto

termination
proof (relation "measure (\<lambda>(used, s). card {u \<in> set used. length s \<le> length u})")
  fix used and s :: string
  assume s: "s \<in> set used"
  then have "{u \<in> set used. length (s @ ''-next'') \<le> length u} \<subset> {u \<in> set used. length s \<le> length u}"
    by (rule longer_psubset) simp
  then show "((used, s @ ''-next''), (used, s)) \<in> measure (\<lambda>(used, s). card {u \<in> set used. length s \<le> length u})"
    by (simp add: psubset_card_mono)
qed simp

declare freshSentinel.simps [simp del]

definition auditSentinel :: "route_binding list \<Rightarrow> string" where
  "auditSentinel bindings = freshSentinel (usedRouteIds bindings) ''openclaw-audit-route''"

section \<open>Probing\<close>

definition markerForIndex :: "nat \<Rightarrow> string" where
  "markerForIndex index = ''audit-binding-'' @ string_of_nat index"

definition markBindings :: "route_binding list \<Rightarrow> route_binding list" where
  "markBindings bindings = map (\<lambda>(i, b). b\<lparr>rb_agentId := markerForIndex i\<rparr>) (enumerate 0 bindings)"

definition probeConfig :: "routing_config \<Rightarrow> routing_config" where
  "probeConfig cfg = cfg\<lparr>rt_agents := Some \<lparr>ac_entries = Some (EntriesRecord []), ac_list = None, ac_ownership = None, ac_systemAgentId = None\<rparr>,
     rt_retainedOwner := None,
     rt_bindings := Some (map RouteBinding (markBindings (listRouteBindings (rt_bindings cfg))))\<rparr>"

definition probePeer :: "string \<Rightarrow> peer_constraint \<Rightarrow> route_peer option" where
  "probePeer sentinel c =
     (case c of
        PeerInvalid \<Rightarrow> None
      | PeerValid kind i \<Rightarrow> if kind = ChatDirect then None else Some (kind, i)
      | PeerWildcardKind kind \<Rightarrow> if kind = ChatDirect then None else Some (kind, sentinel)
      | PeerNone \<Rightarrow> Some (ChatGroup, sentinel))"

definition roleWitnesses :: "normalized_match \<Rightarrow> string list list" where
  "roleWitnesses m = (case nm_roles m of Some roles \<Rightarrow> map (\<lambda>r. [r]) roles | None \<Rightarrow> [[]])"

definition idText :: "string option \<Rightarrow> raw_id" where
  "idText v = (case v of Some s \<Rightarrow> IdText s | None \<Rightarrow> IdOther)"

definition probeInput :: "string \<Rightarrow> route_binding \<Rightarrow> route_peer \<Rightarrow> string list \<Rightarrow> agent_route_input" where
  "probeInput sentinel b peer memberRoleIds =
     (let m = normalizeBindingMatch (rb_match b) in
      \<lparr>in_channel = (case Option.bind (rb_match b) bm_channel of Some c \<Rightarrow> c | None \<Rightarrow> []), in_defaultAgentId = Some ''main'',
       in_accountId = Some (if nm_accountPattern m = ''*'' then sentinel else nm_accountPattern m), in_peer = Some peer,
       in_dmScope = None, in_groupScope = None, in_parentPeer = None, in_guildId = idText (nm_guildId m), in_teamId = idText (nm_teamId m),
       in_memberRoleIds = Some memberRoleIds\<rparr>)"

definition isEffectiveGroupBinding :: "routing_config \<Rightarrow> string \<Rightarrow> nat \<Rightarrow> route_binding \<Rightarrow> bool" where
  "isEffectiveGroupBinding cfg sentinel index b =
     (let m = normalizeBindingMatch (rb_match b) in
      case probePeer sentinel (nm_peer m) of
        None \<Rightarrow> False
      | Some peer \<Rightarrow>
          list_ex (\<lambda>memberRoleIds. map_sum id ro_agentId (resolveAgentRouteUncached (probeConfig cfg) (probeInput sentinel b peer memberRoleIds)) =
              Inr (markerForIndex index)) (roleWitnesses m))"

text \<open>The result, by position; a binding without a match makes the code throw.\<close>

datatype audit_error = BindingWithoutMatch

definition effectiveGroupIndices :: "routing_config \<Rightarrow> nat list" where
  "effectiveGroupIndices cfg =
     (let bindings = listRouteBindings (rt_bindings cfg) in
      filter (\<lambda>i. isEffectiveGroupBinding cfg (auditSentinel bindings) i (bindings ! i)) [0..<length bindings])"

definition listEffectiveGroupRouteBindings :: "routing_config \<Rightarrow> audit_error + route_binding list" where
  "listEffectiveGroupRouteBindings cfg =
     (let bindings = listRouteBindings (rt_bindings cfg) in
      if list_ex (\<lambda>b. rb_match b = None) bindings then Inl BindingWithoutMatch
      else Inr (map ((!) bindings) (effectiveGroupIndices cfg)))"

section \<open>The loop for a fresh value ends\<close>

lemma freshSentinel_fresh: "freshSentinel used s \<notin> set used"
proof (induction used s rule: freshSentinel.induct)
  case (1 used s)
  then show ?case by (cases "s \<in> set used") (simp_all add: freshSentinel.simps [of used s])
qed

lemma freshSentinel_steps:
  "\<exists>k \<le> card {u \<in> set used. length s \<le> length u}. freshSentinel used s = s @ concat (replicate k ''-next'')"
proof (induction used s rule: freshSentinel.induct)
  case (1 used s)
  let ?A = "\<lambda>s. {u \<in> set used. length (s :: string) \<le> length u}"
  show ?case
  proof (cases "s \<in> set used")
    case False
    then show ?thesis by (intro exI [of _ 0]) (simp add: freshSentinel.simps [of used s])
  next
    case True
    then obtain k where k: "k \<le> card (?A (s @ ''-next''))" "freshSentinel used (s @ ''-next'') = (s @ ''-next'') @ concat (replicate k ''-next'')"
      using 1 by blast
    have "?A (s @ ''-next'') \<subset> ?A s" using True by (rule longer_psubset) simp
    then have "card (?A (s @ ''-next'')) < card (?A s)" by (simp add: psubset_card_mono)
    then show ?thesis using k True by (intro exI [of _ "Suc k"]) (simp add: freshSentinel.simps [of used s])
  qed
qed

text \<open>
  C22. The search for a probe value ends and finds one no binding uses: the loop that appends \<open>-next\<close> runs at most once for every
  id in use.
\<close>

theorem audit_sentinel_found:
  "auditSentinel bindings \<notin> set (usedRouteIds bindings) \<and>
   (\<exists>k \<le> card (set (usedRouteIds bindings)). auditSentinel bindings = ''openclaw-audit-route'' @ concat (replicate k ''-next''))"
proof -
  let ?U = "usedRouteIds bindings"
  obtain k where k: "k \<le> card {u \<in> set ?U. length ''openclaw-audit-route'' \<le> length u}"
    "auditSentinel bindings = ''openclaw-audit-route'' @ concat (replicate k ''-next'')"
    using freshSentinel_steps [of ?U "''openclaw-audit-route''"] unfolding auditSentinel_def by blast
  have "card {u \<in> set ?U. length ''openclaw-audit-route'' \<le> length u} \<le> card (set ?U)" by (intro card_mono) auto
  with k(1) have "k \<le> card (set ?U)" by (rule le_trans)
  with k(2) freshSentinel_fresh [of ?U "''openclaw-audit-route''"] show ?thesis unfolding auditSentinel_def [symmetric] by blast
qed

section \<open>Which binding is selected, by position\<close>

fun tierRank :: "matched_by \<Rightarrow> nat" where
  "tierRank ByPeer = 0" | "tierRank ByPeerParent = 1" | "tierRank ByPeerWildcard = 2" | "tierRank ByGuildRoles = 3"
| "tierRank ByGuild = 4" | "tierRank ByTeam = 5" | "tierRank ByAccount = 6" | "tierRank ByChannel = 7" | "tierRank ByDefault = 8"

lemma tierRank_inj: "tierRank t = tierRank t' \<longleftrightarrow> t = t'"
  by (cases t; cases t') simp_all

definition evaluatedAt :: "route_binding list \<Rightarrow> nat \<Rightarrow> evaluated_binding" where
  "evaluatedAt bs i = \<lparr>eb_binding = bs ! i, eb_match = normalizeBindingMatch (rb_match (bs ! i)),
     eb_order = length (filter (\<lambda>b. bindingChannel b \<noteq> []) (take i bs))\<rparr>"

lemma evaluateFrom_positions:
  "e \<in> set (evaluateFrom k bs) \<longleftrightarrow>
   (\<exists>i < length bs. bindingChannel (bs ! i) \<noteq> [] \<and> e = (evaluatedAt bs i)\<lparr>eb_order := k + eb_order (evaluatedAt bs i)\<rparr>)"
proof (induction k bs rule: evaluateFrom.induct)
  case (2 k b bs)
  then show ?case
    by (cases "bindingChannel b = []") (simp_all add: Ex_less_Suc2 evaluatedAt_def)
qed simp

lemma evaluateFrom_at:
  "e \<in> set (evaluateFrom 0 bs) \<longleftrightarrow> (\<exists>i < length bs. bindingChannel (bs ! i) \<noteq> [] \<and> e = evaluatedAt bs i)"
  unfolding evaluateFrom_positions by simp

lemma order_mono:
  assumes "i < j" "j \<le> length bs" "bindingChannel (bs ! i) \<noteq> []"
  shows "eb_order (evaluatedAt bs i) < eb_order (evaluatedAt bs j)"
proof -
  have "take j bs = take (Suc i) bs @ take (j - Suc i) (drop (Suc i) bs)"
    using assms(1) take_add [of "Suc i" "j - Suc i" bs] by simp
  moreover have "take (Suc i) bs = take i bs @ [bs ! i]" using assms(1,2) by (simp add: take_Suc_conv_app_nth)
  ultimately show ?thesis using assms(3) by (simp add: evaluatedAt_def)
qed

definition coversAccount :: "string \<Rightarrow> normalized_match \<Rightarrow> bool" where
  "coversAccount accountId m \<longleftrightarrow> nm_accountPattern m = ''*'' \<or> normalizeAccountId (Some (nm_accountPattern m)) = accountId"

definition reached :: "route_binding list \<Rightarrow> normal_input \<Rightarrow> matched_by \<Rightarrow> nat \<Rightarrow> bool" where
  "reached bs n t i \<longleftrightarrow>
     i < length bs \<and> bindingChannel (bs ! i) \<noteq> [] \<and> bindingChannel (bs ! i) = ni_channel n \<and>
     coversAccount (ni_accountId n) (eb_match (evaluatedAt bs i)) \<and> acceptedBy n t (evaluatedAt bs i) \<and> t \<in> set routeTierOrder"

definition earliest :: "route_binding list \<Rightarrow> normal_input \<Rightarrow> matched_by \<Rightarrow> nat \<Rightarrow> bool" where
  "earliest bs n t i \<longleftrightarrow>
     reached bs n t i \<and> (\<forall>t' j. reached bs n t' j \<longrightarrow> tierRank t < tierRank t' \<or> t = t' \<and> i \<le> j)"

abbreviation before :: "matched_by \<times> evaluated_binding \<Rightarrow> matched_by \<times> evaluated_binding \<Rightarrow> bool" where
  "before x y \<equiv> tierRank (fst x) < tierRank (fst y) \<or> fst x = fst y \<and> eb_order (snd x) < eb_order (snd y)"

definition acceptedList :: "routing_config \<Rightarrow> normal_input \<Rightarrow> (matched_by \<times> evaluated_binding) list" where
  "acceptedList cfg n =
     concat (map (\<lambda>t. map (Pair t) (filter (acceptedBy n t) (eligibleBindings cfg (ni_channel n) (ni_accountId n)))) routeTierOrder)"

lemma set_acceptedList:
  "(t, e) \<in> set (acceptedList cfg n) \<longleftrightarrow>
   (\<exists>i. reached (listRouteBindings (rt_bindings cfg)) n t i \<and> e = evaluatedAt (listRouteBindings (rt_bindings cfg)) i)"
proof -
  have "(t, e) \<in> set (acceptedList cfg n) \<longleftrightarrow> t \<in> set routeTierOrder \<and> acceptedBy n t e \<and> e \<in> set (eligibleBindings cfg (ni_channel n) (ni_accountId n))"
    by (auto simp: acceptedList_def)
  also have "\<dots> \<longleftrightarrow> (\<exists>i. reached (listRouteBindings (rt_bindings cfg)) n t i \<and> e = evaluatedAt (listRouteBindings (rt_bindings cfg)) i)"
    by (auto simp: eligibleBindings_def evaluateFrom_at reached_def anyAccount_def accountKeyOf_def coversAccount_def)
      (auto simp: evaluatedAt_def)
  finally show ?thesis .
qed

lemma sorted_tagged:
  "sorted_wrt (\<lambda>x y. eb_order x < eb_order y) es \<Longrightarrow> sorted_wrt before (map (Pair t) (filter P es))"
  by (induction es) auto

lemma sorted_acceptedList: "sorted_wrt before (acceptedList cfg n)"
proof -
  have "sorted_wrt (\<lambda>x y. eb_order x < eb_order y) (eligibleBindings cfg c a)" for c a
    using evaluateFrom_sorted unfolding eligibleBindings_def by (rule sorted_wrt_filter)
  note s = sorted_tagged [OF this]
  show ?thesis unfolding acceptedList_def routeTierOrder_def by (simp add: sorted_wrt_append s) auto
qed

lemma specified_hd: "specifiedBinding cfg n = Some x \<longleftrightarrow> (\<exists>xs. acceptedList cfg n = x # xs)"
  unfolding specifiedBinding_def acceptedList_def [symmetric] by (cases "acceptedList cfg n") auto

lemma position_order:
  assumes "reached bs n t i" "reached bs n t' j"
  shows "eb_order (evaluatedAt bs i) < eb_order (evaluatedAt bs j) \<longleftrightarrow> i < j" "evaluatedAt bs i = evaluatedAt bs j \<longleftrightarrow> i = j"
proof -
  have ij: "i < length bs" "j < length bs" "bindingChannel (bs ! i) \<noteq> []" "bindingChannel (bs ! j) \<noteq> []"
    using assms unfolding reached_def by blast+
  have l: "i < j \<Longrightarrow> eb_order (evaluatedAt bs i) < eb_order (evaluatedAt bs j)"
    "j < i \<Longrightarrow> eb_order (evaluatedAt bs j) < eb_order (evaluatedAt bs i)"
    using order_mono [of i j bs] order_mono [of j i bs] ij by simp_all
  show "eb_order (evaluatedAt bs i) < eb_order (evaluatedAt bs j) \<longleftrightarrow> i < j"
    using l by (metis less_asym linorder_neqE_nat order_less_irrefl)
  show "evaluatedAt bs i = evaluatedAt bs j \<longleftrightarrow> i = j"
    using l by (metis linorder_neqE_nat order_less_irrefl)
qed

lemma specified_earliest:
  "specifiedBinding cfg n = Some (t, e) \<longleftrightarrow>
   (\<exists>i. earliest (listRouteBindings (rt_bindings cfg)) n t i \<and> e = evaluatedAt (listRouteBindings (rt_bindings cfg)) i)"
proof -
  let ?bs = "listRouteBindings (rt_bindings cfg)"
  have first: "\<exists>i. earliest ?bs n t i \<and> e = evaluatedAt ?bs i" if "acceptedList cfg n = (t, e) # xs" for t e xs
  proof -
    have "(t, e) \<in> set (acceptedList cfg n)" by (simp add: that)
    then obtain i where i: "reached ?bs n t i" "e = evaluatedAt ?bs i" unfolding set_acceptedList by blast
    have "tierRank t < tierRank t' \<or> t = t' \<and> i \<le> j" if j: "reached ?bs n t' j" for t' j
    proof -
      have "(t', evaluatedAt ?bs j) \<in> set ((t, e) # xs)"
        using set_acceptedList [of t' "evaluatedAt ?bs j" cfg n] j unfolding \<open>acceptedList cfg n = (t, e) # xs\<close> by blast
      then have "(t', evaluatedAt ?bs j) = (t, e) \<or> before (t, e) (t', evaluatedAt ?bs j)"
        using sorted_acceptedList [of cfg n] unfolding \<open>acceptedList cfg n = (t, e) # xs\<close> by auto
      then show ?thesis using position_order [OF i(1) j] i(2) by auto
    qed
    with i show ?thesis unfolding earliest_def by blast
  qed
  show ?thesis
  proof
    assume "specifiedBinding cfg n = Some (t, e)"
    then show "\<exists>i. earliest ?bs n t i \<and> e = evaluatedAt ?bs i" using first unfolding specified_hd by blast
  next
    assume "\<exists>i. earliest ?bs n t i \<and> e = evaluatedAt ?bs i"
    then obtain i where i: "earliest ?bs n t i" "e = evaluatedAt ?bs i" by blast
    then have "(t, e) \<in> set (acceptedList cfg n)" unfolding set_acceptedList earliest_def by blast
    then obtain t0 e0 xs where l: "acceptedList cfg n = (t0, e0) # xs" by (cases "acceptedList cfg n") auto
    obtain i0 where i0: "earliest ?bs n t0 i0" "e0 = evaluatedAt ?bs i0" using first [OF l] by blast
    have "tierRank t < tierRank t0 \<or> t = t0 \<and> i \<le> i0" "tierRank t0 < tierRank t \<or> t0 = t \<and> i0 \<le> i"
      using i(1) i0(1) unfolding earliest_def by blast+
    then have "t0 = t \<and> i0 = i" by auto
    then show "specifiedBinding cfg n = Some (t, e)" using l i(2) i0(2) unfolding specified_hd by blast
  qed
qed

lemma earliest_reached: "earliest bs n t i \<Longrightarrow> reached bs n t i"
  by (simp add: earliest_def)

lemma position_inj:
  assumes "i < length bs" "reached bs n t j" "evaluatedAt bs i = evaluatedAt bs j"
  shows "i = j"
proof (rule ccontr)
  have j: "j < length bs" "bindingChannel (bs ! j) \<noteq> []" using assms(2) unfolding reached_def by blast+
  have "bs ! i = bs ! j" using arg_cong [OF assms(3), of eb_binding] by (simp add: evaluatedAt_def)
  with j(2) have i: "bindingChannel (bs ! i) \<noteq> []" by simp
  assume "i \<noteq> j"
  then have "eb_order (evaluatedAt bs i) \<noteq> eb_order (evaluatedAt bs j)"
    using order_mono [of i j bs] order_mono [of j i bs] i j assms(1) by (cases "i < j") simp_all
  with assms(3) show False by simp
qed

section \<open>What acceptance means, constraint by constraint\<close>

definition peerAccepts :: "route_peer option \<Rightarrow> peer_constraint \<Rightarrow> bool" where
  "peerAccepts q c =
     (case c of
        PeerInvalid \<Rightarrow> False
      | PeerValid kind i \<Rightarrow> (case q of None \<Rightarrow> False | Some (k, j) \<Rightarrow> peerKindMatches kind k \<and> j = i)
      | PeerWildcardKind kind \<Rightarrow> (case q of None \<Rightarrow> False | Some (k, _) \<Rightarrow> peerKindMatches kind k)
      | PeerNone \<Rightarrow> True)"

definition idAccepts :: "string \<Rightarrow> string option \<Rightarrow> bool" where
  "idAccepts v c \<longleftrightarrow> c = None \<or> c = Some v"

definition rolesAccept :: "string list \<Rightarrow> string list option \<Rightarrow> bool" where
  "rolesAccept members c \<longleftrightarrow> (case c of None \<Rightarrow> True | Some roles \<Rightarrow> \<exists>r \<in> set roles. r \<in> set members)"

definition wf_match :: "normalized_match \<Rightarrow> bool" where
  "wf_match m \<longleftrightarrow> nm_guildId m \<noteq> Some [] \<and> nm_teamId m \<noteq> Some [] \<and> nm_roles m \<noteq> Some []"

lemma wf_normalizeBindingMatch: "wf_match (normalizeBindingMatch m)"
  by (auto simp: wf_match_def normalizeBindingMatch_def nonEmptyId_def normalizeRouteBindingRoles_def Let_def
      split: option.splits list.splits if_splits)

lemma eb_match_at: "eb_match (evaluatedAt bs i) = normalizeBindingMatch (rb_match (bs ! i))"
  by (simp add: evaluatedAt_def)

lemma matches_parts:
  assumes "wf_match m" "trimmed_scope n"
  shows "matchesBindingScope m q (ni_guildId n) (ni_teamId n) (ni_memberRoleIds n) \<longleftrightarrow>
    peerAccepts q (nm_peer m) \<and> idAccepts (ni_guildId n) (nm_guildId m) \<and> idAccepts (ni_teamId n) (nm_teamId m) \<and>
    rolesAccept (ni_memberRoleIds n) (nm_roles m)"
proof -
  have g: "scopeIdMatches c i [] \<longleftrightarrow> idAccepts i c" if "c \<noteq> Some []" for c i
    using that by (cases c) (auto simp: scopeIdMatches_def idAccepts_def)
  have r: "(case normalizeRouteBindingRoles (nm_roles m) of None \<Rightarrow> True
      | Some roles \<Rightarrow> hasAnyRouteBindingRole roles (Some (ni_memberRoleIds n))) \<longleftrightarrow> rolesAccept (ni_memberRoleIds n) (nm_roles m)"
    using assms(1) by (auto simp: wf_match_def normalizeRouteBindingRoles_def rolesAccept_def hasAnyRouteBindingRole_def list_ex_iff
        split: option.splits list.splits)
  show ?thesis
    using assms g [of "nm_guildId m" "ni_guildId n"] g [of "nm_teamId m" "ni_teamId n"] r
    by (simp add: matchesBindingScope_def routeBindingScopeMatches_def normalizeRouteBindingId_def Let_def peerAccepts_def
        wf_match_def trimmed_scope_def cong: option.case_cong)
qed

lemma acceptedBy_parts:
  assumes "trimmed_scope n"
  shows "acceptedBy n t (evaluatedAt bs i) \<longleftrightarrow>
    (let m = normalizeBindingMatch (rb_match (bs ! i)) in
     tierEnabled n t \<and> bindingTier m = (if t = ByPeerParent then ByPeer else t) \<and> peerAccepts (tierScope n t) (nm_peer m) \<and>
     idAccepts (ni_guildId n) (nm_guildId m) \<and> idAccepts (ni_teamId n) (nm_teamId m) \<and> rolesAccept (ni_memberRoleIds n) (nm_roles m))"
  by (simp add: acceptedBy_def eb_match_at matches_parts [OF wf_normalizeBindingMatch assms] Let_def del: tierScope.simps tierEnabled.simps)

lemma tier_peer:
  "bindingTier m = ByPeer \<longleftrightarrow> (\<exists>k i. nm_peer m = PeerValid k i)"
  "bindingTier m = ByPeerWildcard \<longleftrightarrow> (\<exists>k. nm_peer m = PeerWildcardKind k)"
  "bindingTier m \<noteq> ByPeerParent" "bindingTier m \<noteq> ByDefault"
  by (auto simp: bindingTier_def split: peer_constraint.splits if_splits)

lemma tier_ids:
  "bindingTier m = ByGuildRoles \<Longrightarrow> nm_guildId m \<noteq> None \<and> nm_roles m \<noteq> None"
  "bindingTier m = ByGuild \<Longrightarrow> nm_guildId m \<noteq> None"
  "bindingTier m = ByTeam \<Longrightarrow> nm_teamId m \<noteq> None"
  by (auto simp: bindingTier_def split: peer_constraint.splits if_splits)

lemma peerKind_group:
  "peerKindMatches a b \<Longrightarrow> a \<noteq> ChatDirect \<longleftrightarrow> b \<noteq> ChatDirect"
  "a \<noteq> ChatDirect \<Longrightarrow> b \<noteq> ChatDirect \<Longrightarrow> peerKindMatches a b"
  by (cases a; cases b; simp add: peerKindMatches_def)+

section \<open>The probe of a binding\<close>

definition probeOf :: "routing_config \<Rightarrow> string \<Rightarrow> route_binding \<Rightarrow> route_peer \<Rightarrow> string list \<Rightarrow> normal_input" where
  "probeOf cfg sentinel b peer roles = normalizeInput cfg (probeInput sentinel b peer roles)"

lemma normal_ids:
  "nm_guildId (normalizeBindingMatch m) = Some g \<Longrightarrow> js_trim g = g"
  "nm_teamId (normalizeBindingMatch m) = Some g \<Longrightarrow> js_trim g = g"
  "nm_peer (normalizeBindingMatch m) = PeerValid k i \<Longrightarrow> js_trim i = i"
  by (auto simp: normalizeBindingMatch_def nonEmptyId_def normalizePeerConstraint_def normalizeRouteBindingId_def Let_def
      split: option.splits if_splits raw_id.splits)

lemma probe_fields:
  fixes cfg s b peer roles defines "p \<equiv> probeOf cfg s b peer roles" and "m \<equiv> normalizeBindingMatch (rb_match b)"
  shows "ni_channel p = bindingChannel b"
    "ni_accountId p = normalizeAccountId (Some (if nm_accountPattern m = ''*'' then s else nm_accountPattern m))"
    "ni_peer p = Some (fst peer, js_trim (snd peer))" "ni_parentPeer p = None"
    "ni_guildId p = (case nm_guildId m of Some g \<Rightarrow> g | None \<Rightarrow> [])" "ni_teamId p = (case nm_teamId m of Some g \<Rightarrow> g | None \<Rightarrow> [])"
    "ni_memberRoleIds p = roles"
proof -
  note d = p_def probeOf_def normalizeInput_def probeInput_def Let_def
  have l: "normalizeLowercaseStringOrEmpty (Some (case c of Some c \<Rightarrow> c | None \<Rightarrow> [])) = normalizeLowercaseStringOrEmpty c" for c
    by (cases c) (simp_all add: js_lower_def)
  show "ni_channel p = bindingChannel b" unfolding d using l by (simp add: bindingChannel_def)
  show "ni_accountId p = normalizeAccountId (Some (if nm_accountPattern m = ''*'' then s else nm_accountPattern m))"
    by (simp add: d m_def)
  show "ni_peer p = Some (fst peer, js_trim (snd peer))"
    by (simp add: d normalizePeer_def normalizeRouteBindingId_def split_beta)
  show "ni_parentPeer p = None" by (simp add: d normalizePeer_def)
  show "ni_guildId p = (case nm_guildId m of Some g \<Rightarrow> g | None \<Rightarrow> [])" "ni_teamId p = (case nm_teamId m of Some g \<Rightarrow> g | None \<Rightarrow> [])"
    using normal_ids(1,2) [of "rb_match b"]
    by (auto simp: d m_def idText_def normalizeRouteBindingId_def split: option.split)
  show "ni_memberRoleIds p = roles" by (simp add: d)
qed

lemma probe_trimmed: "trimmed_scope (probeOf cfg s b peer roles)"
  unfolding probeOf_def by (rule normalizeInput_trimmed)

definition unusedBy :: "route_binding list \<Rightarrow> string \<Rightarrow> bool" where
  "unusedBy bs s \<longleftrightarrow> s \<notin> set (usedRouteIds bs) \<and> normalizeAccountId (Some s) = s \<and> js_trim s = s"

lemma used_account: "b \<in> set bs \<Longrightarrow> normalizeAccountId (Some (nm_accountPattern (normalizeBindingMatch (rb_match b)))) \<in> set (usedRouteIds bs)"
proof -
  assume b: "b \<in> set bs"
  have "normalizeAccountId (Some (trimOrEmpty v)) = normalizeAccountId v" for v
    by (cases v) (simp_all add: normalizeAccountId_def trimOrEmpty_def Let_def)
  with b show ?thesis by (auto simp: usedRouteIds_def normalizeBindingMatch_def intro!: bexI [of _ b])
qed

lemma used_peer:
  assumes "b \<in> set bs" "nm_peer (normalizeBindingMatch (rb_match b)) = PeerValid k i"
  shows "i \<in> set (usedRouteIds bs)"
proof -
  obtain m k' r where m: "rb_match b = Some m" "bm_peer m = Some (k', r)" "i = normalizeRouteBindingId r" "i \<noteq> []"
    using assms(2) by (cases "rb_match b")
      (auto simp: normalizeBindingMatch_def normalizePeerConstraint_def Let_def split: option.splits if_splits prod.splits)
  then show ?thesis using assms(1) by (auto simp: usedRouteIds_def intro!: bexI [of _ b])
qed

section \<open>Probing finds every reachable binding\<close>

lemma probePeer_cases:
  assumes "probePeer s c = Some peer"
  obtains k i where "c = PeerValid k i" "k \<noteq> ChatDirect" "peer = (k, i)"
  | k where "\<And>k i. c \<noteq> PeerValid k i" "k \<noteq> ChatDirect" "peer = (k, s)" "\<And>k'. c = PeerWildcardKind k' \<Longrightarrow> k' \<noteq> ChatDirect" "c \<noteq> PeerInvalid"
  using assms by (cases c) (auto simp: probePeer_def split: if_splits)

text \<open>A roles witness: members of the probe are members of the message.\<close>

lemma role_witness:
  assumes "rolesAccept members (nm_roles m)"
  obtains roles where "roles \<in> set (roleWitnesses m)" "set roles \<subseteq> set members" "rolesAccept roles (nm_roles m)"
    "nm_roles m \<noteq> None \<Longrightarrow> roles \<noteq> []"
proof (cases "nm_roles m")
  case None
  then show thesis by (intro that [of "[]"]) (simp_all add: rolesAccept_def roleWitnesses_def)
next
  case (Some rs)
  then obtain r where "r \<in> set rs" "r \<in> set members" using assms by (auto simp: rolesAccept_def)
  then show thesis using Some by (intro that [of "[r]"]) (auto simp: rolesAccept_def roleWitnesses_def)
qed

lemma roles_mono: "rolesAccept roles c \<Longrightarrow> set roles \<subseteq> set members \<Longrightarrow> rolesAccept members c"
  by (cases c) (auto simp: rolesAccept_def)

lemma ids_mono:
  assumes "idAccepts (case c of Some g \<Rightarrow> g | None \<Rightarrow> []) c'" "c' \<noteq> Some []" "idAccepts v c"
  shows "idAccepts v c'"
  using assms by (cases c; cases c') (auto simp: idAccepts_def)

lemma covers_mono:
  assumes "unusedBy bs s" "j < length bs" "coversAccount v (normalizeBindingMatch (rb_match b))"
    "coversAccount (normalizeAccountId (Some (if nm_accountPattern (normalizeBindingMatch (rb_match b)) = ''*'' then s
       else nm_accountPattern (normalizeBindingMatch (rb_match b))))) (normalizeBindingMatch (rb_match (bs ! j)))"
  shows "coversAccount v (normalizeBindingMatch (rb_match (bs ! j)))"
proof (cases "nm_accountPattern (normalizeBindingMatch (rb_match b)) = ''*''")
  case True
  moreover have "s \<noteq> normalizeAccountId (Some (nm_accountPattern (normalizeBindingMatch (rb_match (bs ! j)))))"
    using used_account [of "bs ! j" bs] assms(1,2) by (auto simp: unusedBy_def)
  ultimately show ?thesis using assms(1,4) by (auto simp: coversAccount_def unusedBy_def)
next
  case False
  then show ?thesis using assms(3,4) by (auto simp: coversAccount_def)
qed

lemma probe_self:
  assumes "reached bs n t i" "trimmed_scope n" "probePeer s (nm_peer (normalizeBindingMatch (rb_match (bs ! i)))) = Some peer"
    "rolesAccept roles (nm_roles (normalizeBindingMatch (rb_match (bs ! i))))"
    "nm_roles (normalizeBindingMatch (rb_match (bs ! i))) \<noteq> None \<Longrightarrow> roles \<noteq> []"
  shows "reached bs (probeOf cfg s (bs ! i) peer roles) (bindingTier (normalizeBindingMatch (rb_match (bs ! i)))) i"
proof -
  let ?b = "bs ! i" let ?m = "normalizeBindingMatch (rb_match ?b)" let ?p = "probeOf cfg s ?b peer roles"
  note f = probe_fields [of cfg s ?b peer roles]
  have r: "i < length bs" "bindingChannel ?b \<noteq> []" using assms(1) unfolding reached_def by blast+
  have wf: "wf_match ?m" by (rule wf_normalizeBindingMatch)
  have scope: "tierScope ?p (bindingTier ?m) = ni_peer ?p" using tier_peer(3) by (cases "bindingTier ?m") auto
  have en: "tierEnabled ?p (bindingTier ?m)"
    using tier_peer(3) [of ?m] tier_ids [of ?m] wf assms(5) by (cases "bindingTier ?m") (auto simp: f wf_match_def)
  have pe: "peerAccepts (ni_peer ?p) (nm_peer ?m)"
    using assms(3) normal_ids(3) [of "rb_match ?b"]
    by (cases rule: probePeer_cases) (auto simp: probe_fields(3) peerAccepts_def peerKind_group(2) split: peer_constraint.split)
  have ids: "idAccepts (ni_guildId ?p) (nm_guildId ?m)" "idAccepts (ni_teamId ?p) (nm_teamId ?m)"
    by (auto simp: f idAccepts_def split: option.split)
  have "bindingTier ?m \<in> set routeTierOrder" using tier_peer(4) by (cases "bindingTier ?m") (auto simp: routeTierOrder_def)
  moreover have "coversAccount (ni_accountId ?p) ?m" by (auto simp: f coversAccount_def)
  ultimately show ?thesis
    using r en pe ids assms(4) tier_peer(3) [of ?m]
    by (simp add: reached_def eb_match_at acceptedBy_parts [OF probe_trimmed] Let_def scope f(1) f(7)
        del: tierScope.simps tierEnabled.simps)
qed

text \<open>What competes with a binding for its probe competes with it for every message that reaches it.\<close>

lemma probe_competitor:
  assumes i: "reached bs n t i" "trimmed_scope n" "ni_peer n = Some (k, x)" "k \<noteq> ChatDirect"
    and s: "unusedBy bs s" and peer: "probePeer s (nm_peer (normalizeBindingMatch (rb_match (bs ! i)))) = Some peer"
    and roles: "set roles \<subseteq> set (ni_memberRoleIds n)"
    and j: "reached bs (probeOf cfg s (bs ! i) peer roles) t' j"
  shows "tierRank (bindingTier (normalizeBindingMatch (rb_match (bs ! i)))) < tierRank t' \<or>
    (\<exists>t''. reached bs n t'' j \<and> (t'' = t \<and> t' = bindingTier (normalizeBindingMatch (rb_match (bs ! i))) \<or>
       t'' = t' \<and> t = bindingTier (normalizeBindingMatch (rb_match (bs ! i)))))"
proof -
  let ?b = "bs ! i" let ?m = "normalizeBindingMatch (rb_match ?b)" let ?p = "probeOf cfg s ?b peer roles"
  let ?m' = "normalizeBindingMatch (rb_match (bs ! j))"
  note f = probe_fields [of cfg s ?b peer roles]
  note parts = acceptedBy_parts Let_def
  have a: "tierEnabled n t" "bindingTier ?m = (if t = ByPeerParent then ByPeer else t)" "peerAccepts (tierScope n t) (nm_peer ?m)"
    "idAccepts (ni_guildId n) (nm_guildId ?m)" "idAccepts (ni_teamId n) (nm_teamId ?m)" "t \<in> set routeTierOrder"
    "bindingChannel ?b = ni_channel n" "coversAccount (ni_accountId n) ?m"
    using i(1) by (simp_all add: reached_def eb_match_at acceptedBy_parts [OF i(2)] Let_def del: tierScope.simps tierEnabled.simps)
  have jl: "j < length bs" using j by (simp add: reached_def)
  have c: "tierEnabled ?p t'" "bindingTier ?m' = (if t' = ByPeerParent then ByPeer else t')" "peerAccepts (tierScope ?p t') (nm_peer ?m')"
    "idAccepts (ni_guildId ?p) (nm_guildId ?m')" "idAccepts (ni_teamId ?p) (nm_teamId ?m')" "rolesAccept roles (nm_roles ?m')"
    "t' \<in> set routeTierOrder" "bindingChannel (bs ! j) = bindingChannel ?b" "coversAccount (ni_accountId ?p) ?m'"
    using j f(1,7) by (simp_all add: reached_def eb_match_at acceptedBy_parts [OF probe_trimmed] Let_def del: tierScope.simps tierEnabled.simps)
  have cn: "bindingChannel (bs ! j) \<noteq> []" using j unfolding reached_def by blast
  have wf': "wf_match ?m'" by (rule wf_normalizeBindingMatch)
  have t': "t' \<noteq> ByPeerParent" using c(1) by (auto simp: f(4))
  have scope': "tierScope ?p t' = ni_peer ?p" using t' by (cases t') auto
  have pp: "peerAccepts (Some (fst peer, js_trim (snd peer))) (nm_peer ?m')" using c(3) unfolding scope' f(3) .
  have cov: "coversAccount (ni_accountId n) ?m'" using covers_mono [OF s jl a(8)] c(9) by (simp add: f(2))
  have ids: "idAccepts (ni_guildId n) (nm_guildId ?m')" "idAccepts (ni_teamId n) (nm_teamId ?m')" "rolesAccept (ni_memberRoleIds n) (nm_roles ?m')"
    using ids_mono [OF c(4) [unfolded f(5)] _ a(4)] ids_mono [OF c(5) [unfolded f(6)] _ a(5)] wf' roles_mono [OF c(6) roles]
    unfolding wf_match_def by blast+
  have reach: "reached bs n t'' j"
    if "tierEnabled n t''" "bindingTier ?m' = (if t'' = ByPeerParent then ByPeer else t'')" "peerAccepts (tierScope n t'') (nm_peer ?m')"
      "t'' \<in> set routeTierOrder" for t''
    using that jl cov ids c(8) cn a(7)
    by (simp add: reached_def eb_match_at acceptedBy_parts [OF i(2)] Let_def del: tierScope.simps tierEnabled.simps)
  from peer show ?thesis
  proof (cases rule: probePeer_cases)
    case (1 kb ib)
    have tb: "bindingTier ?m = ByPeer" using 1(1) by (simp add: tier_peer)
    show ?thesis
    proof (cases "t' = ByPeer")
      case False
      then show ?thesis using tb t' by (cases t') auto
    next
      case True
      then obtain kj ij where p': "nm_peer ?m' = PeerValid kj ij" using c(2) tier_peer(1) [of ?m'] by auto
      then have mj: "peerKindMatches kj kb" "ij = js_trim ib" using pp 1(3) by (simp_all add: peerAccepts_def)
      obtain kn where kn: "tierScope n t = Some (kn, ib)" "peerKindMatches kb kn"
        using a(3) 1(1) by (auto simp: peerAccepts_def split: option.splits)
      have "peerKindMatches kj kn"
        using peerKind_group(1) [OF mj(1)] peerKind_group(1) [OF kn(2)] 1(2) by (intro peerKind_group(2)) blast+
      moreover have "js_trim ib = ib" by (rule normal_ids(3) [OF 1(1)])
      ultimately have "peerAccepts (tierScope n t) (nm_peer ?m')" using kn(1) mj(2) p' by (simp add: peerAccepts_def)
      then have r: "reached bs n t j" using a(1,2,6) c(2) True tb by (intro reach) auto
      show ?thesis by (rule disjI2, rule exI [of _ t]) (simp add: r True tb)
    qed
  next
    case (2 k')
    have tp: "t \<noteq> ByPeerParent" "t \<noteq> ByPeer" "bindingTier ?m = t" using a(2) 2(1) tier_peer(1) [of ?m] by (auto split: if_splits)
    have "t' \<noteq> ByPeer"
    proof
      assume "t' = ByPeer"
      then obtain kj ij where p': "nm_peer ?m' = PeerValid kj ij" using c(2) tier_peer(1) [of ?m'] by auto
      then have "ij = s" using pp 2(3) s by (simp add: peerAccepts_def unusedBy_def)
      moreover have "ij \<in> set (usedRouteIds bs)" using used_peer [OF nth_mem [OF jl] p'] .
      ultimately show False using s by (simp add: unusedBy_def)
    qed
    have sc: "tierScope n t' = ni_peer n" using t' by (cases t') auto
    have "peerAccepts (tierScope n t') (nm_peer ?m')"
    proof (cases "nm_peer ?m'")
      case (PeerWildcardKind kj)
      then have "peerKindMatches kj k'" using pp 2(3) by (simp add: peerAccepts_def)
      then have "kj \<noteq> ChatDirect" using 2(2) peerKind_group(1) by blast
      then have "peerKindMatches kj k" using i(4) by (rule peerKind_group(2))
      then show ?thesis using i(3) PeerWildcardKind by (simp add: sc peerAccepts_def)
    next
      case (PeerValid kj ij)
      then have "bindingTier ?m' = ByPeer" by (simp add: tier_peer)
      then show ?thesis using c(2) \<open>t' \<noteq> ByPeer\<close> t' by simp
    qed (use pp in \<open>simp_all add: peerAccepts_def\<close>)
    moreover have "tierEnabled n t'"
    proof -
      have g: "ni_guildId ?p \<noteq> [] \<Longrightarrow> ni_guildId n \<noteq> []" using a(4) by (auto simp: f idAccepts_def split: option.splits)
      have tm: "ni_teamId ?p \<noteq> [] \<Longrightarrow> ni_teamId n \<noteq> []" using a(5) by (auto simp: f idAccepts_def split: option.splits)
      have rl: "ni_memberRoleIds ?p \<noteq> [] \<Longrightarrow> ni_memberRoleIds n \<noteq> []" using roles by (auto simp: f)
      show ?thesis using c(1) t' i(3) g tm rl by (cases t') (auto simp del: tierScope.simps)
    qed
    ultimately have r: "reached bs n t' j" using c(2,7) t' by (intro reach) auto
    show ?thesis by (rule disjI2, rule exI [of _ t']) (simp add: r tp(3))
  qed
qed

lemma probe_complete:
  assumes e: "earliest bs n t i" and n: "trimmed_scope n" "ni_peer n = Some (k, x)" "k \<noteq> ChatDirect"
    and s: "unusedBy bs s" and peer: "probePeer s (nm_peer (normalizeBindingMatch (rb_match (bs ! i)))) = Some peer"
  shows "\<exists>roles \<in> set (roleWitnesses (normalizeBindingMatch (rb_match (bs ! i)))). \<exists>t'. earliest bs (probeOf cfg s (bs ! i) peer roles) t' i"
proof -
  let ?m = "normalizeBindingMatch (rb_match (bs ! i))"
  have r: "reached bs n t i" and min: "\<And>t' j. reached bs n t' j \<Longrightarrow> tierRank t < tierRank t' \<or> t = t' \<and> i \<le> j"
    using e unfolding earliest_def by blast+
  have "rolesAccept (ni_memberRoleIds n) (nm_roles ?m)"
    using r by (simp add: reached_def acceptedBy_parts [OF n(1)] Let_def)
  then obtain roles where roles: "roles \<in> set (roleWitnesses ?m)" "set roles \<subseteq> set (ni_memberRoleIds n)" "rolesAccept roles (nm_roles ?m)"
    "nm_roles ?m \<noteq> None \<Longrightarrow> roles \<noteq> []"
    by (rule role_witness) blast
  let ?p = "probeOf cfg s (bs ! i) peer roles"
  have "tierRank (bindingTier ?m) < tierRank t' \<or> bindingTier ?m = t' \<and> i \<le> j" if j: "reached bs ?p t' j" for t' j
    using probe_competitor [OF r n s peer roles(2) j] min tierRank_inj by (metis less_irrefl)
  then have "earliest bs ?p (bindingTier ?m) i"
    unfolding earliest_def using probe_self [OF r n(1) peer roles(3,4)] by blast
  with roles(1) show ?thesis by blast
qed

section \<open>The probe configuration\<close>

lemma length_string_of_nat: "n < 10 ^ k \<Longrightarrow> 0 < k \<Longrightarrow> length (string_of_nat n) \<le> k"
proof (induction n arbitrary: k rule: string_of_nat.induct)
  case (1 n)
  show ?case
  proof (cases "n < 10")
    case False
    with 1(2,3) obtain k' where k: "k = Suc k'" "0 < k'" by (cases k; cases "k - 1") auto
    then have "n div 10 < 10 ^ k'" using 1(2) by (simp add: less_mult_imp_div_less mult.commute)
    then show ?thesis using 1(1) [OF False] k False by (simp add: string_of_nat.simps [of n])
  qed (use 1(3) in \<open>simp add: string_of_nat.simps [of n]\<close>)
qed

lemma marker_inj: "markerForIndex i = markerForIndex j \<longleftrightarrow> i = j"
proof
  assume "markerForIndex i = markerForIndex j"
  then have "digits_value (string_of_nat i) = digits_value (string_of_nat j)" by (simp add: markerForIndex_def)
  then show "i = j" using digits_string_of_nat by simp
qed simp

lemma marker_normal:
  assumes "i < 10 ^ 50"
  shows "normalizeAgentId (Some (markerForIndex i)) = markerForIndex i" "js_trim (markerForIndex i) \<noteq> []" "markerForIndex i \<noteq> ''main''"
proof -
  have d: "list_all is_id_char (string_of_nat i)"
    using digits_string_of_nat [of i] unfolding list_all_iff is_digit_def is_id_char_def is_alnum_def Let_def by auto
  have c: "canonical_id (markerForIndex i)"
    using length_string_of_nat [OF assms] d by (simp add: canonical_id_def markerForIndex_def is_id_char_def is_alnum_def)
  show "normalizeAgentId (Some (markerForIndex i)) = markerForIndex i"
    by (rule normalizeAgentId_id [OF c]) (simp_all add: markerForIndex_def is_alnum_def)
  show "js_trim (markerForIndex i) \<noteq> []" using c by (simp add: canonical_id_def id_chars_trim)
  show "markerForIndex i \<noteq> ''main''" by (simp add: markerForIndex_def)
qed

lemma markBindings_nth:
  "length (markBindings bs) = length bs"
  "i < length bs \<Longrightarrow> markBindings bs ! i = (bs ! i)\<lparr>rb_agentId := markerForIndex i\<rparr>"
  by (simp_all add: markBindings_def nth_enumerate_eq)

lemma bindingChannel_agent: "bindingChannel (b\<lparr>rb_agentId := a\<rparr>) = bindingChannel b"
  by (simp add: bindingChannel_def)

lemma reached_marked: "reached (markBindings bs) n t i \<longleftrightarrow> reached bs n t i"
proof (cases "i < length bs")
  case True
  then show ?thesis
    by (simp add: reached_def markBindings_nth bindingChannel_agent eb_match_at acceptedBy_def del: tierScope.simps tierEnabled.simps)
qed (simp add: reached_def markBindings_nth)

lemma earliest_marked: "earliest (markBindings bs) n t i \<longleftrightarrow> earliest bs n t i"
  by (simp add: earliest_def reached_marked)

lemma probeConfig_facts:
  "listRouteBindings (rt_bindings (probeConfig cfg)) = markBindings (listRouteBindings (rt_bindings cfg))"
  "normalizeInput (probeConfig cfg) input = normalizeInput cfg input"
  "namedAgentIds (rt_agents (probeConfig cfg)) = {}"
proof -
  have "List.map_filter (\<lambda>b. case b of RouteBinding r \<Rightarrow> Some r | AcpBinding _ \<Rightarrow> None) (map RouteBinding bs) = bs" for bs
    by (induction bs) (simp_all add: map_filter_simps)
  then have "listRouteBindings (Some (map RouteBinding bs)) = bs" for bs by (simp add: listRouteBindings_def)
  moreover have "rt_bindings (probeConfig cfg) = Some (map RouteBinding (markBindings (listRouteBindings (rt_bindings cfg))))"
    by (simp add: probeConfig_def)
  ultimately show "listRouteBindings (rt_bindings (probeConfig cfg)) = markBindings (listRouteBindings (rt_bindings cfg))" by metis
  have "rt_dmScope (probeConfig cfg) = rt_dmScope cfg" "rt_groupScope (probeConfig cfg) = rt_groupScope cfg"
    by (simp_all add: probeConfig_def)
  then show "normalizeInput (probeConfig cfg) input = normalizeInput cfg input" unfolding normalizeInput_def by metis
  show "namedAgentIds (rt_agents (probeConfig cfg)) = {}"
    by (simp add: namedAgentIds_def probeConfig_def listAgentEntries_def listAgentEntriesWithSource_def readAgentRosterProperty_def map_filter_simps)
qed

lemma chooseRoute_id: "map_sum id ro_agentId (chooseRoute cfg n a t b) = pickFirstExistingAgentId cfg a"
  by (cases "pickFirstExistingAgentId cfg a") (simp_all add: chooseRoute_def Let_def)

lemma probe_route:
  fixes cfg defines "bs \<equiv> listRouteBindings (rt_bindings cfg)"
  assumes "i < length bs" "length bs \<le> 10 ^ 50"
  shows "map_sum id ro_agentId (resolveAgentRouteUncached (probeConfig cfg) (probeInput s (bs ! i) peer roles)) = Inr (markerForIndex i) \<longleftrightarrow>
    (\<exists>t. earliest bs (probeOf cfg s (bs ! i) peer roles) t i)"
proof -
  let ?c = "probeConfig cfg" let ?p = "probeOf cfg s (bs ! i) peer roles"
  have r: "resolveAgentRouteUncached ?c (probeInput s (bs ! i) peer roles) = resolveNormalRoute ?c ?p"
    by (simp add: resolveAgentRouteUncached_def probeConfig_facts probeOf_def)
  have sel: "selectBinding ?c ?p = specifiedBinding ?c ?p" by (rule selectBinding_specified [OF probe_trimmed])
  have dflt: "ni_defaultAgentId ?p = ''main''" unfolding probeOf_def normalizeInput_def probeInput_def by code_simp
  note pick = pickFirst_cases [of _ ?c, unfolded probeConfig_facts(3)]
  show ?thesis
  proof (cases "specifiedBinding ?c ?p")
    case None
    have "pickFirstExistingAgentId ?c ''main'' = Inr ''main''"
    proof -
      have "js_trim ''main'' \<noteq> []" "normalizeAgentId (Some ''main'') = ''main''" by code_simp+
      then show ?thesis by (simp add: pick)
    qed
    then have "map_sum id ro_agentId (resolveNormalRoute ?c ?p) = Inr ''main''"
      by (simp add: resolveNormalRoute_def sel None dflt chooseRoute_id)
    moreover have "\<not> earliest bs ?p t i" for t
    proof
      assume "earliest bs ?p t i"
      then have "specifiedBinding ?c ?p = Some (t, evaluatedAt (markBindings bs) i)"
        unfolding specified_earliest probeConfig_facts earliest_marked bs_def by blast
      then show False by (simp add: None)
    qed
    moreover have "markerForIndex i \<noteq> ''main''" using marker_normal(3) assms(2,3) by simp
    ultimately show ?thesis unfolding r by simp
  next
    case (Some te)
    obtain t e where te: "te = (t, e)" by (cases te) auto
    obtain j where j: "earliest bs ?p t j" "e = evaluatedAt (markBindings bs) j"
      using Some specified_earliest [of ?c ?p t e] unfolding te probeConfig_facts earliest_marked bs_def by blast
    have jl: "j < length bs" using j(1) by (simp add: earliest_def reached_def)
    then have a: "rb_agentId (eb_binding e) = markerForIndex j" by (simp add: j(2) evaluatedAt_def markBindings_nth)
    have mj: "normalizeAgentId (Some (markerForIndex j)) = markerForIndex j" "js_trim (markerForIndex j) \<noteq> []"
      using marker_normal jl assms(3) by simp_all
    have "map_sum id ro_agentId (resolveNormalRoute ?c ?p) = Inr (markerForIndex j)"
      using mj by (simp add: resolveNormalRoute_def sel Some te a chooseRoute_id pick)
    moreover have "(\<exists>t. earliest bs ?p t i) \<longleftrightarrow> j = i"
    proof
      assume "\<exists>t. earliest bs ?p t i"
      then obtain t' where t': "earliest bs ?p t' i" by blast
      then have "tierRank t < tierRank t' \<or> t = t' \<and> j \<le> i" "tierRank t' < tierRank t \<or> t' = t \<and> i \<le> j"
        using j(1) unfolding earliest_def by blast+
      then show "j = i" by auto
    qed (use j(1) in blast)
    ultimately show ?thesis unfolding r by (simp add: marker_inj)
  qed
qed

lemma sentinel_unused:
  assumes "length (auditSentinel bs) \<le> 64"
  shows "unusedBy bs (auditSentinel bs)"
proof -
  let ?s = "auditSentinel bs"
  obtain k where k: "?s = ''openclaw-audit-route'' @ concat (replicate k ''-next'')"
    using freshSentinel_steps [of "usedRouteIds bs" "''openclaw-audit-route''"] unfolding auditSentinel_def by blast
  have "list_all is_id_char (concat (replicate k ''-next''))" by (induction k) (simp_all add: is_id_char_def is_alnum_def)
  then have ids: "list_all is_id_char ?s" unfolding k by (simp add: is_id_char_def is_alnum_def)
  then have c: "canonical_id ?s" using assms by (simp add: canonical_id_def k)
  have t: "js_trim ?s = ?s" "js_lower ?s = ?s" using ids by (simp_all add: id_chars_trim id_chars_lower)
  have v: "VALID_ID_RE ?s" unfolding valid_canonical [OF c] by (simp add: k is_alnum_def)
  have "canonicalizeAccountId ?s = ?s" using v t by (simp add: canonicalizeAccountId_def Let_def)
  moreover have "\<not> isBlockedObjectKey ?s" by (simp add: isBlockedObjectKey_def k)
  moreover have "?s \<noteq> []" by (simp add: k)
  ultimately have "normalizeAccountId (Some ?s) = ?s"
    by (simp add: normalizeAccountId_def normalizeCanonicalAccountId_def Let_def t)
  then show ?thesis using freshSentinel_fresh t unfolding unusedBy_def auditSentinel_def by blast
qed

definition groupMessage :: "agent_route_input \<Rightarrow> bool" where
  "groupMessage input \<longleftrightarrow> (case in_peer input of Some (k, _) \<Rightarrow> k \<noteq> ChatDirect | None \<Rightarrow> False)"

definition directOnly :: "route_binding \<Rightarrow> bool" where
  "directOnly b \<longleftrightarrow> (case nm_peer (normalizeBindingMatch (rb_match b)) of
     PeerInvalid \<Rightarrow> True | PeerValid kind _ \<Rightarrow> kind = ChatDirect | PeerWildcardKind kind \<Rightarrow> kind = ChatDirect | PeerNone \<Rightarrow> False)"

lemma directOnly_probe: "directOnly b \<longleftrightarrow> probePeer s (nm_peer (normalizeBindingMatch (rb_match b))) = None"
  by (auto simp: directOnly_def probePeer_def split: peer_constraint.split)


section \<open>Witness\<close>


end
