(* ===== verification/AuthRateLimit.thy ===== *)
theory AuthRateLimit
  imports NumberCoercion
begin

text \<open>
  The limiter of gateway authentication attempts (\<open>src/gateway/auth-rate-limit.ts\<close>). The state is what the closure of
  \<open>createAuthRateLimiter\<close> holds; every exported operation is a function of the clock (\<open>Date.now()\<close>, in milliseconds) and
  that state. Address parsing is a library: \<open>lc_normalizeIp\<close> is \<open>resolveClientIp({ remoteAddr: ip })\<close> and \<open>lc_isLoopback\<close> is
  \<open>isLoopbackAddress\<close>. A promise is a number; it is pending while it is a resolver of some waiter record and
  resolved once it is in \<open>rl_settled\<close>. \<open>maxAttempts\<close> is an integer; the code does not check it.
\<close>

section \<open>Configuration and state\<close>

definition DEFAULT_MAX_ATTEMPTS :: int where "DEFAULT_MAX_ATTEMPTS = 10"
definition DEFAULT_WINDOW_MS :: rat where "DEFAULT_WINDOW_MS = 60000"
definition DEFAULT_LOCKOUT_MS :: rat where "DEFAULT_LOCKOUT_MS = 300000"
definition PRUNE_INTERVAL_MS :: rat where "PRUNE_INTERVAL_MS = 60000"
definition DEFAULT_MAX_ENTRIES :: rat where "DEFAULT_MAX_ENTRIES = 10000"
definition LOOPBACK_FAILURE_DELAY_BASE_MS :: int where "LOOPBACK_FAILURE_DELAY_BASE_MS = 250"
definition LOOPBACK_FAILURE_DELAY_MAX_MS :: int where "LOOPBACK_FAILURE_DELAY_MAX_MS = 5000"

text \<open>\<open>Math.ceil(Math.log2(5000 / 250)) + 1\<close>, see \<open>history_limit_fits\<close>.\<close>

definition LOOPBACK_FAILURE_HISTORY_LIMIT :: nat where "LOOPBACK_FAILURE_HISTORY_LIMIT = 6"

record rate_limit_config =
  rc_maxAttempts :: "int option"
  rc_windowMs :: jsval
  rc_lockoutMs :: jsval
  rc_exemptLoopback :: "bool option"
  rc_pruneIntervalMs :: "jsnum option"
  rc_maxEntries :: jsval

record limiter_config =
  lc_maxAttempts :: int
  lc_windowMs :: int
  lc_lockoutMs :: int
  lc_exemptLoopback :: bool
  lc_pruneIntervalMs :: int
  lc_maxEntries :: nat
  lc_normalizeIp :: "string option \<Rightarrow> string option"
  lc_isLoopback :: "string \<Rightarrow> bool"

definition resolvePruneIntervalMs :: "jsnum option \<Rightarrow> int" where
  "resolvePruneIntervalMs value =
     (case value of
        None \<Rightarrow> \<lfloor>PRUNE_INTERVAL_MS\<rfloor>
      | Some v \<Rightarrow>
          if (case v of Fin r \<Rightarrow> r \<le> 0 | _ \<Rightarrow> False) then 0
          else resolveTimerTimeoutMs (JNum v) (JNum (Fin PRUNE_INTERVAL_MS)) 1)"

text \<open>The constants at the head of \<open>createAuthRateLimiter\<close>; an absent option is \<open>JOther\<close>, which is not a number.\<close>

definition resolveLimiterConfig :: "rate_limit_config \<Rightarrow> (string option \<Rightarrow> string option) \<Rightarrow> (string \<Rightarrow> bool) \<Rightarrow> limiter_config" where
  "resolveLimiterConfig config normalizeIp isLoopback =
     \<lparr>lc_maxAttempts = (case rc_maxAttempts config of Some m \<Rightarrow> m | None \<Rightarrow> DEFAULT_MAX_ATTEMPTS),
      lc_windowMs = resolveTimerTimeoutMs (rc_windowMs config) (JNum (Fin DEFAULT_WINDOW_MS)) 0,
      lc_lockoutMs = resolveTimerTimeoutMs (rc_lockoutMs config) (JNum (Fin DEFAULT_LOCKOUT_MS)) 0,
      lc_exemptLoopback = (case rc_exemptLoopback config of Some b \<Rightarrow> b | None \<Rightarrow> True),
      lc_pruneIntervalMs = resolvePruneIntervalMs (rc_pruneIntervalMs config),
      lc_maxEntries = nat \<lfloor>resolveIntegerOption (rc_maxEntries config) DEFAULT_MAX_ENTRIES (Some 1) None\<rfloor>,
      lc_normalizeIp = normalizeIp, lc_isLoopback = isLoopback\<rparr>"

record rate_entry =
  re_attempts :: "int list"
  re_lockedUntil :: "int option"

record penalty_waiters =
  pw_deadline :: int
  pw_resolvers :: "nat list"
  pw_timer :: int

record limiter_state =
  rl_entries :: "(string \<times> rate_entry) list"
  rl_penaltyUntil :: "(string \<times> int) list"
  rl_waiters :: "(string \<times> penalty_waiters) list"
  rl_overflowLockedUntil :: "int option"
  rl_settled :: "nat list"

definition emptyLimiter :: limiter_state where
  "emptyLimiter = \<lparr>rl_entries = [], rl_penaltyUntil = [], rl_waiters = [], rl_overflowLockedUntil = None, rl_settled = []\<rparr>"

record rate_check =
  rk_allowed :: bool
  rk_remaining :: int
  rk_retryAfterMs :: int

section \<open>Keys\<close>

definition BROWSER_ORIGIN_RATE_LIMIT_KEY_PREFIX :: string where "BROWSER_ORIGIN_RATE_LIMIT_KEY_PREFIX = ''browser-origin:''"
definition IDENTITY_RATE_LIMIT_KEY_PREFIX :: string where "IDENTITY_RATE_LIMIT_KEY_PREFIX = ''identity:''"
definition AUTH_RATE_LIMIT_SCOPE_DEFAULT :: string where "AUTH_RATE_LIMIT_SCOPE_DEFAULT = ''default''"

definition buildRateLimitIdentityKey :: "string \<Rightarrow> string \<Rightarrow> string" where
  "buildRateLimitIdentityKey namespace identity = IDENTITY_RATE_LIMIT_KEY_PREFIX @ namespace @ '':'' @ identity"

definition normalizeRateLimitClientIp :: "limiter_config \<Rightarrow> string option \<Rightarrow> string" where
  "normalizeRateLimitClientIp cfg ip =
     (case ip of
        Some s \<Rightarrow>
          if starts_with BROWSER_ORIGIN_RATE_LIMIT_KEY_PREFIX s \<or> starts_with IDENTITY_RATE_LIMIT_KEY_PREFIX s then s
          else (case lc_normalizeIp cfg ip of Some r \<Rightarrow> r | None \<Rightarrow> ''unknown'')
      | None \<Rightarrow> (case lc_normalizeIp cfg ip of Some r \<Rightarrow> r | None \<Rightarrow> ''unknown''))"

definition normalizeScope :: "string option \<Rightarrow> string" where
  "normalizeScope scope =
     (let s = js_trim (case scope of Some s \<Rightarrow> s | None \<Rightarrow> AUTH_RATE_LIMIT_SCOPE_DEFAULT) in
      if s = [] then AUTH_RATE_LIMIT_SCOPE_DEFAULT else s)"

definition resolveKey :: "limiter_config \<Rightarrow> string option \<Rightarrow> string option \<Rightarrow> string" where
  "resolveKey cfg rawIp rawScope = normalizeScope rawScope @ '':'' @ normalizeRateLimitClientIp cfg rawIp"

definition isExempt :: "limiter_config \<Rightarrow> string option \<Rightarrow> bool" where
  "isExempt cfg rawIp \<longleftrightarrow> lc_exemptLoopback cfg \<and> lc_isLoopback cfg (normalizeRateLimitClientIp cfg rawIp)"

section \<open>Entries\<close>

text \<open>\<open>entry.lockedUntil && now < entry.lockedUntil\<close>: the time 0 is falsy.\<close>

definition lockActive :: "int \<Rightarrow> rate_entry \<Rightarrow> bool" where
  "lockActive now e \<longleftrightarrow> (case re_lockedUntil e of Some t \<Rightarrow> t \<noteq> 0 \<and> now < t | None \<Rightarrow> False)"

definition lockExpired :: "int \<Rightarrow> rate_entry \<Rightarrow> bool" where
  "lockExpired now e \<longleftrightarrow> (case re_lockedUntil e of Some t \<Rightarrow> t \<noteq> 0 \<and> now \<ge> t | None \<Rightarrow> False)"

definition slideWindow :: "limiter_config \<Rightarrow> int \<Rightarrow> rate_entry \<Rightarrow> rate_entry" where
  "slideWindow cfg now e = e\<lparr>re_attempts := filter (\<lambda>ts. ts > now - lc_windowMs cfg) (re_attempts e)\<rparr>"

definition pruneExpiredEntries :: "limiter_config \<Rightarrow> int \<Rightarrow> limiter_state \<Rightarrow> limiter_state" where
  "pruneExpiredEntries cfg now s =
     s\<lparr>rl_entries := List.map_filter (\<lambda>(key, e).
          if lockActive now e then Some (key, e)
          else let e' = slideWindow cfg now e in if re_attempts e' = [] then None else Some (key, e')) (rl_entries s),
       rl_penaltyUntil := filter (\<lambda>(_, until). \<not> now \<ge> until) (rl_penaltyUntil s)\<rparr>"

definition checkOverflowLock :: "limiter_config \<Rightarrow> int \<Rightarrow> limiter_state \<Rightarrow> rate_check option \<times> limiter_state" where
  "checkOverflowLock cfg now s =
     (case rl_overflowLockedUntil s of
        None \<Rightarrow> (None, s)
      | Some until \<Rightarrow>
          if until = 0 then (None, s)
          else if now \<ge> until then (None, s\<lparr>rl_overflowLockedUntil := None\<rparr>)
          else
            let s1 = (if length (rl_entries s) \<ge> lc_maxEntries cfg then pruneExpiredEntries cfg now s else s) in
            if length (rl_entries s1) < lc_maxEntries cfg then (None, s1\<lparr>rl_overflowLockedUntil := None\<rparr>)
            else (Some \<lparr>rk_allowed = False, rk_remaining = 0, rk_retryAfterMs = until - now\<rparr>, s1))"

definition enforceMaxEntries :: "limiter_config \<Rightarrow> int \<Rightarrow> limiter_state \<Rightarrow> bool \<times> limiter_state" where
  "enforceMaxEntries cfg now s =
     (if length (rl_entries s) < lc_maxEntries cfg then (True, s)
      else
        let s1 = pruneExpiredEntries cfg now s in
        if length (rl_entries s1) < lc_maxEntries cfg then (True, s1)
        else (case find (\<lambda>(_, e). \<not> lockActive now e) (rl_entries s1) of
                Some (k, _) \<Rightarrow> (True, s1\<lparr>rl_entries := AList.delete k (rl_entries s1)\<rparr>)
              | None \<Rightarrow> (False, s1)))"

section \<open>Operations\<close>

definition check :: "limiter_config \<Rightarrow> int \<Rightarrow> string option \<Rightarrow> string option \<Rightarrow> limiter_state \<Rightarrow> rate_check \<times> limiter_state" where
  "check cfg now rawIp rawScope s =
     (let key = resolveKey cfg rawIp rawScope in
      if isExempt cfg rawIp then (\<lparr>rk_allowed = True, rk_remaining = lc_maxAttempts cfg, rk_retryAfterMs = 0\<rparr>, s)
      else
        (case map_of (rl_entries s) key of
           None \<Rightarrow>
             (case checkOverflowLock cfg now s of
                (Some r, s1) \<Rightarrow> (r, s1)
              | (None, s1) \<Rightarrow> (\<lparr>rk_allowed = True, rk_remaining = lc_maxAttempts cfg, rk_retryAfterMs = 0\<rparr>, s1))
         | Some e \<Rightarrow>
             if lockActive now e
             then (\<lparr>rk_allowed = False, rk_remaining = 0, rk_retryAfterMs = the (re_lockedUntil e) - now\<rparr>, s)
             else
               let e1 = (if lockExpired now e then e\<lparr>re_lockedUntil := None, re_attempts := []\<rparr> else e);
                   e2 = slideWindow cfg now e1;
                   remaining = max 0 (lc_maxAttempts cfg - int (length (re_attempts e2))) in
               (\<lparr>rk_allowed = remaining > 0, rk_remaining = remaining, rk_retryAfterMs = 0\<rparr>,
                s\<lparr>rl_entries := AList.update key e2 (rl_entries s)\<rparr>)))"

text \<open>What \<open>recordFailure\<close> does to the entry of its key once there is one.\<close>

definition countFailure :: "limiter_config \<Rightarrow> int \<Rightarrow> bool \<Rightarrow> rate_entry \<Rightarrow> rate_entry" where
  "countFailure cfg now exempt e =
     (if lockActive now e then e
      else
        let e1 = slideWindow cfg now e; attempts = re_attempts e1 @ [now] in
        if exempt \<and> length attempts > LOOPBACK_FAILURE_HISTORY_LIMIT
        then e1\<lparr>re_attempts := drop (length attempts - LOOPBACK_FAILURE_HISTORY_LIMIT) attempts\<rparr>
        else if \<not> exempt \<and> int (length attempts) \<ge> lc_maxAttempts cfg
        then e1\<lparr>re_attempts := attempts, re_lockedUntil := Some (now + lc_lockoutMs cfg)\<rparr>
        else e1\<lparr>re_attempts := attempts\<rparr>)"

definition recordFailure :: "limiter_config \<Rightarrow> int \<Rightarrow> string option \<Rightarrow> string option \<Rightarrow> limiter_state \<Rightarrow> limiter_state" where
  "recordFailure cfg now rawIp rawScope s =
     (let key = resolveKey cfg rawIp rawScope; exempt = isExempt cfg rawIp in
      case map_of (rl_entries s) key of
        Some e \<Rightarrow> s\<lparr>rl_entries := AList.update key (countFailure cfg now exempt e) (rl_entries s)\<rparr>
      | None \<Rightarrow>
          (case enforceMaxEntries cfg now s of
             (False, s1) \<Rightarrow>
               s1\<lparr>rl_overflowLockedUntil :=
                    Some (max (case rl_overflowLockedUntil s1 of Some u \<Rightarrow> u | None \<Rightarrow> 0) (now + lc_lockoutMs cfg))\<rparr>
           | (True, s1) \<Rightarrow>
               s1\<lparr>rl_entries := AList.update key (countFailure cfg now exempt \<lparr>re_attempts = [], re_lockedUntil = None\<rparr>) (rl_entries s1)\<rparr>))"

definition penaltyMs :: "nat \<Rightarrow> int" where
  "penaltyMs failureCount =
     min (if failureCount = 0 then LOOPBACK_FAILURE_DELAY_BASE_MS div 2 else LOOPBACK_FAILURE_DELAY_BASE_MS * 2 ^ min (failureCount - 1) 30)
       LOOPBACK_FAILURE_DELAY_MAX_MS"

definition addWaiter :: "string \<Rightarrow> int \<Rightarrow> int \<Rightarrow> nat \<Rightarrow> limiter_state \<Rightarrow> limiter_state" where
  "addWaiter key now deadline promise s =
     (let w = (case map_of (rl_waiters s) key of
           Some w \<Rightarrow>
             let w1 = w\<lparr>pw_resolvers := pw_resolvers w @ [promise]\<rparr> in
             if deadline > pw_deadline w then w1\<lparr>pw_deadline := deadline, pw_timer := now + max 0 (deadline - now)\<rparr> else w1
         | None \<Rightarrow> \<lparr>pw_deadline = deadline, pw_resolvers = [promise], pw_timer = now + max 0 (deadline - now)\<rparr>) in
      s\<lparr>rl_waiters := AList.update key w (rl_waiters s)\<rparr>)"

text \<open>\<open>promise\<close> is the promise the call returns; a client that is not exempt gets a resolved one.\<close>

definition recordFailureAndDelay :: "limiter_config \<Rightarrow> int \<Rightarrow> string option \<Rightarrow> string option \<Rightarrow> nat \<Rightarrow> limiter_state \<Rightarrow> limiter_state" where
  "recordFailureAndDelay cfg now rawIp rawScope promise s =
     (let key = resolveKey cfg rawIp rawScope; s1 = recordFailure cfg now rawIp rawScope s in
      if \<not> isExempt cfg rawIp then s1\<lparr>rl_settled := rl_settled s1 @ [promise]\<rparr>
      else
        let failureCount = (case map_of (rl_entries s1) key of Some e \<Rightarrow> length (re_attempts e) | None \<Rightarrow> 1);
            deadline = min (max (case map_of (rl_penaltyUntil s1) key of Some u \<Rightarrow> u | None \<Rightarrow> 0) (now + penaltyMs failureCount))
                           (now + LOOPBACK_FAILURE_DELAY_MAX_MS) in
        addWaiter key now deadline promise (s1\<lparr>rl_penaltyUntil := AList.update key deadline (rl_penaltyUntil s1)\<rparr>))"

definition releaseLoopbackWaiters :: "string \<Rightarrow> limiter_state \<Rightarrow> limiter_state" where
  "releaseLoopbackWaiters key s =
     (case map_of (rl_waiters s) key of
        None \<Rightarrow> s
      | Some w \<Rightarrow> s\<lparr>rl_waiters := AList.delete key (rl_waiters s), rl_settled := rl_settled s @ pw_resolvers w\<rparr>)"

definition resetClient :: "limiter_config \<Rightarrow> string option \<Rightarrow> string option \<Rightarrow> limiter_state \<Rightarrow> limiter_state" where
  "resetClient cfg rawIp rawScope s =
     (let key = resolveKey cfg rawIp rawScope in
      s\<lparr>rl_entries := AList.delete key (rl_entries s), rl_penaltyUntil := AList.delete key (rl_penaltyUntil s)\<rparr>)"

definition dispose :: "limiter_state \<Rightarrow> limiter_state" where
  "dispose s =
     fold releaseLoopbackWaiters (map fst (rl_waiters s))
       (s\<lparr>rl_entries := [], rl_penaltyUntil := [], rl_overflowLockedUntil := None\<rparr>)"

section \<open>Runs\<close>

text \<open>A call of the limiter, or a timer of its own: the prune interval, or the release timer of a key once it is due.\<close>

datatype limiter_op =
    Check "string option" "string option"
  | Fail "string option" "string option"
  | FailAndDelay "string option" "string option" nat
  | Reset "string option" "string option"
  | Prune
  | ReleaseTimer string
  | Dispose

fun limiter_step :: "limiter_config \<Rightarrow> int \<times> limiter_op \<Rightarrow> limiter_state \<Rightarrow> limiter_state" where
  "limiter_step cfg (now, Check ip scope) s = snd (check cfg now ip scope s)"
| "limiter_step cfg (now, Fail ip scope) s = recordFailure cfg now ip scope s"
| "limiter_step cfg (now, FailAndDelay ip scope p) s = recordFailureAndDelay cfg now ip scope p s"
| "limiter_step cfg (now, Reset ip scope) s = resetClient cfg ip scope s"
| "limiter_step cfg (now, Prune) s = pruneExpiredEntries cfg now s"
| "limiter_step cfg (now, ReleaseTimer key) s =
     (case map_of (rl_waiters s) key of Some w \<Rightarrow> if pw_timer w \<le> now then releaseLoopbackWaiters key s else s | None \<Rightarrow> s)"
| "limiter_step cfg (now, Dispose) s = dispose s"

definition limiter_run :: "limiter_config \<Rightarrow> (int \<times> limiter_op) list \<Rightarrow> limiter_state \<Rightarrow> limiter_state" where
  "limiter_run cfg ops s = fold (limiter_step cfg) ops s"

section \<open>The tables stay bounded\<close>

lemma map_filter_subset:
  "(\<And>k v y. f (k, v) = Some y \<Longrightarrow> fst y = k) \<Longrightarrow> set (map fst (List.map_filter f m)) \<subseteq> set (map fst m)"
  by (induction m) (auto simp: map_filter_simps split: option.splits)

lemma map_filter_distinct:
  assumes "\<And>k v y. f (k, v) = Some y \<Longrightarrow> fst y = k"
  shows "distinct (map fst m) \<Longrightarrow> distinct (map fst (List.map_filter f m))"
proof (induction m)
  case (Cons x m)
  obtain k v where x: "x = (k, v)" by (cases x)
  have "set (map fst (List.map_filter f m)) \<subseteq> set (map fst m)" using assms by (rule map_filter_subset)
  then have "k \<notin> set (map fst (List.map_filter f m))" using Cons.prems x by auto
  then show ?case using Cons x assms [of k v] by (cases "f (k, v)") (auto simp: map_filter_simps)
qed (simp add: map_filter_simps)

lemma map_filter_length: "length (List.map_filter f m) \<le> length m"
  by (induction m) (auto simp: map_filter_simps split: option.splits)

definition pruneEntry :: "limiter_config \<Rightarrow> int \<Rightarrow> string \<times> rate_entry \<Rightarrow> (string \<times> rate_entry) option" where
  "pruneEntry cfg now = (\<lambda>(key, e).
     if lockActive now e then Some (key, e)
     else let e' = slideWindow cfg now e in if re_attempts e' = [] then None else Some (key, e'))"

lemma prune_entries: "rl_entries (pruneExpiredEntries cfg now s) = List.map_filter (pruneEntry cfg now) (rl_entries s)"
  by (simp add: pruneExpiredEntries_def pruneEntry_def)

lemma pruneEntry_key: "pruneEntry cfg now (k, v) = Some y \<Longrightarrow> fst y = k"
  by (auto simp: pruneEntry_def Let_def split: if_splits)

definition limiter_ok :: "limiter_config \<Rightarrow> limiter_state \<Rightarrow> bool" where
  "limiter_ok cfg s \<longleftrightarrow>
     distinct (map fst (rl_entries s)) \<and> length (rl_entries s) \<le> lc_maxEntries cfg \<and> distinct (map fst (rl_waiters s))"

lemma prune_ok: "limiter_ok cfg s \<Longrightarrow> limiter_ok cfg (pruneExpiredEntries cfg now s)"
  using map_filter_distinct [of "pruneEntry cfg now" "rl_entries s"] pruneEntry_key [of cfg now]
    map_filter_length [of "pruneEntry cfg now" "rl_entries s"]
  unfolding limiter_ok_def prune_entries by (simp add: pruneExpiredEntries_def)

lemma length_update: "length (AList.update k v m) = (if k \<in> fst ` set m then length m else Suc (length m))"
  by (induction m) auto

lemma length_update_Some: "map_of m k = Some v' \<Longrightarrow> length (AList.update k v m) = length m"
  by (induction m) (auto split: if_splits)

lemma length_delete_less: "k \<in> fst ` set m \<Longrightarrow> length (AList.delete k m) < length m"
  unfolding AList.delete_eq by (rule imageE, assumption, rule length_filter_less) auto

lemma map_of_key: "map_of m k = Some v \<Longrightarrow> k \<in> fst ` set m"
  by (force dest: map_of_SomeD)

lemma overflow_ok: "limiter_ok cfg s \<Longrightarrow> limiter_ok cfg (snd (checkOverflowLock cfg now s))"
  using prune_ok [of cfg s now] by (auto simp: checkOverflowLock_def Let_def split: option.split) (auto simp: limiter_ok_def)

lemma check_ok: "limiter_ok cfg s \<Longrightarrow> limiter_ok cfg (snd (check cfg now ip scope s))"
  using overflow_ok [of cfg s now]
  by (auto simp: check_def Let_def split: option.split prod.split)
    (auto simp: limiter_ok_def length_update_Some distinct_update)

lemma enforce_ok:
  assumes "limiter_ok cfg s"
  shows "limiter_ok cfg (snd (enforceMaxEntries cfg now s))"
    "fst (enforceMaxEntries cfg now s) \<Longrightarrow> length (rl_entries (snd (enforceMaxEntries cfg now s))) < lc_maxEntries cfg"
proof -
  let ?s1 = "pruneExpiredEntries cfg now s"
  have ok: "limiter_ok cfg ?s1" by (rule prune_ok [OF assms])
  show "limiter_ok cfg (snd (enforceMaxEntries cfg now s))"
    using assms ok by (auto simp: enforceMaxEntries_def Let_def split: option.split)
      (auto simp: limiter_ok_def distinct_delete intro: le_trans [OF length_delete_le])
  show "fst (enforceMaxEntries cfg now s) \<Longrightarrow> length (rl_entries (snd (enforceMaxEntries cfg now s))) < lc_maxEntries cfg"
  proof (cases "length (rl_entries s) < lc_maxEntries cfg \<or> length (rl_entries ?s1) < lc_maxEntries cfg")
    case False
    assume "fst (enforceMaxEntries cfg now s)"
    then obtain k e where f: "find (\<lambda>(_, e). \<not> lockActive now e) (rl_entries ?s1) = Some (k, e)"
      using False by (auto simp: enforceMaxEntries_def Let_def split: option.splits)
    then have "k \<in> fst ` set (rl_entries ?s1)" by (force simp: find_Some_iff in_set_conv_nth)
    then have "length (AList.delete k (rl_entries ?s1)) < length (rl_entries ?s1)" by (rule length_delete_less)
    with False f ok show ?thesis by (simp add: enforceMaxEntries_def Let_def limiter_ok_def)
  qed (auto simp: enforceMaxEntries_def Let_def)
qed

lemma recordFailure_ok: "limiter_ok cfg s \<Longrightarrow> limiter_ok cfg (recordFailure cfg now ip scope s)"
proof (cases "map_of (rl_entries s) (resolveKey cfg ip scope)")
  case (Some e)
  assume "limiter_ok cfg s"
  then show ?thesis
    using Some by (auto simp: recordFailure_def Let_def limiter_ok_def length_update_Some distinct_update)
next
  case None
  assume ok: "limiter_ok cfg s"
  obtain b s1 where e: "enforceMaxEntries cfg now s = (b, s1)" by (cases "enforceMaxEntries cfg now s") auto
  show ?thesis using enforce_ok [OF ok, of now] None e
    by (cases b) (auto simp: recordFailure_def Let_def limiter_ok_def length_update distinct_update)
qed

lemma release_ok: "limiter_ok cfg s \<Longrightarrow> limiter_ok cfg (releaseLoopbackWaiters key s)"
  by (auto simp: releaseLoopbackWaiters_def limiter_ok_def distinct_delete split: option.split)

lemma fold_release_ok: "limiter_ok cfg s \<Longrightarrow> limiter_ok cfg (fold releaseLoopbackWaiters keys s)"
  by (induction keys arbitrary: s) (auto simp: release_ok)

lemma step_ok: "limiter_ok cfg s \<Longrightarrow> limiter_ok cfg (limiter_step cfg (now, op) s)"
proof (cases op)
  case (FailAndDelay ip scope p)
  assume "limiter_ok cfg s"
  from recordFailure_ok [OF this, of now ip scope] show ?thesis
    by (auto simp: FailAndDelay recordFailureAndDelay_def addWaiter_def Let_def limiter_ok_def distinct_update)
next
  case Dispose
  assume "limiter_ok cfg s"
  then show ?thesis unfolding Dispose limiter_step.simps dispose_def by (intro fold_release_ok) (simp add: limiter_ok_def)
qed (auto simp: check_ok recordFailure_ok prune_ok release_ok resetClient_def Let_def split: option.split,
     auto simp: limiter_ok_def distinct_delete intro: le_trans [OF length_delete_le])

lemma run_ok: "limiter_ok cfg s \<Longrightarrow> limiter_ok cfg (limiter_run cfg ops s)"
  unfolding limiter_run_def by (induction ops arbitrary: s) (auto simp: step_ok)

lemma reachable_ok: "limiter_ok cfg (limiter_run cfg ops emptyLimiter)"
  by (rule run_ok) (simp add: limiter_ok_def emptyLimiter_def)

text \<open>
  C28. A flood cannot exhaust memory: whatever is called, in any order and from however many addresses, the limiter never
  tracks more clients than its cap, and each client has one entry.
\<close>

theorem limiter_bounded:
  "length (rl_entries (limiter_run cfg ops emptyLimiter)) \<le> lc_maxEntries cfg \<and>
   distinct (map fst (rl_entries (limiter_run cfg ops emptyLimiter)))"
  using reachable_ok [of cfg ops] by (simp add: limiter_ok_def)

section \<open>A lockout outlasts everything but its time\<close>

definition lockedAt :: "string \<Rightarrow> int \<Rightarrow> limiter_state \<Rightarrow> bool" where
  "lockedAt key L s \<longleftrightarrow> (\<exists>e. map_of (rl_entries s) key = Some e \<and> re_lockedUntil e = Some L)"

lemma lock_active: "re_lockedUntil e = Some L \<Longrightarrow> 0 < L \<Longrightarrow> now < L \<Longrightarrow> lockActive now e"
  by (simp add: lockActive_def)

lemma map_filter_keeps:
  assumes "\<And>k v y. f (k, v) = Some y \<Longrightarrow> fst y = k"
  shows "map_of m k = Some v \<Longrightarrow> f (k, v) = Some (k, v) \<Longrightarrow> map_of (List.map_filter f m) k = Some v"
proof (induction m)
  case (Cons x m)
  obtain k' v' where x: "x = (k', v')" by (cases x)
  show ?case
  proof (cases "k' = k")
    case True
    then show ?thesis using Cons.prems x by (simp add: map_filter_simps)
  next
    case False
    then show ?thesis using Cons x assms [of k' v'] by (cases "f (k', v')") (auto simp: map_filter_simps)
  qed
qed simp

lemma prune_locked:
  assumes "lockedAt key L s" "0 < L" "now < L"
  shows "lockedAt key L (pruneExpiredEntries cfg now s)"
proof -
  obtain e where e: "map_of (rl_entries s) key = Some e" "re_lockedUntil e = Some L" using assms(1) by (auto simp: lockedAt_def)
  have "pruneEntry cfg now (key, e) = Some (key, e)" using lock_active [OF e(2) assms(2,3)] by (simp add: pruneEntry_def)
  with e map_filter_keeps [of "pruneEntry cfg now" "rl_entries s" key e] pruneEntry_key show ?thesis
    unfolding lockedAt_def prune_entries by metis
qed

lemma overflow_locked:
  assumes "lockedAt key L s" "0 < L" "now < L"
  shows "lockedAt key L (snd (checkOverflowLock cfg now s))"
  using prune_locked [OF assms, of cfg] assms(1)
  by (auto simp: checkOverflowLock_def Let_def split: option.split) (auto simp: lockedAt_def)

lemma enforce_locked:
  assumes "lockedAt key L s" "0 < L" "now < L" "limiter_ok cfg s"
  shows "lockedAt key L (snd (enforceMaxEntries cfg now s))"
proof -
  let ?s1 = "pruneExpiredEntries cfg now s"
  have l: "lockedAt key L ?s1" by (rule prune_locked [OF assms(1-3)])
  have ok: "distinct (map fst (rl_entries ?s1))" using prune_ok [OF assms(4)] by (simp add: limiter_ok_def)
  have "lockedAt key L (?s1\<lparr>rl_entries := AList.delete k (rl_entries ?s1)\<rparr>)"
    if f: "find (\<lambda>(_, e). \<not> lockActive now e) (rl_entries ?s1) = Some (k, x)" for k x
  proof -
    have x: "(k, x) \<in> set (rl_entries ?s1)" "\<not> lockActive now x"
      using f by (auto simp: find_Some_iff in_set_conv_nth)
    then have "map_of (rl_entries ?s1) k = Some x" using mem_map_of [OF ok] by blast
    then have "k \<noteq> key" using x(2) l lock_active assms(2,3) by (auto simp: lockedAt_def)
    then show ?thesis using l by (simp add: lockedAt_def)
  qed
  then show ?thesis using assms(1) l by (auto simp: enforceMaxEntries_def Let_def split: option.split)
qed

lemma check_locked:
  assumes "lockedAt key L s" "0 < L" "now < L"
  shows "lockedAt key L (snd (check cfg now ip scope s))"
proof (cases "map_of (rl_entries s) (resolveKey cfg ip scope)")
  case None
  then show ?thesis using assms(1) overflow_locked [OF assms, of cfg]
    by (auto simp: check_def Let_def split: prod.split option.split)
next
  case (Some e)
  then show ?thesis
    using assms(1) lock_active [OF _ assms(2,3)]
    by (cases "resolveKey cfg ip scope = key") (auto simp: check_def Let_def lockedAt_def)
qed

lemma recordFailure_locked:
  assumes "lockedAt key L s" "0 < L" "now < L" "limiter_ok cfg s"
  shows "lockedAt key L (recordFailure cfg now ip scope s)"
proof (cases "map_of (rl_entries s) (resolveKey cfg ip scope)")
  case (Some e)
  then show ?thesis
    using assms(1) lock_active [OF _ assms(2,3)]
    by (cases "resolveKey cfg ip scope = key") (auto simp: recordFailure_def Let_def lockedAt_def countFailure_def)
next
  case None
  then have k: "resolveKey cfg ip scope \<noteq> key" using assms(1) by (auto simp: lockedAt_def)
  obtain b s1 where e: "enforceMaxEntries cfg now s = (b, s1)" by (cases "enforceMaxEntries cfg now s") auto
  then have "lockedAt key L s1" using enforce_locked [OF assms] by (metis snd_conv)
  then show ?thesis using None e k by (cases b) (auto simp: recordFailure_def Let_def lockedAt_def)
qed

lemma release_locked: "lockedAt key L (releaseLoopbackWaiters k s) = lockedAt key L s"
  by (auto simp: releaseLoopbackWaiters_def lockedAt_def split: option.split)

definition clears :: "limiter_config \<Rightarrow> string \<Rightarrow> limiter_op \<Rightarrow> bool" where
  "clears cfg key op \<longleftrightarrow> (case op of Reset ip scope \<Rightarrow> resolveKey cfg ip scope = key | Dispose \<Rightarrow> True | _ \<Rightarrow> False)"

lemma step_locked:
  assumes "lockedAt key L s" "0 < L" "now < L" "limiter_ok cfg s" "\<not> clears cfg key op"
  shows "lockedAt key L (limiter_step cfg (now, op) s)"
proof (cases op)
  case (FailAndDelay ip scope p)
  then show ?thesis using recordFailure_locked [OF assms(1-4), of ip scope]
    by (simp add: recordFailureAndDelay_def addWaiter_def Let_def lockedAt_def)
next
  case (Reset ip scope)
  then show ?thesis using assms(1,5) by (simp add: resetClient_def clears_def lockedAt_def Let_def)
next
  case Dispose
  then show ?thesis using assms(5) by (simp add: clears_def)
qed (use assms in \<open>auto simp: check_locked recordFailure_locked prune_locked release_locked split: option.split\<close>)

lemma run_locked:
  assumes "lockedAt key L s" "0 < L" "limiter_ok cfg s" "\<forall>(t, op) \<in> set ops. t < L \<and> \<not> clears cfg key op"
  shows "lockedAt key L (limiter_run cfg ops s)"
  using assms
proof (induction ops arbitrary: s)
  case (Cons x ops)
  obtain t op where x: "x = (t, op)" by (cases x)
  have "lockedAt key L (limiter_step cfg (t, op) s)" using Cons.prems x by (intro step_locked) auto
  then show ?case using Cons.IH [of "limiter_step cfg (t, op) s"] Cons.prems step_ok [of cfg s t op] by (simp add: limiter_run_def x)
qed (simp add: limiter_run_def)

lemma locked_denied:
  assumes "lockedAt (resolveKey cfg ip scope) L s" "0 < L" "now < L" "\<not> isExempt cfg ip"
  shows "fst (check cfg now ip scope s) = \<lparr>rk_allowed = False, rk_remaining = 0, rk_retryAfterMs = L - now\<rparr>"
  using assms lock_active by (auto simp: check_def lockedAt_def Let_def)

text \<open>
  C26. A locked-out client cannot be freed by noise: once locked until some time, every attempt before that time is refused with
  the exact time left, whatever calls for other clients, floods of new addresses, evictions, prunes or further failures
  happen meanwhile; only a reset of that client or disposing of the limiter ends it earlier.
\<close>

theorem lockout_holds:
  assumes "map_of (rl_entries (limiter_run cfg history emptyLimiter)) (resolveKey cfg ip scope) = Some e"
    and "re_lockedUntil e = Some L" and "0 < L" and "now < L" and "\<not> isExempt cfg ip"
    and "\<forall>(t, op) \<in> set ops. t < L \<and> \<not> clears cfg (resolveKey cfg ip scope) op"
  shows "fst (check cfg now ip scope (limiter_run cfg ops (limiter_run cfg history emptyLimiter))) =
    \<lparr>rk_allowed = False, rk_remaining = 0, rk_retryAfterMs = L - now\<rparr>"
proof -
  have "lockedAt (resolveKey cfg ip scope) L (limiter_run cfg history emptyLimiter)"
    using assms(1,2) by (simp add: lockedAt_def)
  from run_locked [OF this assms(3) reachable_ok assms(6)] assms(3-5) show ?thesis by (intro locked_denied)
qed

section \<open>Failures lead to a lockout\<close>

definition guesses :: "limiter_config \<Rightarrow> string option \<Rightarrow> string option \<Rightarrow> int list \<Rightarrow> (int \<times> limiter_op) list" where
  "guesses cfg ip scope ts = map (\<lambda>t. (t, Fail ip scope)) ts"

lemma run_append: "limiter_run cfg (xs @ ys) s = limiter_run cfg ys (limiter_run cfg xs s)"
  by (simp add: limiter_run_def)

lemma guesses_entry:
  assumes "map_of (rl_entries s) (resolveKey cfg ip scope) = None" "length (rl_entries s) < lc_maxEntries cfg" "\<not> isExempt cfg ip"
  shows "ts \<noteq> [] \<Longrightarrow> sorted ts \<Longrightarrow> last ts < hd ts + lc_windowMs cfg \<Longrightarrow> int (length ts) \<le> lc_maxAttempts cfg \<Longrightarrow>
    map_of (rl_entries (limiter_run cfg (guesses cfg ip scope ts) s)) (resolveKey cfg ip scope) =
      Some \<lparr>re_attempts = ts, re_lockedUntil = (if int (length ts) = lc_maxAttempts cfg then Some (last ts + lc_lockoutMs cfg) else None)\<rparr>"
proof (induction ts rule: rev_induct)
  case (snoc t ts)
  let ?k = "resolveKey cfg ip scope"
  show ?case
  proof (cases "ts = []")
    case True
    then show ?thesis using assms snoc.prems
      by (auto simp: guesses_def limiter_run_def recordFailure_def enforceMaxEntries_def countFailure_def lockActive_def slideWindow_def Let_def)
  next
    case False
    have le: "\<forall>x \<in> set ts. hd ts \<le> x" using snoc.prems(2) False by (cases ts) (auto simp: sorted_append)
    have "last ts \<le> t" using snoc.prems(2) False by (auto simp: sorted_append)
    moreover have "t < hd ts + lc_windowMs cfg" "sorted ts" "int (length ts) < lc_maxAttempts cfg"
      using snoc.prems False by (simp_all add: sorted_append)
    ultimately have IH: "map_of (rl_entries (limiter_run cfg (guesses cfg ip scope ts) s)) ?k = Some \<lparr>re_attempts = ts, re_lockedUntil = None\<rparr>"
      using snoc.IH [OF False] by simp
    have f: "filter (\<lambda>ts. ts > t - lc_windowMs cfg) ts = ts"
      using le snoc.prems(3) False by (intro filter_True) fastforce
    have g: "guesses cfg ip scope (ts @ [t]) = guesses cfg ip scope ts @ [(t, Fail ip scope)]" by (simp add: guesses_def)
    show ?thesis
      unfolding g run_append using IH assms(3) f snoc.prems(4)
      by (auto simp: limiter_run_def recordFailure_def countFailure_def lockActive_def slideWindow_def Let_def)
  qed
qed simp


section \<open>Loopback clients wait, but never for long\<close>

lemma penalty_bounds: "LOOPBACK_FAILURE_DELAY_BASE_MS div 2 \<le> penaltyMs n" "penaltyMs n \<le> LOOPBACK_FAILURE_DELAY_MAX_MS"
proof -
  define x :: int where "x = 2 ^ min (n - 1) 30"
  have "1 \<le> x" by (simp add: x_def)
  then show "LOOPBACK_FAILURE_DELAY_BASE_MS div 2 \<le> penaltyMs n"
    unfolding penaltyMs_def x_def [symmetric] LOOPBACK_FAILURE_DELAY_BASE_MS_def LOOPBACK_FAILURE_DELAY_MAX_MS_def by auto
qed (simp add: penaltyMs_def)

text \<open>The history kept for loopback clients is just long enough: the delay is maximal from that many failures on, not before.\<close>

lemma history_limit_fits: "penaltyMs n = LOOPBACK_FAILURE_DELAY_MAX_MS \<longleftrightarrow> LOOPBACK_FAILURE_HISTORY_LIMIT \<le> n"
proof (cases "6 \<le> n")
  case True
  then have "(2 :: int) ^ 5 \<le> 2 ^ min (n - 1) 30" by (intro power_increasing) auto
  then show ?thesis using True
    by (simp add: penaltyMs_def LOOPBACK_FAILURE_DELAY_BASE_MS_def LOOPBACK_FAILURE_DELAY_MAX_MS_def LOOPBACK_FAILURE_HISTORY_LIMIT_def)
next
  case False
  then have "n \<in> {0, 1, 2, 3, 4, 5}" by auto
  then show ?thesis
    by (auto simp: penaltyMs_def LOOPBACK_FAILURE_DELAY_BASE_MS_def LOOPBACK_FAILURE_DELAY_MAX_MS_def LOOPBACK_FAILURE_HISTORY_LIMIT_def)
qed

definition waiters_ok :: "int \<Rightarrow> limiter_state \<Rightarrow> bool" where
  "waiters_ok clock s \<longleftrightarrow>
     (\<forall>k w. map_of (rl_waiters s) k = Some w \<longrightarrow> pw_timer w = pw_deadline w \<and> pw_deadline w \<le> clock + LOOPBACK_FAILURE_DELAY_MAX_MS)"

lemma waiters_ok_later: "waiters_ok t s \<Longrightarrow> t \<le> t' \<Longrightarrow> waiters_ok t' s"
  by (force simp: waiters_ok_def)

lemma enforce_waiters: "rl_waiters (snd (enforceMaxEntries cfg now s)) = rl_waiters s"
  by (auto simp: enforceMaxEntries_def pruneExpiredEntries_def Let_def split: option.split)

lemma recordFailure_waiters: "rl_waiters (recordFailure cfg now ip scope s) = rl_waiters s"
  using enforce_waiters [of cfg now s] by (auto simp: recordFailure_def Let_def split: option.split prod.split bool.split)

lemma check_waiters: "rl_waiters (snd (check cfg now ip scope s)) = rl_waiters s"
  by (auto simp: check_def checkOverflowLock_def pruneExpiredEntries_def Let_def split: option.splits prod.splits)

definition penaltyDeadline :: "limiter_config \<Rightarrow> int \<Rightarrow> string \<Rightarrow> limiter_state \<Rightarrow> int" where
  "penaltyDeadline cfg now key s1 =
     min (max (case map_of (rl_penaltyUntil s1) key of Some u \<Rightarrow> u | None \<Rightarrow> 0)
              (now + penaltyMs (case map_of (rl_entries s1) key of Some e \<Rightarrow> length (re_attempts e) | None \<Rightarrow> 1)))
         (now + LOOPBACK_FAILURE_DELAY_MAX_MS)"

lemma penaltyDeadline_bounds:
  "now + penaltyMs (case map_of (rl_entries s1) key of Some e \<Rightarrow> length (re_attempts e) | None \<Rightarrow> 1) \<le> penaltyDeadline cfg now key s1"
  "penaltyDeadline cfg now key s1 \<le> now + LOOPBACK_FAILURE_DELAY_MAX_MS" "now \<le> penaltyDeadline cfg now key s1"
proof -
  let ?n = "case map_of (rl_entries s1) key of Some e \<Rightarrow> length (re_attempts e) | None \<Rightarrow> 1"
  show 1: "now + penaltyMs ?n \<le> penaltyDeadline cfg now key s1" using penalty_bounds(2) [of ?n] by (simp add: penaltyDeadline_def)
  have "0 \<le> penaltyMs ?n" using penalty_bounds(1) [of ?n] by (simp add: LOOPBACK_FAILURE_DELAY_BASE_MS_def)
  with 1 show "now \<le> penaltyDeadline cfg now key s1" by simp
qed (simp add: penaltyDeadline_def)

lemma failAndDelay_waiter:
  fixes cfg now ip scope p s k
  assumes "isExempt cfg ip" "waiters_ok now s"
  defines "key \<equiv> resolveKey cfg ip scope" and "s' \<equiv> recordFailureAndDelay cfg now ip scope p s"
  shows "\<exists>w. map_of (rl_waiters s') key = Some w \<and> p \<in> set (pw_resolvers w) \<and> pw_timer w = pw_deadline w \<and>
      now + penaltyMs (case map_of (rl_entries s') key of Some e \<Rightarrow> length (re_attempts e) | None \<Rightarrow> 1) \<le> pw_timer w \<and>
      pw_timer w \<le> now + LOOPBACK_FAILURE_DELAY_MAX_MS"
    "k \<noteq> key \<Longrightarrow> map_of (rl_waiters s') k = map_of (rl_waiters s) k"
proof -
  let ?s1 = "recordFailure cfg now ip scope s" let ?d = "penaltyDeadline cfg now key (recordFailure cfg now ip scope s)"
  have s': "s' = addWaiter key now ?d p (?s1\<lparr>rl_penaltyUntil := AList.update key ?d (rl_penaltyUntil ?s1)\<rparr>)"
    using assms(1) by (simp add: s'_def recordFailureAndDelay_def key_def penaltyDeadline_def Let_def)
  have en: "rl_entries s' = rl_entries ?s1" by (simp add: s' addWaiter_def Let_def)
  note b = penaltyDeadline_bounds [where cfg = cfg and now = now and key = key and ?s1.0 = ?s1]
  show "k \<noteq> key \<Longrightarrow> map_of (rl_waiters s') k = map_of (rl_waiters s) k"
    by (simp add: s' addWaiter_def Let_def recordFailure_waiters)
  show "\<exists>w. map_of (rl_waiters s') key = Some w \<and> p \<in> set (pw_resolvers w) \<and> pw_timer w = pw_deadline w \<and>
      now + penaltyMs (case map_of (rl_entries s') key of Some e \<Rightarrow> length (re_attempts e) | None \<Rightarrow> 1) \<le> pw_timer w \<and>
      pw_timer w \<le> now + LOOPBACK_FAILURE_DELAY_MAX_MS"
  proof (cases "map_of (rl_waiters s) key")
    case None
    then show ?thesis using b unfolding en by (simp add: s' addWaiter_def Let_def recordFailure_waiters)
  next
    case (Some w)
    then have "pw_timer w = pw_deadline w" "pw_deadline w \<le> now + LOOPBACK_FAILURE_DELAY_MAX_MS"
      using assms(2) unfolding waiters_ok_def by blast+
    then show ?thesis using Some b unfolding en by (simp add: s' addWaiter_def Let_def recordFailure_waiters)
  qed
qed

lemma release_waiters: "map_of (rl_waiters (releaseLoopbackWaiters key s)) k = Some w \<Longrightarrow> map_of (rl_waiters s) k = Some w"
  by (auto simp: releaseLoopbackWaiters_def map_of_delete_if split: option.splits if_splits)

lemma fold_release_waiters: "map_of (rl_waiters (fold releaseLoopbackWaiters keys s)) k = Some w \<Longrightarrow> map_of (rl_waiters s) k = Some w"
  by (induction keys arbitrary: s) (auto dest: release_waiters)

lemma step_waiters:
  assumes "waiters_ok now s"
  shows "waiters_ok now (limiter_step cfg (now, op) s)"
proof (cases op)
  case (FailAndDelay ip scope p)
  show ?thesis
  proof (cases "isExempt cfg ip")
    case True
    show ?thesis
      unfolding waiters_ok_def FailAndDelay limiter_step.simps
    proof (intro allI impI)
      fix k w assume w: "map_of (rl_waiters (recordFailureAndDelay cfg now ip scope p s)) k = Some w"
      show "pw_timer w = pw_deadline w \<and> pw_deadline w \<le> now + LOOPBACK_FAILURE_DELAY_MAX_MS"
        using failAndDelay_waiter(1) [OF True assms, where scope = scope and p = p]
          failAndDelay_waiter(2) [OF True assms, where scope = scope and p = p and k = k] w assms
        by (cases "k = resolveKey cfg ip scope") (auto simp: waiters_ok_def)
    qed
  next
    case False
    then show ?thesis using assms by (simp add: FailAndDelay recordFailureAndDelay_def Let_def waiters_ok_def recordFailure_waiters)
  qed
next
  case Dispose
  have "map_of (rl_waiters (dispose s)) k = Some w \<Longrightarrow> map_of (rl_waiters s) k = Some w" for k w
    unfolding dispose_def by (drule fold_release_waiters) simp
  then show ?thesis using assms unfolding Dispose limiter_step.simps waiters_ok_def by blast
next
  case (ReleaseTimer key)
  then show ?thesis using assms release_waiters [of key s] by (auto simp: waiters_ok_def split: option.split)
qed (use assms in \<open>simp_all add: waiters_ok_def check_waiters recordFailure_waiters pruneExpiredEntries_def resetClient_def Let_def\<close>)

lemma run_waiters:
  assumes "waiters_ok t s" "sorted (t # map fst ops)" "\<forall>x \<in> set ops. fst x \<le> now" "t \<le> now"
  shows "waiters_ok now (limiter_run cfg ops s)"
  using assms
proof (induction ops arbitrary: t s)
  case (Cons x ops)
  obtain t' op where x: "x = (t', op)" by (cases x)
  have "waiters_ok t' (limiter_step cfg (t', op) s)"
    by (rule step_waiters, rule waiters_ok_later [of t]) (use Cons.prems x in auto)
  with Cons.IH [of t' "limiter_step cfg (t', op) s"] Cons.prems show ?case by (simp add: limiter_run_def x)
next
  case Nil
  then show ?case using waiters_ok_later [of t s now] by (simp add: limiter_run_def)
qed


section \<open>Witnesses\<close>

text \<open>A limiter of three attempts in ten seconds for two clients, with the addresses as they are and one loopback address.\<close>

definition demoLimiter :: limiter_config where
  "demoLimiter = \<lparr>lc_maxAttempts = 3, lc_windowMs = 10000, lc_lockoutMs = 60000, lc_exemptLoopback = True, lc_pruneIntervalMs = 0,
     lc_maxEntries = 2, lc_normalizeIp = id, lc_isLoopback = (\<lambda>ip. ip = ''127.0.0.1'')\<rparr>"

definition demoAttack :: "(int \<times> limiter_op) list" where
  "demoAttack = guesses demoLimiter (Some ''6.6.6.6'') None [1000, 2000, 3000]"

theorem lockout_holds_witness:
  "fst (check demoLimiter 50000 (Some ''6.6.6.6'') None
     (limiter_run demoLimiter [(4000, Fail (Some ''7.7.7.7'') None), (5000, Fail (Some ''8.8.8.8'') None), (40000, Prune)]
       (limiter_run demoLimiter demoAttack emptyLimiter))) =
   \<lparr>rk_allowed = False, rk_remaining = 0, rk_retryAfterMs = 13000\<rparr>"
proof -
  have e: "map_of (rl_entries (limiter_run demoLimiter demoAttack emptyLimiter)) (resolveKey demoLimiter (Some ''6.6.6.6'') None) =
      Some \<lparr>re_attempts = [1000, 2000, 3000], re_lockedUntil = Some 63000\<rparr>" by code_simp
  have x: "\<not> isExempt demoLimiter (Some ''6.6.6.6'')" by code_simp
  have "fst (check demoLimiter 50000 (Some ''6.6.6.6'') None
     (limiter_run demoLimiter [(4000, Fail (Some ''7.7.7.7'') None), (5000, Fail (Some ''8.8.8.8'') None), (40000, Prune)]
       (limiter_run demoLimiter demoAttack emptyLimiter))) =
     \<lparr>rk_allowed = False, rk_remaining = 0, rk_retryAfterMs = 63000 - 50000\<rparr>"
    by (rule lockout_holds [OF e _ _ _ x]) (simp_all add: clears_def)
  then show ?thesis by simp
qed



end
