(* ===== verification/RequestBudgets.thy ===== *)
theory RequestBudgets
  imports Identifiers
begin

text \<open>
  Process-local budgets of the gateway: the fixed-window counter shared by request guards
  (\<open>src/infra/fixed-window-rate-limit.ts\<close>), the write budget of control-plane calls
  (\<open>src/gateway/control-plane-rate-limit.ts\<close>) and the duplicate cache (\<open>src/infra/dedupe.ts\<close>). The clock is an argument; Maps are
  association lists in insertion order; an owner token is a number.
\<close>

section \<open>Fixed windows\<close>

record window_config =
  wc_maxRequests :: int
  wc_windowMs :: int

record window_state =
  ws_count :: int
  ws_windowStartMs :: int

record budget_result =
  br_allowed :: bool
  br_retryAfterMs :: int
  br_remaining :: int

definition createFixedWindowBudget :: "jsval \<Rightarrow> jsval \<Rightarrow> window_config \<times> window_state" where
  "createFixedWindowBudget maxRequests windowMs =
     (\<lparr>wc_maxRequests = \<lfloor>resolveIntegerOption maxRequests 1 (Some 1) None\<rfloor>, wc_windowMs = \<lfloor>resolveIntegerOption windowMs 1 (Some 1) None\<rfloor>\<rparr>,
      \<lparr>ws_count = 0, ws_windowStartMs = 0\<rparr>)"

definition consumeWindow :: "window_config \<Rightarrow> int \<Rightarrow> window_state \<Rightarrow> budget_result \<times> window_state" where
  "consumeWindow cfg now s =
     (let s1 = (if now - ws_windowStartMs s \<ge> wc_windowMs cfg then \<lparr>ws_count = 0, ws_windowStartMs = now\<rparr> else s) in
      if ws_count s1 \<ge> wc_maxRequests cfg
      then (\<lparr>br_allowed = False, br_retryAfterMs = max 0 (ws_windowStartMs s1 + wc_windowMs cfg - now), br_remaining = 0\<rparr>, s1)
      else
        let s2 = s1\<lparr>ws_count := ws_count s1 + 1\<rparr> in
        (\<lparr>br_allowed = True, br_retryAfterMs = 0, br_remaining = max 0 (wc_maxRequests cfg - ws_count s2)\<rparr>, s2))"

definition resetWindow :: "window_state \<Rightarrow> window_state" where
  "resetWindow s = \<lparr>ws_count = 0, ws_windowStartMs = 0\<rparr>"

section \<open>The write budget of the control plane\<close>

definition CONTROL_PLANE_RATE_LIMIT_MAX_REQUESTS :: int where "CONTROL_PLANE_RATE_LIMIT_MAX_REQUESTS = 30"
definition CONTROL_PLANE_RATE_LIMIT_WINDOW_MS :: int where "CONTROL_PLANE_RATE_LIMIT_WINDOW_MS = 60000"
definition CONTROL_PLANE_BUCKET_MAX_STALE_MS :: int where "CONTROL_PLANE_BUCKET_MAX_STALE_MS = 5 * 60000"
definition CONTROL_PLANE_BUCKET_MAX_ENTRIES :: nat where "CONTROL_PLANE_BUCKET_MAX_ENTRIES = 10000"

definition normalizeControlPlaneIdentityPart :: "string option \<Rightarrow> string \<Rightarrow> string" where
  "normalizeControlPlaneIdentityPart value fallback =
     (case value of None \<Rightarrow> fallback | Some v \<Rightarrow> let n = js_trim v in if length n > 0 then n else fallback)"

record gateway_client =
  gc_deviceId :: "string option"
  gc_clientIp :: "string option"
  gc_connId :: "string option"

definition resolveControlPlaneRateLimitKey :: "gateway_client option \<Rightarrow> string" where
  "resolveControlPlaneRateLimitKey client =
     (let deviceId = normalizeControlPlaneIdentityPart (Option.bind client gc_deviceId) ''unknown-device'';
          clientIp = normalizeControlPlaneIdentityPart (Option.bind client gc_clientIp) ''unknown-ip'';
          connId = normalizeControlPlaneIdentityPart (Option.bind client gc_connId) [] in
      if deviceId = ''unknown-device'' \<and> clientIp = ''unknown-ip'' \<and> connId \<noteq> []
      then deviceId @ ''|'' @ clientIp @ ''|conn='' @ connId
      else deviceId @ ''|'' @ clientIp)"

type_synonym bucket_map = "(string \<times> window_state) list"

definition consumeControlPlaneWriteBudget :: "gateway_client option \<Rightarrow> string \<Rightarrow> int \<Rightarrow> bucket_map \<Rightarrow> (budget_result \<times> string) \<times> bucket_map" where
  "consumeControlPlaneWriteBudget client method now buckets =
     (let key = method @ ''|'' @ resolveControlPlaneRateLimitKey client in
      case map_of buckets key of
        Some b \<Rightarrow>
          if now - ws_windowStartMs b \<ge> CONTROL_PLANE_RATE_LIMIT_WINDOW_MS
          then ((\<lparr>br_allowed = True, br_retryAfterMs = 0, br_remaining = CONTROL_PLANE_RATE_LIMIT_MAX_REQUESTS - 1\<rparr>, key),
                AList.update key \<lparr>ws_count = 1, ws_windowStartMs = now\<rparr> buckets)
          else if ws_count b \<ge> CONTROL_PLANE_RATE_LIMIT_MAX_REQUESTS
          then ((\<lparr>br_allowed = False, br_retryAfterMs = max 0 (ws_windowStartMs b + CONTROL_PLANE_RATE_LIMIT_WINDOW_MS - now), br_remaining = 0\<rparr>, key),
                buckets)
          else ((\<lparr>br_allowed = True, br_retryAfterMs = 0, br_remaining = max 0 (CONTROL_PLANE_RATE_LIMIT_MAX_REQUESTS - (ws_count b + 1))\<rparr>, key),
                AList.update key (b\<lparr>ws_count := ws_count b + 1\<rparr>) buckets)
      | None \<Rightarrow>
          let kept = (if length buckets \<ge> CONTROL_PLANE_BUCKET_MAX_ENTRIES then pruneMapToMaxSize (CONTROL_PLANE_BUCKET_MAX_ENTRIES - 1) buckets
                      else buckets) in
          ((\<lparr>br_allowed = True, br_retryAfterMs = 0, br_remaining = CONTROL_PLANE_RATE_LIMIT_MAX_REQUESTS - 1\<rparr>, key),
           AList.update key \<lparr>ws_count = 1, ws_windowStartMs = now\<rparr> kept))"

definition pruneStaleControlPlaneBuckets :: "int \<Rightarrow> bucket_map \<Rightarrow> nat \<times> bucket_map" where
  "pruneStaleControlPlaneBuckets now buckets =
     (let stale = (\<lambda>(_, b). now - ws_windowStartMs b > CONTROL_PLANE_BUCKET_MAX_STALE_MS) in
      (length (filter stale buckets), filter (\<lambda>x. \<not> stale x) buckets))"

section \<open>Duplicates\<close>

record dedupe_config =
  dc_ttlMs :: int
  dc_maxSize :: nat

record dedupe_entry =
  de_recordedAt :: int
  de_ownerToken :: "nat option"

type_synonym dedupe_cache = "(string \<times> dedupe_entry) list"

definition createDedupeCache :: "jsval \<Rightarrow> jsval \<Rightarrow> dedupe_config \<times> dedupe_cache" where
  "createDedupeCache ttlMs maxSize =
     (\<lparr>dc_ttlMs = \<lfloor>resolveNonNegativeIntegerOption ttlMs 0\<rfloor>, dc_maxSize = nat \<lfloor>resolveNonNegativeIntegerOption maxSize 0\<rfloor>\<rparr>, [])"

definition recordKey :: "string \<Rightarrow> int \<Rightarrow> nat option \<Rightarrow> dedupe_cache \<Rightarrow> dedupe_cache" where
  "recordKey key recordedAt ownerToken cache =
     AList.delete key cache @ [(key, \<lparr>de_recordedAt = recordedAt, de_ownerToken = ownerToken\<rparr>)]"

definition touchKey :: "string \<Rightarrow> int \<Rightarrow> dedupe_cache \<Rightarrow> dedupe_cache" where
  "touchKey key now cache = recordKey key now (Option.bind (map_of cache key) de_ownerToken) cache"

definition pruneDedupe :: "dedupe_config \<Rightarrow> int \<Rightarrow> dedupe_cache \<Rightarrow> dedupe_cache" where
  "pruneDedupe cfg now cache =
     (let live = (if dc_ttlMs cfg > 0 then filter (\<lambda>(_, e). \<not> de_recordedAt e \<le> now - dc_ttlMs cfg) cache else cache) in
      if dc_maxSize cfg = 0 then [] else pruneMapToMaxSize (dc_maxSize cfg) live)"

definition hasUnexpired :: "dedupe_config \<Rightarrow> string \<Rightarrow> int \<Rightarrow> bool \<Rightarrow> dedupe_cache \<Rightarrow> bool \<times> dedupe_cache" where
  "hasUnexpired cfg key now touchOnRead cache =
     (case map_of cache key of
        None \<Rightarrow> (False, cache)
      | Some e \<Rightarrow>
          if dc_ttlMs cfg > 0 \<and> now - de_recordedAt e \<ge> dc_ttlMs cfg then (False, AList.delete key cache)
          else (True, if touchOnRead then touchKey key now cache else cache))"

definition checkDuplicate :: "dedupe_config \<Rightarrow> string option \<Rightarrow> int \<Rightarrow> nat option \<Rightarrow> dedupe_cache \<Rightarrow> bool \<times> dedupe_cache" where
  "checkDuplicate cfg key now ownerToken cache =
     (case key of
        None \<Rightarrow> (False, cache)
      | Some k \<Rightarrow>
          if k = [] then (False, cache)
          else (case hasUnexpired cfg k now True cache of
                  (True, cache1) \<Rightarrow> (True, cache1)
                | (False, cache1) \<Rightarrow> (False, pruneDedupe cfg now (recordKey k now ownerToken cache1))))"

definition peekDuplicate :: "dedupe_config \<Rightarrow> string option \<Rightarrow> int \<Rightarrow> dedupe_cache \<Rightarrow> bool \<times> dedupe_cache" where
  "peekDuplicate cfg key now cache =
     (case key of None \<Rightarrow> (False, cache) | Some k \<Rightarrow> if k = [] then (False, cache) else hasUnexpired cfg k now False cache)"

definition deleteDuplicate :: "string option \<Rightarrow> nat option \<Rightarrow> dedupe_cache \<Rightarrow> dedupe_cache" where
  "deleteDuplicate key ownerToken cache =
     (case key of
        None \<Rightarrow> cache
      | Some k \<Rightarrow>
          if k = [] then cache
          else if ownerToken \<noteq> None \<and> Option.bind (map_of cache k) de_ownerToken \<noteq> ownerToken then cache
          else AList.delete k cache)"

definition clearDuplicates :: "dedupe_cache \<Rightarrow> dedupe_cache" where "clearDuplicates cache = []"

section \<open>A fixed window admits at most two windows' worth in any window's time\<close>

fun allowedCount :: "window_config \<Rightarrow> int list \<Rightarrow> window_state \<Rightarrow> int" where
  "allowedCount cfg [] s = 0"
| "allowedCount cfg (t # ts) s =
     (let (r, s1) = consumeWindow cfg t s in (if br_allowed r then 1 else 0) + allowedCount cfg ts s1)"

definition window_ok :: "window_config \<Rightarrow> window_state \<Rightarrow> bool" where
  "window_ok cfg s \<longleftrightarrow> 0 \<le> ws_count s \<and> ws_count s \<le> wc_maxRequests cfg"

lemma consume_ok: "window_ok cfg s \<Longrightarrow> 1 \<le> wc_maxRequests cfg \<Longrightarrow> window_ok cfg (snd (consumeWindow cfg t s))"
  by (auto simp: window_ok_def consumeWindow_def Let_def)

lemma allowed_within_window:
  assumes "window_ok cfg s" "1 \<le> wc_maxRequests cfg" "\<forall>t \<in> set ts. t < ws_windowStartMs s + wc_windowMs cfg"
  shows "allowedCount cfg ts s \<le> wc_maxRequests cfg - ws_count s"
  using assms
proof (induction ts arbitrary: s)
  case (Cons t ts)
  show ?case
  proof (cases "ws_count s \<ge> wc_maxRequests cfg")
    case True
    then have "consumeWindow cfg t s = (\<lparr>br_allowed = False, br_retryAfterMs = max 0 (ws_windowStartMs s + wc_windowMs cfg - t), br_remaining = 0\<rparr>, s)"
      using Cons.prems(3) by (simp add: consumeWindow_def Let_def)
    then show ?thesis using Cons.IH [of s] Cons.prems by simp
  next
    case False
    let ?s = "s\<lparr>ws_count := ws_count s + 1\<rparr>"
    have "window_ok cfg ?s" using Cons.prems(1) False by (simp add: window_ok_def)
    then have "allowedCount cfg ts ?s \<le> wc_maxRequests cfg - (ws_count s + 1)" using Cons.IH [of ?s] Cons.prems by simp
    then show ?thesis using False Cons.prems(3) by (simp add: consumeWindow_def Let_def)
  qed
qed (simp add: window_ok_def)

lemma allowed_across_reset:
  assumes "window_ok cfg s" "1 \<le> wc_maxRequests cfg" "sorted ts" "\<forall>t \<in> set ts. t < b" "\<forall>t \<in> set ts. b \<le> t + wc_windowMs cfg"
  shows "allowedCount cfg ts s \<le> (wc_maxRequests cfg - ws_count s) + wc_maxRequests cfg"
  using assms
proof (induction ts arbitrary: s)
  case (Cons t ts)
  show ?case
  proof (cases "t - ws_windowStartMs s \<ge> wc_windowMs cfg")
    case True
    let ?s = "\<lparr>ws_count = 1, ws_windowStartMs = t\<rparr>"
    have c: "consumeWindow cfg t s = (\<lparr>br_allowed = True, br_retryAfterMs = 0, br_remaining = max 0 (wc_maxRequests cfg - 1)\<rparr>, ?s)"
      using True Cons.prems(2) by (simp add: consumeWindow_def Let_def)
    have "allowedCount cfg ts ?s \<le> wc_maxRequests cfg - 1"
      using allowed_within_window [of cfg ?s ts] Cons.prems by (fastforce simp: window_ok_def)
    then show ?thesis using c Cons.prems(1) by (simp add: window_ok_def)
  next
    case False
    show ?thesis
    proof (cases "ws_count s \<ge> wc_maxRequests cfg")
      case True
      then show ?thesis using False Cons by (simp add: consumeWindow_def Let_def)
    next
      case less: False
      let ?s = "s\<lparr>ws_count := ws_count s + 1\<rparr>"
      have "window_ok cfg ?s" using Cons.prems(1) less by (simp add: window_ok_def)
      then have "allowedCount cfg ts ?s \<le> (wc_maxRequests cfg - (ws_count s + 1)) + wc_maxRequests cfg"
        using Cons.IH [of ?s] Cons.prems by simp
      then show ?thesis using False less by (simp add: consumeWindow_def Let_def)
    qed
  qed
qed (simp add: window_ok_def)

lemma consume_run_ok:
  "window_ok cfg s \<Longrightarrow> 1 \<le> wc_maxRequests cfg \<Longrightarrow> window_ok cfg (fold (\<lambda>t s. snd (consumeWindow cfg t s)) ts s)"
  by (induction ts arbitrary: s) (auto simp: consume_ok)

text \<open>
  A fixed-window budget bounds bursts: for any limits it is created with and any earlier calls, the calls within one window's
  length admit at most twice the limit, and at most the limit when no window starts among them.
\<close>

theorem burst_bounded:
  assumes "sorted ts" and "\<forall>t \<in> set ts. a \<le> t \<and> t < a + wc_windowMs (fst (createFixedWindowBudget maxRequests windowMs))"
  shows "let cfg = fst (createFixedWindowBudget maxRequests windowMs);
             s = fold (\<lambda>t s. snd (consumeWindow cfg t s)) earlier (snd (createFixedWindowBudget maxRequests windowMs))
         in allowedCount cfg ts s \<le> 2 * wc_maxRequests cfg \<and>
            ((\<forall>t \<in> set ts. t < ws_windowStartMs s + wc_windowMs cfg) \<longrightarrow> allowedCount cfg ts s \<le> wc_maxRequests cfg)"
proof -
  define cfg where "cfg = fst (createFixedWindowBudget maxRequests windowMs)"
  have m: "1 \<le> wc_maxRequests cfg"
    by (simp add: cfg_def createFixedWindowBudget_def resolveIntegerOption_def Let_def le_floor_iff)
  define s where "s = fold (\<lambda>t s. snd (consumeWindow cfg t s)) earlier (snd (createFixedWindowBudget maxRequests windowMs))"
  have "window_ok cfg (snd (createFixedWindowBudget maxRequests windowMs))" using m by (simp add: window_ok_def createFixedWindowBudget_def)
  then have ok: "window_ok cfg s" unfolding s_def using m by (rule consume_run_ok)
  have "allowedCount cfg ts s \<le> (wc_maxRequests cfg - ws_count s) + wc_maxRequests cfg"
    by (rule allowed_across_reset [OF ok m assms(1), of "a + wc_windowMs cfg"]) (use assms(2) in \<open>auto simp: cfg_def\<close>)
  then show ?thesis
    using ok allowed_within_window [OF ok m, of ts] unfolding Let_def cfg_def [symmetric] s_def [symmetric] window_ok_def by auto
qed

theorem burst_bounded_witness:
  "allowedCount (fst (createFixedWindowBudget (JNum (Fin 2)) (JNum (Fin 100)))) [1000, 1001, 1060, 1099]
     (fold (\<lambda>t s. snd (consumeWindow (fst (createFixedWindowBudget (JNum (Fin 2)) (JNum (Fin 100)))) t s)) [950]
       (snd (createFixedWindowBudget (JNum (Fin 2)) (JNum (Fin 100))))) \<le> 4"
  using burst_bounded [of "[1000, 1001, 1060, 1099]" 1000 "JNum (Fin 2)" "JNum (Fin 100)" "[950]"]
  by (simp add: Let_def createFixedWindowBudget_def resolveIntegerOption_def)

section \<open>The write budget is bounded\<close>

text \<open>A client's writes in one window: none after the thirtieth is allowed, and the table of clients stays within its cap.\<close>

definition buckets_ok :: "bucket_map \<Rightarrow> bool" where
  "buckets_ok m \<longleftrightarrow> distinct (map fst m) \<and> length m \<le> CONTROL_PLANE_BUCKET_MAX_ENTRIES \<and>
     (\<forall>(k, b) \<in> set m. 1 \<le> ws_count b \<and> ws_count b \<le> CONTROL_PLANE_RATE_LIMIT_MAX_REQUESTS)"

lemma distinct_prune: "distinct (map fst m) \<Longrightarrow> distinct (map fst (pruneMapToMaxSize n m))"
  by (simp add: pruneMapToMaxSize_def drop_map [symmetric] distinct_drop)

lemma length_update_le: "length (AList.update k v m) \<le> Suc (length m)"
  by (induction m) auto

lemma length_update_known: "map_of m k = Some v' \<Longrightarrow> length (AList.update k v m) = length m"
  by (induction m) (auto split: if_splits)

lemma map_of_drop_distinct:
  assumes "distinct (map fst m)"
  shows "map_of (drop n m) k = map_of m k \<or> map_of (drop n m) k = None"
proof (cases "map_of (drop n m) k")
  case (Some v)
  then have "(k, v) \<in> set m" using in_set_dropD by (fastforce dest: map_of_SomeD)
  then show ?thesis using Some assms by simp
qed simp

lemma consume_buckets_ok:
  assumes "buckets_ok m"
  shows "buckets_ok (snd (consumeControlPlaneWriteBudget client method now m))"
proof -
  let ?k = "method @ ''|'' @ resolveControlPlaneRateLimitKey client"
  let ?kept = "if length m \<ge> CONTROL_PLANE_BUCKET_MAX_ENTRIES then pruneMapToMaxSize (CONTROL_PLANE_BUCKET_MAX_ENTRIES - 1) m else m"
  have d: "distinct (map fst m)" "length m \<le> CONTROL_PLANE_BUCKET_MAX_ENTRIES" using assms by (simp_all add: buckets_ok_def)
  have c: "1 \<le> ws_count b \<and> ws_count b \<le> CONTROL_PLANE_RATE_LIMIT_MAX_REQUESTS" if "(k, b) \<in> set m" for k b
    using assms that by (auto simp: buckets_ok_def)
  have kept: "distinct (map fst ?kept)" "length ?kept < CONTROL_PLANE_BUCKET_MAX_ENTRIES" "set ?kept \<subseteq> set m"
    using d set_prune [of _ m] length_prune [of "CONTROL_PLANE_BUCKET_MAX_ENTRIES - 1" m]
    by (auto simp: distinct_prune CONTROL_PLANE_BUCKET_MAX_ENTRIES_def)
  have upd: "buckets_ok (AList.update ?k v m')"
    if "distinct (map fst m')" "length (AList.update ?k v m') \<le> CONTROL_PLANE_BUCKET_MAX_ENTRIES" "set m' \<subseteq> set m"
      "1 \<le> ws_count v" "ws_count v \<le> CONTROL_PLANE_RATE_LIMIT_MAX_REQUESTS" for v m'
    using that c set_update_subset [of ?k v m'] by (fastforce simp: buckets_ok_def distinct_update)
  show ?thesis
  proof (cases "map_of m ?k")
    case None
    have "Suc (length ?kept) \<le> CONTROL_PLANE_BUCKET_MAX_ENTRIES" using kept(2) by (rule Suc_leI)
    then have "length (AList.update ?k \<lparr>ws_count = 1, ws_windowStartMs = now\<rparr> ?kept) \<le> CONTROL_PLANE_BUCKET_MAX_ENTRIES"
      by (rule le_trans [OF length_update_le])
    then have "buckets_ok (AList.update ?k \<lparr>ws_count = 1, ws_windowStartMs = now\<rparr> ?kept)"
      by (rule upd [OF kept(1) _ kept(3)]) (simp_all add: CONTROL_PLANE_RATE_LIMIT_MAX_REQUESTS_def)
    then show ?thesis using None by (simp add: consumeControlPlaneWriteBudget_def Let_def)
  next
    case (Some b)
    then have b: "(?k, b) \<in> set m" by (rule map_of_SomeD)
    have "buckets_ok (AList.update ?k v m)" if "1 \<le> ws_count v" "ws_count v \<le> CONTROL_PLANE_RATE_LIMIT_MAX_REQUESTS" for v
      using that d length_update_known [OF Some] by (intro upd) simp_all
    then show ?thesis using Some c [OF b] assms
      by (simp add: consumeControlPlaneWriteBudget_def Let_def CONTROL_PLANE_RATE_LIMIT_MAX_REQUESTS_def)
  qed
qed

text \<open>
  C31. The write budget of the control plane is the fixed-window budget, one per client and method: the answer and the bucket kept
  are those of a window of the budget's limits, and no other client's bucket changes, except that a full table drops some for a
  new client.
\<close>

theorem write_budget_is_fixed_window:
  assumes "distinct (map fst buckets)"
  shows "let key = method @ ''|'' @ resolveControlPlaneRateLimitKey client;
             w = (case map_of buckets key of Some b \<Rightarrow> b | None \<Rightarrow> \<lparr>ws_count = 0, ws_windowStartMs = now\<rparr>);
             (r, w') = consumeWindow \<lparr>wc_maxRequests = CONTROL_PLANE_RATE_LIMIT_MAX_REQUESTS, wc_windowMs = CONTROL_PLANE_RATE_LIMIT_WINDOW_MS\<rparr> now w;
             (answer, buckets') = consumeControlPlaneWriteBudget client method now buckets
         in answer = (r, key) \<and> map_of buckets' key = Some w' \<and>
            (\<forall>k. k \<noteq> key \<longrightarrow> map_of buckets' k = map_of buckets k \<or>
              map_of buckets' k = None \<and> map_of buckets key = None \<and> CONTROL_PLANE_BUCKET_MAX_ENTRIES \<le> length buckets)"
proof -
  define key where "key = method @ ''|'' @ resolveControlPlaneRateLimitKey client"
  have other: "map_of (drop n buckets) k = map_of buckets k \<or> map_of (drop n buckets) k = None" for n k
    by (rule map_of_drop_distinct [OF assms])
  show ?thesis
    unfolding key_def [symmetric] consumeControlPlaneWriteBudget_def consumeWindow_def Let_def
    using other
    by (cases "map_of buckets key")
      (auto simp: update_conv' pruneMapToMaxSize_def CONTROL_PLANE_RATE_LIMIT_MAX_REQUESTS_def CONTROL_PLANE_RATE_LIMIT_WINDOW_MS_def)
qed

lemma write_budget_example:
  "resolveControlPlaneRateLimitKey (Some \<lparr>gc_deviceId = Some ''dev'', gc_clientIp = Some ''ip'', gc_connId = None\<rparr>) = ''dev|ip''"
  "consumeWindow \<lparr>wc_maxRequests = CONTROL_PLANE_RATE_LIMIT_MAX_REQUESTS, wc_windowMs = CONTROL_PLANE_RATE_LIMIT_WINDOW_MS\<rparr> 105
     \<lparr>ws_count = 30, ws_windowStartMs = 5\<rparr> =
   (\<lparr>br_allowed = False, br_retryAfterMs = 59900, br_remaining = 0\<rparr>, \<lparr>ws_count = 30, ws_windowStartMs = 5\<rparr>)"
  by code_simp+

theorem write_budget_is_fixed_window_witness:
  "fst (consumeControlPlaneWriteBudget (Some \<lparr>gc_deviceId = Some ''dev'', gc_clientIp = Some ''ip'', gc_connId = None\<rparr>) ''patch'' 105
     [(''patch|dev|ip'', \<lparr>ws_count = 30, ws_windowStartMs = 5\<rparr>)]) =
   (\<lparr>br_allowed = False, br_retryAfterMs = 59900, br_remaining = 0\<rparr>, ''patch|dev|ip'')"
  using write_budget_is_fixed_window [of "[(''patch|dev|ip'', \<lparr>ws_count = 30, ws_windowStartMs = 5\<rparr>)]" "''patch''"
      "Some \<lparr>gc_deviceId = Some ''dev'', gc_clientIp = Some ''ip'', gc_connId = None\<rparr>" 105]
  by (simp only: write_budget_example Let_def append.simps map_of.simps fst_conv snd_conv fun_upd_same option.case prod.case case_prod_unfold
      list.map distinct.simps list.set empty_iff simp_thms)

section \<open>Duplicates are remembered\<close>

lemma delete_absent: "k \<notin> fst ` set m \<Longrightarrow> AList.delete k m = m"
  by (induction m) auto

lemma delete_append: "AList.delete k (xs @ ys) = AList.delete k xs @ AList.delete k ys"
  by (simp add: AList.delete_eq)

text \<open>The key stands in the cache with fewer than \<open>maxSize\<close> other keys behind it.\<close>

definition remembered :: "dedupe_config \<Rightarrow> string \<Rightarrow> int \<Rightarrow> string set \<Rightarrow> dedupe_cache \<Rightarrow> bool" where
  "remembered cfg k t0 others cache \<longleftrightarrow>
     (\<exists>xs ys e. cache = xs @ (k, e) # ys \<and> de_recordedAt e = t0 \<and> distinct (map fst cache) \<and> fst ` set ys \<subseteq> others)"

lemma remembered_lookup: "remembered cfg k t0 others cache \<Longrightarrow> \<exists>e. map_of cache k = Some e \<and> de_recordedAt e = t0"
proof -
  assume "remembered cfg k t0 others cache"
  then obtain xs ys e where c: "cache = xs @ (k, e) # ys" "de_recordedAt e = t0" "distinct (map fst cache)" by (auto simp: remembered_def)
  then have "map_of cache k = Some e" using mem_map_of [of cache k e] by simp
  with c show ?thesis by blast
qed

lemma remembered_duplicate:
  assumes "remembered cfg k t0 others cache" "k \<noteq> []" "dc_ttlMs cfg > 0 \<longrightarrow> now < t0 + dc_ttlMs cfg"
  shows "fst (checkDuplicate cfg (Some k) now o' cache)"
proof -
  obtain e where e: "map_of cache k = Some e" "de_recordedAt e = t0" using remembered_lookup [OF assms(1)] by blast
  then have "hasUnexpired cfg k now True cache = (True, touchKey k now cache)" using assms(3) by (auto simp: hasUnexpired_def)
  then show ?thesis using assms(2) by (simp add: checkDuplicate_def)
qed

lemma remembered_delete:
  assumes "remembered cfg k t0 others cache" "k' \<noteq> k"
  shows "remembered cfg k t0 (others - {k'}) (AList.delete k' cache)"
proof -
  obtain xs ys e where c: "cache = xs @ (k, e) # ys" "de_recordedAt e = t0" "distinct (map fst cache)" "fst ` set ys \<subseteq> others"
    using assms(1) by (auto simp: remembered_def)
  have "AList.delete k' cache = AList.delete k' xs @ (k, e) # AList.delete k' ys" using assms(2) by (simp add: c(1) delete_append)
  moreover have "distinct (map fst (AList.delete k' cache))" by (rule distinct_delete [OF c(3)])
  moreover have "fst ` set (AList.delete k' ys) \<subseteq> others - {k'}" using c(4) by (auto simp: AList.delete_eq)
  ultimately show ?thesis using c(2) unfolding remembered_def by blast
qed

lemma remembered_record:
  assumes "remembered cfg k t0 others cache" "k' \<noteq> k" "k' \<in> others"
  shows "remembered cfg k t0 others (recordKey k' t o' cache)"
proof -
  obtain xs ys e where c: "AList.delete k' cache = xs @ (k, e) # ys" "de_recordedAt e = t0" "distinct (map fst (AList.delete k' cache))"
    "fst ` set ys \<subseteq> others - {k'}"
    using remembered_delete [OF assms(1,2)] by (auto simp: remembered_def)
  let ?ys = "ys @ [(k', \<lparr>de_recordedAt = t, de_ownerToken = o'\<rparr>)]"
  have "recordKey k' t o' cache = xs @ (k, e) # ?ys" by (simp add: recordKey_def c(1))
  moreover have "k' \<notin> fst ` set (AList.delete k' cache)" by (auto simp: AList.delete_eq)
  then have "distinct (map fst (recordKey k' t o' cache))" using c(3) by (simp add: recordKey_def)
  moreover have "fst ` set ?ys \<subseteq> others" using c(4) assms(3) by auto
  ultimately show ?thesis using c(2) unfolding remembered_def by blast
qed

lemma remembered_prune:
  assumes "remembered cfg k t0 others cache" "finite others" "card others < dc_maxSize cfg" "dc_ttlMs cfg > 0 \<Longrightarrow> now < t0 + dc_ttlMs cfg"
  shows "remembered cfg k t0 others (pruneDedupe cfg now cache)"
proof -
  obtain xs ys e where c: "cache = xs @ (k, e) # ys" "de_recordedAt e = t0" "distinct (map fst cache)" "fst ` set ys \<subseteq> others"
    using assms(1) by (auto simp: remembered_def)
  define live where "live l = (if dc_ttlMs cfg > 0 then filter (\<lambda>(_, e). \<not> de_recordedAt e \<le> now - dc_ttlMs cfg) l else l)"
    for l :: dedupe_cache
  have l: "live cache = live xs @ (k, e) # live ys" using assms(4) c(2) by (auto simp: c(1) live_def)
  have dk: "distinct (map fst (live cache))" using c(3) by (simp add: distinct_map_filter live_def)
  have ys: "fst ` set (live ys) \<subseteq> others" using c(4) by (auto simp: live_def)
  have "distinct (map fst (live ys))" using dk unfolding l by simp
  then have "length (live ys) = card (fst ` set (live ys))" by (metis distinct_card length_map set_map)
  also have "\<dots> \<le> card others" by (rule card_mono [OF assms(2) ys])
  finally have n: "Suc (length (live ys)) \<le> dc_maxSize cfg" using assms(3) by simp
  define d where "d = length (live cache) - dc_maxSize cfg"
  have "pruneDedupe cfg now cache = pruneMapToMaxSize (dc_maxSize cfg) (live cache)"
    using assms(3) by (simp add: pruneDedupe_def Let_def live_def)
  then have p: "pruneDedupe cfg now cache = drop d (live cache)"
    using assms(3) by (simp add: d_def pruneMapToMaxSize_def)
  have "d \<le> length (live xs)" using n unfolding l d_def by simp
  then have "pruneDedupe cfg now cache = drop d (live xs) @ (k, e) # live ys" by (simp add: p l)
  moreover have "distinct (map fst (pruneDedupe cfg now cache))" unfolding p drop_map [symmetric] by (rule distinct_drop [OF dk])
  ultimately show ?thesis using c(2) ys unfolding remembered_def by blast
qed

lemma remembered_check:
  assumes "remembered cfg k t0 others cache" "finite others" "card others < dc_maxSize cfg" "dc_ttlMs cfg > 0 \<Longrightarrow> now < t0 + dc_ttlMs cfg"
    "k' \<noteq> k" "k' \<in> others"
  shows "remembered cfg k t0 others (snd (checkDuplicate cfg (Some k') now o' cache))"
proof -
  have sub: "remembered cfg k t0 (others - {k'}) c \<Longrightarrow> remembered cfg k t0 others c" for c
    unfolding remembered_def by blast
  have r: "remembered cfg k t0 others (recordKey k' now o'' c)" if "remembered cfg k t0 others c" for c o''
    using remembered_record [OF that assms(5,6)] .
  have h: "remembered cfg k t0 others (snd (hasUnexpired cfg k' now True cache))"
    using assms(1) sub [OF remembered_delete [OF assms(1,5)]] r [OF assms(1)]
    by (cases "map_of cache k'") (simp_all add: hasUnexpired_def touchKey_def)
  show ?thesis
  proof (cases "k' = []")
    case False
    obtain b c where bc: "hasUnexpired cfg k' now True cache = (b, c)" by (cases "hasUnexpired cfg k' now True cache")
    show ?thesis using h bc False remembered_prune [OF r [of c o'] assms(2-4)] by (cases b) (simp_all add: checkDuplicate_def)
  qed (use assms(1) in \<open>simp add: checkDuplicate_def\<close>)
qed

text \<open>
  C30. A replay is recognised: a key that was recorded as new is reported as a duplicate at any time before it expires, as long
  as fewer other keys than the cache holds were checked meanwhile.
\<close>

theorem replay_recognised:
  assumes "distinct (map fst cache)" and "k \<noteq> []" and "fst (checkDuplicate cfg (Some k) t0 owner cache) = False"
    and "\<forall>(k', t) \<in> set between. k' \<noteq> k \<and> (dc_ttlMs cfg > 0 \<longrightarrow> t < t0 + dc_ttlMs cfg)"
    and "card (fst ` set between) < dc_maxSize cfg" and "dc_ttlMs cfg > 0 \<longrightarrow> now < t0 + dc_ttlMs cfg"
  shows "fst (checkDuplicate cfg (Some k) now owner'
    (fold (\<lambda>(k', t) c. snd (checkDuplicate cfg (Some k') t None c)) between (snd (checkDuplicate cfg (Some k) t0 owner cache))))"
proof -
  let ?O = "fst ` set between" let ?c0 = "snd (hasUnexpired cfg k t0 True cache)"
  have f: "fst (hasUnexpired cfg k t0 True cache) = False"
    using assms(2,3) by (cases "hasUnexpired cfg k t0 True cache") (auto simp: checkDuplicate_def split: bool.splits)
  then have "distinct (map fst ?c0)"
    using assms(1) by (cases "map_of cache k") (simp_all add: hasUnexpired_def distinct_delete split: if_splits)
  then have d: "distinct (map fst (recordKey k t0 owner ?c0))" using delete_keys [of k ?c0] distinct_delete [of ?c0 k] by (simp add: recordKey_def)
  then have "remembered cfg k t0 ?O (recordKey k t0 owner ?c0)" unfolding remembered_def recordKey_def by fastforce
  from remembered_prune [OF this _ assms(5), of t0] have
    "dc_ttlMs cfg > 0 \<Longrightarrow> t0 < t0 + dc_ttlMs cfg \<Longrightarrow> remembered cfg k t0 ?O (pruneDedupe cfg t0 (recordKey k t0 owner ?c0))" by simp
  moreover have "snd (checkDuplicate cfg (Some k) t0 owner cache) = pruneDedupe cfg t0 (recordKey k t0 owner ?c0)"
    using f assms(2) by (cases "hasUnexpired cfg k t0 True cache") (simp add: checkDuplicate_def)
  ultimately have start: "remembered cfg k t0 ?O (snd (checkDuplicate cfg (Some k) t0 owner cache))"
    using remembered_prune [OF \<open>remembered cfg k t0 ?O (recordKey k t0 owner ?c0)\<close> _ assms(5), of t0] by auto
  have run: "remembered cfg k t0 ?O c \<Longrightarrow> set ops \<subseteq> set between \<Longrightarrow>
      remembered cfg k t0 ?O (fold (\<lambda>(k', t) c. snd (checkDuplicate cfg (Some k') t None c)) ops c)" for ops c
  proof (induction ops arbitrary: c)
    case (Cons x ops)
    obtain k' t where x: "x = (k', t)" by (cases x)
    then have m: "(k', t) \<in> set between" using Cons.prems(2) by simp
    then have "k' \<noteq> k" "dc_ttlMs cfg > 0 \<Longrightarrow> t < t0 + dc_ttlMs cfg" "k' \<in> ?O" using assms(4) by force+
    then have "remembered cfg k t0 ?O (snd (checkDuplicate cfg (Some k') t None c))"
      using Cons.prems(1) assms(5) by (intro remembered_check) auto
    then show ?case using Cons.IH Cons.prems(2) x by simp
  qed simp
  show ?thesis by (rule remembered_duplicate [OF run [OF start subset_refl] assms(2,6)])
qed

theorem replay_recognised_witness:
  "fst (checkDuplicate \<lparr>dc_ttlMs = 100, dc_maxSize = 2\<rparr> (Some ''a'') 60 None
    (fold (\<lambda>(k', t) c. snd (checkDuplicate \<lparr>dc_ttlMs = 100, dc_maxSize = 2\<rparr> (Some k') t None c)) [(''b'', 20), (''b'', 30)]
      (snd (checkDuplicate \<lparr>dc_ttlMs = 100, dc_maxSize = 2\<rparr> (Some ''a'') 10 None [(''x'', \<lparr>de_recordedAt = 1, de_ownerToken = None\<rparr>)]))))"
  by (rule replay_recognised) (simp_all add: checkDuplicate_def hasUnexpired_def)

end
