(* ===== verification/BoardLayout.thy ===== *)
theory BoardLayout
  imports Prelude
begin

text \<open>
  Dashboards: the tabs and widgets of a session and the operations that arrange them (\<open>src/boards/board-layout.ts\<close>, data in
  \<open>packages/gateway-protocol/src/schema/board.ts\<close>). Positions, sizes and revisions are integers by their schema. A tab or widget
  object that the code finds and then changes is its index in the array; cloning a value is rebuilding it. The text of an error is left out; widget props are their JSON text.
\<close>

section \<open>Data\<close>

datatype chat_dock = DockLeft | DockRight | DockBottom | DockHidden
datatype widget_content = HtmlContent | McpAppContent | PluginContent
datatype content_owner = HtmlOwner | McpAppOwner | PluginOwner | RegisteredOwner
datatype widget_presentation = Card | FullBleed | Frameless
datatype height_mode = AutoHeight | FixedHeight
datatype grant_state = GrantNone | GrantPending | Granted | GrantRejected

record board_tab =
  bt_tabId :: string
  bt_title :: string
  bt_position :: int
  bt_chatDock :: chat_dock

record widget_declared =
  wd_netOrigins :: "string list option"
  wd_tools :: "string list option"

record board_widget =
  bw_name :: string
  bw_tabId :: string
  bw_title :: "string option"
  bw_contentKind :: widget_content
  bw_contentOwner :: "content_owner option"
  bw_registeredContentKind :: "string option"
  bw_pluginKind :: "string option"
  bw_props :: "string option"
  bw_presentation :: "widget_presentation option"
  bw_heightMode :: "height_mode option"
  bw_sizeW :: int
  bw_sizeH :: int
  bw_position :: int
  bw_grantState :: grant_state
  bw_revision :: int
  bw_instanceId :: "string option"
  bw_declaredSummary :: "string list option"
  bw_declared :: "widget_declared option"

record board_layout =
  bl_tabs :: "board_tab list"
  bl_widgets :: "board_widget list"

datatype board_error = BoardConflict | BoardInvalidOperation | BoardNotFound

datatype board_op =
    TabCreate string string "chat_dock option"
  | TabUpdate string "string option" "chat_dock option" "int option"
  | TabDelete string
  | TabsReorder "string list"
  | WidgetMove string "string option" "int option" "string option"
  | WidgetResize string int int "height_mode option"
  | WidgetRemove string

datatype board_size = SizeSm | SizeMd | SizeLg | SizeXl | SizeFull

fun BOARD_SIZE_PRESETS :: "board_size \<Rightarrow> int \<times> int" where
  "BOARD_SIZE_PRESETS SizeSm = (3, 3)"
| "BOARD_SIZE_PRESETS SizeMd = (6, 4)"
| "BOARD_SIZE_PRESETS SizeLg = (8, 6)"
| "BOARD_SIZE_PRESETS SizeXl = (12, 8)"
| "BOARD_SIZE_PRESETS SizeFull = (12, 8)"

definition MAX_POSITION :: int where "MAX_POSITION = 2 ^ 53 - 1"

section \<open>Normal form\<close>

definition clampInteger :: "int \<Rightarrow> int \<Rightarrow> int \<Rightarrow> int" where
  "clampInteger value lo hi = min hi (max lo value)"

definition compareTab :: "board_tab \<Rightarrow> board_tab \<Rightarrow> int" where "compareTab a b = bt_position a - bt_position b"
definition compareWidget :: "board_widget \<Rightarrow> board_widget \<Rightarrow> int" where "compareWidget a b = bw_position a - bw_position b"

text \<open>\<open>forEach((candidate, index) => { candidate.position = index })\<close>.\<close>

definition renumberTabs :: "board_tab list \<Rightarrow> board_tab list" where
  "renumberTabs ts = map (\<lambda>(i, t). t\<lparr>bt_position := int i\<rparr>) (enumerate 0 ts)"

definition renumberWidgets :: "board_widget list \<Rightarrow> board_widget list" where
  "renumberWidgets ws = map (\<lambda>(i, w). w\<lparr>bw_position := int i\<rparr>) (enumerate 0 ws)"

text \<open>\<open>tabPosition.get(id) ?? Number.MAX_SAFE_INTEGER\<close>; a later entry of the Map replaces an earlier one.\<close>

definition tabPosition :: "board_tab list \<Rightarrow> string \<Rightarrow> int" where
  "tabPosition ts tabId = (case map_of (rev (map (\<lambda>t. (bt_tabId t, bt_position t)) ts)) tabId of Some p \<Rightarrow> p | None \<Rightarrow> MAX_POSITION)"

definition compareByTab :: "board_tab list \<Rightarrow> board_widget \<Rightarrow> board_widget \<Rightarrow> int" where
  "compareByTab ts a b = cmp_then (tabPosition ts (bw_tabId a) - tabPosition ts (bw_tabId b)) (compareWidget a b)"

text \<open>The loop over the sorted widgets with the counters \<open>nextPosition\<close>, one per tab.\<close>

fun assignPositions :: "(string \<Rightarrow> int) \<Rightarrow> board_widget list \<Rightarrow> board_widget list" where
  "assignPositions next_pos [] = []"
| "assignPositions next_pos (w # ws) =
     w\<lparr>bw_position := next_pos (bw_tabId w)\<rparr> # assignPositions (next_pos(bw_tabId w := next_pos (bw_tabId w) + 1)) ws"

definition normalizeBoardLayout :: "board_layout \<Rightarrow> board_layout" where
  "normalizeBoardLayout layout =
     (let tabs = renumberTabs (sort_by compareTab (bl_tabs layout)) in
      \<lparr>bl_tabs = tabs, bl_widgets = assignPositions (\<lambda>_. 0) (sort_by (compareByTab tabs) (bl_widgets layout))\<rparr>)"

section \<open>Operations\<close>

definition requireTab :: "board_layout \<Rightarrow> string \<Rightarrow> board_error + nat" where
  "requireTab layout tabId =
     (case findIndex (\<lambda>t. bt_tabId t = tabId) (bl_tabs layout) of None \<Rightarrow> Inl BoardNotFound | Some i \<Rightarrow> Inr i)"

definition requireWidget :: "board_layout \<Rightarrow> string \<Rightarrow> board_error + nat" where
  "requireWidget layout name =
     (case findIndex (\<lambda>w. bw_name w = name) (bl_widgets layout) of None \<Rightarrow> Inl BoardNotFound | Some i \<Rightarrow> Inr i)"

definition moveTab :: "nat \<Rightarrow> int \<Rightarrow> board_layout \<Rightarrow> board_layout" where
  "moveTab i position layout =
     (let ordered = map snd (filter (\<lambda>(j, _). j \<noteq> i) (sort_by (\<lambda>(_, a) (_, b). compareTab a b) (enumerate 0 (bl_tabs layout)))) in
      layout\<lparr>bl_tabs := renumberTabs (spliceAt (nat (clampInteger position 0 (int (length ordered)))) (bl_tabs layout ! i) ordered)\<rparr>)"

definition moveWidget :: "nat \<Rightarrow> string \<Rightarrow> int option \<Rightarrow> string option \<Rightarrow> board_layout \<Rightarrow> board_error + board_layout" where
  "moveWidget i targetTabId position after layout =
     (case requireTab layout targetTabId of
        Inl e \<Rightarrow> Inl e
      | Inr _ \<Rightarrow>
          if position \<noteq> None \<and> after \<noteq> None then Inl BoardInvalidOperation
          else
            let widget = bl_widgets layout ! i;
                targetWidgets = sort_by compareWidget (filter (\<lambda>w. bw_tabId w = targetTabId) (leaveOut i (bl_widgets layout)));
                targetPosition =
                  (case after of
                     Some a \<Rightarrow>
                       if a = bw_name widget then Inl BoardInvalidOperation
                       else (case findIndex (\<lambda>w. bw_name w = a) targetWidgets of None \<Rightarrow> Inl BoardNotFound | Some k \<Rightarrow> Inr (k + 1))
                   | None \<Rightarrow>
                       (case position of
                          Some p \<Rightarrow> Inr (nat (clampInteger p 0 (int (length targetWidgets))))
                        | None \<Rightarrow> Inr (length targetWidgets)))
            in case targetPosition of
                 Inl e \<Rightarrow> Inl e
               | Inr k \<Rightarrow>
                   Inr (layout\<lparr>bl_widgets :=
                     filter (\<lambda>w. bw_tabId w \<noteq> targetTabId) (leaveOut i (bl_widgets layout)) @
                     renumberWidgets (spliceAt k (widget\<lparr>bw_tabId := targetTabId\<rparr>) targetWidgets)\<rparr>))"

definition createTab :: "string \<Rightarrow> string \<Rightarrow> chat_dock option \<Rightarrow> board_layout \<Rightarrow> board_error + board_layout" where
  "createTab tabId title chatDock layout =
     (if \<exists>t \<in> set (bl_tabs layout). bt_tabId t = tabId then Inl BoardConflict
      else Inr (layout\<lparr>bl_tabs := bl_tabs layout @
        [\<lparr>bt_tabId = tabId, bt_title = title, bt_position = int (length (bl_tabs layout)),
          bt_chatDock = (case chatDock of Some d \<Rightarrow> d | None \<Rightarrow> DockRight)\<rparr>]\<rparr>))"

definition updateTab :: "string \<Rightarrow> string option \<Rightarrow> chat_dock option \<Rightarrow> int option \<Rightarrow> board_layout \<Rightarrow> board_error + board_layout" where
  "updateTab tabId title chatDock position layout =
     (case requireTab layout tabId of
        Inl e \<Rightarrow> Inl e
      | Inr i \<Rightarrow>
          if title = None \<and> chatDock = None \<and> position = None then Inl BoardInvalidOperation
          else
            let tab = bl_tabs layout ! i;
                tab1 = (case title of Some s \<Rightarrow> tab\<lparr>bt_title := s\<rparr> | None \<Rightarrow> tab);
                tab2 = (case chatDock of Some d \<Rightarrow> tab1\<lparr>bt_chatDock := d\<rparr> | None \<Rightarrow> tab1);
                changed = layout\<lparr>bl_tabs := (bl_tabs layout)[i := tab2]\<rparr>
            in Inr (case position of Some p \<Rightarrow> moveTab i p changed | None \<Rightarrow> changed))"

definition deleteTab :: "string \<Rightarrow> board_layout \<Rightarrow> board_error + board_layout" where
  "deleteTab tabId layout =
     (case requireTab layout tabId of
        Inl e \<Rightarrow> Inl e
      | Inr i \<Rightarrow>
          let tab = bl_tabs layout ! i;
              remainingTabs = sort_by compareTab (leaveOut i (bl_tabs layout));
              onTab = (\<lambda>w. bw_tabId w = bt_tabId tab)
          in case remainingTabs of
               [] \<Rightarrow> if \<exists>w \<in> set (bl_widgets layout). onTab w then Inl BoardInvalidOperation else Inr (layout\<lparr>bl_tabs := []\<rparr>)
             | fallback # _ \<Rightarrow>
                 Inr (layout\<lparr>bl_tabs := remainingTabs,
                   bl_widgets := map (\<lambda>w. if onTab w then w\<lparr>bw_tabId := bt_tabId fallback, bw_position := MAX_POSITION\<rparr> else w) (bl_widgets layout)\<rparr>))"

definition reorderTabs :: "string list \<Rightarrow> board_layout \<Rightarrow> board_error + board_layout" where
  "reorderTabs tabIds layout =
     (if length tabIds \<noteq> length (bl_tabs layout) \<or> length (uniqueValues tabIds) \<noteq> length tabIds \<or>
         (\<exists>tabId \<in> set tabIds. \<not> (\<exists>t \<in> set (bl_tabs layout). bt_tabId t = tabId))
      then Inl BoardInvalidOperation
      else
        let byId = map_of (rev (map (\<lambda>t. (bt_tabId t, t)) (bl_tabs layout))) in
        Inr (layout\<lparr>bl_tabs := renumberTabs (List.map_filter byId tabIds)\<rparr>))"

definition resizeWidget :: "string \<Rightarrow> int \<Rightarrow> int \<Rightarrow> height_mode option \<Rightarrow> board_layout \<Rightarrow> board_error + board_layout" where
  "resizeWidget name sizeW sizeH heightMode layout =
     (case requireWidget layout name of
        Inl e \<Rightarrow> Inl e
      | Inr i \<Rightarrow>
          Inr (layout\<lparr>bl_widgets := (bl_widgets layout)[i := (bl_widgets layout ! i)
            \<lparr>bw_sizeW := clampInteger sizeW 1 12, bw_sizeH := clampInteger sizeH 1 20,
             bw_heightMode := Some (case heightMode of Some m \<Rightarrow> m | None \<Rightarrow> FixedHeight)\<rparr>]\<rparr>))"

definition removeWidget :: "string \<Rightarrow> board_layout \<Rightarrow> board_error + board_layout" where
  "removeWidget name layout =
     (case requireWidget layout name of
        Inl e \<Rightarrow> Inl e
      | Inr _ \<Rightarrow> Inr (layout\<lparr>bl_widgets := filter (\<lambda>w. bw_name w \<noteq> name) (bl_widgets layout)\<rparr>))"

fun applyBoardOp :: "board_op \<Rightarrow> board_layout \<Rightarrow> board_error + board_layout" where
  "applyBoardOp (TabCreate tabId title chatDock) layout = createTab tabId title chatDock layout"
| "applyBoardOp (TabUpdate tabId title chatDock position) layout = updateTab tabId title chatDock position layout"
| "applyBoardOp (TabDelete tabId) layout = deleteTab tabId layout"
| "applyBoardOp (TabsReorder tabIds) layout = reorderTabs tabIds layout"
| "applyBoardOp (WidgetMove name tabId position after) layout =
     (case requireWidget layout name of
        Inl e \<Rightarrow> Inl e
      | Inr i \<Rightarrow> moveWidget i (case tabId of Some t \<Rightarrow> t | None \<Rightarrow> bw_tabId (bl_widgets layout ! i)) position after layout)"
| "applyBoardOp (WidgetResize name sizeW sizeH heightMode) layout = resizeWidget name sizeW sizeH heightMode layout"
| "applyBoardOp (WidgetRemove name) layout = removeWidget name layout"

text \<open>The loop of \<open>applyBoardOps\<close>; an exception ends it and the clone is dropped.\<close>

fun applyEach :: "board_op list \<Rightarrow> board_layout \<Rightarrow> board_error + board_layout" where
  "applyEach [] layout = Inr layout"
| "applyEach (op # ops) layout =
     (case applyBoardOp op layout of Inl e \<Rightarrow> Inl e | Inr changed \<Rightarrow> applyEach ops (normalizeBoardLayout changed))"

definition applyBoardOps :: "board_layout \<Rightarrow> board_op list \<Rightarrow> board_error + board_layout" where
  "applyBoardOps layout ops = map_sum id normalizeBoardLayout (applyEach ops layout)"

text \<open>\<open>Object.assign(existing, widget)\<close>: a field the new widget does not have keeps the old value.\<close>

definition keepOld :: "'a option \<Rightarrow> 'a option \<Rightarrow> 'a option" where
  "keepOld new old = (case new of None \<Rightarrow> old | Some v \<Rightarrow> Some v)"

definition assignWidget :: "board_widget \<Rightarrow> board_widget \<Rightarrow> board_widget" where
  "assignWidget old w =
     w\<lparr>bw_title := keepOld (bw_title w) (bw_title old), bw_contentOwner := keepOld (bw_contentOwner w) (bw_contentOwner old),
       bw_registeredContentKind := keepOld (bw_registeredContentKind w) (bw_registeredContentKind old),
       bw_pluginKind := keepOld (bw_pluginKind w) (bw_pluginKind old), bw_props := keepOld (bw_props w) (bw_props old),
       bw_presentation := keepOld (bw_presentation w) (bw_presentation old), bw_heightMode := keepOld (bw_heightMode w) (bw_heightMode old),
       bw_instanceId := keepOld (bw_instanceId w) (bw_instanceId old),
       bw_declaredSummary := keepOld (bw_declaredSummary w) (bw_declaredSummary old), bw_declared := keepOld (bw_declared w) (bw_declared old)\<rparr>"

record widget_placement =
  wp_tabId :: string
  wp_after :: "string option"
  wp_move :: bool

definition insertBoardWidget :: "board_layout \<Rightarrow> board_widget \<Rightarrow> widget_placement \<Rightarrow> board_error + board_layout" where
  "insertBoardWidget layout widget placement =
     map_sum id normalizeBoardLayout
      (case findIndex (\<lambda>w. bw_name w = bw_name widget) (bl_widgets layout) of
         Some i \<Rightarrow>
           let existing = bl_widgets layout ! i;
               replaced = layout\<lparr>bl_widgets := (bl_widgets layout)[i := (assignWidget existing widget)\<lparr>bw_tabId := wp_tabId placement, bw_position := bw_position existing\<rparr>]\<rparr>
           in if wp_move placement then moveWidget i (wp_tabId placement) None (wp_after placement) replaced else Inr replaced
       | None \<Rightarrow>
           let pushed = layout\<lparr>bl_widgets := bl_widgets layout @ [widget\<lparr>bw_tabId := wp_tabId placement\<rparr>]\<rparr>
           in (case requireWidget pushed (bw_name widget) of
                 Inl e \<Rightarrow> Inl e
               | Inr i \<Rightarrow> moveWidget i (wp_tabId placement) None (wp_after placement) pushed))"


section \<open>The order of tabs and widgets\<close>

interpretation tab_order: comparator compareTab
  using comparator_key [of bt_position] by (simp add: compareTab_def [abs_def])

interpretation widget_order: comparator compareWidget
  using comparator_key [of bw_position] by (simp add: compareWidget_def [abs_def])

interpretation grid_order: comparator "compareByTab ts" for ts
  using comparator_keys [of "\<lambda>w. tabPosition ts (bw_tabId w)" bw_position]
  by (simp add: compareByTab_def [abs_def] compareWidget_def [abs_def])

text \<open>A list whose positions count up is in order.\<close>

lemma counting_sorted:
  assumes "map g xs = map int [m..<n]"
  shows "sorted_wrt (\<lambda>x y. g x \<le> g y) xs"
proof -
  have "sorted_wrt (\<lambda>i j. int i \<le> int j) [m..<n]" by (rule sorted_wrt_mono_rel [OF _ sorted_wrt_upt]) simp
  then have "sorted_wrt (\<le>) (map g xs)" by (simp add: assms sorted_wrt_map)
  then show ?thesis by (simp add: sorted_wrt_map)
qed

lemma tabs_in_order: "map bt_position ts = map int [0..<n] \<Longrightarrow> sort_by compareTab ts = ts"
  by (rule sort_by_sorted) (use counting_sorted [of bt_position] in \<open>simp add: compareTab_def\<close>)

lemma widgets_in_order: "map bw_position ws = map int [0..<n] \<Longrightarrow> sort_by compareWidget ws = ws"
  by (rule sort_by_sorted) (use counting_sorted [of bw_position] in \<open>simp add: compareWidget_def\<close>)

lemma enumerate_positions:
  assumes "\<And>x p. g (upd p x) = int p"
  shows "map g (map (\<lambda>(i, x). upd i x) (enumerate n xs)) = map int [n..<n + length xs]"
proof (induction xs arbitrary: n)
  case (Cons x xs)
  have "[n..<n + length (x # xs)] = n # [Suc n..<Suc n + length xs]" by (subst upt_conv_Cons) (simp_all del: upt_Suc)
  then show ?case using Cons.IH [of "Suc n"] assms by (simp del: map_map)
qed simp

lemma enumerate_keeps:
  assumes "\<And>x p. f (upd p x) = f x"
  shows "map f (map (\<lambda>(i, x). upd i x) (enumerate n xs)) = map f xs"
  by (induction xs arbitrary: n) (simp_all add: assms)

lemma renumberTabs_positions: "map bt_position (renumberTabs ts) = map int [0..<length ts]"
  using enumerate_positions [of bt_position "\<lambda>i t. t\<lparr>bt_position := int i\<rparr>" 0 ts] by (simp add: renumberTabs_def)

lemma renumberTabs_keeps: "(\<And>t p. f (t\<lparr>bt_position := p\<rparr>) = f t) \<Longrightarrow> map f (renumberTabs ts) = map f ts"
  using enumerate_keeps [of f "\<lambda>i t. t\<lparr>bt_position := int i\<rparr>" 0 ts] by (simp add: renumberTabs_def)

lemma renumberWidgets_positions: "map bw_position (renumberWidgets ws) = map int [0..<length ws]"
  using enumerate_positions [of bw_position "\<lambda>i w. w\<lparr>bw_position := int i\<rparr>" 0 ws] by (simp add: renumberWidgets_def)

lemma renumberWidgets_keeps: "(\<And>w p. f (w\<lparr>bw_position := p\<rparr>) = f w) \<Longrightarrow> map f (renumberWidgets ws) = map f ws"
  using enumerate_keeps [of f "\<lambda>i w. w\<lparr>bw_position := int i\<rparr>" 0 ws] by (simp add: renumberWidgets_def)

lemmas renumbered = renumberTabs_positions renumberTabs_keeps renumberWidgets_positions renumberWidgets_keeps
  tabs_in_order [OF renumberTabs_positions] widgets_in_order [OF renumberWidgets_positions]

lemma renumber_length [simp]: "length (renumberTabs ts) = length ts" "length (renumberWidgets ws) = length ws"
  by (simp_all add: renumberTabs_def renumberWidgets_def)

section \<open>What a user sees\<close>

text \<open>The tabs in order, each with the names of its widgets in order.\<close>

definition widgetsOn :: "string \<Rightarrow> board_layout \<Rightarrow> board_widget list" where
  "widgetsOn tabId layout = sort_by compareWidget (filter (\<lambda>w. bw_tabId w = tabId) (bl_widgets layout))"

type_synonym board_view = "(string \<times> string list) list"

definition boardView :: "board_layout \<Rightarrow> board_view" where
  "boardView layout = map (\<lambda>t. (bt_tabId t, map bw_name (widgetsOn (bt_tabId t) layout))) (sort_by compareTab (bl_tabs layout))"

definition board_ok :: "board_layout \<Rightarrow> bool" where
  "board_ok layout \<longleftrightarrow> distinct (map bt_tabId (bl_tabs layout)) \<and> distinct (map bw_name (bl_widgets layout)) \<and>
     (\<forall>w \<in> set (bl_widgets layout). bw_tabId w \<in> bt_tabId ` set (bl_tabs layout)) \<and> int (length (bl_widgets layout)) \<le> MAX_POSITION"

text \<open>Positions count from 0 along the tabs, and along the widgets of each tab; the array holds each tab's widgets in order.\<close>

definition board_normal :: "board_layout \<Rightarrow> bool" where
  "board_normal layout \<longleftrightarrow> map bt_position (bl_tabs layout) = map int [0..<length (bl_tabs layout)] \<and>
     (\<forall>tabId. let ws = filter (\<lambda>w. bw_tabId w = tabId) (bl_widgets layout) in map bw_position ws = map int [0..<length ws])"

lemma filter_assignPositions:
  "filter (\<lambda>w. bw_tabId w = t) (assignPositions c ws) =
     map (\<lambda>(i, w). w\<lparr>bw_position := c t + int i\<rparr>) (enumerate 0 (filter (\<lambda>w. bw_tabId w = t) ws))"
proof (induction ws arbitrary: c)
  case (Cons w ws)
  have shift: "map (\<lambda>(i, w). w\<lparr>bw_position := a + 1 + int i\<rparr>) (enumerate n xs) = map (\<lambda>(i, w). w\<lparr>bw_position := a + int i\<rparr>) (enumerate (Suc n) xs)"
    for a n and xs :: "board_widget list"
    by (induction xs arbitrary: n) simp_all
  show ?case using Cons.IH by (simp add: shift)
qed simp

lemma assignPositions_keeps: "(\<And>w p. f (w\<lparr>bw_position := p\<rparr>) = f w) \<Longrightarrow> map f (assignPositions c ws) = map f ws"
  by (induction ws arbitrary: c) simp_all

lemma normal_tab_widgets:
  "filter (\<lambda>w. bw_tabId w = t) (bl_widgets (normalizeBoardLayout layout)) = renumberWidgets (widgetsOn t layout)"
proof -
  define tabs where "tabs = renumberTabs (sort_by compareTab (bl_tabs layout))"
  have "sort_by (compareByTab tabs) (filter (\<lambda>w. bw_tabId w = t) (bl_widgets layout)) = widgetsOn t layout"
    unfolding widgetsOn_def by (rule sort_by_cong) (simp add: compareByTab_def cmp_then_def)
  then show ?thesis
    by (simp add: normalizeBoardLayout_def Let_def tabs_def [symmetric] filter_assignPositions grid_order.filter_sort_by renumberWidgets_def)
qed

lemma normal_tabs: "bl_tabs (normalizeBoardLayout layout) = renumberTabs (sort_by compareTab (bl_tabs layout))"
  by (simp add: normalizeBoardLayout_def Let_def)

lemma normalize_normal: "board_normal (normalizeBoardLayout layout)"
  by (simp add: board_normal_def Let_def normal_tabs normal_tab_widgets renumbered)

lemma normalize_widgetsOn: "widgetsOn t (normalizeBoardLayout layout) = renumberWidgets (widgetsOn t layout)"
  by (simp add: widgetsOn_def [of t "normalizeBoardLayout layout"] normal_tab_widgets renumbered)

lemma normalize_view: "boardView (normalizeBoardLayout layout) = boardView layout"
proof -
  have "map (\<lambda>t. (bt_tabId t, map bw_name (widgetsOn (bt_tabId t) layout))) (renumberTabs (sort_by compareTab (bl_tabs layout))) = boardView layout"
    unfolding boardView_def by (rule renumbered) simp
  then show ?thesis by (simp add: boardView_def [of "normalizeBoardLayout layout"] normal_tabs normalize_widgetsOn renumbered)
qed

section \<open>The operations on what a user sees\<close>

definition viewTarget :: "string \<Rightarrow> int option \<Rightarrow> string option \<Rightarrow> string list \<Rightarrow> board_error + nat" where
  "viewTarget name position after names =
     (case after of
        Some a \<Rightarrow>
          if a = name then Inl BoardInvalidOperation
          else (case findIndex (\<lambda>n. n = a) names of None \<Rightarrow> Inl BoardNotFound | Some k \<Rightarrow> Inr (k + 1))
      | None \<Rightarrow> (case position of Some p \<Rightarrow> Inr (nat (clampInteger p 0 (int (length names)))) | None \<Rightarrow> Inr (length names)))"

definition without :: "string \<Rightarrow> string list \<Rightarrow> string list" where
  "without name names = filter (\<lambda>n. n \<noteq> name) names"

definition viewRow :: "board_view \<Rightarrow> string \<Rightarrow> string list" where
  "viewRow v tabId = (case map_of v tabId of Some names \<Rightarrow> names | None \<Rightarrow> [])"

definition viewMove :: "string \<Rightarrow> string \<Rightarrow> int option \<Rightarrow> string option \<Rightarrow> board_view \<Rightarrow> board_error + board_view" where
  "viewMove name target position after v =
     (if target \<notin> fst ` set v then Inl BoardNotFound
      else if position \<noteq> None \<and> after \<noteq> None then Inl BoardInvalidOperation
      else map_sum id (\<lambda>k. map (\<lambda>(t, names). (t, if t = target then spliceAt k name (without name names) else without name names)) v)
             (viewTarget name position after (without name (viewRow v target))))"

definition viewTabOf :: "board_view \<Rightarrow> string \<Rightarrow> string option" where
  "viewTabOf v name = map_option fst (find (\<lambda>(_, names). name \<in> set names) v)"

fun viewOp :: "board_op \<Rightarrow> board_view \<Rightarrow> board_error + board_view" where
  "viewOp (TabCreate tabId _ _) v = (if tabId \<in> fst ` set v then Inl BoardConflict else Inr (v @ [(tabId, [])]))"
| "viewOp (TabUpdate tabId title chatDock position) v =
     (if tabId \<notin> fst ` set v then Inl BoardNotFound
      else if title = None \<and> chatDock = None \<and> position = None then Inl BoardInvalidOperation
      else Inr (case position of
                  None \<Rightarrow> v
                | Some p \<Rightarrow>
                    let rest = filter (\<lambda>(t, _). t \<noteq> tabId) v in
                    spliceAt (nat (clampInteger p 0 (int (length rest)))) (tabId, viewRow v tabId) rest))"
| "viewOp (TabDelete tabId) v =
     (if tabId \<notin> fst ` set v then Inl BoardNotFound
      else (case filter (\<lambda>(t, _). t \<noteq> tabId) v of
              [] \<Rightarrow> if viewRow v tabId \<noteq> [] then Inl BoardInvalidOperation else Inr []
            | (t, names) # rest \<Rightarrow> Inr ((t, names @ viewRow v tabId) # rest)))"
| "viewOp (TabsReorder tabIds) v =
     (if distinct tabIds \<and> set tabIds = fst ` set v then Inr (map (\<lambda>t. (t, viewRow v t)) tabIds) else Inl BoardInvalidOperation)"
| "viewOp (WidgetMove name tabId position after) v =
     (case viewTabOf v name of
        None \<Rightarrow> Inl BoardNotFound
      | Some t \<Rightarrow> viewMove name (case tabId of Some t' \<Rightarrow> t' | None \<Rightarrow> t) position after v)"
| "viewOp (WidgetResize name _ _ _) v = (if viewTabOf v name = None then Inl BoardNotFound else Inr v)"
| "viewOp (WidgetRemove name) v =
     (if viewTabOf v name = None then Inl BoardNotFound else Inr (map (\<lambda>(t, names). (t, without name names)) v))"

fun viewOps :: "board_op list \<Rightarrow> board_view \<Rightarrow> board_error + board_view" where
  "viewOps [] v = Inr v"
| "viewOps (op # ops) v = (case viewOp op v of Inl e \<Rightarrow> Inl e | Inr v' \<Rightarrow> viewOps ops v')"

section \<open>Each operation refines its view\<close>

definition sortedTabs :: "board_layout \<Rightarrow> board_tab list" where
  "sortedTabs layout = sort_by compareTab (bl_tabs layout)"

definition rowOf :: "board_layout \<Rightarrow> board_tab \<Rightarrow> string \<times> string list" where
  "rowOf layout t = (bt_tabId t, map bw_name (widgetsOn (bt_tabId t) layout))"

lemma view_rows: "boardView layout = map (rowOf layout) (sortedTabs layout)"
  by (simp add: boardView_def rowOf_def [abs_def] sortedTabs_def)

lemma view_ids: "fst ` set (boardView layout) = bt_tabId ` set (bl_tabs layout)"
  by (simp add: view_rows rowOf_def sortedTabs_def image_image)

lemma distinct_view: "board_ok layout \<Longrightarrow> distinct (map fst (boardView layout))"
  by (simp add: view_rows rowOf_def sortedTabs_def board_ok_def comp_def)

lemma view_row: "board_ok layout \<Longrightarrow> t \<in> bt_tabId ` set (bl_tabs layout) \<Longrightarrow> viewRow (boardView layout) t = map bw_name (widgetsOn t layout)"
proof -
  assume "board_ok layout" "t \<in> bt_tabId ` set (bl_tabs layout)"
  then have "(t, map bw_name (widgetsOn t layout)) \<in> set (boardView layout)"
    by (auto simp: view_rows rowOf_def sortedTabs_def)
  then have "map_of (boardView layout) t = Some (map bw_name (widgetsOn t layout))"
    by (rule map_of_is_SomeI [OF distinct_view [OF \<open>board_ok layout\<close>]])
  then show ?thesis by (simp add: viewRow_def)
qed

lemma set_widgetsOn: "w \<in> set (widgetsOn t layout) \<longleftrightarrow> w \<in> set (bl_widgets layout) \<and> bw_tabId w = t"
  by (auto simp: widgetsOn_def)

lemma names_inj: "board_ok layout \<Longrightarrow> inj_on bw_name (set (bl_widgets layout))"
  by (simp add: board_ok_def distinct_map)

lemma ids_inj: "board_ok layout \<Longrightarrow> inj_on bt_tabId (set (bl_tabs layout))"
  by (simp add: board_ok_def distinct_map)

lemma view_tab_of:
  assumes "board_ok layout"
  shows "viewTabOf (boardView layout) name = map_option (\<lambda>i. bw_tabId (bl_widgets layout ! i)) (findIndex (\<lambda>w. bw_name w = name) (bl_widgets layout))"
proof (cases "findIndex (\<lambda>w. bw_name w = name) (bl_widgets layout)")
  case None
  then have "\<forall>r \<in> set (boardView layout). \<not> (case r of (_, names) \<Rightarrow> name \<in> set names)"
    by (auto simp: view_rows rowOf_def set_widgetsOn)
  then have "find (\<lambda>(_, names). name \<in> set names) (boardView layout) = None" by (auto simp: find_None_iff)
  with None show ?thesis by (simp add: viewTabOf_def)
next
  case (Some i)
  define w where "w = bl_widgets layout ! i"
  from findIndex_Some [OF Some] have w: "w \<in> set (bl_widgets layout)" "bw_name w = name" by (simp_all add: w_def)
  have u: "w' = w" if "w' \<in> set (bl_widgets layout)" "bw_name w' = name" for w'
    using inj_onD [OF names_inj [OF assms], of w' w] that w by simp
  have row: "name \<in> set names \<longleftrightarrow> t = bw_tabId w" if r: "(t, names) \<in> set (boardView layout)" for t names
  proof -
    from r have names: "names = map bw_name (widgetsOn t layout)" by (auto simp: view_rows rowOf_def)
    show ?thesis
    proof
      assume "name \<in> set names"
      then obtain w' where "w' \<in> set (bl_widgets layout)" "bw_name w' = name" "bw_tabId w' = t" by (auto simp: names set_widgetsOn)
      with u [of w'] show "t = bw_tabId w" by simp
    next
      assume "t = bw_tabId w"
      then have "w \<in> set (widgetsOn t layout)" using w(1) by (simp add: set_widgetsOn)
      then have "bw_name w \<in> set names" by (simp add: names)
      then show "name \<in> set names" by (simp only: w(2))
    qed
  qed
  have "bw_tabId w \<in> fst ` set (boardView layout)" using w assms by (auto simp: view_ids board_ok_def)
  then obtain names where r: "(bw_tabId w, names) \<in> set (boardView layout)" by force
  then obtain t ns where f: "find (\<lambda>(_, names). name \<in> set names) (boardView layout) = Some (t, ns)"
    using row by (cases "find (\<lambda>(_, names). name \<in> set names) (boardView layout)") (auto simp: find_None_iff)
  then have "(t, ns) \<in> set (boardView layout)" "name \<in> set ns" by (auto simp: find_Some_iff) (metis nth_mem)
  then have "t = bw_tabId w" using row by blast
  with f Some show ?thesis by (simp add: viewTabOf_def w_def)
qed

text \<open>A view is determined by the order of the tab ids and the names on each tab.\<close>

definition viewFrom :: "(string \<Rightarrow> string list) \<Rightarrow> string list \<Rightarrow> board_view" where
  "viewFrom names ids = map (\<lambda>i. (i, names i)) ids"

definition namesOn :: "board_layout \<Rightarrow> string \<Rightarrow> string list" where
  "namesOn layout tabId = map bw_name (widgetsOn tabId layout)"

lemma view_from: "boardView layout = viewFrom (namesOn layout) (map bt_tabId (sortedTabs layout))"
  by (simp add: boardView_def viewFrom_def namesOn_def sortedTabs_def)

lemma normal_sorted: "board_normal layout \<Longrightarrow> sortedTabs layout = bl_tabs layout"
  unfolding sortedTabs_def board_normal_def by (blast intro: tabs_in_order)

lemma normal_view: "board_normal layout \<Longrightarrow> boardView layout = viewFrom (namesOn layout) (map bt_tabId (bl_tabs layout))"
  by (simp add: view_from normal_sorted)

lemma namesOn_widgets: "bl_widgets layout' = bl_widgets layout \<Longrightarrow> namesOn layout' = namesOn layout"
  by (simp add: namesOn_def [abs_def] widgetsOn_def)

lemma viewFrom_filter: "filter (\<lambda>(t, _). t \<noteq> i) (viewFrom names ids) = viewFrom names (filter (\<lambda>t. t \<noteq> i) ids)"
  by (induction ids) (simp_all add: viewFrom_def)

lemma viewFrom_simps [simp]:
  "viewFrom names [] = []" "viewFrom names (i # ids) = (i, names i) # viewFrom names ids"
  "viewFrom names (ids @ ids') = viewFrom names ids @ viewFrom names ids'" "fst ` set (viewFrom names ids) = set ids"
  "length (viewFrom names ids) = length ids"
  by (simp_all add: viewFrom_def image_image)

lemma viewFrom_spliceAt: "viewFrom names (spliceAt k i ids) = spliceAt k (i, names i) (viewFrom names ids)"
  by (simp add: viewFrom_def)

lemma viewRow_from: "i \<in> set ids \<Longrightarrow> viewRow (viewFrom names ids) i = names i"
  by (induction ids) (auto simp: viewRow_def)

lemma viewFrom_cong: "(\<And>i. i \<in> set ids \<Longrightarrow> names i = names' i) \<Longrightarrow> viewFrom names ids = viewFrom names' ids"
  by (simp add: viewFrom_def)

lemma require_tab_cases:
  obtains "requireTab layout tabId = Inl BoardNotFound" "tabId \<notin> set (map bt_tabId (bl_tabs layout))"
  | i where "requireTab layout tabId = Inr i" "i < length (bl_tabs layout)" "bt_tabId (bl_tabs layout ! i) = tabId"
      "tabId \<in> set (map bt_tabId (bl_tabs layout))"
proof (cases "findIndex (\<lambda>t. bt_tabId t = tabId) (bl_tabs layout)")
  case None
  then have "tabId \<notin> set (map bt_tabId (bl_tabs layout))" by auto
  moreover have "requireTab layout tabId = Inl BoardNotFound" unfolding requireTab_def None by simp
  ultimately show ?thesis using that(1) by blast
next
  case (Some i)
  from findIndex_Some [OF Some] have "i < length (bl_tabs layout)" "bt_tabId (bl_tabs layout ! i) = tabId" by simp_all
  then have "tabId \<in> set (map bt_tabId (bl_tabs layout))" by (metis length_map nth_map nth_mem)
  then show ?thesis using Some \<open>i < _\<close> \<open>bt_tabId _ = _\<close> by (intro that(2)) (simp_all add: requireTab_def)
qed

lemma rest_ids:
  assumes "distinct (map bt_tabId ts)" "i < length ts"
  shows "map bt_tabId (leaveOut i ts) = filter (\<lambda>t. t \<noteq> bt_tabId (ts ! i)) (map bt_tabId ts)"
  using assms leaveOut_filter [of i "map bt_tabId ts" id] by (simp add: map_leaveOut)

lemma view_create:
  assumes "board_ok layout" "board_normal layout"
  shows "map_sum id boardView (createTab tabId title dock layout) = viewOp (TabCreate tabId title dock) (boardView layout)"
proof (cases "\<exists>t \<in> set (bl_tabs layout). bt_tabId t = tabId")
  case True
  then have "tabId \<in> fst ` set (boardView layout)" by (auto simp: view_ids)
  with True show ?thesis by (simp add: createTab_def)
next
  case False
  define t where "t = \<lparr>bt_tabId = tabId, bt_title = title, bt_position = int (length (bl_tabs layout)),
    bt_chatDock = (case dock of Some d \<Rightarrow> d | None \<Rightarrow> DockRight)\<rparr>"
  define layout' where "layout' = layout\<lparr>bl_tabs := bl_tabs layout @ [t]\<rparr>"
  have "map bt_position (bl_tabs layout') = map int [0..<Suc (length (bl_tabs layout))]"
    using assms(2) by (simp add: layout'_def t_def board_normal_def)
  from tabs_in_order [OF this] have s: "sortedTabs layout' = bl_tabs layout'" by (simp add: sortedTabs_def)
  have "filter (\<lambda>w. bw_tabId w = tabId) (bl_widgets layout) = []"
    using False assms(1) by (fastforce simp: board_ok_def filter_empty_conv)
  then have "namesOn layout tabId = []" by (simp add: namesOn_def widgetsOn_def sort_by_def)
  then have "boardView layout' = boardView layout @ [(tabId, [])]"
    using namesOn_widgets [of layout' layout] by (simp add: view_from s normal_sorted [OF assms(2)]) (simp add: layout'_def t_def)
  moreover have "tabId \<notin> fst ` set (boardView layout)" using False by (auto simp: view_ids)
  moreover have "createTab tabId title dock layout = Inr layout'" using False by (simp add: createTab_def layout'_def t_def)
  ultimately show ?thesis by simp
qed

lemma moved_tabs:
  assumes "board_ok layout" "board_normal layout" "i < length (bl_tabs layout)"
  shows "boardView (moveTab i p layout) =
    (let rest = filter (\<lambda>(t, _). t \<noteq> bt_tabId (bl_tabs layout ! i)) (boardView layout);
         row = (bt_tabId (bl_tabs layout ! i), namesOn layout (bt_tabId (bl_tabs layout ! i)))
     in spliceAt (nat (clampInteger p 0 (int (length rest)))) row rest)"
proof -
  let ?ts = "bl_tabs layout" let ?id = "bt_tabId (bl_tabs layout ! i)"
  have "sorted_wrt (\<lambda>x y. bt_position x \<le> bt_position y) ?ts" using assms(2) by (auto simp: board_normal_def intro: counting_sorted)
  then have "sorted_wrt (\<lambda>x y. compareTab x y \<le> 0) (map snd (enumerate 0 ?ts))" by (simp add: compareTab_def)
  then have "sorted_wrt (\<lambda>x y. (case x of (_, a) \<Rightarrow> \<lambda>(_, b). compareTab a b) y \<le> 0) (enumerate 0 ?ts)"
    by (simp add: sorted_wrt_map case_prod_unfold del: map_snd_enumerate)
  from sort_by_sorted [OF this] have o: "map snd (filter (\<lambda>(j, _). j \<noteq> i) (sort_by (\<lambda>(_, a) (_, b). compareTab a b) (enumerate 0 ?ts))) = leaveOut i ?ts"
    by (simp add: leaveOut_def)
  have d: "distinct (map bt_tabId ?ts)" using assms(1) by (simp add: board_ok_def)
  let ?rest = "filter (\<lambda>t. t \<noteq> ?id) (map bt_tabId ?ts)"
  have ids: "map bt_tabId (sortedTabs (moveTab i p layout)) = spliceAt (nat (clampInteger p 0 (int (length ?rest)))) ?id ?rest"
  proof -
    have len: "length (leaveOut i ?ts) = length ?rest" using rest_ids [OF d assms(3)] by (metis length_map)
    have "map bt_tabId (renumberTabs (spliceAt k (?ts ! i) (leaveOut i ?ts))) = spliceAt k ?id ?rest" for k
      by (subst renumberTabs_keeps) (simp_all add: rest_ids [OF d assms(3)])
    then show ?thesis by (simp add: moveTab_def o sortedTabs_def renumbered len)
  qed
  have "namesOn (moveTab i p layout) = namesOn layout" by (rule namesOn_widgets) (simp add: moveTab_def Let_def)
  then show ?thesis
    by (simp add: view_from [of "moveTab i p layout"] ids normal_view [OF assms(2)] viewFrom_filter viewFrom_spliceAt Let_def)
qed

lemma board_ok_ids:
  "board_ok layout \<longleftrightarrow> distinct (map bt_tabId (bl_tabs layout)) \<and> distinct (map bw_name (bl_widgets layout)) \<and>
     (\<forall>w \<in> set (bl_widgets layout). bw_tabId w \<in> set (map bt_tabId (bl_tabs layout))) \<and> int (length (bl_widgets layout)) \<le> MAX_POSITION"
  by (simp add: board_ok_def)

lemma board_normal_alt:
  "board_normal layout \<longleftrightarrow> map bt_position (bl_tabs layout) = map int [0..<length (map bt_position (bl_tabs layout))] \<and>
     (\<forall>tabId. let ws = filter (\<lambda>w. bw_tabId w = tabId) (bl_widgets layout) in map bw_position ws = map int [0..<length ws])"
  by (simp add: board_normal_def)

lemma same_tabs:
  assumes "map bt_tabId (bl_tabs layout') = map bt_tabId (bl_tabs layout)" "map bt_position (bl_tabs layout') = map bt_position (bl_tabs layout)"
    "bl_widgets layout' = bl_widgets layout"
  shows "board_ok layout' = board_ok layout" "board_normal layout' = board_normal layout" "namesOn layout' = namesOn layout"
  unfolding board_ok_ids board_normal_alt assms using namesOn_widgets [OF assms(3)] by simp_all

lemma map_update_same: "i < length xs \<Longrightarrow> f y = f (xs ! i) \<Longrightarrow> map f (xs[i := y]) = map f xs"
  by (simp add: map_update) (metis list_update_id nth_map)

lemma view_update:
  assumes "board_ok layout" "board_normal layout"
  shows "map_sum id boardView (updateTab tabId title dock position layout) = viewOp (TabUpdate tabId title dock position) (boardView layout)"
proof (cases rule: require_tab_cases [of layout tabId])
  case 1
  then show ?thesis by (simp add: updateTab_def normal_view [OF assms(2)])
next
  case (2 i)
  define tab where "tab = bl_tabs layout ! i"
  define tab1 where "tab1 = (case title of Some s \<Rightarrow> tab\<lparr>bt_title := s\<rparr> | None \<Rightarrow> tab)"
  define tab2 where "tab2 = (case dock of Some d \<Rightarrow> tab1\<lparr>bt_chatDock := d\<rparr> | None \<Rightarrow> tab1)"
  define changed where "changed = layout\<lparr>bl_tabs := (bl_tabs layout)[i := tab2]\<rparr>"
  have t: "bt_tabId tab2 = tabId" "bt_position tab2 = bt_position tab" using 2(3)
    by (simp_all add: tab2_def tab1_def tab_def split: option.split)
  have ids: "map bt_tabId (bl_tabs changed) = map bt_tabId (bl_tabs layout)" "map bt_position (bl_tabs changed) = map bt_position (bl_tabs layout)"
    using 2(2,3) t by (simp_all add: changed_def tab_def map_update_same)
  have w: "bl_widgets changed = bl_widgets layout" by (simp add: changed_def)
  note same = same_tabs [OF ids w]
  have v: "boardView changed = boardView layout"
    using assms(2) same by (simp add: normal_view ids)
  have i: "i < length (bl_tabs changed)" "bt_tabId (bl_tabs changed ! i) = tabId" using 2(2) t by (simp_all add: changed_def)
  have row: "viewRow (boardView layout) tabId = namesOn layout tabId"
    unfolding normal_view [OF assms(2)] by (rule viewRow_from [OF 2(4)])
  have m: "boardView (moveTab i p changed) =
      (let rest = filter (\<lambda>(t, _). t \<noteq> tabId) (boardView layout)
       in spliceAt (nat (clampInteger p 0 (int (length rest)))) (tabId, namesOn layout tabId) rest)" for p
    using moved_tabs [of changed i p] assms same i v by simp
  have mem: "tabId \<in> fst ` set (boardView layout)" unfolding normal_view [OF assms(2)] using 2(4) by simp
  have u: "updateTab tabId title dock position layout =
      (if title = None \<and> dock = None \<and> position = None then Inl BoardInvalidOperation
       else Inr (case position of Some p \<Rightarrow> moveTab i p changed | None \<Rightarrow> changed))"
    unfolding updateTab_def 2(1) Let_def changed_def tab2_def tab1_def tab_def by simp
  show ?thesis by (simp add: u mem m v row split: option.split)
qed

lemma filter_leaveOut_sorted:
  assumes "board_ok layout" "board_normal layout" "i < length (bl_tabs layout)"
  shows "sort_by compareTab (leaveOut i (bl_tabs layout)) = leaveOut i (bl_tabs layout)"
    "map bt_tabId (leaveOut i (bl_tabs layout)) = filter (\<lambda>t. t \<noteq> bt_tabId (bl_tabs layout ! i)) (map bt_tabId (bl_tabs layout))"
proof -
  have d: "distinct (map bt_tabId (bl_tabs layout))" using assms(1) by (simp add: board_ok_def)
  show "map bt_tabId (leaveOut i (bl_tabs layout)) = filter (\<lambda>t. t \<noteq> bt_tabId (bl_tabs layout ! i)) (map bt_tabId (bl_tabs layout))"
    by (rule rest_ids [OF d assms(3)])
  have "sort_by compareTab (bl_tabs layout) = bl_tabs layout" using normal_sorted [OF assms(2)] by (simp add: sortedTabs_def)
  then show "sort_by compareTab (leaveOut i (bl_tabs layout)) = leaveOut i (bl_tabs layout)"
    unfolding leaveOut_filter [OF assms(3) d] using tab_order.filter_sort_by [of _ "bl_tabs layout"] by metis
qed

lemma normal_on_tab:
  assumes "board_normal layout"
  shows "widgetsOn t layout = filter (\<lambda>w. bw_tabId w = t) (bl_widgets layout)"
proof -
  have "map bw_position (filter (\<lambda>w. bw_tabId w = t) (bl_widgets layout)) =
      map int [0..<length (filter (\<lambda>w. bw_tabId w = t) (bl_widgets layout))]"
    using assms by (simp add: board_normal_def Let_def)
  then show ?thesis unfolding widgetsOn_def by (rule widgets_in_order)
qed

lemma position_bounded:
  assumes "board_ok layout" "board_normal layout" "w \<in> set (bl_widgets layout)"
  shows "bw_position w < MAX_POSITION"
proof -
  let ?ws = "filter (\<lambda>w'. bw_tabId w' = bw_tabId w) (bl_widgets layout)"
  have "map bw_position ?ws = map int [0..<length ?ws]" using assms(2) by (simp add: board_normal_def Let_def)
  moreover have "bw_position w \<in> set (map bw_position ?ws)" using assms(3) by simp
  ultimately have "bw_position w \<in> set (map int [0..<length ?ws])" by simp
  then have "bw_position w < int (length ?ws)" by auto
  also have "\<dots> \<le> int (length (bl_widgets layout))" by simp
  also have "\<dots> \<le> MAX_POSITION" using assms(1) by (simp add: board_ok_def)
  finally show ?thesis .
qed

lemma dropped_names:
  assumes "board_ok layout" "board_normal layout" "fb \<noteq> i"
    and "bl_widgets layout' = map (\<lambda>w. if bw_tabId w = i then w\<lparr>bw_tabId := fb, bw_position := MAX_POSITION\<rparr> else w) (bl_widgets layout)"
  shows "t \<noteq> i \<Longrightarrow> namesOn layout' t = (if t = fb then namesOn layout fb @ namesOn layout i else namesOn layout t)"
proof -
  define upd where "upd w = (if bw_tabId w = i then w\<lparr>bw_tabId := fb, bw_position := MAX_POSITION\<rparr> else w)" for w :: board_widget
  have ws': "bl_widgets layout' = map upd (bl_widgets layout)" by (simp add: assms(4) upd_def)
  assume t: "t \<noteq> i"
  show ?thesis
  proof (cases "t = fb")
    case False
    have "filter (\<lambda>w. bw_tabId w = t) (map upd ws) = filter (\<lambda>w. bw_tabId w = t) ws" for ws
      using t False by (induction ws) (auto simp: upd_def)
    then show ?thesis using False by (simp add: namesOn_def widgetsOn_def ws')
  next
    case True
    let ?P = "\<lambda>w. bw_position w < MAX_POSITION" let ?xs = "filter (\<lambda>w. bw_tabId w = fb) (bl_widgets layout')"
    have low: "\<forall>w \<in> set (bl_widgets layout). bw_position w < MAX_POSITION" using position_bounded [OF assms(1,2)] by blast
    have up: "bw_position (upd w) \<le> MAX_POSITION" if "w \<in> set (bl_widgets layout)" for w
      using low that by (fastforce simp: upd_def)
    have le: "bw_position w \<le> MAX_POSITION" if "w \<in> set ?xs" for w using that up by (auto simp: ws')
    have stay: "\<forall>w \<in> set ws. ?P w \<Longrightarrow> filter ?P (filter (\<lambda>w. bw_tabId w = fb) (map upd ws)) = filter (\<lambda>w. bw_tabId w = fb) ws" for ws
      using assms(3) by (induction ws) (auto simp: upd_def)
    have moved: "\<forall>w \<in> set ws. ?P w \<Longrightarrow> filter (\<lambda>w. \<not> ?P w) (filter (\<lambda>w. bw_tabId w = fb) (map upd ws)) = map upd (filter (\<lambda>w. bw_tabId w = i) ws)" for ws
      using assms(3) by (induction ws) (auto simp: upd_def)
    have "sort_by compareWidget ?xs = sort_by compareWidget (filter ?P ?xs) @ sort_by compareWidget (filter (\<lambda>w. \<not> ?P w) ?xs)"
      by (rule widget_order.sort_by_partition) (use le in \<open>fastforce simp: compareWidget_def\<close>)
    also have "sort_by compareWidget (filter (\<lambda>w. \<not> ?P w) ?xs) = filter (\<lambda>w. \<not> ?P w) ?xs"
    proof (rule sort_by_sorted)
      have "sorted_wrt (\<lambda>x y. compareWidget x y \<le> 0) ys" if "\<forall>w \<in> set ys. bw_position w = MAX_POSITION" for ys
        using that by (induction ys) (auto simp: compareWidget_def)
      moreover have "\<forall>w \<in> set (filter (\<lambda>w. \<not> ?P w) ?xs). bw_position w = MAX_POSITION" using le by fastforce
      ultimately show "sorted_wrt (\<lambda>x y. compareWidget x y \<le> 0) (filter (\<lambda>w. \<not> ?P w) ?xs)" by blast
    qed
    finally have "widgetsOn fb layout' = widgetsOn fb layout @ map upd (filter (\<lambda>w. bw_tabId w = i) (bl_widgets layout))"
      unfolding widgetsOn_def ws' stay [OF low] moved [OF low] .
    moreover have "map bw_name (map upd xs) = map bw_name xs" for xs by (simp add: upd_def)
    ultimately show ?thesis using True normal_on_tab [OF assms(2), of i] by (simp add: namesOn_def del: map_map)
  qed
qed

lemma view_delete:
  assumes "board_ok layout" "board_normal layout"
  shows "map_sum id boardView (deleteTab tabId layout) = viewOp (TabDelete tabId) (boardView layout)"
proof (cases rule: require_tab_cases [of layout tabId])
  case 1
  then show ?thesis by (simp add: deleteTab_def normal_view [OF assms(2)])
next
  case (2 i)
  have s: "sort_by compareTab (leaveOut i (bl_tabs layout)) = leaveOut i (bl_tabs layout)"
    "map bt_tabId (leaveOut i (bl_tabs layout)) = filter (\<lambda>t. t \<noteq> tabId) (map bt_tabId (bl_tabs layout))"
    using filter_leaveOut_sorted [OF assms 2(2)] 2(3) by simp_all
  have mem: "tabId \<in> fst ` set (boardView layout)" unfolding normal_view [OF assms(2)] using 2(4) by simp
  have row: "viewRow (boardView layout) tabId = namesOn layout tabId"
    unfolding normal_view [OF assms(2)] by (rule viewRow_from [OF 2(4)])
  have empty: "namesOn layout tabId = [] \<longleftrightarrow> \<not> (\<exists>w \<in> set (bl_widgets layout). bw_tabId w = tabId)"
    by (auto simp: namesOn_def normal_on_tab [OF assms(2)] filter_empty_conv)
  show ?thesis
  proof (cases "leaveOut i (bl_tabs layout)")
    case Nil
    then have rest: "filter (\<lambda>(t, _). t \<noteq> tabId) (boardView layout) = []"
      using s(2) by (simp add: normal_view [OF assms(2)] viewFrom_filter)
    have "boardView (layout\<lparr>bl_tabs := []\<rparr>) = []" by (simp add: boardView_def sort_by_def)
    moreover have "sort_by compareTab [] = []" by (simp add: sort_by_def)
    ultimately show ?thesis using Nil by (simp add: deleteTab_def 2(1,3) Let_def mem rest row empty)
  next
    case (Cons fallback rest)
    let ?fb = "bt_tabId fallback"
    define layout' where "layout' = layout\<lparr>bl_tabs := fallback # rest,
      bl_widgets := map (\<lambda>w. if bw_tabId w = tabId then w\<lparr>bw_tabId := ?fb, bw_position := MAX_POSITION\<rparr> else w) (bl_widgets layout)\<rparr>"
    have ids: "?fb # map bt_tabId rest = filter (\<lambda>t. t \<noteq> tabId) (map bt_tabId (bl_tabs layout))" using s(2) Cons by simp
    then have "tabId \<notin> set (?fb # map bt_tabId rest)" by simp
    then have fb: "?fb \<noteq> tabId" "tabId \<notin> set (map bt_tabId rest)" by auto
    have d: "distinct (?fb # map bt_tabId rest)" unfolding ids using assms(1) by (simp add: board_ok_def)
    have names: "t \<noteq> tabId \<Longrightarrow> namesOn layout' t = (if t = ?fb then namesOn layout ?fb @ namesOn layout tabId else namesOn layout t)" for t
      using dropped_names [OF assms fb(1), of layout'] by (simp add: layout'_def)
    have "sortedTabs layout' = fallback # rest" using s(1) Cons by (simp add: sortedTabs_def layout'_def)
    then have "boardView layout' = viewFrom (namesOn layout') (?fb # map bt_tabId rest)" by (simp add: view_from)
    also have "\<dots> = (?fb, namesOn layout ?fb @ namesOn layout tabId) # viewFrom (namesOn layout) (map bt_tabId rest)"
    proof -
      have "namesOn layout' t = namesOn layout t" if "t \<in> set (map bt_tabId rest)" for t
      proof -
        have "?fb \<notin> set (map bt_tabId rest)" using d by (simp only: distinct.simps simp_thms)
        with that fb(2) have "t \<noteq> tabId" "t \<noteq> ?fb" by blast+
        then show ?thesis using names by simp
      qed
      then have "viewFrom (namesOn layout') (map bt_tabId rest) = viewFrom (namesOn layout) (map bt_tabId rest)" by (rule viewFrom_cong)
      then show ?thesis using names [OF fb(1)] by simp
    qed
    finally have v: "boardView layout' = (?fb, namesOn layout ?fb @ namesOn layout tabId) # viewFrom (namesOn layout) (map bt_tabId rest)" .
    have "filter (\<lambda>(t, _). t \<noteq> tabId) (boardView layout) = viewFrom (namesOn layout) (?fb # map bt_tabId rest)"
      unfolding normal_view [OF assms(2)] viewFrom_filter ids ..
    then have r: "filter (\<lambda>(t, _). t \<noteq> tabId) (boardView layout) = (?fb, namesOn layout ?fb) # viewFrom (namesOn layout) (map bt_tabId rest)" by simp
    have "sort_by compareTab (leaveOut i (bl_tabs layout)) = fallback # rest" using s(1) Cons by (rule trans)
    then have "deleteTab tabId layout = Inr layout'" by (simp add: deleteTab_def 2(1,3) Let_def layout'_def)
    then show ?thesis using v r mem row by simp
  qed
qed

lemma length_uniqueValues: "length (uniqueValues xs) = length xs \<longleftrightarrow> distinct xs"
  by (metis card_distinct distinct_card distinct_uniqueValues set_uniqueValues)

lemma reorder_condition:
  assumes "distinct ids"
  shows "length tabIds = length ids \<and> length (uniqueValues tabIds) = length tabIds \<and> set tabIds \<subseteq> set ids \<longleftrightarrow>
     distinct tabIds \<and> set tabIds = set ids"
proof -
  have "set tabIds = set ids" if "length tabIds = length ids" "distinct tabIds" "set tabIds \<subseteq> set ids"
    by (rule card_subset_eq) (use that assms in \<open>simp_all add: distinct_card\<close>)
  moreover have "length tabIds = length ids" if "distinct tabIds" "set tabIds = set ids"
    using that assms by (metis distinct_card)
  ultimately show ?thesis by (auto simp: length_uniqueValues)
qed

lemma picked_ids:
  assumes "\<And>i. i \<in> set ids \<Longrightarrow> \<exists>t. pick i = Some t \<and> bt_tabId t = i"
  shows "map bt_tabId (List.map_filter pick ids) = ids"
  using assms
proof (induction ids)
  case (Cons i ids)
  then obtain t where "pick i = Some t" "bt_tabId t = i" by (meson list.set_intros(1))
  with Cons show ?case by simp
qed simp

lemma view_reorder:
  assumes "board_ok layout" "board_normal layout"
  shows "map_sum id boardView (reorderTabs tabIds layout) = viewOp (TabsReorder tabIds) (boardView layout)"
proof -
  let ?ids = "map bt_tabId (bl_tabs layout)" and ?m = "map (\<lambda>t. (bt_tabId t, t)) (bl_tabs layout)"
  have d: "distinct ?ids" using assms(1) by (simp add: board_ok_def)
  have c: "length tabIds \<noteq> length (bl_tabs layout) \<or> length (uniqueValues tabIds) \<noteq> length tabIds \<or>
      (\<exists>tabId \<in> set tabIds. \<not> (\<exists>t \<in> set (bl_tabs layout). bt_tabId t = tabId)) \<longleftrightarrow> \<not> (distinct tabIds \<and> set tabIds = set ?ids)"
  proof -
    have "(\<exists>tabId \<in> set tabIds. \<not> (\<exists>t \<in> set (bl_tabs layout). bt_tabId t = tabId)) \<longleftrightarrow> \<not> set tabIds \<subseteq> set ?ids" by (fastforce simp: image_iff)
    then show ?thesis using reorder_condition [OF d, of tabIds] unfolding length_map by blast
  qed
  have v: "fst ` set (boardView layout) = set ?ids" by (simp add: normal_view [OF assms(2)])
  show ?thesis
  proof (cases "distinct tabIds \<and> set tabIds = set ?ids")
    case True
    define layout' where "layout' = layout\<lparr>bl_tabs := renumberTabs (List.map_filter (map_of (rev ?m)) tabIds)\<rparr>"
    have "\<exists>t. map_of (rev ?m) i = Some t \<and> bt_tabId t = i" if "i \<in> set tabIds" for i
    proof -
      from that True obtain t where t: "t \<in> set (bl_tabs layout)" "bt_tabId t = i" by auto
      have "distinct (map fst (rev ?m))" using d by (simp add: rev_map [symmetric] comp_def)
      moreover have "(i, t) \<in> set (rev ?m)" using t by auto
      ultimately have "map_of (rev ?m) i = Some t" by (rule map_of_is_SomeI)
      with t show ?thesis by blast
    qed
    then have "map bt_tabId (List.map_filter (map_of (rev ?m)) tabIds) = tabIds" by (rule picked_ids)
    then have "map bt_tabId (sortedTabs layout') = tabIds"
      by (simp add: sortedTabs_def layout'_def renumbered)
    moreover have "namesOn layout' = namesOn layout" by (rule namesOn_widgets) (simp add: layout'_def)
    ultimately have "boardView layout' = viewFrom (namesOn layout) tabIds" by (simp add: view_from)
    also have "\<dots> = map (\<lambda>t. (t, viewRow (boardView layout) t)) tabIds"
      using True viewRow_from [of _ ?ids "namesOn layout"] by (simp add: viewFrom_def [of _ tabIds] normal_view [OF assms(2)])
    moreover have "reorderTabs tabIds layout = Inr layout'" unfolding reorderTabs_def c using True by (simp add: layout'_def Let_def)
    ultimately show ?thesis using True v by simp
  next
    case False
    then have "reorderTabs tabIds layout = Inl BoardInvalidOperation" unfolding reorderTabs_def c by simp
    with False v show ?thesis by simp
  qed
qed

lemma require_widget_cases:
  obtains "requireWidget layout name = Inl BoardNotFound" "findIndex (\<lambda>w. bw_name w = name) (bl_widgets layout) = None"
  | i where "requireWidget layout name = Inr i" "i < length (bl_widgets layout)" "bw_name (bl_widgets layout ! i) = name"
      "findIndex (\<lambda>w. bw_name w = name) (bl_widgets layout) = Some i"
proof (cases "findIndex (\<lambda>w. bw_name w = name) (bl_widgets layout)")
  case None
  then have "requireWidget layout name = Inl BoardNotFound" unfolding requireWidget_def None by simp
  with None show ?thesis using that(1) by blast
next
  case (Some i)
  then show ?thesis using findIndex_Some [OF Some] by (intro that(2)) (simp_all add: requireWidget_def)
qed

lemma without_names: "without name (map bw_name ws) = map bw_name (filter (\<lambda>w. bw_name w \<noteq> name) ws)"
  by (simp add: without_def filter_map comp_def)

lemma names_without:
  assumes "bl_widgets layout' = filter (\<lambda>w. bw_name w \<noteq> name) (bl_widgets layout)"
  shows "namesOn layout' t = without name (namesOn layout t)"
proof -
  have "filter (\<lambda>w. bw_tabId w = t) (filter (\<lambda>w. bw_name w \<noteq> name) (bl_widgets layout)) =
      filter (\<lambda>w. bw_name w \<noteq> name) (filter (\<lambda>w. bw_tabId w = t) (bl_widgets layout))" by (simp add: conj_commute)
  then show ?thesis unfolding namesOn_def widgetsOn_def assms without_names widget_order.filter_sort_by by simp
qed

lemma viewFrom_map: "map (\<lambda>(t, names). (t, g t names)) (viewFrom names ids) = viewFrom (\<lambda>t. g t (names t)) ids"
  by (simp add: viewFrom_def)

lemma view_remove:
  assumes "board_ok layout"
  shows "map_sum id boardView (removeWidget name layout) = viewOp (WidgetRemove name) (boardView layout)"
proof (cases rule: require_widget_cases [of layout name])
  case 1
  then show ?thesis by (simp add: removeWidget_def view_tab_of [OF assms])
next
  case (2 i)
  let ?layout = "layout\<lparr>bl_widgets := filter (\<lambda>w. bw_name w \<noteq> name) (bl_widgets layout)\<rparr>"
  have "namesOn ?layout = (\<lambda>t. without name (namesOn layout t))" using names_without [of ?layout] by auto
  moreover have "sortedTabs ?layout = sortedTabs layout" by (simp add: sortedTabs_def)
  ultimately have "boardView ?layout = map (\<lambda>(t, names). (t, without name names)) (boardView layout)" by (simp add: view_from viewFrom_map)
  then show ?thesis using 2 by (simp add: removeWidget_def view_tab_of [OF assms])
qed

lemma update_as_map:
  assumes "i < length xs" "distinct (map g xs)"
  shows "xs[i := u (xs ! i)] = map (\<lambda>x. if g x = g (xs ! i) then u x else x) xs"
proof (rule nth_equalityI)
  fix j assume j: "j < length (xs[i := u (xs ! i)])"
  then have "g (xs ! j) = g (xs ! i) \<longleftrightarrow> j = i" using assms nth_eq_iff_index_eq [OF assms(2), of j i] by simp
  then show "xs[i := u (xs ! i)] ! j = map (\<lambda>x. if g x = g (xs ! i) then u x else x) xs ! j" using j assms(1) by (auto simp: nth_list_update)
qed simp

lemma names_map:
  assumes "bl_widgets layout' = map f (bl_widgets layout)"
    and "\<And>w. bw_name (f w) = bw_name w" "\<And>w. bw_tabId (f w) = bw_tabId w" "\<And>w. bw_position (f w) = bw_position w"
  shows "namesOn layout' = namesOn layout"
proof
  fix t
  have "filter (\<lambda>w. bw_tabId w = t) (map f (bl_widgets layout)) = map f (filter (\<lambda>w. bw_tabId w = t) (bl_widgets layout))"
    by (simp add: filter_map comp_def assms(3))
  moreover have "sort_by compareWidget (map f ws) = map f (sort_by compareWidget ws)" for ws
    by (rule map_sort_by [symmetric]) (simp add: compareWidget_def assms(4))
  ultimately show "namesOn layout' t = namesOn layout t" by (simp add: namesOn_def widgetsOn_def assms(1,2) comp_def)
qed

lemma view_resize:
  assumes "board_ok layout"
  shows "map_sum id boardView (resizeWidget name sizeW sizeH mode layout) = viewOp (WidgetResize name sizeW sizeH mode) (boardView layout)"
proof (cases rule: require_widget_cases [of layout name])
  case 1
  then show ?thesis by (simp add: resizeWidget_def view_tab_of [OF assms])
next
  case (2 i)
  define u where "u w = w\<lparr>bw_sizeW := clampInteger sizeW 1 12, bw_sizeH := clampInteger sizeH 1 20,
    bw_heightMode := Some (case mode of Some m \<Rightarrow> m | None \<Rightarrow> FixedHeight)\<rparr>" for w :: board_widget
  define layout' where "layout' = layout\<lparr>bl_widgets := (bl_widgets layout)[i := u (bl_widgets layout ! i)]\<rparr>"
  have d: "distinct (map bw_name (bl_widgets layout))" using assms by (simp add: board_ok_def)
  have "bl_widgets layout' = map (\<lambda>w. if bw_name w = bw_name (bl_widgets layout ! i) then u w else w) (bl_widgets layout)"
    by (simp add: layout'_def update_as_map [OF 2(2) d])
  then have "namesOn layout' = namesOn layout" by (rule names_map) (simp_all add: u_def)
  moreover have "sortedTabs layout' = sortedTabs layout" by (simp add: sortedTabs_def layout'_def)
  ultimately have "boardView layout' = boardView layout" by (simp add: view_from)
  moreover have "resizeWidget name sizeW sizeH mode layout = Inr layout'" by (simp add: resizeWidget_def 2(1) layout'_def u_def)
  ultimately show ?thesis using 2 by (simp add: view_tab_of [OF assms])
qed

lemma view_target:
  "(case after of
      Some a \<Rightarrow>
        if a = name then Inl BoardInvalidOperation
        else (case findIndex (\<lambda>w. bw_name w = a) ws of None \<Rightarrow> Inl BoardNotFound | Some k \<Rightarrow> Inr (k + 1))
    | None \<Rightarrow> (case position of Some p \<Rightarrow> Inr (nat (clampInteger p 0 (int (length ws)))) | None \<Rightarrow> Inr (length ws))) =
   viewTarget name position after (map bw_name ws)"
  by (simp add: viewTarget_def findIndex_map split: option.split)

lemma view_move_widget:
  assumes "board_ok layout" "i < length (bl_widgets layout)"
  shows "map_sum id boardView (moveWidget i target position after layout) =
    viewMove (bw_name (bl_widgets layout ! i)) target position after (boardView layout)"
proof (cases rule: require_tab_cases [of layout target])
  case 1
  then have "target \<notin> fst ` set (boardView layout)" by (simp add: view_ids)
  with 1 show ?thesis by (simp add: moveWidget_def viewMove_def)
next
  case (2 j)
  let ?ws = "bl_widgets layout" let ?w = "?ws ! i" let ?name = "bw_name ?w"
  define there where "there = sort_by compareWidget (filter (\<lambda>w. bw_tabId w = target) (leaveOut i ?ws))"
  have l: "leaveOut i ?ws = filter (\<lambda>w. bw_name w \<noteq> ?name) ?ws"
    by (rule leaveOut_filter [OF assms(2)]) (use assms(1) in \<open>simp add: board_ok_def\<close>)
  have gone: "namesOn (layout\<lparr>bl_widgets := leaveOut i ?ws\<rparr>) t = without ?name (namesOn layout t)" for t
    by (rule names_without) (simp add: l)
  from gone [of target] have n: "map bw_name there = without ?name (namesOn layout target)"
    by (simp add: namesOn_def widgetsOn_def there_def)
  have mem: "target \<in> fst ` set (boardView layout)" using 2(4) by (simp add: view_ids)
  have row: "viewRow (boardView layout) target = namesOn layout target"
    unfolding view_from by (rule viewRow_from) (use 2(4) in \<open>simp add: sortedTabs_def\<close>)
  define moved where "moved k = layout\<lparr>bl_widgets := filter (\<lambda>w. bw_tabId w \<noteq> target) (leaveOut i ?ws) @
      renumberWidgets (spliceAt k (?w\<lparr>bw_tabId := target\<rparr>) there)\<rparr>" for k
  have names: "namesOn (moved k) t = (if t = target then spliceAt k ?name (without ?name (namesOn layout target)) else without ?name (namesOn layout t))" for k t
  proof -
    let ?there = "renumberWidgets (spliceAt k (?w\<lparr>bw_tabId := target\<rparr>) there)"
    have "map bw_tabId ?there = map bw_tabId (spliceAt k (?w\<lparr>bw_tabId := target\<rparr>) there)" by (rule renumbered) simp
    moreover have "set (map bw_tabId (spliceAt k (?w\<lparr>bw_tabId := target\<rparr>) there)) \<subseteq> {target}" by (auto simp: there_def)
    ultimately have "set (map bw_tabId ?there) \<subseteq> {target}" by (simp only:)
    then have at: "\<forall>w \<in> set ?there. bw_tabId w = target" by auto
    have "map bw_name ?there = map bw_name (spliceAt k (?w\<lparr>bw_tabId := target\<rparr>) there)" by (rule renumbered) simp
    then have tn: "map bw_name ?there = spliceAt k ?name (without ?name (namesOn layout target))" by (simp add: n)
    show ?thesis
    proof (cases "t = target")
      case True
      have "filter (\<lambda>w. bw_tabId w = t) (bl_widgets (moved k)) = ?there"
        using at True by (simp add: moved_def filter_empty_conv)
      then show ?thesis using True tn by (simp add: namesOn_def widgetsOn_def renumbered)
    next
      case False
      have "filter (\<lambda>w. bw_tabId w = t) ?there = []" using at False by (auto simp: filter_empty_conv)
      moreover have "filter (\<lambda>w. bw_tabId w = t) (filter (\<lambda>w. bw_tabId w \<noteq> target) (leaveOut i ?ws)) = filter (\<lambda>w. bw_tabId w = t) (leaveOut i ?ws)"
        using False by (auto intro: filter_cong)
      ultimately have "widgetsOn t (moved k) = widgetsOn t (layout\<lparr>bl_widgets := leaveOut i ?ws\<rparr>)" by (simp add: widgetsOn_def moved_def)
      then show ?thesis using gone [of t] False by (simp add: namesOn_def)
    qed
  qed
  have view: "boardView (moved k) =
      map (\<lambda>(t, names). (t, if t = target then spliceAt k ?name (without ?name names) else without ?name names)) (boardView layout)" for k
  proof -
    have "sortedTabs (moved k) = sortedTabs layout" by (simp add: sortedTabs_def moved_def)
    moreover have "namesOn (moved k) = (\<lambda>t. if t = target then spliceAt k ?name (without ?name (namesOn layout t)) else without ?name (namesOn layout t))"
      using names by auto
    ultimately show ?thesis by (simp add: view_from viewFrom_map)
  qed
  show ?thesis
  proof (cases "position \<noteq> None \<and> after \<noteq> None")
    case True
    then show ?thesis using mem by (simp add: moveWidget_def viewMove_def 2(1))
  next
    case False
    then have "moveWidget i target position after layout =
        (case viewTarget ?name position after (map bw_name there) of Inl e \<Rightarrow> Inl e | Inr k \<Rightarrow> Inr (moved k))"
      by (simp only: moveWidget_def 2(1) Let_def sum.case if_False there_def [symmetric] view_target moved_def)
    then show ?thesis using mem False row n
      by (cases "viewTarget ?name position after (map bw_name there)") (auto simp: viewMove_def view)
  qed
qed

lemma view_op:
  assumes "board_ok layout" "board_normal layout"
  shows "map_sum id boardView (applyBoardOp op layout) = viewOp op (boardView layout)"
proof (cases op)
  case (WidgetMove name tabId position after)
  show ?thesis
  proof (cases rule: require_widget_cases [of layout name])
    case 1
    then show ?thesis by (simp add: WidgetMove view_tab_of [OF assms(1)] del: findIndex_None)
  next
    case (2 i)
    then show ?thesis using view_move_widget [OF assms(1) 2(2)] by (simp add: WidgetMove view_tab_of [OF assms(1)])
  qed
qed (simp_all only: applyBoardOp.simps view_create [OF assms] view_update [OF assms] view_delete [OF assms] view_reorder [OF assms]
      view_resize [OF assms(1)] view_remove [OF assms(1)])

section \<open>Nothing is lost on the way\<close>

text \<open>What the layout operations must not touch: everything but the place, the size and the height mode of a widget.\<close>

definition bw_core :: "board_widget \<Rightarrow> board_widget" where
  "bw_core w = w\<lparr>bw_tabId := [], bw_position := 0, bw_sizeW := 0, bw_sizeH := 0, bw_heightMode := None\<rparr>"

definition boxed :: "board_widget \<Rightarrow> bool" where
  "boxed w \<longleftrightarrow> 1 \<le> bw_sizeW w \<and> bw_sizeW w \<le> 12 \<and> 1 \<le> bw_sizeH w \<and> bw_sizeH w \<le> 20"

lemma core_simps [simp]:
  "bw_core (w\<lparr>bw_tabId := t\<rparr>) = bw_core w" "bw_core (w\<lparr>bw_position := p\<rparr>) = bw_core w" "bw_core (w\<lparr>bw_sizeW := a\<rparr>) = bw_core w"
  "bw_core (w\<lparr>bw_sizeH := b\<rparr>) = bw_core w" "bw_core (w\<lparr>bw_heightMode := m\<rparr>) = bw_core w" "bw_name (bw_core w) = bw_name w"
  by (simp_all add: bw_core_def)

lemma boxed_simps [simp]: "boxed (w\<lparr>bw_tabId := t\<rparr>) = boxed w" "boxed (w\<lparr>bw_position := p\<rparr>) = boxed w"
  by (simp_all add: boxed_def)

fun removedBy :: "board_op \<Rightarrow> string \<Rightarrow> bool" where
  "removedBy (WidgetRemove name) n \<longleftrightarrow> n = name"
| "removedBy _ n \<longleftrightarrow> False"

lemma mset_leaveOut: "i < length xs \<Longrightarrow> add_mset (xs ! i) (mset (leaveOut i xs)) = mset xs"
  unfolding leaveOut_eq by (subst (4) id_take_nth_drop [of i xs]) simp_all

lemma moved_mset:
  fixes f :: "board_widget \<Rightarrow> 'b"
  assumes "moveWidget i target position after layout = Inr layout'" "i < length (bl_widgets layout)"
    and f: "\<And>w t. f (w\<lparr>bw_tabId := t\<rparr>) = f w" "\<And>w p. f (w\<lparr>bw_position := p\<rparr>) = f w"
  shows "mset (map f (bl_widgets layout')) = mset (map f (bl_widgets layout))"
proof -
  let ?rest = "leaveOut i (bl_widgets layout)" and ?w = "bl_widgets layout ! i"
  define there where "there = sort_by compareWidget (filter (\<lambda>w. bw_tabId w = target) ?rest)"
  obtain k where "bl_widgets layout' = filter (\<lambda>w. bw_tabId w \<noteq> target) ?rest @ renumberWidgets (spliceAt k (?w\<lparr>bw_tabId := target\<rparr>) there)"
    using assms(1) by (auto simp: moveWidget_def Let_def there_def split: sum.splits if_splits)
  moreover have "map f (renumberWidgets ws) = map f ws" for ws by (rule renumbered) (rule f)
  moreover have "image_mset f (filter_mset (\<lambda>w. bw_tabId w \<noteq> target) M) + image_mset f (filter_mset (\<lambda>w. bw_tabId w = target) M) =
      image_mset f M" for M
    by (simp add: image_mset_union [symmetric] union_filter_mset_complement del: image_mset_union)
  ultimately have "mset (map f (bl_widgets layout')) = image_mset f (mset ?rest) + {#f ?w#}"
    by (simp add: there_def f)
  also have "\<dots> = mset (map f (bl_widgets layout))" using mset_leaveOut [OF assms(2)] by (metis add_mset_add_single image_mset_add_mset mset_map)
  finally show ?thesis .
qed

lemma moved_core:
  assumes "moveWidget i target position after layout = Inr layout'" "i < length (bl_widgets layout)"
  shows "mset (map bw_core (bl_widgets layout')) = mset (map bw_core (bl_widgets layout))"
  by (rule moved_mset [OF assms]) simp_all

lemma core_update: "i < length ws \<Longrightarrow> bw_core w = bw_core (ws ! i) \<Longrightarrow> image_mset bw_core (mset (ws[i := w])) = image_mset bw_core (mset ws)"
  by (metis map_update_same mset_map)

lemma op_core:
  assumes "applyBoardOp op layout = Inr layout'"
  shows "mset (map bw_core (bl_widgets layout')) = mset (map bw_core (filter (\<lambda>w. \<not> removedBy op (bw_name w)) (bl_widgets layout)))"
proof (cases op)
  case (TabCreate tabId title dock)
  then show ?thesis using assms by (auto simp: createTab_def split: if_splits)
next
  case (TabUpdate tabId title dock position)
  then show ?thesis using assms by (auto simp: updateTab_def moveTab_def Let_def split: sum.splits if_splits option.splits)
next
  case (TabDelete tabId)
  have "image_mset bw_core (image_mset (\<lambda>w. if P w then w\<lparr>bw_tabId := fb, bw_position := p\<rparr> else w) M) = image_mset bw_core M" for P fb p M
    by (induction M) simp_all
  then show ?thesis
    using TabDelete assms by (auto simp: deleteTab_def Let_def simp del: image_mset.compositionality split: sum.splits list.splits if_splits)
next
  case (TabsReorder ids)
  then show ?thesis using assms by (auto simp: reorderTabs_def Let_def split: if_splits)
next
  case (WidgetMove name tabId position after)
  then show ?thesis using assms moved_core
    by (cases rule: require_widget_cases [of layout name]) auto
next
  case (WidgetResize name a b m)
  show ?thesis
  proof (cases rule: require_widget_cases [of layout name])
    case (2 i)
    then show ?thesis using assms WidgetResize by (auto simp: resizeWidget_def core_update)
  qed (use assms WidgetResize in \<open>simp add: resizeWidget_def\<close>)
next
  case (WidgetRemove name)
  then show ?thesis using assms by (auto simp: removeWidget_def split: sum.splits)
qed

lemma normalize_core: "(\<And>w p. f (w\<lparr>bw_position := p\<rparr>) = f w) \<Longrightarrow> mset (map f (bl_widgets (normalizeBoardLayout layout))) = mset (map f (bl_widgets layout))"
  by (simp add: normalizeBoardLayout_def Let_def assignPositions_keeps)

lemma map_sum_Inr: "map_sum id f x = Inr y \<Longrightarrow> \<exists>z. x = Inr z \<and> y = f z"
  by (cases x) auto

lemma viewMove_rows: "viewMove name target position after v = Inr v' \<Longrightarrow> \<exists>g. v' = map (\<lambda>(t, names). (t, g t names)) v"
proof -
  assume m: "viewMove name target position after v = Inr v'"
  then obtain k where "v' = map (\<lambda>(t, names). (t, if t = target then spliceAt k name (without name names) else without name names)) v"
    by (auto simp: viewMove_def split: if_splits dest!: map_sum_Inr)
  then show ?thesis by (intro exI [of _ "\<lambda>t names. if t = target then spliceAt k name (without name names) else without name names"])
qed

lemma row_ids: "map fst (map (\<lambda>(t, names). (t, g t names)) v) = map fst v"
  by (induction v) auto

lemma row_id_set: "fst ` set (map (\<lambda>(t, names). (t, g t names)) v) = fst ` set v"
  using arg_cong [OF row_ids [of g v], of set] by (simp only: set_map)

lemma viewOp_distinct: "distinct (map fst v) \<Longrightarrow> viewOp op v = Inr v' \<Longrightarrow> distinct (map fst v')"
proof (cases op)
  case (TabUpdate tabId title dock position)
  assume d: "distinct (map fst v)" and op: "viewOp op v = Inr v'"
  have s: "distinct (map fst (spliceAt k (tabId, x) (filter (\<lambda>(t, _). t \<noteq> tabId) v)))" for k x
  proof -
    have "mset (map fst (spliceAt k (tabId, x) (filter (\<lambda>(t, _). t \<noteq> tabId) v))) = mset (map fst ((tabId, x) # filter (\<lambda>(t, _). t \<noteq> tabId) v))" by simp
    moreover have "distinct (map fst ((tabId, x) # filter (\<lambda>(t, _). t \<noteq> tabId) v))" using d by (auto simp: distinct_map_filter)
    ultimately show ?thesis by (metis mset_eq_imp_distinct_iff)
  qed
  show ?thesis using op d s by (auto simp: TabUpdate Let_def split: if_splits option.splits)
next
  case (TabDelete tabId)
  assume d: "distinct (map fst v)" and op: "viewOp op v = Inr v'"
  have f: "distinct (map fst (filter (\<lambda>(t, _). t \<noteq> tabId) v))" using d by (simp add: distinct_map_filter)
  show ?thesis using op f by (cases "filter (\<lambda>(t, _). t \<noteq> tabId) v") (auto simp: TabDelete split: if_splits)
next
  case (WidgetMove name tabId position after)
  assume d: "distinct (map fst v)" and op: "viewOp op v = Inr v'"
  obtain t where "viewMove name t position after v = Inr v'" using op by (auto simp: WidgetMove split: option.splits)
  then obtain g where "v' = map (\<lambda>(t, names). (t, g t names)) v" using viewMove_rows by blast
  then show ?thesis using d row_ids [of g v] by (simp only:)
next
  case (WidgetRemove name)
  assume d: "distinct (map fst v)" and op: "viewOp op v = Inr v'"
  have "v' = map (\<lambda>(t, names). (t, without name names)) v" using op by (auto simp: WidgetRemove split: if_splits)
  then show ?thesis using d row_ids [of "\<lambda>_. without name" v] by (simp only:)
qed (auto simp: comp_def split: if_splits)

fun idsAfter :: "board_op \<Rightarrow> string set \<Rightarrow> string set" where
  "idsAfter (TabCreate tabId _ _) ids = insert tabId ids"
| "idsAfter (TabDelete tabId) ids = ids - {tabId}"
| "idsAfter _ ids = ids"

lemma other_ids: "fst ` set (filter (\<lambda>(t, _). t \<noteq> tabId) v) = fst ` set v - {tabId}"
  by force

lemma viewOp_ids: "viewOp op v = Inr v' \<Longrightarrow> fst ` set v' = idsAfter op (fst ` set v)"
proof (cases op)
  case (TabUpdate tabId title dock position)
  assume op: "viewOp op v = Inr v'"
  then have mem: "tabId \<in> fst ` set v" by (simp add: TabUpdate split: if_splits)
  then have e: "insert tabId (fst ` set (filter (\<lambda>(t, _). t \<noteq> tabId) v)) = fst ` set v" unfolding other_ids by blast
  show ?thesis
  proof (cases position)
    case None
    then show ?thesis using op by (simp add: TabUpdate split: if_splits)
  next
    case (Some p)
    then obtain k where "v' = spliceAt k (tabId, viewRow v tabId) (filter (\<lambda>(t, _). t \<noteq> tabId) v)"
      using op mem by (auto simp: TabUpdate Let_def)
    then have "fst ` set v' = insert tabId (fst ` set (filter (\<lambda>(t, _). t \<noteq> tabId) v))" by (simp del: set_filter)
    then show ?thesis using e by (simp add: TabUpdate)
  qed
next
  case (TabDelete tabId)
  assume op: "viewOp op v = Inr v'"
  then have mem: "tabId \<in> fst ` set v" by (simp add: TabDelete split: if_splits)
  show ?thesis
  proof (cases "filter (\<lambda>(t, _). t \<noteq> tabId) v")
    case Nil
    then show ?thesis using op mem other_ids [of tabId v] by (simp add: TabDelete split: if_splits)
  next
    case (Cons r rest)
    obtain t names where r: "r = (t, names)" by (cases r)
    have "v' = (t, names @ viewRow v tabId) # rest" using op mem Cons r by (simp add: TabDelete)
    then show ?thesis using other_ids [of tabId v] Cons r by (simp add: TabDelete)
  qed
next
  case (WidgetMove name tabId position after)
  assume op: "viewOp op v = Inr v'"
  obtain t where "viewMove name t position after v = Inr v'" using op by (auto simp: WidgetMove split: option.splits)
  then obtain g where "v' = map (\<lambda>(t, names). (t, g t names)) v" using viewMove_rows by blast
  then show ?thesis using row_id_set [of g v] by (simp only: WidgetMove idsAfter.simps)
next
  case (WidgetRemove name)
  assume op: "viewOp op v = Inr v'"
  have "v' = map (\<lambda>(t, names). (t, without name names)) v" using op by (auto simp: WidgetRemove split: if_splits)
  then show ?thesis using row_id_set [of "\<lambda>_. without name" v] by (simp only: WidgetRemove idsAfter.simps)
next
  case (TabCreate tabId title dock)
  assume "viewOp op v = Inr v'"
  then have "v' = v @ [(tabId, [])]" by (simp add: TabCreate split: if_splits)
  then show ?thesis by (simp add: TabCreate)
next
  case (TabsReorder tabIds)
  assume "viewOp op v = Inr v'"
  then have "v' = map (\<lambda>t. (t, viewRow v t)) tabIds" "set tabIds = fst ` set v" by (simp_all add: TabsReorder split: if_splits)
  then show ?thesis unfolding TabsReorder idsAfter.simps by (simp only: set_map image_image fst_conv image_ident)
next
  case (WidgetResize name a b m)
  assume "viewOp op v = Inr v'"
  then have "v' = v" by (simp add: WidgetResize split: if_splits)
  then show ?thesis by (simp add: WidgetResize)
qed

lemma op_ids:
  assumes "board_ok layout" "board_normal layout" "applyBoardOp op layout = Inr layout'"
  shows "bt_tabId ` set (bl_tabs layout') = idsAfter op (bt_tabId ` set (bl_tabs layout))" "distinct (map bt_tabId (bl_tabs layout'))"
proof -
  have v: "viewOp op (boardView layout) = Inr (boardView layout')" using view_op [OF assms(1,2), of op] assms(3) by simp
  show "bt_tabId ` set (bl_tabs layout') = idsAfter op (bt_tabId ` set (bl_tabs layout))" using viewOp_ids [OF v] by (simp add: view_ids)
  have "distinct (map fst (boardView layout'))" by (rule viewOp_distinct [OF distinct_view [OF assms(1)] v])
  then show "distinct (map bt_tabId (bl_tabs layout'))" by (simp add: view_rows rowOf_def sortedTabs_def comp_def)
qed

text \<open>Where a widget comes from, after an operation.\<close>

lemma renumberWidgets_from: "w \<in> set (renumberWidgets ws) \<Longrightarrow> \<exists>w' \<in> set ws. \<exists>p. w = w'\<lparr>bw_position := p\<rparr>"
  by (auto simp: renumberWidgets_def in_set_enumerate_eq)

lemma moved_from:
  assumes "moveWidget i target position after layout = Inr layout'" "i < length (bl_widgets layout)" "w \<in> set (bl_widgets layout')"
  shows "\<exists>w' \<in> set (bl_widgets layout). w = w' \<or> bw_tabId w = target \<and> (\<exists>t p. w = w'\<lparr>bw_tabId := t, bw_position := p\<rparr>)"
    and "target \<in> bt_tabId ` set (bl_tabs layout)"
proof -
  let ?rest = "leaveOut i (bl_widgets layout)" and ?w = "bl_widgets layout ! i"
  define there where "there = sort_by compareWidget (filter (\<lambda>w. bw_tabId w = target) ?rest)"
  obtain k where "bl_widgets layout' = filter (\<lambda>w. bw_tabId w \<noteq> target) ?rest @ renumberWidgets (spliceAt k (?w\<lparr>bw_tabId := target\<rparr>) there)"
    using assms(1) by (auto simp: moveWidget_def Let_def there_def split: sum.splits if_splits)
  then consider "w \<in> set ?rest" | w' p where "w' = ?w\<lparr>bw_tabId := target\<rparr> \<or> w' \<in> set there" "w = w'\<lparr>bw_position := p\<rparr>"
    using assms(3) renumberWidgets_from [of w "spliceAt k (?w\<lparr>bw_tabId := target\<rparr>) there"] by auto
  then show "\<exists>w' \<in> set (bl_widgets layout). w = w' \<or> bw_tabId w = target \<and> (\<exists>t p. w = w'\<lparr>bw_tabId := t, bw_position := p\<rparr>)"
  proof cases
    case 1
    then show ?thesis using set_leaveOut by fastforce
  next
    case (2 w' p)
    show ?thesis
    proof (cases "w' \<in> set there")
      case True
      then have "w' \<in> set (bl_widgets layout)" "bw_tabId w' = target" using set_leaveOut [of i "bl_widgets layout"] by (auto simp: there_def)
      moreover have "w = w'\<lparr>bw_tabId := bw_tabId w', bw_position := p\<rparr>" using 2(2) by simp
      ultimately show ?thesis by auto
    next
      case False
      then have "w = ?w\<lparr>bw_tabId := target, bw_position := p\<rparr>" using 2 by simp
      moreover have "bw_tabId w = target" by (simp add: calculation)
      ultimately show ?thesis using nth_mem [OF assms(2)] by metis
    qed
  qed
  show "target \<in> bt_tabId ` set (bl_tabs layout)"
    using assms(1) by (cases rule: require_tab_cases [of layout target]) (auto simp: moveWidget_def)
qed

lemma op_from:
  assumes "board_ok layout" "board_normal layout" "applyBoardOp op layout = Inr layout'" "w \<in> set (bl_widgets layout')"
  shows "\<exists>w' \<in> set (bl_widgets layout). (boxed w' \<longrightarrow> boxed w) \<and> (bw_tabId w = bw_tabId w' \<or> bw_tabId w \<in> bt_tabId ` set (bl_tabs layout'))"
proof (cases op)
  case (TabDelete tabId)
  then show ?thesis
    using assms(3,4) by (fastforce simp: deleteTab_def Let_def split: sum.splits list.splits if_splits)
next
  case (WidgetMove name tabId position after)
  show ?thesis
  proof (cases rule: require_widget_cases [of layout name])
    case (2 i)
    define target where "target = (case tabId of Some t \<Rightarrow> t | None \<Rightarrow> bw_tabId (bl_widgets layout ! i))"
    have m: "moveWidget i target position after layout = Inr layout'" using assms(3) 2(1) by (simp add: WidgetMove target_def)
    have "target \<in> bt_tabId ` set (bl_tabs layout')" using moved_from(2) [OF m 2(2) assms(4)] op_ids(1) [OF assms(1-3)] by (simp add: WidgetMove)
    with moved_from(1) [OF m 2(2) assms(4)] show ?thesis by auto
  qed (use assms(3) in \<open>simp add: WidgetMove\<close>)
next
  case (WidgetResize name a b m)
  show ?thesis
  proof (cases rule: require_widget_cases [of layout name])
    case (2 i)
    let ?w = "(bl_widgets layout ! i)\<lparr>bw_sizeW := clampInteger a 1 12, bw_sizeH := clampInteger b 1 20,
      bw_heightMode := Some (case m of Some m \<Rightarrow> m | None \<Rightarrow> FixedHeight)\<rparr>"
    have "bl_widgets layout' = (bl_widgets layout)[i := ?w]" using assms(3) 2(1) by (auto simp: WidgetResize resizeWidget_def)
    then have "w = ?w \<or> w \<in> set (bl_widgets layout)" using assms(4) set_update_subset_insert [of "bl_widgets layout" i ?w] by auto
    moreover have "boxed ?w" by (simp add: boxed_def clampInteger_def)
    moreover have "bw_tabId ?w = bw_tabId (bl_widgets layout ! i)" by simp
    ultimately show ?thesis using nth_mem [OF 2(2)] by metis
  qed (use assms(3) in \<open>simp add: WidgetResize resizeWidget_def\<close>)
next
  case (TabUpdate tabId title dock position)
  have "w \<in> set (bl_widgets layout)"
    using assms(3,4) by (auto simp: TabUpdate updateTab_def moveTab_def Let_def split: sum.splits if_splits option.splits)
  then show ?thesis by blast
qed (use assms(3,4) in \<open>auto simp: createTab_def reorderTabs_def removeWidget_def Let_def split: if_splits sum.splits\<close>)

lemma core_filter: "mset (map bw_core (filter (\<lambda>w. P (bw_name w)) ws)) = filter_mset (\<lambda>c. P (bw_name c)) (mset (map bw_core ws))"
  by (induction ws) simp_all

lemma core_names: "mset (map bw_name ws) = image_mset bw_name (mset (map bw_core ws))"
  by (induction ws) simp_all

lemma op_ok:
  assumes "board_ok layout" "board_normal layout" "applyBoardOp op layout = Inr layout'"
  shows "board_ok layout'"
proof -
  have core: "mset (map bw_core (bl_widgets layout')) = mset (map bw_core (filter (\<lambda>w. \<not> removedBy op (bw_name w)) (bl_widgets layout)))"
    by (rule op_core [OF assms(3)])
  then have "mset (map bw_name (bl_widgets layout')) = mset (map bw_name (filter (\<lambda>w. \<not> removedBy op (bw_name w)) (bl_widgets layout)))"
    unfolding core_names by simp
  moreover have "distinct (map bw_name (filter (\<lambda>w. \<not> removedBy op (bw_name w)) (bl_widgets layout)))"
    using assms(1) by (simp add: board_ok_def distinct_map_filter)
  ultimately have names: "distinct (map bw_name (bl_widgets layout'))" by (metis mset_eq_imp_distinct_iff)
  have "length (bl_widgets layout') = length (filter (\<lambda>w. \<not> removedBy op (bw_name w)) (bl_widgets layout))"
    using mset_eq_length [OF core] by simp
  then have len: "int (length (bl_widgets layout')) \<le> MAX_POSITION"
    using assms(1) length_filter_le [of "\<lambda>w. \<not> removedBy op (bw_name w)" "bl_widgets layout"] unfolding board_ok_def by linarith
  have "bw_tabId w \<in> bt_tabId ` set (bl_tabs layout')" if w: "w \<in> set (bl_widgets layout')" for w
  proof (cases "bw_tabId w \<in> bt_tabId ` set (bl_tabs layout')")
    case False
    then obtain w' where w': "w' \<in> set (bl_widgets layout)" "bw_tabId w = bw_tabId w'" using op_from [OF assms w] by blast
    then have old: "bw_tabId w \<in> bt_tabId ` set (bl_tabs layout)" using assms(1) by (simp add: board_ok_def)
    with False op_ids(1) [OF assms] have "\<exists>tabId. op = TabDelete tabId \<and> bw_tabId w = tabId" by (cases op) auto
    then obtain tabId where op: "op = TabDelete tabId" "bw_tabId w = tabId" by blast
    have "bw_tabId w \<noteq> tabId" using assms w old unfolding op(1)
    proof (cases rule: require_tab_cases [of layout tabId])
      case (2 i)
      have "fb \<noteq> tabId" if "leaveOut i (bl_tabs layout) = t # rest" "fb = bt_tabId t" for t rest fb
        using filter_leaveOut_sorted(2) [OF assms(1,2) 2(2)] 2(3) that by (metis (mono_tags, lifting) filter_eq_Cons_iff list.simps(9))
      then show ?thesis using assms(3) w 2(1,3) filter_leaveOut_sorted(1) [OF assms(1,2) 2(2)]
        by (auto simp: op(1) deleteTab_def Let_def split: list.splits if_splits)
    qed (simp add: deleteTab_def)
    with op(2) show ?thesis by simp
  qed
  with names len op_ids(2) [OF assms] show ?thesis by (simp add: board_ok_def)
qed

lemma normalize_ok: "board_ok (normalizeBoardLayout layout) \<longleftrightarrow> board_ok layout"
proof -
  let ?n = "normalizeBoardLayout layout"
  have ids: "mset (map bt_tabId (bl_tabs ?n)) = mset (map bt_tabId (bl_tabs layout))"
    by (simp add: normal_tabs renumberTabs_keeps)
  have names: "mset (map bw_name (bl_widgets ?n)) = mset (map bw_name (bl_widgets layout))" by (rule normalize_core) simp
  have tabs: "mset (map bw_tabId (bl_widgets ?n)) = mset (map bw_tabId (bl_widgets layout))" by (rule normalize_core) simp
  have sets: "bt_tabId ` set (bl_tabs ?n) = bt_tabId ` set (bl_tabs layout)" "bw_tabId ` set (bl_widgets ?n) = bw_tabId ` set (bl_widgets layout)"
    using mset_eq_setD [OF ids] mset_eq_setD [OF tabs] by simp_all
  have orphans: "(\<forall>w \<in> set ws. bw_tabId w \<in> T) \<longleftrightarrow> bw_tabId ` set ws \<subseteq> T" for ws T by auto
  have "length (bl_widgets ?n) = length (bl_widgets layout)" using mset_eq_length [OF names] by simp
  then show ?thesis
    unfolding board_ok_def orphans sets mset_eq_imp_distinct_iff [OF ids] mset_eq_imp_distinct_iff [OF names] by (simp only:)
qed

lemma normalize_boxed: "(\<forall>w \<in> set (bl_widgets (normalizeBoardLayout layout)). boxed w) \<longleftrightarrow> (\<forall>w \<in> set (bl_widgets layout). boxed w)"
proof -
  have "mset (map boxed (bl_widgets (normalizeBoardLayout layout))) = mset (map boxed (bl_widgets layout))" by (rule normalize_core) simp
  from mset_eq_setD [OF this] have "boxed ` set (bl_widgets (normalizeBoardLayout layout)) = boxed ` set (bl_widgets layout)" by simp
  moreover have "(\<forall>w \<in> set ws. boxed w) \<longleftrightarrow> False \<notin> boxed ` set ws" for ws by auto
  ultimately show ?thesis by (simp only:)
qed

lemma each_step:
  assumes "board_ok layout" "board_normal layout"
  shows "map_sum id boardView (applyEach ops layout) = viewOps ops (boardView layout)"
    and "applyEach ops layout = Inr layout' \<Longrightarrow> board_ok layout' \<and> board_normal layout' \<and>
      mset (map bw_core (bl_widgets layout')) =
        mset (map bw_core (filter (\<lambda>w. \<not> (\<exists>op \<in> set ops. removedBy op (bw_name w))) (bl_widgets layout))) \<and>
      ((\<forall>w \<in> set (bl_widgets layout). boxed w) \<longrightarrow> (\<forall>w \<in> set (bl_widgets layout'). boxed w))"
  using assms
proof (induction ops arbitrary: layout)
  case (Cons op ops)
  {
    case 1
    show ?case
    proof (cases "applyBoardOp op layout")
      case (Inr changed)
      have "board_ok (normalizeBoardLayout changed)" using op_ok [OF 1 Inr] by (simp add: normalize_ok)
      from Cons.IH(1) [OF this normalize_normal]
      have "map_sum id boardView (applyEach ops (normalizeBoardLayout changed)) = viewOps ops (boardView changed)" by (simp only: normalize_view)
      moreover have "viewOp op (boardView layout) = Inr (boardView changed)" using view_op [OF 1, of op] Inr by simp
      ultimately show ?thesis by (simp only: applyEach.simps viewOps.simps Inr sum.case)
    next
      case (Inl e)
      then have "viewOp op (boardView layout) = Inl e" using view_op [OF 1, of op] by simp
      with Inl show ?thesis by simp
    qed
  next
    case 2
    then obtain changed where op: "applyBoardOp op layout = Inr changed" and rest: "applyEach ops (normalizeBoardLayout changed) = Inr layout'"
      by (auto split: sum.splits)
    have ok: "board_ok (normalizeBoardLayout changed)" using op_ok [OF 2(2,3) op] by (simp add: normalize_ok)
    note IH = Cons.IH(2) [OF rest ok normalize_normal]
    note cf = core_filter [of "\<lambda>n. \<not> (\<exists>op \<in> set ops. removedBy op n)"] core_filter [of "\<lambda>n. \<not> removedBy op n"]
    have "mset (map bw_core (bl_widgets (normalizeBoardLayout changed))) = mset (map bw_core (bl_widgets changed))" by (rule normalize_core) simp
    then have "mset (map bw_core (bl_widgets layout')) =
        filter_mset (\<lambda>c. \<not> (\<exists>op \<in> set ops. removedBy op (bw_name c))) (filter_mset (\<lambda>c. \<not> removedBy op (bw_name c)) (mset (map bw_core (bl_widgets layout))))"
      using IH op_core [OF op] by (simp only: cf)
    also have "\<dots> = mset (map bw_core (filter (\<lambda>w. \<not> (\<exists>op \<in> set (op # ops). removedBy op (bw_name w))) (bl_widgets layout)))"
      unfolding core_filter [of "\<lambda>n. \<not> (\<exists>op \<in> set (op # ops). removedBy op n)"] by (simp add: filter_filter_mset conj_commute)
    moreover have "(\<forall>w \<in> set (bl_widgets layout). boxed w) \<longrightarrow> (\<forall>w \<in> set (bl_widgets (normalizeBoardLayout changed)). boxed w)"
      using op_from [OF 2(2,3) op] unfolding normalize_boxed by blast
    ultimately show ?case using IH by simp
  }
qed simp_all

text \<open>
  C38. A batch of layout operations does to the board what its operations do to the picture a user sees, tabs in order with the names
  of their widgets in order, one after the other, and fails with the same error: the positions stored with tabs and widgets
  implement lists.
\<close>

theorem board_ops_refine:
  assumes "board_ok layout" and "board_normal layout"
  shows "map_sum id boardView (applyBoardOps layout ops) = viewOps ops (boardView layout)"
proof -
  have "map_sum id boardView (applyBoardOps layout ops) = map_sum id boardView (applyEach ops layout)"
    by (cases "applyEach ops layout") (simp_all add: applyBoardOps_def normalize_view)
  then show ?thesis using each_step(1) [OF assms] by simp
qed

text \<open>
  C39. A batch of layout operations keeps the board well formed (ids and names unique, every widget on a tab, positions counting
  from 0, sizes within the grid) and touches nothing else of a widget: its content, revision, declared capabilities and
  grant stay, and exactly the widgets removed by name are gone.
\<close>

theorem layout_ops_keep_widgets:
  assumes "board_ok layout" and "board_normal layout" and "applyBoardOps layout ops = Inr layout'"
  shows "board_ok layout' \<and> board_normal layout' \<and>
    mset (map bw_core (bl_widgets layout')) =
      mset (map bw_core (filter (\<lambda>w. \<not> (\<exists>op \<in> set ops. removedBy op (bw_name w))) (bl_widgets layout))) \<and>
    ((\<forall>w \<in> set (bl_widgets layout). boxed w) \<longrightarrow> (\<forall>w \<in> set (bl_widgets layout'). boxed w))"
proof -
  obtain last where last: "applyEach ops layout = Inr last" "layout' = normalizeBoardLayout last"
    using map_sum_Inr [OF assms(3) [unfolded applyBoardOps_def]] by blast
  have "mset (map bw_core (bl_widgets layout')) = mset (map bw_core (bl_widgets last))" unfolding last(2) by (rule normalize_core) simp
  then show ?thesis using each_step(2) [OF assms(1,2) last(1)] by (simp add: last(2) normalize_ok normalize_normal normalize_boxed)
qed

section \<open>Witnesses\<close>

definition demoTab :: "string \<Rightarrow> int \<Rightarrow> board_tab" where
  "demoTab tabId p = \<lparr>bt_tabId = tabId, bt_title = tabId, bt_position = p, bt_chatDock = DockRight\<rparr>"

definition demoWidget :: "string \<Rightarrow> string \<Rightarrow> int \<Rightarrow> board_widget" where
  "demoWidget name tabId p =
     \<lparr>bw_name = name, bw_tabId = tabId, bw_title = None, bw_contentKind = HtmlContent, bw_contentOwner = Some HtmlOwner,
      bw_registeredContentKind = None, bw_pluginKind = None, bw_props = None, bw_presentation = None, bw_heightMode = None,
      bw_sizeW = 6, bw_sizeH = 4, bw_position = p, bw_grantState = GrantNone, bw_revision = 1, bw_instanceId = None,
      bw_declaredSummary = None, bw_declared = None\<rparr>"

definition demoBoard :: board_layout where
  "demoBoard = \<lparr>bl_tabs = [demoTab ''one'' 0, demoTab ''two'' 1],
     bl_widgets = [demoWidget ''alpha'' ''one'' 0, demoWidget ''beta'' ''one'' 1, demoWidget ''gamma'' ''two'' 0]\<rparr>"

lemma demoBoard_ok: "board_ok demoBoard" "board_normal demoBoard"
  by (simp_all add: board_ok_def board_normal_def demoBoard_def demoTab_def demoWidget_def MAX_POSITION_def)

lemma demoBoard_view: "boardView demoBoard = [(''one'', [''alpha'', ''beta'']), (''two'', [''gamma''])]"
  by code_simp

theorem board_ops_refine_witness:
  "map_sum id boardView (applyBoardOps demoBoard [WidgetMove ''beta'' None (Some 0) None, WidgetMove ''gamma'' (Some ''one'') None (Some ''beta'')]) =
   Inr [(''one'', [''beta'', ''gamma'', ''alpha'']), (''two'', [])]"
proof -
  have "viewOps [WidgetMove ''beta'' None (Some 0) None, WidgetMove ''gamma'' (Some ''one'') None (Some ''beta'')]
      [(''one'', [''alpha'', ''beta'']), (''two'', [''gamma''])] = Inr [(''one'', [''beta'', ''gamma'', ''alpha'']), (''two'', [])]"
    by code_simp
  then show ?thesis unfolding board_ops_refine [OF demoBoard_ok] demoBoard_view .
qed

theorem layout_ops_keep_widgets_witness:
  "\<exists>layout'. applyBoardOps demoBoard [TabDelete ''one'', WidgetRemove ''gamma''] = Inr layout' \<and> board_ok layout' \<and> board_normal layout'"
proof -
  have "\<not> isl (applyBoardOps demoBoard [TabDelete ''one'', WidgetRemove ''gamma''])" by code_simp
  then obtain layout' where l: "applyBoardOps demoBoard [TabDelete ''one'', WidgetRemove ''gamma''] = Inr layout'"
    by (cases "applyBoardOps demoBoard [TabDelete ''one'', WidgetRemove ''gamma'']") simp_all
  from layout_ops_keep_widgets [OF demoBoard_ok l] l show ?thesis by blast
qed

end
