(* ===== verification/BoardCapabilities.thy ===== *)
theory BoardCapabilities
  imports BoardLayout
begin

text \<open>
  What a dashboard widget may ask for: network origins and tools (\<open>src/boards/board-capabilities.ts\<close>), and the content security
  policy its sandbox derives from them (\<open>src/agents/sandbox-host.ts\<close>). The URL parser of the platform is a parameter; an entry of
  a policy is a string.
\<close>

section \<open>The sandbox policy\<close>

record parsed_url =
  pu_protocol :: string
  pu_username :: string
  pu_password :: string
  pu_hostname :: string
  pu_pathname :: string
  pu_search :: string
  pu_hash :: string
  pu_origin :: string

type_synonym url_parser = "string \<Rightarrow> parsed_url option"

record sandbox_csp =
  sc_connectDomains :: "string list option"
  sc_resourceDomains :: "string list option"
  sc_frameDomains :: "string list option"
  sc_baseUriDomains :: "string list option"
  sc_blockDescendantFrames :: "bool option"

definition SANDBOX_HOST_CSP_MAX_JSON_BYTES :: nat where "SANDBOX_HOST_CSP_MAX_JSON_BYTES = 5 * 1024"
definition SANDBOX_HOST_CSP_MAX_HEADER_BYTES :: nat where "SANDBOX_HOST_CSP_MAX_HEADER_BYTES = 6 * 1024"

definition hasControlCharacter :: "string \<Rightarrow> bool" where
  "hasControlCharacter value \<longleftrightarrow> (\<exists>c \<in> set value. let code = (of_char c :: nat) in code \<le> 31 \<or> code = 127)"

definition is_host_char :: "char \<Rightarrow> bool" where
  "is_host_char c \<longleftrightarrow> (let n = (of_char c :: nat) in (65 \<le> n \<and> n \<le> 90) \<or> (97 \<le> n \<and> n \<le> 122) \<or> (48 \<le> n \<and> n \<le> 57) \<or> n = 46 \<or> n = 45)"

definition is_ip6_char :: "char \<Rightarrow> bool" where
  "is_ip6_char c \<longleftrightarrow> (let n = (of_char c :: nat) in (65 \<le> n \<and> n \<le> 70) \<or> (97 \<le> n \<and> n \<le> 102) \<or> (48 \<le> n \<and> n \<le> 57) \<or> n = 46 \<or> n = 58)"

text \<open>\<open>/^\[[0-9A-Fa-f:.]+\]$/\<close> and \<open>/^[A-Za-z0-9.-]+$/\<close>.\<close>

definition bracketedHost :: "string \<Rightarrow> bool" where
  "bracketedHost h \<longleftrightarrow> 3 \<le> length h \<and> hd h = CHR ''['' \<and> last h = CHR '']'' \<and> list_all is_ip6_char (butlast (tl h))"

definition plainHost :: "string \<Rightarrow> bool" where
  "plainHost h \<longleftrightarrow> h \<noteq> [] \<and> list_all is_host_char h"

text \<open>\<open>/^(?:\*\.)?[A-Za-z0-9.-]+$/\<close>.\<close>

definition wildcardHost :: "string \<Rightarrow> bool" where
  "wildcardHost h \<longleftrightarrow> plainHost h \<or> (starts_with ''*.'' h \<and> plainHost (drop 2 h))"

definition bareUrl :: "parsed_url \<Rightarrow> bool" where
  "bareUrl u \<longleftrightarrow> pu_username u = [] \<and> pu_password u = [] \<and> pu_pathname u = ''/'' \<and> pu_search u = [] \<and> pu_hash u = []"

definition domainAllowed :: "url_parser \<Rightarrow> bool \<Rightarrow> string \<Rightarrow> bool" where
  "domainAllowed parse allowWebSocket entry \<longleftrightarrow>
     entry \<noteq> [] \<and> length entry \<le> 2048 \<and> entry = js_trim entry \<and> \<not> hasControlCharacter entry \<and>
     (case parse entry of
        None \<Rightarrow> False
      | Some u \<Rightarrow>
          pu_protocol u \<in> set (if allowWebSocket then [''http:'', ''https:'', ''ws:'', ''wss:''] else [''http:'', ''https:'']) \<and>
          bareUrl u \<and> (bracketedHost (pu_hostname u) \<or> wildcardHost (pu_hostname u)))"

definition normalizeDomains :: "url_parser \<Rightarrow> bool \<Rightarrow> string list option \<Rightarrow> string list option" where
  "normalizeDomains parse allowWebSocket value =
     (case value of
        None \<Rightarrow> None
      | Some entries \<Rightarrow>
          let allowed = List.map_filter (\<lambda>e. map_option pu_origin (parse e)) (filter (domainAllowed parse allowWebSocket) entries) in
          if allowed = [] then None else Some allowed)"

text \<open>\<open>JSON.stringify\<close> on strings of 8-bit units, on arrays of them and on a policy, whose undefined fields it leaves out.\<close>

definition hexDigit :: "nat \<Rightarrow> char" where
  "hexDigit n = ''0123456789abcdef'' ! (n mod 16)"

definition jsonChar :: "char \<Rightarrow> string" where
  "jsonChar c = (let n = (of_char c :: nat) in
     if n = 34 then [CHR 0x5C, CHR 0x22]
     else if n = 92 then [CHR 0x5C, CHR 0x5C]
     else if n = 8 then [CHR 0x5C, CHR ''b''] else if n = 9 then [CHR 0x5C, CHR ''t''] else if n = 10 then [CHR 0x5C, CHR ''n'']
     else if n = 12 then [CHR 0x5C, CHR ''f''] else if n = 13 then [CHR 0x5C, CHR ''r'']
     else if n < 32 then [CHR 0x5C, CHR ''u'', CHR ''0'', CHR ''0'', hexDigit (n div 16), hexDigit n]
     else [c])"

definition jsonString :: "string \<Rightarrow> string" where
  "jsonString s = [CHR 0x22] @ concat (map jsonChar s) @ [CHR 0x22]"

fun joinWith :: "string \<Rightarrow> string list \<Rightarrow> string" where
  "joinWith sep [] = []"
| "joinWith sep [x] = x"
| "joinWith sep (x # y # ys) = x @ sep @ joinWith sep (y # ys)"

definition jsonArray :: "string list \<Rightarrow> string" where
  "jsonArray xs = ''['' @ joinWith '','' (map jsonString xs) @ '']''"

definition jsonField :: "string \<Rightarrow> string option \<Rightarrow> string list" where
  "jsonField key value = (case value of None \<Rightarrow> [] | Some v \<Rightarrow> [jsonString key @ '':'' @ v])"

definition jsonCsp :: "sandbox_csp \<Rightarrow> string" where
  "jsonCsp csp = ''{'' @ joinWith '',''
     (jsonField ''connectDomains'' (map_option jsonArray (sc_connectDomains csp)) @
      jsonField ''resourceDomains'' (map_option jsonArray (sc_resourceDomains csp)) @
      jsonField ''frameDomains'' (map_option jsonArray (sc_frameDomains csp)) @
      jsonField ''baseUriDomains'' (map_option jsonArray (sc_baseUriDomains csp)) @
      jsonField ''blockDescendantFrames'' (map_option (\<lambda>b. if b then ''true'' else ''false'') (sc_blockDescendantFrames csp))) @ ''}''"

definition quoted :: "string \<Rightarrow> string" where
  "quoted s = [CHR 0x27] @ s @ [CHR 0x27]"

definition domainsOf :: "string list option \<Rightarrow> string list" where
  "domainsOf ds = (case ds of None \<Rightarrow> [] | Some xs \<Rightarrow> xs)"

definition cspSources :: "string list \<Rightarrow> string" where
  "cspSources values = (if values \<noteq> [] then joinWith '' '' values else quoted ''none'')"

definition buildSandboxHostContentSecurityPolicy :: "sandbox_csp option \<Rightarrow> string" where
  "buildSandboxHostContentSecurityPolicy csp =
     (let resources = (case csp of None \<Rightarrow> [] | Some c \<Rightarrow> domainsOf (sc_resourceDomains c));
          connections = (case csp of None \<Rightarrow> [] | Some c \<Rightarrow> domainsOf (sc_connectDomains c));
          frames = (case csp of None \<Rightarrow> [] | Some c \<Rightarrow> domainsOf (sc_frameDomains c));
          bases = (case csp of None \<Rightarrow> [] | Some c \<Rightarrow> domainsOf (sc_baseUriDomains c));
          self = quoted ''self''
      in joinWith ''; ''
       ([''default-src '' @ quoted ''none'',
         js_trim (''script-src '' @ self @ '' '' @ quoted ''unsafe-inline'' @ '' '' @ joinWith '' '' resources),
         js_trim (''style-src '' @ self @ '' '' @ quoted ''unsafe-inline'' @ '' '' @ joinWith '' '' resources),
         js_trim (''img-src '' @ self @ '' data: '' @ joinWith '' '' resources),
         js_trim (''media-src '' @ self @ '' data: '' @ joinWith '' '' resources)] @
        (if csp = None then [] else [js_trim (''font-src '' @ self @ '' '' @ joinWith '' '' resources)]) @
        [''connect-src '' @ cspSources connections,
         ''webrtc '' @ quoted ''block'',
         ''frame-src '' @ cspSources frames,
         ''base-uri '' @ (if bases \<noteq> [] then joinWith '' '' bases else self),
         ''object-src '' @ quoted ''none'',
         ''form-action '' @ quoted ''none'',
         ''frame-ancestors http: https:'']))"

text \<open>Undefined is \<open>Inr None\<close>; \<open>Inl\<close> is the exception for a policy that is too large.\<close>

definition normalizeSandboxHostCsp :: "url_parser \<Rightarrow> sandbox_csp option \<Rightarrow> unit + sandbox_csp option" where
  "normalizeSandboxHostCsp parse value =
     (case value of
        None \<Rightarrow> Inr None
      | Some v \<Rightarrow>
          let csp = \<lparr>sc_connectDomains = normalizeDomains parse True (sc_connectDomains v),
                     sc_resourceDomains = normalizeDomains parse False (sc_resourceDomains v),
                     sc_frameDomains = normalizeDomains parse False (sc_frameDomains v),
                     sc_baseUriDomains = normalizeDomains parse False (sc_baseUriDomains v),
                     sc_blockDescendantFrames = (if sc_blockDescendantFrames v = Some True then Some True else None)\<rparr>
          in if csp = \<lparr>sc_connectDomains = None, sc_resourceDomains = None, sc_frameDomains = None, sc_baseUriDomains = None, sc_blockDescendantFrames = None\<rparr>
             then Inr None
             else if length (utf8Bytes (jsonCsp csp)) > SANDBOX_HOST_CSP_MAX_JSON_BYTES \<or>
                     length (utf8Bytes (buildSandboxHostContentSecurityPolicy (Some csp))) > SANDBOX_HOST_CSP_MAX_HEADER_BYTES
             then Inl ()
             else Inr (Some csp))"

section \<open>Declarations\<close>

definition MAX_DECLARED_ORIGINS :: nat where "MAX_DECLARED_ORIGINS = 32"
definition MAX_DECLARED_TOOLS :: nat where "MAX_DECLARED_TOOLS = 64"
definition BOARD_CRON_TRIGGER_PREFIX :: string where "BOARD_CRON_TRIGGER_PREFIX = ''cron.trigger:''"
definition BOARD_CRON_JOB_ID_MAX_LENGTH :: nat where "BOARD_CRON_JOB_ID_MAX_LENGTH = 256"
definition BOARD_WIDGET_TOOL_MAX_LENGTH :: nat where
  "BOARD_WIDGET_TOOL_MAX_LENGTH = length BOARD_CRON_TRIGGER_PREFIX + BOARD_CRON_JOB_ID_MAX_LENGTH"

definition normalizeBoardNetOrigin :: "url_parser \<Rightarrow> string \<Rightarrow> board_error + string" where
  "normalizeBoardNetOrigin parse value =
     (if value \<noteq> js_trim value \<or> length value = 0 \<or> length value > 2048 then Inl BoardInvalidOperation
      else (case parse value of
              None \<Rightarrow> Inl BoardInvalidOperation
            | Some u \<Rightarrow>
                let host = pu_hostname u;
                    supportedHostname = bracketedHost host \<or> plainHost host
                in if pu_protocol u \<noteq> ''https:'' \<or> \<not> bareUrl u \<or> \<not> supportedHostname \<or> CHR ''*'' \<in> set host \<or> (host \<noteq> [] \<and> last host = CHR ''.'')
                   then Inl BoardInvalidOperation
                   else Inr (pu_origin u)))"

definition normalizeTool :: "string \<Rightarrow> board_error + string" where
  "normalizeTool value =
     (let tool = js_trim value in
      if length tool = 0 \<or> length tool > BOARD_WIDGET_TOOL_MAX_LENGTH \<or> tool \<noteq> value \<or> hasControlCharacter tool
      then Inl BoardInvalidOperation else Inr tool)"

text \<open>\<open>values.map(f)\<close> for an \<open>f\<close> that may throw.\<close>

fun mapOrFail :: "('a \<Rightarrow> 'e + 'b) \<Rightarrow> 'a list \<Rightarrow> 'e + 'b list" where
  "mapOrFail f [] = Inr []"
| "mapOrFail f (x # xs) = (case f x of Inl e \<Rightarrow> Inl e | Inr y \<Rightarrow> map_sum id ((#) y) (mapOrFail f xs))"

definition canonicalSet :: "string list \<Rightarrow> string list" where
  "canonicalSet values = sort_by compareCodeUnits (uniqueValues values)"

definition declaredOf :: "string list option \<Rightarrow> string list" where
  "declaredOf v = (case v of None \<Rightarrow> [] | Some xs \<Rightarrow> xs)"

text \<open>The second half of \<open>normalizeBoardWidgetDeclared\<close>: the sandbox has to accept the origins as they are.\<close>

definition finishDeclared :: "url_parser \<Rightarrow> string list \<Rightarrow> string list \<Rightarrow> board_error + widget_declared option" where
  "finishDeclared parse netOrigins tools =
     (case normalizeSandboxHostCsp parse
         (Some \<lparr>sc_connectDomains = Some netOrigins, sc_resourceDomains = None, sc_frameDomains = None, sc_baseUriDomains = None, sc_blockDescendantFrames = None\<rparr>) of
        Inl _ \<Rightarrow> Inl BoardInvalidOperation
      | Inr csp \<Rightarrow>
          if netOrigins \<noteq> [] \<and> Option.bind csp sc_connectDomains \<noteq> Some netOrigins then Inl BoardInvalidOperation
          else if netOrigins = [] \<and> tools = [] then Inr None
          else Inr (Some \<lparr>wd_netOrigins = (if netOrigins \<noteq> [] then Some netOrigins else None),
                          wd_tools = (if tools \<noteq> [] then Some tools else None)\<rparr>))"

definition normalizeBoardWidgetDeclared :: "url_parser \<Rightarrow> widget_declared option \<Rightarrow> board_error + widget_declared option" where
  "normalizeBoardWidgetDeclared parse declared =
     (case declared of
        None \<Rightarrow> Inr None
      | Some d \<Rightarrow>
          if length (declaredOf (wd_netOrigins d)) > MAX_DECLARED_ORIGINS then Inl BoardInvalidOperation
          else if length (declaredOf (wd_tools d)) > MAX_DECLARED_TOOLS then Inl BoardInvalidOperation
          else (case mapOrFail (normalizeBoardNetOrigin parse) (declaredOf (wd_netOrigins d)) of
                  Inl e \<Rightarrow> Inl e
                | Inr origins \<Rightarrow>
                    (case mapOrFail normalizeTool (declaredOf (wd_tools d)) of
                       Inl e \<Rightarrow> Inl e
                     | Inr tools \<Rightarrow> finishDeclared parse (canonicalSet origins) (canonicalSet tools))))"

definition originsOf :: "widget_declared option \<Rightarrow> string list" where
  "originsOf d = (case d of None \<Rightarrow> [] | Some v \<Rightarrow> declaredOf (wd_netOrigins v))"

definition toolsOf :: "widget_declared option \<Rightarrow> string list" where
  "toolsOf d = (case d of None \<Rightarrow> [] | Some v \<Rightarrow> declaredOf (wd_tools v))"

definition boardDeclarationIsSubset :: "widget_declared option \<Rightarrow> widget_declared option \<Rightarrow> bool" where
  "boardDeclarationIsSubset requested granted \<longleftrightarrow>
     list_all (\<lambda>x. x \<in> set (originsOf granted)) (originsOf requested) \<and> list_all (\<lambda>x. x \<in> set (toolsOf granted)) (toolsOf requested)"

definition boardWidgetHasGrantedTool :: "widget_declared option \<Rightarrow> grant_state \<Rightarrow> string \<Rightarrow> bool" where
  "boardWidgetHasGrantedTool declared grantState tool \<longleftrightarrow> grantState = Granted \<and> tool \<in> set (toolsOf declared)"

section \<open>What a declaration in normal form is\<close>

interpretation code_units: strict_comparator compareCodeUnits
  by (rule strict_code_units)

lemma canonicalSet_props:
  "set (canonicalSet xs) = set xs" "distinct (canonicalSet xs)" "sorted_wrt (\<lambda>x y. compareCodeUnits x y \<le> 0) (canonicalSet xs)"
  "length (canonicalSet xs) \<le> length xs"
proof -
  show "set (canonicalSet xs) = set xs" "distinct (canonicalSet xs)" by (simp_all add: canonicalSet_def distinct_sort_by)
  show "sorted_wrt (\<lambda>x y. compareCodeUnits x y \<le> 0) (canonicalSet xs)" by (simp add: canonicalSet_def code_units.sorted_sort_by)
  have "length (canonicalSet xs) = card (set xs)" by (metis canonicalSet_def distinct_card distinct_uniqueValues length_sort_by set_uniqueValues)
  then show "length (canonicalSet xs) \<le> length xs" by (simp add: card_length)
qed

lemma canonicalSet_idem: "canonicalSet (canonicalSet xs) = canonicalSet xs"
  using canonicalSet_props(2,3) [of xs]
  by (simp add: canonicalSet_def [of "canonicalSet xs"] uniqueValues_distinct sort_by_sorted)

lemma mapOrFail_Inr: "mapOrFail f xs = Inr ys \<Longrightarrow> list_all2 (\<lambda>x y. f x = Inr y) xs ys"
proof (induction xs arbitrary: ys)
  case (Cons x xs)
  then obtain y ys' where "f x = Inr y" "mapOrFail f xs = Inr ys'" "ys = y # ys'"
    by (cases "f x"; cases "mapOrFail f xs") auto
  with Cons.IH show ?case by simp
qed simp

lemma mapOrFail_from: "mapOrFail f xs = Inr ys \<Longrightarrow> y \<in> set ys \<Longrightarrow> \<exists>x \<in> set xs. f x = Inr y"
  using mapOrFail_Inr [of f xs ys] by (auto simp: list_all2_conv_all_nth in_set_conv_nth) (metis nth_mem)

lemma mapOrFail_fixed: "(\<And>x. x \<in> set xs \<Longrightarrow> f x = Inr x) \<Longrightarrow> mapOrFail f xs = Inr xs"
  by (induction xs) simp_all

lemma mapOrFail_length: "mapOrFail f xs = Inr ys \<Longrightarrow> length ys = length xs"
  using mapOrFail_Inr [of f xs ys] by (simp add: list_all2_lengthD)

text \<open>The sandbox kept every origin, so each is allowed and its own origin.\<close>

lemma kept_domains:
  assumes "List.map_filter (\<lambda>e. map_option pu_origin (parse e)) (filter (domainAllowed parse ws) xs) = xs" "x \<in> set xs"
  shows "domainAllowed parse ws x \<and> (\<exists>u. parse x = Some u \<and> pu_origin u = x)"
proof -
  let ?f = "\<lambda>e. map_option pu_origin (parse e)"
  have le: "length (List.map_filter ?f ys) \<le> length ys" for ys
    by (induction ys) (simp_all add: map_filter_simps split: option.split)
  have "length (filter (domainAllowed parse ws) xs) = length xs"
    using le [of "filter (domainAllowed parse ws) xs"] assms(1) by (metis le_antisym length_filter_le)
  then have "\<forall>y \<in> set xs. domainAllowed parse ws y" using length_filter_less [of _ xs "domainAllowed parse ws"] by fastforce
  then have all: "filter (domainAllowed parse ws) xs = xs" by (simp add: filter_id_conv)
  have parsed: "\<exists>u. parse y = Some u" if "domainAllowed parse ws y" for y
    using that by (auto simp: domainAllowed_def split: option.splits)
  have "List.map_filter ?f ys = ys \<Longrightarrow> \<forall>y \<in> set ys. domainAllowed parse ws y \<Longrightarrow> x \<in> set ys \<Longrightarrow> \<exists>u. parse x = Some u \<and> pu_origin u = x" for ys
  proof (induction ys)
    case (Cons y ys)
    obtain u where "parse y = Some u" using parsed Cons.prems(2) by auto
    with Cons.prems show ?case using Cons.IH by (auto simp: map_filter_simps)
  qed simp
  then show ?thesis using assms all \<open>\<forall>y \<in> set xs. domainAllowed parse ws y\<close> by auto
qed

lemma sandbox_keeps:
  assumes "normalizeSandboxHostCsp parse (Some \<lparr>sc_connectDomains = Some xs, sc_resourceDomains = None, sc_frameDomains = None,
      sc_baseUriDomains = None, sc_blockDescendantFrames = None\<rparr>) = Inr csp" "Option.bind csp sc_connectDomains = Some xs"
  shows "List.map_filter (\<lambda>e. map_option pu_origin (parse e)) (filter (domainAllowed parse True) xs) = xs"
    and "\<exists>c. csp = Some c \<and> c = \<lparr>sc_connectDomains = Some xs, sc_resourceDomains = None, sc_frameDomains = None,
      sc_baseUriDomains = None, sc_blockDescendantFrames = None\<rparr> \<and>
      length (utf8Bytes (buildSandboxHostContentSecurityPolicy (Some c))) \<le> SANDBOX_HOST_CSP_MAX_HEADER_BYTES"
  using assms by (auto simp: normalizeSandboxHostCsp_def normalizeDomains_def Let_def split: if_splits)

definition is_port_digit :: "char \<Rightarrow> bool" where
  "is_port_digit c \<longleftrightarrow> (let n = (of_char c :: nat) in 48 \<le> n \<and> n \<le> 57)"

text \<open>
  What is relied on of the platform's URL parser: the origin of an https URL is written from its host and port, and parsing an origin
  finds that host again.
\<close>

definition originSerialised :: "url_parser \<Rightarrow> bool" where
  "originSerialised parse \<longleftrightarrow> (\<forall>v u. parse v = Some u \<longrightarrow> pu_protocol u = ''https:'' \<longrightarrow>
     (\<exists>port. list_all is_port_digit port \<and>
        pu_origin u = ''https://'' @ pu_hostname u @ (if port = [] then [] else '':'' @ port)) \<and>
     (\<forall>u'. parse (pu_origin u) = Some u' \<longrightarrow> pu_protocol u' = ''https:'' \<and> pu_hostname u' = pu_hostname u))"

lemma originSerialisedD:
  assumes "originSerialised parse" "parse v = Some u" "pu_protocol u = ''https:''"
  shows "\<exists>port. list_all is_port_digit port \<and> pu_origin u = ''https://'' @ pu_hostname u @ (if port = [] then [] else '':'' @ port)"
    and "parse (pu_origin u) = Some u' \<Longrightarrow> pu_protocol u' = ''https:'' \<and> pu_hostname u' = pu_hostname u"
  using assms unfolding originSerialised_def by blast+

definition originChar :: "char \<Rightarrow> bool" where
  "originChar c \<longleftrightarrow> is_host_char c \<or> c \<in> set '':/[]''"

lemma digits_host: "list_all is_port_digit port \<Longrightarrow> list_all originChar port"
  by (auto simp: list_all_iff originChar_def is_host_char_def is_port_digit_def Let_def)

lemma bracketed_chars:
  assumes "bracketedHost h"
  shows "list_all originChar h"
proof -
  from assms obtain rest where r: "h = CHR ''['' # rest" "rest \<noteq> []" by (cases h; cases "tl h") (auto simp: bracketedHost_def)
  then have h: "h = hd h # butlast (tl h) @ [last h]" by simp
  have "originChar (hd h)" "originChar (last h)" "list_all is_ip6_char (butlast (tl h))" using assms by (auto simp: bracketedHost_def originChar_def)
  moreover have "is_ip6_char c \<Longrightarrow> originChar c" for c
  proof -
    assume "is_ip6_char c"
    then consider "is_host_char c" | "(of_char c :: nat) = 58" by (auto simp: is_ip6_char_def is_host_char_def Let_def)
    then show ?thesis
    proof cases
      case 2
      then have "(of_char c :: nat) = of_char (CHR '':'')" by simp
      then have "c = CHR '':''" by (simp only: of_char_eq_iff)
      then show ?thesis by (simp add: originChar_def)
    qed (simp add: originChar_def)
  qed
  ultimately show ?thesis by (subst h) (auto simp: list_all_iff)
qed

lemma plain_chars: "plainHost h \<Longrightarrow> list_all originChar h"
  by (auto simp: plainHost_def list_all_iff originChar_def)

lemma finish_Some:
  assumes "finishDeclared parse xs ts = Inr (Some n)"
  shows "n = \<lparr>wd_netOrigins = (if xs \<noteq> [] then Some xs else None), wd_tools = (if ts \<noteq> [] then Some ts else None)\<rparr>" (is ?n)
    and "x \<in> set xs \<Longrightarrow> domainAllowed parse True x \<and> (\<exists>u. parse x = Some u \<and> pu_origin u = x)"
    and "originsOf (Some n) = xs" "toolsOf (Some n) = ts"
proof -
  obtain csp where c: "normalizeSandboxHostCsp parse (Some \<lparr>sc_connectDomains = Some xs, sc_resourceDomains = None, sc_frameDomains = None,
      sc_baseUriDomains = None, sc_blockDescendantFrames = None\<rparr>) = Inr csp" "xs \<noteq> [] \<Longrightarrow> Option.bind csp sc_connectDomains = Some xs"
    and n: ?n
    using assms by (auto simp: finishDeclared_def split: sum.splits if_splits)
  show ?n by (rule n)
  show "originsOf (Some n) = xs" "toolsOf (Some n) = ts" by (simp_all add: n originsOf_def toolsOf_def declaredOf_def)
  assume m: "x \<in> set xs"
  then have "xs \<noteq> []" by auto
  from kept_domains [OF sandbox_keeps(1) [OF c(1) c(2) [OF this]] m]
  show "domainAllowed parse True x \<and> (\<exists>u. parse x = Some u \<and> pu_origin u = x)" .
qed

lemma normalized_parts:
  assumes "normalizeBoardWidgetDeclared parse (Some d) = Inr r"
  obtains origins tools where
    "mapOrFail (normalizeBoardNetOrigin parse) (declaredOf (wd_netOrigins d)) = Inr origins"
    "mapOrFail normalizeTool (declaredOf (wd_tools d)) = Inr tools"
    "length (declaredOf (wd_netOrigins d)) \<le> MAX_DECLARED_ORIGINS" "length (declaredOf (wd_tools d)) \<le> MAX_DECLARED_TOOLS"
    "finishDeclared parse (canonicalSet origins) (canonicalSet tools) = Inr r"
  using assms by (auto simp: normalizeBoardWidgetDeclared_def split: sum.splits if_splits)

lemma net_origin_Inr:
  assumes "normalizeBoardNetOrigin parse v = Inr x"
  obtains u where "parse v = Some u" "pu_protocol u = ''https:''" "bareUrl u" "bracketedHost (pu_hostname u) \<or> plainHost (pu_hostname u)"
    "CHR ''*'' \<notin> set (pu_hostname u)" "pu_hostname u = [] \<or> last (pu_hostname u) \<noteq> CHR ''.''" "x = pu_origin u"
  using assms by (auto simp: normalizeBoardNetOrigin_def Let_def split: if_splits option.splits)

lemma canonical_origin:
  assumes "originSerialised parse" and o: "mapOrFail (normalizeBoardNetOrigin parse) (declaredOf (wd_netOrigins d)) = Inr origins"
    and f: "finishDeclared parse (canonicalSet origins) (canonicalSet tools) = Inr (Some n)" and x: "x \<in> set (canonicalSet origins)"
  shows "list_all originChar x \<and> domainAllowed parse True x \<and>
    (\<exists>v \<in> set (declaredOf (wd_netOrigins d)). \<exists>u. parse v = Some u \<and> pu_protocol u = ''https:'' \<and> x = pu_origin u) \<and>
    normalizeBoardNetOrigin parse x = Inr x"
proof -
  have "x \<in> set origins" using x by (simp add: canonicalSet_props)
  from mapOrFail_from [OF o this] obtain v where v: "v \<in> set (declaredOf (wd_netOrigins d))" "normalizeBoardNetOrigin parse v = Inr x" by blast
  obtain u where u: "parse v = Some u" "pu_protocol u = ''https:''"
    "bracketedHost (pu_hostname u) \<or> plainHost (pu_hostname u)" "CHR ''*'' \<notin> set (pu_hostname u)"
    "pu_hostname u = [] \<or> last (pu_hostname u) \<noteq> CHR ''.''" "x = pu_origin u" by (rule net_origin_Inr [OF v(2)]) (rule that; assumption)
  obtain port where port: "list_all is_port_digit port"
    "x = ''https://'' @ pu_hostname u @ (if port = [] then [] else '':'' @ port)"
    using originSerialisedD(1) [OF assms(1) u(1,2)] unfolding u(6) by blast
  have chars: "list_all originChar x"
    using bracketed_chars plain_chars u(3) digits_host [OF port(1)] by (auto simp: port(2) originChar_def is_host_char_def)
  obtain u' where d: "domainAllowed parse True x" "parse x = Some u'" "pu_origin u' = x" using finish_Some(2) [OF f x] by blast
  have "pu_protocol u' = ''https:''" "pu_hostname u' = pu_hostname u" using originSerialisedD(2) [OF assms(1) u(1,2)] d(2) u(6) by blast+
  then have "normalizeBoardNetOrigin parse x = Inr x" using d u(3-5) by (auto simp: normalizeBoardNetOrigin_def domainAllowed_def Let_def)
  with chars d(1) v(1) u(1,2,6) show ?thesis by blast
qed

lemma canonical_tool:
  assumes t: "mapOrFail normalizeTool (declaredOf (wd_tools d)) = Inr tools" and x: "x \<in> set (canonicalSet tools)"
  shows "x \<in> set (declaredOf (wd_tools d)) \<and> js_trim x = x \<and> 0 < length x \<and> length x \<le> BOARD_WIDGET_TOOL_MAX_LENGTH \<and>
    normalizeTool x = Inr x"
proof -
  have "x \<in> set tools" using x by (simp add: canonicalSet_props)
  from mapOrFail_from [OF t this] obtain v where v: "v \<in> set (declaredOf (wd_tools d))" "normalizeTool v = Inr x" by blast
  then have "x = v" "js_trim v = v" by (auto simp: normalizeTool_def Let_def split: if_splits)
  then show ?thesis using v by (auto simp: normalizeTool_def Let_def split: if_splits)
qed

text \<open>A declaration in normal form is its own normal form.\<close>

lemma declared_idem:
  assumes "originSerialised parse" and "normalizeBoardWidgetDeclared parse declared = Inr result"
  shows "normalizeBoardWidgetDeclared parse result = Inr result"
proof (cases "declared = None \<or> result = None")
  case True
  then show ?thesis using assms(2) by (auto simp: normalizeBoardWidgetDeclared_def)
next
  case False
  then obtain d n where dn: "declared = Some d" "result = Some n" by (cases declared; cases result) simp_all
  obtain origins tools where o: "mapOrFail (normalizeBoardNetOrigin parse) (declaredOf (wd_netOrigins d)) = Inr origins"
    and t: "mapOrFail normalizeTool (declaredOf (wd_tools d)) = Inr tools"
    and len: "length (declaredOf (wd_netOrigins d)) \<le> MAX_DECLARED_ORIGINS" "length (declaredOf (wd_tools d)) \<le> MAX_DECLARED_TOOLS"
    and f: "finishDeclared parse (canonicalSet origins) (canonicalSet tools) = Inr (Some n)"
    by (rule normalized_parts [OF assms(2) [unfolded dn]])
  have bounds: "length (canonicalSet origins) \<le> MAX_DECLARED_ORIGINS" "length (canonicalSet tools) \<le> MAX_DECLARED_TOOLS"
    using canonicalSet_props(4) [of origins] canonicalSet_props(4) [of tools] mapOrFail_length [OF o] mapOrFail_length [OF t] len by simp_all
  have again: "mapOrFail (normalizeBoardNetOrigin parse) (canonicalSet origins) = Inr (canonicalSet origins)"
    "mapOrFail normalizeTool (canonicalSet tools) = Inr (canonicalSet tools)"
    using canonical_origin [OF assms(1) o f] canonical_tool [OF t] by (simp_all add: mapOrFail_fixed)
  have of: "declaredOf (wd_netOrigins n) = canonicalSet origins" "declaredOf (wd_tools n) = canonicalSet tools"
    by (simp_all add: finish_Some(1) [OF f] declaredOf_def)
  show ?thesis
    unfolding dn using bounds f by (simp add: normalizeBoardWidgetDeclared_def of again canonicalSet_idem)
qed


definition demoUrl :: parsed_url where
  "demoUrl = \<lparr>pu_protocol = ''https:'', pu_username = [], pu_password = [], pu_hostname = ''a.test'', pu_pathname = ''/'', pu_search = [],
     pu_hash = [], pu_origin = ''https://a.test''\<rparr>"

definition demoParse :: url_parser where
  "demoParse v = (if v = ''https://a.test'' \<or> v = ''https://a.test/'' then Some demoUrl else None)"

lemma demoParse_serialised: "originSerialised demoParse"
proof -
  have "\<exists>port. list_all is_port_digit port \<and> pu_origin demoUrl = ''https://'' @ pu_hostname demoUrl @ (if port = [] then [] else '':'' @ port)"
    by (rule exI [of _ "[]"]) (simp add: demoUrl_def)
  then show ?thesis by (auto simp: originSerialised_def demoParse_def split: if_splits)
qed


end
