(* ===== verification/BoardGrants.thy ===== *)
theory BoardGrants
  imports BoardCapabilities "HOL-Library.Code_Target_Nat"
begin

text \<open>
  Putting widgets on a board and granting what they declare (\<open>src/boards/board-store.ts\<close>): the snapshots that the store writes. The
  digest, the URL parser and the instance id are arguments; a copy of a value is the value. The agent id of a put, which these functions do
not read, is left out.
\<close>

section \<open>Data\<close>

record board_snapshot =
  bs_sessionKey :: string
  bs_revision :: int
  bs_layout :: board_layout

record mcp_descriptor =
  md_serverName :: string
  md_toolName :: string
  md_uiResourceUri :: string
  md_toolCallId :: string

datatype put_content =
    PutHtml string
  | PutMcpApp mcp_descriptor bool
  | PutPlugin string "string option"
  | PutRegistered string string string

record put_placement =
  pp_tabId :: "string option"
  pp_size :: "board_size option"
  pp_after :: "string option"

record generated_identity =
  gi_source :: string
  gi_key :: string
  gi_fallbackName :: string

record put_params =
  pa_sessionKey :: string
  pa_name :: string
  pa_title :: "string option"
  pa_content :: put_content
  pa_presentation :: "widget_presentation option"
  pa_heightMode :: "height_mode option"
  pa_placement :: "put_placement option"
  pa_declared :: "widget_declared option"
  pa_generatedIdentity :: "generated_identity option"

datatype name_marker = ExplicitName | GeneratedName string string | InvalidName

record put_context =
  pc_grantScopeMatches :: bool
  pc_grantedSha256 :: "string option"
  pc_instanceId :: string

definition BOARD_MAX_WIDGETS :: nat where "BOARD_MAX_WIDGETS = 48"
definition BOARD_MAX_WIDGET_HTML_BYTES :: nat where "BOARD_MAX_WIDGET_HTML_BYTES = 256 * 1024"
definition BOARD_MAX_WIDGET_PLUGIN_PROPS_BYTES :: nat where "BOARD_MAX_WIDGET_PLUGIN_PROPS_BYTES = 8 * 1024"

fun contentOwner :: "put_content \<Rightarrow> content_owner" where
  "contentOwner (PutHtml _) = HtmlOwner"
| "contentOwner (PutMcpApp _ _) = McpAppOwner"
| "contentOwner (PutPlugin _ _) = PluginOwner"
| "contentOwner (PutRegistered _ _ _) = RegisteredOwner"

fun contentKind :: "put_content \<Rightarrow> widget_content" where
  "contentKind (PutHtml _) = HtmlContent"
| "contentKind (PutMcpApp _ _) = McpAppContent"
| "contentKind (PutPlugin _ _) = PluginContent"
| "contentKind (PutRegistered _ _ _) = PluginContent"

fun contentPluginKind :: "put_content \<Rightarrow> string option" where
  "contentPluginKind (PutPlugin k _) = Some k"
| "contentPluginKind (PutRegistered _ _ k) = Some k"
| "contentPluginKind _ = None"

fun registeredKind :: "put_content \<Rightarrow> string option" where
  "registeredKind (PutRegistered c _ _) = Some c"
| "registeredKind _ = None"

fun contentProps :: "put_content \<Rightarrow> string option" where
  "contentProps (PutPlugin _ props) = props"
| "contentProps _ = None"

text \<open>The bytes that a grant freezes: the HTML document or the registered source.\<close>

fun frozenBytes :: "put_content \<Rightarrow> string option" where
  "frozenBytes (PutHtml html) = Some html"
| "frozenBytes (PutRegistered _ source _) = Some source"
| "frozenBytes _ = None"

section \<open>Names of generated widgets\<close>

definition generatedIdentityMatches :: "name_marker option \<Rightarrow> string \<Rightarrow> string \<Rightarrow> bool" where
  "generatedIdentityMatches left source key \<longleftrightarrow> left = Some (GeneratedName source key)"

definition resolveBoardWidgetPutParams :: "board_snapshot \<Rightarrow> put_params \<Rightarrow> (string \<Rightarrow> name_marker option) \<Rightarrow> board_error + put_params" where
  "resolveBoardWidgetPutParams prior params nameIdentities =
     (case pa_generatedIdentity params of
        None \<Rightarrow> Inr params
      | Some g \<Rightarrow>
          if gi_fallbackName g = pa_name params then Inl BoardInvalidOperation
          else (case find (\<lambda>w. generatedIdentityMatches (nameIdentities (bw_name w)) (gi_source g) (gi_key g)) (bl_widgets (bs_layout prior)) of
                  Some w \<Rightarrow> Inr (params\<lparr>pa_name := bw_name w\<rparr>)
                | None \<Rightarrow>
                    if \<not> (\<exists>w \<in> set (bl_widgets (bs_layout prior)). bw_name w = pa_name params) then Inr params
                    else if \<exists>w \<in> set (bl_widgets (bs_layout prior)). bw_name w = gi_fallbackName g then Inl BoardConflict
                    else Inr (params\<lparr>pa_name := gi_fallbackName g\<rparr>)))"

definition normalizeBoardWidgetPutParams :: "url_parser \<Rightarrow> put_params \<Rightarrow> string \<Rightarrow> board_error + put_params" where
  "normalizeBoardWidgetPutParams parse params sessionKey =
     map_sum id (\<lambda>d. params\<lparr>pa_sessionKey := sessionKey, pa_declared := d\<rparr>) (normalizeBoardWidgetDeclared parse (pa_declared params))"

section \<open>Putting a widget\<close>

definition createBoardDeclaredSummary :: "widget_declared option \<Rightarrow> string list option" where
  "createBoardDeclaredSummary declared =
     (let lines = map ((@) ''Network access: '') (originsOf declared) @ map ((@) ''Tool access: '') (toolsOf declared) in
      if lines \<noteq> [] then Some lines else None)"

text \<open>\<open>JSON.stringify(params.content.props ?? {})\<close> on props given as their text.\<close>

definition validatePluginContent :: "put_params \<Rightarrow> bool" where
  "validatePluginContent params \<longleftrightarrow>
     (case pa_content params of
        PutPlugin _ props \<Rightarrow>
          pa_declared params = None \<and>
          length (utf8Bytes (case props of None \<Rightarrow> ''{}'' | Some text \<Rightarrow> text)) \<le> BOARD_MAX_WIDGET_PLUGIN_PROPS_BYTES
      | _ \<Rightarrow> True)"

definition validateRegisteredContent :: "put_params \<Rightarrow> bool" where
  "validateRegisteredContent params \<longleftrightarrow>
     (case pa_content params of PutRegistered _ source _ \<Rightarrow> length (utf8Bytes source) \<le> BOARD_MAX_WIDGET_HTML_BYTES | _ \<Rightarrow> True)"

definition validateHtmlContent :: "put_params \<Rightarrow> bool" where
  "validateHtmlContent params \<longleftrightarrow>
     (case pa_content params of PutHtml html \<Rightarrow> length (utf8Bytes html) \<le> BOARD_MAX_WIDGET_HTML_BYTES | _ \<Rightarrow> True)"

text \<open>Whether the widget in place holds content of another owner or kind.\<close>

definition ownedByOther :: "put_content \<Rightarrow> board_widget \<Rightarrow> bool" where
  "ownedByOther content existing \<longleftrightarrow>
     bw_contentOwner existing \<noteq> Some (contentOwner content) \<or>
     (contentPluginKind content \<noteq> None \<and>
       (bw_pluginKind existing \<noteq> contentPluginKind content \<or>
        (registeredKind content \<noteq> None \<and> bw_registeredContentKind existing \<noteq> registeredKind content)))"

definition preservesGrant :: "(string \<Rightarrow> string) \<Rightarrow> put_context \<Rightarrow> put_content \<Rightarrow> widget_declared option \<Rightarrow> board_widget option \<Rightarrow> bool" where
  "preservesGrant sha256 context content declared existing \<longleftrightarrow>
     declared \<noteq> None \<and> pc_grantScopeMatches context \<and>
     (case content of PutMcpApp _ interactive \<Rightarrow> interactive | _ \<Rightarrow> True) \<and>
     (case existing of
        None \<Rightarrow> False
      | Some w \<Rightarrow>
          bw_grantState w = Granted \<and>
          (frozenBytes content = None \<or> map_option sha256 (frozenBytes content) = pc_grantedSha256 context) \<and>
          boardDeclarationIsSubset declared (bw_declared w))"

definition nextGrantState :: "bool \<Rightarrow> put_content \<Rightarrow> string list option \<Rightarrow> grant_state" where
  "nextGrantState preserves content summary =
     (case content of
        PutPlugin _ _ \<Rightarrow> GrantNone
      | PutMcpApp _ interactive \<Rightarrow> if preserves then Granted else if \<not> interactive then GrantNone else GrantPending
      | _ \<Rightarrow> if preserves then Granted else if summary \<noteq> None then GrantPending else GrantNone)"

definition putWidgetValue :: "(string \<Rightarrow> string) \<Rightarrow> put_context \<Rightarrow> put_params \<Rightarrow> widget_declared option \<Rightarrow> board_widget option \<Rightarrow> string \<Rightarrow> nat \<Rightarrow> board_widget" where
  "putWidgetValue sha256 context params declared existing tabId count_widgets =
     (let content = pa_content params;
          summary = createBoardDeclaredSummary declared;
          placedSize = Option.bind (pa_placement params) pp_size;
          size = BOARD_SIZE_PRESETS (case placedSize of Some s \<Rightarrow> s | None \<Rightarrow> SizeMd)
      in \<lparr>bw_name = pa_name params, bw_tabId = tabId,
          bw_title = keepOld (pa_title params) (Option.bind existing bw_title),
          bw_contentKind = contentKind content, bw_contentOwner = Some (contentOwner content),
          bw_registeredContentKind = registeredKind content, bw_pluginKind = contentPluginKind content, bw_props = contentProps content,
          bw_presentation = keepOld (pa_presentation params) (Option.bind existing bw_presentation),
          bw_heightMode = keepOld (pa_heightMode params) (Option.bind existing bw_heightMode),
          bw_sizeW = (case (placedSize, existing) of (None, Some w) \<Rightarrow> bw_sizeW w | _ \<Rightarrow> fst size),
          bw_sizeH = (case (placedSize, existing) of (None, Some w) \<Rightarrow> bw_sizeH w | _ \<Rightarrow> snd size),
          bw_position = (case existing of Some w \<Rightarrow> bw_position w | None \<Rightarrow> int count_widgets),
          bw_grantState = nextGrantState (preservesGrant sha256 context content declared existing) content summary,
          bw_revision = (case existing of Some w \<Rightarrow> bw_revision w | None \<Rightarrow> 0) + 1,
          bw_instanceId = (case content of PutPlugin _ _ \<Rightarrow> None | _ \<Rightarrow> Some (pc_instanceId context)),
          bw_declaredSummary = summary, bw_declared = declared\<rparr>)"

text \<open>\<open>delete widget.declaredSummary; delete widget.declared\<close> on the first widget of that name.\<close>

definition clearDeclared :: "string \<Rightarrow> board_layout \<Rightarrow> board_layout" where
  "clearDeclared name layout =
     (case findIndex (\<lambda>w. bw_name w = name) (bl_widgets layout) of
        None \<Rightarrow> layout
      | Some i \<Rightarrow> layout\<lparr>bl_widgets := (bl_widgets layout)[i := (bl_widgets layout ! i)\<lparr>bw_declaredSummary := None, bw_declared := None\<rparr>]\<rparr>)"

definition ensureMainTab :: "board_layout \<Rightarrow> board_layout" where
  "ensureMainTab layout =
     (if bl_tabs layout = [] then layout\<lparr>bl_tabs := [\<lparr>bt_tabId = ''main'', bt_title = ''Main'', bt_position = 0, bt_chatDock = DockRight\<rparr>]\<rparr> else layout)"

definition createBoardWidgetPutSnapshot :: "url_parser \<Rightarrow> (string \<Rightarrow> string) \<Rightarrow> board_snapshot \<Rightarrow> put_params \<Rightarrow> put_context \<Rightarrow> board_error + board_snapshot" where
  "createBoardWidgetPutSnapshot parse sha256 prior params context =
     (if \<not> validatePluginContent params \<or> \<not> validateRegisteredContent params \<or> \<not> validateHtmlContent params then Inl BoardInvalidOperation
      else
        let layout = ensureMainTab (normalizeBoardLayout (bs_layout prior));
            existing = find (\<lambda>w. bw_name w = pa_name params) (bl_widgets layout);
            content = pa_content params
        in if (case existing of Some w \<Rightarrow> ownedByOther content w | None \<Rightarrow> False) then Inl BoardInvalidOperation
        else if existing = None \<and> length (bl_widgets layout) \<ge> BOARD_MAX_WIDGETS then Inl BoardInvalidOperation
        else
          let placedTab = Option.bind (pa_placement params) pp_tabId;
              placedAfter = Option.bind (pa_placement params) pp_after;
              tabId = (case keepOld placedTab (map_option bw_tabId existing) of Some t \<Rightarrow> t | None \<Rightarrow> bt_tabId (hd (bl_tabs layout)))
          in if \<not> (\<exists>t \<in> set (bl_tabs layout). bt_tabId t = tabId) then Inl BoardNotFound
          else
            (case (case content of PutPlugin _ _ \<Rightarrow> Inr None | _ \<Rightarrow> normalizeBoardWidgetDeclared parse (pa_declared params)) of
               Inl e \<Rightarrow> Inl e
             | Inr declared \<Rightarrow>
                 (case insertBoardWidget layout (putWidgetValue sha256 context params declared existing tabId (length (bl_widgets layout)))
                     \<lparr>wp_tabId = tabId, wp_after = (if placedAfter = Some [] then None else placedAfter),
                      wp_move = (placedTab \<noteq> None \<or> placedAfter \<noteq> None)\<rparr> of
                    Inl e \<Rightarrow> Inl e
                  | Inr inserted \<Rightarrow>
                      Inr \<lparr>bs_sessionKey = pa_sessionKey params, bs_revision = bs_revision prior + 1,
                           bs_layout = (if createBoardDeclaredSummary declared = None then clearDeclared (pa_name params) inserted else inserted)\<rparr>)))"

section \<open>Deciding on a grant\<close>

definition createBoardGrantSnapshot :: "board_snapshot \<Rightarrow> string \<Rightarrow> grant_state \<Rightarrow> int \<Rightarrow> string option \<Rightarrow> board_error + board_snapshot" where
  "createBoardGrantSnapshot current name decision revision instanceId =
     (case findIndex (\<lambda>w. bw_name w = name) (bl_widgets (bs_layout current)) of
        None \<Rightarrow> Inl BoardNotFound
      | Some i \<Rightarrow>
          let widget = bl_widgets (bs_layout current) ! i in
          if bw_revision widget \<noteq> revision then Inl BoardConflict
          else if bw_instanceId widget \<noteq> None \<and> bw_instanceId widget \<noteq> instanceId then Inl BoardConflict
          else if bw_grantState widget \<noteq> GrantPending then Inl BoardInvalidOperation
          else Inr (current\<lparr>bs_revision := bs_revision current + 1,
            bs_layout := (bs_layout current)\<lparr>bl_widgets := (bl_widgets (bs_layout current))[i := widget\<lparr>bw_grantState := decision\<rparr>]\<rparr>\<rparr>))"

section \<open>What a put does to the widgets\<close>

lemma insert_mset:
  fixes f :: "board_widget \<Rightarrow> 'b"
  assumes "insertBoardWidget layout w placement = Inr layout'"
    and f: "\<And>w t. f (w\<lparr>bw_tabId := t\<rparr>) = f w" "\<And>w p. f (w\<lparr>bw_position := p\<rparr>) = f w"
  shows "mset (map f (bl_widgets layout')) =
    mset (map f (case findIndex (\<lambda>v. bw_name v = bw_name w) (bl_widgets layout) of
      Some i \<Rightarrow> (bl_widgets layout)[i := assignWidget (bl_widgets layout ! i) w] | None \<Rightarrow> bl_widgets layout @ [w]))"
proof (cases "findIndex (\<lambda>v. bw_name v = bw_name w) (bl_widgets layout)")
  case None
  define pushed where "pushed = layout\<lparr>bl_widgets := bl_widgets layout @ [w\<lparr>bw_tabId := wp_tabId placement\<rparr>]\<rparr>"
  have "bw_name w \<in> set (map bw_name (bl_widgets pushed))" by (simp add: pushed_def)
  then obtain i where i: "requireWidget pushed (bw_name w) = Inr i" "i < length (bl_widgets pushed)"
    by (cases rule: require_widget_cases [of pushed "bw_name w"]) (auto simp: image_iff)
  obtain m where m: "moveWidget i (wp_tabId placement) None (wp_after placement) pushed = Inr m" "layout' = normalizeBoardLayout m"
    using assms(1) i(1) unfolding insertBoardWidget_def None pushed_def by (auto dest!: map_sum_Inr)
  have "mset (map f (bl_widgets layout')) = mset (map f (bl_widgets pushed))"
    unfolding m(2) using normalize_core [where f = f and layout = m, OF f(2)] moved_mset [where f = f, OF m(1) i(2) f] by (simp del: mset_map)
  then show ?thesis unfolding None by (simp add: pushed_def f)
next
  case (Some i)
  let ?w = "(assignWidget (bl_widgets layout ! i) w)\<lparr>bw_tabId := wp_tabId placement, bw_position := bw_position (bl_widgets layout ! i)\<rparr>"
  define replaced where "replaced = layout\<lparr>bl_widgets := (bl_widgets layout)[i := ?w]\<rparr>"
  have i: "i < length (bl_widgets replaced)" using findIndex_Some [OF Some] by (simp add: replaced_def)
  obtain m where m: "(if wp_move placement then moveWidget i (wp_tabId placement) None (wp_after placement) replaced else Inr replaced) = Inr m"
    "layout' = normalizeBoardLayout m"
    using assms(1) unfolding insertBoardWidget_def Some Let_def replaced_def by (auto dest!: map_sum_Inr)
  have "mset (map f (bl_widgets m)) = mset (map f (bl_widgets replaced))"
    using m(1) moved_mset [where f = f, OF _ i f] by (auto split: if_splits)
  then have "mset (map f (bl_widgets layout')) = mset (map f (bl_widgets replaced))" unfolding m(2)
    using normalize_core [where f = f and layout = m, OF f(2)] by (simp del: mset_map)
  moreover have "map f (bl_widgets replaced) = map f ((bl_widgets layout)[i := assignWidget (bl_widgets layout ! i) w])"
    by (simp add: replaced_def map_update f)
  ultimately show ?thesis unfolding Some by simp
qed

lemma insert_core:
  assumes "insertBoardWidget layout w placement = Inr layout'"
  shows "mset (map bw_core (bl_widgets layout')) =
    mset (map bw_core (case findIndex (\<lambda>v. bw_name v = bw_name w) (bl_widgets layout) of
      Some i \<Rightarrow> (bl_widgets layout)[i := assignWidget (bl_widgets layout ! i) w] | None \<Rightarrow> bl_widgets layout @ [w]))"
  by (rule insert_mset [OF assms]) simp_all

lemma inserted_as:
  fixes f :: "board_widget \<Rightarrow> 'b"
  assumes "insertBoardWidget layout w placement = Inr layout'" "v \<in> set (bl_widgets layout')" "distinct (map bw_name (bl_widgets layout))"
    and f: "\<And>w t. f (w\<lparr>bw_tabId := t\<rparr>) = f w" "\<And>w p. f (w\<lparr>bw_position := p\<rparr>) = f w"
    and core_name: "\<And>x y. f x = f y \<Longrightarrow> bw_name x = bw_name y"
  shows "if bw_name v = bw_name w
    then (case find (\<lambda>x. bw_name x = bw_name w) (bl_widgets layout) of Some old \<Rightarrow> f v = f (assignWidget old w) | None \<Rightarrow> f v = f w)
    else \<exists>old \<in> set (bl_widgets layout). f old = f v"
proof -
  let ?ws = "bl_widgets layout"
  have "f v \<in> set (map f (bl_widgets layout'))" using assms(2) by simp
  then have v: "f v \<in> set (map f (case findIndex (\<lambda>v. bw_name v = bw_name w) ?ws of
      Some i \<Rightarrow> ?ws[i := assignWidget (?ws ! i) w] | None \<Rightarrow> ?ws @ [w]))"
    using mset_eq_setD [OF insert_mset [where f = f, OF assms(1) f]] by simp
  show ?thesis
  proof (cases "findIndex (\<lambda>v. bw_name v = bw_name w) ?ws")
    case None
    then have none: "\<forall>x \<in> set ?ws. bw_name x \<noteq> bw_name w" by simp
    then have "find (\<lambda>x. bw_name x = bw_name w) ?ws = None" by (simp add: find_None_iff)
    moreover from v [unfolded None option.case] consider "f v = f w" | old where "old \<in> set ?ws" "f v = f old" by auto
    then have "if bw_name v = bw_name w then f v = f w else \<exists>old \<in> set ?ws. f old = f v"
    proof cases
      case 1
      then show ?thesis using core_name [OF 1] by simp
    next
      case 2
      then have "bw_name v \<noteq> bw_name w" using none core_name [OF 2(2)] by simp
      then show ?thesis using 2 by (metis (full_types))
    qed
    ultimately show ?thesis by simp
  next
    case (Some i)
    have i: "i < length ?ws" "bw_name (?ws ! i) = bw_name w" using findIndex_Some [OF Some] by simp_all
    have inj: "inj_on bw_name (set ?ws)" using assms(3) unfolding distinct_map by (rule conjunct2)
    have u: "x = ?ws ! i" if "x \<in> set ?ws" "bw_name x = bw_name w" for x
      using inj_onD [OF inj _ that(1) nth_mem [OF i(1)]] that(2) i(2) by simp
    obtain g where g: "find (\<lambda>x. bw_name x = bw_name w) ?ws = Some g"
      using i nth_mem [OF i(1)] by (cases "find (\<lambda>x. bw_name x = bw_name w) ?ws") (auto simp: find_None_iff)
    then have "g \<in> set ?ws" "bw_name g = bw_name w" by (auto simp: find_Some_iff)
    then have g': "find (\<lambda>x. bw_name x = bw_name w) ?ws = Some (?ws ! i)" using g u by simp
    have n: "bw_name (assignWidget (?ws ! i) w) = bw_name w" by (simp add: assignWidget_def)
    have upd: "?ws[i := assignWidget (?ws ! i) w] = map (\<lambda>x. if bw_name x = bw_name (?ws ! i) then assignWidget x w else x) ?ws"
      by (rule update_as_map [OF i(1) assms(3)])
    from v [unfolded Some option.case upd] obtain x where x: "x \<in> set ?ws" "f v = f (if bw_name x = bw_name w then assignWidget x w else x)"
      using i(2) by auto
    show ?thesis
    proof (cases "bw_name x = bw_name w")
      case True
      then show ?thesis using x u [OF x(1) True] n core_name [of v "assignWidget x w"] g' by simp
    next
      case False
      then have "f v = f x" "bw_name v \<noteq> bw_name w" using x core_name [of v x] by simp_all
      then show ?thesis using x(1) by (metis (full_types))
    qed
  qed
qed

lemma inserted_from:
  assumes "insertBoardWidget layout w placement = Inr layout'" "v \<in> set (bl_widgets layout')" "distinct (map bw_name (bl_widgets layout))"
  shows "if bw_name v = bw_name w
    then (case find (\<lambda>x. bw_name x = bw_name w) (bl_widgets layout) of Some old \<Rightarrow> bw_core v = bw_core (assignWidget old w) | None \<Rightarrow> bw_core v = bw_core w)
    else \<exists>old \<in> set (bl_widgets layout). bw_core old = bw_core v"
proof -
  have name: "bw_name x = bw_name y" if "bw_core x = bw_core y" for x y using arg_cong [OF that, of bw_name] by simp
  show ?thesis by (rule inserted_as [where f = bw_core, OF assms core_simps(1,2) name])
qed

lemma cleared_from:
  assumes "v \<in> set (bl_widgets (clearDeclared name layout))"
  shows "v \<in> set (bl_widgets layout) \<or> bw_name v = name \<and> (\<exists>w \<in> set (bl_widgets layout). v = w\<lparr>bw_declaredSummary := None, bw_declared := None\<rparr>)"
proof (cases "findIndex (\<lambda>w. bw_name w = name) (bl_widgets layout)")
  case None
  then show ?thesis using assms by (simp add: clearDeclared_def del: findIndex_None)
next
  case (Some i)
  let ?w = "(bl_widgets layout ! i)\<lparr>bw_declaredSummary := None, bw_declared := None\<rparr>"
  have "v \<in> insert ?w (set (bl_widgets layout))"
    using assms Some set_update_subset_insert [of "bl_widgets layout" i ?w] by (auto simp: clearDeclared_def)
  then show ?thesis using findIndex_Some [OF Some] nth_mem by fastforce
qed

lemma summary_None: "createBoardDeclaredSummary d = None \<longleftrightarrow> originsOf d = [] \<and> toolsOf d = []"
  by (simp add: createBoardDeclaredSummary_def Let_def)

lemma ensureMain_widgets [simp]: "bl_widgets (ensureMainTab layout) = bl_widgets layout"
  by (simp add: ensureMainTab_def)

lemma subset_empty [simp]: "boardDeclarationIsSubset None d"
  by (simp add: boardDeclarationIsSubset_def originsOf_def toolsOf_def)

lemma put_cases:
  assumes "createBoardWidgetPutSnapshot parse sha256 prior params context = Inr result"
  obtains layout existing tabId declared inserted placement where
    "layout = ensureMainTab (normalizeBoardLayout (bs_layout prior))"
    "existing = find (\<lambda>w. bw_name w = pa_name params) (bl_widgets layout)"
    "existing = None \<longrightarrow> length (bl_widgets layout) < BOARD_MAX_WIDGETS" "\<exists>t \<in> set (bl_tabs layout). bt_tabId t = tabId"
    "(case pa_content params of PutPlugin _ _ \<Rightarrow> declared = None | _ \<Rightarrow> normalizeBoardWidgetDeclared parse (pa_declared params) = Inr declared)"
    "insertBoardWidget layout (putWidgetValue sha256 context params declared existing tabId (length (bl_widgets layout))) placement = Inr inserted"
    "wp_tabId placement = tabId"
    "result = \<lparr>bs_sessionKey = pa_sessionKey params, bs_revision = bs_revision prior + 1,
       bs_layout = (if createBoardDeclaredSummary declared = None then clearDeclared (pa_name params) inserted else inserted)\<rparr>"
    "\<forall>w. existing = Some w \<longrightarrow> \<not> ownedByOther (pa_content params) w"
proof -
  define layout where "layout = ensureMainTab (normalizeBoardLayout (bs_layout prior))"
  define existing where "existing = find (\<lambda>w. bw_name w = pa_name params) (bl_widgets layout)"
  define placedTab where "placedTab = Option.bind (pa_placement params) pp_tabId"
  define tabId where "tabId = (case keepOld placedTab (map_option bw_tabId existing) of Some t \<Rightarrow> t | None \<Rightarrow> bt_tabId (hd (bl_tabs layout)))"
  define placement where "placement = \<lparr>wp_tabId = tabId,
    wp_after = (if Option.bind (pa_placement params) pp_after = Some [] then None else Option.bind (pa_placement params) pp_after),
    wp_move = (placedTab \<noteq> None \<or> Option.bind (pa_placement params) pp_after \<noteq> None)\<rparr>"
  note defs = layout_def [symmetric] existing_def [symmetric] placedTab_def [symmetric] tabId_def [symmetric] placement_def [symmetric]
  note run = assms [unfolded createBoardWidgetPutSnapshot_def Let_def defs]
  from run have own: "\<not> (case existing of Some w \<Rightarrow> ownedByOther (pa_content params) w | None \<Rightarrow> False)"
    and n: "\<not> (existing = None \<and> length (bl_widgets layout) \<ge> BOARD_MAX_WIDGETS)" and t: "\<exists>t \<in> set (bl_tabs layout). bt_tabId t = tabId"
    by (simp_all split: if_splits)
  from run own n t obtain declared inserted where d: "(case pa_content params of PutPlugin _ _ \<Rightarrow> Inr None | _ \<Rightarrow> normalizeBoardWidgetDeclared parse (pa_declared params)) = Inr declared"
    and i: "insertBoardWidget layout (putWidgetValue sha256 context params declared existing tabId (length (bl_widgets layout))) placement = Inr inserted"
    and r: "result = \<lparr>bs_sessionKey = pa_sessionKey params, bs_revision = bs_revision prior + 1,
       bs_layout = (if createBoardDeclaredSummary declared = None then clearDeclared (pa_name params) inserted else inserted)\<rparr>"
    by (auto split: if_splits sum.splits)
  show ?thesis
  proof (rule that [OF layout_def existing_def _ t _ i _ r])
    show "existing = None \<longrightarrow> length (bl_widgets layout) < BOARD_MAX_WIDGETS" using n not_le by blast
    show "(case pa_content params of PutPlugin _ _ \<Rightarrow> declared = None | _ \<Rightarrow> normalizeBoardWidgetDeclared parse (pa_declared params) = Inr declared)"
      using d by (auto split: put_content.splits)
    show "wp_tabId placement = tabId" by (simp add: placement_def)
    show "\<forall>w. existing = Some w \<longrightarrow> \<not> ownedByOther (pa_content params) w" using own by (auto split: option.splits)
  qed
qed


lemma insert_ok:
  assumes "board_ok layout" "insertBoardWidget layout w placement = Inr layout'" "wp_tabId placement \<in> bt_tabId ` set (bl_tabs layout)"
    "bw_name w \<notin> bw_name ` set (bl_widgets layout) \<Longrightarrow> int (length (bl_widgets layout)) < MAX_POSITION"
  shows "board_ok layout'" "board_normal layout'" "bl_tabs layout' = bl_tabs (normalizeBoardLayout layout)"
    "length (bl_widgets layout') \<le> length (bl_widgets layout) + (if bw_name w \<in> bw_name ` set (bl_widgets layout) then 0 else 1)"
proof -
  let ?ws = "bl_widgets layout" and ?here = "findIndex (\<lambda>v. bw_name v = bw_name w) (bl_widgets layout)"
  define placed where "placed = layout\<lparr>bl_widgets := (case ?here of
    Some i \<Rightarrow> ?ws[i := (assignWidget (?ws ! i) w)\<lparr>bw_tabId := wp_tabId placement, bw_position := bw_position (?ws ! i)\<rparr>]
  | None \<Rightarrow> ?ws @ [w\<lparr>bw_tabId := wp_tabId placement\<rparr>])\<rparr>"
  have tab: "\<forall>v \<in> set (bl_widgets placed). v \<in> set ?ws \<or> bw_tabId v = wp_tabId placement"
    using set_update_subset_insert by (fastforce simp: placed_def split: option.splits)
  have "\<exists>i m. i < length (bl_widgets placed) \<and> layout' = normalizeBoardLayout m \<and>
      (m = placed \<or> moveWidget i (wp_tabId placement) None (wp_after placement) placed = Inr m)"
  proof (cases ?here)
    case None
    have "bw_name w \<in> set (map bw_name (bl_widgets placed))" unfolding placed_def None by simp
    then obtain i where i: "requireWidget placed (bw_name w) = Inr i" "i < length (bl_widgets placed)"
      by (cases rule: require_widget_cases [of placed "bw_name w"]) (auto simp: image_iff)
    then show ?thesis using assms(2) unfolding insertBoardWidget_def None placed_def by (auto dest!: map_sum_Inr)
  next
    case (Some i)
    then have "i < length (bl_widgets placed)" using findIndex_Some [OF Some] by (simp add: placed_def)
    then show ?thesis using assms(2) unfolding insertBoardWidget_def Some Let_def placed_def by (auto dest!: map_sum_Inr split: if_splits)
  qed
  then obtain i m where i: "i < length (bl_widgets placed)" and l: "layout' = normalizeBoardLayout m"
    and m: "m = placed \<or> moveWidget i (wp_tabId placement) None (wp_after placement) placed = Inr m" by blast
  have tabs: "bl_tabs m = bl_tabs layout" using m by (auto simp: placed_def moveWidget_def Let_def split: sum.splits if_splits)
  have on: "bw_tabId v \<in> bt_tabId ` set (bl_tabs layout)" if v: "v \<in> set (bl_widgets m)" for v
  proof -
    have p: "bw_tabId u \<in> bt_tabId ` set (bl_tabs layout)" if "u \<in> set (bl_widgets placed)" for u
      using tab that assms(1,3) by (auto simp: board_ok_def)
    from m show ?thesis
    proof
      assume "moveWidget i (wp_tabId placement) None (wp_after placement) placed = Inr m"
      from moved_from(1) [OF this i v] p assms(3) show ?thesis by auto
    qed (use v p in simp)
  qed
  let ?after = "case ?here of Some i \<Rightarrow> ?ws[i := assignWidget (?ws ! i) w] | None \<Rightarrow> ?ws @ [w]"
  have named: "map bw_name ?after = map bw_name ?ws @ (case ?here of None \<Rightarrow> [bw_name w] | Some _ \<Rightarrow> [])"
  proof (cases ?here)
    case (Some i)
    have "bw_name (assignWidget (?ws ! i) w) = bw_name (?ws ! i)" using findIndex_Some [OF Some] by (simp add: assignWidget_def)
    then show ?thesis using findIndex_Some [OF Some] unfolding Some by (simp add: map_update_same)
  next
    case None
    show ?thesis unfolding None by simp
  qed
  have core: "mset (map bw_core (bl_widgets layout')) = mset (map bw_core ?after)" by (rule insert_core [OF assms(2)])
  then have names: "mset (map bw_name (bl_widgets layout')) = mset (map bw_name ?after)" unfolding core_names by (simp only:)
  have absent: "?here = None \<Longrightarrow> bw_name w \<notin> bw_name ` set ?ws" by auto
  have "distinct (map bw_name ?ws)" using assms(1) unfolding board_ok_def by blast
  then have "distinct (map bw_name ?after)"
    unfolding named using absent by (cases ?here) (simp_all del: findIndex_None)
  then have dn: "distinct (map bw_name (bl_widgets layout'))" using mset_eq_imp_distinct_iff [OF names] by (simp only:)
  have len: "length (bl_widgets layout') = length (map bw_name ?after)" using mset_eq_length [OF names] by simp
  then show bound: "length (bl_widgets layout') \<le> length ?ws + (if bw_name w \<in> bw_name ` set ?ws then 0 else 1)"
    unfolding named using absent by (cases ?here) (simp_all del: findIndex_None)
  show "board_normal layout'" unfolding l by (rule normalize_normal)
  show "bl_tabs layout' = bl_tabs (normalizeBoardLayout layout)" unfolding l normal_tabs tabs ..
  have "length (bl_widgets m) = length (bl_widgets layout')"
    unfolding l using mset_eq_length [OF normalize_core [of bw_name m]] by simp
  moreover have "distinct (map bw_name (bl_widgets m))"
    using dn mset_eq_imp_distinct_iff [OF normalize_core [of bw_name m]] unfolding l by simp
  moreover have "int (length ?ws) \<le> MAX_POSITION" using assms(1) unfolding board_ok_def by blast
  then have "int (length (bl_widgets layout')) \<le> MAX_POSITION" using bound assms(4) by (cases "bw_name w \<in> bw_name ` set ?ws") simp_all
  ultimately have "board_ok m" using assms(1) on unfolding board_ok_def tabs by simp
  then show "board_ok layout'" unfolding l normalize_ok .
qed


lemma core_parts:
  assumes "bw_core x = bw_core y"
  shows "bw_grantState x = bw_grantState y" "bw_declared x = bw_declared y" "bw_revision x = bw_revision y" "bw_name x = bw_name y"
    "bw_props x = bw_props y" "bw_instanceId x = bw_instanceId y"
  using arg_cong [OF assms, of bw_grantState] arg_cong [OF assms, of bw_declared] arg_cong [OF assms, of bw_revision]
    arg_cong [OF assms, of bw_name] arg_cong [OF assms, of bw_props] arg_cong [OF assms, of bw_instanceId]
  by (simp_all add: bw_core_def)

text \<open>The widget of a name, up to where it stands, is the same in two layouts with the same widgets.\<close>

lemma find_core:
  assumes "mset (map bw_core xs) = mset (map bw_core ys)" "distinct (map bw_name ys)"
  shows "map_option bw_core (find (\<lambda>w. bw_name w = name) xs) = map_option bw_core (find (\<lambda>w. bw_name w = name) ys)"
proof -
  have sets: "bw_core ` set xs = bw_core ` set ys" using mset_eq_setD [OF assms(1)] by simp
  have inj: "inj_on bw_name (set ys)" using assms(2) unfolding distinct_map by (rule conjunct2)
  show ?thesis
  proof (cases "find (\<lambda>w. bw_name w = name) xs")
    case None
    have "bw_name y \<noteq> name" if "y \<in> set ys" for y
    proof -
      from that have "bw_core y \<in> bw_core ` set xs" unfolding sets by simp
      then obtain x where x: "x \<in> set xs" "bw_core y = bw_core x" by (rule imageE) simp
      have "\<forall>x \<in> set xs. bw_name x \<noteq> name" using None by (auto simp: find_None_iff)
      then show ?thesis using x(1) unfolding core_parts(4) [OF x(2)] by (rule bspec)
    qed
    then have "find (\<lambda>w. bw_name w = name) ys = None" by (simp add: find_None_iff)
    with None show ?thesis by simp
  next
    case (Some x)
    then have x: "x \<in> set xs" "bw_name x = name" by (auto simp: find_Some_iff)
    then have "bw_core x \<in> bw_core ` set ys" unfolding sets [symmetric] by simp
    then obtain y where y: "y \<in> set ys" "bw_core x = bw_core y" by (rule imageE) simp
    then have yn: "bw_name y = name" using x(2) core_parts(4) [of x y] by simp
    obtain z where z: "find (\<lambda>w. bw_name w = name) ys = Some z"
      using y(1) yn by (cases "find (\<lambda>w. bw_name w = name) ys") (auto simp: find_None_iff)
    then have "z \<in> set ys" "bw_name z = name" by (auto simp: find_Some_iff)
    then have "z = y" using inj_onD [OF inj _ _ y(1)] yn by simp
    with Some z y(2) show ?thesis by simp
  qed
qed

lemma preserves_core:
  assumes "map_option bw_core a = map_option bw_core b"
  shows "preservesGrant sha256 context content declared a = preservesGrant sha256 context content declared b"
proof (cases a)
  case (Some x)
  then obtain y where y: "b = Some y" "bw_core x = bw_core y" using assms by (cases b) simp_all
  show ?thesis unfolding Some y(1) preservesGrant_def option.case core_parts(1,2) [OF y(2)] ..
qed (use assms in \<open>cases b; simp\<close>)

lemma clearDeclared_parts:
  "bl_tabs (clearDeclared name layout) = bl_tabs layout" "length (bl_widgets (clearDeclared name layout)) = length (bl_widgets layout)"
  "(\<And>w. f (w\<lparr>bw_declaredSummary := None, bw_declared := None\<rparr>) = f w) \<Longrightarrow> map f (bl_widgets (clearDeclared name layout)) = map f (bl_widgets layout)"
proof -
  show "map f (bl_widgets (clearDeclared name layout)) = map f (bl_widgets layout)"
    if "\<And>w. f (w\<lparr>bw_declaredSummary := None, bw_declared := None\<rparr>) = f w" for f :: "board_widget \<Rightarrow> 'a"
  proof (cases "findIndex (\<lambda>w. bw_name w = name) (bl_widgets layout)")
    case (Some i)
    then show ?thesis using findIndex_Some [OF Some] that by (simp add: clearDeclared_def map_update_same)
  qed (simp add: clearDeclared_def del: findIndex_None)
qed (simp_all add: clearDeclared_def split: option.splits)

lemma clearDeclared_clears:
  assumes "distinct (map bw_name (bl_widgets layout))"
  shows "bl_widgets (clearDeclared name layout) =
    map (\<lambda>w. if bw_name w = name then w\<lparr>bw_declaredSummary := None, bw_declared := None\<rparr> else w) (bl_widgets layout)"
proof (cases "findIndex (\<lambda>w. bw_name w = name) (bl_widgets layout)")
  case None
  then have "map (\<lambda>w. if bw_name w = name then w\<lparr>bw_declaredSummary := None, bw_declared := None\<rparr> else w) (bl_widgets layout) = bl_widgets layout"
    by (intro map_idI) simp
  then show ?thesis using None by (simp add: clearDeclared_def del: findIndex_None)
next
  case (Some i)
  then show ?thesis
    using findIndex_Some [OF Some] update_as_map [of i "bl_widgets layout" bw_name "\<lambda>w. w\<lparr>bw_declaredSummary := None, bw_declared := None\<rparr>"] assms
    by (simp add: clearDeclared_def)
qed

lemma clearDeclared_ok:
  "board_ok (clearDeclared name layout) = board_ok layout"
proof -
  have names: "map bw_name (bl_widgets (clearDeclared name layout)) = map bw_name (bl_widgets layout)"
    and tabs: "map bw_tabId (bl_widgets (clearDeclared name layout)) = map bw_tabId (bl_widgets layout)"
    by (rule clearDeclared_parts, simp)+
  have orphans: "(\<forall>w \<in> set ws. bw_tabId w \<in> T) \<longleftrightarrow> set (map bw_tabId ws) \<subseteq> T" for ws T by auto
  show ?thesis unfolding board_ok_def orphans names tabs clearDeclared_parts(1,2) ..
qed

lemma ensureMain_ok: "board_ok layout \<Longrightarrow> board_ok (ensureMainTab layout)"
  by (auto simp: board_ok_def ensureMainTab_def)


lemma clearDeclared_normal: "board_normal (clearDeclared name layout) = board_normal layout"
proof -
  let ?f = "\<lambda>w. (bw_tabId w, bw_position w)"
  have "map ?f (bl_widgets (clearDeclared name layout)) = map ?f (bl_widgets layout)" by (rule clearDeclared_parts) simp
  moreover have "board_normal l \<longleftrightarrow> map bt_position (bl_tabs l) = map int [0..<length (bl_tabs l)] \<and>
      (\<forall>tabId. let ps = filter (\<lambda>p. fst p = tabId) (map ?f (bl_widgets l)) in map snd ps = map int [0..<length ps])" for l
    by (simp add: board_normal_def filter_map comp_def Let_def)
  ultimately show ?thesis by (simp only: clearDeclared_parts(1))
qed

lemma insert_keeps:
  assumes "insertBoardWidget layout w placement = Inr layout'" "bw_core x \<in> bw_core ` set (bl_widgets layout)" "bw_name x \<noteq> bw_name w"
  shows "bw_core x \<in> bw_core ` set (bl_widgets layout')"
proof -
  let ?ws = "bl_widgets layout" and ?here = "findIndex (\<lambda>v. bw_name v = bw_name w) (bl_widgets layout)"
  let ?after = "case ?here of Some i \<Rightarrow> ?ws[i := assignWidget (?ws ! i) w] | None \<Rightarrow> ?ws @ [w]"
  obtain y where y: "y \<in> set ?ws" "bw_core x = bw_core y" using assms(2) by (rule imageE) simp
  have "y \<in> set ?after"
  proof (cases ?here)
    case (Some i)
    obtain j where j: "j < length ?ws" "y = ?ws ! j" using y(1) by (auto simp: in_set_conv_nth)
    then have "j \<noteq> i" using findIndex_Some [OF Some] assms(3) core_parts(4) [OF y(2)] by auto
    then have "?ws[i := assignWidget (?ws ! i) w] ! j = y" using j by simp
    then show ?thesis unfolding Some using j(1) by (simp add: in_set_conv_nth) blast
  next
    case None
    show ?thesis using y(1) unfolding None by simp
  qed
  then have "bw_core y \<in> set (map bw_core ?after)" by simp
  then show ?thesis using mset_eq_setD [OF insert_core [OF assms(1)]] y(2) by simp
qed

section \<open>The board after a put\<close>

lemma put_effect:
  assumes "createBoardWidgetPutSnapshot parse sha256 prior params context = Inr result" "board_ok (bs_layout prior)"
  defines "old \<equiv> find (\<lambda>w. bw_name w = pa_name params) (bl_widgets (bs_layout prior))"
  obtains declared where
    "(case pa_content params of PutPlugin _ _ \<Rightarrow> declared = None | _ \<Rightarrow> normalizeBoardWidgetDeclared parse (pa_declared params) = Inr declared)"
    "board_ok (bs_layout result)" "board_normal (bs_layout result)" "bs_revision result = bs_revision prior + 1"
    "length (bl_widgets (bs_layout result)) \<le> max BOARD_MAX_WIDGETS (length (bl_widgets (bs_layout prior)))"
    "\<And>v. v \<in> set (bl_widgets (bs_layout result)) \<Longrightarrow> bw_name v \<noteq> pa_name params \<Longrightarrow> bw_core v \<in> bw_core ` set (bl_widgets (bs_layout prior))"
    "\<And>v. v \<in> set (bl_widgets (bs_layout result)) \<Longrightarrow> bw_name v = pa_name params \<Longrightarrow>
      bw_grantState v = nextGrantState (preservesGrant sha256 context (pa_content params) declared old) (pa_content params) (createBoardDeclaredSummary declared) \<and>
      bw_declared v = (if createBoardDeclaredSummary declared = None then None else declared) \<and>
      bw_revision v = (case old of Some w \<Rightarrow> bw_revision w | None \<Rightarrow> 0) + 1"
    "\<And>w. w \<in> set (bl_widgets (bs_layout prior)) \<Longrightarrow> bw_name w \<noteq> pa_name params \<Longrightarrow> bw_core w \<in> bw_core ` set (bl_widgets (bs_layout result))"
    "bs_sessionKey result = pa_sessionKey params"
proof -
  from assms(1) obtain layout existing tabId declared inserted placement where
    layout: "layout = ensureMainTab (normalizeBoardLayout (bs_layout prior))"
    and existing: "existing = find (\<lambda>w. bw_name w = pa_name params) (bl_widgets layout)"
    and few: "existing = None \<longrightarrow> length (bl_widgets layout) < BOARD_MAX_WIDGETS"
    and tab: "\<exists>t \<in> set (bl_tabs layout). bt_tabId t = tabId"
    and declared: "case pa_content params of PutPlugin _ _ \<Rightarrow> declared = None | _ \<Rightarrow> normalizeBoardWidgetDeclared parse (pa_declared params) = Inr declared"
    and ins: "insertBoardWidget layout (putWidgetValue sha256 context params declared existing tabId (length (bl_widgets layout))) placement = Inr inserted"
    and wp: "wp_tabId placement = tabId"
    and result: "result = \<lparr>bs_sessionKey = pa_sessionKey params, bs_revision = bs_revision prior + 1,
       bs_layout = (if createBoardDeclaredSummary declared = None then clearDeclared (pa_name params) inserted else inserted)\<rparr>"
    and own: "\<forall>w. existing = Some w \<longrightarrow> \<not> ownedByOther (pa_content params) w"
    by (rule put_cases) (rule that)
  let ?ws = "bl_widgets (bs_layout prior)" and ?w = "putWidgetValue sha256 context params declared existing tabId (length (bl_widgets layout))"
  let ?grant = "nextGrantState (preservesGrant sha256 context (pa_content params) declared old) (pa_content params) (createBoardDeclaredSummary declared)"
  have same: "mset (map bw_core (bl_widgets layout)) = mset (map bw_core ?ws)"
    unfolding layout ensureMain_widgets by (rule normalize_core) simp
  then have sets: "bw_core ` set (bl_widgets layout) = bw_core ` set ?ws" using mset_eq_setD [OF same] by simp
  have ok: "board_ok layout" unfolding layout by (rule ensureMain_ok) (simp add: normalize_ok assms(2))
  have names: "distinct (map bw_name ?ws)" using assms(2) unfolding board_ok_def by blast
  have names': "distinct (map bw_name (bl_widgets layout))" using ok unfolding board_ok_def by blast
  have old: "map_option bw_core existing = map_option bw_core old" unfolding existing old_def by (rule find_core [OF same names])
  have grant: "preservesGrant sha256 context (pa_content params) declared existing = preservesGrant sha256 context (pa_content params) declared old"
    by (rule preserves_core [OF old])
  have revision: "(case existing of Some w \<Rightarrow> bw_revision w | None \<Rightarrow> 0) = (case old of Some w \<Rightarrow> bw_revision w | None \<Rightarrow> 0)"
  proof (cases existing)
    case (Some e)
    then obtain o' where o': "old = Some o'" "bw_core e = bw_core o'" using old by (cases old) simp_all
    show ?thesis unfolding Some o'(1) option.case using core_parts(3) [OF o'(2)] .
  next
    case None
    then have "old = None" using old by (cases old) simp_all
    then show ?thesis unfolding None by simp
  qed
  have w: "bw_name ?w = pa_name params" "bw_grantState ?w = ?grant" "bw_declared ?w = declared"
    "bw_revision ?w = (case old of Some w \<Rightarrow> bw_revision w | None \<Rightarrow> 0) + 1"
    by (simp_all add: putWidgetValue_def Let_def grant revision)
  have count: "length (bl_widgets layout) = length ?ws" using mset_eq_length [OF same] by simp
  have none: "bw_name ?w \<notin> bw_name ` set (bl_widgets layout) \<Longrightarrow> existing = None" unfolding w(1) by (force simp: existing find_None_iff)
  have room: "int (length (bl_widgets layout)) < MAX_POSITION" if "bw_name ?w \<notin> bw_name ` set (bl_widgets layout)"
    using few none [OF that] by (simp add: BOARD_MAX_WIDGETS_def MAX_POSITION_def)
  have there: "wp_tabId placement \<in> bt_tabId ` set (bl_tabs layout)" using tab unfolding wp by auto
  note inserted = insert_ok [OF ok ins there room]
  have dn: "distinct (map bw_name (bl_widgets inserted))" using inserted(1) unfolding board_ok_def by blast
  have len: "length (bl_widgets inserted) \<le> max BOARD_MAX_WIDGETS (length ?ws)"
    using inserted(4) few none count by (cases "bw_name ?w \<in> bw_name ` set (bl_widgets layout)") (simp_all add: max_def)
  have cleared: "bl_widgets (bs_layout result) = map (\<lambda>w. if bw_name w = pa_name params \<and> createBoardDeclaredSummary declared = None
      then w\<lparr>bw_declaredSummary := None, bw_declared := None\<rparr> else w) (bl_widgets inserted)"
    unfolding result using clearDeclared_clears [OF dn] by (cases "createBoardDeclaredSummary declared") simp_all
  from inserted_from [OF ins _ names', unfolded w(1) existing [symmetric]]
  have from_ins: "if bw_name v = pa_name params then (case existing of Some e \<Rightarrow> bw_core v = bw_core (assignWidget e ?w) | None \<Rightarrow> bw_core v = bw_core ?w)
      else \<exists>e \<in> set (bl_widgets layout). bw_core e = bw_core v" if "v \<in> set (bl_widgets inserted)" for v using that by blast
  show ?thesis
  proof (rule that [OF declared])
    show "board_ok (bs_layout result)" using inserted(1) unfolding result by (simp add: clearDeclared_ok)
    show "board_normal (bs_layout result)" using inserted(2) unfolding result by (simp add: clearDeclared_normal)
    show "length (bl_widgets (bs_layout result)) \<le> max BOARD_MAX_WIDGETS (length ?ws)" using len unfolding cleared by simp
    show "bw_core v \<in> bw_core ` set ?ws" if v: "v \<in> set (bl_widgets (bs_layout result))" "bw_name v \<noteq> pa_name params" for v
    proof -
      have "v \<in> set (bl_widgets inserted)" using v unfolding cleared by auto
      from from_ins [OF this] v(2) have "\<exists>e \<in> set (bl_widgets layout). bw_core e = bw_core v" by simp
      then show ?thesis unfolding sets [symmetric] by (metis image_eqI)
    qed
    show "bw_grantState v = ?grant \<and> bw_declared v = (if createBoardDeclaredSummary declared = None then None else declared) \<and>
        bw_revision v = (case old of Some w \<Rightarrow> bw_revision w | None \<Rightarrow> 0) + 1"
      if v: "v \<in> set (bl_widgets (bs_layout result))" "bw_name v = pa_name params" for v
    proof -
      obtain u where u: "u \<in> set (bl_widgets inserted)" "bw_name u = pa_name params"
        "v = (if createBoardDeclaredSummary declared = None then u\<lparr>bw_declaredSummary := None, bw_declared := None\<rparr> else u)"
        using v unfolding cleared by (auto split: if_splits)
      have "declared \<noteq> None" if "createBoardDeclaredSummary declared \<noteq> None" using that by (cases declared) (simp_all add: summary_None originsOf_def toolsOf_def)
      moreover have "bw_grantState u = ?grant \<and> bw_revision u = bw_revision ?w \<and> (declared \<noteq> None \<longrightarrow> bw_declared u = declared)"
      proof (cases existing)
        case None
        then have c: "bw_core u = bw_core ?w" using from_ins [OF u(1)] u(2) by simp
        show ?thesis unfolding core_parts(1-3) [OF c] using w by simp
      next
        case (Some e)
        then have c: "bw_core u = bw_core (assignWidget e ?w)" using from_ins [OF u(1)] u(2) by simp
        show ?thesis unfolding core_parts(1-3) [OF c] using w by (auto simp: assignWidget_def keepOld_def split: option.splits)
      qed
      ultimately show ?thesis unfolding u(3) w(4) by simp
    qed
    show "bw_core x \<in> bw_core ` set (bl_widgets (bs_layout result))" if x: "x \<in> set ?ws" "bw_name x \<noteq> pa_name params" for x
    proof -
      have "bw_core x \<in> bw_core ` set (bl_widgets layout)" using x(1) unfolding sets by simp
      then have "bw_core x \<in> bw_core ` set (bl_widgets inserted)"
        using insert_keeps [OF ins, of x] x(2) w(1) by simp
      then obtain y where y: "y \<in> set (bl_widgets inserted)" "bw_core x = bw_core y" by (rule imageE) simp
      then have "y \<in> set (bl_widgets (bs_layout result))" using x(2) core_parts(4) [OF y(2)] unfolding cleared by force
      then show ?thesis unfolding y(2) by simp
    qed
  qed (simp_all add: result)
qed


section \<open>What grants and names survive\<close>

lemma subset_refl [simp]: "boardDeclarationIsSubset d d"
  by (simp add: boardDeclarationIsSubset_def list_all_iff)

lemma next_Granted: "nextGrantState preserves content summary = Granted \<Longrightarrow> preserves"
  by (auto simp: nextGrantState_def split: put_content.splits if_splits)

text \<open>
  C35. Putting a widget never grants anything: a widget that is granted afterwards was granted before, may reach no more origins and tools
  than before, and is either untouched or the widget put, in the scope of the old grant and with the very bytes that were approved.
\<close>

theorem put_keeps_only_approved_grants:
  assumes "board_ok (bs_layout prior)" and "createBoardWidgetPutSnapshot parse sha256 prior params context = Inr result"
    and "w \<in> set (bl_widgets (bs_layout result))" and "bw_grantState w = Granted"
  shows "\<exists>old \<in> set (bl_widgets (bs_layout prior)).
    bw_name old = bw_name w \<and> bw_grantState old = Granted \<and> boardDeclarationIsSubset (bw_declared w) (bw_declared old) \<and>
    (bw_core old = bw_core w \<or>
     bw_name w = pa_name params \<and> pc_grantScopeMatches context \<and>
       (frozenBytes (pa_content params) = None \<or> map_option sha256 (frozenBytes (pa_content params)) = pc_grantedSha256 context))"
  using assms(2,1)
proof (rule put_effect)
  fix declared
  let ?old = "find (\<lambda>w. bw_name w = pa_name params) (bl_widgets (bs_layout prior))"
  assume others: "\<And>v. v \<in> set (bl_widgets (bs_layout result)) \<Longrightarrow> bw_name v \<noteq> pa_name params \<Longrightarrow> bw_core v \<in> bw_core ` set (bl_widgets (bs_layout prior))"
    and itself: "\<And>v. v \<in> set (bl_widgets (bs_layout result)) \<Longrightarrow> bw_name v = pa_name params \<Longrightarrow>
      bw_grantState v = nextGrantState (preservesGrant sha256 context (pa_content params) declared ?old) (pa_content params) (createBoardDeclaredSummary declared) \<and>
      bw_declared v = (if createBoardDeclaredSummary declared = None then None else declared) \<and>
      bw_revision v = (case ?old of Some w \<Rightarrow> bw_revision w | None \<Rightarrow> 0) + 1"
  show ?thesis
  proof (cases "bw_name w = pa_name params")
    case False
    from others [OF assms(3) False] obtain old where old: "old \<in> set (bl_widgets (bs_layout prior))" "bw_core w = bw_core old" by (rule imageE) simp
    note parts = core_parts(1,2,4) [OF old(2)]
    show ?thesis by (rule bexI [OF _ old(1)]) (use parts old(2) assms(4) in simp)
  next
    case True
    have declared: "bw_declared w = None \<or> bw_declared w = declared" using itself [OF assms(3) True] by simp
    have "preservesGrant sha256 context (pa_content params) declared ?old" using itself [OF assms(3) True] assms(4) next_Granted by metis
    then obtain old where old: "?old = Some old" "bw_grantState old = Granted" "pc_grantScopeMatches context"
      "frozenBytes (pa_content params) = None \<or> map_option sha256 (frozenBytes (pa_content params)) = pc_grantedSha256 context"
      "boardDeclarationIsSubset declared (bw_declared old)"
      unfolding preservesGrant_def by (cases ?old) simp_all
    have mem: "old \<in> set (bl_widgets (bs_layout prior))" "bw_name old = pa_name params" using old(1) by (auto simp: find_Some_iff)
    have "boardDeclarationIsSubset (bw_declared w) (bw_declared old)" using declared old(5) by (auto simp del: not_None_eq)
    then show ?thesis by (intro bexI [OF _ mem(1)]) (use mem(2) old True in simp)
  qed
qed

text \<open>
  A put on a well formed board leaves it well formed and in normal form, with at most 48 widgets or no more than it had, and moves the
  revision of the board and of the widget put up by one.
\<close>

theorem put_keeps_board:
  assumes "board_ok (bs_layout prior)" and "createBoardWidgetPutSnapshot parse sha256 prior params context = Inr result"
  shows "board_ok (bs_layout result) \<and> board_normal (bs_layout result) \<and> bs_revision result = bs_revision prior + 1 \<and>
    length (bl_widgets (bs_layout result)) \<le> max BOARD_MAX_WIDGETS (length (bl_widgets (bs_layout prior))) \<and>
    (\<forall>w \<in> set (bl_widgets (bs_layout result)).
      (if bw_name w = pa_name params
       then bw_revision w = (case find (\<lambda>v. bw_name v = pa_name params) (bl_widgets (bs_layout prior)) of Some v \<Rightarrow> bw_revision v | None \<Rightarrow> 0) + 1
       else \<exists>v \<in> set (bl_widgets (bs_layout prior)). bw_core v = bw_core w))"
  using assms(2,1)
proof (rule put_effect)
  fix declared
  let ?old = "find (\<lambda>w. bw_name w = pa_name params) (bl_widgets (bs_layout prior))"
  assume others: "\<And>v. v \<in> set (bl_widgets (bs_layout result)) \<Longrightarrow> bw_name v \<noteq> pa_name params \<Longrightarrow> bw_core v \<in> bw_core ` set (bl_widgets (bs_layout prior))"
    and itself: "\<And>v. v \<in> set (bl_widgets (bs_layout result)) \<Longrightarrow> bw_name v = pa_name params \<Longrightarrow>
      bw_grantState v = nextGrantState (preservesGrant sha256 context (pa_content params) declared ?old) (pa_content params) (createBoardDeclaredSummary declared) \<and>
      bw_declared v = (if createBoardDeclaredSummary declared = None then None else declared) \<and>
      bw_revision v = (case ?old of Some w \<Rightarrow> bw_revision w | None \<Rightarrow> 0) + 1"
    and board: "board_ok (bs_layout result)" "board_normal (bs_layout result)" "bs_revision result = bs_revision prior + 1"
      "length (bl_widgets (bs_layout result)) \<le> max BOARD_MAX_WIDGETS (length (bl_widgets (bs_layout prior)))"
  have "\<exists>v \<in> set (bl_widgets (bs_layout prior)). bw_core v = bw_core w" if "w \<in> set (bl_widgets (bs_layout result))" "bw_name w \<noteq> pa_name params" for w
    using others [OF that] by (rule imageE) (metis (full_types))
  with board itself show ?thesis by (simp del: max_def)
qed

text \<open>
  C37. A widget with a generated name never replaces a widget of anyone else: whatever name it resolves to, after the put every widget
  on the board that the same source and key did not generate is still there with its content, revision and grant.
\<close>

theorem generated_put_spares_others:
  assumes "board_ok (bs_layout prior)" and "pa_generatedIdentity params = Some g"
    and "resolveBoardWidgetPutParams prior params ids = Inr resolved"
    and "createBoardWidgetPutSnapshot parse sha256 prior resolved context = Inr result"
    and "w \<in> set (bl_widgets (bs_layout prior))" and "\<not> generatedIdentityMatches (ids (bw_name w)) (gi_source g) (gi_key g)"
  shows "\<exists>v \<in> set (bl_widgets (bs_layout result)). bw_core v = bw_core w"
proof -
  let ?ws = "bl_widgets (bs_layout prior)"
  have name: "bw_name w \<noteq> pa_name resolved"
  proof (cases "find (\<lambda>w. generatedIdentityMatches (ids (bw_name w)) (gi_source g) (gi_key g)) ?ws")
    case None
    have "\<not> (\<exists>v \<in> set ?ws. bw_name v = pa_name resolved)"
      using assms(3) by (auto simp: resolveBoardWidgetPutParams_def assms(2) None split: if_splits)
    with assms(5) show ?thesis by blast
  next
    case (Some v)
    then have "generatedIdentityMatches (ids (bw_name v)) (gi_source g) (gi_key g)" by (auto simp: find_Some_iff)
    moreover have "pa_name resolved = bw_name v"
      using assms(3) by (auto simp: resolveBoardWidgetPutParams_def assms(2) Some split: if_splits)
    ultimately show ?thesis using assms(6) by auto
  qed
  from assms(4,1) show ?thesis
  proof (rule put_effect)
    assume "\<And>w. w \<in> set ?ws \<Longrightarrow> bw_name w \<noteq> pa_name resolved \<Longrightarrow> bw_core w \<in> bw_core ` set (bl_widgets (bs_layout result))"
    from this [OF assms(5) name] show ?thesis by (rule imageE) (metis (full_types))
  qed
qed

text \<open>
  C36. A decision on a grant succeeds exactly on the first widget of that name while it is pending, at the revision and instance the operator
  saw; it changes its grant and the revision of the board and nothing else.
\<close>

theorem grant_decision_exact:
  "createBoardGrantSnapshot current name decision revision instanceId = Inr result \<longleftrightarrow>
   (\<exists>before w after. bl_widgets (bs_layout current) = before @ w # after \<and> name \<notin> bw_name ` set before \<and> bw_name w = name \<and>
      bw_revision w = revision \<and> (bw_instanceId w = None \<or> bw_instanceId w = instanceId) \<and> bw_grantState w = GrantPending \<and>
      result = current\<lparr>bs_revision := bs_revision current + 1,
        bs_layout := (bs_layout current)\<lparr>bl_widgets := before @ w\<lparr>bw_grantState := decision\<rparr> # after\<rparr>\<rparr>)"
proof (cases "findIndex (\<lambda>w. bw_name w = name) (bl_widgets (bs_layout current))")
  case None
  then have "\<forall>w \<in> set (bl_widgets (bs_layout current)). bw_name w \<noteq> name" by simp
  then have "\<not> (\<exists>before w after. bl_widgets (bs_layout current) = before @ w # after \<and> bw_name w = name)" by auto
  moreover have "createBoardGrantSnapshot current name decision revision instanceId = Inl BoardNotFound"
    unfolding createBoardGrantSnapshot_def None by simp
  ultimately show ?thesis by auto
next
  case (Some i)
  let ?ws = "bl_widgets (bs_layout current)"
  have i: "i < length ?ws" "bw_name (?ws ! i) = name" "\<And>j. j < i \<Longrightarrow> bw_name (?ws ! j) \<noteq> name"
    using findIndex_Some [OF Some] findIndex_first [OF Some] by simp_all
  have split: "?ws = take i ?ws @ ?ws ! i # drop (Suc i) ?ws" by (rule id_take_nth_drop [OF i(1)])
  have unique: "before = take i ?ws \<and> w = ?ws ! i \<and> after = drop (Suc i) ?ws"
    if "?ws = before @ w # after" "name \<notin> bw_name ` set before" "bw_name w = name" for before w after
  proof -
    have "length before = i"
    proof (rule linorder_cases [of "length before" i])
      assume "length before < i"
      then show ?thesis using i(3) [of "length before"] that(1,3) by simp
    next
      assume less: "i < length before"
      then have "?ws ! i \<in> set before" using that(1) by (simp add: nth_append)
      then show ?thesis using i(2) that(2) by auto
    qed
    then show ?thesis using that(1) by auto
  qed
  have fresh: "name \<notin> bw_name ` set (take i ?ws)"
  proof
    assume "name \<in> bw_name ` set (take i ?ws)"
    then obtain v where v: "v \<in> set (take i ?ws)" "bw_name v = name" by auto
    then obtain j where j: "j < i" "?ws ! j = v" by (auto simp: in_set_conv_nth)
    show False using i(3) [OF j(1)] j(2) v(2) by simp
  qed
  have updated: "?ws[i := x] = take i ?ws @ x # drop (Suc i) ?ws" for x by (rule upd_conv_take_nth_drop [OF i(1)])
  let ?w = "?ws ! i"
  let ?result = "current\<lparr>bs_revision := bs_revision current + 1,
    bs_layout := (bs_layout current)\<lparr>bl_widgets := take i ?ws @ ?w\<lparr>bw_grantState := decision\<rparr> # drop (Suc i) ?ws\<rparr>\<rparr>"
  have run: "createBoardGrantSnapshot current name decision revision instanceId = Inr result \<longleftrightarrow>
      bw_revision ?w = revision \<and> (bw_instanceId ?w = None \<or> bw_instanceId ?w = instanceId) \<and> bw_grantState ?w = GrantPending \<and> result = ?result"
    unfolding createBoardGrantSnapshot_def Some option.case Let_def updated by auto
  show ?thesis unfolding run
  proof
    assume "bw_revision ?w = revision \<and> (bw_instanceId ?w = None \<or> bw_instanceId ?w = instanceId) \<and> bw_grantState ?w = GrantPending \<and> result = ?result"
    then show "\<exists>before w after. ?ws = before @ w # after \<and> name \<notin> bw_name ` set before \<and> bw_name w = name \<and>
      bw_revision w = revision \<and> (bw_instanceId w = None \<or> bw_instanceId w = instanceId) \<and> bw_grantState w = GrantPending \<and>
      result = current\<lparr>bs_revision := bs_revision current + 1, bs_layout := (bs_layout current)\<lparr>bl_widgets := before @ w\<lparr>bw_grantState := decision\<rparr> # after\<rparr>\<rparr>"
      using split fresh i(2) by blast
  qed (use unique in blast)
qed


text \<open>
  Props that a put leaves out: the snapshot that the put returns keeps the old ones, since \<open>Object.assign\<close> keeps a field the new widget does
  not have, though the content put has none.
\<close>

lemma stale_props_in_put_result:
  assumes "board_ok (bs_layout prior)" "createBoardWidgetPutSnapshot parse sha256 prior params context = Inr result"
    "pa_content params = PutPlugin kind None" "find (\<lambda>w. bw_name w = pa_name params) (bl_widgets (bs_layout prior)) = Some old"
  shows "\<exists>w \<in> set (bl_widgets (bs_layout result)). bw_name w = pa_name params \<and> bw_props w = bw_props old"
proof -
  from assms(2) obtain layout existing tabId declared inserted placement where
    layout: "layout = ensureMainTab (normalizeBoardLayout (bs_layout prior))"
    and existing: "existing = find (\<lambda>w. bw_name w = pa_name params) (bl_widgets layout)"
    and few: "existing = None \<longrightarrow> length (bl_widgets layout) < BOARD_MAX_WIDGETS"
    and tab: "\<exists>t \<in> set (bl_tabs layout). bt_tabId t = tabId"
    and declared: "case pa_content params of PutPlugin _ _ \<Rightarrow> declared = None | _ \<Rightarrow> normalizeBoardWidgetDeclared parse (pa_declared params) = Inr declared"
    and ins: "insertBoardWidget layout (putWidgetValue sha256 context params declared existing tabId (length (bl_widgets layout))) placement = Inr inserted"
    and wp: "wp_tabId placement = tabId"
    and result: "result = \<lparr>bs_sessionKey = pa_sessionKey params, bs_revision = bs_revision prior + 1,
       bs_layout = (if createBoardDeclaredSummary declared = None then clearDeclared (pa_name params) inserted else inserted)\<rparr>"
    and own: "\<forall>w. existing = Some w \<longrightarrow> \<not> ownedByOther (pa_content params) w"
    by (rule put_cases) (rule that)
  let ?ws = "bl_widgets (bs_layout prior)" and ?w = "putWidgetValue sha256 context params declared existing tabId (length (bl_widgets layout))"
  have same: "mset (map bw_core (bl_widgets layout)) = mset (map bw_core ?ws)"
    unfolding layout ensureMain_widgets by (rule normalize_core) simp
  have names: "distinct (map bw_name ?ws)" using assms(1) unfolding board_ok_def by blast
  have "board_ok layout" unfolding layout by (rule ensureMain_ok) (simp add: normalize_ok assms(1))
  then have names': "distinct (map bw_name (bl_widgets layout))" unfolding board_ok_def by blast
  have w: "bw_name ?w = pa_name params" "bw_props ?w = None" by (simp_all add: putWidgetValue_def Let_def assms(3))
  obtain e where e: "existing = Some e" "bw_core e = bw_core old"
    using find_core [OF same names, of "pa_name params"] unfolding existing [symmetric] assms(4) by (cases existing) simp_all
  have found: "e \<in> set (bl_widgets layout)" "bw_name e = pa_name params" using e(1) unfolding existing by (auto simp: find_Some_iff)
  have "pa_name params \<in> set (map bw_name (bl_widgets inserted))"
  proof -
    obtain i where i: "findIndex (\<lambda>v. bw_name v = bw_name ?w) (bl_widgets layout) = Some i"
      using found w(1) by (cases "findIndex (\<lambda>v. bw_name v = bw_name ?w) (bl_widgets layout)") auto
    have "i < length (bl_widgets layout)" using findIndex_Some [OF i] by simp
    then have "bw_name (assignWidget (bl_widgets layout ! i) ?w) \<in> set (map bw_name ((bl_widgets layout)[i := assignWidget (bl_widgets layout ! i) ?w]))"
      by (simp add: set_update_memI)
    moreover have "set (map bw_name (bl_widgets inserted)) = set (map bw_name ((bl_widgets layout)[i := assignWidget (bl_widgets layout ! i) ?w]))"
      using insert_core [OF ins] unfolding i option.case
      by (rule mset_eq_setD [OF trans [OF core_names trans [OF arg_cong [of _ _ "image_mset bw_name"] core_names [symmetric]]]])
    moreover have "bw_name (assignWidget x ?w) = pa_name params" for x using w(1) by (simp add: assignWidget_def)
    ultimately show ?thesis by (simp only:)
  qed
  then obtain u where u: "u \<in> set (bl_widgets inserted)" "bw_name u = pa_name params" by auto
  have c: "bw_core u = bw_core (assignWidget e ?w)"
    using inserted_from [OF ins u(1) names', unfolded w(1) existing [symmetric]] u(2) e(1) by simp
  have "bw_props u = bw_props old"
    unfolding core_parts(5) [OF c] using w(2) core_parts(5) [OF e(2)] by (simp add: assignWidget_def keepOld_def)
  moreover have "(bw_name u, bw_props u) \<in> set (map (\<lambda>w. (bw_name w, bw_props w)) (bl_widgets inserted))" using u(1) by simp
  moreover have "map (\<lambda>w. (bw_name w, bw_props w)) (bl_widgets (bs_layout result)) = map (\<lambda>w. (bw_name w, bw_props w)) (bl_widgets inserted)"
    unfolding result using clearDeclared_parts(3) [of "\<lambda>w. (bw_name w, bw_props w)"] by simp
  ultimately have "(pa_name params, bw_props old) \<in> set (map (\<lambda>w. (bw_name w, bw_props w)) (bl_widgets (bs_layout result)))" by (simp only: u(2))
  then show ?thesis by auto
qed

section \<open>Witnesses\<close>

definition demoDeclared :: "string list \<Rightarrow> widget_declared option" where
  "demoDeclared tools = Some \<lparr>wd_netOrigins = None, wd_tools = Some tools\<rparr>"

definition demoGranted :: board_widget where
  "demoGranted = (demoWidget ''alpha'' ''one'' 0)\<lparr>bw_grantState := Granted, bw_declared := demoDeclared [''a'', ''b''],
     bw_instanceId := Some ''i1''\<rparr>"

definition demoPrior :: board_snapshot where
  "demoPrior = \<lparr>bs_sessionKey = ''s'', bs_revision = 4, bs_layout =
     \<lparr>bl_tabs = [demoTab ''one'' 0], bl_widgets = [demoGranted, demoWidget ''beta'' ''one'' 1]\<rparr>\<rparr>"

definition demoPut :: "string \<Rightarrow> generated_identity option \<Rightarrow> put_params" where
  "demoPut name g = \<lparr>pa_sessionKey = ''s'', pa_name = name, pa_title = None, pa_content = PutHtml ''<p>'', pa_presentation = None,
     pa_heightMode = None, pa_placement = None, pa_declared = demoDeclared [''a''], pa_generatedIdentity = g\<rparr>"

definition demoContext :: put_context where
  "demoContext = \<lparr>pc_grantScopeMatches = True, pc_grantedSha256 = Some ''<p>'', pc_instanceId = ''i2''\<rparr>"

definition demoGenerated :: generated_identity where
  "demoGenerated = \<lparr>gi_source = ''show_widget'', gi_key = ''k'', gi_fallbackName = ''gamma''\<rparr>"

lemma demoPrior_ok: "board_ok (bs_layout demoPrior)"
  by (simp add: board_ok_def demoPrior_def demoTab_def demoGranted_def demoWidget_def MAX_POSITION_def)

definition demoAfter :: board_snapshot where
  "demoAfter = projr (createBoardWidgetPutSnapshot demoParse (\<lambda>s. s) demoPrior (demoPut ''alpha'' None) demoContext)"

lemma demoAfter_run: "createBoardWidgetPutSnapshot demoParse (\<lambda>s. s) demoPrior (demoPut ''alpha'' None) demoContext = Inr demoAfter"
proof -
  have "\<not> isl (createBoardWidgetPutSnapshot demoParse (\<lambda>s. s) demoPrior (demoPut ''alpha'' None) demoContext)" by code_simp
  then show ?thesis by (simp add: demoAfter_def)
qed

theorem put_keeps_only_approved_grants_witness:
  "bw_grantState (hd (bl_widgets (bs_layout demoAfter))) = Granted \<and>
   (\<exists>old \<in> set (bl_widgets (bs_layout demoPrior)). bw_name old = bw_name (hd (bl_widgets (bs_layout demoAfter))) \<and> bw_grantState old = Granted)"
proof -
  have g: "bw_grantState (hd (bl_widgets (bs_layout demoAfter))) = Granted" and "bl_widgets (bs_layout demoAfter) \<noteq> []" by code_simp+
  then have "hd (bl_widgets (bs_layout demoAfter)) \<in> set (bl_widgets (bs_layout demoAfter))" by simp
  from put_keeps_only_approved_grants [OF demoPrior_ok demoAfter_run this g] g show ?thesis by blast
qed

theorem put_keeps_board_witness: "board_ok (bs_layout demoAfter) \<and> bs_revision demoAfter = 5"
  using put_keeps_board [OF demoPrior_ok demoAfter_run] by (simp add: demoPrior_def)

theorem generated_put_spares_others_witness:
  "\<exists>result v. createBoardWidgetPutSnapshot demoParse (\<lambda>s. s) demoPrior ((demoPut ''beta'' (Some demoGenerated))\<lparr>pa_name := ''gamma''\<rparr>) demoContext = Inr result \<and>
     v \<in> set (bl_widgets (bs_layout result)) \<and> bw_core v = bw_core demoGranted"
proof -
  let ?p = "demoPut ''beta'' (Some demoGenerated)"
  let ?r = "createBoardWidgetPutSnapshot demoParse (\<lambda>s. s) demoPrior (?p\<lparr>pa_name := ''gamma''\<rparr>) demoContext"
  have g: "pa_generatedIdentity ?p = Some demoGenerated" by code_simp
  have r: "resolveBoardWidgetPutParams demoPrior ?p (\<lambda>_. None) = Inr (?p\<lparr>pa_name := ''gamma''\<rparr>)" by code_simp
  have "\<not> isl ?r" by code_simp
  then obtain result where run: "?r = Inr result" by (cases ?r) simp_all
  have "demoGranted \<in> set (bl_widgets (bs_layout demoPrior))" by (simp add: demoPrior_def)
  from generated_put_spares_others [OF demoPrior_ok g r run this] have "\<exists>v \<in> set (bl_widgets (bs_layout result)). bw_core v = bw_core demoGranted"
    by (simp add: generatedIdentityMatches_def)
  with run show ?thesis by blast
qed

end
