(* ===== verification/BoardCodec.thy ===== *)
theory BoardCodec
  imports BoardGrants
begin

text \<open>
  The rows a board is stored in and how they are read (\<open>src/boards/sqlite-board-codec.ts\<close>). A column of JSON text is the value it was
  made from: the manifest is the list of its fields, a descriptor the object it holds. The digest is a parameter.
\<close>

section \<open>Rows\<close>

type_synonym manifest = "(string \<times> json) list"

datatype descriptor = McpDescriptor mcp_descriptor | TrustedDescriptor string "string option" | RegisteredDescriptor string string

record tab_row =
  tr_tab_id :: string
  tr_title :: string
  tr_position :: int
  tr_chat_dock :: chat_dock
  tr_created_by :: string
  tr_revision :: int

record widget_row =
  wr_name :: string
  wr_tab_id :: string
  wr_title :: "string option"
  wr_content_kind :: string
  wr_html :: "string option"
  wr_descriptor :: "descriptor option"
  wr_sha256 :: string
  wr_view_generation :: "string option"
  wr_revision :: int
  wr_size_w :: int
  wr_size_h :: int
  wr_position :: int
  wr_manifest :: manifest
  wr_grant_state :: string
  wr_granted_sha :: "string option"
  wr_created_by :: string
  wr_created_at :: int
  wr_updated_at :: int

record parsed_manifest =
  pm_contentOwner :: "content_owner option"
  pm_registeredContentKind :: "string option"
  pm_declared :: "widget_declared option"
  pm_declarationInvalid :: bool
  pm_grantSemanticsVersion :: "rat option"
  pm_presentation :: "widget_presentation option"
  pm_heightMode :: "height_mode option"
  pm_nameIdentity :: "name_marker option"
  pm_nameIdentityInvalid :: bool
  pm_mcpAppInteractive :: "bool option"
  pm_mcpAppInstanceId :: "string option"
  pm_registeredInstanceId :: "string option"

definition BOARD_GRANT_SEMANTICS_VERSION :: rat where "BOARD_GRANT_SEMANTICS_VERSION = 2"

section \<open>Reading and writing a manifest\<close>

fun ownerText :: "content_owner \<Rightarrow> string" where
  "ownerText HtmlOwner = ''html''"
| "ownerText McpAppOwner = ''mcp-app''"
| "ownerText PluginOwner = ''plugin''"
| "ownerText RegisteredOwner = ''registered''"

fun presentationText :: "widget_presentation \<Rightarrow> string" where
  "presentationText Card = ''card''"
| "presentationText FullBleed = ''full-bleed''"
| "presentationText Frameless = ''frameless''"

fun heightModeText :: "height_mode \<Rightarrow> string" where
  "heightModeText AutoHeight = ''auto''"
| "heightModeText FixedHeight = ''fixed''"

fun grantText :: "grant_state \<Rightarrow> string" where
  "grantText GrantNone = ''none''"
| "grantText GrantPending = ''pending''"
| "grantText Granted = ''granted''"
| "grantText GrantRejected = ''rejected''"

text \<open>The value among the listed ones that a JSON string spells, if any.\<close>

definition spelled :: "('a \<Rightarrow> string) \<Rightarrow> 'a list \<Rightarrow> json option \<Rightarrow> 'a option" where
  "spelled text values j = (case j of Some (JsStr s) \<Rightarrow> find (\<lambda>v. text v = s) values | _ \<Rightarrow> None)"

definition is_lower :: "char \<Rightarrow> bool" where
  "is_lower c \<longleftrightarrow> (let n = (of_char c :: nat) in 97 \<le> n \<and> n \<le> 122)"

definition is_digit_char :: "char \<Rightarrow> bool" where
  "is_digit_char c \<longleftrightarrow> (let n = (of_char c :: nat) in 48 \<le> n \<and> n \<le> 57)"

definition is_hex_char :: "char \<Rightarrow> bool" where
  "is_hex_char c \<longleftrightarrow> (let n = (of_char c :: nat) in 97 \<le> n \<and> n \<le> 102) \<or> is_digit_char c"

definition is_kind_char :: "char \<Rightarrow> bool" where
  "is_kind_char c \<longleftrightarrow> is_lower c \<or> is_digit_char c \<or> c = CHR ''-''"

text \<open>\<open>/^[a-f0-9]{n}$/\<close>, \<open>/^[a-z][a-z0-9-]{0,31}$/\<close> and the capture of \<open>/^[a-z0-9][a-z0-9-]{0,63}:([a-z][a-z0-9-]{0,31})$/\<close>.\<close>

definition hexText :: "nat \<Rightarrow> string \<Rightarrow> bool" where
  "hexText n s \<longleftrightarrow> length s = n \<and> list_all is_hex_char s"

definition contentKindText :: "string \<Rightarrow> bool" where
  "contentKindText s \<longleftrightarrow> s \<noteq> [] \<and> is_lower (hd s) \<and> list_all is_kind_char (tl s) \<and> length s \<le> 32"

definition registeredKindOf :: "string \<Rightarrow> string option" where
  "registeredKindOf pluginKind =
     (let plugin = takeWhile (\<lambda>c. c \<noteq> CHR '':'') pluginKind; kind = drop (Suc (length plugin)) pluginKind in
      if plugin \<noteq> [] \<and> (is_lower (hd plugin) \<or> is_digit_char (hd plugin)) \<and> list_all is_kind_char (tl plugin) \<and> length plugin \<le> 64 \<and>
         length plugin < length pluginKind \<and> contentKindText kind
      then Some kind else None)"

text \<open>\<open>Array.isArray(v) ? v.filter(string) : undefined\<close>, then left out when empty.\<close>

definition stringEntries :: "json option \<Rightarrow> string list option" where
  "stringEntries j =
     (case j of
        Some (JsArr xs) \<Rightarrow>
          (let entries = List.map_filter (\<lambda>x. case x of JsStr s \<Rightarrow> Some s | _ \<Rightarrow> None) xs in if entries = [] then None else Some entries)
      | _ \<Rightarrow> None)"

definition parseNameIdentity :: "json option \<Rightarrow> name_marker option" where
  "parseNameIdentity j =
     (case j of
        Some (JsObj obj) \<Rightarrow>
          if map_of obj ''kind'' = Some (JsStr ''explicit'') then Some ExplicitName
          else if map_of obj ''kind'' = Some (JsStr ''generated'') \<and> map_of obj ''source'' = Some (JsStr ''show_widget'') then
            (case map_of obj ''key'' of Some (JsStr key) \<Rightarrow> if hexText 64 key then Some (GeneratedName ''show_widget'' key) else None | _ \<Rightarrow> None)
          else None
      | _ \<Rightarrow> None)"

definition hexField :: "json option \<Rightarrow> string option" where
  "hexField j = (case j of Some (JsStr s) \<Rightarrow> if hexText 32 s then Some s else None | _ \<Rightarrow> None)"

definition parseManifest :: "url_parser \<Rightarrow> manifest \<Rightarrow> board_error + parsed_manifest" where
  "parseManifest parse m =
     (let field = map_of m;
          contentOwner = spelled ownerText [HtmlOwner, McpAppOwner, PluginOwner, RegisteredOwner] (field ''contentOwner'');
          registeredContentKind = (case field ''registeredContentKind'' of Some (JsStr s) \<Rightarrow> if contentKindText s then Some s else None | _ \<Rightarrow> None);
          nameIdentity = parseNameIdentity (field ''nameIdentity'')
      in if (field ''contentOwner'' \<noteq> None \<and> contentOwner = None) \<or>
            (contentOwner = Some RegisteredOwner \<and> registeredContentKind = None) \<or>
            (contentOwner \<noteq> Some RegisteredOwner \<and> field ''registeredContentKind'' \<noteq> None)
         then Inl BoardInvalidOperation
         else
           let ownership = \<lparr>pm_contentOwner = contentOwner, pm_registeredContentKind = registeredContentKind, pm_declared = None,
                 pm_declarationInvalid = False, pm_grantSemanticsVersion = None, pm_presentation = None, pm_heightMode = None,
                 pm_nameIdentity = None, pm_nameIdentityInvalid = False, pm_mcpAppInteractive = None, pm_mcpAppInstanceId = None,
                 pm_registeredInstanceId = None\<rparr>
           in (case normalizeBoardWidgetDeclared parse
                 (Some \<lparr>wd_netOrigins = stringEntries (field ''netOrigins''), wd_tools = stringEntries (field ''tools'')\<rparr>) of
                 Inl _ \<Rightarrow> Inr (ownership\<lparr>pm_declarationInvalid := True\<rparr>)
               | Inr declared \<Rightarrow>
                   Inr (ownership\<lparr>pm_declared := declared,
                     pm_grantSemanticsVersion :=
                       (if field ''grantSemanticsVersion'' = Some (JsNum BOARD_GRANT_SEMANTICS_VERSION) then Some BOARD_GRANT_SEMANTICS_VERSION else None),
                     pm_presentation := spelled presentationText [Card, FullBleed, Frameless] (field ''presentation''),
                     pm_heightMode := spelled heightModeText [AutoHeight, FixedHeight] (field ''heightMode''),
                     pm_nameIdentity := nameIdentity,
                     pm_nameIdentityInvalid := (nameIdentity = None \<and> field ''nameIdentity'' \<noteq> None),
                     pm_mcpAppInteractive := (case field ''mcpAppInteractive'' of Some (JsBool b) \<Rightarrow> Some b | _ \<Rightarrow> None),
                     pm_mcpAppInstanceId := hexField (field ''mcpAppInstanceId''),
                     pm_registeredInstanceId := hexField (field ''registeredInstanceId'')\<rparr>)))"

datatype frame_authority = McpAppFrame bool string | RegisteredFrame string

definition jsonStrings :: "string \<Rightarrow> string list option \<Rightarrow> manifest" where
  "jsonStrings key v = (case v of None \<Rightarrow> [] | Some xs \<Rightarrow> [(key, JsArr (map JsStr xs))])"

fun nameIdentityJson :: "name_marker \<Rightarrow> json" where
  "nameIdentityJson ExplicitName = JsObj [(''kind'', JsStr ''explicit'')]"
| "nameIdentityJson (GeneratedName source key) = JsObj [(''kind'', JsStr ''generated''), (''source'', JsStr source), (''key'', JsStr key)]"
| "nameIdentityJson InvalidName = JsObj [(''kind'', JsStr ''invalid'')]"

definition serializeManifest :: "content_owner \<Rightarrow> string option \<Rightarrow> widget_declared option \<Rightarrow> grant_state \<Rightarrow> frame_authority option \<Rightarrow>
    widget_presentation option \<Rightarrow> height_mode option \<Rightarrow> name_marker option \<Rightarrow> manifest" where
  "serializeManifest owner registeredContentKind declared grantState frameAuthority presentation heightMode nameIdentity =
     [(''contentOwner'', JsStr (ownerText owner))] @
     (case registeredContentKind of None \<Rightarrow> [] | Some k \<Rightarrow> [(''registeredContentKind'', JsStr k)]) @
     jsonStrings ''netOrigins'' (Option.bind declared wd_netOrigins) @ jsonStrings ''tools'' (Option.bind declared wd_tools) @
     (case presentation of None \<Rightarrow> [] | Some p \<Rightarrow> [(''presentation'', JsStr (presentationText p))]) @
     (case heightMode of None \<Rightarrow> [] | Some h \<Rightarrow> [(''heightMode'', JsStr (heightModeText h))]) @
     (case nameIdentity of None \<Rightarrow> [] | Some i \<Rightarrow> [(''nameIdentity'', nameIdentityJson i)]) @
     (if grantState = Granted then [(''grantSemanticsVersion'', JsNum BOARD_GRANT_SEMANTICS_VERSION)] else []) @
     (case frameAuthority of
        Some (McpAppFrame interactive instanceId) \<Rightarrow> [(''mcpAppInteractive'', JsBool interactive), (''mcpAppInstanceId'', JsStr instanceId)]
      | Some (RegisteredFrame instanceId) \<Rightarrow> [(''registeredInstanceId'', JsStr instanceId)]
      | None \<Rightarrow> [])"

text \<open>\<open>{ ...parsed, heightMode }\<close>: a present field keeps its place.\<close>

definition updateManifestHeightMode :: "manifest \<Rightarrow> height_mode \<Rightarrow> manifest" where
  "updateManifestHeightMode m heightMode =
     (let v = JsStr (heightModeText heightMode) in
      if map_of m ''heightMode'' \<noteq> None then map (\<lambda>(k, x). (k, if k = ''heightMode'' then v else x)) m else m @ [(''heightMode'', v)])"

section \<open>Rows as widgets\<close>

definition effectiveGrantState :: "string \<Rightarrow> parsed_manifest \<Rightarrow> grant_state" where
  "effectiveGrantState stored m =
     (let grantState = (if stored = ''pending'' then GrantPending else if stored = ''granted'' then Granted
        else if stored = ''rejected'' then GrantRejected else GrantNone) in
      if pm_declarationInvalid m \<or> (pm_declared m = None \<and> pm_mcpAppInteractive m \<noteq> Some True)
      then (if grantState = GrantRejected then GrantRejected else GrantNone)
      else if grantState = Granted \<and> pm_grantSemanticsVersion m \<noteq> Some BOARD_GRANT_SEMANTICS_VERSION then GrantPending
      else grantState)"

definition parsePluginContent :: "descriptor \<Rightarrow> board_error + descriptor" where
  "parsePluginContent d = (case d of McpDescriptor _ \<Rightarrow> Inl BoardInvalidOperation | _ \<Rightarrow> Inr d)"

definition rowToTab :: "tab_row \<Rightarrow> board_tab" where
  "rowToTab row = \<lparr>bt_tabId = tr_tab_id row, bt_title = tr_title row, bt_position = tr_position row, bt_chatDock = tr_chat_dock row\<rparr>"

definition kindOf :: "descriptor \<Rightarrow> string option" where
  "kindOf d = (case d of TrustedDescriptor k _ \<Rightarrow> Some k | RegisteredDescriptor k _ \<Rightarrow> Some k | McpDescriptor _ \<Rightarrow> None)"

text \<open>The kind of content of a row with its owner; a kind the check constraint of the table excludes has neither.\<close>

definition persistedOwner :: "string \<Rightarrow> descriptor option \<Rightarrow> (widget_content \<times> content_owner) option" where
  "persistedOwner content_kind content =
     (if content_kind = ''html'' then Some (HtmlContent, HtmlOwner)
      else if content_kind = ''mcp-app'' then Some (McpAppContent, McpAppOwner)
      else if content_kind = ''plugin'' then
        Some (PluginContent, case content of Some (RegisteredDescriptor _ _) \<Rightarrow> RegisteredOwner | _ \<Rightarrow> PluginOwner)
      else None)"

definition rowToWidget :: "widget_row \<Rightarrow> parsed_manifest \<Rightarrow> board_error + board_widget" where
  "rowToWidget row m =
     (case (if wr_content_kind row = ''plugin'' then (case wr_descriptor row of None \<Rightarrow> Inr None | Some d \<Rightarrow> map_sum id Some (parsePluginContent d)) else Inr None) of
        Inl e \<Rightarrow> Inl e
      | Inr content \<Rightarrow>
          (case persistedOwner (wr_content_kind row) content of
             None \<Rightarrow> Inl BoardInvalidOperation
           | Some (kind, owner) \<Rightarrow>
               let persistedKind = (if owner = RegisteredOwner then Option.bind (Option.bind content kindOf) registeredKindOf else None);
                   registeredContentKind = keepOld (pm_registeredContentKind m) persistedKind
               in if (pm_contentOwner m \<noteq> None \<and> pm_contentOwner m \<noteq> Some owner) \<or>
                     (owner = RegisteredOwner \<and>
                       (persistedKind = None \<or> (pm_registeredContentKind m \<noteq> None \<and> pm_registeredContentKind m \<noteq> persistedKind)))
                  then Inl BoardInvalidOperation
                  else Inr \<lparr>bw_name = wr_name row, bw_tabId = wr_tab_id row, bw_title = wr_title row, bw_contentKind = kind,
                    bw_contentOwner = keepOld (pm_contentOwner m) (Some owner),
                    bw_registeredContentKind = (if registeredContentKind = Some [] then None else registeredContentKind),
                    bw_pluginKind = Option.bind content kindOf,
                    bw_props = (case content of Some (TrustedDescriptor _ props) \<Rightarrow> props | _ \<Rightarrow> None),
                    bw_presentation = pm_presentation m, bw_heightMode = pm_heightMode m,
                    bw_sizeW = wr_size_w row, bw_sizeH = wr_size_h row, bw_position = wr_position row,
                    bw_grantState = effectiveGrantState (wr_grant_state row) m, bw_revision = wr_revision row,
                    bw_instanceId = (let i = (if wr_content_kind row = ''mcp-app'' then pm_mcpAppInstanceId m
                      else (case content of Some (RegisteredDescriptor _ _) \<Rightarrow> pm_registeredInstanceId m | _ \<Rightarrow> wr_view_generation row))
                      in if i = Some [] then None else i),
                    bw_declaredSummary = createBoardDeclaredSummary (pm_declared m), bw_declared = pm_declared m\<rparr>))"

section \<open>What a put writes\<close>

definition ownerFrame :: "put_content \<Rightarrow> string \<Rightarrow> frame_authority option" where
  "ownerFrame content viewGeneration =
     (case content of
        PutMcpApp _ interactive \<Rightarrow> Some (McpAppFrame interactive viewGeneration)
      | PutRegistered _ _ _ \<Rightarrow> Some (RegisteredFrame viewGeneration)
      | _ \<Rightarrow> None)"

text \<open>\<open>JSON.stringify\<close> of a descriptor; props are their own text.\<close>

fun descriptorText :: "descriptor \<Rightarrow> string" where
  "descriptorText (McpDescriptor d) = ''{'' @ joinWith '',''
     (jsonField ''serverName'' (Some (jsonString (md_serverName d))) @ jsonField ''toolName'' (Some (jsonString (md_toolName d))) @
      jsonField ''uiResourceUri'' (Some (jsonString (md_uiResourceUri d))) @ jsonField ''toolCallId'' (Some (jsonString (md_toolCallId d)))) @ ''}''"
| "descriptorText (TrustedDescriptor kind props) =
     ''{'' @ joinWith '','' (jsonField ''pluginKind'' (Some (jsonString kind)) @ jsonField ''props'' props) @ ''}''"
| "descriptorText (RegisteredDescriptor kind source) =
     ''{'' @ joinWith '','' (jsonField ''pluginKind'' (Some (jsonString kind)) @ jsonField ''source'' (Some (jsonString source))) @ ''}''"

definition createBoardWidgetContentFields :: "(string \<Rightarrow> string) \<Rightarrow> put_params \<Rightarrow> widget_presentation option \<Rightarrow> height_mode option \<Rightarrow> int \<Rightarrow>
    grant_state \<Rightarrow> string \<Rightarrow> int \<Rightarrow> widget_row \<Rightarrow> widget_row" where
  "createBoardWidgetContentFields sha256 params presentation heightMode revision grantState viewGeneration now row =
     (let content = pa_content params;
          manifest = serializeManifest (contentOwner content) (registeredKind content) (pa_declared params) grantState
            (ownerFrame content viewGeneration) presentation heightMode
            (Some (case pa_generatedIdentity params of Some g \<Rightarrow> GeneratedName (gi_source g) (gi_key g) | None \<Rightarrow> ExplicitName));
          row1 = row\<lparr>wr_revision := revision, wr_manifest := manifest, wr_updated_at := now\<rparr>
      in (case content of
            PutHtml html \<Rightarrow>
              row1\<lparr>wr_content_kind := ''html'', wr_html := Some html, wr_descriptor := None, wr_sha256 := sha256 html,
                wr_view_generation := Some viewGeneration, wr_grant_state := grantText grantState,
                wr_granted_sha := (if grantState = Granted then Some (sha256 html) else None)\<rparr>
          | PutPlugin kind props \<Rightarrow>
              row1\<lparr>wr_content_kind := ''plugin'', wr_html := None, wr_descriptor := Some (TrustedDescriptor kind props),
                wr_sha256 := sha256 (descriptorText (TrustedDescriptor kind props)),
                wr_view_generation := None, wr_grant_state := ''none'', wr_granted_sha := None\<rparr>
          | PutRegistered _ source kind \<Rightarrow>
              row1\<lparr>wr_content_kind := ''plugin'', wr_html := None, wr_descriptor := Some (RegisteredDescriptor kind source),
                wr_sha256 := sha256 source, wr_view_generation := None, wr_grant_state := grantText grantState,
                wr_granted_sha := (if grantState = Granted then Some (sha256 source) else None)\<rparr>
          | PutMcpApp d _ \<Rightarrow>
              row1\<lparr>wr_content_kind := ''mcp-app'', wr_html := None, wr_descriptor := Some (McpDescriptor d),
                wr_sha256 := sha256 (descriptorText (McpDescriptor d)), wr_view_generation := None, wr_grant_state := grantText grantState,
                wr_granted_sha := (if grantState = Granted then Some (sha256 (descriptorText (McpDescriptor d))) else None)\<rparr>))"


section \<open>What is written is what is read\<close>

lemma spelled_text [simp]:
  "spelled ownerText [HtmlOwner, McpAppOwner, PluginOwner, RegisteredOwner] (Some (JsStr (ownerText owner))) = Some owner"
  "spelled presentationText [Card, FullBleed, Frameless] (Some (JsStr (presentationText p))) = Some p"
  "spelled heightModeText [AutoHeight, FixedHeight] (Some (JsStr (heightModeText h))) = Some h"
  subgoal by (cases owner) (simp_all add: spelled_def)
  subgoal by (cases p) (simp_all add: spelled_def)
  subgoal by (cases h) (simp_all add: spelled_def)
  done

lemma spelled_None [simp]: "spelled text values None = None"
  by (simp add: spelled_def)

lemma map_filter_strings: "List.map_filter (\<lambda>x. case x of JsStr s \<Rightarrow> Some s | _ \<Rightarrow> None) (map JsStr xs) = xs"
  by (induction xs) (simp_all add: map_filter_def)

lemma stringEntries_written [simp]:
  "stringEntries (Some (JsArr (map JsStr xs))) = (if xs = [] then None else Some xs)" "stringEntries None = None"
  by (simp_all add: stringEntries_def map_filter_strings)

text \<open>The fields of a written manifest.\<close>

lemma map_of_optional: "map_of (case v of None \<Rightarrow> [] | Some x \<Rightarrow> [(k, f x)]) k' = (if k' = k then map_option f v else None)"
  by (cases v) simp_all

lemma map_of_strings: "map_of (jsonStrings k v) k' = (if k' = k then map_option (\<lambda>xs. JsArr (map JsStr xs)) v else None)"
  by (cases v) (simp_all add: jsonStrings_def)

lemma map_of_when: "map_of (if b then [(k, x)] else []) k' = (if k' = k \<and> b then Some x else None)"
  by simp

lemma map_of_frame:
  "map_of (case frame of Some (McpAppFrame interactive i) \<Rightarrow> [(''mcpAppInteractive'', JsBool interactive), (''mcpAppInstanceId'', JsStr i)]
     | Some (RegisteredFrame i) \<Rightarrow> [(''registeredInstanceId'', JsStr i)] | None \<Rightarrow> []) k =
   (if k = ''mcpAppInteractive'' then (case frame of Some (McpAppFrame interactive _) \<Rightarrow> Some (JsBool interactive) | _ \<Rightarrow> None)
    else if k = ''mcpAppInstanceId'' then (case frame of Some (McpAppFrame _ i) \<Rightarrow> Some (JsStr i) | _ \<Rightarrow> None)
    else if k = ''registeredInstanceId'' then (case frame of Some (RegisteredFrame i) \<Rightarrow> Some (JsStr i) | _ \<Rightarrow> None) else None)"
proof (cases frame)
  case (Some a)
  then show ?thesis by (cases a) simp_all
qed simp

lemma map_of_parts: "map_of (xs @ ys) k = (case map_of xs k of None \<Rightarrow> map_of ys k | Some v \<Rightarrow> Some v)"
  by (induction xs) auto

lemma case_option_same [simp]: "(case v of None \<Rightarrow> None | Some x \<Rightarrow> Some x) = v"
  by (cases v) simp_all

lemma case_option_map_same: "(case v of None \<Rightarrow> None | Some x \<Rightarrow> Some (f x)) = map_option f v"
  by (cases v) simp_all

lemma manifest_fields:
  fixes owner kind declared grant frame presentation height identity
  defines "m \<equiv> serializeManifest owner kind declared grant frame presentation height identity"
  shows "map_of m ''contentOwner'' = Some (JsStr (ownerText owner))"
    and "map_of m ''registeredContentKind'' = map_option JsStr kind"
    and "map_of m ''netOrigins'' = map_option (\<lambda>xs. JsArr (map JsStr xs)) (Option.bind declared wd_netOrigins)"
    and "map_of m ''tools'' = map_option (\<lambda>xs. JsArr (map JsStr xs)) (Option.bind declared wd_tools)"
    and "map_of m ''presentation'' = map_option (\<lambda>p. JsStr (presentationText p)) presentation"
    and "map_of m ''heightMode'' = map_option (\<lambda>h. JsStr (heightModeText h)) height"
    and "map_of m ''nameIdentity'' = map_option nameIdentityJson identity"
    and "map_of m ''grantSemanticsVersion'' = (if grant = Granted then Some (JsNum BOARD_GRANT_SEMANTICS_VERSION) else None)"
    and "map_of m ''mcpAppInteractive'' = (case frame of Some (McpAppFrame interactive _) \<Rightarrow> Some (JsBool interactive) | _ \<Rightarrow> None)"
    and "map_of m ''mcpAppInstanceId'' = (case frame of Some (McpAppFrame _ i) \<Rightarrow> Some (JsStr i) | _ \<Rightarrow> None)"
    and "map_of m ''registeredInstanceId'' = (case frame of Some (RegisteredFrame i) \<Rightarrow> Some (JsStr i) | _ \<Rightarrow> None)"
  unfolding m_def serializeManifest_def
  by (simp_all only: map_of_parts map_of_optional map_of_strings map_of_when map_of_frame)
    (simp_all add: case_option_map_same cong: option.case_cong)

definition frameOk :: "frame_authority option \<Rightarrow> bool" where
  "frameOk frame \<longleftrightarrow> (case frame of Some (McpAppFrame _ i) \<Rightarrow> hexText 32 i | Some (RegisteredFrame i) \<Rightarrow> hexText 32 i | None \<Rightarrow> True)"

definition identityOk :: "name_marker option \<Rightarrow> bool" where
  "identityOk identity \<longleftrightarrow> (case identity of Some (GeneratedName source key) \<Rightarrow> source = ''show_widget'' \<and> hexText 64 key | Some InvalidName \<Rightarrow> False | _ \<Rightarrow> True)"

definition ownershipOk :: "content_owner \<Rightarrow> string option \<Rightarrow> bool" where
  "ownershipOk owner kind \<longleftrightarrow> (case kind of Some k \<Rightarrow> owner = RegisteredOwner \<and> contentKindText k | None \<Rightarrow> owner \<noteq> RegisteredOwner)"

lemma identity_read: "identityOk identity \<Longrightarrow> parseNameIdentity (map_option nameIdentityJson identity) = identity"
  by (cases identity) (auto simp: identityOk_def parseNameIdentity_def split: name_marker.splits)

lemma declared_read:
  assumes "normalizeBoardWidgetDeclared parse declared = Inr declared"
  shows "normalizeBoardWidgetDeclared parse
    (Some \<lparr>wd_netOrigins = stringEntries (map_option (\<lambda>xs. JsArr (map JsStr xs)) (Option.bind declared wd_netOrigins)),
           wd_tools = stringEntries (map_option (\<lambda>xs. JsArr (map JsStr xs)) (Option.bind declared wd_tools))\<rparr>) = Inr declared"
proof (cases declared)
  case None
  have "normalizeBoardWidgetDeclared parse (Some \<lparr>wd_netOrigins = None, wd_tools = None\<rparr>) = Inr None"
    by (simp add: normalizeBoardWidgetDeclared_def declaredOf_def finishDeclared_def normalizeSandboxHostCsp_def normalizeDomains_def
        canonicalSet_def uniqueValues_def sort_by_def map_filter_def)
  with None show ?thesis by simp
next
  case (Some n)
  obtain origins tools where f: "finishDeclared parse (canonicalSet origins) (canonicalSet tools) = Inr (Some n)"
    using normalized_parts [OF assms [unfolded Some]] by metis
  have "n = \<lparr>wd_netOrigins = (if canonicalSet origins \<noteq> [] then Some (canonicalSet origins) else None),
      wd_tools = (if canonicalSet tools \<noteq> [] then Some (canonicalSet tools) else None)\<rparr>" by (rule finish_Some(1) [OF f])
  then have "\<lparr>wd_netOrigins = stringEntries (map_option (\<lambda>xs. JsArr (map JsStr xs)) (wd_netOrigins n)),
      wd_tools = stringEntries (map_option (\<lambda>xs. JsArr (map JsStr xs)) (wd_tools n))\<rparr> = n" by simp
  then show ?thesis using assms unfolding Some by simp
qed

definition manifestOf :: "content_owner \<Rightarrow> string option \<Rightarrow> widget_declared option \<Rightarrow> grant_state \<Rightarrow> frame_authority option \<Rightarrow>
    widget_presentation option \<Rightarrow> height_mode option \<Rightarrow> name_marker option \<Rightarrow> parsed_manifest" where
  "manifestOf owner kind declared grant frame presentation height identity =
     \<lparr>pm_contentOwner = Some owner, pm_registeredContentKind = kind, pm_declared = declared, pm_declarationInvalid = False,
      pm_grantSemanticsVersion = (if grant = Granted then Some BOARD_GRANT_SEMANTICS_VERSION else None), pm_presentation = presentation,
      pm_heightMode = height, pm_nameIdentity = identity, pm_nameIdentityInvalid = False,
      pm_mcpAppInteractive = (case frame of Some (McpAppFrame interactive _) \<Rightarrow> Some interactive | _ \<Rightarrow> None),
      pm_mcpAppInstanceId = (case frame of Some (McpAppFrame _ i) \<Rightarrow> Some i | _ \<Rightarrow> None),
      pm_registeredInstanceId = (case frame of Some (RegisteredFrame i) \<Rightarrow> Some i | _ \<Rightarrow> None)\<rparr>"

lemma manifest_read:
  assumes "ownershipOk owner kind" "normalizeBoardWidgetDeclared parse declared = Inr declared" "frameOk frame" "identityOk identity"
    "map_of m ''contentOwner'' = Some (JsStr (ownerText owner))" "map_of m ''registeredContentKind'' = map_option JsStr kind"
    "map_of m ''netOrigins'' = map_option (\<lambda>xs. JsArr (map JsStr xs)) (Option.bind declared wd_netOrigins)"
    "map_of m ''tools'' = map_option (\<lambda>xs. JsArr (map JsStr xs)) (Option.bind declared wd_tools)"
    "map_of m ''presentation'' = map_option (\<lambda>p. JsStr (presentationText p)) presentation"
    "map_of m ''heightMode'' = map_option (\<lambda>h. JsStr (heightModeText h)) height"
    "map_of m ''nameIdentity'' = map_option nameIdentityJson identity"
    "map_of m ''grantSemanticsVersion'' = (if grant = Granted then Some (JsNum BOARD_GRANT_SEMANTICS_VERSION) else None)"
    "map_of m ''mcpAppInteractive'' = (case frame of Some (McpAppFrame interactive _) \<Rightarrow> Some (JsBool interactive) | _ \<Rightarrow> None)"
    "map_of m ''mcpAppInstanceId'' = (case frame of Some (McpAppFrame _ i) \<Rightarrow> Some (JsStr i) | _ \<Rightarrow> None)"
    "map_of m ''registeredInstanceId'' = (case frame of Some (RegisteredFrame i) \<Rightarrow> Some (JsStr i) | _ \<Rightarrow> None)"
  shows "parseManifest parse m = Inr (manifestOf owner kind declared grant frame presentation height identity)"
proof -
  have k: "(case map_option JsStr kind of Some (JsStr s) \<Rightarrow> if contentKindText s then Some s else None | _ \<Rightarrow> None) = kind"
    using assms(1) by (cases kind) (simp_all add: ownershipOk_def)
  have valid: "owner = RegisteredOwner \<longleftrightarrow> kind \<noteq> None" using assms(1) by (cases kind) (simp_all add: ownershipOk_def)
  have p: "spelled presentationText [Card, FullBleed, Frameless] (map_option (\<lambda>p. JsStr (presentationText p)) presentation) = presentation"
    and h: "spelled heightModeText [AutoHeight, FixedHeight] (map_option (\<lambda>h. JsStr (heightModeText h)) height) = height"
    by (cases presentation; simp) (cases height; simp)
  have f: "(case (case frame of Some (McpAppFrame interactive _) \<Rightarrow> Some (JsBool interactive) | _ \<Rightarrow> None) of Some (JsBool b) \<Rightarrow> Some b | _ \<Rightarrow> None) =
      (case frame of Some (McpAppFrame interactive _) \<Rightarrow> Some interactive | _ \<Rightarrow> None)"
    "hexField (case frame of Some (McpAppFrame _ i) \<Rightarrow> Some (JsStr i) | _ \<Rightarrow> None) = (case frame of Some (McpAppFrame _ i) \<Rightarrow> Some i | _ \<Rightarrow> None)"
    "hexField (case frame of Some (RegisteredFrame i) \<Rightarrow> Some (JsStr i) | _ \<Rightarrow> None) = (case frame of Some (RegisteredFrame i) \<Rightarrow> Some i | _ \<Rightarrow> None)"
    using assms(3) by (auto simp: frameOk_def hexField_def split: option.splits frame_authority.splits)
  show ?thesis
    unfolding parseManifest_def Let_def assms(5-15) k p h f identity_read [OF assms(4)] declared_read [OF assms(2)] spelled_text
    using valid by (cases kind; cases identity) (simp_all add: manifestOf_def)
qed


text \<open>
  C34. A manifest survives storage: parsing a written manifest gives back its ownership, declared capabilities, frame options, identity and
  frame authority, and the mark of the current grant rules exactly when it was written for a granted widget.
\<close>

theorem manifest_round_trip:
  assumes "ownershipOk owner kind" and "normalizeBoardWidgetDeclared parse declared = Inr declared" and "frameOk frame" and "identityOk identity"
  shows "parseManifest parse (serializeManifest owner kind declared grant frame presentation height identity) =
    Inr (manifestOf owner kind declared grant frame presentation height identity)"
  by (rule manifest_read [OF assms manifest_fields])

section \<open>The row of a widget\<close>

definition contentOk :: "put_content \<Rightarrow> bool" where
  "contentOk content \<longleftrightarrow>
     (case content of PutRegistered kind _ pluginKind \<Rightarrow> contentKindText kind \<and> registeredKindOf pluginKind = Some kind | _ \<Rightarrow> True)"

fun kindText :: "widget_content \<Rightarrow> string" where
  "kindText HtmlContent = ''html''"
| "kindText McpAppContent = ''mcp-app''"
| "kindText PluginContent = ''plugin''"

fun descriptorOf :: "put_content \<Rightarrow> descriptor option" where
  "descriptorOf (PutHtml _) = None"
| "descriptorOf (PutMcpApp d _) = Some (McpDescriptor d)"
| "descriptorOf (PutPlugin kind props) = Some (TrustedDescriptor kind props)"
| "descriptorOf (PutRegistered _ source kind) = Some (RegisteredDescriptor kind source)"

fun digestedText :: "put_content \<Rightarrow> string" where
  "digestedText (PutHtml html) = html"
| "digestedText (PutMcpApp d _) = descriptorText (McpDescriptor d)"
| "digestedText (PutPlugin kind props) = descriptorText (TrustedDescriptor kind props)"
| "digestedText (PutRegistered _ source _) = source"

definition interactiveContent :: "put_content \<Rightarrow> bool" where
  "interactiveContent content \<longleftrightarrow> (case content of PutMcpApp _ interactive \<Rightarrow> interactive | _ \<Rightarrow> False)"

definition manifestHolds :: "manifest \<Rightarrow> put_content \<Rightarrow> string \<Rightarrow> name_marker option \<Rightarrow> board_widget \<Rightarrow> bool" where
  "manifestHolds m content gen identity w \<longleftrightarrow>
     map_of m ''contentOwner'' = Some (JsStr (ownerText (contentOwner content))) \<and>
     map_of m ''registeredContentKind'' = map_option JsStr (registeredKind content) \<and>
     map_of m ''netOrigins'' = map_option (\<lambda>xs. JsArr (map JsStr xs)) (Option.bind (bw_declared w) wd_netOrigins) \<and>
     map_of m ''tools'' = map_option (\<lambda>xs. JsArr (map JsStr xs)) (Option.bind (bw_declared w) wd_tools) \<and>
     map_of m ''presentation'' = map_option (\<lambda>p. JsStr (presentationText p)) (bw_presentation w) \<and>
     map_of m ''heightMode'' = map_option (\<lambda>h. JsStr (heightModeText h)) (bw_heightMode w) \<and>
     map_of m ''nameIdentity'' = map_option nameIdentityJson identity \<and>
     map_of m ''grantSemanticsVersion'' = (if bw_grantState w = Granted then Some (JsNum BOARD_GRANT_SEMANTICS_VERSION) else None) \<and>
     map_of m ''mcpAppInteractive'' = (case ownerFrame content gen of Some (McpAppFrame interactive _) \<Rightarrow> Some (JsBool interactive) | _ \<Rightarrow> None) \<and>
     map_of m ''mcpAppInstanceId'' = (case ownerFrame content gen of Some (McpAppFrame _ i) \<Rightarrow> Some (JsStr i) | _ \<Rightarrow> None) \<and>
     map_of m ''registeredInstanceId'' = (case ownerFrame content gen of Some (RegisteredFrame i) \<Rightarrow> Some (JsStr i) | _ \<Rightarrow> None)"

text \<open>The widget that a row stands for, with the content it was put with.\<close>

definition rowHolds :: "url_parser \<Rightarrow> (string \<Rightarrow> string) \<Rightarrow> widget_row \<Rightarrow> put_content \<Rightarrow> string \<Rightarrow> name_marker \<Rightarrow> board_widget \<Rightarrow> bool" where
  "rowHolds parse sha256 row content gen identity w \<longleftrightarrow>
     contentOk content \<and> hexText 32 gen \<and> identityOk (Some identity) \<and>
     normalizeBoardWidgetDeclared parse (bw_declared w) = Inr (bw_declared w) \<and>
     manifestHolds (wr_manifest row) content gen (Some identity) w \<and>
     (wr_name row = bw_name w \<and> wr_tab_id row = bw_tabId w \<and> wr_title row = bw_title w \<and> wr_size_w row = bw_sizeW w \<and>
      wr_size_h row = bw_sizeH w \<and> wr_position row = bw_position w \<and> wr_revision row = bw_revision w) \<and>
     (wr_content_kind row = kindText (contentKind content) \<and> wr_html row = (case content of PutHtml h \<Rightarrow> Some h | _ \<Rightarrow> None) \<and>
      wr_descriptor row = descriptorOf content \<and> wr_sha256 row = sha256 (digestedText content) \<and>
      wr_view_generation row = (case content of PutHtml _ \<Rightarrow> Some gen | _ \<Rightarrow> None)) \<and>
     wr_grant_state row = grantText (bw_grantState w) \<and>
     (bw_grantState w \<in> {Granted, GrantPending} \<longrightarrow> bw_declared w \<noteq> None \<or> interactiveContent content) \<and>
     wr_granted_sha row = (if bw_grantState w = Granted then Some (wr_sha256 row) else None) \<and>
     (bw_contentKind w = contentKind content \<and> bw_contentOwner w = Some (contentOwner content) \<and>
      bw_registeredContentKind w = registeredKind content \<and> bw_pluginKind w = contentPluginKind content \<and> bw_props w = contentProps content \<and>
      bw_instanceId w = (case content of PutPlugin _ _ \<Rightarrow> None | _ \<Rightarrow> Some gen) \<and>
      bw_declaredSummary w = createBoardDeclaredSummary (bw_declared w))"

lemma content_ownership: "contentOk content \<Longrightarrow> ownershipOk (contentOwner content) (registeredKind content)"
  by (cases content) (simp_all add: contentOk_def ownershipOk_def)

lemma frame_written: "hexText 32 gen \<Longrightarrow> frameOk (ownerFrame content gen)"
  by (cases content) (simp_all add: frameOk_def ownerFrame_def)

abbreviation rowManifest :: "put_content \<Rightarrow> string \<Rightarrow> name_marker \<Rightarrow> board_widget \<Rightarrow> parsed_manifest" where
  "rowManifest content gen identity w \<equiv> manifestOf (contentOwner content) (registeredKind content) (bw_declared w) (bw_grantState w)
     (ownerFrame content gen) (bw_presentation w) (bw_heightMode w) (Some identity)"

lemma row_manifest:
  assumes "rowHolds parse sha256 row content gen identity w"
  shows "parseManifest parse (wr_manifest row) = Inr (rowManifest content gen identity w)"
  using assms unfolding rowHolds_def manifestHolds_def
  by (elim conjE) (rule manifest_read; (assumption | rule content_ownership frame_written))

lemma row_grant:
  assumes "rowHolds parse sha256 row content gen identity w"
  shows "effectiveGrantState (wr_grant_state row) (rowManifest content gen identity w) = bw_grantState w"
proof -
  have g: "wr_grant_state row = grantText (bw_grantState w)"
    "bw_grantState w \<in> {Granted, GrantPending} \<longrightarrow> bw_declared w \<noteq> None \<or> interactiveContent content"
    using assms unfolding rowHolds_def by blast+
  have i: "pm_mcpAppInteractive (rowManifest content gen identity w) = Some True \<longleftrightarrow> interactiveContent content"
    by (cases content) (simp_all add: manifestOf_def ownerFrame_def interactiveContent_def)
  show ?thesis using g(2) unfolding g(1) effectiveGrantState_def Let_def i
    by (cases "bw_grantState w") (simp_all add: manifestOf_def)
qed

lemma row_reads:
  assumes "rowHolds parse sha256 row content gen identity w"
  shows "rowToWidget row (rowManifest content gen identity w) = Inr w"
    and "wr_content_kind row \<noteq> ''mcp-app'' \<or>
      (pm_mcpAppInteractive (rowManifest content gen identity w) \<noteq> None \<and> pm_mcpAppInstanceId (rowManifest content gen identity w) \<noteq> None)"
proof -
  note h = assms [unfolded rowHolds_def]
  have gen: "gen \<noteq> []" using h by (auto simp: hexText_def)
  have kind: "registeredKind content \<noteq> Some []" using h by (cases content) (auto simp: contentOk_def contentKindText_def)
  show "rowToWidget row (rowManifest content gen identity w) = Inr w"
    using h gen kind row_grant [OF assms]
    by (cases content) (auto simp: rowToWidget_def Let_def persistedOwner_def parsePluginContent_def kindOf_def keepOld_def manifestOf_def contentOk_def
        ownerFrame_def intro!: board_widget.equality)
  show "wr_content_kind row \<noteq> ''mcp-app'' \<or>
      (pm_mcpAppInteractive (rowManifest content gen identity w) \<noteq> None \<and> pm_mcpAppInstanceId (rowManifest content gen identity w) \<noteq> None)"
    using h by (cases content) (simp_all add: manifestOf_def ownerFrame_def)
qed


section \<open>Rows follow their widgets\<close>

lemma row_moved:
  assumes "rowHolds parse sha256 row content gen identity w"
    and "w' = w\<lparr>bw_tabId := bw_tabId w', bw_title := bw_title w', bw_sizeW := bw_sizeW w', bw_sizeH := bw_sizeH w', bw_position := bw_position w'\<rparr>"
  shows "rowHolds parse sha256 (row\<lparr>wr_tab_id := bw_tabId w', wr_title := bw_title w', wr_size_w := bw_sizeW w', wr_size_h := bw_sizeH w',
    wr_position := bw_position w', wr_updated_at := now\<rparr>) content gen identity w'"
  using assms(1) by (subst assms(2)) (simp add: rowHolds_def manifestHolds_def)

lemma row_decided:
  assumes "rowHolds parse sha256 row content gen identity w" and "bw_grantState w = GrantPending" and "decision \<in> {Granted, GrantRejected}"
  shows "rowHolds parse sha256 (row\<lparr>wr_grant_state := grantText decision, wr_granted_sha := (if decision = Granted then Some (wr_sha256 row) else None),
      wr_manifest := serializeManifest (contentOwner content) (registeredKind content) (bw_declared w) decision (ownerFrame content gen)
        (bw_presentation w) (bw_heightMode w) (Some identity), wr_updated_at := now\<rparr>)
    content gen identity (w\<lparr>bw_grantState := decision\<rparr>)"
  using assms unfolding rowHolds_def manifestHolds_def by (auto simp: manifest_fields)

lemma map_of_heightMode:
  "map_of (updateManifestHeightMode m h) k = (if k = ''heightMode'' then Some (JsStr (heightModeText h)) else map_of m k)"
proof -
  have "map_of (map (\<lambda>(k, x). (k, if k = a then v else x)) m) k = (if k = a \<and> map_of m a \<noteq> None then Some v else map_of m k)" for a v
    by (induction m) auto
  then show ?thesis by (auto simp: updateManifestHeightMode_def Let_def map_of_parts split: option.splits simp del: map_of_append)
qed

lemma row_height:
  assumes "rowHolds parse sha256 row content gen identity w"
  shows "rowHolds parse sha256 (row\<lparr>wr_manifest := updateManifestHeightMode (wr_manifest row) h\<rparr>) content gen identity (w\<lparr>bw_heightMode := Some h\<rparr>)"
  using assms by (simp add: rowHolds_def manifestHolds_def map_of_heightMode)

text \<open>The identity a put records.\<close>

definition putIdentity :: "put_params \<Rightarrow> name_marker" where
  "putIdentity params = (case pa_generatedIdentity params of Some g \<Rightarrow> GeneratedName (gi_source g) (gi_key g) | None \<Rightarrow> ExplicitName)"

definition requestOk :: "put_params \<Rightarrow> string \<Rightarrow> bool" where
  "requestOk params gen \<longleftrightarrow> contentOk (pa_content params) \<and> hexText 32 gen \<and>
     (case pa_generatedIdentity params of Some g \<Rightarrow> gi_source g = ''show_widget'' \<and> hexText 64 (gi_key g) | None \<Rightarrow> True)"

lemma request_identity: "requestOk params gen \<Longrightarrow> identityOk (Some (putIdentity params))"
  by (simp add: requestOk_def identityOk_def putIdentity_def split: option.splits)

lemma row_put:
  assumes "requestOk params gen" and "normalizeBoardWidgetDeclared parse (pa_declared params) = Inr (pa_declared params)"
    and "bw_declared w = pa_declared params" and "bw_grantState w \<in> {Granted, GrantPending} \<longrightarrow> bw_declared w \<noteq> None \<or> interactiveContent (pa_content params)"
    and "\<And>kind props. pa_content params = PutPlugin kind props \<Longrightarrow> bw_grantState w = GrantNone"
    and "wr_name row = bw_name w" "wr_tab_id row = bw_tabId w" "wr_title row = bw_title w" "wr_size_w row = bw_sizeW w"
      "wr_size_h row = bw_sizeH w" "wr_position row = bw_position w"
    and "bw_contentKind w = contentKind (pa_content params)" "bw_contentOwner w = Some (contentOwner (pa_content params))"
      "bw_registeredContentKind w = registeredKind (pa_content params)" "bw_pluginKind w = contentPluginKind (pa_content params)"
      "bw_props w = contentProps (pa_content params)"
      "bw_instanceId w = (case pa_content params of PutPlugin _ _ \<Rightarrow> None | _ \<Rightarrow> Some gen)"
      "bw_declaredSummary w = createBoardDeclaredSummary (bw_declared w)"
  shows "rowHolds parse sha256
    (createBoardWidgetContentFields sha256 params (bw_presentation w) (bw_heightMode w) (bw_revision w) (bw_grantState w) gen now row)
    (pa_content params) gen (putIdentity params) w"
proof -
  let ?row = "createBoardWidgetContentFields sha256 params (bw_presentation w) (bw_heightMode w) (bw_revision w) (bw_grantState w) gen now row"
  have m: "wr_manifest ?row = serializeManifest (contentOwner (pa_content params)) (registeredKind (pa_content params)) (pa_declared params)
      (bw_grantState w) (ownerFrame (pa_content params) gen) (bw_presentation w) (bw_heightMode w) (Some (putIdentity params))"
    by (simp add: createBoardWidgetContentFields_def Let_def putIdentity_def split: put_content.splits)
  have "manifestHolds (wr_manifest ?row) (pa_content params) gen (Some (putIdentity params)) w"
    unfolding manifestHolds_def m assms(3) by (simp add: manifest_fields)
  moreover have "wr_grant_state ?row = grantText (bw_grantState w) \<and> wr_granted_sha ?row = (if bw_grantState w = Granted then Some (wr_sha256 ?row) else None)"
    using assms(5) by (cases "pa_content params") (simp_all add: createBoardWidgetContentFields_def Let_def)
  moreover have "wr_name ?row = bw_name w \<and> wr_tab_id ?row = bw_tabId w \<and> wr_title ?row = bw_title w \<and> wr_size_w ?row = bw_sizeW w \<and>
      wr_size_h ?row = bw_sizeH w \<and> wr_position ?row = bw_position w \<and> wr_revision ?row = bw_revision w"
    using assms(6-11) by (cases "pa_content params") (simp_all add: createBoardWidgetContentFields_def Let_def)
  moreover have "wr_content_kind ?row = kindText (contentKind (pa_content params)) \<and> wr_html ?row = (case pa_content params of PutHtml h \<Rightarrow> Some h | _ \<Rightarrow> None) \<and>
      wr_descriptor ?row = descriptorOf (pa_content params) \<and> wr_sha256 ?row = sha256 (digestedText (pa_content params)) \<and>
      wr_view_generation ?row = (case pa_content params of PutHtml _ \<Rightarrow> Some gen | _ \<Rightarrow> None)"
    by (cases "pa_content params") (simp_all add: createBoardWidgetContentFields_def Let_def)
  ultimately show ?thesis
    using assms(2-4,12-18) request_identity [OF assms(1)] assms(1) unfolding rowHolds_def requestOk_def by simp
qed

section \<open>Witness\<close>

theorem manifest_round_trip_witness:
  "parseManifest demoParse (serializeManifest HtmlOwner None (demoDeclared [''a'', ''b'']) Granted None (Some Card) None (Some ExplicitName)) =
   Inr (manifestOf HtmlOwner None (demoDeclared [''a'', ''b'']) Granted None (Some Card) None (Some ExplicitName))"
proof (rule manifest_round_trip)
  show "normalizeBoardWidgetDeclared demoParse (demoDeclared [''a'', ''b'']) = Inr (demoDeclared [''a'', ''b''])" by code_simp
qed (simp_all add: ownershipOk_def frameOk_def identityOk_def)

end
