(* ===== verification/BoardStore.thy ===== *)
theory BoardStore
  imports BoardCodec
begin

text \<open>
  The store of boards (\<open>src/boards/sqlite-board-store.ts\<close>): what every operation reads and writes in the two tables. Every statement is
  about one session, so a table is the rows of that session, in no particular order; tables not created yet have no rows. A transaction that
  fails leaves the rows as they were. The constraints of the schema hold of the rows the operations write; only its cascade changes rows, and
  it is modelled. A widget or row the code takes to be there (\<open>find(...)!\<close>) is a not-found error here where it is not. Text is well-formed
  Unicode, so html comes back from its bytes. Sessions and their agents are resolved by the caller; whether the session exists, the time,
  the random bytes, the URL parser and the digest are arguments.
\<close>

section \<open>Reading a board\<close>

record stored_rows =
  sr_tabs :: "tab_row list"
  sr_widgets :: "widget_row list"

text \<open>What a reader needs of a widget to serve its frame, without the document.\<close>

record html_view_metadata =
  hv_revision :: int
  hv_sha256 :: string
  hv_viewGeneration :: string
  hv_grantState :: grant_state
  hv_declared :: "widget_declared option"

definition rowToHtmlViewMetadata :: "widget_row \<Rightarrow> parsed_manifest \<Rightarrow> html_view_metadata option" where
  "rowToHtmlViewMetadata row m =
     (case (if wr_content_kind row = ''html'' then wr_view_generation row else pm_registeredInstanceId m) of
        None \<Rightarrow> None
      | Some generation \<Rightarrow> Some \<lparr>hv_revision = wr_revision row, hv_sha256 = wr_sha256 row, hv_viewGeneration = generation,
          hv_grantState = effectiveGrantState (wr_grant_state row) m, hv_declared = pm_declared m\<rparr>)"

record stored_board =
  sb_snapshot :: board_snapshot
  sb_tabRows :: "tab_row list"
  sb_widgetRows :: "widget_row list"
  sb_htmlViewMetadata :: "string \<rightharpoonup> html_view_metadata"

text \<open>The order of TEXT columns.\<close>

definition compareText :: "string \<Rightarrow> string \<Rightarrow> int" where
  "compareText a b = compareBytes (utf8Bytes a) (utf8Bytes b)"

definition orderTabs :: "tab_row \<Rightarrow> tab_row \<Rightarrow> int" where
  "orderTabs a b = cmp_then (tr_position a - tr_position b) (compareText (tr_tab_id a) (tr_tab_id b))"

definition orderWidgets :: "widget_row \<Rightarrow> widget_row \<Rightarrow> int" where
  "orderWidgets a b = cmp_then (compareText (wr_tab_id a) (wr_tab_id b))
     (cmp_then (wr_position a - wr_position b) (compareText (wr_name a) (wr_name b)))"

definition admittedRow :: "widget_row \<times> parsed_manifest \<Rightarrow> bool" where
  "admittedRow p \<longleftrightarrow> wr_content_kind (fst p) \<noteq> ''mcp-app'' \<or> (pm_mcpAppInteractive (snd p) \<noteq> None \<and> pm_mcpAppInstanceId (snd p) \<noteq> None)"

definition readStoredBoard :: "url_parser \<Rightarrow> string \<Rightarrow> stored_rows \<Rightarrow> board_error + stored_board" where
  "readStoredBoard parse sessionKey rows =
     (let tabRows = sort_by orderTabs (sr_tabs rows) in
      case mapOrFail (\<lambda>row. map_sum id (\<lambda>m. (row, m)) (parseManifest parse (wr_manifest row))) (sort_by orderWidgets (sr_widgets rows)) of
        Inl e \<Rightarrow> Inl e
      | Inr parsed \<Rightarrow>
          let admittedRows = filter admittedRow parsed in
          (case mapOrFail (\<lambda>p. rowToWidget (fst p) (snd p)) admittedRows of
             Inl e \<Rightarrow> Inl e
           | Inr widgets \<Rightarrow>
               Inr \<lparr>sb_snapshot = \<lparr>bs_sessionKey = sessionKey, bs_revision = foldl (\<lambda>r row. max r (tr_revision row)) 0 tabRows,
                      bs_layout = normalizeBoardLayout \<lparr>bl_tabs = map rowToTab tabRows, bl_widgets = widgets\<rparr>\<rparr>,
                    sb_tabRows = tabRows, sb_widgetRows = map fst admittedRows,
                    sb_htmlViewMetadata = map_of (rev (List.map_filter (\<lambda>(row, m). map_option (Pair (wr_name row)) (rowToHtmlViewMetadata row m))
                      admittedRows))\<rparr>))"

definition emptyBoardSnapshot :: "string \<Rightarrow> board_snapshot" where
  "emptyBoardSnapshot sessionKey = \<lparr>bs_sessionKey = sessionKey, bs_revision = 0, bs_layout = \<lparr>bl_tabs = [], bl_widgets = []\<rparr>\<rparr>"

definition getSnapshot :: "url_parser \<Rightarrow> string \<Rightarrow> bool \<Rightarrow> stored_rows \<Rightarrow> board_error + board_snapshot" where
  "getSnapshot parse sessionKey hasSession rows =
     (if hasSession then map_sum id sb_snapshot (readStoredBoard parse sessionKey rows) else Inr (emptyBoardSnapshot sessionKey))"

definition getSnapshotWithHtmlViewMetadata :: "url_parser \<Rightarrow> string \<Rightarrow> bool \<Rightarrow> stored_rows \<Rightarrow>
    board_error + (board_snapshot \<times> (string \<rightharpoonup> html_view_metadata))" where
  "getSnapshotWithHtmlViewMetadata parse sessionKey hasSession rows =
     (if hasSession then map_sum id (\<lambda>b. (sb_snapshot b, sb_htmlViewMetadata b)) (readStoredBoard parse sessionKey rows)
      else Inr (emptyBoardSnapshot sessionKey, Map.empty))"

section \<open>Statements\<close>

definition upsertTab :: "stored_board \<Rightarrow> int \<Rightarrow> tab_row list \<Rightarrow> board_tab \<Rightarrow> tab_row list" where
  "upsertTab previous revision rows tab =
     (if \<exists>r \<in> set rows. tr_tab_id r = bt_tabId tab
      then updateWhere (\<lambda>r. tr_tab_id r = bt_tabId tab)
        (\<lambda>r. r\<lparr>tr_title := bt_title tab, tr_position := bt_position tab, tr_chat_dock := bt_chatDock tab, tr_revision := revision\<rparr>) rows
      else rows @ [\<lparr>tr_tab_id = bt_tabId tab, tr_title = bt_title tab, tr_position = bt_position tab, tr_chat_dock = bt_chatDock tab,
        tr_created_by = (case map_of (rev (map (\<lambda>r. (tr_tab_id r, tr_created_by r)) (sb_tabRows previous))) (bt_tabId tab) of
          Some by \<Rightarrow> by | None \<Rightarrow> ''agent''), tr_revision = revision\<rparr>])"

definition upsertTabs :: "stored_board \<Rightarrow> board_snapshot \<Rightarrow> stored_rows \<Rightarrow> stored_rows" where
  "upsertTabs previous snapshot rows =
     rows\<lparr>sr_tabs := foldl (upsertTab previous (bs_revision snapshot)) (sr_tabs rows) (bl_tabs (bs_layout snapshot))\<rparr>"

definition placeRow :: "int \<Rightarrow> board_widget \<Rightarrow> widget_row \<Rightarrow> widget_row" where
  "placeRow now w r = r\<lparr>wr_tab_id := bw_tabId w, wr_title := bw_title w, wr_size_w := bw_sizeW w, wr_size_h := bw_sizeH w,
     wr_position := bw_position w, wr_updated_at := now\<rparr>"

definition updateWidgetLayouts :: "board_snapshot \<Rightarrow> int \<Rightarrow> stored_rows \<Rightarrow> stored_rows" where
  "updateWidgetLayouts snapshot now rows =
     rows\<lparr>sr_widgets := foldl (\<lambda>rs w. updateWhere (\<lambda>r. wr_name r = bw_name w) (placeRow now w) rs) (sr_widgets rows) (bl_widgets (bs_layout snapshot))\<rparr>"

definition updateWidgetHeightMode :: "stored_board \<Rightarrow> widget_row list \<Rightarrow> board_op \<Rightarrow> widget_row list" where
  "updateWidgetHeightMode previous rows op =
     (case op of
        WidgetResize name _ _ heightMode \<Rightarrow>
          (case find (\<lambda>r. wr_name r = name) (sb_widgetRows previous) of
             None \<Rightarrow> rows
           | Some row \<Rightarrow>
               updateWhere (\<lambda>r. wr_name r = name)
                 (\<lambda>r. r\<lparr>wr_manifest := updateManifestHeightMode (wr_manifest row) (case heightMode of Some h \<Rightarrow> h | None \<Rightarrow> FixedHeight)\<rparr>) rows)
      | _ \<Rightarrow> rows)"

definition updateWidgetHeightModes :: "stored_board \<Rightarrow> board_op list \<Rightarrow> stored_rows \<Rightarrow> stored_rows" where
  "updateWidgetHeightModes previous ops rows = rows\<lparr>sr_widgets := foldl (updateWidgetHeightMode previous) (sr_widgets rows) ops\<rparr>"

definition deleteRemovedWidgets :: "stored_board \<Rightarrow> board_snapshot \<Rightarrow> stored_rows \<Rightarrow> stored_rows" where
  "deleteRemovedWidgets previous snapshot rows =
     rows\<lparr>sr_widgets := foldl (\<lambda>rs row. if wr_name row \<in> bw_name ` set (bl_widgets (bs_layout snapshot)) then rs
         else filter (\<lambda>r. wr_name r \<noteq> wr_name row) rs)
       (sr_widgets rows) (sb_widgetRows previous)\<rparr>"

text \<open>Deleting a tab deletes the widgets that still refer to it (\<open>ON DELETE CASCADE\<close>).\<close>

definition deleteTabRow :: "string \<Rightarrow> stored_rows \<Rightarrow> stored_rows" where
  "deleteTabRow tabId rows =
     rows\<lparr>sr_tabs := filter (\<lambda>r. tr_tab_id r \<noteq> tabId) (sr_tabs rows), sr_widgets := filter (\<lambda>r. wr_tab_id r \<noteq> tabId) (sr_widgets rows)\<rparr>"

definition deleteRemovedTabs :: "stored_board \<Rightarrow> board_snapshot \<Rightarrow> stored_rows \<Rightarrow> stored_rows" where
  "deleteRemovedTabs previous snapshot rows =
     foldl (\<lambda>rows row. if tr_tab_id row \<in> bt_tabId ` set (bl_tabs (bs_layout snapshot)) then rows else deleteTabRow (tr_tab_id row) rows)
       rows (sb_tabRows previous)"

section \<open>Operations\<close>

definition storeApplyOps :: "url_parser \<Rightarrow> string \<Rightarrow> bool \<Rightarrow> int \<Rightarrow> board_op list \<Rightarrow> stored_rows \<Rightarrow> board_error + (stored_rows \<times> board_snapshot)" where
  "storeApplyOps parse sessionKey hasSession now ops rows =
     (if ops = [] then map_sum id (Pair rows) (getSnapshot parse sessionKey hasSession rows)
      else if \<not> hasSession then Inl BoardNotFound
      else
        (case readStoredBoard parse sessionKey rows of
           Inl e \<Rightarrow> Inl e
         | Inr previous \<Rightarrow>
             (case applyBoardOps (bs_layout (sb_snapshot previous)) ops of
                Inl e \<Rightarrow> Inl e
              | Inr layout \<Rightarrow>
                  let snapshot = \<lparr>bs_sessionKey = sessionKey, bs_revision = bs_revision (sb_snapshot previous) + 1, bs_layout = layout\<rparr>;
                      rows1 = upsertTabs previous snapshot rows;
                      rows2 = deleteRemovedWidgets previous snapshot rows1;
                      rows3 = updateWidgetLayouts snapshot now rows2;
                      rows4 = updateWidgetHeightModes previous ops rows3
                  in Inr (deleteRemovedTabs previous snapshot rows4, snapshot))))"

definition resolveSqliteBoardWidgetPutParams :: "url_parser \<Rightarrow> board_snapshot \<Rightarrow> put_params \<Rightarrow> widget_row list \<Rightarrow> board_error + put_params" where
  "resolveSqliteBoardWidgetPutParams parse snapshot params rows =
     (case mapOrFail (\<lambda>row. map_sum id (\<lambda>m. (wr_name row,
         keepOld (pm_nameIdentity m) (if pm_nameIdentityInvalid m then Some InvalidName else None))) (parseManifest parse (wr_manifest row))) rows of
        Inl e \<Rightarrow> Inl e
      | Inr identities \<Rightarrow>
          resolveBoardWidgetPutParams snapshot params
            (map_of (rev (List.map_filter (\<lambda>(name, i). map_option (Pair name) i) identities))))"

text \<open>Whether the content put stays in the scope of the grant; a row without a valid plugin descriptor is an error.\<close>

definition grantScopeMatches :: "put_content \<Rightarrow> widget_row option \<Rightarrow> board_error + bool" where
  "grantScopeMatches content existing =
     (case existing of
        None \<Rightarrow> Inr True
      | Some row \<Rightarrow>
          if wr_content_kind row = ''html'' then Inr (case content of PutHtml _ \<Rightarrow> True | _ \<Rightarrow> False)
          else if wr_content_kind row = ''mcp-app'' then
            Inr (case (wr_descriptor row, content) of
              (Some (McpDescriptor d), PutMcpApp d' _) \<Rightarrow> md_serverName d = md_serverName d'
            | _ \<Rightarrow> False)
          else
            (case (wr_descriptor row, contentPluginKind content) of
               (Some d, Some kind) \<Rightarrow> map_sum id (\<lambda>p. kindOf p = Some kind) (parsePluginContent d)
             | _ \<Rightarrow> Inr False))"

definition putRow :: "(string \<Rightarrow> string) \<Rightarrow> put_params \<Rightarrow> board_widget \<Rightarrow> string \<Rightarrow> int \<Rightarrow> widget_row option \<Rightarrow> widget_row list \<Rightarrow> widget_row list" where
  "putRow sha256 params widget viewGeneration now existing rows =
     (let fields = createBoardWidgetContentFields sha256 params (bw_presentation widget) (bw_heightMode widget) (bw_revision widget)
            (bw_grantState widget) viewGeneration now;
          place = (\<lambda>r. r\<lparr>wr_tab_id := bw_tabId widget, wr_title := bw_title widget, wr_size_w := bw_sizeW widget, wr_size_h := bw_sizeH widget,
            wr_position := bw_position widget\<rparr>)
      in if \<exists>r \<in> set rows. wr_name r = pa_name params
         then updateWhere (\<lambda>r. wr_name r = pa_name params) (\<lambda>r. fields (place r)) rows
         else rows @ [fields (place \<lparr>wr_name = pa_name params, wr_tab_id = [], wr_title = None, wr_content_kind = [], wr_html = None,
           wr_descriptor = None, wr_sha256 = [], wr_view_generation = None, wr_revision = 0, wr_size_w = 0, wr_size_h = 0, wr_position = 0,
           wr_manifest = [], wr_grant_state = [], wr_granted_sha = None,
           wr_created_by = (case existing of Some r \<Rightarrow> wr_created_by r | None \<Rightarrow> ''agent''),
           wr_created_at = (case existing of Some r \<Rightarrow> wr_created_at r | None \<Rightarrow> now), wr_updated_at = 0\<rparr>)])"

definition storePutWidget :: "url_parser \<Rightarrow> (string \<Rightarrow> string) \<Rightarrow> string \<Rightarrow> bool \<Rightarrow> int \<Rightarrow> string \<Rightarrow> put_params \<Rightarrow> stored_rows \<Rightarrow>
    board_error + (stored_rows \<times> board_snapshot \<times> string)" where
  "storePutWidget parse sha256 sessionKey hasSession now viewGeneration params rows =
     (if \<not> hasSession then Inl BoardNotFound
      else
        (case normalizeBoardWidgetPutParams parse params sessionKey of
           Inl e \<Rightarrow> Inl e
         | Inr canonicalInput \<Rightarrow>
        (case readStoredBoard parse sessionKey rows of
           Inl e \<Rightarrow> Inl e
         | Inr previous \<Rightarrow>
        (case resolveSqliteBoardWidgetPutParams parse (sb_snapshot previous) canonicalInput (sb_widgetRows previous) of
           Inl e \<Rightarrow> Inl e
         | Inr canonicalParams \<Rightarrow>
             let existing = find (\<lambda>r. wr_name r = pa_name canonicalParams) (sb_widgetRows previous) in
        (case grantScopeMatches (pa_content canonicalParams) existing of
           Inl e \<Rightarrow> Inl e
         | Inr scope \<Rightarrow>
        (case createBoardWidgetPutSnapshot parse sha256 (sb_snapshot previous) canonicalParams
            \<lparr>pc_grantScopeMatches = scope, pc_grantedSha256 = Option.bind existing wr_granted_sha, pc_instanceId = viewGeneration\<rparr> of
           Inl e \<Rightarrow> Inl e
         | Inr snapshot \<Rightarrow>
             (case find (\<lambda>w. bw_name w = pa_name canonicalParams) (bl_widgets (bs_layout snapshot)) of
                None \<Rightarrow> Inl BoardNotFound
              | Some widget \<Rightarrow>
                  let rows1 = upsertTabs previous snapshot rows;
                      rows2 = rows1\<lparr>sr_widgets := putRow sha256 canonicalParams widget viewGeneration now existing (sr_widgets rows1)\<rparr>
                  in Inr (updateWidgetLayouts snapshot now rows2, snapshot, pa_name canonicalParams))))))))"

definition grantRow :: "grant_state \<Rightarrow> content_owner \<Rightarrow> string option \<Rightarrow> parsed_manifest \<Rightarrow> int \<Rightarrow> widget_row \<Rightarrow> widget_row \<Rightarrow> widget_row" where
  "grantRow decision owner registeredContentKind m now row r =
     r\<lparr>wr_grant_state := grantText decision, wr_granted_sha := (if decision = Granted then Some (wr_sha256 row) else None),
       wr_manifest := serializeManifest owner registeredContentKind (pm_declared m) decision
         (case (pm_mcpAppInteractive m, pm_mcpAppInstanceId m) of
            (Some interactive, Some i) \<Rightarrow> Some (McpAppFrame interactive i)
          | _ \<Rightarrow> map_option RegisteredFrame (pm_registeredInstanceId m))
         (pm_presentation m) (pm_heightMode m) (pm_nameIdentity m),
       wr_updated_at := now\<rparr>"

definition storeGrant :: "url_parser \<Rightarrow> string \<Rightarrow> bool \<Rightarrow> int \<Rightarrow> string \<Rightarrow> grant_state \<Rightarrow> int \<Rightarrow> string option \<Rightarrow> stored_rows \<Rightarrow>
    board_error + (stored_rows \<times> board_snapshot)" where
  "storeGrant parse sessionKey hasSession now name decision revision instanceId rows =
     (if \<not> hasSession then Inl BoardNotFound
      else
        (case readStoredBoard parse sessionKey rows of
           Inl e \<Rightarrow> Inl e
         | Inr previous \<Rightarrow>
        (case createBoardGrantSnapshot (sb_snapshot previous) name decision revision instanceId of
           Inl e \<Rightarrow> Inl e
         | Inr snapshot \<Rightarrow>
             (case (find (\<lambda>w. bw_name w = name) (bl_widgets (bs_layout snapshot)), find (\<lambda>r. wr_name r = name) (sb_widgetRows previous)) of
                (Some widget, Some row) \<Rightarrow>
                  (case bw_contentOwner widget of
                     None \<Rightarrow> Inl BoardInvalidOperation
                   | Some owner \<Rightarrow>
                  (case parseManifest parse (wr_manifest row) of
                     Inl e \<Rightarrow> Inl e
                   | Inr m \<Rightarrow>
                       let rows1 = upsertTabs previous snapshot rows in
                       Inr (rows1\<lparr>sr_widgets := updateWhere (\<lambda>r. wr_name r = name) (grantRow decision owner (bw_registeredContentKind widget) m now row) (sr_widgets rows1)\<rparr>,
                            snapshot)))
              | _ \<Rightarrow> Inl BoardNotFound))))"

section \<open>Reading documents\<close>

record html_document =
  hd_html :: string
  hd_revision :: int
  hd_sha256 :: string
  hd_viewGeneration :: string
  hd_grantState :: grant_state
  hd_declared :: "widget_declared option"

definition rowToHtmlDocument :: "url_parser \<Rightarrow> widget_row \<Rightarrow> board_error + html_document option" where
  "rowToHtmlDocument parse row =
     (case (wr_content_kind row = ''html'', wr_html row, wr_view_generation row) of
        (True, Some html, Some generation) \<Rightarrow>
          map_sum id (\<lambda>m. Some \<lparr>hd_html = html, hd_revision = wr_revision row, hd_sha256 = wr_sha256 row, hd_viewGeneration = generation,
            hd_grantState = effectiveGrantState (wr_grant_state row) m, hd_declared = pm_declared m\<rparr>) (parseManifest parse (wr_manifest row))
      | _ \<Rightarrow> Inr None)"

definition readWidgetRow :: "bool \<Rightarrow> string \<Rightarrow> stored_rows \<Rightarrow> widget_row option" where
  "readWidgetRow hasSession name rows = (if hasSession then find (\<lambda>r. wr_name r = name) (sr_widgets rows) else None)"

definition readWidgetHtml :: "url_parser \<Rightarrow> bool \<Rightarrow> string \<Rightarrow> stored_rows \<Rightarrow> board_error + html_document option" where
  "readWidgetHtml parse hasSession name rows =
     (case readWidgetRow hasSession name rows of None \<Rightarrow> Inr None | Some row \<Rightarrow> rowToHtmlDocument parse row)"

record registered_document =
  rd_pluginKind :: string
  rd_source :: string
  rd_title :: "string option"
  rd_revision :: int
  rd_sha256 :: string
  rd_viewGeneration :: string
  rd_grantState :: grant_state
  rd_declared :: "widget_declared option"

definition rowToRegisteredDocument :: "url_parser \<Rightarrow> widget_row \<Rightarrow> board_error + registered_document option" where
  "rowToRegisteredDocument parse row =
     (if wr_content_kind row \<noteq> ''plugin'' then Inr None
      else
        (case wr_descriptor row of
           None \<Rightarrow> Inr None
         | Some d \<Rightarrow>
             (case parsePluginContent d of
                Inl e \<Rightarrow> Inl e
              | Inr content \<Rightarrow>
                  (case parseManifest parse (wr_manifest row) of
                     Inl e \<Rightarrow> Inl e
                   | Inr m \<Rightarrow>
                       (case (content, pm_registeredInstanceId m) of
                          (RegisteredDescriptor kind source, Some i) \<Rightarrow>
                            Inr (Some \<lparr>rd_pluginKind = kind, rd_source = source, rd_title = wr_title row, rd_revision = wr_revision row,
                              rd_sha256 = wr_sha256 row, rd_viewGeneration = i, rd_grantState = effectiveGrantState (wr_grant_state row) m,
                              rd_declared = pm_declared m\<rparr>)
                        | _ \<Rightarrow> Inr None)))))"

definition readWidgetRegistered :: "url_parser \<Rightarrow> bool \<Rightarrow> string \<Rightarrow> stored_rows \<Rightarrow> board_error + registered_document option" where
  "readWidgetRegistered parse hasSession name rows =
     (case readWidgetRow hasSession name rows of None \<Rightarrow> Inr None | Some row \<Rightarrow> rowToRegisteredDocument parse row)"

record mcp_document =
  mc_descriptor :: mcp_descriptor
  mc_revision :: int
  mc_instanceId :: string
  mc_grantState :: grant_state
  mc_declaredTools :: "string list"
  mc_interactive :: bool

definition readWidgetMcpApp :: "url_parser \<Rightarrow> bool \<Rightarrow> string \<Rightarrow> stored_rows \<Rightarrow> board_error + mcp_document option" where
  "readWidgetMcpApp parse hasSession name rows =
     (case readWidgetRow hasSession name rows of
        None \<Rightarrow> Inr None
      | Some row \<Rightarrow>
          (case (wr_content_kind row = ''mcp-app'', wr_descriptor row) of
             (True, Some (McpDescriptor d)) \<Rightarrow>
               map_sum id (\<lambda>m. case (pm_mcpAppInteractive m, pm_mcpAppInstanceId m) of
                   (Some interactive, Some i) \<Rightarrow>
                     Some \<lparr>mc_descriptor = d, mc_revision = wr_revision row, mc_instanceId = i, mc_grantState = effectiveGrantState (wr_grant_state row) m,
                       mc_declaredTools = toolsOf (pm_declared m), mc_interactive = interactive\<rparr>
                 | _ \<Rightarrow> None) (parseManifest parse (wr_manifest row))
           | _ \<Rightarrow> Inr None))"

end
