(* ===== verification/BoardRows.thy ===== *)
theory BoardRows
  imports BoardStore
begin

text \<open>
  Rows and the boards they hold: the normal form of a board is the only one with its tabs and widgets, so rows in any order that hold a
  board read back as that board; what a put makes of a board in normal form; and what the statements of an operation leave in the tables.
\<close>

section \<open>The normal form of a board is unique\<close>

text \<open>The widgets stand tab by tab, each tab's in order.\<close>

definition grid_sorted :: "board_layout \<Rightarrow> bool" where
  "grid_sorted layout \<longleftrightarrow> sorted_wrt (\<lambda>a b. compareByTab (bl_tabs layout) a b < 0) (bl_widgets layout)"

lemma counting_strict:
  assumes "map g xs = map int [0..<n]"
  shows "sorted_wrt (\<lambda>x y. g x < g y) xs"
proof -
  have "sorted_wrt (\<lambda>i j. int i < int j) [0..<n]" by (rule sorted_wrt_mono_rel [OF _ sorted_wrt_upt]) simp
  then have "sorted_wrt (<) (map g xs)" by (simp add: assms sorted_wrt_map)
  then show ?thesis by (simp add: sorted_wrt_map)
qed

lemma normal_tabs_strict: "board_normal layout \<Longrightarrow> sorted_wrt (\<lambda>a b. compareTab a b < 0) (bl_tabs layout)"
  using counting_strict [of bt_position "bl_tabs layout"] by (simp add: board_normal_def compareTab_def)

lemma tabPosition_of:
  assumes "distinct (map bt_tabId ts)" "t \<in> set ts"
  shows "tabPosition ts (bt_tabId t) = bt_position t"
proof -
  have "distinct (map fst (rev (map (\<lambda>t. (bt_tabId t, bt_position t)) ts)))" using assms(1) by (simp add: rev_map [symmetric] comp_def)
  then have "map_of (rev (map (\<lambda>t. (bt_tabId t, bt_position t)) ts)) (bt_tabId t) = Some (bt_position t)"
    using assms(2) by (intro map_of_is_SomeI) auto
  then show ?thesis by (simp add: tabPosition_def)
qed

lemma tabPosition_inj:
  assumes "board_ok layout" "board_normal layout" "s \<in> bt_tabId ` set (bl_tabs layout)" "t \<in> bt_tabId ` set (bl_tabs layout)"
    "tabPosition (bl_tabs layout) s = tabPosition (bl_tabs layout) t"
  shows "s = t"
proof -
  have d: "distinct (map bt_tabId (bl_tabs layout))" using assms(1) unfolding board_ok_def by blast
  obtain a b where a: "a \<in> set (bl_tabs layout)" "s = bt_tabId a" and b: "b \<in> set (bl_tabs layout)" "t = bt_tabId b" using assms(3,4) by auto
  have "bt_position a = bt_position b" using assms(5) tabPosition_of [OF d] a b by simp
  moreover have "distinct (map bt_position (bl_tabs layout))" using assms(2) by (simp add: board_normal_def distinct_map inj_on_def)
  then have "inj_on bt_position (set (bl_tabs layout))" unfolding distinct_map by (rule conjunct2)
  ultimately have "a = b" using inj_onD a(1) b(1) by metis
  with a b show ?thesis by simp
qed

lemma assign_increasing:
  "sorted_wrt (\<lambda>a b. bw_tabId a = bw_tabId b \<longrightarrow> bw_position a < bw_position b) (assignPositions c ws) \<and>
   (\<forall>w \<in> set (assignPositions c ws). c (bw_tabId w) \<le> bw_position w)"
proof (induction ws arbitrary: c)
  case (Cons w ws)
  have IH: "\<forall>x \<in> set (assignPositions (c(bw_tabId w := c (bw_tabId w) + 1)) ws).
      c (bw_tabId x) \<le> bw_position x \<and> (bw_tabId x = bw_tabId w \<longrightarrow> c (bw_tabId w) < bw_position x)"
    using Cons.IH [of "c(bw_tabId w := c (bw_tabId w) + 1)"] by (fastforce split: if_splits)
  moreover have "sorted_wrt (\<lambda>a b. bw_tabId a = bw_tabId b \<longrightarrow> bw_position a < bw_position b) (assignPositions (c(bw_tabId w := c (bw_tabId w) + 1)) ws)"
    using Cons.IH by blast
  ultimately show ?case by (simp add: eq_commute [of "bw_tabId w"])
qed simp

lemma compareByTab_neg:
  "compareByTab ts a b < 0 \<longleftrightarrow> tabPosition ts (bw_tabId a) < tabPosition ts (bw_tabId b) \<or>
     tabPosition ts (bw_tabId a) = tabPosition ts (bw_tabId b) \<and> bw_position a < bw_position b"
  by (auto simp: compareByTab_def cmp_then_def compareWidget_def)

lemma normalize_sorted:
  assumes "board_ok layout"
  shows "grid_sorted (normalizeBoardLayout layout)"
proof -
  let ?n = "normalizeBoardLayout layout" and ?T = "bl_tabs (normalizeBoardLayout layout)"
  let ?s = "sort_by (compareByTab ?T) (bl_widgets layout)"
  have n: "bl_widgets ?n = assignPositions (\<lambda>_. 0) ?s" by (simp add: normalizeBoardLayout_def Let_def)
  have ok: "board_ok ?n" "board_normal ?n" using assms normalize_ok normalize_normal by blast+
  have "sorted_wrt (\<lambda>a b. compareByTab ?T a b \<le> 0) ?s" by (rule grid_order.sorted_sort_by)
  then have "sorted_wrt (\<lambda>a b. tabPosition ?T (bw_tabId a) \<le> tabPosition ?T (bw_tabId b)) ?s"
    by (rule sorted_wrt_mono_rel [rotated]) (auto simp: compareByTab_def cmp_then_def split: if_splits)
  then have "sorted_wrt (\<lambda>s t. tabPosition ?T s \<le> tabPosition ?T t) (map bw_tabId ?s)" by (simp add: sorted_wrt_map)
  moreover have "map bw_tabId (bl_widgets ?n) = map bw_tabId ?s" unfolding n by (rule assignPositions_keeps) simp
  ultimately have "sorted_wrt (\<lambda>s t. tabPosition ?T s \<le> tabPosition ?T t) (map bw_tabId (bl_widgets ?n))" by (simp only:)
  then have tabs: "sorted_wrt (\<lambda>a b. tabPosition ?T (bw_tabId a) \<le> tabPosition ?T (bw_tabId b)) (bl_widgets ?n)" by (simp add: sorted_wrt_map)
  have pos: "sorted_wrt (\<lambda>a b. bw_tabId a = bw_tabId b \<longrightarrow> bw_position a < bw_position b) (bl_widgets ?n)"
    unfolding n using assign_increasing by blast
  show ?thesis unfolding grid_sorted_def sorted_wrt_iff_nth_less
  proof (intro allI impI)
    fix i j assume ij: "i < j" "j < length (bl_widgets ?n)"
    let ?a = "bl_widgets ?n ! i" and ?b = "bl_widgets ?n ! j"
    have le: "tabPosition ?T (bw_tabId ?a) \<le> tabPosition ?T (bw_tabId ?b)" using tabs ij unfolding sorted_wrt_iff_nth_less by blast
    have inc: "bw_tabId ?a = bw_tabId ?b \<longrightarrow> bw_position ?a < bw_position ?b" using pos ij unfolding sorted_wrt_iff_nth_less by blast
    have "?a \<in> set (bl_widgets ?n)" "?b \<in> set (bl_widgets ?n)" using ij by simp_all
    then have "bw_tabId ?a \<in> bt_tabId ` set ?T" "bw_tabId ?b \<in> bt_tabId ` set ?T" using ok(1) unfolding board_ok_def by blast+
    from tabPosition_inj [OF ok this] le inc show "compareByTab ?T ?a ?b < 0" unfolding compareByTab_neg by linarith
  qed
qed

lemma renumberTabs_same: "map bt_position ts = map int [0..<length ts] \<Longrightarrow> renumberTabs ts = ts"
proof (rule nth_equalityI)
  fix i assume p: "map bt_position ts = map int [0..<length ts]" and i: "i < length (renumberTabs ts)"
  from i have "i < length ts" by simp
  with arg_cong [OF p, of "\<lambda>xs. xs ! i"] have "bt_position (ts ! i) = int i" by simp
  with \<open>i < length ts\<close> show "renumberTabs ts ! i = ts ! i" by (simp add: renumberTabs_def nth_enumerate_eq)
qed simp

lemma assign_same:
  "(\<And>t. map bw_position (filter (\<lambda>w. bw_tabId w = t) ws) = map (\<lambda>i. c t + int i) [0..<length (filter (\<lambda>w. bw_tabId w = t) ws)]) \<Longrightarrow>
   assignPositions c ws = ws"
proof (induction ws arbitrary: c)
  case (Cons w ws)
  have p: "bw_position w = c (bw_tabId w)"
    using Cons.prems [of "bw_tabId w"] by (simp add: upt_conv_Cons del: upt_Suc)
  have rest: "map bw_position (filter (\<lambda>v. bw_tabId v = t) ws) =
      map (\<lambda>i. (c(bw_tabId w := c (bw_tabId w) + 1)) t + int i) [0..<length (filter (\<lambda>v. bw_tabId v = t) ws)]" for t
  proof (cases "t = bw_tabId w")
    case True
    have "map (\<lambda>i. c t + int i) [1..<Suc (length (filter (\<lambda>v. bw_tabId v = t) ws))] =
        map (\<lambda>i. c t + 1 + int i) [0..<length (filter (\<lambda>v. bw_tabId v = t) ws)]"
      by (simp add: map_Suc_upt [symmetric] comp_def add.assoc del: upt_Suc)
    then show ?thesis using Cons.prems [of t] True by (simp add: upt_conv_Cons del: upt_Suc)
  next
    case False
    then show ?thesis using Cons.prems [of t] by simp
  qed
  have "assignPositions (c(bw_tabId w := c (bw_tabId w) + 1)) ws = ws" by (rule Cons.IH) (rule rest)
  moreover have "w\<lparr>bw_position := c (bw_tabId w)\<rparr> = w" unfolding p [symmetric] by simp
  ultimately show ?case unfolding assignPositions.simps by (simp only:)
qed simp

lemma normal_unique:
  assumes "board_normal layout" "grid_sorted layout" "mset ts = mset (bl_tabs layout)" "mset ws = mset (bl_widgets layout)"
  shows "normalizeBoardLayout \<lparr>bl_tabs = ts, bl_widgets = ws\<rparr> = layout"
proof -
  have "sort_by compareTab ts = bl_tabs layout" by (rule tab_order.sort_by_unique [OF normal_tabs_strict [OF assms(1)] assms(3)])
  moreover have "renumberTabs (bl_tabs layout) = bl_tabs layout" by (rule renumberTabs_same) (use assms(1) in \<open>simp add: board_normal_def\<close>)
  moreover have "sort_by (compareByTab (bl_tabs layout)) ws = bl_widgets layout"
    by (rule grid_order.sort_by_unique [OF assms(2) [unfolded grid_sorted_def] assms(4)])
  moreover have "assignPositions (\<lambda>_. 0) (bl_widgets layout) = bl_widgets layout"
    by (rule assign_same) (use assms(1) in \<open>simp add: board_normal_def Let_def\<close>)
  ultimately show ?thesis by (simp add: normalizeBoardLayout_def Let_def)
qed

lemma settled: "board_normal layout \<Longrightarrow> grid_sorted layout \<Longrightarrow> normalizeBoardLayout layout = layout"
  using normal_unique [of layout "bl_tabs layout" "bl_widgets layout"] by (cases layout) simp

lemma grid_sorted_same:
  assumes "bl_tabs l = bl_tabs k" "map (\<lambda>w. (bw_tabId w, bw_position w)) (bl_widgets l) = map (\<lambda>w. (bw_tabId w, bw_position w)) (bl_widgets k)"
  shows "grid_sorted l = grid_sorted k"
proof -
  have key: "sorted_wrt (\<lambda>a b. compareByTab ts a b < 0) ws \<longleftrightarrow>
      sorted_wrt (\<lambda>p q. tabPosition ts (fst p) < tabPosition ts (fst q) \<or> tabPosition ts (fst p) = tabPosition ts (fst q) \<and> snd p < snd q)
        (map (\<lambda>w. (bw_tabId w, bw_position w)) ws)" for ts ws
    by (simp add: sorted_wrt_map compareByTab_neg)
  show ?thesis unfolding grid_sorted_def key assms ..
qed


lemma board_ok_same:
  assumes "bl_tabs l = bl_tabs k" "map bw_name (bl_widgets l) = map bw_name (bl_widgets k)" "map bw_tabId (bl_widgets l) = map bw_tabId (bl_widgets k)"
  shows "board_ok l = board_ok k"
proof -
  have orphans: "(\<forall>w \<in> set ws. bw_tabId w \<in> T) \<longleftrightarrow> set (map bw_tabId ws) \<subseteq> T" for ws T by auto
  show ?thesis unfolding board_ok_def orphans assms map_eq_imp_length_eq [OF assms(2)] ..
qed

lemma board_normal_same:
  assumes "bl_tabs l = bl_tabs k" "map (\<lambda>w. (bw_tabId w, bw_position w)) (bl_widgets l) = map (\<lambda>w. (bw_tabId w, bw_position w)) (bl_widgets k)"
  shows "board_normal l = board_normal k"
proof -
  have key: "board_normal l \<longleftrightarrow> map bt_position (bl_tabs l) = map int [0..<length (bl_tabs l)] \<and>
      (\<forall>tabId. let ps = filter (\<lambda>p. fst p = tabId) (map (\<lambda>w. (bw_tabId w, bw_position w)) (bl_widgets l)) in map snd ps = map int [0..<length ps])" for l
    by (simp add: board_normal_def filter_map comp_def Let_def)
  show ?thesis unfolding key assms ..
qed

section \<open>Rows that hold a board\<close>

definition tabsHold :: "tab_row list \<Rightarrow> board_snapshot \<Rightarrow> bool" where
  "tabsHold rows S \<longleftrightarrow> distinct (map tr_tab_id rows) \<and> tr_tab_id ` set rows = bt_tabId ` set (bl_tabs (bs_layout S)) \<and>
     (\<forall>r \<in> set rows. rowToTab r \<in> set (bl_tabs (bs_layout S)) \<and> tr_revision r = bs_revision S)"

definition widgetsHold :: "url_parser \<Rightarrow> (string \<Rightarrow> string) \<Rightarrow> widget_row list \<Rightarrow> board_widget list \<Rightarrow> bool" where
  "widgetsHold parse sha256 rows ws \<longleftrightarrow> distinct (map wr_name rows) \<and> wr_name ` set rows = bw_name ` set ws \<and>
     (\<forall>r \<in> set rows. \<forall>w \<in> set ws. wr_name r = bw_name w \<longrightarrow> (\<exists>content gen identity. rowHolds parse sha256 r content gen identity w))"

definition boardHolds :: "url_parser \<Rightarrow> (string \<Rightarrow> string) \<Rightarrow> stored_rows \<Rightarrow> board_snapshot \<Rightarrow> bool" where
  "boardHolds parse sha256 rows S \<longleftrightarrow> board_ok (bs_layout S) \<and> board_normal (bs_layout S) \<and> grid_sorted (bs_layout S) \<and>
     0 \<le> bs_revision S \<and> (bl_tabs (bs_layout S) = [] \<longrightarrow> bs_revision S = 0) \<and>
     tabsHold (sr_tabs rows) S \<and> widgetsHold parse sha256 (sr_widgets rows) (bl_widgets (bs_layout S))"

lemma mapOrFail_all: "(\<And>x. x \<in> set xs \<Longrightarrow> f x = Inr (g x)) \<Longrightarrow> mapOrFail f xs = Inr (map g xs)"
  by (induction xs) simp_all

lemma distinct_of_map: "distinct (map f xs) \<Longrightarrow> distinct xs"
  by (simp add: distinct_map)

lemma mset_by_set: "distinct xs \<Longrightarrow> distinct ys \<Longrightarrow> set xs = set ys \<Longrightarrow> mset xs = mset ys"
  by (simp add: set_eq_iff_mset_eq_distinct)

lemma foldl_max: "(\<forall>x \<in> set xs. f x = v) \<Longrightarrow> (0 :: int) \<le> v \<Longrightarrow> foldl (\<lambda>r x. max r (f x)) v xs = v"
  by (induction xs) simp_all

lemma foldl_max_0: "(\<forall>x \<in> set xs. f x = v) \<Longrightarrow> (0 :: int) \<le> v \<Longrightarrow> (xs = [] \<Longrightarrow> v = 0) \<Longrightarrow> foldl (\<lambda>r x. max r (f x)) 0 xs = v"
  using foldl_max [of "tl xs" f v] by (cases xs) (auto simp: max_def)

lemma tabs_read:
  assumes "tabsHold rows S" "distinct (map bt_tabId (bl_tabs (bs_layout S)))" "mset rows' = mset rows"
  shows "mset (map rowToTab rows') = mset (bl_tabs (bs_layout S))"
proof -
  have h: "distinct (map tr_tab_id rows)" "tr_tab_id ` set rows = bt_tabId ` set (bl_tabs (bs_layout S))"
    "\<forall>r \<in> set rows. rowToTab r \<in> set (bl_tabs (bs_layout S))" using assms(1) unfolding tabsHold_def by blast+
  have ids: "map bt_tabId (map rowToTab rows) = map tr_tab_id rows" by (simp add: rowToTab_def)
  have "rowToTab ` set rows = set (bl_tabs (bs_layout S))"
  proof
    show "set (bl_tabs (bs_layout S)) \<subseteq> rowToTab ` set rows"
    proof (rule subsetI)
      fix t assume t: "t \<in> set (bl_tabs (bs_layout S))"
      then have "bt_tabId t \<in> tr_tab_id ` set rows" unfolding h(2) by simp
      then obtain r where r: "r \<in> set rows" "bt_tabId (rowToTab r) = bt_tabId t" by (auto simp: rowToTab_def)
      have "inj_on bt_tabId (set (bl_tabs (bs_layout S)))" using assms(2) unfolding distinct_map by (rule conjunct2)
      from inj_onD [OF this r(2) _ t] h(3) r(1) have "rowToTab r = t" by blast
      with r(1) show "t \<in> rowToTab ` set rows" by blast
    qed
  qed (use h(3) in blast)
  moreover have "distinct (map rowToTab rows)" by (rule distinct_of_map [where f = bt_tabId]) (simp only: ids h(1))
  moreover have "distinct (bl_tabs (bs_layout S))" using assms(2) by (rule distinct_of_map)
  ultimately have "mset (map rowToTab rows) = mset (bl_tabs (bs_layout S))" by (intro mset_by_set) simp_all
  moreover have "mset (map rowToTab rows') = mset (map rowToTab rows)" using arg_cong [OF assms(3), of "image_mset rowToTab"] by simp
  ultimately show ?thesis by (simp only:)
qed

text \<open>The widget of a row.\<close>

definition widgetOf :: "board_widget list \<Rightarrow> widget_row \<Rightarrow> board_widget" where
  "widgetOf ws r = the (find (\<lambda>w. bw_name w = wr_name r) ws)"

lemma widgetOf_row:
  assumes "widgetsHold parse sha256 rows ws" "distinct (map bw_name ws)" "r \<in> set rows"
  obtains content gen identity where "widgetOf ws r \<in> set ws" "bw_name (widgetOf ws r) = wr_name r"
    "rowHolds parse sha256 r content gen identity (widgetOf ws r)"
proof -
  have "wr_name r \<in> bw_name ` set ws" using assms(1,3) unfolding widgetsHold_def by blast
  then obtain w where w: "w \<in> set ws" "bw_name w = wr_name r" by (metis imageE)
  have f: "widgetOf ws r = w" using find_key [OF assms(2) w(1)] by (simp add: widgetOf_def w(2))
  obtain content gen identity where "rowHolds parse sha256 r content gen identity w"
    using assms(1,3) w unfolding widgetsHold_def by metis
  with that f w show ?thesis by blast
qed

lemma widgets_read:
  assumes "widgetsHold parse sha256 rows ws" "distinct (map bw_name ws)" "mset rows' = mset rows"
  shows "mset (map (widgetOf ws) rows') = mset ws"
proof -
  note w = widgetOf_row [OF assms(1,2)]
  have h: "distinct (map wr_name rows)" "wr_name ` set rows = bw_name ` set ws" using assms(1) unfolding widgetsHold_def by blast+
  have names: "map bw_name (map (widgetOf ws) rows) = map wr_name rows" by (simp, rule ballI, rule w) 
  have "widgetOf ws ` set rows = set ws"
  proof
    show "widgetOf ws ` set rows \<subseteq> set ws"
    proof
      fix v assume "v \<in> widgetOf ws ` set rows"
      then obtain r where r: "r \<in> set rows" "v = widgetOf ws r" by (rule imageE) simp
      show "v \<in> set ws" unfolding r(2) by (rule w [OF r(1)])
    qed
    show "set ws \<subseteq> widgetOf ws ` set rows"
    proof
      fix v assume v: "v \<in> set ws"
      then have "bw_name v \<in> wr_name ` set rows" unfolding h(2) by simp
      then obtain r where r: "r \<in> set rows" "bw_name v = wr_name r" by (rule imageE) simp
      have "widgetOf ws r = v" using find_key [OF assms(2) v] by (simp add: widgetOf_def r(2))
      with r(1) show "v \<in> widgetOf ws ` set rows" by blast
    qed
  qed
  moreover have "distinct (map (widgetOf ws) rows)" by (rule distinct_of_map [where f = bw_name]) (simp only: names h(1))
  moreover have "distinct ws" using assms(2) by (rule distinct_of_map)
  ultimately have "mset (map (widgetOf ws) rows) = mset ws" by (intro mset_by_set) simp_all
  moreover have "mset (map (widgetOf ws) rows') = mset (map (widgetOf ws) rows)" using arg_cong [OF assms(3), of "image_mset (widgetOf ws)"] by simp
  ultimately show ?thesis by (simp only:)
qed

lemma board_read:
  assumes "boardHolds parse sha256 rows S"
  obtains previous where "readStoredBoard parse (bs_sessionKey S) rows = Inr previous" "sb_snapshot previous = S"
    "set (sb_tabRows previous) = set (sr_tabs rows)" "mset (sb_widgetRows previous) = mset (sr_widgets rows)"
proof -
  note h = assms [unfolded boardHolds_def]
  let ?ws = "bl_widgets (bs_layout S)" and ?sel = "sort_by orderWidgets (sr_widgets rows)" and ?tabs = "sort_by orderTabs (sr_tabs rows)"
  have names: "distinct (map bw_name ?ws)" and ids: "distinct (map bt_tabId (bl_tabs (bs_layout S)))" using h unfolding board_ok_def by blast+
  have wh: "widgetsHold parse sha256 (sr_widgets rows) ?ws" and th: "tabsHold (sr_tabs rows) S" using h by blast+
  define M where "M r = projr (parseManifest parse (wr_manifest r))" for r :: widget_row
  have row: "parseManifest parse (wr_manifest r) = Inr (M r) \<and> rowToWidget r (M r) = Inr (widgetOf ?ws r) \<and> admittedRow (r, M r)" if "r \<in> set ?sel" for r
  proof -
    from that have "r \<in> set (sr_widgets rows)" by (simp add: set_sort_by)
    from widgetOf_row [OF wh names this] obtain content gen identity where rh: "rowHolds parse sha256 r content gen identity (widgetOf ?ws r)" by metis
    from row_manifest [OF rh] row_reads [OF rh] show ?thesis by (simp add: M_def admittedRow_def)
  qed
  have p: "mapOrFail (\<lambda>row. map_sum id (\<lambda>m. (row, m)) (parseManifest parse (wr_manifest row))) ?sel = Inr (map (\<lambda>r. (r, M r)) ?sel)"
    by (rule mapOrFail_all) (simp add: row)
  have a: "filter admittedRow (map (\<lambda>r. (r, M r)) ?sel) = map (\<lambda>r. (r, M r)) ?sel" by (rule filter_True) (auto simp: row)
  have q: "mapOrFail (\<lambda>p. rowToWidget (fst p) (snd p)) (map (\<lambda>r. (r, M r)) ?sel) = Inr (map (\<lambda>p. widgetOf ?ws (fst p)) (map (\<lambda>r. (r, M r)) ?sel))"
    by (rule mapOrFail_all) (auto simp: row)
  have rev: "foldl (\<lambda>r row. max r (tr_revision row)) 0 ?tabs = bs_revision S"
  proof (rule foldl_max_0)
    show "\<forall>x \<in> set ?tabs. tr_revision x = bs_revision S" using th by (simp add: tabsHold_def set_sort_by)
    show "0 \<le> bs_revision S" using h by blast
    assume "?tabs = []"
    then have "set (sr_tabs rows) = {}" using set_sort_by [of orderTabs "sr_tabs rows"] by simp
    then have "bl_tabs (bs_layout S) = []" using th by (simp add: tabsHold_def)
    then show "bs_revision S = 0" using h by blast
  qed
  have layout: "normalizeBoardLayout \<lparr>bl_tabs = map rowToTab ?tabs, bl_widgets = map (widgetOf ?ws) ?sel\<rparr> = bs_layout S"
  proof (rule normal_unique)
    show "mset (map rowToTab ?tabs) = mset (bl_tabs (bs_layout S))" by (rule tabs_read [OF th ids]) (simp add: mset_sort_by)
    show "mset (map (widgetOf ?ws) ?sel) = mset ?ws" by (rule widgets_read [OF wh names]) (simp add: mset_sort_by)
  qed (use h in blast)+
  show ?thesis
  proof (rule that)
    show "readStoredBoard parse (bs_sessionKey S) rows = Inr \<lparr>sb_snapshot = S, sb_tabRows = ?tabs, sb_widgetRows = ?sel,
        sb_htmlViewMetadata = map_of (rev (List.map_filter (\<lambda>(row, m). map_option (Pair (wr_name row)) (rowToHtmlViewMetadata row m))
          (map (\<lambda>r. (r, M r)) ?sel)))\<rparr>"
      unfolding readStoredBoard_def Let_def p sum.case a q rev by (simp add: comp_def layout)
  qed (simp_all add: set_sort_by mset_sort_by)
qed


section \<open>A put on a stored board\<close>

text \<open>A widget but for where it stands.\<close>

definition still :: "board_widget \<Rightarrow> board_widget" where
  "still w = w\<lparr>bw_tabId := [], bw_position := 0\<rparr>"

lemma still_simps [simp]: "still (w\<lparr>bw_tabId := t\<rparr>) = still w" "still (w\<lparr>bw_position := p\<rparr>) = still w" "bw_name (still w) = bw_name w"
  by (simp_all add: still_def)

lemma still_eq:
  assumes "still v = still w"
  shows "v = w\<lparr>bw_tabId := bw_tabId v, bw_position := bw_position v\<rparr>"
proof -
  have "v = (still v)\<lparr>bw_tabId := bw_tabId v, bw_position := bw_position v\<rparr>" by (simp add: still_def)
  also have "\<dots> = (still w)\<lparr>bw_tabId := bw_tabId v, bw_position := bw_position v\<rparr>" by (simp only: assms)
  finally show ?thesis by (simp add: still_def)
qed

lemma still_name: "still v = still w \<Longrightarrow> bw_name v = bw_name w"
  by (drule arg_cong [where f = bw_name]) simp

lemma normal_tabs_same:
  assumes "board_normal layout"
  shows "bl_tabs (normalizeBoardLayout layout) = bl_tabs layout"
proof -
  have p: "map bt_position (bl_tabs layout) = map int [0..<length (bl_tabs layout)]" using assms unfolding board_normal_def by blast
  show ?thesis unfolding normal_tabs tabs_in_order [OF p] by (rule renumberTabs_same [OF p])
qed

lemma ensureMain_normal: "board_normal layout \<Longrightarrow> board_normal (ensureMainTab layout)"
  by (simp add: board_normal_def ensureMainTab_def)

definition cleared :: "bool \<Rightarrow> board_widget \<Rightarrow> board_widget" where
  "cleared b w = (if b then w\<lparr>bw_declaredSummary := None, bw_declared := None\<rparr> else w)"

lemma put_settled:
  assumes "createBoardWidgetPutSnapshot parse sha256 S params context = Inr S'"
    and S: "board_ok (bs_layout S)" "board_normal (bs_layout S)" "grid_sorted (bs_layout S)"
  obtains declared existing tabId where
    "existing = find (\<lambda>w. bw_name w = pa_name params) (bl_widgets (bs_layout S))"
    "case pa_content params of PutPlugin _ _ \<Rightarrow> declared = None | _ \<Rightarrow> normalizeBoardWidgetDeclared parse (pa_declared params) = Inr declared"
    "\<forall>w. existing = Some w \<longrightarrow> \<not> ownedByOther (pa_content params) w"
    "board_ok (bs_layout S')" "board_normal (bs_layout S')" "grid_sorted (bs_layout S')"
    "bs_revision S' = bs_revision S + 1" "bs_sessionKey S' = pa_sessionKey params"
    "bl_tabs (bs_layout S') = bl_tabs (ensureMainTab (bs_layout S))"
    "bw_name ` set (bl_widgets (bs_layout S')) = insert (pa_name params) (bw_name ` set (bl_widgets (bs_layout S)))"
    "\<forall>v \<in> set (bl_widgets (bs_layout S')). bw_name v \<noteq> pa_name params \<longrightarrow> (\<exists>old \<in> set (bl_widgets (bs_layout S)). still old = still v)"
    "\<forall>v \<in> set (bl_widgets (bs_layout S')). bw_name v = pa_name params \<longrightarrow>
      (\<exists>n. still v = still (cleared (createBoardDeclaredSummary declared = None)
        (case existing of Some e \<Rightarrow> assignWidget e (putWidgetValue sha256 context params declared existing tabId n)
         | None \<Rightarrow> putWidgetValue sha256 context params declared existing tabId n)))"
proof -
  from assms(1) obtain layout existing tabId declared inserted placement where
    layout: "layout = ensureMainTab (normalizeBoardLayout (bs_layout S))"
    and existing: "existing = find (\<lambda>w. bw_name w = pa_name params) (bl_widgets layout)"
    and few: "existing = None \<longrightarrow> length (bl_widgets layout) < BOARD_MAX_WIDGETS"
    and tab: "\<exists>t \<in> set (bl_tabs layout). bt_tabId t = tabId"
    and declared: "case pa_content params of PutPlugin _ _ \<Rightarrow> declared = None | _ \<Rightarrow> normalizeBoardWidgetDeclared parse (pa_declared params) = Inr declared"
    and ins: "insertBoardWidget layout (putWidgetValue sha256 context params declared existing tabId (length (bl_widgets layout))) placement = Inr inserted"
    and wp: "wp_tabId placement = tabId"
    and result: "S' = \<lparr>bs_sessionKey = pa_sessionKey params, bs_revision = bs_revision S + 1,
       bs_layout = (if createBoardDeclaredSummary declared = None then clearDeclared (pa_name params) inserted else inserted)\<rparr>"
    and own: "\<forall>w. existing = Some w \<longrightarrow> \<not> ownedByOther (pa_content params) w"
    by (rule put_cases) (rule that)
  have lay: "layout = ensureMainTab (bs_layout S)" unfolding layout settled [OF S(2,3)] ..
  have ws: "bl_widgets layout = bl_widgets (bs_layout S)" unfolding lay by simp
  have ok: "board_ok layout" unfolding lay by (rule ensureMain_ok [OF S(1)])
  have normal: "board_normal layout" unfolding lay by (rule ensureMain_normal [OF S(2)])
  have names: "distinct (map bw_name (bl_widgets layout))" using ok unfolding board_ok_def by blast
  let ?w = "putWidgetValue sha256 context params declared existing tabId (length (bl_widgets layout))"
  have w: "bw_name ?w = pa_name params" by (simp add: putWidgetValue_def Let_def)
  have none: "bw_name ?w \<notin> bw_name ` set (bl_widgets layout) \<Longrightarrow> existing = None" unfolding w by (force simp: existing find_None_iff)
  have room: "int (length (bl_widgets layout)) < MAX_POSITION" if "bw_name ?w \<notin> bw_name ` set (bl_widgets layout)"
    using few none [OF that] by (simp add: BOARD_MAX_WIDGETS_def MAX_POSITION_def)
  have there: "wp_tabId placement \<in> bt_tabId ` set (bl_tabs layout)" using tab unfolding wp by auto
  note inserted = insert_ok [OF ok ins there room]
  have kept_tabs: "bl_tabs inserted = bl_tabs layout"
    unfolding normal_tabs_same [OF normal, symmetric] by (rule insert_ok(3) [OF ok ins there]) (rule room)
  obtain m where m: "inserted = normalizeBoardLayout m" using ins unfolding insertBoardWidget_def by (auto dest!: map_sum_Inr)
  have sorted: "grid_sorted inserted" unfolding m by (rule normalize_sorted) (use inserted(1) in \<open>simp add: m normalize_ok\<close>)
  have dn: "distinct (map bw_name (bl_widgets inserted))" using inserted(1) unfolding board_ok_def by blast
  let ?b = "createBoardDeclaredSummary declared = None"
  have clear: "bl_widgets (bs_layout S') = map (\<lambda>v. cleared (bw_name v = pa_name params \<and> ?b) v) (bl_widgets inserted)"
    unfolding result using clearDeclared_clears [OF dn] by (cases "createBoardDeclaredSummary declared") (simp_all add: cleared_def)
  have keep: "map (\<lambda>w. (bw_tabId w, bw_position w)) (bl_widgets (bs_layout S')) = map (\<lambda>w. (bw_tabId w, bw_position w)) (bl_widgets inserted)"
    "map bw_name (bl_widgets (bs_layout S')) = map bw_name (bl_widgets inserted)"
    unfolding clear by (simp_all add: cleared_def)
  have tabs: "bl_tabs (bs_layout S') = bl_tabs inserted" unfolding result by (simp add: clearDeclared_parts)
  note from_ins = inserted_as [where f = still, OF ins _ names still_simps(1,2) still_name, unfolded w existing [symmetric]]
  show ?thesis
  proof (rule that [OF existing [unfolded ws] declared own])
    show "board_ok (bs_layout S')" using inserted(1) unfolding result by (simp add: clearDeclared_ok)
    show "board_normal (bs_layout S')" using inserted(2) unfolding result by (simp add: clearDeclared_normal)
    show "grid_sorted (bs_layout S')" using sorted grid_sorted_same [OF tabs keep(1)] by blast
    show "bl_tabs (bs_layout S') = bl_tabs (ensureMainTab (bs_layout S))" unfolding tabs kept_tabs lay ..
    have "bw_name ` set (bl_widgets inserted) = insert (pa_name params) (bw_name ` set (bl_widgets layout))"
    proof -
      have nm: "set (map bw_name (bl_widgets inserted)) = set (map bw_name (case findIndex (\<lambda>v. bw_name v = bw_name ?w) (bl_widgets layout) of
          Some i \<Rightarrow> (bl_widgets layout)[i := assignWidget (bl_widgets layout ! i) ?w] | None \<Rightarrow> bl_widgets layout @ [?w]))"
        by (rule mset_eq_setD [OF insert_mset [where f = bw_name, OF ins]]) simp_all
      show ?thesis
      proof (cases "findIndex (\<lambda>v. bw_name v = bw_name ?w) (bl_widgets layout)")
        case None
        show ?thesis using nm unfolding None by (simp add: w)
      next
        case (Some i)
        have i: "i < length (bl_widgets layout)" "bw_name (bl_widgets layout ! i) = pa_name params" using findIndex_Some [OF Some] w by simp_all
        have "bw_name (assignWidget (bl_widgets layout ! i) ?w) = bw_name (bl_widgets layout ! i)" using i(2) w by (simp add: assignWidget_def)
        from map_update_same [of i "bl_widgets layout" bw_name, OF i(1) this]
        have "bw_name ` set (bl_widgets inserted) = bw_name ` set (bl_widgets layout)" using nm unfolding Some option.case by (metis set_map)
        moreover have "pa_name params \<in> bw_name ` set (bl_widgets layout)" using i nth_mem [OF i(1)] by (metis image_eqI)
        ultimately show ?thesis by blast
      qed
    qed
    then show "bw_name ` set (bl_widgets (bs_layout S')) = insert (pa_name params) (bw_name ` set (bl_widgets (bs_layout S)))"
      using keep(2) unfolding ws by (metis set_map)
    show "\<forall>v \<in> set (bl_widgets (bs_layout S')). bw_name v \<noteq> pa_name params \<longrightarrow> (\<exists>old \<in> set (bl_widgets (bs_layout S)). still old = still v)"
    proof (intro ballI impI)
      fix v assume v: "v \<in> set (bl_widgets (bs_layout S'))" "bw_name v \<noteq> pa_name params"
      have "v \<in> set (bl_widgets inserted)" using v unfolding clear by (auto simp: cleared_def)
      from from_ins [OF this] v(2) show "\<exists>old \<in> set (bl_widgets (bs_layout S)). still old = still v" unfolding ws by simp
    qed
    show "\<forall>v \<in> set (bl_widgets (bs_layout S')). bw_name v = pa_name params \<longrightarrow> (\<exists>n. still v = still (cleared ?b
        (case existing of Some e \<Rightarrow> assignWidget e (putWidgetValue sha256 context params declared existing tabId n)
         | None \<Rightarrow> putWidgetValue sha256 context params declared existing tabId n)))"
    proof (intro ballI impI exI)
      fix v assume v: "v \<in> set (bl_widgets (bs_layout S'))" "bw_name v = pa_name params"
      obtain u where u: "u \<in> set (bl_widgets inserted)" "bw_name u = pa_name params" "v = cleared ?b u"
        using v unfolding clear by (auto simp: cleared_def split: if_splits)
      have "still u = still (case existing of Some e \<Rightarrow> assignWidget e ?w | None \<Rightarrow> ?w)"
        using from_ins [OF u(1)] u(2) by (cases existing) simp_all
      moreover have "still (cleared b x) = cleared b (still x)" for b x by (simp add: cleared_def still_def)
      ultimately show "still v = still (cleared ?b (case existing of Some e \<Rightarrow> assignWidget e ?w | None \<Rightarrow> ?w))" unfolding u(3) by (simp only:)
    qed
  qed (simp_all add: result)
qed


section \<open>What the statements leave\<close>

lemma upsertTab_step:
  assumes "distinct (map tr_tab_id rows)"
  shows "distinct (map tr_tab_id (upsertTab previous v rows t))"
    "tr_tab_id ` set (upsertTab previous v rows t) = insert (bt_tabId t) (tr_tab_id ` set rows)"
    "\<forall>r \<in> set (upsertTab previous v rows t). if tr_tab_id r = bt_tabId t then rowToTab r = t \<and> tr_revision r = v else r \<in> set rows"
proof -
  let ?u = "\<lambda>r. r\<lparr>tr_title := bt_title t, tr_position := bt_position t, tr_chat_dock := bt_chatDock t, tr_revision := v\<rparr>"
  have m: "map tr_tab_id (updateWhere (\<lambda>r. tr_tab_id r = bt_tabId t) ?u rows) = map tr_tab_id rows" by (rule updateWhere_map) simp
  have u: "upsertTab previous v rows t = updateWhere (\<lambda>r. tr_tab_id r = bt_tabId t) ?u rows" if "\<exists>r \<in> set rows. tr_tab_id r = bt_tabId t"
    using that by (simp add: upsertTab_def)
  have n: "\<exists>r. upsertTab previous v rows t = rows @ [r] \<and> tr_tab_id r = bt_tabId t \<and> rowToTab r = t \<and> tr_revision r = v"
    if "\<not> (\<exists>r \<in> set rows. tr_tab_id r = bt_tabId t)"
    using that by (simp add: upsertTab_def rowToTab_def)
  show "distinct (map tr_tab_id (upsertTab previous v rows t))"
  proof (cases "\<exists>r \<in> set rows. tr_tab_id r = bt_tabId t")
    case False
    from n [OF False] obtain r where r: "upsertTab previous v rows t = rows @ [r]" "tr_tab_id r = bt_tabId t" by blast
    show ?thesis using False assms unfolding r(1) by (auto simp: r(2))
  qed (simp only: u m assms)
  show "tr_tab_id ` set (upsertTab previous v rows t) = insert (bt_tabId t) (tr_tab_id ` set rows)"
  proof (cases "\<exists>r \<in> set rows. tr_tab_id r = bt_tabId t")
    case True
    then have "bt_tabId t \<in> tr_tab_id ` set rows" by (metis image_eqI)
    moreover have "set (map tr_tab_id (upsertTab previous v rows t)) = set (map tr_tab_id rows)" by (simp only: u [OF True] m)
    ultimately show ?thesis by auto
  next
    case False
    from n [OF False] obtain r where r: "upsertTab previous v rows t = rows @ [r]" "tr_tab_id r = bt_tabId t" by blast
    show ?thesis unfolding r(1) by (simp add: r(2))
  qed
  show "\<forall>r \<in> set (upsertTab previous v rows t). if tr_tab_id r = bt_tabId t then rowToTab r = t \<and> tr_revision r = v else r \<in> set rows"
  proof (cases "\<exists>r \<in> set rows. tr_tab_id r = bt_tabId t")
    case True
    show ?thesis unfolding u [OF True] by (auto simp: updateWhere_def rowToTab_def)
  next
    case False
    from n [OF False] obtain r where r: "upsertTab previous v rows t = rows @ [r]" "tr_tab_id r = bt_tabId t" "rowToTab r = t" "tr_revision r = v" by blast
    show ?thesis using False unfolding r(1) by (auto simp: r(2-4))
  qed
qed

lemma upserted:
  fixes previous v
  assumes "distinct (map tr_tab_id rows)" "distinct (map bt_tabId ts)"
  defines "R \<equiv> foldl (upsertTab previous v) rows ts"
  shows "distinct (map tr_tab_id R) \<and> tr_tab_id ` set R = tr_tab_id ` set rows \<union> bt_tabId ` set ts \<and>
    (\<forall>r \<in> set R. if tr_tab_id r \<in> bt_tabId ` set ts then rowToTab r \<in> set ts \<and> tr_revision r = v else r \<in> set rows)"
  unfolding R_def using assms(1,2)
proof (induction ts arbitrary: rows)
  case (Cons t ts)
  let ?r1 = "upsertTab previous v rows t" and ?R = "foldl (upsertTab previous v) (upsertTab previous v rows t) ts"
  note step = upsertTab_step [OF Cons.prems(1), of previous v t]
  have IH: "distinct (map tr_tab_id ?R) \<and> tr_tab_id ` set ?R = tr_tab_id ` set ?r1 \<union> bt_tabId ` set ts \<and>
    (\<forall>r \<in> set ?R. if tr_tab_id r \<in> bt_tabId ` set ts then rowToTab r \<in> set ts \<and> tr_revision r = v else r \<in> set ?r1)"
    using Cons.IH [OF step(1)] Cons.prems(2) by simp
  have ids: "tr_tab_id ` set ?R = tr_tab_id ` set rows \<union> bt_tabId ` set (t # ts)" using IH unfolding step(2) by simp
  have rows: "if tr_tab_id r \<in> bt_tabId ` set (t # ts) then rowToTab r \<in> set (t # ts) \<and> tr_revision r = v else r \<in> set rows" if r: "r \<in> set ?R" for r
  proof (cases "tr_tab_id r \<in> bt_tabId ` set ts")
    case True
    then show ?thesis using IH r by simp
  next
    case False
    then have "r \<in> set ?r1" using IH r by (metis (no_types, lifting))
    with step(3) have "if tr_tab_id r = bt_tabId t then rowToTab r = t \<and> tr_revision r = v else r \<in> set rows" by blast
    then show ?thesis using False by (cases "tr_tab_id r = bt_tabId t") simp_all
  qed
  from IH have "distinct (map tr_tab_id ?R)" by blast
  with ids rows show ?case unfolding foldl_Cons by blast
qed simp

lemma tabs_upserted:
  assumes "tabsHold (sr_tabs rows) S" "distinct (map bt_tabId (bl_tabs (bs_layout S')))"
    "bt_tabId ` set (bl_tabs (bs_layout S)) \<subseteq> bt_tabId ` set (bl_tabs (bs_layout S'))"
  shows "tabsHold (sr_tabs (upsertTabs previous S' rows)) S'"
proof -
  have h: "distinct (map tr_tab_id (sr_tabs rows))" "tr_tab_id ` set (sr_tabs rows) = bt_tabId ` set (bl_tabs (bs_layout S))"
    using assms(1) unfolding tabsHold_def by blast+
  note u = upserted [OF h(1) assms(2), of previous "bs_revision S'"]
  let ?R = "foldl (upsertTab previous (bs_revision S')) (sr_tabs rows) (bl_tabs (bs_layout S'))"
  have ids: "tr_tab_id ` set ?R = bt_tabId ` set (bl_tabs (bs_layout S'))" using u assms(3) unfolding h(2) by blast
  have "rowToTab r \<in> set (bl_tabs (bs_layout S')) \<and> tr_revision r = bs_revision S'" if "r \<in> set ?R" for r
  proof -
    have "tr_tab_id r \<in> bt_tabId ` set (bl_tabs (bs_layout S'))" using that ids by blast
    with u that show ?thesis by simp
  qed
  then show ?thesis using u ids unfolding tabsHold_def upsertTabs_def by simp
qed

lemma widgets_placed:
  assumes "distinct (map bw_name ws)"
  shows "foldl (\<lambda>rs w. updateWhere (\<lambda>r. wr_name r = bw_name w) (placeRow now w) rs) rows ws =
    map (\<lambda>r. case find (\<lambda>w. bw_name w = wr_name r) ws of Some w \<Rightarrow> placeRow now w r | None \<Rightarrow> r) rows"
  by (rule foldl_updates [OF assms]) (simp add: placeRow_def)

lemma widgetsHoldI:
  assumes "distinct (map wr_name rows)" "wr_name ` set rows = bw_name ` set ws" "distinct (map bw_name ws)"
    "\<And>r. r \<in> set rows \<Longrightarrow> \<exists>w \<in> set ws. bw_name w = wr_name r \<and> (\<exists>content gen identity. rowHolds parse sha256 r content gen identity w)"
  shows "widgetsHold parse sha256 rows ws"
  unfolding widgetsHold_def
proof (intro conjI assms(1,2) ballI impI)
  fix r w assume r: "r \<in> set rows" and w: "w \<in> set ws" "wr_name r = bw_name w"
  obtain v content gen identity where v: "v \<in> set ws" "bw_name v = wr_name r" "rowHolds parse sha256 r content gen identity v"
    using assms(4) [OF r] by blast
  have "inj_on bw_name (set ws)" using assms(3) unfolding distinct_map by (rule conjunct2)
  from inj_onD [OF this _ v(1) w(1)] v(2) w(2) have "v = w" by simp
  with v(3) show "\<exists>content gen identity. rowHolds parse sha256 r content gen identity w" by blast
qed

end
