(* ===== verification/BoardWrites.thy ===== *)
theory BoardWrites
  imports BoardRows
begin

text \<open>
  The three writing operations of the store on rows that hold a board: a decision, a put and a batch of layout operations each leave rows
  that hold the board they return, and no widget is granted afterwards that neither was granted before nor is the one decided on.
\<close>

section \<open>A decision on a stored board\<close>

lemma grant_update:
  assumes "createBoardGrantSnapshot S name decision revision instanceId = Inr S'"
  obtains i where "i < length (bl_widgets (bs_layout S))" "bw_name (bl_widgets (bs_layout S) ! i) = name"
    "bw_grantState (bl_widgets (bs_layout S) ! i) = GrantPending"
    "S' = S\<lparr>bs_revision := bs_revision S + 1, bs_layout := (bs_layout S)\<lparr>bl_widgets := (bl_widgets (bs_layout S))
      [i := (bl_widgets (bs_layout S) ! i)\<lparr>bw_grantState := decision\<rparr>]\<rparr>\<rparr>"
  using assms findIndex_Some [of "\<lambda>w. bw_name w = name" "bl_widgets (bs_layout S)"]
  by (auto simp: createBoardGrantSnapshot_def Let_def split: option.splits if_splits)

lemma grant_cases:
  assumes "storeGrant parse key hasSession now name decision revision instanceId rows = Inr (rows', S')"
  obtains previous widget row owner m where
    "readStoredBoard parse key rows = Inr previous" "createBoardGrantSnapshot (sb_snapshot previous) name decision revision instanceId = Inr S'"
    "find (\<lambda>w. bw_name w = name) (bl_widgets (bs_layout S')) = Some widget" "find (\<lambda>r. wr_name r = name) (sb_widgetRows previous) = Some row"
    "bw_contentOwner widget = Some owner" "parseManifest parse (wr_manifest row) = Inr m"
    "rows' = (upsertTabs previous S' rows)\<lparr>sr_widgets :=
       updateWhere (\<lambda>r. wr_name r = name) (grantRow decision owner (bw_registeredContentKind widget) m now row) (sr_widgets rows)\<rparr>"
proof -
  have "sr_widgets (upsertTabs previous s rows) = sr_widgets rows" for previous s by (simp add: upsertTabs_def)
  with assms that show ?thesis by (auto simp: storeGrant_def Let_def split: if_splits sum.splits option.splits)
qed

lemma grantRow_decided:
  assumes "rowHolds parse sha256 row content gen identity w"
  shows "grantRow decision (contentOwner content) (registeredKind content) (rowManifest content gen identity w) now row row =
    row\<lparr>wr_grant_state := grantText decision, wr_granted_sha := (if decision = Granted then Some (wr_sha256 row) else None),
      wr_manifest := serializeManifest (contentOwner content) (registeredKind content) (bw_declared w) decision (ownerFrame content gen)
        (bw_presentation w) (bw_heightMode w) (Some identity), wr_updated_at := now\<rparr>"
  by (cases content) (simp_all add: grantRow_def manifestOf_def ownerFrame_def)

lemma grant_holds:
  assumes "boardHolds parse sha256 rows S" "bs_sessionKey S = key" "decision \<in> {Granted, GrantRejected}"
    and "storeGrant parse key hasSession now name decision revision instanceId rows = Inr (rows', S')"
  shows "boardHolds parse sha256 rows' S'" "bs_sessionKey S' = key"
    "\<exists>row m. row \<in> set (sr_widgets rows) \<and> wr_name row = name \<and> parseManifest parse (wr_manifest row) = Inr m \<and>
      (\<forall>r \<in> set (sr_widgets rows'). if wr_name r = name then wr_sha256 r = wr_sha256 row \<and> wr_content_kind r = wr_content_kind row \<and>
         wr_grant_state r = grantText decision \<and> (\<exists>m'. parseManifest parse (wr_manifest r) = Inr m' \<and> pm_declared m' = pm_declared m)
       else r \<in> set (sr_widgets rows))"
proof -
  note h = assms(1) [unfolded boardHolds_def]
  let ?ws = "bl_widgets (bs_layout S)"
  obtain previous where read: "readStoredBoard parse key rows = Inr previous" "sb_snapshot previous = S"
    "set (sb_tabRows previous) = set (sr_tabs rows)" "mset (sb_widgetRows previous) = mset (sr_widgets rows)"
    using board_read [OF assms(1)] unfolding assms(2) by metis
  obtain previous' widget row owner m where g: "readStoredBoard parse key rows = Inr previous'"
    "createBoardGrantSnapshot (sb_snapshot previous') name decision revision instanceId = Inr S'"
    "find (\<lambda>w. bw_name w = name) (bl_widgets (bs_layout S')) = Some widget" "find (\<lambda>r. wr_name r = name) (sb_widgetRows previous') = Some row"
    "bw_contentOwner widget = Some owner" "parseManifest parse (wr_manifest row) = Inr m"
    "rows' = (upsertTabs previous' S' rows)\<lparr>sr_widgets :=
       updateWhere (\<lambda>r. wr_name r = name) (grantRow decision owner (bw_registeredContentKind widget) m now row) (sr_widgets rows)\<rparr>"
    by (rule grant_cases [OF assms(4)])
  have prev: "previous' = previous" using g(1) read(1) by simp
  obtain i where i: "i < length ?ws" "bw_name (?ws ! i) = name" "bw_grantState (?ws ! i) = GrantPending"
    and S': "S' = S\<lparr>bs_revision := bs_revision S + 1, bs_layout := (bs_layout S)\<lparr>bl_widgets := ?ws[i := (?ws ! i)\<lparr>bw_grantState := decision\<rparr>]\<rparr>\<rparr>"
    using grant_update [OF g(2) [unfolded prev read(2)]] by metis
  let ?w = "?ws ! i" and ?w' = "(?ws ! i)\<lparr>bw_grantState := decision\<rparr>" and ?ws' = "bl_widgets (bs_layout S')"
  have names: "distinct (map bw_name ?ws)" using h unfolding board_ok_def by blast
  have same: "map f ?ws' = map f ?ws" if "f ?w' = f ?w" for f :: "board_widget \<Rightarrow> 'c"
    unfolding S' using map_update_same [OF i(1) that] by simp
  have names': "map bw_name ?ws' = map bw_name ?ws" by (rule same) simp
  have place: "map (\<lambda>w. (bw_tabId w, bw_position w)) ?ws' = map (\<lambda>w. (bw_tabId w, bw_position w)) ?ws" by (rule same) simp
  have tabs: "bl_tabs (bs_layout S') = bl_tabs (bs_layout S)" unfolding S' by simp
  have ws': "?ws' = ?ws[i := ?w']" unfolding S' by simp
  have wi: "?w \<in> set ?ws" "?w' \<in> set ?ws'" using i(1) unfolding ws' by (simp_all add: set_update_memI)
  have found: "widget = ?w'" using find_key [of bw_name ?ws' ?w'] names names' wi(2) g(3) i(2) by simp
  have row: "row \<in> set (sr_widgets rows)" "wr_name row = name"
    using g(4) mset_eq_setD [OF read(4)] unfolding prev by (auto simp: find_Some_iff)
  have wh: "widgetsHold parse sha256 (sr_widgets rows) ?ws" and th: "tabsHold (sr_tabs rows) S" using h by blast+
  obtain content gen identity where rh: "rowHolds parse sha256 row content gen identity ?w"
    using wh row wi(1) i(2) unfolding widgetsHold_def by metis
  have kind: "bw_registeredContentKind widget = registeredKind content" "owner = contentOwner content"
    using rh g(5) unfolding found rowHolds_def by simp_all
  have m: "m = rowManifest content gen identity ?w" using g(6) row_manifest [OF rh] by simp
  let ?row' = "grantRow decision owner (bw_registeredContentKind widget) m now row row"
  have rh': "rowHolds parse sha256 ?row' content gen identity ?w'"
    unfolding kind m grantRow_decided [OF rh] by (rule row_decided [OF rh i(3) assms(3)])
  have dr: "distinct (map wr_name (sr_widgets rows))" using wh unfolding widgetsHold_def by blast
  have is_row: "r = row" if "r \<in> set (sr_widgets rows)" "wr_name r = name" for r
  proof -
    have "inj_on wr_name (set (sr_widgets rows))" using dr unfolding distinct_map by (rule conjunct2)
    from inj_onD [OF this _ that(1) row(1)] that(2) row(2) show ?thesis by simp
  qed
  let ?G = "grantRow decision owner (bw_registeredContentKind widget) m now row"
  have rows': "sr_widgets rows' = updateWhere (\<lambda>r. wr_name r = name) ?G (sr_widgets rows)" unfolding g(7) by simp
  have new: "r = ?row' \<or> r \<in> set (sr_widgets rows) \<and> wr_name r \<noteq> name" if "r \<in> set (sr_widgets rows')" for r
    using that is_row unfolding rows' by (auto simp: updateWhere_def)
  have row'_name: "wr_name ?row' = name" using row(2) by (simp add: grantRow_def)
  have rn: "map wr_name (sr_widgets rows') = map wr_name (sr_widgets rows)" unfolding rows' by (rule updateWhere_map) (simp add: grantRow_def)
  have "widgetsHold parse sha256 (sr_widgets rows') ?ws'"
  proof (rule widgetsHoldI)
    show "distinct (map wr_name (sr_widgets rows'))" "distinct (map bw_name ?ws')" using dr names by (simp_all only: rn names')
    have "set (map wr_name (sr_widgets rows)) = set (map bw_name ?ws)" using wh by (simp add: widgetsHold_def)
    then have "set (map wr_name (sr_widgets rows')) = set (map bw_name ?ws')" by (simp only: rn names')
    then show "wr_name ` set (sr_widgets rows') = bw_name ` set ?ws'" by simp
    show "\<exists>w \<in> set ?ws'. bw_name w = wr_name r \<and> (\<exists>content gen identity. rowHolds parse sha256 r content gen identity w)"
      if r: "r \<in> set (sr_widgets rows')" for r
      using new [OF r]
    proof
      assume r: "r = ?row'"
      have "bw_name ?w' = wr_name ?row'" using row'_name i(2) by simp
      then show ?thesis using rh' wi(2) unfolding r by blast
    next
      assume old: "r \<in> set (sr_widgets rows) \<and> wr_name r \<noteq> name"
      obtain content' gen' identity' where o: "widgetOf ?ws r \<in> set ?ws" "bw_name (widgetOf ?ws r) = wr_name r"
        "rowHolds parse sha256 r content' gen' identity' (widgetOf ?ws r)"
        by (rule widgetOf_row [OF wh names]) (use old in blast, rule that)
      obtain j where j: "j < length ?ws" "?ws ! j = widgetOf ?ws r" using o(1) by (auto simp: in_set_conv_nth)
      have "j \<noteq> i" using j(2) o(2) old i(2) by auto
      then have "?ws' ! j = widgetOf ?ws r" "j < length ?ws'" unfolding ws' using j by simp_all
      then have "widgetOf ?ws r \<in> set ?ws'" by (metis nth_mem)
      with o(2,3) show ?thesis by blast
    qed
  qed
  moreover have "tabsHold (sr_tabs rows') S'"
  proof -
    have "sr_tabs rows' = sr_tabs (upsertTabs previous' S' rows)" unfolding g(7) by simp
    moreover have "distinct (map bt_tabId (bl_tabs (bs_layout S')))" using h unfolding tabs board_ok_def by blast
    ultimately show ?thesis using tabs_upserted [OF th, of S' previous'] unfolding tabs by simp
  qed
  moreover have "map bw_tabId ?ws' = map bw_tabId ?ws" by (rule same) simp
  then have "board_ok (bs_layout S')" using h board_ok_same [OF tabs names'] by blast
  moreover have "board_normal (bs_layout S')" using h board_normal_same [OF tabs place] by blast
  moreover have "grid_sorted (bs_layout S')" using h grid_sorted_same [OF tabs place] by blast
  moreover have "bl_tabs (bs_layout S) \<noteq> []" using h wi(1) unfolding board_ok_def by auto
  ultimately show "boardHolds parse sha256 rows' S'" using h unfolding boardHolds_def tabs by (simp add: S')
  show "bs_sessionKey S' = key" using assms(2) unfolding S' by simp
  have "parseManifest parse (wr_manifest ?row') = Inr (rowManifest content gen identity ?w')" by (rule row_manifest [OF rh'])
  moreover have "pm_declared (rowManifest content gen identity ?w') = pm_declared m" unfolding m by (simp add: manifestOf_def)
  moreover have "wr_sha256 ?row' = wr_sha256 row \<and> wr_content_kind ?row' = wr_content_kind row \<and> wr_grant_state ?row' = grantText decision" by (simp add: grantRow_def)
  ultimately have "\<forall>r \<in> set (sr_widgets rows'). if wr_name r = name then wr_sha256 r = wr_sha256 row \<and> wr_content_kind r = wr_content_kind row \<and>
         wr_grant_state r = grantText decision \<and> (\<exists>m'. parseManifest parse (wr_manifest r) = Inr m' \<and> pm_declared m' = pm_declared m)
       else r \<in> set (sr_widgets rows)"
    using new row'_name by (auto dest!: new)
  with row g(6) show "\<exists>row m. row \<in> set (sr_widgets rows) \<and> wr_name row = name \<and> parseManifest parse (wr_manifest row) = Inr m \<and>
      (\<forall>r \<in> set (sr_widgets rows'). if wr_name r = name then wr_sha256 r = wr_sha256 row \<and> wr_content_kind r = wr_content_kind row \<and>
         wr_grant_state r = grantText decision \<and> (\<exists>m'. parseManifest parse (wr_manifest r) = Inr m' \<and> pm_declared m' = pm_declared m)
       else r \<in> set (sr_widgets rows))" by blast
qed


section \<open>Putting a widget on a stored board\<close>

lemma store_put_cases:
  assumes "storePutWidget parse sha256 key hasSession now gen params rows = Inr (rows', S', name)"
  obtains input previous request existing scope widget where
    "normalizeBoardWidgetPutParams parse params key = Inr input" "readStoredBoard parse key rows = Inr previous"
    "resolveSqliteBoardWidgetPutParams parse (sb_snapshot previous) input (sb_widgetRows previous) = Inr request" "name = pa_name request"
    "existing = find (\<lambda>r. wr_name r = pa_name request) (sb_widgetRows previous)" "grantScopeMatches (pa_content request) existing = Inr scope"
    "createBoardWidgetPutSnapshot parse sha256 (sb_snapshot previous) request
       \<lparr>pc_grantScopeMatches = scope, pc_grantedSha256 = Option.bind existing wr_granted_sha, pc_instanceId = gen\<rparr> = Inr S'"
    "find (\<lambda>w. bw_name w = pa_name request) (bl_widgets (bs_layout S')) = Some widget"
    "rows' = updateWidgetLayouts S' now ((upsertTabs previous S' rows)\<lparr>sr_widgets := putRow sha256 request widget gen now existing (sr_widgets rows)\<rparr>)"
proof -
  have "sr_widgets (upsertTabs previous s rows) = sr_widgets rows" for previous s by (simp add: upsertTabs_def)
  with assms that show ?thesis by (auto simp: storePutWidget_def Let_def split: if_splits sum.splits option.splits)
qed

lemma resolve_keeps:
  assumes "resolveBoardWidgetPutParams S params ids = Inr request"
  shows "request = params\<lparr>pa_name := pa_name request\<rparr>"
  using assms by (auto simp: resolveBoardWidgetPutParams_def split: option.splits if_splits)

lemma resolve_sqlite_keeps:
  assumes "resolveSqliteBoardWidgetPutParams parse S params rs = Inr request"
  shows "request = params\<lparr>pa_name := pa_name request\<rparr>"
  using assms by (auto simp: resolveSqliteBoardWidgetPutParams_def split: sum.splits dest: resolve_keeps)

lemma normalize_put:
  assumes "normalizeBoardWidgetPutParams parse params key = Inr input"
  obtains d where "input = params\<lparr>pa_sessionKey := key, pa_declared := d\<rparr>" "normalizeBoardWidgetDeclared parse (pa_declared params) = Inr d"
  using assms that unfolding normalizeBoardWidgetPutParams_def by (auto dest!: map_sum_Inr)

lemma canonical_nonempty:
  assumes "normalizeBoardWidgetDeclared parse d = Inr d"
  shows "createBoardDeclaredSummary d = None \<longleftrightarrow> d = None"
proof (cases d)
  case (Some n)
  obtain origins tools where f: "finishDeclared parse (canonicalSet origins) (canonicalSet tools) = Inr (Some n)"
    using normalized_parts [OF assms [unfolded Some]] by metis
  have "\<not> (canonicalSet origins = [] \<and> canonicalSet tools = [])" using f by (auto simp: finishDeclared_def split: sum.splits if_splits)
  then show ?thesis using finish_Some(3,4) [OF f] unfolding Some summary_None by auto
qed (simp add: summary_None originsOf_def toolsOf_def)

text \<open>The props of the widget put are those of the content put, whatever the returned snapshot still shows.\<close>

definition withProps :: "string option \<Rightarrow> board_widget \<Rightarrow> board_widget" where
  "withProps props w = w\<lparr>bw_props := props\<rparr>"

definition seenPut :: "put_content \<Rightarrow> string \<Rightarrow> board_snapshot \<Rightarrow> board_snapshot" where
  "seenPut content name S = S\<lparr>bs_layout := (bs_layout S)\<lparr>bl_widgets :=
     map (\<lambda>w. if bw_name w = name then withProps (contentProps content) w else w) (bl_widgets (bs_layout S))\<rparr>\<rparr>"

lemma next_grant:
  assumes "bw_grantState w = nextGrantState (preservesGrant sha256 context content declared existing) content (createBoardDeclaredSummary declared)"
  shows "bw_grantState w \<in> {Granted, GrantPending} \<longrightarrow> declared \<noteq> None \<or> interactiveContent content"
    and "content = PutPlugin kind props \<Longrightarrow> bw_grantState w = GrantNone"
proof -
  show "bw_grantState w \<in> {Granted, GrantPending} \<longrightarrow> declared \<noteq> None \<or> interactiveContent content"
    using assms by (cases declared; cases content)
      (auto simp: nextGrantState_def preservesGrant_def interactiveContent_def createBoardDeclaredSummary_def originsOf_def toolsOf_def split: if_splits)
qed (use assms in \<open>simp add: nextGrantState_def\<close>)

lemma keepOld_Some [simp]: "keepOld (Some v) x = Some v"
  by (simp add: keepOld_def)

lemma put_value:
  fixes parse sha256 ctx params declared existing tabId n gen
  defines "W \<equiv> putWidgetValue sha256 ctx params declared existing tabId n"
  defines "V \<equiv> withProps (contentProps (pa_content params)) (cleared (createBoardDeclaredSummary declared = None) (case existing of Some e \<Rightarrow> assignWidget e W | None \<Rightarrow> W))"
  assumes "normalizeBoardWidgetDeclared parse declared = Inr declared" "pc_instanceId ctx = gen"
    and old: "\<And>e. existing = Some e \<Longrightarrow> \<not> ownedByOther (pa_content params) e \<and> (\<exists>row content gen' identity. rowHolds parse sha256 row content gen' identity e)"
  shows "bw_name V = pa_name params \<and> bw_declared V = declared \<and> bw_contentKind V = contentKind (pa_content params) \<and>
    bw_contentOwner V = Some (contentOwner (pa_content params)) \<and> bw_registeredContentKind V = registeredKind (pa_content params) \<and>
    bw_pluginKind V = contentPluginKind (pa_content params) \<and> bw_props V = contentProps (pa_content params) \<and>
    bw_instanceId V = (case pa_content params of PutPlugin _ _ \<Rightarrow> None | _ \<Rightarrow> Some gen) \<and>
    bw_declaredSummary V = createBoardDeclaredSummary declared \<and>
    bw_grantState V = nextGrantState (preservesGrant sha256 ctx (pa_content params) declared existing) (pa_content params) (createBoardDeclaredSummary declared)"
proof -
  have empty: "createBoardDeclaredSummary declared = None \<longleftrightarrow> declared = None" by (rule canonical_nonempty [OF assms(3)])
  show ?thesis
  proof (cases existing)
    case None
    show ?thesis unfolding V_def W_def None using empty assms(4)
      by (cases "createBoardDeclaredSummary declared")
        (simp_all add: putWidgetValue_def withProps_def cleared_def Let_def split: put_content.splits)
  next
    case (Some e)
    obtain row content gen' identity where rh: "rowHolds parse sha256 row content gen' identity e" using old [OF Some] by blast
    have own: "\<not> ownedByOther (pa_content params) e" using old [OF Some] by blast
    have owner: "contentOwner content = contentOwner (pa_content params)" using rh own unfolding rowHolds_def ownedByOther_def by simp
    have e: "bw_registeredContentKind e = registeredKind content" "bw_pluginKind e = contentPluginKind content"
      "bw_instanceId e = (case content of PutPlugin _ _ \<Rightarrow> None | _ \<Rightarrow> Some gen')" using rh unfolding rowHolds_def by blast+
    have k: "keepOld (registeredKind (pa_content params)) (bw_registeredContentKind e) = registeredKind (pa_content params)"
      "keepOld (contentPluginKind (pa_content params)) (bw_pluginKind e) = contentPluginKind (pa_content params)"
      "keepOld (case pa_content params of PutPlugin _ _ \<Rightarrow> None | _ \<Rightarrow> Some (pc_instanceId ctx)) (bw_instanceId e) =
        (case pa_content params of PutPlugin _ _ \<Rightarrow> None | _ \<Rightarrow> Some (pc_instanceId ctx))"
      using owner unfolding e by (cases "pa_content params"; cases content; simp add: keepOld_def)+
    show ?thesis unfolding V_def W_def Some assms(4) [symmetric] using empty k
      by (cases declared; cases "createBoardDeclaredSummary declared")
        (simp_all add: putWidgetValue_def assignWidget_def withProps_def cleared_def Let_def)
  qed
qed


definition keepsGrant :: "url_parser \<Rightarrow> widget_row \<Rightarrow> widget_row \<Rightarrow> bool" where
  "keepsGrant parse r old \<longleftrightarrow> wr_name old = wr_name r \<and> wr_content_kind old = wr_content_kind r \<and> wr_grant_state old = ''granted'' \<and>
     (wr_content_kind r \<noteq> ''mcp-app'' \<longrightarrow> wr_sha256 r = wr_sha256 old) \<and>
     (\<exists>m m'. parseManifest parse (wr_manifest old) = Inr m \<and> parseManifest parse (wr_manifest r) = Inr m' \<and>
        boardDeclarationIsSubset (pm_declared m') (pm_declared m))"

lemma granted_text: "grantText g = ''granted'' \<longleftrightarrow> g = Granted"
  by (cases g) simp_all

lemma createFields_name [simp]: "wr_name (createBoardWidgetContentFields sha256 params p h v g gen now r) = wr_name r"
  by (cases "pa_content params") (simp_all add: createBoardWidgetContentFields_def Let_def)

lemma putRow_rows:
  assumes "distinct (map wr_name rows)"
  shows "distinct (map wr_name (putRow sha256 params w gen now existing rows))"
    "wr_name ` set (putRow sha256 params w gen now existing rows) = insert (pa_name params) (wr_name ` set rows)"
    "\<forall>r \<in> set (putRow sha256 params w gen now existing rows). if wr_name r = pa_name params
      then (\<exists>r0. wr_name r0 = pa_name params \<and> wr_tab_id r0 = bw_tabId w \<and> wr_title r0 = bw_title w \<and> wr_size_w r0 = bw_sizeW w \<and>
        wr_size_h r0 = bw_sizeH w \<and> wr_position r0 = bw_position w \<and>
        r = createBoardWidgetContentFields sha256 params (bw_presentation w) (bw_heightMode w) (bw_revision w) (bw_grantState w) gen now r0)
      else r \<in> set rows"
proof -
  let ?f = "createBoardWidgetContentFields sha256 params (bw_presentation w) (bw_heightMode w) (bw_revision w) (bw_grantState w) gen now"
  let ?p = "\<lambda>r. r\<lparr>wr_tab_id := bw_tabId w, wr_title := bw_title w, wr_size_w := bw_sizeW w, wr_size_h := bw_sizeH w, wr_position := bw_position w\<rparr>"
  let ?P = "putRow sha256 params w gen now existing rows"
  have m: "map wr_name (updateWhere (\<lambda>r. wr_name r = pa_name params) (\<lambda>r. ?f (?p r)) rows) = map wr_name rows" by (rule updateWhere_map) simp
  have e: "?P = updateWhere (\<lambda>r. wr_name r = pa_name params) (\<lambda>r. ?f (?p r)) rows" if "\<exists>r \<in> set rows. wr_name r = pa_name params"
    using that by (simp add: putRow_def Let_def)
  have n: "\<exists>r0. ?P = rows @ [?f (?p r0)] \<and> wr_name r0 = pa_name params" if "\<not> (\<exists>r \<in> set rows. wr_name r = pa_name params)"
  proof -
    let ?r = "\<lparr>wr_name = pa_name params, wr_tab_id = [], wr_title = None, wr_content_kind = [], wr_html = None,
       wr_descriptor = None, wr_sha256 = [], wr_view_generation = None, wr_revision = 0, wr_size_w = 0, wr_size_h = 0, wr_position = 0,
       wr_manifest = [], wr_grant_state = [], wr_granted_sha = None,
       wr_created_by = (case existing of Some r \<Rightarrow> wr_created_by r | None \<Rightarrow> ''agent''),
       wr_created_at = (case existing of Some r \<Rightarrow> wr_created_at r | None \<Rightarrow> now), wr_updated_at = 0\<rparr>"
    have "?P = rows @ [?f (?p ?r)]" using that by (simp add: putRow_def Let_def)
    moreover have "wr_name ?r = pa_name params" by simp
    ultimately show ?thesis by blast
  qed
  show "distinct (map wr_name ?P)"
  proof (cases "\<exists>r \<in> set rows. wr_name r = pa_name params")
    case False
    from n [OF False] obtain r0 where r0: "?P = rows @ [?f (?p r0)]" "wr_name r0 = pa_name params" by blast
    show ?thesis using False assms unfolding r0(1) by (auto simp: r0(2))
  qed (simp only: e m assms)
  show "wr_name ` set ?P = insert (pa_name params) (wr_name ` set rows)"
  proof (cases "\<exists>r \<in> set rows. wr_name r = pa_name params")
    case True
    then have "pa_name params \<in> wr_name ` set rows" by (metis image_eqI)
    moreover have "set (map wr_name ?P) = set (map wr_name rows)" by (simp only: e [OF True] m)
    ultimately show ?thesis by auto
  next
    case False
    from n [OF False] obtain r0 where r0: "?P = rows @ [?f (?p r0)]" "wr_name r0 = pa_name params" by blast
    show ?thesis unfolding r0(1) by (simp add: r0(2))
  qed
  show "\<forall>r \<in> set ?P. if wr_name r = pa_name params
      then (\<exists>r0. wr_name r0 = pa_name params \<and> wr_tab_id r0 = bw_tabId w \<and> wr_title r0 = bw_title w \<and> wr_size_w r0 = bw_sizeW w \<and>
        wr_size_h r0 = bw_sizeH w \<and> wr_position r0 = bw_position w \<and> r = ?f r0) else r \<in> set rows"
  proof (cases "\<exists>r \<in> set rows. wr_name r = pa_name params")
    case True
    have "\<exists>r0. wr_name r0 = pa_name params \<and> wr_tab_id r0 = bw_tabId w \<and> wr_title r0 = bw_title w \<and> wr_size_w r0 = bw_sizeW w \<and>
        wr_size_h r0 = bw_sizeH w \<and> wr_position r0 = bw_position w \<and> ?f (?p r) = ?f r0" if "wr_name r = pa_name params" for r
      by (rule exI [of _ "?p r"]) (simp add: that)
    then show ?thesis unfolding e [OF True] by (auto simp: updateWhere_def)
  next
    case False
    from n [OF False] obtain r0 where r0: "?P = rows @ [?f (?p r0)]" "wr_name r0 = pa_name params" by blast
    have "\<exists>r1. wr_name r1 = pa_name params \<and> wr_tab_id r1 = bw_tabId w \<and> wr_title r1 = bw_title w \<and> wr_size_w r1 = bw_sizeW w \<and>
        wr_size_h r1 = bw_sizeH w \<and> wr_position r1 = bw_position w \<and> ?f (?p r0) = ?f r1"
      by (rule exI [of _ "?p r0"]) (simp add: r0(2))
    then show ?thesis using False unfolding r0(1) by (auto simp: r0(2))
  qed
qed

lemma placeRow_self: "rowHolds parse sha256 r content gen identity w \<Longrightarrow> rowHolds parse sha256 (placeRow now w r) content gen identity w"
  unfolding placeRow_def by (erule row_moved) (cases w, simp)

lemma placeRow_parts [simp]:
  "wr_name (placeRow now w r) = wr_name r" "wr_content_kind (placeRow now w r) = wr_content_kind r" "wr_sha256 (placeRow now w r) = wr_sha256 r"
  "wr_grant_state (placeRow now w r) = wr_grant_state r" "wr_manifest (placeRow now w r) = wr_manifest r"
  by (simp_all add: placeRow_def)

lemma placeRow_withProps [simp]: "placeRow now (withProps p w) r = placeRow now w r"
  by (simp add: placeRow_def withProps_def)

lemma withProps_parts [simp]:
  "bw_name (withProps p w) = bw_name w" "bw_tabId (withProps p w) = bw_tabId w" "bw_position (withProps p w) = bw_position w"
  by (simp_all add: withProps_def)

section \<open>The request of a put\<close>

lemma put_request:
  assumes "boardHolds parse sha256 rows S" "bs_sessionKey S = key" "originSerialised parse" "requestOk params gen"
    and "storePutWidget parse sha256 key hasSession now gen params rows = Inr (rows', S', name)"
  obtains previous request existing widget ctx where
    "pa_content request = pa_content params" "requestOk request gen" "name = pa_name request" "pa_sessionKey request = key"
    "normalizeBoardWidgetDeclared parse (pa_declared request) = Inr (pa_declared request)"
    "existing = find (\<lambda>r. wr_name r = name) (sb_widgetRows previous)" "mset (sb_widgetRows previous) = mset (sr_widgets rows)"
    "pc_instanceId ctx = gen" "pc_grantedSha256 ctx = Option.bind existing wr_granted_sha"
    "createBoardWidgetPutSnapshot parse sha256 S request ctx = Inr S'"
    "find (\<lambda>w. bw_name w = name) (bl_widgets (bs_layout S')) = Some widget"
    "rows' = updateWidgetLayouts S' now ((upsertTabs previous S' rows)\<lparr>sr_widgets := putRow sha256 request widget gen now existing (sr_widgets rows)\<rparr>)"
proof -
  obtain previous where read: "readStoredBoard parse key rows = Inr previous" "sb_snapshot previous = S"
    "mset (sb_widgetRows previous) = mset (sr_widgets rows)"
    using board_read [OF assms(1)] unfolding assms(2) by metis
  from assms(5) obtain input previous' request existing scope widget where
    p: "normalizeBoardWidgetPutParams parse params key = Inr input" "readStoredBoard parse key rows = Inr previous'"
    "resolveSqliteBoardWidgetPutParams parse (sb_snapshot previous') input (sb_widgetRows previous') = Inr request" "name = pa_name request"
    "existing = find (\<lambda>r. wr_name r = pa_name request) (sb_widgetRows previous')" "grantScopeMatches (pa_content request) existing = Inr scope"
    "createBoardWidgetPutSnapshot parse sha256 (sb_snapshot previous') request
       \<lparr>pc_grantScopeMatches = scope, pc_grantedSha256 = Option.bind existing wr_granted_sha, pc_instanceId = gen\<rparr> = Inr S'"
    "find (\<lambda>w. bw_name w = pa_name request) (bl_widgets (bs_layout S')) = Some widget"
    "rows' = updateWidgetLayouts S' now ((upsertTabs previous' S' rows)\<lparr>sr_widgets := putRow sha256 request widget gen now existing (sr_widgets rows)\<rparr>)"
    by (rule store_put_cases)
  have prev: "previous' = previous" using p(2) read(1) by simp
  obtain d where d: "input = params\<lparr>pa_sessionKey := key, pa_declared := d\<rparr>" "normalizeBoardWidgetDeclared parse (pa_declared params) = Inr d"
    by (rule normalize_put [OF p(1)])
  have r: "request = params\<lparr>pa_sessionKey := key, pa_declared := d, pa_name := pa_name request\<rparr>" using resolve_sqlite_keeps [OF p(3)] unfolding d(1) .
  have parts: "pa_content request = pa_content params" "pa_sessionKey request = key" "pa_declared request = d"
    "pa_generatedIdentity request = pa_generatedIdentity params" by (subst r, simp)+
  show ?thesis
  proof (rule that [OF parts(1)])
    show "requestOk request gen" using assms(4) by (simp add: requestOk_def parts)
    show "normalizeBoardWidgetDeclared parse (pa_declared request) = Inr (pa_declared request)" unfolding parts(3) by (rule declared_idem [OF assms(3) d(2)])
    show "createBoardWidgetPutSnapshot parse sha256 S request
       \<lparr>pc_grantScopeMatches = scope, pc_grantedSha256 = Option.bind existing wr_granted_sha, pc_instanceId = gen\<rparr> = Inr S'"
      using p(7) unfolding prev read(2) .
  qed (use p(4,5,8,9) read(3) parts(2) in \<open>simp_all add: prev\<close>)
qed

text \<open>The widget put, with the content that was put.\<close>

definition putHolds :: "(string \<Rightarrow> string) \<Rightarrow> put_context \<Rightarrow> put_params \<Rightarrow> board_widget option \<Rightarrow> board_widget \<Rightarrow> bool" where
  "putHolds sha256 ctx request existing v \<longleftrightarrow>
     bw_name v = pa_name request \<and> bw_declared v = pa_declared request \<and> bw_contentKind v = contentKind (pa_content request) \<and>
     bw_contentOwner v = Some (contentOwner (pa_content request)) \<and> bw_registeredContentKind v = registeredKind (pa_content request) \<and>
     bw_pluginKind v = contentPluginKind (pa_content request) \<and> bw_props v = contentProps (pa_content request) \<and>
     bw_instanceId v = (case pa_content request of PutPlugin _ _ \<Rightarrow> None | _ \<Rightarrow> Some (pc_instanceId ctx)) \<and>
     bw_declaredSummary v = createBoardDeclaredSummary (pa_declared request) \<and>
     bw_grantState v = nextGrantState (preservesGrant sha256 ctx (pa_content request) (pa_declared request) existing)
       (pa_content request) (createBoardDeclaredSummary (pa_declared request))"

lemma putHolds_still:
  assumes "still v = still u"
  shows "putHolds sha256 ctx request existing (withProps p v) = putHolds sha256 ctx request existing (withProps p u)"
proof -
  have "v = u\<lparr>bw_tabId := bw_tabId v, bw_position := bw_position v\<rparr>" by (rule still_eq [OF assms])
  then have "putHolds sha256 ctx request existing (withProps p v) =
      putHolds sha256 ctx request existing (withProps p (u\<lparr>bw_tabId := bw_tabId v, bw_position := bw_position v\<rparr>))" by (rule arg_cong)
  also have "\<dots> = putHolds sha256 ctx request existing (withProps p u)" by (simp add: putHolds_def withProps_def)
  finally show ?thesis .
qed


lemma put_result:
  assumes "boardHolds parse sha256 rows S" "createBoardWidgetPutSnapshot parse sha256 S request ctx = Inr S'"
    and norm: "normalizeBoardWidgetDeclared parse (pa_declared request) = Inr (pa_declared request)"
  obtains "board_ok (bs_layout S')" "board_normal (bs_layout S')" "grid_sorted (bs_layout S')"
    "bs_revision S' = bs_revision S + 1" "bs_sessionKey S' = pa_sessionKey request" "bl_tabs (bs_layout S') = bl_tabs (ensureMainTab (bs_layout S))"
    "bw_name ` set (bl_widgets (bs_layout S')) = insert (pa_name request) (bw_name ` set (bl_widgets (bs_layout S)))"
    "\<forall>v \<in> set (bl_widgets (bs_layout S')). bw_name v \<noteq> pa_name request \<longrightarrow> (\<exists>old \<in> set (bl_widgets (bs_layout S)). still old = still v)"
    "\<forall>v \<in> set (bl_widgets (bs_layout S')). bw_name v = pa_name request \<longrightarrow>
      putHolds sha256 ctx request (find (\<lambda>w. bw_name w = pa_name request) (bl_widgets (bs_layout S))) (withProps (contentProps (pa_content request)) v)"
    "\<forall>w. find (\<lambda>w. bw_name w = pa_name request) (bl_widgets (bs_layout S)) = Some w \<longrightarrow> \<not> ownedByOther (pa_content request) w"
proof -
  note h = assms(1) [unfolded boardHolds_def]
  have S: "board_ok (bs_layout S)" "board_normal (bs_layout S)" "grid_sorted (bs_layout S)" using h by blast+
  let ?existing = "find (\<lambda>w. bw_name w = pa_name request) (bl_widgets (bs_layout S))"
  obtain declared existing tabId where
    e: "existing = ?existing"
    and d: "case pa_content request of PutPlugin _ _ \<Rightarrow> declared = None | _ \<Rightarrow> normalizeBoardWidgetDeclared parse (pa_declared request) = Inr declared"
    and own: "\<forall>w. existing = Some w \<longrightarrow> \<not> ownedByOther (pa_content request) w"
    and result: "board_ok (bs_layout S')" "board_normal (bs_layout S')" "grid_sorted (bs_layout S')"
    "bs_revision S' = bs_revision S + 1" "bs_sessionKey S' = pa_sessionKey request"
    "bl_tabs (bs_layout S') = bl_tabs (ensureMainTab (bs_layout S))"
    "bw_name ` set (bl_widgets (bs_layout S')) = insert (pa_name request) (bw_name ` set (bl_widgets (bs_layout S)))"
    "\<forall>v \<in> set (bl_widgets (bs_layout S')). bw_name v \<noteq> pa_name request \<longrightarrow> (\<exists>old \<in> set (bl_widgets (bs_layout S)). still old = still v)"
    and new: "\<forall>v \<in> set (bl_widgets (bs_layout S')). bw_name v = pa_name request \<longrightarrow>
      (\<exists>n. still v = still (cleared (createBoardDeclaredSummary declared = None)
        (case existing of Some e \<Rightarrow> assignWidget e (putWidgetValue sha256 ctx request declared existing tabId n)
         | None \<Rightarrow> putWidgetValue sha256 ctx request declared existing tabId n)))"
    by (rule put_settled [OF assms(2) S])
  have "validatePluginContent request" using assms(2) by (auto simp: createBoardWidgetPutSnapshot_def split: if_splits)
  then have decl: "declared = pa_declared request" using d norm by (auto simp: validatePluginContent_def split: put_content.splits)
  have old: "\<not> ownedByOther (pa_content request) e \<and> (\<exists>row content gen' identity. rowHolds parse sha256 row content gen' identity e)"
    if "existing = Some e" for e
  proof
    show "\<not> ownedByOther (pa_content request) e" using own that by blast
    have m: "e \<in> set (bl_widgets (bs_layout S))" using that e by (auto simp: find_Some_iff)
    then have "bw_name e \<in> wr_name ` set (sr_widgets rows)" using h unfolding widgetsHold_def by blast
    then obtain r where "r \<in> set (sr_widgets rows)" "wr_name r = bw_name e" by (metis imageE)
    with m show "\<exists>row content gen' identity. rowHolds parse sha256 row content gen' identity e" using h unfolding widgetsHold_def by metis
  qed
  have "putHolds sha256 ctx request existing (withProps (contentProps (pa_content request)) v)"
    if v: "v \<in> set (bl_widgets (bs_layout S'))" "bw_name v = pa_name request" for v
  proof -
    let ?W = "\<lambda>n. putWidgetValue sha256 ctx request declared existing tabId n"
    obtain n where n: "still v = still (cleared (createBoardDeclaredSummary declared = None)
        (case existing of Some e \<Rightarrow> assignWidget e (?W n) | None \<Rightarrow> ?W n))" using new v by blast
    show ?thesis unfolding putHolds_still [OF n] using put_value [OF norm refl old] unfolding putHolds_def decl by blast
  qed
  with that result own show ?thesis unfolding e by blast
qed


lemma find_mset:
  assumes "mset xs = mset ys" "distinct (map f ys)"
  shows "find (\<lambda>x. f x = k) xs = find (\<lambda>x. f x = k) ys"
proof -
  have d: "distinct (map f xs)" using arg_cong [OF assms(1), of "image_mset f"] assms(2)
    by (metis mset_map mset_eq_imp_distinct_iff)
  show ?thesis
  proof (cases "find (\<lambda>x. f x = k) ys")
    case None
    then have "find (\<lambda>x. f x = k) xs = None" using mset_eq_setD [OF assms(1)] by (simp add: find_None_iff)
    with None show ?thesis by simp
  next
    case (Some y)
    then have "y \<in> set xs" "f y = k" using mset_eq_setD [OF assms(1)] by (auto simp: find_Some_iff)
    with find_key [OF d \<open>y \<in> set xs\<close>] Some show ?thesis by simp
  qed
qed


lemma map_placed:
  "wr_name ` (set (map (\<lambda>r. case find (\<lambda>w. bw_name w = wr_name r) ws of Some w \<Rightarrow> placeRow now w r | None \<Rightarrow> r) rs)) = wr_name ` set rs"
  "map wr_name (map (\<lambda>r. case find (\<lambda>w. bw_name w = wr_name r) ws of Some w \<Rightarrow> placeRow now w r | None \<Rightarrow> r) rs) = map wr_name rs"
proof -
  show m: "map wr_name (map (\<lambda>r. case find (\<lambda>w. bw_name w = wr_name r) ws of Some w \<Rightarrow> placeRow now w r | None \<Rightarrow> r) rs) = map wr_name rs"
    by (simp split: option.split)
  show "wr_name ` (set (map (\<lambda>r. case find (\<lambda>w. bw_name w = wr_name r) ws of Some w \<Rightarrow> placeRow now w r | None \<Rightarrow> r) rs)) = wr_name ` set rs"
    using arg_cong [OF m, of set] by (simp only: set_map)
qed

lemma put_rowHolds:
  assumes "requestOk request gen" "normalizeBoardWidgetDeclared parse (pa_declared request) = Inr (pa_declared request)" "pc_instanceId ctx = gen"
    and v: "putHolds sha256 ctx request e v"
    and r: "wr_name r = pa_name request" "wr_tab_id r = bw_tabId v" "wr_title r = bw_title v" "wr_size_w r = bw_sizeW v"
      "wr_size_h r = bw_sizeH v" "wr_position r = bw_position v"
  shows "rowHolds parse sha256 (createBoardWidgetContentFields sha256 request (bw_presentation v) (bw_heightMode v) (bw_revision v) (bw_grantState v) gen now r)
    (pa_content request) gen (putIdentity request) v"
proof -
  note p = v [unfolded putHolds_def]
  have g: "bw_grantState v = nextGrantState (preservesGrant sha256 ctx (pa_content request) (pa_declared request) e) (pa_content request)
      (createBoardDeclaredSummary (pa_declared request))" using p by blast
  show ?thesis
  proof (rule row_put [OF assms(1,2)])
    show "bw_grantState v \<in> {Granted, GrantPending} \<longrightarrow> bw_declared v \<noteq> None \<or> interactiveContent (pa_content request)"
      using next_grant(1) [OF g] p by simp
    show "bw_grantState v = GrantNone" if "pa_content request = PutPlugin kind props" for kind props by (rule next_grant(2) [OF g that])
  qed (use p r assms(3) in \<open>simp_all split: put_content.splits\<close>)
qed

lemma withProps_fields:
  "bw_presentation (withProps p w) = bw_presentation w" "bw_heightMode (withProps p w) = bw_heightMode w" "bw_revision (withProps p w) = bw_revision w"
  "bw_grantState (withProps p w) = bw_grantState w" "bw_title (withProps p w) = bw_title w" "bw_sizeW (withProps p w) = bw_sizeW w"
  "bw_sizeH (withProps p w) = bw_sizeH w"
  by (simp_all add: withProps_def)

lemma put_rows:
  assumes "boardHolds parse sha256 rows S" "bs_sessionKey S = key" "originSerialised parse" "requestOk params gen"
    and "storePutWidget parse sha256 key hasSession now gen params rows = Inr (rows', S', name)"
  obtains request ctx existing where "pa_content request = pa_content params" "name = pa_name request" "bs_sessionKey S' = key"
    "normalizeBoardWidgetDeclared parse (pa_declared request) = Inr (pa_declared request)" "createBoardWidgetPutSnapshot parse sha256 S request ctx = Inr S'"
    "pc_grantedSha256 ctx = Option.bind existing wr_granted_sha"
    "existing = find (\<lambda>r. wr_name r = name) (sr_widgets rows)"
    "tabsHold (sr_tabs rows') S'" "distinct (map wr_name (sr_widgets rows'))"
    "wr_name ` set (sr_widgets rows') = bw_name ` set (bl_widgets (bs_layout S'))"
    "\<forall>r \<in> set (sr_widgets rows'). \<exists>w \<in> set (bl_widgets (bs_layout S')). bw_name w = wr_name r \<and>
      (if wr_name r = name
       then rowHolds parse sha256 r (pa_content params) gen (putIdentity request) (withProps (contentProps (pa_content params)) w)
       else \<exists>r0 \<in> set (sr_widgets rows). r = placeRow now w r0 \<and> (\<exists>content gen identity. rowHolds parse sha256 r content gen identity w))"
proof -
  note h = assms(1) [unfolded boardHolds_def]
  obtain previous request existing widget ctx where q: "pa_content request = pa_content params" "requestOk request gen" "name = pa_name request"
    "pa_sessionKey request = key" "normalizeBoardWidgetDeclared parse (pa_declared request) = Inr (pa_declared request)"
    "existing = find (\<lambda>r. wr_name r = name) (sb_widgetRows previous)" "mset (sb_widgetRows previous) = mset (sr_widgets rows)"
    "pc_instanceId ctx = gen" "pc_grantedSha256 ctx = Option.bind existing wr_granted_sha"
    "createBoardWidgetPutSnapshot parse sha256 S request ctx = Inr S'"
    "find (\<lambda>w. bw_name w = name) (bl_widgets (bs_layout S')) = Some widget"
    "rows' = updateWidgetLayouts S' now ((upsertTabs previous S' rows)\<lparr>sr_widgets := putRow sha256 request widget gen now existing (sr_widgets rows)\<rparr>)"
    by (rule put_request [OF assms])
  let ?ws = "bl_widgets (bs_layout S)" and ?ws' = "bl_widgets (bs_layout S')" and ?P = "putRow sha256 request widget gen now existing (sr_widgets rows)"
  have ok: "board_ok (bs_layout S')" and key: "bs_sessionKey S' = pa_sessionKey request"
    and tabs: "bl_tabs (bs_layout S') = bl_tabs (ensureMainTab (bs_layout S))"
    and nms: "bw_name ` set ?ws' = insert (pa_name request) (bw_name ` set ?ws)"
    and untouched: "\<forall>v \<in> set ?ws'. bw_name v \<noteq> pa_name request \<longrightarrow> (\<exists>old \<in> set ?ws. still old = still v)"
    and new: "\<forall>v \<in> set ?ws'. bw_name v = pa_name request \<longrightarrow>
      putHolds sha256 ctx request (find (\<lambda>w. bw_name w = pa_name request) ?ws) (withProps (contentProps (pa_content request)) v)"
    by (rule put_result [OF assms(1) q(10,5)]; assumption)+
  have wh: "widgetsHold parse sha256 (sr_widgets rows) ?ws" and th: "tabsHold (sr_tabs rows) S" using h by blast+
  have names: "distinct (map bw_name ?ws')" and ids: "distinct (map bt_tabId (bl_tabs (bs_layout S')))" using ok unfolding board_ok_def by blast+
  have dr: "distinct (map wr_name (sr_widgets rows))" using wh unfolding widgetsHold_def by blast
  note put = putRow_rows [OF dr, of sha256 request widget gen now existing]
  have placed: "sr_widgets rows' = map (\<lambda>r. case find (\<lambda>w. bw_name w = wr_name r) ?ws' of Some w \<Rightarrow> placeRow now w r | None \<Rightarrow> r) ?P"
    unfolding q(12) by (simp add: updateWidgetLayouts_def widgets_placed [OF names])
  have same: "bw_name w = bw_name v \<Longrightarrow> w = v" if "w \<in> set ?ws'" "v \<in> set ?ws'" for w v
    using names that unfolding distinct_map by (blast dest: inj_onD)
  have all: "wr_name ` set ?P = bw_name ` set ?ws'" unfolding put(2) nms using wh unfolding widgetsHold_def by blast
  have row: "\<exists>w \<in> set ?ws'. bw_name w = wr_name r \<and>
      (if wr_name r = name
       then rowHolds parse sha256 r (pa_content params) gen (putIdentity request) (withProps (contentProps (pa_content params)) w)
       else \<exists>r0 \<in> set (sr_widgets rows). r = placeRow now w r0 \<and> (\<exists>content gen identity. rowHolds parse sha256 r content gen identity w))"
    if r: "r \<in> set (sr_widgets rows')" for r
  proof -
    obtain r0 where r0: "r0 \<in> set ?P" "r = (case find (\<lambda>w. bw_name w = wr_name r0) ?ws' of Some w \<Rightarrow> placeRow now w r0 | None \<Rightarrow> r0)"
      using r unfolding placed set_map by (rule imageE)
    have "wr_name r0 \<in> bw_name ` set ?ws'" using r0(1) all by blast
    then obtain w where w: "w \<in> set ?ws'" "bw_name w = wr_name r0" by (metis imageE)
    have r: "r = placeRow now w r0" using r0(2) find_key [OF names w(1)] by (simp add: w(2))
    show ?thesis
    proof (cases "wr_name r0 = name")
      case True
      let ?v = "withProps (contentProps (pa_content request)) w"
      have pw: "putHolds sha256 ctx request (find (\<lambda>w. bw_name w = pa_name request) ?ws) ?v" using new w True q(3) by simp
      have "widget = w" using q(11) w True find_key [OF names w(1)] by simp
      then have "\<exists>r1. wr_name r1 = pa_name request \<and> wr_tab_id r1 = bw_tabId w \<and> wr_title r1 = bw_title w \<and> wr_size_w r1 = bw_sizeW w \<and>
        wr_size_h r1 = bw_sizeH w \<and> wr_position r1 = bw_position w \<and>
        r0 = createBoardWidgetContentFields sha256 request (bw_presentation w) (bw_heightMode w) (bw_revision w) (bw_grantState w) gen now r1"
        using bspec [OF put(3) r0(1)] True [unfolded q(3)] by simp
      then obtain r1 where r1: "wr_name r1 = pa_name request" "wr_tab_id r1 = bw_tabId w" "wr_title r1 = bw_title w" "wr_size_w r1 = bw_sizeW w"
        "wr_size_h r1 = bw_sizeH w" "wr_position r1 = bw_position w"
        "r0 = createBoardWidgetContentFields sha256 request (bw_presentation w) (bw_heightMode w) (bw_revision w) (bw_grantState w) gen now r1"
        by (elim exE conjE)
      have "rowHolds parse sha256 r0 (pa_content request) gen (putIdentity request) ?v"
        using put_rowHolds [OF q(2,5,8) pw, of r1 now] r1 by (simp add: withProps_fields)
      from placeRow_self [OF this, of now] have "rowHolds parse sha256 r (pa_content request) gen (putIdentity request) ?v" unfolding r by simp
      then show ?thesis using w True unfolding q(1) r by auto
    next
      case False
      then have old: "r0 \<in> set (sr_widgets rows)" using put(3) r0(1) q(3) by metis
      obtain o' where o: "o' \<in> set ?ws" "still o' = still w" using untouched w False q(3) by metis
      obtain content gen' identity where rh: "rowHolds parse sha256 r0 content gen' identity o'"
        using wh old o(1) still_name [OF o(2)] w(2) unfolding widgetsHold_def by metis
      have "w = o'\<lparr>bw_tabId := bw_tabId w, bw_position := bw_position w\<rparr>" by (rule still_eq [OF o(2) [symmetric]])
      then have "w = o'\<lparr>bw_tabId := bw_tabId w, bw_title := bw_title w, bw_sizeW := bw_sizeW w, bw_sizeH := bw_sizeH w, bw_position := bw_position w\<rparr>"
        by (cases w; cases o') simp
      from row_moved [OF rh this, of now] have "rowHolds parse sha256 r content gen' identity w" unfolding r placeRow_def .
      then show ?thesis using w False old unfolding r by auto
    qed
  qed
  show ?thesis
  proof (rule that [OF q(1,3) _ q(5,10,9)])
    show "bs_sessionKey S' = key" using key q(4) by simp
    show "existing = find (\<lambda>r. wr_name r = name) (sr_widgets rows)" unfolding q(6) by (rule find_mset [OF q(7) dr])
    have "bt_tabId ` set (bl_tabs (bs_layout S)) \<subseteq> bt_tabId ` set (bl_tabs (bs_layout S'))" unfolding tabs by (simp add: ensureMainTab_def)
    then have "tabsHold (sr_tabs (upsertTabs previous S' rows)) S'" by (rule tabs_upserted [OF th ids])
    then show "tabsHold (sr_tabs rows') S'" unfolding q(12) by (simp add: updateWidgetLayouts_def)
    show "distinct (map wr_name (sr_widgets rows'))" unfolding placed map_placed(2) by (rule put(1))
    show "wr_name ` set (sr_widgets rows') = bw_name ` set ?ws'" unfolding placed map_placed(1) by (rule all)
  qed (use row in blast)
qed


lemma withProps_place: "bw_name (withProps p w) = bw_name w" "bw_tabId (withProps p w) = bw_tabId w" "bw_position (withProps p w) = bw_position w"
  by (simp_all add: withProps_def)

lemma seenPut_parts:
  "bs_revision (seenPut c name S) = bs_revision S" "bs_sessionKey (seenPut c name S) = bs_sessionKey S"
  "bl_tabs (bs_layout (seenPut c name S)) = bl_tabs (bs_layout S)"
  "bl_widgets (bs_layout (seenPut c name S)) =
     map (\<lambda>w. if bw_name w = name then withProps (contentProps c) w else w) (bl_widgets (bs_layout S))"
  by (simp_all add: seenPut_def)

lemma put_holds:
  assumes "boardHolds parse sha256 rows S" "bs_sessionKey S = key" "originSerialised parse" "requestOk params gen"
    and "storePutWidget parse sha256 key hasSession now gen params rows = Inr (rows', S', name)"
  shows "boardHolds parse sha256 rows' (seenPut (pa_content params) name S')" "bs_sessionKey S' = key"
proof -
  note h = assms(1) [unfolded boardHolds_def]
  obtain request ctx existing where p: "pa_content request = pa_content params" "name = pa_name request" "bs_sessionKey S' = key"
    "normalizeBoardWidgetDeclared parse (pa_declared request) = Inr (pa_declared request)" "createBoardWidgetPutSnapshot parse sha256 S request ctx = Inr S'"
    "tabsHold (sr_tabs rows') S'" "distinct (map wr_name (sr_widgets rows'))"
    "wr_name ` set (sr_widgets rows') = bw_name ` set (bl_widgets (bs_layout S'))"
    "\<forall>r \<in> set (sr_widgets rows'). \<exists>w \<in> set (bl_widgets (bs_layout S')). bw_name w = wr_name r \<and>
      (if wr_name r = name
       then rowHolds parse sha256 r (pa_content params) gen (putIdentity request) (withProps (contentProps (pa_content params)) w)
       else \<exists>r0 \<in> set (sr_widgets rows). r = placeRow now w r0 \<and> (\<exists>content gen identity. rowHolds parse sha256 r content gen identity w))"
    by (rule put_rows [OF assms])
  show "bs_sessionKey S' = key" by (rule p(3))
  let ?ws' = "bl_widgets (bs_layout S')" and ?T = "seenPut (pa_content params) name S'"
  have ok: "board_ok (bs_layout S')" "board_normal (bs_layout S')" "grid_sorted (bs_layout S')" and rev: "bs_revision S' = bs_revision S + 1"
    and nms: "bw_name ` set ?ws' = insert (pa_name request) (bw_name ` set (bl_widgets (bs_layout S)))"
    by (rule put_result [OF assms(1) p(5,4)]; assumption)+
  have same: "map f (bl_widgets (bs_layout ?T)) = map f ?ws'" if "\<And>w. f (withProps (contentProps (pa_content params)) w) = f w" for f :: "board_widget \<Rightarrow> 'c"
    by (simp add: seenPut_parts that)
  have tabs: "bl_tabs (bs_layout ?T) = bl_tabs (bs_layout S')" by (rule seenPut_parts)
  have nm: "map bw_name (bl_widgets (bs_layout ?T)) = map bw_name ?ws'" by (rule same) (rule withProps_place)
  have place: "map (\<lambda>w. (bw_tabId w, bw_position w)) (bl_widgets (bs_layout ?T)) = map (\<lambda>w. (bw_tabId w, bw_position w)) ?ws'"
    "map bw_tabId (bl_widgets (bs_layout ?T)) = map bw_tabId ?ws'" by (rule same, simp only: withProps_place)+
  have names: "distinct (map bw_name ?ws')" using ok(1) unfolding board_ok_def by blast
  have "?ws' \<noteq> []" using nms by auto
  then have some: "bl_tabs (bs_layout S') \<noteq> []" using ok(1) unfolding board_ok_def by (cases ?ws') auto
  have "widgetsHold parse sha256 (sr_widgets rows') (bl_widgets (bs_layout ?T))"
  proof (rule widgetsHoldI [OF p(7)])
    have "set (map bw_name (bl_widgets (bs_layout ?T))) = set (map bw_name ?ws')" by (simp only: nm)
    then show "wr_name ` set (sr_widgets rows') = bw_name ` set (bl_widgets (bs_layout ?T))" unfolding p(8) set_map by (rule sym)
    show "distinct (map bw_name (bl_widgets (bs_layout ?T)))" unfolding nm by (rule names)
    fix r assume r: "r \<in> set (sr_widgets rows')"
    from bspec [OF p(9) r] obtain w where w: "w \<in> set ?ws'" "bw_name w = wr_name r"
      "if wr_name r = name then rowHolds parse sha256 r (pa_content params) gen (putIdentity request) (withProps (contentProps (pa_content params)) w)
       else \<exists>r0 \<in> set (sr_widgets rows). r = placeRow now w r0 \<and> (\<exists>content gen identity. rowHolds parse sha256 r content gen identity w)" by blast
    let ?w = "if bw_name w = name then withProps (contentProps (pa_content params)) w else w"
    have "?w \<in> set (bl_widgets (bs_layout ?T))" unfolding seenPut_parts set_map by (rule image_eqI [OF refl w(1)])
    moreover have "bw_name ?w = wr_name r" using w(2) by (simp add: withProps_place)
    moreover have "\<exists>content gen identity. rowHolds parse sha256 r content gen identity ?w" using w(2,3) by (cases "wr_name r = name") auto
    ultimately show "\<exists>w \<in> set (bl_widgets (bs_layout ?T)). bw_name w = wr_name r \<and> (\<exists>content gen identity. rowHolds parse sha256 r content gen identity w)"
      by blast
  qed
  moreover have "tabsHold (sr_tabs rows') ?T" using p(6) unfolding tabsHold_def seenPut_parts .
  moreover have "board_ok (bs_layout ?T)" using ok(1) board_ok_same [OF tabs nm place(2)] by blast
  moreover have "board_normal (bs_layout ?T)" using ok(2) board_normal_same [OF tabs place(1)] by blast
  moreover have "grid_sorted (bs_layout ?T)" using ok(3) grid_sorted_same [OF tabs place(1)] by blast
  ultimately show "boardHolds parse sha256 rows' ?T" using h some rev unfolding boardHolds_def seenPut_parts by simp
qed

lemma owned_kind: "contentOwner c = contentOwner d \<Longrightarrow> contentKind c = contentKind d"
  by (cases c; cases d) simp_all

text \<open>Whatever is granted after a put was granted before it.\<close>

lemma put_grants:
  assumes "boardHolds parse sha256 rows S" "bs_sessionKey S = key" "originSerialised parse" "requestOk params gen"
    and "storePutWidget parse sha256 key hasSession now gen params rows = Inr (rows', S', name)"
    and r: "r \<in> set (sr_widgets rows')" "wr_grant_state r = ''granted''"
  shows "\<exists>old \<in> set (sr_widgets rows). keepsGrant parse r old"
proof -
  note h = assms(1) [unfolded boardHolds_def]
  let ?ws = "bl_widgets (bs_layout S)"
  obtain request ctx existing where p: "pa_content request = pa_content params" "name = pa_name request" "bs_sessionKey S' = key"
    "normalizeBoardWidgetDeclared parse (pa_declared request) = Inr (pa_declared request)" "createBoardWidgetPutSnapshot parse sha256 S request ctx = Inr S'"
    "pc_grantedSha256 ctx = Option.bind existing wr_granted_sha" "existing = find (\<lambda>r. wr_name r = name) (sr_widgets rows)"
    "\<forall>r \<in> set (sr_widgets rows'). \<exists>w \<in> set (bl_widgets (bs_layout S')). bw_name w = wr_name r \<and>
      (if wr_name r = name
       then rowHolds parse sha256 r (pa_content params) gen (putIdentity request) (withProps (contentProps (pa_content params)) w)
       else \<exists>r0 \<in> set (sr_widgets rows). r = placeRow now w r0 \<and> (\<exists>content gen identity. rowHolds parse sha256 r content gen identity w))"
    by (rule put_rows [OF assms(1-5)])
  have wh: "widgetsHold parse sha256 (sr_widgets rows) ?ws" using h by blast
  obtain w where w: "w \<in> set (bl_widgets (bs_layout S'))" "bw_name w = wr_name r"
      "if wr_name r = name then rowHolds parse sha256 r (pa_content params) gen (putIdentity request) (withProps (contentProps (pa_content params)) w)
       else \<exists>r0 \<in> set (sr_widgets rows). r = placeRow now w r0 \<and> (\<exists>content gen identity. rowHolds parse sha256 r content gen identity w)"
    using bspec [OF p(8) r(1)] by blast
  show ?thesis
  proof (cases "wr_name r = name")
    case False
    then obtain r0 content gen' identity where r0: "r0 \<in> set (sr_widgets rows)" "r = placeRow now w r0" "rowHolds parse sha256 r content gen' identity w"
      using w(3) by auto
    from row_manifest [OF r0(3)] have "keepsGrant parse r r0" using r(2) unfolding r0(2) by (simp add: keepsGrant_def subset_refl)
    with r0(1) show ?thesis by blast
  next
    case True
    let ?v = "withProps (contentProps (pa_content params)) w"
    have rh: "rowHolds parse sha256 r (pa_content params) gen (putIdentity request) ?v" using w(3) True by simp
    let ?e = "find (\<lambda>w. bw_name w = pa_name request) ?ws"
    have new: "\<forall>v \<in> set (bl_widgets (bs_layout S')). bw_name v = pa_name request \<longrightarrow>
        putHolds sha256 ctx request ?e (withProps (contentProps (pa_content request)) v)"
      and own: "\<forall>w. ?e = Some w \<longrightarrow> \<not> ownedByOther (pa_content request) w"
      by (rule put_result [OF assms(1) p(5,4)]; assumption)+
    have v: "putHolds sha256 ctx request ?e ?v" using new w True p(1,2) by simp
    have "grantText (bw_grantState ?v) = ''granted''" using rh r(2) unfolding rowHolds_def by simp
    then have g: "bw_grantState ?v = Granted" by (simp add: granted_text)
    with v have keep: "preservesGrant sha256 ctx (pa_content params) (pa_declared request) ?e" unfolding putHolds_def p(1) by (metis next_Granted)
    then obtain e where e: "?e = Some e" "bw_grantState e = Granted"
      "frozenBytes (pa_content params) = None \<or> map_option sha256 (frozenBytes (pa_content params)) = pc_grantedSha256 ctx"
      "boardDeclarationIsSubset (pa_declared request) (bw_declared e)"
      unfolding preservesGrant_def by (auto split: option.splits)
    have em: "e \<in> set ?ws" "bw_name e = name" using e(1) p(2) by (auto simp: find_Some_iff)
    have "name \<in> wr_name ` set (sr_widgets rows)" using wh em unfolding widgetsHold_def by blast
    then obtain old where old: "old \<in> set (sr_widgets rows)" "wr_name old = name" by (metis imageE)
    obtain content gen' identity where oh: "rowHolds parse sha256 old content gen' identity e" using wh old em unfolding widgetsHold_def by metis
    have dr: "distinct (map wr_name (sr_widgets rows))" using wh unfolding widgetsHold_def by blast
    have ex: "existing = Some old" unfolding p(7) using find_key [OF dr old(1)] old(2) by simp
    have owner: "contentOwner content = contentOwner (pa_content params)"
      using own e(1) p(1) oh unfolding ownedByOther_def rowHolds_def by auto
    have sha: "wr_granted_sha old = Some (wr_sha256 old)" "wr_grant_state old = ''granted''" using oh e(2) unfolding rowHolds_def by simp_all
    have kinds: "wr_content_kind old = kindText (contentKind content)" "wr_content_kind r = kindText (contentKind (pa_content params))"
      "wr_sha256 r = sha256 (digestedText (pa_content params))" using oh rh unfolding rowHolds_def by simp_all
    have plug: "\<not> (\<exists>kind props. pa_content params = PutPlugin kind props)" using v g unfolding putHolds_def p(1) by (auto simp: nextGrantState_def)
    have "wr_content_kind r \<noteq> ''mcp-app'' \<Longrightarrow> wr_sha256 r = wr_sha256 old"
      using e(3) sha(1) plug unfolding p(6) ex kinds(2,3) by (cases "pa_content params") simp_all
    moreover have "parseManifest parse (wr_manifest old) = Inr (rowManifest content gen' identity e)" by (rule row_manifest [OF oh])
    moreover have "parseManifest parse (wr_manifest r) = Inr (rowManifest (pa_content params) gen (putIdentity request) ?v)" by (rule row_manifest [OF rh])
    moreover have "bw_declared ?v = pa_declared request" using v unfolding putHolds_def by blast
    ultimately have "keepsGrant parse r old" using old(2) True sha(2) kinds owned_kind [OF owner] e(4) by (simp add: keepsGrant_def manifestOf_def)
    with old(1) show ?thesis by blast
  qed
qed


section \<open>Arranging a stored board\<close>

text \<open>The height mode an operation, or a batch of them, leaves a widget of the given name.\<close>

definition heightBy :: "string \<Rightarrow> height_mode option \<Rightarrow> board_op \<Rightarrow> height_mode option" where
  "heightBy name h op =
     (case op of
        WidgetResize n _ _ m \<Rightarrow> if n = name then Some (case m of Some m \<Rightarrow> m | None \<Rightarrow> FixedHeight) else h
      | _ \<Rightarrow> h)"

definition heightAfter :: "board_op list \<Rightarrow> string \<Rightarrow> height_mode option \<Rightarrow> height_mode option" where
  "heightAfter ops name h = foldl (heightBy name) h ops"

abbreviation heightOf :: "board_widget \<Rightarrow> board_widget \<times> height_mode option" where
  "heightOf w \<equiv> (bw_core w, bw_heightMode w)"

lemma op_height:
  assumes "distinct (map bw_name (bl_widgets layout))" "applyBoardOp op layout = Inr layout'" "w \<in> set (bl_widgets layout')"
  shows "\<exists>w' \<in> set (bl_widgets layout). bw_core w = bw_core w' \<and> bw_heightMode w = heightBy (bw_name w') (bw_heightMode w') op"
proof (cases op)
  case (TabDelete tabId)
  then show ?thesis using assms(2,3) by (fastforce simp: heightBy_def deleteTab_def Let_def split: sum.splits list.splits if_splits)
next
  case (WidgetMove name tabId position after)
  show ?thesis
  proof (cases rule: require_widget_cases [of layout name])
    case (2 i)
    then obtain target where m: "moveWidget i target position after layout = Inr layout'" using assms(2) WidgetMove by auto
    have "mset (map heightOf (bl_widgets layout')) = mset (map heightOf (bl_widgets layout))" by (rule moved_mset [OF m 2(2)]) simp_all
    from mset_eq_setD [OF this] have "heightOf ` set (bl_widgets layout') = heightOf ` set (bl_widgets layout)" by simp
    then have "heightOf w \<in> heightOf ` set (bl_widgets layout)" using assms(3) by blast
    then obtain w' where "w' \<in> set (bl_widgets layout)" "heightOf w = heightOf w'" by (rule imageE)
    then show ?thesis by (auto simp: heightBy_def WidgetMove)
  qed (use assms(2) in \<open>simp add: WidgetMove\<close>)
next
  case (WidgetResize name a b m)
  show ?thesis
  proof (cases rule: require_widget_cases [of layout name])
    case (2 i)
    let ?w = "(bl_widgets layout ! i)\<lparr>bw_sizeW := clampInteger a 1 12, bw_sizeH := clampInteger b 1 20,
      bw_heightMode := Some (case m of Some m \<Rightarrow> m | None \<Rightarrow> FixedHeight)\<rparr>"
    have "bl_widgets layout' = (bl_widgets layout)[i := ?w]" using assms(2) 2(1) by (auto simp: WidgetResize resizeWidget_def)
    then obtain j where j: "j < length (bl_widgets layout)" "w = (if j = i then ?w else bl_widgets layout ! j)"
      using assms(3) by (auto simp: in_set_conv_nth nth_list_update)
    have "bw_name (bl_widgets layout ! j) = name \<longleftrightarrow> j = i" using 2(2,3) j(1) assms(1) by (metis length_map nth_eq_iff_index_eq nth_map)
    then have "bw_core w = bw_core (bl_widgets layout ! j) \<and> bw_heightMode w = heightBy (bw_name (bl_widgets layout ! j)) (bw_heightMode (bl_widgets layout ! j)) op"
      unfolding j(2) WidgetResize heightBy_def by (cases "j = i") simp_all
    with nth_mem [OF j(1)] show ?thesis by blast
  qed (use assms(2) in \<open>simp add: WidgetResize resizeWidget_def\<close>)
next
  case (TabUpdate tabId title dock position)
  have "w \<in> set (bl_widgets layout)"
    using assms(2,3) by (auto simp: TabUpdate updateTab_def moveTab_def Let_def split: sum.splits if_splits option.splits)
  then show ?thesis by (auto simp: heightBy_def TabUpdate)
qed (use assms(2,3) in \<open>auto simp: heightBy_def createTab_def reorderTabs_def removeWidget_def Let_def split: if_splits sum.splits\<close>)

lemma core_name: "bw_core v = bw_core w \<Longrightarrow> bw_name v = bw_name w"
  by (drule arg_cong [where f = bw_name]) simp

lemma each_height:
  assumes "board_ok layout" "board_normal layout" "applyEach ops layout = Inr layout'" "w \<in> set (bl_widgets layout')"
  shows "\<exists>w' \<in> set (bl_widgets layout). bw_core w = bw_core w' \<and> bw_heightMode w = heightAfter ops (bw_name w') (bw_heightMode w')"
  using assms
proof (induction ops arbitrary: layout)
  case (Cons op ops)
  then obtain changed where op: "applyBoardOp op layout = Inr changed" and rest: "applyEach ops (normalizeBoardLayout changed) = Inr layout'"
    by (auto split: sum.splits)
  have ok: "board_ok (normalizeBoardLayout changed)" using op_ok [OF Cons.prems(1,2) op] by (simp add: normalize_ok)
  from Cons.IH [OF ok normalize_normal rest Cons.prems(4)] obtain v where v: "v \<in> set (bl_widgets (normalizeBoardLayout changed))"
    "bw_core w = bw_core v" "bw_heightMode w = heightAfter ops (bw_name v) (bw_heightMode v)" by blast
  have "mset (map heightOf (bl_widgets (normalizeBoardLayout changed))) = mset (map heightOf (bl_widgets changed))" by (rule normalize_core) simp
  from mset_eq_setD [OF this] have "heightOf ` set (bl_widgets (normalizeBoardLayout changed)) = heightOf ` set (bl_widgets changed)" by simp
  then have "heightOf v \<in> heightOf ` set (bl_widgets changed)" using v(1) by blast
  then obtain u where u: "u \<in> set (bl_widgets changed)" "heightOf v = heightOf u" by (rule imageE)
  have "distinct (map bw_name (bl_widgets layout))" using Cons.prems(1) unfolding board_ok_def by blast
  from op_height [OF this op u(1)] obtain w' where w': "w' \<in> set (bl_widgets layout)" "bw_core u = bw_core w'"
    "bw_heightMode u = heightBy (bw_name w') (bw_heightMode w') op" by blast
  have core: "bw_core v = bw_core w'" and height: "bw_heightMode v = heightBy (bw_name w') (bw_heightMode w') op" using u(2) w'(2,3) by simp_all
  have "bw_core w = bw_core w' \<and> bw_heightMode w = heightAfter (op # ops) (bw_name w') (bw_heightMode w')"
    unfolding v(2,3) core core_name [OF core] height by (simp add: heightAfter_def)
  with w'(1) show ?case by blast
qed (auto simp: heightAfter_def)

lemma applied:
  assumes "board_ok layout" "board_normal layout" "applyBoardOps layout ops = Inr layout'"
  shows "board_ok layout'" "board_normal layout'" "grid_sorted layout'"
    "\<And>w. w \<in> set (bl_widgets layout') \<Longrightarrow>
      \<exists>w' \<in> set (bl_widgets layout). bw_core w = bw_core w' \<and> bw_heightMode w = heightAfter ops (bw_name w') (bw_heightMode w')"
proof -
  obtain last where last: "applyEach ops layout = Inr last" "layout' = normalizeBoardLayout last"
    using map_sum_Inr [OF assms(3) [unfolded applyBoardOps_def]] by blast
  have ok: "board_ok last" using each_step(2) [OF assms(1,2) last(1)] by blast
  show "board_ok layout'" "board_normal layout'" "grid_sorted layout'"
    unfolding last(2) normalize_ok using ok normalize_normal normalize_sorted by blast+
  fix w assume w: "w \<in> set (bl_widgets layout')"
  have "mset (map heightOf (bl_widgets layout')) = mset (map heightOf (bl_widgets last))" unfolding last(2) by (rule normalize_core) simp
  from mset_eq_setD [OF this] have "heightOf ` set (bl_widgets layout') = heightOf ` set (bl_widgets last)" by simp
  then have "heightOf w \<in> heightOf ` set (bl_widgets last)" using w by blast
  then obtain u where u: "u \<in> set (bl_widgets last)" "heightOf w = heightOf u" by (rule imageE)
  from each_height [OF assms(1,2) last(1) u(1)] u(2) show "\<exists>w' \<in> set (bl_widgets layout). bw_core w = bw_core w' \<and>
      bw_heightMode w = heightAfter ops (bw_name w') (bw_heightMode w')" by simp
qed


lemma foldl_drop:
  "foldl (\<lambda>rs p. if P (key p) then rs else filter (\<lambda>r. key r \<noteq> key p) rs) xs ps =
     filter (\<lambda>r. \<forall>p \<in> set ps. P (key p) \<or> key r \<noteq> key p) xs"
proof (induction ps arbitrary: xs)
  case (Cons p ps)
  then show ?case by (cases "P (key p)") (auto intro!: filter_cong)
qed simp

lemma removed_rows:
  assumes "wr_name ` set (sr_widgets rows) \<subseteq> wr_name ` set (sb_widgetRows previous)"
  shows "sr_widgets (deleteRemovedWidgets previous S rows) = filter (\<lambda>r. wr_name r \<in> bw_name ` set (bl_widgets (bs_layout S))) (sr_widgets rows)"
proof -
  have "sr_widgets (deleteRemovedWidgets previous S rows) = filter (\<lambda>r. \<forall>p \<in> set (sb_widgetRows previous).
      wr_name p \<in> bw_name ` set (bl_widgets (bs_layout S)) \<or> wr_name r \<noteq> wr_name p) (sr_widgets rows)"
    unfolding deleteRemovedWidgets_def using foldl_drop [where key = wr_name and P = "\<lambda>n. n \<in> bw_name ` set (bl_widgets (bs_layout S))"] by simp
  also have "\<dots> = filter (\<lambda>r. wr_name r \<in> bw_name ` set (bl_widgets (bs_layout S))) (sr_widgets rows)"
  proof (rule filter_cong [OF refl])
    fix r assume "r \<in> set (sr_widgets rows)"
    then have "wr_name r \<in> wr_name ` set (sb_widgetRows previous)" using assms by blast
    then obtain p where "p \<in> set (sb_widgetRows previous)" "wr_name r = wr_name p" by (rule imageE)
    then show "(\<forall>p \<in> set (sb_widgetRows previous). wr_name p \<in> bw_name ` set (bl_widgets (bs_layout S)) \<or> wr_name r \<noteq> wr_name p) =
      (wr_name r \<in> bw_name ` set (bl_widgets (bs_layout S)))" by metis
  qed
  finally show ?thesis .
qed

lemma removed_tabs:
  assumes "\<forall>r \<in> set (sr_widgets rows). wr_tab_id r \<in> bt_tabId ` set (bl_tabs (bs_layout S))"
  shows "deleteRemovedTabs previous S rows = rows\<lparr>sr_tabs := filter (\<lambda>r. \<forall>p \<in> set (sb_tabRows previous).
    tr_tab_id p \<in> bt_tabId ` set (bl_tabs (bs_layout S)) \<or> tr_tab_id r \<noteq> tr_tab_id p) (sr_tabs rows)\<rparr>"
  unfolding deleteRemovedTabs_def using assms
proof (induction "sb_tabRows previous" arbitrary: rows previous)
  case (Cons p ps)
  let ?ids = "bt_tabId ` set (bl_tabs (bs_layout S))"
  note IH = Cons.hyps(1) [of "previous\<lparr>sb_tabRows := ps\<rparr>", simplified]
  show ?case
  proof (cases "tr_tab_id p \<in> ?ids")
    case True
    then show ?thesis using IH [OF Cons.prems] unfolding Cons.hyps(2) [symmetric] by simp
  next
    case False
    then have f: "filter (\<lambda>r. wr_tab_id r \<noteq> tr_tab_id p) (sr_widgets rows) = sr_widgets rows" using Cons.prems by (intro filter_True) metis
    have d: "deleteTabRow (tr_tab_id p) rows = rows\<lparr>sr_tabs := filter (\<lambda>r. tr_tab_id r \<noteq> tr_tab_id p) (sr_tabs rows)\<rparr>"
      unfolding deleteTabRow_def f by simp
    show ?thesis using IH [of "deleteTabRow (tr_tab_id p) rows"] Cons.prems False unfolding Cons.hyps(2) [symmetric] d
      by (simp add: d)
  qed
qed simp

text \<open>What the statements for height modes do to a row.\<close>

definition heightStep :: "stored_board \<Rightarrow> widget_row \<Rightarrow> board_op \<Rightarrow> widget_row" where
  "heightStep previous r op =
     (case (op, find (\<lambda>p. wr_name p = wr_name r) (sb_widgetRows previous)) of
        (WidgetResize n _ _ m, Some row) \<Rightarrow>
          if n = wr_name r then r\<lparr>wr_manifest := updateManifestHeightMode (wr_manifest row) (case m of Some m \<Rightarrow> m | None \<Rightarrow> FixedHeight)\<rparr> else r
      | _ \<Rightarrow> r)"

lemma heightStep_name [simp]: "wr_name (heightStep previous r op) = wr_name r"
  by (simp add: heightStep_def split: board_op.split option.split)

lemma height_step: "updateWidgetHeightMode previous rs op = map (\<lambda>r. heightStep previous r op) rs"
proof (cases op)
  case (WidgetResize n a b m)
  show ?thesis
  proof (cases "find (\<lambda>p. wr_name p = n) (sb_widgetRows previous)")
    case None
    have "heightStep previous r op = r" for r
      using None by (cases "n = wr_name r") (simp_all add: heightStep_def WidgetResize split: option.split)
    then show ?thesis by (simp add: WidgetResize updateWidgetHeightMode_def None)
  next
    case (Some row)
    have "heightStep previous r op =
        (if wr_name r = n then r\<lparr>wr_manifest := updateManifestHeightMode (wr_manifest row) (case m of Some m \<Rightarrow> m | None \<Rightarrow> FixedHeight)\<rparr> else r)" for r
      using Some by (cases "n = wr_name r") (simp_all add: heightStep_def WidgetResize split: option.split)
    then show ?thesis by (simp add: WidgetResize updateWidgetHeightMode_def Some updateWhere_def)
  qed
qed (simp_all add: updateWidgetHeightMode_def heightStep_def)

lemma height_rows: "foldl (updateWidgetHeightMode previous) rs ops = map (\<lambda>r. foldl (heightStep previous) r ops) rs"
  by (induction ops arbitrary: rs) (simp_all add: height_step comp_def)

lemma heights_row:
  assumes "find (\<lambda>p. wr_name p = wr_name r) (sb_widgetRows previous) = Some row" "wr_name r = bw_name v"
    and "rowHolds parse sha256 r content gen identity v"
    and "rowHolds parse sha256 (r\<lparr>wr_manifest := wr_manifest row\<rparr>) content gen identity (v\<lparr>bw_heightMode := h\<rparr>)"
  shows "rowHolds parse sha256 (foldl (heightStep previous) r ops) content gen identity (v\<lparr>bw_heightMode := heightAfter ops (bw_name v) (bw_heightMode v)\<rparr>)"
  using assms
proof (induction ops arbitrary: r v)
  case Nil
  then show ?case by (simp add: heightAfter_def)
next
  case (Cons op ops)
  define v1 where "v1 = v\<lparr>bw_heightMode := heightBy (bw_name v) (bw_heightMode v) op\<rparr>"
  have parts: "bw_name v1 = bw_name v" "v1\<lparr>bw_heightMode := x\<rparr> = v\<lparr>bw_heightMode := x\<rparr>"
    "bw_heightMode v1 = heightBy (bw_name v) (bw_heightMode v) op" for x
    by (simp_all add: v1_def)
  have manifest: "(heightStep previous r op)\<lparr>wr_manifest := x\<rparr> = r\<lparr>wr_manifest := x\<rparr>" for x
    by (simp add: heightStep_def split: board_op.split option.split)
  have "rowHolds parse sha256 (heightStep previous r op) content gen identity v1"
  proof (cases op)
    case (WidgetResize n a b m)
    show ?thesis
    proof (cases "n = bw_name v")
      case True
      have "heightStep previous r op = (r\<lparr>wr_manifest := wr_manifest row\<rparr>)
          \<lparr>wr_manifest := updateManifestHeightMode (wr_manifest (r\<lparr>wr_manifest := wr_manifest row\<rparr>)) (case m of Some m \<Rightarrow> m | None \<Rightarrow> FixedHeight)\<rparr>"
        using True Cons.prems(1,2) by (simp add: heightStep_def WidgetResize)
      moreover have "v1 = (v\<lparr>bw_heightMode := h\<rparr>)\<lparr>bw_heightMode := Some (case m of Some m \<Rightarrow> m | None \<Rightarrow> FixedHeight)\<rparr>"
        using True by (simp add: v1_def heightBy_def WidgetResize)
      ultimately show ?thesis using row_height [OF Cons.prems(4)] by (simp only:)
    qed (use Cons.prems(1-3) in \<open>simp add: heightStep_def WidgetResize v1_def heightBy_def split: option.split\<close>)
  qed (use Cons.prems(3) in \<open>simp_all add: heightStep_def v1_def heightBy_def\<close>)
  from Cons.IH [OF _ _ this] Cons.prems(1,2,4)
  have "rowHolds parse sha256 (foldl (heightStep previous) (heightStep previous r op) ops) content gen identity
      (v1\<lparr>bw_heightMode := heightAfter ops (bw_name v1) (bw_heightMode v1)\<rparr>)" unfolding manifest parts(1,2) heightStep_name .
  then show ?case unfolding parts heightAfter_def by simp
qed


lemma apply_cases:
  assumes "storeApplyOps parse key True now ops rows = Inr (rows', S')" "ops \<noteq> []"
  obtains previous layout where "readStoredBoard parse key rows = Inr previous" "applyBoardOps (bs_layout (sb_snapshot previous)) ops = Inr layout"
    "S' = \<lparr>bs_sessionKey = key, bs_revision = bs_revision (sb_snapshot previous) + 1, bs_layout = layout\<rparr>"
    "rows' = deleteRemovedTabs previous S' (updateWidgetHeightModes previous ops (updateWidgetLayouts S' now
      (deleteRemovedWidgets previous S' (upsertTabs previous S' rows))))"
  using assms that by (auto simp: storeApplyOps_def Let_def split: sum.splits)

text \<open>A board without tabs has no rows to keep its revision.\<close>

definition seenOps :: "board_snapshot \<Rightarrow> board_snapshot" where
  "seenOps S = (if bl_tabs (bs_layout S) = [] then S\<lparr>bs_revision := 0\<rparr> else S)"

lemma seenOps_parts: "bs_layout (seenOps S) = bs_layout S" "bs_sessionKey (seenOps S) = bs_sessionKey S"
  by (simp_all add: seenOps_def)

lemma image_kept: "A \<subseteq> f ` set xs \<Longrightarrow> f ` set (filter (\<lambda>x. f x \<in> A) xs) = A"
  by (auto simp: image_iff subset_iff)

lemma tabs_replaced:
  assumes "tabsHold (sr_tabs rows) S" "distinct (map bt_tabId (bl_tabs (bs_layout S')))" "set (sb_tabRows previous) = set (sr_tabs rows)"
  shows "tabsHold (filter (\<lambda>r. \<forall>p \<in> set (sb_tabRows previous). tr_tab_id p \<in> bt_tabId ` set (bl_tabs (bs_layout S')) \<or> tr_tab_id r \<noteq> tr_tab_id p)
    (sr_tabs (upsertTabs previous S' rows))) (seenOps S')"
proof -
  let ?ids = "bt_tabId ` set (bl_tabs (bs_layout S'))"
  let ?R = "foldl (upsertTab previous (bs_revision S')) (sr_tabs rows) (bl_tabs (bs_layout S'))"
  let ?F = "filter (\<lambda>r. \<forall>p \<in> set (sb_tabRows previous). tr_tab_id p \<in> ?ids \<or> tr_tab_id r \<noteq> tr_tab_id p) ?R"
  have h: "distinct (map tr_tab_id (sr_tabs rows))" using assms(1) unfolding tabsHold_def by blast
  note u = upserted [OF h assms(2), of previous "bs_revision S'"]
  have kept: "(\<forall>p \<in> set (sb_tabRows previous). tr_tab_id p \<in> ?ids \<or> tr_tab_id r \<noteq> tr_tab_id p) \<longleftrightarrow> tr_tab_id r \<in> ?ids" if "r \<in> set ?R" for r
  proof (cases "tr_tab_id r \<in> ?ids")
    case False
    then have "r \<in> set (sb_tabRows previous)" using u that unfolding assms(3) by metis
    with False show ?thesis by blast
  qed auto
  have F: "?F = filter (\<lambda>r. tr_tab_id r \<in> ?ids) ?R" by (rule filter_cong [OF refl kept])
  have rev: "tr_revision r = bs_revision (seenOps S')" if "r \<in> set ?R" "tr_tab_id r \<in> ?ids" for r
    using u that by (auto simp: seenOps_def)
  have "tr_tab_id ` set ?F = ?ids" unfolding F by (rule image_kept) (use u in blast)
  moreover have "distinct (map tr_tab_id ?F)" using u by (simp add: distinct_map_filter)
  moreover have "\<forall>r \<in> set ?F. rowToTab r \<in> set (bl_tabs (bs_layout S')) \<and> tr_revision r = bs_revision (seenOps S')"
    unfolding F using u rev by auto
  ultimately show ?thesis unfolding tabsHold_def seenOps_parts upsertTabs_def by simp
qed

lemma core_moved:
  assumes "bw_core w = bw_core v"
  shows "w\<lparr>bw_heightMode := bw_heightMode v\<rparr> =
    v\<lparr>bw_tabId := bw_tabId w, bw_title := bw_title w, bw_sizeW := bw_sizeW w, bw_sizeH := bw_sizeH w, bw_position := bw_position w\<rparr>"
  using assms by (cases v; cases w) (simp add: bw_core_def)

lemma heightSteps_parts:
  "wr_name (foldl (heightStep previous) r ops) = wr_name r" "wr_tab_id (foldl (heightStep previous) r ops) = wr_tab_id r"
  "wr_content_kind (foldl (heightStep previous) r ops) = wr_content_kind r" "wr_sha256 (foldl (heightStep previous) r ops) = wr_sha256 r"
  "wr_grant_state (foldl (heightStep previous) r ops) = wr_grant_state r"
proof -
  have step: "wr_name (heightStep previous r op) = wr_name r \<and> wr_tab_id (heightStep previous r op) = wr_tab_id r \<and>
      wr_content_kind (heightStep previous r op) = wr_content_kind r \<and> wr_sha256 (heightStep previous r op) = wr_sha256 r \<and>
      wr_grant_state (heightStep previous r op) = wr_grant_state r" for r op
    by (simp add: heightStep_def split: board_op.split option.split)
  have "wr_name (foldl (heightStep previous) r ops) = wr_name r \<and> wr_tab_id (foldl (heightStep previous) r ops) = wr_tab_id r \<and>
      wr_content_kind (foldl (heightStep previous) r ops) = wr_content_kind r \<and> wr_sha256 (foldl (heightStep previous) r ops) = wr_sha256 r \<and>
      wr_grant_state (foldl (heightStep previous) r ops) = wr_grant_state r"
    by (induction ops arbitrary: r) (simp_all add: step)
  then show "wr_name (foldl (heightStep previous) r ops) = wr_name r" "wr_tab_id (foldl (heightStep previous) r ops) = wr_tab_id r"
    "wr_content_kind (foldl (heightStep previous) r ops) = wr_content_kind r" "wr_sha256 (foldl (heightStep previous) r ops) = wr_sha256 r"
    "wr_grant_state (foldl (heightStep previous) r ops) = wr_grant_state r" by blast+
qed

lemma declared_core: "bw_core v = bw_core w \<Longrightarrow> bw_declared v = bw_declared w"
  by (drule arg_cong [where f = bw_declared]) (simp add: bw_core_def)


lemma row_arranged:
  fixes now
  assumes "rowHolds parse sha256 r content gen identity v" "find (\<lambda>p. wr_name p = wr_name r) (sb_widgetRows previous) = Some r"
    and "bw_core w = bw_core v" "bw_heightMode w = heightAfter ops (bw_name v) (bw_heightMode v)"
  defines "r' \<equiv> foldl (heightStep previous) (placeRow now w r) ops"
  shows "rowHolds parse sha256 r' content gen identity w" "wr_name r' = wr_name r" "wr_tab_id r' = bw_tabId w"
    "wr_grant_state r' = ''granted'' \<Longrightarrow> keepsGrant parse r' r"
proof -
  let ?v = "w\<lparr>bw_heightMode := bw_heightMode v\<rparr>"
  have names: "bw_name ?v = bw_name v" "wr_name r = bw_name v" using core_name [OF assms(3)] assms(1) unfolding rowHolds_def by simp_all
  have "?v = v\<lparr>bw_tabId := bw_tabId ?v, bw_title := bw_title ?v, bw_sizeW := bw_sizeW ?v, bw_sizeH := bw_sizeH ?v, bw_position := bw_position ?v\<rparr>"
    using core_moved [OF assms(3)] by simp
  from row_moved [OF assms(1) this, of now] have p: "rowHolds parse sha256 (placeRow now w r) content gen identity ?v" by (simp add: placeRow_def)
  have "rowHolds parse sha256 r' content gen identity (?v\<lparr>bw_heightMode := heightAfter ops (bw_name ?v) (bw_heightMode ?v)\<rparr>)"
    unfolding r'_def
  proof (rule heights_row [where row = r and h = "bw_heightMode v", OF _ _ p])
    have e: "(placeRow now w r)\<lparr>wr_manifest := wr_manifest r\<rparr> = placeRow now w r" by (cases r) (simp add: placeRow_def)
    show "rowHolds parse sha256 ((placeRow now w r)\<lparr>wr_manifest := wr_manifest r\<rparr>) content gen identity (?v\<lparr>bw_heightMode := bw_heightMode v\<rparr>)"
      unfolding e using p by simp
  qed (use names assms(2) in simp_all)
  moreover have "?v\<lparr>bw_heightMode := heightAfter ops (bw_name ?v) (bw_heightMode ?v)\<rparr> = w" unfolding names(1) using assms(4) by (cases w) simp
  ultimately show rh: "rowHolds parse sha256 r' content gen identity w" by simp
  show "wr_name r' = wr_name r" "wr_tab_id r' = bw_tabId w" by (simp_all add: r'_def heightSteps_parts placeRow_def)
  assume "wr_grant_state r' = ''granted''"
  then show "keepsGrant parse r' r" using row_manifest [OF rh] row_manifest [OF assms(1)] declared_core [OF assms(3)]
    by (simp add: keepsGrant_def r'_def heightSteps_parts manifestOf_def)
qed

lemma ops_holds:
  assumes "boardHolds parse sha256 rows S" "bs_sessionKey S = key" "storeApplyOps parse key True now ops rows = Inr (rows', S')"
  shows "boardHolds parse sha256 rows' (seenOps S')" "bs_sessionKey S' = key"
    "\<forall>r \<in> set (sr_widgets rows'). wr_grant_state r = ''granted'' \<longrightarrow> (\<exists>old \<in> set (sr_widgets rows). keepsGrant parse r old)"
proof -
  note h = assms(1) [unfolded boardHolds_def]
  let ?ws = "bl_widgets (bs_layout S)" and ?L = "bs_layout S'" and ?ws' = "bl_widgets (bs_layout S')"
  have wh: "widgetsHold parse sha256 (sr_widgets rows) ?ws" and th: "tabsHold (sr_tabs rows) S" using h by blast+
  obtain previous where read: "readStoredBoard parse key rows = Inr previous" "sb_snapshot previous = S"
    "set (sb_tabRows previous) = set (sr_tabs rows)" "mset (sb_widgetRows previous) = mset (sr_widgets rows)"
    using board_read [OF assms(1)] unfolding assms(2) by metis
  have "(boardHolds parse sha256 rows' (seenOps S') \<and> bs_sessionKey S' = key) \<and>
    (\<forall>r \<in> set (sr_widgets rows'). wr_grant_state r = ''granted'' \<longrightarrow> (\<exists>old \<in> set (sr_widgets rows). keepsGrant parse r old))"
  proof (cases "ops = []")
    case True
    then have same: "rows' = rows" "S' = S" using assms(3) read(1,2) by (auto simp: storeApplyOps_def getSnapshot_def)
    have "keepsGrant parse r r" if r: "r \<in> set (sr_widgets rows)" "wr_grant_state r = ''granted''" for r
    proof -
      have "distinct (map bw_name ?ws)" using h unfolding board_ok_def by blast
      from widgetOf_row [OF wh this r(1)] obtain content gen identity where "rowHolds parse sha256 r content gen identity (widgetOf ?ws r)" by metis
      from row_manifest [OF this] r(2) show ?thesis by (simp add: keepsGrant_def)
    qed
    moreover have "seenOps S = S" using h by (cases S) (simp add: seenOps_def)
    ultimately show ?thesis using assms(1,2) unfolding same by auto
  next
    case False
    obtain previous' layout where a: "readStoredBoard parse key rows = Inr previous'" "applyBoardOps (bs_layout (sb_snapshot previous')) ops = Inr layout"
      "S' = \<lparr>bs_sessionKey = key, bs_revision = bs_revision (sb_snapshot previous') + 1, bs_layout = layout\<rparr>"
      "rows' = deleteRemovedTabs previous' S' (updateWidgetHeightModes previous' ops (updateWidgetLayouts S' now
        (deleteRemovedWidgets previous' S' (upsertTabs previous' S' rows))))"
      by (rule apply_cases [OF assms(3) False])
    have prev: "previous' = previous" using a(1) read(1) by simp
    have L: "?L = layout" unfolding a(3) by simp
    have S: "board_ok (bs_layout S)" "board_normal (bs_layout S)" using h by blast+
    note ap = applied [OF S, of ops ?L, unfolded L, OF a(2) [unfolded prev read(2)], folded L]
    have names: "distinct (map bw_name ?ws')" "distinct (map bt_tabId (bl_tabs ?L))"
      and homes: "\<forall>w \<in> set ?ws'. bw_tabId w \<in> bt_tabId ` set (bl_tabs ?L)" using ap(1) unfolding board_ok_def by blast+
    have dr: "distinct (map wr_name (sr_widgets rows))" "wr_name ` set (sr_widgets rows) = bw_name ` set ?ws" using wh unfolding widgetsHold_def by blast+
    define R where "R = filter (\<lambda>r. wr_name r \<in> bw_name ` set ?ws') (sr_widgets rows)"
    let ?arranged = "\<lambda>r. foldl (heightStep previous) (case find (\<lambda>w. bw_name w = wr_name r) ?ws' of Some w \<Rightarrow> placeRow now w r | None \<Rightarrow> r) ops"
    have "sr_widgets (deleteRemovedWidgets previous S' (upsertTabs previous S' rows)) = R"
      using mset_eq_setD [OF read(4)] removed_rows [of "upsertTabs previous S' rows" previous S'] by (simp add: R_def upsertTabs_def)
    then have widgets: "sr_widgets (updateWidgetHeightModes previous ops (updateWidgetLayouts S' now
        (deleteRemovedWidgets previous S' (upsertTabs previous S' rows)))) = map ?arranged R"
      by (simp add: updateWidgetHeightModes_def updateWidgetLayouts_def widgets_placed [OF names(1)] height_rows comp_def)
    have row: "\<exists>w \<in> set ?ws'. ?arranged r = foldl (heightStep previous) (placeRow now w r) ops \<and> bw_name w = wr_name r \<and>
        (\<exists>content gen identity. rowHolds parse sha256 (?arranged r) content gen identity w) \<and>
        wr_name (?arranged r) = wr_name r \<and> wr_tab_id (?arranged r) = bw_tabId w \<and>
        (wr_grant_state (?arranged r) = ''granted'' \<longrightarrow> keepsGrant parse (?arranged r) r)" if r: "r \<in> set R" for r
    proof -
      have r': "r \<in> set (sr_widgets rows)" "wr_name r \<in> bw_name ` set ?ws'" using r unfolding R_def by simp_all
      then obtain w where w: "w \<in> set ?ws'" "bw_name w = wr_name r" by (metis imageE)
      obtain v where v: "v \<in> set ?ws" "bw_core w = bw_core v" "bw_heightMode w = heightAfter ops (bw_name v) (bw_heightMode v)"
        using ap(4) [OF w(1)] by blast
      obtain content gen identity where rh: "rowHolds parse sha256 r content gen identity v"
        using wh r'(1) v(1) core_name [OF v(2)] w(2) unfolding widgetsHold_def by metis
      have f: "find (\<lambda>p. wr_name p = wr_name r) (sb_widgetRows previous) = Some r"
        unfolding find_mset [OF read(4) dr(1)] by (rule find_key [OF dr(1) r'(1)])
      have "?arranged r = foldl (heightStep previous) (placeRow now w r) ops" using find_key [OF names(1) w(1)] by (simp add: w(2))
      with row_arranged [OF rh f v(2,3), of now] w show ?thesis by auto
    qed
    have tabs: "\<forall>r \<in> set (map ?arranged R). wr_tab_id r \<in> bt_tabId ` set (bl_tabs ?L)" unfolding set_map using row homes by fastforce
    have final: "sr_widgets rows' = map ?arranged R" and finalTabs: "sr_tabs rows' =
        filter (\<lambda>r. \<forall>p \<in> set (sb_tabRows previous). tr_tab_id p \<in> bt_tabId ` set (bl_tabs ?L) \<or> tr_tab_id r \<noteq> tr_tab_id p)
          (sr_tabs (upsertTabs previous S' rows))"
      unfolding a(4) prev removed_tabs [OF tabs [folded widgets]] using widgets
      by (simp_all add: updateWidgetHeightModes_def updateWidgetLayouts_def deleteRemovedWidgets_def)
    have rn: "map wr_name (map ?arranged R) = map wr_name R" by (simp add: heightSteps_parts split: option.split)
    have "widgetsHold parse sha256 (sr_widgets rows') ?ws'" unfolding final
    proof (rule widgetsHoldI)
      show "distinct (map wr_name (map ?arranged R))" using dr(1) by (simp only: rn) (simp add: R_def distinct_map_filter)
      have "bw_name ` set ?ws' \<subseteq> wr_name ` set (sr_widgets rows)"
      proof
        fix n assume "n \<in> bw_name ` set ?ws'"
        then obtain w where w: "w \<in> set ?ws'" "n = bw_name w" by (rule imageE)
        from ap(4) [OF w(1)] core_name show "n \<in> wr_name ` set (sr_widgets rows)" unfolding dr(2) w(2) by (metis image_eqI)
      qed
      then have "wr_name ` set R = bw_name ` set ?ws'" unfolding R_def by (rule image_kept)
      then show "wr_name ` set (map ?arranged R) = bw_name ` set ?ws'" using arg_cong [OF rn, of set] unfolding set_map by simp
      fix r assume "r \<in> set (map ?arranged R)"
      then obtain r0 where r0: "r0 \<in> set R" "r = ?arranged r0" unfolding set_map by (rule imageE)
      from row [OF r0(1)] show "\<exists>w \<in> set ?ws'. bw_name w = wr_name r \<and> (\<exists>content gen identity. rowHolds parse sha256 r content gen identity w)"
        unfolding r0(2) by (elim bexE conjE) (rule bexI, simp_all only: simp_thms)
    qed (rule names(1))
    moreover have "tabsHold (sr_tabs rows') (seenOps S')" unfolding finalTabs by (rule tabs_replaced [OF th names(2) read(3)])
    moreover have "0 \<le> bs_revision (seenOps S') \<and> (bl_tabs (bs_layout (seenOps S')) = [] \<longrightarrow> bs_revision (seenOps S') = 0)"
      using h by (simp add: seenOps_def a(3) prev read(2))
    ultimately have "boardHolds parse sha256 rows' (seenOps S')" using ap(1-3) unfolding boardHolds_def seenOps_parts by blast
    moreover have "\<exists>old \<in> set (sr_widgets rows). keepsGrant parse r old" if "r \<in> set (sr_widgets rows')" "wr_grant_state r = ''granted''" for r
    proof -
      from that(1) have "r \<in> ?arranged ` set R" unfolding final set_map .
      then obtain r0 where r0: "r0 \<in> set R" "r = ?arranged r0" by (rule imageE)
      have "r0 \<in> set (sr_widgets rows)" using r0(1) by (simp add: R_def)
      with row [OF r0(1)] that(2) show ?thesis unfolding r0(2) by blast
    qed
    ultimately show ?thesis using a(3) by simp
  qed
  then show "boardHolds parse sha256 rows' (seenOps S')" "bs_sessionKey S' = key"
    "\<forall>r \<in> set (sr_widgets rows'). wr_grant_state r = ''granted'' \<longrightarrow> (\<exists>old \<in> set (sr_widgets rows). keepsGrant parse r old)" by blast+
qed

end
