(* ===== verification/BoardHistory.thy ===== *)
theory BoardHistory
  imports BoardWrites
begin

text \<open>
  Boards under a history of operations: every put, decision and batch of board operations leaves rows that hold the snapshot it returned, so
  the next read returns that snapshot, and the pages served from the rows are the ones somebody approved.
\<close>

section \<open>Histories\<close>

text \<open>
  A board of one session after a history of operations: its rows, the snapshot the next reader gets, and for each approval the name
  approved and the rows it was given on.
\<close>

inductive boardRun :: "url_parser \<Rightarrow> (string \<Rightarrow> string) \<Rightarrow> string \<Rightarrow> stored_rows \<Rightarrow> board_snapshot \<Rightarrow> (string \<times> stored_rows) list \<Rightarrow> bool"
  for parse sha256 key where
  run_new: "boardRun parse sha256 key \<lparr>sr_tabs = [], sr_widgets = []\<rparr> (emptyBoardSnapshot key) []"
| run_put: "boardRun parse sha256 key rows S given \<Longrightarrow> requestOk params gen \<Longrightarrow>
    storePutWidget parse sha256 key True now gen params rows = Inr (rows', S', name) \<Longrightarrow>
    boardRun parse sha256 key rows' (seenPut (pa_content params) name S') given"
| run_grant: "boardRun parse sha256 key rows S given \<Longrightarrow> decision \<in> {Granted, GrantRejected} \<Longrightarrow>
    storeGrant parse key True now name decision revision instanceId rows = Inr (rows', S') \<Longrightarrow>
    boardRun parse sha256 key rows' S' (if decision = Granted then (name, rows) # given else given)"
| run_ops: "boardRun parse sha256 key rows S given \<Longrightarrow> storeApplyOps parse key True now ops rows = Inr (rows', S') \<Longrightarrow>
    boardRun parse sha256 key rows' (seenOps S') given"

lemma empty_holds: "boardHolds parse sha256 \<lparr>sr_tabs = [], sr_widgets = []\<rparr> (emptyBoardSnapshot key)"
  by (simp add: boardHolds_def emptyBoardSnapshot_def board_ok_def board_normal_def grid_sorted_def tabsHold_def widgetsHold_def MAX_POSITION_def)

lemma run_holds:
  assumes "boardRun parse sha256 key rows S given" "originSerialised parse"
  shows "boardHolds parse sha256 rows S \<and> bs_sessionKey S = key"
  using assms(1)
proof induction
  case run_new
  then show ?case using empty_holds by (simp add: emptyBoardSnapshot_def)
next
  case (run_put rows S given params gen now rows' S' name)
  then have h: "boardHolds parse sha256 rows S" "bs_sessionKey S = key" by blast+
  show ?case using put_holds [OF h assms(2) run_put.hyps(2,3)] by (simp only: seenPut_parts)
next
  case (run_grant rows S given decision now name revision instanceId rows' S')
  then have h: "boardHolds parse sha256 rows S" "bs_sessionKey S = key" by blast+
  show ?case using grant_holds(1,2) [OF h run_grant.hyps(2,3)] by blast
next
  case (run_ops rows S given now ops rows' S')
  then have h: "boardHolds parse sha256 rows S" "bs_sessionKey S = key" by blast+
  show ?case using ops_holds(1,2) [OF h run_ops.hyps(2)] by (simp only: seenOps_parts)
qed

text \<open>The row an approval was given on covers a granted row.\<close>

definition covered :: "url_parser \<Rightarrow> widget_row \<Rightarrow> widget_row \<Rightarrow> bool" where
  "covered parse r old \<longleftrightarrow> wr_name old = wr_name r \<and> wr_content_kind old = wr_content_kind r \<and>
     (wr_content_kind r \<noteq> ''mcp-app'' \<longrightarrow> wr_sha256 r = wr_sha256 old) \<and>
     (\<exists>m m'. parseManifest parse (wr_manifest old) = Inr m \<and> parseManifest parse (wr_manifest r) = Inr m' \<and>
        boardDeclarationIsSubset (pm_declared m') (pm_declared m))"

definition approvedRows :: "url_parser \<Rightarrow> (string \<Rightarrow> string) \<Rightarrow> stored_rows \<Rightarrow> (string \<times> stored_rows) list \<Rightarrow> bool" where
  "approvedRows parse sha256 rows given \<longleftrightarrow>
     (\<forall>r \<in> set (sr_widgets rows). wr_grant_state r = ''granted'' \<longrightarrow>
        (\<exists>before S old. (wr_name r, before) \<in> set given \<and> boardHolds parse sha256 before S \<and> old \<in> set (sr_widgets before) \<and> covered parse r old))"

lemma subset_trans: "boardDeclarationIsSubset a b \<Longrightarrow> boardDeclarationIsSubset b c \<Longrightarrow> boardDeclarationIsSubset a c"
  by (auto simp: boardDeclarationIsSubset_def list_all_iff)

lemma covered_trans:
  assumes "keepsGrant parse r mid" "covered parse mid old"
  shows "covered parse r old"
proof -
  obtain m m' where m: "parseManifest parse (wr_manifest mid) = Inr m" "parseManifest parse (wr_manifest r) = Inr m'"
    "boardDeclarationIsSubset (pm_declared m') (pm_declared m)" using assms(1) unfolding keepsGrant_def by blast
  obtain n where n: "parseManifest parse (wr_manifest old) = Inr n" "boardDeclarationIsSubset (pm_declared m) (pm_declared n)"
    using assms(2) m(1) unfolding covered_def by auto
  from m n subset_trans have "\<exists>a b. parseManifest parse (wr_manifest old) = Inr a \<and> parseManifest parse (wr_manifest r) = Inr b \<and>
    boardDeclarationIsSubset (pm_declared b) (pm_declared a)" by blast
  then show ?thesis using assms unfolding covered_def keepsGrant_def by simp
qed

lemma approved_kept:
  assumes "approvedRows parse sha256 rows given"
    and "\<And>r. r \<in> set (sr_widgets rows') \<Longrightarrow> wr_grant_state r = ''granted'' \<Longrightarrow> \<exists>mid \<in> set (sr_widgets rows). keepsGrant parse r mid"
  shows "approvedRows parse sha256 rows' given"
  unfolding approvedRows_def
proof (intro ballI impI)
  fix r assume r: "r \<in> set (sr_widgets rows')" "wr_grant_state r = ''granted''"
  from assms(2) [OF this] obtain mid where mid: "mid \<in> set (sr_widgets rows)" "keepsGrant parse r mid" by blast
  then have g: "wr_grant_state mid = ''granted''" "wr_name mid = wr_name r" unfolding keepsGrant_def by blast+
  then obtain before S old where "(wr_name r, before) \<in> set given" "boardHolds parse sha256 before S" "old \<in> set (sr_widgets before)" "covered parse mid old"
    using assms(1) mid(1) unfolding approvedRows_def by metis
  with covered_trans [OF mid(2)] show "\<exists>before S old. (wr_name r, before) \<in> set given \<and> boardHolds parse sha256 before S \<and>
    old \<in> set (sr_widgets before) \<and> covered parse r old" by blast
qed

lemma run_approved:
  assumes "boardRun parse sha256 key rows S given" "originSerialised parse"
  shows "approvedRows parse sha256 rows given"
  using assms(1)
proof induction
  case run_new
  then show ?case by (simp add: approvedRows_def)
next
  case (run_put rows S given params gen now rows' S' name)
  have "boardHolds parse sha256 rows S" "bs_sessionKey S = key" using run_holds [OF run_put.hyps(1) assms(2)] by blast+
  from put_grants [OF this assms(2) run_put.hyps(2,3)] show ?case by (rule approved_kept [OF run_put.IH])
next
  case (run_grant rows S given decision now name revision instanceId rows' S')
  have h: "boardHolds parse sha256 rows S" "bs_sessionKey S = key" using run_holds [OF run_grant.hyps(1) assms(2)] by blast+
  obtain row m where g: "row \<in> set (sr_widgets rows)" "wr_name row = name" "parseManifest parse (wr_manifest row) = Inr m"
    "\<forall>r \<in> set (sr_widgets rows'). if wr_name r = name then wr_sha256 r = wr_sha256 row \<and> wr_content_kind r = wr_content_kind row \<and>
         wr_grant_state r = grantText decision \<and> (\<exists>m'. parseManifest parse (wr_manifest r) = Inr m' \<and> pm_declared m' = pm_declared m)
       else r \<in> set (sr_widgets rows)"
    using grant_holds(3) [OF h run_grant.hyps(2,3)] by blast
  show ?case unfolding approvedRows_def
  proof (intro ballI impI)
    fix r assume r: "r \<in> set (sr_widgets rows')" "wr_grant_state r = ''granted''"
    show "\<exists>before S old. (wr_name r, before) \<in> set (if decision = Granted then (name, rows) # given else given) \<and> boardHolds parse sha256 before S \<and>
        old \<in> set (sr_widgets before) \<and> covered parse r old"
    proof (cases "wr_name r = name")
      case True
      with bspec [OF g(4) r(1)] have n: "wr_sha256 r = wr_sha256 row \<and> wr_content_kind r = wr_content_kind row \<and>
         wr_grant_state r = grantText decision \<and> (\<exists>m'. parseManifest parse (wr_manifest r) = Inr m' \<and> pm_declared m' = pm_declared m)" by simp
      then have "decision = Granted" using r(2) granted_text by metis
      moreover have "covered parse r row" using n g(2,3) True by (auto simp: covered_def)
      ultimately show ?thesis using h(1) g(1) True by auto
    next
      case False
      with bspec [OF g(4) r(1)] have "r \<in> set (sr_widgets rows)" by simp
      with run_grant.IH r(2) obtain before T old where "(wr_name r, before) \<in> set given" "boardHolds parse sha256 before T" "old \<in> set (sr_widgets before)"
        "covered parse r old" unfolding approvedRows_def by blast
      then show ?thesis by (intro exI conjI) auto
    qed
  qed
next
  case (run_ops rows S given now ops rows' S')
  have "boardHolds parse sha256 rows S" "bs_sessionKey S = key" using run_holds [OF run_ops.hyps(1) assms(2)] by blast+
  from ops_holds(3) [OF this run_ops.hyps(2)] show ?case by (intro approved_kept [OF run_ops.IH]) blast
qed


section \<open>Properties\<close>

text \<open>
  C33. A stored board survives storage: after any history of puts, decisions and batches of layout operations, reading the rows succeeds and
  gives the well formed board that the last operation returned, widget for widget (the props of a widget just put are those
  of its content, and a board without tabs starts again at revision 0).
\<close>

theorem stored_board_reads_back:
  assumes "originSerialised parse" and "boardRun parse sha256 key rows S given"
  shows "getSnapshot parse key True rows = Inr S \<and> board_ok (bs_layout S) \<and> board_normal (bs_layout S)"
proof -
  have h: "boardHolds parse sha256 rows S" "bs_sessionKey S = key" using run_holds [OF assms(2,1)] by blast+
  obtain previous where "readStoredBoard parse key rows = Inr previous" "sb_snapshot previous = S" using board_read [OF h(1)] unfolding h(2) by metis
  with h show ?thesis unfolding boardHolds_def by (simp add: getSnapshot_def)
qed

lemma html_served:
  assumes "boardHolds parse sha256 rows S" "r \<in> set (sr_widgets rows)" "wr_content_kind r = ''html''"
    and "parseManifest parse (wr_manifest r) = Inr m"
  shows "\<exists>doc. readWidgetHtml parse True (wr_name r) rows = Inr (Some doc) \<and> hd_sha256 doc = wr_sha256 r \<and>
    hd_sha256 doc = sha256 (hd_html doc) \<and> hd_declared doc = pm_declared m"
proof -
  note h = assms(1) [unfolded boardHolds_def]
  let ?ws = "bl_widgets (bs_layout S)"
  have wh: "widgetsHold parse sha256 (sr_widgets rows) ?ws" using h by blast
  have "distinct (map bw_name ?ws)" using h unfolding board_ok_def by blast
  from widgetOf_row [OF wh this assms(2)] obtain content gen identity where rh: "rowHolds parse sha256 r content gen identity (widgetOf ?ws r)" by metis
  have "distinct (map wr_name (sr_widgets rows))" using wh unfolding widgetsHold_def by blast
  from find_key [OF this assms(2)] have f: "readWidgetRow True (wr_name r) rows = Some r" by (simp add: readWidgetRow_def)
  obtain html where html: "content = PutHtml html" using rh assms(3) unfolding rowHolds_def by (cases content) auto
  have "wr_html r = Some html" "wr_sha256 r = sha256 html" "wr_view_generation r = Some gen" using rh unfolding rowHolds_def html by simp_all
  then show ?thesis using assms(3,4) unfolding readWidgetHtml_def f by (simp add: rowToHtmlDocument_def)
qed

text \<open>
  C32. A page served with a grant is the page that was approved: in every history, when a widget's html is served as granted, somebody approved
  that widget by name when the board served a page with the same digest, the digest of its bytes, and with at least the origins and tools
  that are declared now.
\<close>

theorem served_html_is_approved:
  assumes "originSerialised parse" and "boardRun parse sha256 key rows S given"
    and "readWidgetHtml parse True name rows = Inr (Some doc)" and "hd_grantState doc = Granted"
  shows "\<exists>before seen. (name, before) \<in> set given \<and> readWidgetHtml parse True name before = Inr (Some seen) \<and>
    sha256 (hd_html seen) = sha256 (hd_html doc) \<and> hd_sha256 doc = sha256 (hd_html doc) \<and>
    boardDeclarationIsSubset (hd_declared doc) (hd_declared seen)"
proof -
  have h: "boardHolds parse sha256 rows S" using run_holds [OF assms(2,1)] by blast
  obtain r where f: "find (\<lambda>r. wr_name r = name) (sr_widgets rows) = Some r" and doc: "rowToHtmlDocument parse r = Inr (Some doc)"
    using assms(3) by (auto simp: readWidgetHtml_def readWidgetRow_def split: option.splits)
  have r: "r \<in> set (sr_widgets rows)" "wr_name r = name" using f by (auto simp: find_Some_iff)
  obtain m where m: "wr_content_kind r = ''html''" "parseManifest parse (wr_manifest r) = Inr m"
    "hd_grantState doc = effectiveGrantState (wr_grant_state r) m" "hd_declared doc = pm_declared m"
    using doc by (auto simp: rowToHtmlDocument_def split: bool.splits option.splits dest!: map_sum_Inr)
  have "wr_grant_state r = ''granted''" using assms(4) m(3) by (auto simp: effectiveGrantState_def Let_def split: if_splits)
  then obtain before T old where old: "(name, before) \<in> set given" "boardHolds parse sha256 before T" "old \<in> set (sr_widgets before)" "covered parse r old"
    using run_approved [OF assms(2,1)] r unfolding approvedRows_def by metis
  then obtain n where n: "parseManifest parse (wr_manifest old) = Inr n" "boardDeclarationIsSubset (pm_declared m) (pm_declared n)"
    "wr_name old = name" "wr_content_kind old = ''html''" "wr_sha256 r = wr_sha256 old"
    using m(1,2) r(2) unfolding covered_def by auto
  obtain seen where seen: "readWidgetHtml parse True name before = Inr (Some seen)" "hd_sha256 seen = wr_sha256 old"
    "hd_sha256 seen = sha256 (hd_html seen)" "hd_declared seen = pm_declared n"
    using html_served [OF old(2,3) n(4,1)] unfolding n(3) by blast
  obtain doc' where "readWidgetHtml parse True name rows = Inr (Some doc')" "hd_sha256 doc' = wr_sha256 r" "hd_sha256 doc' = sha256 (hd_html doc')"
    using html_served [OF h r(1) m(1,2)] unfolding r(2) by blast
  then have "hd_sha256 doc = wr_sha256 r" "hd_sha256 doc = sha256 (hd_html doc)" using assms(3) by simp_all
  with old(1) seen n m(4) show ?thesis by auto
qed

section \<open>Witnesses\<close>

definition demoGen :: string where
  "demoGen = replicate 32 (CHR ''a'')"

definition demoPutOn :: "stored_rows \<Rightarrow> stored_rows \<times> board_snapshot \<times> string" where
  "demoPutOn rows = projr (storePutWidget demoParse (\<lambda>s. s) ''s'' True 7 demoGen (demoPut ''alpha'' None) rows)"

definition demoFirst :: stored_rows where
  "demoFirst = fst (demoPutOn \<lparr>sr_tabs = [], sr_widgets = []\<rparr>)"

definition demoApproved :: stored_rows where
  "demoApproved = fst (projr (storeGrant demoParse ''s'' True 8 ''alpha'' Granted 1 (Some demoGen) demoFirst))"

definition demoAgain :: stored_rows where
  "demoAgain = fst (demoPutOn demoApproved)"

lemma demo_put: "\<not> isl (storePutWidget demoParse (\<lambda>s. s) ''s'' True 7 demoGen (demoPut ''alpha'' None) rows) \<Longrightarrow>
    boardRun demoParse (\<lambda>s. s) ''s'' rows S given \<Longrightarrow> \<exists>S'. boardRun demoParse (\<lambda>s. s) ''s'' (fst (demoPutOn rows)) S' given"
proof -
  assume ok: "\<not> isl (storePutWidget demoParse (\<lambda>s. s) ''s'' True 7 demoGen (demoPut ''alpha'' None) rows)"
    and run: "boardRun demoParse (\<lambda>s. s) ''s'' rows S given"
  then obtain rows' S' name where p: "storePutWidget demoParse (\<lambda>s. s) ''s'' True 7 demoGen (demoPut ''alpha'' None) rows = Inr (rows', S', name)"
    by (cases "storePutWidget demoParse (\<lambda>s. s) ''s'' True 7 demoGen (demoPut ''alpha'' None) rows") auto
  have "requestOk (demoPut ''alpha'' None) demoGen" by code_simp
  from run_put [OF run this p] p show ?thesis by (auto simp: demoPutOn_def)
qed

lemma demo_history:
  obtains S T where "boardRun demoParse (\<lambda>s. s) ''s'' demoApproved S [(''alpha'', demoFirst)]"
    "boardRun demoParse (\<lambda>s. s) ''s'' demoAgain T [(''alpha'', demoFirst)]"
proof -
  have "\<not> isl (storePutWidget demoParse (\<lambda>s. s) ''s'' True 7 demoGen (demoPut ''alpha'' None) \<lparr>sr_tabs = [], sr_widgets = []\<rparr>)" by code_simp
  from demo_put [OF this run_new] obtain S where one: "boardRun demoParse (\<lambda>s. s) ''s'' demoFirst S []" unfolding demoFirst_def by blast
  let ?g = "storeGrant demoParse ''s'' True 8 ''alpha'' Granted 1 (Some demoGen) demoFirst"
  have "\<not> isl ?g" by code_simp
  then obtain rows S' where g: "?g = Inr (rows, S')" by (cases ?g) auto
  then have rows: "rows = demoApproved" by (simp add: demoApproved_def)
  from run_grant [OF one _ g] have two: "boardRun demoParse (\<lambda>s. s) ''s'' demoApproved S' [(''alpha'', demoFirst)]" unfolding rows by simp
  have "\<not> isl (storePutWidget demoParse (\<lambda>s. s) ''s'' True 7 demoGen (demoPut ''alpha'' None) demoApproved)" by code_simp
  from demo_put [OF this two] obtain T where "boardRun demoParse (\<lambda>s. s) ''s'' demoAgain T [(''alpha'', demoFirst)]" unfolding demoAgain_def by blast
  with that two show ?thesis by blast
qed

theorem stored_board_reads_back_witness:
  "\<exists>S. getSnapshot demoParse ''s'' True demoAgain = Inr S \<and> map bw_name (bl_widgets (bs_layout S)) = [''alpha'']"
proof -
  obtain S T where "boardRun demoParse (\<lambda>s. s) ''s'' demoAgain T [(''alpha'', demoFirst)]" by (rule demo_history)
  from stored_board_reads_back [OF demoParse_serialised this] have "getSnapshot demoParse ''s'' True demoAgain = Inr T" by blast
  moreover have "map (\<lambda>w. bw_name w) (bl_widgets (bs_layout (projr (getSnapshot demoParse ''s'' True demoAgain)))) = [''alpha'']" by code_simp
  ultimately show ?thesis by simp
qed

theorem served_html_is_approved_witness:
  "\<exists>seen. readWidgetHtml demoParse True ''alpha'' demoFirst = Inr (Some seen) \<and> hd_grantState seen = GrantPending \<and> hd_html seen = ''<p>''"
proof -
  obtain S T where run: "boardRun demoParse (\<lambda>s. s) ''s'' demoAgain T [(''alpha'', demoFirst)]" by (rule demo_history)
  let ?d = "readWidgetHtml demoParse True ''alpha'' demoAgain"
  have "case ?d of Inr (Some doc) \<Rightarrow> hd_grantState doc = Granted \<and> hd_html doc = ''<p>'' | _ \<Rightarrow> False" by code_simp
  then obtain doc where d: "?d = Inr (Some doc)" "hd_grantState doc = Granted" "hd_html doc = ''<p>''" by (auto split: sum.splits option.splits)
  from served_html_is_approved [OF demoParse_serialised run d(1,2)] d(3)
  obtain seen where seen: "readWidgetHtml demoParse True ''alpha'' demoFirst = Inr (Some seen)" "hd_html seen = ''<p>''" by auto
  have "case readWidgetHtml demoParse True ''alpha'' demoFirst of Inr (Some doc) \<Rightarrow> hd_grantState doc = GrantPending | _ \<Rightarrow> False" by code_simp
  with seen show ?thesis by simp
qed

end
