(* ===== verification/Spec2Isabelle.thy ===== *)
theory Spec2Isabelle
  imports CommandQueueProgress IngressRuntime ExecAuthorization RouteAudit AuthRateLimit RequestBudgets BoardHistory
begin

text \<open>
  A verification library for the OpenClaw gateway: a process that receives messages from chat channels,
  decides who may talk to the assistant, queues the resulting work, and runs commands on the host under an
  approval policy. Paths below are relative to the repository's \<open>src/\<close> directory unless a package is named.

  Six subsystems are modelled, in the order a message meets them, then what the assistant shows and the limits in front.

  Ingress (\<open>channels/message-access\<close>). An inbound event carries a subject; raw allowlists, access groups and
  route descriptors are resolved into a state, and the state and the policy into a graph of gates and one
  decision.
    \<open>IngressTypes\<close>: the data of types.ts and of mention gating. \<open>IngressState\<close>: state.ts and
    allow-from.ts, allowlists and membership facts. \<open>IngressDecision\<close>: allowlist.ts, sender-gates.ts,
    decision.ts, command-gating.ts and mention-gating.ts. \<open>IngressIdentity\<close>: runtime-identity.ts (the adapter every
    channel shares) and runtime-access-groups.ts; locale \<open>match_source\<close> is what the resolver needs of a matcher, and the
    adapter is its interpretation. \<open>IngressRuntime\<close>: runtime.ts, the resolver and its projections.
    \<open>IngressProps\<close>: who is dispatched, when pairing is offered, when commands and mentions let a turn
    through, and what cannot influence the decision.

  Routing (\<open>routing\<close>, \<open>sessions\<close>). A dispatched message is given to an agent and a session.
    \<open>Identifiers\<close>: agent and account ids, chat types, binding scopes. \<open>AgentRoster\<close>: the configured agents and
    the owner of unnamed work (agents/agent-scope-config.ts). \<open>SessionKeys\<close>: normalising, parsing and building session keys
    (sessions/session-key-utils.ts, routing/session-key.ts); what a key tells of its route. \<open>Routing\<close>: resolve-route.ts, from
    bindings through the index and the tiers to the cached route. \<open>RoutingProps\<close>: the search against its
    specification, the cache, and what every route guarantees. \<open>RouteAudit\<close>: the security audit's listing of the bindings
    a group message can reach, and that it is exact. The three caches are interpretations of the Prelude's locale
    \<open>memo_table\<close>: a bounded table in front of a function cannot be observed.

  Work (\<open>process\<close>). Accepted turns become commands in lanes.
    \<open>LaneQueue\<close>: the ring buffers and priority queue of command-queue.state.ts, with the locales \<open>consumer\<close>
    and \<open>fifo\<close> for what a client relies on. \<open>LaneGroups\<close>: command-queue.capacity-groups.ts, budgets and reservations
    shared by lanes; locale \<open>bounded_drain\<close> is what the group arbiter needs of a drain. \<open>WorkAdmission\<close>: gateway-work-admission.ts, root leases, restart and
    suspension fences, waiters. \<open>CommandQueue\<close>: command-queue.ts, every exported operation and the completion of
    tasks. \<open>CommandQueueInv\<close>, \<open>CommandQueueProps\<close>, \<open>CommandQueueProgress\<close>: well-formedness, capacity
    and work conservation over runs; locale \<open>drain_rule\<close> gives induction over every drain from a law about one start.

  Host execution (\<open>infra/exec-approvals-*.ts\<close>). A command is planned under the policy of its agent, perhaps shown
  to a person, and revalidated against the approvals file in the moment it runs.
    \<open>ExecPolicy\<close>: levels, modes and the decisions offered; the levels are ordered types. \<open>ExecResolver\<close>: the
    persisted file, its normal form and the effective policy. \<open>ExecAuthorization\<close>: portable policy
    snapshots, allow-always grants and the commit-time check; the canonical order of rules is an interpretation of the Prelude's \<open>strict_comparator\<close>.

  Boards (\<open>boards\<close>). The dashboards a session shows, whose widgets may be granted network origins and tools by an operator.
    \<open>BoardLayout\<close>: board-layout.ts, tabs and widgets with stored positions and the operations on them, shown to implement
    the lists a user sees; the sorts are interpretations of the Prelude's locale \<open>comparator\<close>. \<open>BoardCapabilities\<close>: board-capabilities.ts and the
    policy of agents/sandbox-host.ts, what a widget may declare and its normal form. \<open>BoardGrants\<close>: board-store.ts, putting a
    widget, the names of generated widgets, and which grants survive a put. \<open>BoardCodec\<close>: sqlite-board-codec.ts, the rows of tabs and
    widgets, their JSON manifest and what a row reads as. \<open>BoardStore\<close>: sqlite-board-store.ts, every operation of the store as its statements
    on those rows. \<open>BoardRows\<close>, \<open>BoardWrites\<close>, \<open>BoardHistory\<close>: rows hold a board, each operation keeps that, and so, over any history,
    reads return what was written and a page is served as granted only when it was approved. The URL parser and the digest are parameters.

  Limits (\<open>gateway\<close>, \<open>infra\<close>). What bounds hostile or repeated requests before they reach the rest.
    \<open>AuthRateLimit\<close>: gateway/auth-rate-limit.ts, the sliding window of failed logins with its lockouts, its cap on clients and the
    delays of loopback clients; its timers are operations of a run that may happen once they are due, and address parsing is a
    parameter. \<open>RequestBudgets\<close>: infra/fixed-window-rate-limit.ts, the write budget of gateway/control-plane-rate-limit.ts,
    shown to be that window per client, and the duplicate cache of infra/dedupe.ts.

  \<open>Prelude\<close> holds the JavaScript operations the components share (numbers with the non-finite values, trimming, Map
  and Set with their insertion order, stable sorting, arrays by index, code units and UTF-8 bytes) and \<open>NumberCoercion\<close> the readers of
  packages/normalization-core/src/number-coercion.ts that bound every delay, limit and timestamp.

  How state corresponds to the code. Module-level singletons are records passed explicitly (\<open>queue_state\<close>,
  \<open>admission_state\<close>); objects compared by identity live in a store keyed by number (roots, leases, started tasks,
  lane objects). One call of an exported function is one step, as JavaScript runs it without interruption; callbacks
  and promises that run later are steps of their own (\<open>finishTask\<close>, resolved waiters). Time, random ids, digests,
  configured matchers and stores are arguments. A cache keyed by a configuration object is a table for that configuration. Exceptions are values of a sum or option type. A JavaScript Map is an
  association list in insertion order; a field that may be absent is an option.

  Bounds and fuel. The drain of a lane and of a group loop until nothing can start; they carry fuel, at least the number of
  queued entries, and each pass starts an entry, so the loop ends before the fuel does
  (\<open>drainLane\<close>, \<open>drainCommandLaneGroup\<close>; \<open>no_admissible_work_waits\<close> is stated on their results and would fail if the fuel
  ran out). Numbers are exact; the readers check the ranges in which a double is exact.

  Not modelled. In the queue: log lines, diagnostics and re-entrant callbacks during a drain. In ingress:
  admission evidence and channel plugins. In routing: debug logging, replaced configuration objects, agent
  configuration merging and workspace directories. In host execution: shell parsing and pattern derivation from a
  command's authorization plan, the SQLite store around the update callbacks, zod parsing, sockets and tokens. In the boards: creating
  the tables, connections and transactions (an operation that fails leaves its rows), the list of all sessions with boards, rows written by
  older versions, frame tickets and notices, the sandbox proxy's HTML. In the limits: parsing of addresses, the
  serialisation of attempts and the registry of shared caches. Outside these
  subsystems: channel transports, model providers, agents, the gateway's request handlers, memory, the
  user interfaces, the mobile applications and the extensions.
\<close>

section \<open>Properties that span components\<close>

text \<open>
  C9. A chain from before an in-process restart cannot slip work past it: after \<open>resetAllLanes\<close> an
  enqueue made in the context of a root that was active before is refused and changes nothing, while
  a fresh caller's enqueue is accepted, under the next command number.
\<close>

theorem old_chain_cannot_enqueue:
  assumes "admission_reachable adm" and "c \<in> set (activeRootWork adm)"
  shows "let adm' = fst (resetAllLanes adm s) in
    enqueueCommandInLane (Some c) adm' l tsk opts t = (None, t) \<and>
    fst (enqueueCommandInLane None adm' l tsk opts t) = Some (nextQueueSequence t)"
proof -
  have t: "\<not> restartDraining (resetGatewayWorkAdmission adm)" "\<not> restartSignalPending (resetGatewayWorkAdmission adm)"
    "suspendPhase (resetGatewayWorkAdmission adm) = Accepting" "activeRootWork (resetGatewayWorkAdmission adm) = []"
    "roots (resetGatewayWorkAdmission adm) c = retireRoot (roots adm c)"
    using assms(2) by (auto simp: resetGatewayWorkAdmission_def Let_def)
  have n: "nextQueueSequence (snd (getLaneState k t)) = nextQueueSequence t" for k
    by (cases rule: getLaneState_cases [of t k]) simp_all
  from t n [of "normalizeLane l"] show ?thesis
    by (simp add: resetAllLanes_def enqueueCommandInLane_def isGatewaySubordinateWorkAdmissionClosed_def
        retireRoot_def Let_def split_beta)
qed

theorem old_chain_cannot_enqueue_witness:
  "0 \<in> set (activeRootWork busySuspending) \<and>
   enqueueCommandInLane (Some 0) (fst (resetAllLanes busySuspending demoWaiting)) ''x'' 3 demoOptions demoWaiting
     = (None, demoWaiting)"
proof -
  have c: "0 \<in> set (activeRootWork busySuspending)" by (simp add: busySuspending_def admission_eval)
  note refused = old_chain_cannot_enqueue [OF busySuspending_reachable c, of demoWaiting "''x''" 3 demoOptions demoWaiting,
    unfolded Let_def, THEN conjunct1]
  show ?thesis by (rule conjI [OF c refused])
qed

end
